(* ===== verification/Js_Prelude.thy ===== *)
theory Js_Prelude
  imports Main "HOL-Library.Word" "HOL-Library.AList" "HOL-Library.Multiset"
begin

text \<open>
  The prelude of the development: the parts of the JavaScript language and of its standard
  library that the modelled packages use, and the generic lemmas the component theories share.

  \<^item> A computation that may throw is a value of \<open>'e + 'a\<close>: \<open>Inl\<close> is the thrown error, \<open>Inr\<close> the
    returned value; \<open>andThen\<close> sequences two of them, \<open>require\<close> is an \<open>if (!c) throw e\<close>, and
    \<open>foldR\<close> is a \<open>for\<close> loop whose body may throw.
  \<^item> A JavaScript number is an IEEE 754 double. \<open>js_number\<close> has one constructor per class the
    modelled code tells apart (an integer, minus zero, a finite fraction kept as its 64-bit pattern,
    an infinity, NaN), and \<open>float_of_bits\<close> classifies a bit pattern.
  \<^item> \<open>Map\<close> keeps insertion order: it is an association list with \<open>AList.update\<close> for \<open>set\<close>,
    \<open>map_of\<close> for \<open>get\<close> and \<open>AList.delete\<close> for \<open>delete\<close>. \<open>Set\<close> is \<open>'a set\<close> where only membership
    is used.
  \<^item> \<open>Array.prototype.sort\<close> by a sequence number is the library's stable \<open>sort_key\<close>.
\<close>

section \<open>Computations that may throw\<close>

definition andThen :: "'e + 'a \<Rightarrow> ('a \<Rightarrow> 'e + 'b) \<Rightarrow> 'e + 'b" where
  "andThen m f = (case m of Inl e \<Rightarrow> Inl e | Inr x \<Rightarrow> f x)"

definition require :: "bool \<Rightarrow> 'e \<Rightarrow> 'e + unit" where
  "require c e = (if c then Inr () else Inl e)"

fun foldR :: "('s \<Rightarrow> 'x \<Rightarrow> 'e + 's) \<Rightarrow> 's \<Rightarrow> 'x list \<Rightarrow> 'e + 's" where
  "foldR f s [] = Inr s"
| "foldR f s (x # xs) = andThen (f s x) (\<lambda>s'. foldR f s' xs)"

named_theorems throws "unfolding of the throwing combinators"

lemma andThen_Inl [simp, throws]: "andThen (Inl e) f = Inl e"
  by (simp add: andThen_def)

lemma andThen_Inr [simp, throws]: "andThen (Inr x) f = f x"
  by (simp add: andThen_def)

lemma require_True [simp, throws]: "require True e = Inr ()"
  by (simp add: require_def)

lemma require_False [simp, throws]: "require False e = Inl e"
  by (simp add: require_def)

lemma andThen_eq_Inr [throws]:
  "andThen m f = Inr y \<longleftrightarrow> (\<exists>x. m = Inr x \<and> f x = Inr y)"
  by (cases m) simp_all

lemma andThen_eq_Inl [throws]:
  "andThen m f = Inl e \<longleftrightarrow> m = Inl e \<or> (\<exists>x. m = Inr x \<and> f x = Inl e)"
  by (cases m) simp_all

lemma require_eq_Inr [simp, throws]: "require c e = Inr u \<longleftrightarrow> c"
  by (simp add: require_def)

lemma require_eq_Inl [simp, throws]: "require c e = Inl e' \<longleftrightarrow> \<not> c \<and> e' = e"
  by (auto simp: require_def)

lemma andThen_assoc: "andThen (andThen m f) g = andThen m (\<lambda>x. andThen (f x) g)"
  by (cases m) simp_all

lemma andThen_cong [fundef_cong]:
  "m = m' \<Longrightarrow> (\<And>x. m' = Inr x \<Longrightarrow> f x = f' x) \<Longrightarrow> andThen m f = andThen m' f'"
  by (cases m') simp_all

lemma foldR_append: "foldR f s (xs @ ys) = andThen (foldR f s xs) (\<lambda>s'. foldR f s' ys)"
  by (induction xs arbitrary: s) (simp_all add: andThen_assoc)

lemma foldR_cong [fundef_cong]:
  assumes "xs = ys" "s = t" and "\<And>s x. x \<in> set ys \<Longrightarrow> f s x = g s x"
  shows "foldR f s xs = foldR g t ys"
proof -
  have "foldR f s ys = foldR g s ys" if "\<And>s x. x \<in> set ys \<Longrightarrow> f s x = g s x" for s ys
    using that
  proof (induction ys arbitrary: s)
    case (Cons y ys)
    then have "f s y = g s y" and "\<And>s. foldR f s ys = foldR g s ys" by simp_all
    then show ?case by simp
  qed simp
  with assms show ?thesis by simp
qed

text \<open>An invariant of a throwing loop, for every iteration that returns.\<close>

lemma foldR_invariant:
  assumes "foldR f s xs = Inr t" and "I s"
    and "\<And>s x t. x \<in> set xs \<Longrightarrow> I s \<Longrightarrow> f s x = Inr t \<Longrightarrow> I t"
  shows "I t"
  using assms
proof (induction xs arbitrary: s)
  case (Cons x xs)
  then obtain u where u: "f s x = Inr u" and rest: "foldR f u xs = Inr t"
    by (auto simp: andThen_eq_Inr)
  have "I u" using Cons.prems u by (meson list.set_intros(1))
  with rest show ?case using Cons.IH Cons.prems(3) by (meson list.set_intros(2))
qed simp

section \<open>Numbers\<close>

datatype js_number =
    JInt int          \<comment> \<open>an integer other than minus zero\<close>
  | JNegZero
  | JFrac "64 word"   \<comment> \<open>a finite value that is no integer, as its bit pattern\<close>
  | JInf bool         \<comment> \<open>an infinity; \<open>True\<close> for the negative one\<close>
  | JNaN

definition MAX_SAFE_INTEGER :: int where
  "MAX_SAFE_INTEGER = 9007199254740991"

fun isFinite :: "js_number \<Rightarrow> bool" where
  "isFinite (JInf _) = False"
| "isFinite JNaN = False"
| "isFinite _ = True"

fun isInteger :: "js_number \<Rightarrow> bool" where
  "isInteger (JInt _) = True"
| "isInteger JNegZero = True"
| "isInteger _ = False"

fun isSafeInteger :: "js_number \<Rightarrow> bool" where
  "isSafeInteger (JInt n) = (\<bar>n\<bar> \<le> MAX_SAFE_INTEGER)"
| "isSafeInteger JNegZero = True"
| "isSafeInteger _ = False"

text \<open>The value of a number that \<open>Number.isInteger\<close> accepts.\<close>

fun intValue :: "js_number \<Rightarrow> int" where
  "intValue (JInt n) = n"
| "intValue _ = 0"

text \<open>
  The double with a given bit pattern: sign, 11 bits of exponent, 52 bits of mantissa. A finite
  pattern denotes \<open>m * 2 ^ (e - 1075)\<close>, with the hidden bit in \<open>m\<close> unless \<open>e = 0\<close>.
\<close>

definition float_sign :: "64 word \<Rightarrow> bool" where
  "float_sign b = bit b 63"

definition float_exponent :: "64 word \<Rightarrow> nat" where
  "float_exponent b = (unat b div 2 ^ 52) mod 2 ^ 11"

definition float_mantissa :: "64 word \<Rightarrow> nat" where
  "float_mantissa b = unat b mod 2 ^ 52"

definition float_of_bits :: "64 word \<Rightarrow> js_number" where
  "float_of_bits b =
     (let neg = float_sign b; e = float_exponent b; f = float_mantissa b;
          m = (if e = 0 then f else 2 ^ 52 + f); x = (if e = 0 then 1 else e);
          integer = (\<lambda>n. if n = 0 then (if neg then JNegZero else JInt 0)
                         else JInt (if neg then - int n else int n))
      in if e = 2047 then (if f = 0 then JInf neg else JNaN)
         else if 1075 \<le> x then integer (m * 2 ^ (x - 1075))
         else if m mod 2 ^ (1075 - x) = 0 then integer (m div 2 ^ (1075 - x))
         else JFrac b)"

section \<open>Decimal rendering of integers in template strings\<close>

fun show_nat :: "nat \<Rightarrow> string" where
  "show_nat n =
     (if n < 10 then [char_of (48 + n)] else show_nat (n div 10) @ [char_of (48 + n mod 10)])"

declare show_nat.simps [simp del]

definition show_int :: "int \<Rightarrow> string" where
  "show_int i = (if i < 0 then CHR ''-'' # show_nat (nat (- i)) else show_nat (nat i))"

section \<open>Insertion-ordered maps\<close>

lemma map_of_update [simp]: "map_of (AList.update k v m) = (map_of m)(k \<mapsto> v)"
  by (rule update_conv')

lemma map_of_delete [simp]: "map_of (AList.delete k m) = (map_of m)(k := None)"
  by (rule delete_conv')

lemma update_fresh: "map_of m k = None \<Longrightarrow> AList.update k v m = m @ [(k, v)]"
  by (induction m) (auto split: if_splits)

lemma map_of_map_id_eq_None:
  "map_of (map (\<lambda>x. (f x, x)) xs) k = None \<longleftrightarrow> k \<notin> f ` set xs"
  by (induction xs) auto

lemma map_of_map_id_SomeD:
  "map_of (map (\<lambda>x. (f x, x)) xs) k = Some x \<Longrightarrow> x \<in> set xs \<and> f x = k"
  by (induction xs) (auto split: if_splits)

lemma map_of_map_id_SomeI:
  "distinct (map f xs) \<Longrightarrow> x \<in> set xs \<Longrightarrow> map_of (map (\<lambda>x. (f x, x)) xs) (f x) = Some x"
  by (induction xs) (auto simp: image_iff)

section \<open>Lists\<close>

text \<open>\<open>xs[i]\<close> for a number that may be negative or past the end, both \<open>undefined\<close>.\<close>

definition array_get :: "'a list \<Rightarrow> int \<Rightarrow> 'a option" where
  "array_get xs i = (if 0 \<le> i \<and> nat i < length xs then Some (xs ! nat i) else None)"

text \<open>\<open>xs.at(-1)\<close>.\<close>

definition last_option :: "'a list \<Rightarrow> 'a option" where
  "last_option xs = (if xs = [] then None else Some (last xs))"

lemma last_option_Nil [simp]: "last_option [] = None"
  by (simp add: last_option_def)

lemma last_option_snoc [simp]: "last_option (xs @ [x]) = Some x"
  by (simp add: last_option_def)

lemma last_option_SomeD: "last_option xs = Some x \<Longrightarrow> x \<in> set xs"
  by (auto simp: last_option_def split: if_splits)

lemma last_option_None_iff [simp]: "last_option xs = None \<longleftrightarrow> xs = []"
  by (simp add: last_option_def)

lemma find_SomeD: "List.find P xs = Some x \<Longrightarrow> P x \<and> x \<in> set xs"
  by (induction xs) (auto split: if_splits)

lemma find_None_iff_all: "List.find P xs = None \<longleftrightarrow> (\<forall>x \<in> set xs. \<not> P x)"
  by (induction xs) auto

lemma sorted_wrt_greater_distinct: "sorted_wrt (>) (xs :: 'a::order list) \<Longrightarrow> distinct xs"
  by (induction xs) auto

lemma sorted_wrt_less_distinct: "sorted_wrt (<) (xs :: 'a::order list) \<Longrightarrow> distinct xs"
  by (induction xs) auto

text \<open>Sorting with distinct keys forgets the order of its input.\<close>

lemma filter_key_unique:
  "distinct (map f zs) \<Longrightarrow> k \<in> set zs \<Longrightarrow> filter (\<lambda>x. f k = f x) zs = [k]"
proof (induction zs)
  case (Cons z zs)
  show ?case
  proof (cases "k = z")
    case True
    with Cons.prems have "filter (\<lambda>x. f k = f x) zs = []" by (auto simp: filter_empty_conv)
    with True show ?thesis by simp
  next
    case False
    with Cons show ?thesis by (auto simp: image_iff)
  qed
qed simp

lemma sort_key_perm_eq:
  assumes "mset xs = mset ys" and "distinct (map f xs)"
  shows "sort_key f xs = sort_key f ys"
proof (rule properties_for_sort_key [symmetric])
  show "mset (sort_key f xs) = mset ys" using assms(1) by simp
next
  fix k assume k: "k \<in> set (sort_key f xs)"
  have "mset (map f ys) = mset (map f xs)"
    by (simp only: mset_map assms(1))
  then have d: "distinct (map f ys)" using assms(2) mset_eq_imp_distinct_iff by blast
  have d': "distinct (map f (sort_key f xs))" using assms(2)
    by (simp only: distinct_map distinct_sort set_sort)
  have "k \<in> set ys" using k mset_eq_setD [OF assms(1)] by simp
  then have "filter (\<lambda>x. f k = f x) ys = [k]" by (rule filter_key_unique [OF d])
  moreover have "filter (\<lambda>x. f k = f x) (sort_key f xs) = [k]"
    by (rule filter_key_unique [OF d' k])
  ultimately show "filter (\<lambda>x. f k = f x) (sort_key f xs) = filter (\<lambda>x. f k = f x) ys"
    by (rule trans [OF _ sym, rotated])
next
  show "sorted (map f (sort_key f xs))" by simp
qed

end
