(* ===== verification/Messages.thy ===== *)
theory Messages
  imports Js_Prelude
begin

text \<open>
  The transcript's data: JSON values, content blocks, the messages of \<open>packages/ai/src/types.ts\<close>
  and the four message kinds that \<open>packages/agent/src/harness/messages.ts\<close> adds, with the
  constructors and the projection to model messages of that file (\<open>convertToLlm\<close>).
  An optional TypeScript field is an \<open>option\<close>; \<open>unknown\<close> and \<open>any\<close> payloads are \<open>json\<close>.
\<close>

section \<open>JSON values and content blocks\<close>

datatype json =
    JNull
  | JBool bool
  | JNumber js_number
  | JString string
  | JArray "json list"
  | JObject "(string \<times> json) list"

record tool_call =
  tc_id :: string
  tc_name :: string
  tc_arguments :: json
  tc_thoughtSignature :: "string option"
  tc_namespace :: "string option"

datatype content =
    TextContent string "string option"                    \<comment> \<open>text, textSignature\<close>
  | ThinkingContent string "string option" "bool option"  \<comment> \<open>thinking, thinkingSignature, redacted\<close>
  | ImageContent string string                            \<comment> \<open>data, mimeType\<close>
  | ToolCallContent tool_call

fun is_toolCall :: "content \<Rightarrow> bool" where
  "is_toolCall (ToolCallContent _) = True"
| "is_toolCall _ = False"

text \<open>\<open>message.content.filter((c) => c.type === "toolCall")\<close>, with TypeScript's narrowing.\<close>

fun toolCalls_of :: "content list \<Rightarrow> tool_call list" where
  "toolCalls_of [] = []"
| "toolCalls_of (ToolCallContent c # cs) = c # toolCalls_of cs"
| "toolCalls_of (_ # cs) = toolCalls_of cs"

lemma toolCalls_of_filter: "map ToolCallContent (toolCalls_of cs) = filter is_toolCall cs"
  by (induction cs rule: toolCalls_of.induct) simp_all

lemma toolCalls_of_append: "toolCalls_of (cs @ ds) = toolCalls_of cs @ toolCalls_of ds"
  by (induction cs rule: toolCalls_of.induct) simp_all

section \<open>Usage, stop reasons and deferred handles\<close>

text \<open>
  Token counts are integers. A cost is a double: its sums are kept as the expression of the
  additions the code carries out, in the code's order, so that no rounding is assumed away.
\<close>

datatype float_expr = FNum js_number | FAdd float_expr float_expr

record usage_cost =
  uc_input :: js_number
  uc_output :: js_number
  uc_cacheRead :: js_number
  uc_cacheWrite :: js_number
  uc_total :: js_number

record usage =
  us_input :: int
  us_output :: int
  us_cacheRead :: int
  us_cacheWrite :: int
  us_cacheWrite1h :: "int option"
  us_reasoning :: "int option"
  us_totalTokens :: int
  us_cost :: usage_cost

datatype stop_reason =
  SR_pending | SR_stop | SR_length | SR_toolUse | SR_error | SR_aborted | SR_deferred

record deferred_handle =
  dh_provider :: string
  dh_modelId :: string
  dh_api :: string
  dh_id :: string
  dh_expiresAt :: "js_number option"
  dh_pollAfterMs :: "js_number option"
  dh_data :: "json option"

section \<open>Messages\<close>

datatype user_content = UserText string | UserBlocks "content list"

record user_message =
  um_content :: user_content
  um_timestamp :: int
  um_internal :: "bool option"

record assistant_message =
  am_content :: "content list"
  am_api :: string
  am_provider :: string
  am_model :: string
  am_responseModel :: "string option"
  am_responseId :: "string option"
  am_diagnostics :: "json option"
  am_usage :: usage
  am_stopReason :: stop_reason
  am_deferred :: "deferred_handle option"
  am_errorMessage :: "string option"
  am_rawStopReason :: "string option"
  am_endTurn :: "bool option"
  am_timestamp :: int

record tool_result_message =
  tr_toolCallId :: string
  tr_toolName :: string
  tr_content :: "content list"
  tr_details :: "json option"
  tr_usage :: "usage option"
  tr_addedToolNames :: "string list option"
  tr_isError :: bool
  tr_timestamp :: int

record bash_execution_message =
  be_command :: string
  be_output :: string
  be_exitCode :: "int option"
  be_cancelled :: bool
  be_truncated :: bool
  be_fullOutputPath :: "string option"
  be_timestamp :: int
  be_excludeFromContext :: "bool option"

record custom_message =
  cm_customType :: string
  cm_content :: user_content
  cm_display :: bool
  cm_details :: "json option"
  cm_timestamp :: int

record branch_summary_message =
  bs_summary :: string
  bs_fromId :: string
  bs_timestamp :: int

record compaction_summary_message =
  cs_summary :: string
  cs_tokensBefore :: int
  cs_timestamp :: int

datatype message =
    M_user user_message
  | M_assistant assistant_message
  | M_toolResult tool_result_message

datatype agent_message =
    Msg message
  | BashExecution bash_execution_message
  | Custom custom_message
  | BranchSummary branch_summary_message
  | CompactionSummary compaction_summary_message

abbreviation "UserMsg u \<equiv> Msg (M_user u)"
abbreviation "AssistantMsg a \<equiv> Msg (M_assistant a)"
abbreviation "ToolResultMsg r \<equiv> Msg (M_toolResult r)"

fun is_assistant :: "agent_message \<Rightarrow> bool" where
  "is_assistant (Msg (M_assistant _)) = True"
| "is_assistant _ = False"

lemma is_assistant_iff: "is_assistant m \<longleftrightarrow> (\<exists>a. m = AssistantMsg a)"
  by (cases m rule: is_assistant.cases) simp_all

section \<open>Constructors and the projection to model messages\<close>

definition newline :: char where
  "newline = char_of (10::nat)"

definition COMPACTION_SUMMARY_PREFIX :: string where
  "COMPACTION_SUMMARY_PREFIX =
     ''The conversation history before this point was compacted into the following summary:''
       @ [newline, newline] @ ''<summary>'' @ [newline]"

definition COMPACTION_SUMMARY_SUFFIX :: string where
  "COMPACTION_SUMMARY_SUFFIX = newline # ''</summary>''"

definition BRANCH_SUMMARY_PREFIX :: string where
  "BRANCH_SUMMARY_PREFIX =
     ''The following is a summary of a branch that this conversation came back from:''
       @ [newline, newline] @ ''<summary>'' @ [newline]"

definition BRANCH_SUMMARY_SUFFIX :: string where
  "BRANCH_SUMMARY_SUFFIX = ''</summary>''"

definition code_fence :: string where
  "code_fence = replicate 3 (char_of (96::nat))"

definition bashExecutionToText :: "bash_execution_message \<Rightarrow> string" where
  "bashExecutionToText msg =
     (let text = ''Ran '' @ [char_of (96::nat)] @ be_command msg @ [char_of (96::nat), newline];
          text = text @ (if be_output msg \<noteq> ''''
                         then code_fence @ [newline] @ be_output msg @ [newline] @ code_fence
                         else ''(no output)'');
          text = text @ (if be_cancelled msg then [newline, newline] @ ''(command cancelled)''
                         else case be_exitCode msg of
                             None \<Rightarrow> ''''
                           | Some c \<Rightarrow> if c \<noteq> 0
                               then [newline, newline] @ ''Command exited with code '' @ show_int c
                               else '''')
      in text @ (case be_fullOutputPath msg of
                   None \<Rightarrow> ''''
                 | Some path \<Rightarrow> if be_truncated msg \<and> path \<noteq> ''''
                     then [newline, newline] @ ''[Output truncated. Full output: '' @ path @ '']''
                     else ''''))"

definition createBranchSummaryMessage :: "string \<Rightarrow> string \<Rightarrow> int \<Rightarrow> agent_message" where
  "createBranchSummaryMessage summary fromId timestamp =
     BranchSummary \<lparr>bs_summary = summary, bs_fromId = fromId, bs_timestamp = timestamp\<rparr>"

definition createCompactionSummaryMessage :: "string \<Rightarrow> int \<Rightarrow> int \<Rightarrow> agent_message" where
  "createCompactionSummaryMessage summary tokensBefore timestamp =
     CompactionSummary \<lparr>cs_summary = summary, cs_tokensBefore = tokensBefore,
                        cs_timestamp = timestamp\<rparr>"

definition user_blocks :: "content list \<Rightarrow> int \<Rightarrow> message" where
  "user_blocks blocks timestamp =
     M_user \<lparr>um_content = UserBlocks blocks, um_timestamp = timestamp, um_internal = None\<rparr>"

fun convertMessageToLlm :: "agent_message \<Rightarrow> message option" where
  "convertMessageToLlm (BashExecution m) =
     (if be_excludeFromContext m = Some True then None
      else Some (user_blocks [TextContent (bashExecutionToText m) None] (be_timestamp m)))"
| "convertMessageToLlm (Custom m) =
     Some (user_blocks (case cm_content m of UserText t \<Rightarrow> [TextContent t None] | UserBlocks bs \<Rightarrow> bs)
             (cm_timestamp m))"
| "convertMessageToLlm (BranchSummary m) =
     Some (user_blocks [TextContent (BRANCH_SUMMARY_PREFIX @ bs_summary m @ BRANCH_SUMMARY_SUFFIX) None]
             (bs_timestamp m))"
| "convertMessageToLlm (CompactionSummary m) =
     Some (user_blocks
             [TextContent (COMPACTION_SUMMARY_PREFIX @ cs_summary m @ COMPACTION_SUMMARY_SUFFIX) None]
             (cs_timestamp m))"
| "convertMessageToLlm (Msg m) = Some m"

definition convertToLlm :: "agent_message list \<Rightarrow> message list" where
  "convertToLlm messages = List.map_filter convertMessageToLlm messages"

lemma convertToLlm_append: "convertToLlm (xs @ ys) = convertToLlm xs @ convertToLlm ys"
  by (simp add: convertToLlm_def List.map_filter_def)

text \<open>
  Model messages pass through in order; no other kind turns into an assistant or tool message.
\<close>

lemma convertToLlm_Msg: "convertToLlm (map Msg ms) = ms"
  by (induction ms) (simp_all add: convertToLlm_def List.map_filter_def)

lemma convertToLlm_assistant:
  "M_assistant a \<in> set (convertToLlm ms) \<longleftrightarrow> AssistantMsg a \<in> set ms"
proof -
  have "convertMessageToLlm m = Some (M_assistant a) \<longleftrightarrow> m = AssistantMsg a" for m
    by (cases m rule: convertMessageToLlm.cases) (auto simp: user_blocks_def)
  then show ?thesis
    by (force simp: convertToLlm_def List.map_filter_def)
qed

end
