(* ===== verification/Session_Types.thy ===== *)
theory Session_Types
  imports Messages
begin

text \<open>
  The data of a session (\<open>packages/agent/src/harness/session/types.ts\<close>): entries of the
  conversation tree, orchestration records of a lane, queries, log items and errors.

  \<open>ProvisionedEntry\<close> is an entry without the three fields that storage assigns. It is the base
  record, and \<open>entry\<close> extends it, so that TypeScript's \<open>Omit\<close> is the record's \<open>truncate\<close> and a
  spread \<open>{...newEntry, parentId, seq, timestamp}\<close> is \<open>extend\<close>. \<open>NewRecord\<close> and
  \<open>lane_record\<close> are related in the same way.
\<close>

section \<open>Entries\<close>

datatype entry_type =
  ET_message | ET_model_change | ET_thinking_level_change | ET_active_tools_change
  | ET_compaction | ET_branch_summary | ET_custom

datatype entry_data =
    E_message agent_message bool                \<comment> \<open>message, terminate (present or not)\<close>
  | E_model_change string string                \<comment> \<open>provider, modelId\<close>
  | E_thinking_level_change string
  | E_active_tools_change "string list"
  | E_compaction string "agent_message list" int "json option" "usage option"
      \<comment> \<open>summary, retainedTail, tokensBefore, details, usage\<close>
  | E_branch_summary string string "json option" "usage option"
      \<comment> \<open>fromId, summary, details, usage\<close>
  | E_custom string "json option"               \<comment> \<open>customType, data\<close>

fun type_of_data :: "entry_data \<Rightarrow> entry_type" where
  "type_of_data (E_message _ _) = ET_message"
| "type_of_data (E_model_change _ _) = ET_model_change"
| "type_of_data (E_thinking_level_change _) = ET_thinking_level_change"
| "type_of_data (E_active_tools_change _) = ET_active_tools_change"
| "type_of_data (E_compaction _ _ _ _ _) = ET_compaction"
| "type_of_data (E_branch_summary _ _ _ _) = ET_branch_summary"
| "type_of_data (E_custom _ _) = ET_custom"

record provisioned_entry =
  ent_id :: string
  ent_data :: entry_data

record entry = provisioned_entry +
  ent_parentId :: "string option"
  ent_seq :: nat
  ent_timestamp :: int

definition ent_type :: "'a provisioned_entry_scheme \<Rightarrow> entry_type" where
  "ent_type e = type_of_data (ent_data e)"

text \<open>The assistant message of a message entry, if it is one.\<close>

fun data_assistant :: "entry_data \<Rightarrow> assistant_message option" where
  "data_assistant (E_message (Msg (M_assistant a)) _) = Some a"
| "data_assistant _ = None"

definition ent_assistant :: "'a provisioned_entry_scheme \<Rightarrow> assistant_message option" where
  "ent_assistant e = data_assistant (ent_data e)"

fun data_toolResult :: "entry_data \<Rightarrow> tool_result_message option" where
  "data_toolResult (E_message (Msg (M_toolResult r)) _) = Some r"
| "data_toolResult _ = None"

definition ent_toolResult :: "'a provisioned_entry_scheme \<Rightarrow> tool_result_message option" where
  "ent_toolResult e = data_toolResult (ent_data e)"

fun customType_of_data :: "entry_data \<Rightarrow> string option" where
  "customType_of_data (E_custom c _) = Some c"
| "customType_of_data _ = None"

lemma data_assistant_Some:
  "data_assistant d = Some a \<longleftrightarrow> (\<exists>t. d = E_message (AssistantMsg a) t)"
  by (cases d rule: data_assistant.cases) auto

lemma data_assistant_message: "data_assistant d = Some a \<Longrightarrow> type_of_data d = ET_message"
  by (auto simp: data_assistant_Some)

lemma data_toolResult_Some:
  "data_toolResult d = Some r \<longleftrightarrow> (\<exists>t. d = E_message (ToolResultMsg r) t)"
  by (cases d rule: data_toolResult.cases) auto

section \<open>Records\<close>

datatype operation_intent =
    I_run "agent_message list" "provisioned_entry list" "string option" "(string \<times> json) list option"
      \<comment> \<open>originalPrompt, initialMessages, systemPromptOverride, resumeData\<close>
  | I_compaction "string option" string
      \<comment> \<open>customInstructions, resultEntryId\<close>
  | I_navigation "string option" bool "string option" "string option" "string option"
      \<comment> \<open>targetId, summarize, customInstructions, label, summaryEntryId\<close>

datatype operation_kind = OK_run | OK_compaction | OK_navigation

fun intent_kind :: "operation_intent \<Rightarrow> operation_kind" where
  "intent_kind (I_run _ _ _ _) = OK_run"
| "intent_kind (I_compaction _ _) = OK_compaction"
| "intent_kind (I_navigation _ _ _ _ _) = OK_navigation"

datatype outcome = O_completed | O_aborted | O_failed | O_declined

datatype step_kind = ST_assistant | ST_compaction | ST_branch_summary

datatype queue_kind = Q_steer | Q_followUp | Q_nextRun

datatype replay_mode = R_never | R_safe

text \<open>
  \<open>compactionReason\<close> stays a JSON value: the recovery code reads it as \<open>unknown\<close> and checks it.
\<close>

record step_attempt =
  sa_runId :: string
  sa_step :: step_kind
  sa_attempt :: int
  sa_resultEntryId :: string
  sa_compactionReason :: "json option"

record tool_started =
  ts_runId :: string
  ts_assistantEntryId :: string
  ts_toolIndex :: int
  ts_toolCallId :: string
  ts_toolName :: string
  ts_effectiveArgs :: json
  ts_resultEntryId :: string
  ts_replay :: replay_mode

datatype step_usage_cause = UC_assistant | UC_compaction | UC_branch_summary | UC_deferred_fetch

datatype usage_cause =
    U_step step_usage_cause string string int stop_reason
      \<comment> \<open>cause, runId, entryId, attempt, stopReason\<close>
  | U_tool string string string           \<comment> \<open>runId, entryId, toolCallId\<close>
  | U_hook string string                  \<comment> \<open>runId, entryId\<close>
  | U_adjustment "string option" "string option" "json option"
      \<comment> \<open>runId, entryId, details\<close>

datatype record_data =
    R_operation_started "string option" operation_intent       \<comment> \<open>sourceLeafId, intent\<close>
  | R_abort_requested string                                    \<comment> \<open>runId\<close>
  | R_operation_finished string outcome "(string \<times> string) option"
      \<comment> \<open>runId, outcome, error code and message\<close>
  | R_step_attempt step_attempt
  | R_tool_started tool_started
  | R_queue_enqueued queue_kind "string option" provisioned_entry
      \<comment> \<open>queue, runId (absent for nextRun), target\<close>
  | R_queue_cancelled "string option" string                    \<comment> \<open>runId, entryId\<close>
  | R_write_deferred string provisioned_entry                   \<comment> \<open>runId, target\<close>
  | R_usage usage usage_cause

datatype record_type =
  RT_operation_started | RT_abort_requested | RT_operation_finished | RT_step_attempt
  | RT_tool_started | RT_queue_enqueued | RT_queue_cancelled | RT_write_deferred | RT_usage

fun type_of_record_data :: "record_data \<Rightarrow> record_type" where
  "type_of_record_data (R_operation_started _ _) = RT_operation_started"
| "type_of_record_data (R_abort_requested _) = RT_abort_requested"
| "type_of_record_data (R_operation_finished _ _ _) = RT_operation_finished"
| "type_of_record_data (R_step_attempt _) = RT_step_attempt"
| "type_of_record_data (R_tool_started _) = RT_tool_started"
| "type_of_record_data (R_queue_enqueued _ _ _) = RT_queue_enqueued"
| "type_of_record_data (R_queue_cancelled _ _) = RT_queue_cancelled"
| "type_of_record_data (R_write_deferred _ _) = RT_write_deferred"
| "type_of_record_data (R_usage _ _) = RT_usage"

fun runId_of_usage :: "usage_cause \<Rightarrow> string option" where
  "runId_of_usage (U_step _ r _ _ _) = Some r"
| "runId_of_usage (U_tool r _ _) = Some r"
| "runId_of_usage (U_hook r _) = Some r"
| "runId_of_usage (U_adjustment r _ _) = r"

text \<open>The record's \<open>runId\<close> property; an operation start has none.\<close>

fun runId_of_data :: "record_data \<Rightarrow> string option" where
  "runId_of_data (R_operation_started _ _) = None"
| "runId_of_data (R_abort_requested r) = Some r"
| "runId_of_data (R_operation_finished r _ _) = Some r"
| "runId_of_data (R_step_attempt s) = Some (sa_runId s)"
| "runId_of_data (R_tool_started t) = Some (ts_runId t)"
| "runId_of_data (R_queue_enqueued _ r _) = r"
| "runId_of_data (R_queue_cancelled r _) = r"
| "runId_of_data (R_write_deferred r _) = Some r"
| "runId_of_data (R_usage _ c) = runId_of_usage c"

record new_record =
  rec_id :: string
  rec_lane :: string
  rec_data :: record_data

record lane_record = new_record +
  rec_seq :: nat
  rec_timestamp :: int

definition rec_type :: "'a new_record_scheme \<Rightarrow> record_type" where
  "rec_type r = type_of_record_data (rec_data r)"

definition rec_runId :: "'a new_record_scheme \<Rightarrow> string option" where
  "rec_runId r = runId_of_data (rec_data r)"

text \<open>A lane record narrowed to \<open>OperationStartedRecord\<close>.\<close>

record operation_started =
  os_id :: string
  os_lane :: string
  os_sourceLeafId :: "string option"
  os_intent :: operation_intent
  os_seq :: nat
  os_timestamp :: int

fun narrow_started :: "lane_record \<Rightarrow> operation_started option" where
  "narrow_started r =
     (case rec_data r of
        R_operation_started src intent \<Rightarrow>
          Some \<lparr>os_id = rec_id r, os_lane = rec_lane r, os_sourceLeafId = src, os_intent = intent,
                os_seq = rec_seq r, os_timestamp = rec_timestamp r\<rparr>
      | _ \<Rightarrow> None)"

declare narrow_started.simps [simp del]

lemma narrow_started_Some:
  "narrow_started r = Some p \<Longrightarrow>
     os_id p = rec_id r \<and> os_lane p = rec_lane r \<and> os_seq p = rec_seq r \<and>
     rec_data r = R_operation_started (os_sourceLeafId p) (os_intent p)"
  by (auto simp: narrow_started.simps split: record_data.splits)

lemma narrow_started_None: "narrow_started r = None \<longleftrightarrow> rec_type r \<noteq> RT_operation_started"
  by (auto simp: narrow_started.simps rec_type_def split: record_data.splits)

section \<open>Queries, log items, statistics, errors\<close>

datatype entry_order = NewestFirst | OldestFirst

text \<open>\<open>limit\<close> and cursors are caller-supplied numbers, checked at run time.\<close>

record entry_query =
  eq_type :: "entry_type option"
  eq_customType :: "string option"
  eq_order :: "entry_order option"
  eq_limit :: "js_number option"
  eq_afterSeq :: "js_number option"

record branch_bounds =
  bb_start :: "string option"
  bb_stopAtType :: "entry_type option"
  bb_stopAtId :: "string option"

record record_query =
  rq_lane :: "string option"
  rq_type :: "record_type option"
  rq_runId :: "string option"
  rq_operationKind :: "operation_kind option"
  rq_afterSeq :: "js_number option"
  rq_order :: "entry_order option"
  rq_limit :: "js_number option"

record log_options =
  lo_afterSeq :: "js_number option"
  lo_limit :: "js_number option"

record session_metadata =
  md_id :: string
  md_createdAt :: int
  md_parentSessionId :: "string option"

record session_stats =
  st_messageCount :: int
  st_cachedTokens :: int
  st_uncachedTokens :: int
  st_totalTokens :: int
  st_costTotal :: float_expr

datatype log_item =
    L_entry nat entry
  | L_record nat lane_record
  | L_lane nat string "string option"
  | L_name nat "string option"
  | L_label nat string "string option"

fun log_seq :: "log_item \<Rightarrow> nat" where
  "log_seq (L_entry s _) = s"
| "log_seq (L_record s _) = s"
| "log_seq (L_lane s _ _) = s"
| "log_seq (L_name s _) = s"
| "log_seq (L_label s _ _) = s"

datatype fork_position = FP_before | FP_at

datatype fork_options =
    F_branch "string option" "fork_position option"  \<comment> \<open>entryId, position\<close>
  | F_tree

datatype session_error_code =
  SE_not_found | SE_already_exists | SE_invalid_entry | SE_invalid_payload
  | SE_invalid_lane | SE_invalid_query | SE_invalid_fork_target | SE_storage

datatype session_error = SessionError (code: session_error_code) (message: string)

end
