(* ===== verification/Session_State.thy ===== *)
theory Session_State
  imports Session_Types
begin

text \<open>
  The in-memory state of a session, \<open>packages/agent/src/harness/session/state.ts\<close>: the mutations,
  \<open>applyMutation\<close> with all its checks, the queries and \<open>createForkMutations\<close>.

  The record \<open>session_state\<close> has the class's fields. A query returns the error it throws or its
  result. The generator \<open>walkToRoot\<close> is the pair of the entries it yields and the error it throws
  after them, so that a consumer that breaks early never sees the error.
\<close>

section \<open>State and mutations\<close>

record session_state =
  sequence :: nat
  usedIds :: "string set"
  entries :: "entry list"
  entriesById :: "(string \<times> entry) list"
  records :: "lane_record list"
  openOperationsByLane :: "(string \<times> (string \<times> operation_started) list) list"
  lanes :: "(string \<times> string option) list"
  log :: "log_item list"
  stats :: session_stats
  name :: "string option"
  labels :: "(string \<times> string) list"

definition initial_stats :: session_stats where
  "initial_stats = \<lparr>st_messageCount = 0, st_cachedTokens = 0, st_uncachedTokens = 0,
                    st_totalTokens = 0, st_costTotal = FNum (JInt 0)\<rparr>"

definition initial_state :: session_state where
  "initial_state =
     \<lparr>sequence = 0, usedIds = {}, entries = [], entriesById = [], records = [],
      openOperationsByLane = [], lanes = [(''main'', None)], log = [], stats = initial_stats,
      name = None, labels = []\<rparr>"

datatype session_mutation =
    MU_entry "string option" entry
  | MU_record lane_record
  | MU_lane nat string "string option"
  | MU_name nat "string option"
  | MU_label nat string "string option"

definition invalidMutation :: "string \<Rightarrow> session_error" where
  "invalidMutation msg = SessionError SE_invalid_entry (''Invalid session mutation: '' @ msg)"

definition nextSequence :: "session_state \<Rightarrow> nat" where
  "nextSequence s = sequence s + 1"

definition getLanes :: "session_state \<Rightarrow> (string \<times> string option) list" where
  "getLanes s = lanes s"

definition requireLane :: "session_state \<Rightarrow> string \<Rightarrow> session_error + string option" where
  "requireLane s lane =
     (case map_of (lanes s) lane of
        None \<Rightarrow> Inl (SessionError SE_invalid_lane (''Lane not found: '' @ lane))
      | Some leafId \<Rightarrow> Inr leafId)"

definition validateNewLane :: "session_state \<Rightarrow> string \<Rightarrow> session_error + unit" where
  "validateNewLane s lane =
     require (map_of (lanes s) lane = None)
       (SessionError SE_already_exists (''Lane already exists: '' @ lane))"

definition validateTarget :: "session_state \<Rightarrow> string option \<Rightarrow> session_error + unit" where
  "validateTarget s target =
     (case target of
        None \<Rightarrow> Inr ()
      | Some targetId \<Rightarrow> require (map_of (entriesById s) targetId \<noteq> None)
                          (SessionError SE_not_found (''Entry not found: '' @ targetId)))"

definition validateUnusedId :: "session_state \<Rightarrow> string \<Rightarrow> session_error + unit" where
  "validateUnusedId s i =
     require (i \<notin> usedIds s) (SessionError SE_already_exists (''Session id already exists: '' @ i))"

section \<open>applyMutation\<close>

fun mutation_seq :: "session_mutation \<Rightarrow> nat" where
  "mutation_seq (MU_entry _ e) = ent_seq e"
| "mutation_seq (MU_record r) = rec_seq r"
| "mutation_seq (MU_lane q _ _) = q"
| "mutation_seq (MU_name q _) = q"
| "mutation_seq (MU_label q _ _) = q"

definition null_or :: "string option \<Rightarrow> string" where
  "null_or i = (case i of None \<Rightarrow> ''null'' | Some x \<Rightarrow> x)"

definition check_entry_lane :: "session_state \<Rightarrow> string option \<Rightarrow> entry \<Rightarrow> session_error + unit" where
  "check_entry_lane s lane e =
     (case lane of
        None \<Rightarrow> Inr ()
      | Some l \<Rightarrow>
          (case map_of (lanes s) l of
             None \<Rightarrow> Inl (invalidMutation (''references missing lane '' @ l))
           | Some leafId \<Rightarrow>
               require (ent_parentId e = leafId) (invalidMutation ''does not chain to the lane leaf'')))"

definition apply_entry :: "session_state \<Rightarrow> string option \<Rightarrow> entry \<Rightarrow> session_error + session_state" where
  "apply_entry s lane e =
     andThen (require (ent_id e \<notin> usedIds s) (invalidMutation (''contains duplicate id '' @ ent_id e))) (\<lambda>_.
     andThen (check_entry_lane s lane e) (\<lambda>_.
     andThen (require (case ent_parentId e of None \<Rightarrow> True | Some p \<Rightarrow> map_of (entriesById s) p \<noteq> None)
                (invalidMutation (''references missing parent '' @ null_or (ent_parentId e)))) (\<lambda>_.
     Inr (s\<lparr>sequence := ent_seq e,
            usedIds := insert (ent_id e) (usedIds s),
            entries := entries s @ [e],
            entriesById := AList.update (ent_id e) e (entriesById s),
            lanes := (case lane of None \<Rightarrow> lanes s
                                 | Some l \<Rightarrow> AList.update l (Some (ent_id e)) (lanes s)),
            log := log s @ [L_entry (ent_seq e) e],
            stats := (if ent_type e = ET_message
                      then (stats s)\<lparr>st_messageCount := st_messageCount (stats s) + 1\<rparr>
                      else stats s)\<rparr>))))"

text \<open>The bookkeeping of open operations: a start is added to its lane's map, a finish removes one.\<close>

definition track_open ::
  "(string \<times> (string \<times> operation_started) list) list \<Rightarrow> lane_record \<Rightarrow>
   (string \<times> (string \<times> operation_started) list) list" where
  "track_open opens r =
     (case rec_data r of
        R_operation_started _ _ \<Rightarrow>
          (case narrow_started r of
             None \<Rightarrow> opens
           | Some p \<Rightarrow>
               AList.update (rec_lane r)
                 (AList.update (rec_id r) p
                    (case map_of opens (rec_lane r) of None \<Rightarrow> [] | Some m \<Rightarrow> m)) opens)
      | R_operation_finished runId _ _ \<Rightarrow>
          (case map_of opens (rec_lane r) of
             None \<Rightarrow> opens
           | Some m \<Rightarrow> AList.update (rec_lane r) (AList.delete runId m) opens)
      | _ \<Rightarrow> opens)"

definition add_usage :: "session_stats \<Rightarrow> usage \<Rightarrow> session_stats" where
  "add_usage st u =
     st\<lparr>st_cachedTokens := st_cachedTokens st + us_cacheRead u,
        st_uncachedTokens := st_uncachedTokens st + (us_input u + us_cacheWrite u),
        st_totalTokens := st_totalTokens st + us_totalTokens u,
        st_costTotal := FAdd (st_costTotal st) (FNum (uc_total (us_cost u)))\<rparr>"

definition apply_record :: "session_state \<Rightarrow> lane_record \<Rightarrow> session_error + session_state" where
  "apply_record s r =
     andThen (require (map_of (lanes s) (rec_lane r) \<noteq> None)
                (invalidMutation (''references missing lane '' @ rec_lane r))) (\<lambda>_.
     andThen (require (rec_id r \<notin> usedIds s)
                (invalidMutation (''contains duplicate id '' @ rec_id r))) (\<lambda>_.
     Inr (s\<lparr>sequence := rec_seq r,
            usedIds := insert (rec_id r) (usedIds s),
            records := records s @ [r],
            openOperationsByLane := track_open (openOperationsByLane s) r,
            log := log s @ [L_record (rec_seq r) r],
            stats := (case rec_data r of R_usage u _ \<Rightarrow> add_usage (stats s) u | _ \<Rightarrow> stats s)\<rparr>)))"

definition apply_lane :: "session_state \<Rightarrow> nat \<Rightarrow> string \<Rightarrow> string option \<Rightarrow> session_error + session_state" where
  "apply_lane s q lane leafId =
     andThen (require (case leafId of None \<Rightarrow> True | Some i \<Rightarrow> map_of (entriesById s) i \<noteq> None)
                (invalidMutation (''references missing lane target '' @ null_or leafId))) (\<lambda>_.
     Inr (s\<lparr>sequence := q,
            lanes := AList.update lane leafId (lanes s),
            log := log s @ [L_lane q lane leafId]\<rparr>))"

definition apply_name :: "session_state \<Rightarrow> nat \<Rightarrow> string option \<Rightarrow> session_error + session_state" where
  "apply_name s q nm = Inr (s\<lparr>sequence := q, name := nm, log := log s @ [L_name q nm]\<rparr>)"

definition apply_label ::
  "session_state \<Rightarrow> nat \<Rightarrow> string \<Rightarrow> string option \<Rightarrow> session_error + session_state" where
  "apply_label s q targetId lbl =
     andThen (require (map_of (entriesById s) targetId \<noteq> None)
                (invalidMutation (''references missing label target '' @ targetId))) (\<lambda>_.
     Inr (s\<lparr>sequence := q,
            labels := (case lbl of None \<Rightarrow> AList.delete targetId (labels s)
                                 | Some l \<Rightarrow> AList.update targetId l (labels s)),
            log := log s @ [L_label q targetId lbl]\<rparr>))"

definition applyMutation :: "session_state \<Rightarrow> session_mutation \<Rightarrow> session_error + session_state" where
  "applyMutation s mu =
     andThen (require (mutation_seq mu = sequence s + 1)
                (invalidMutation (''has non-consecutive seq '' @ show_nat (mutation_seq mu)))) (\<lambda>_.
     case mu of
       MU_entry lane e \<Rightarrow> apply_entry s lane e
     | MU_record r \<Rightarrow> apply_record s r
     | MU_lane q lane leafId \<Rightarrow> apply_lane s q lane leafId
     | MU_name q nm \<Rightarrow> apply_name s q nm
     | MU_label q targetId lbl \<Rightarrow> apply_label s q targetId lbl)"

section \<open>Queries\<close>

definition assertValidLimit :: "js_number option \<Rightarrow> session_error + unit" where
  "assertValidLimit limit =
     (case limit of
        None \<Rightarrow> Inr ()
      | Some n \<Rightarrow> require (isInteger n \<and> intValue n > 0)
                   (SessionError SE_invalid_query ''limit must be a positive integer''))"

definition assertValidCursor :: "js_number option \<Rightarrow> session_error + unit" where
  "assertValidCursor afterSeq =
     (case afterSeq of
        None \<Rightarrow> Inr ()
      | Some n \<Rightarrow> require (isInteger n \<and> intValue n \<ge> 0)
                   (SessionError SE_invalid_query ''cursor sequence must be a non-negative integer''))"

definition ordered :: "'a list \<Rightarrow> entry_order option \<Rightarrow> 'a list" where
  "ordered items order = (if order = Some OldestFirst then items else rev items)"

text \<open>\<open>results.length === limit\<close>.\<close>

definition limit_reached :: "nat \<Rightarrow> js_number option \<Rightarrow> bool" where
  "limit_reached n limit = (limit = Some (JInt (int n)))"

text \<open>
  The loop the queries share: skip what does not match, push what does, stop at the limit.
\<close>

fun collect :: "('a \<Rightarrow> bool) \<Rightarrow> js_number option \<Rightarrow> 'a list \<Rightarrow> 'a list \<Rightarrow> 'a list" where
  "collect P limit results [] = results"
| "collect P limit results (x # xs) =
     (if \<not> P x then collect P limit results xs
      else if limit_reached (length results + 1) limit then results @ [x]
      else collect P limit (results @ [x]) xs)"

definition matchesEntryQuery :: "entry_query \<Rightarrow> entry \<Rightarrow> bool" where
  "matchesEntryQuery q e \<longleftrightarrow>
     (eq_type q = None \<or> eq_type q = Some (ent_type e)) \<and>
     (eq_customType q = None \<or>
        ent_type e = ET_custom \<and> customType_of_data (ent_data e) = eq_customType q) \<and>
     (case eq_afterSeq q of
        None \<Rightarrow> True
      | Some c \<Rightarrow> if eq_order q = Some OldestFirst then intValue c < int (ent_seq e)
                  else int (ent_seq e) < intValue c)"

definition matchesRecordQuery :: "record_query \<Rightarrow> lane_record \<Rightarrow> bool" where
  "matchesRecordQuery q r \<longleftrightarrow>
     (rq_lane q = None \<or> rq_lane q = Some (rec_lane r)) \<and>
     (rq_type q = None \<or> rq_type q = Some (rec_type r)) \<and>
     (rq_runId q = None \<or>
        (if rec_type r = RT_operation_started then rq_runId q = Some (rec_id r)
         else rec_runId r \<noteq> None \<and> rec_runId r = rq_runId q)) \<and>
     (rq_operationKind q = None \<or>
        (case rec_data r of R_operation_started _ intent \<Rightarrow> rq_operationKind q = Some (intent_kind intent)
                          | _ \<Rightarrow> False)) \<and>
     (case rq_afterSeq q of None \<Rightarrow> True | Some c \<Rightarrow> intValue c < int (rec_seq r))"

definition getEntry :: "session_state \<Rightarrow> string \<Rightarrow> entry option" where
  "getEntry s i = map_of (entriesById s) i"

definition findEntries :: "session_state \<Rightarrow> entry_query \<Rightarrow> session_error + entry list" where
  "findEntries s q =
     andThen (assertValidLimit (eq_limit q)) (\<lambda>_.
     andThen (assertValidCursor (eq_afterSeq q)) (\<lambda>_.
     Inr (collect (matchesEntryQuery q) (eq_limit q) [] (ordered (entries s) (eq_order q)))))"

definition cycle_error :: "string \<Rightarrow> session_error" where
  "cycle_error i = SessionError SE_invalid_entry (''Session branch contains a cycle at '' @ i)"

definition missing_parent_error :: "string \<Rightarrow> session_error" where
  "missing_parent_error i = SessionError SE_invalid_entry (''Entry not found: '' @ i)"

function walk_from ::
  "(string \<times> entry) list \<Rightarrow> (entry \<Rightarrow> bool) \<Rightarrow> string set \<Rightarrow> entry \<Rightarrow> entry list \<times> session_error option" where
  "walk_from byId stop visited current =
     (if ent_id current \<in> visited then ([], Some (cycle_error (ent_id current)))
      else if stop current then ([current], None)
      else case ent_parentId current of
          None \<Rightarrow> ([current], None)
        | Some parentId \<Rightarrow>
            (case map_of byId parentId of
               None \<Rightarrow> ([current], Some (missing_parent_error parentId))
             | Some parent \<Rightarrow>
                 (let (rest, err) = walk_from byId stop (insert (ent_id current) visited) parent
                  in (current # rest, err))))"
  by pat_completeness auto

text \<open>
  The walk stops because every step visits a new id: the ids that may still come are those of the
  map and of the current entry, less the visited ones.
\<close>

termination
proof (relation "measure (\<lambda>(byId, stop, visited, current).
    card (insert (ent_id current) ((ent_id \<circ> snd) ` set byId) - visited))", goal_cases)
  case (2 byId stop visited current parentId parent)
  let ?ids = "(ent_id \<circ> snd) ` set byId"
  have "ent_id parent \<in> ?ids"
    using 2(4) by (force dest: map_of_SomeD)
  then have "insert (ent_id parent) ?ids - insert (ent_id current) visited
      \<subset> insert (ent_id current) ?ids - visited"
    using 2(1) by blast
  then show ?case
    by (auto intro: psubset_card_mono)
qed simp

declare walk_from.simps [simp del]

definition bound_reached :: "string option \<Rightarrow> entry_type option \<Rightarrow> entry \<Rightarrow> bool" where
  "bound_reached stopAtId stopAtType e \<longleftrightarrow> stopAtId = Some (ent_id e) \<or> stopAtType = Some (ent_type e)"

definition walkToRoot ::
  "session_state \<Rightarrow> string option \<Rightarrow> (entry \<Rightarrow> bool) \<Rightarrow> entry list \<times> session_error option" where
  "walkToRoot s start stop =
     (case start of
        None \<Rightarrow> ([], None)
      | Some i \<Rightarrow>
          (case map_of (entriesById s) i of
             None \<Rightarrow> ([], Some (SessionError SE_not_found (''Entry not found: '' @ i)))
           | Some e \<Rightarrow> walk_from (entriesById s) stop {} e))"

text \<open>
  The two loops of \<open>findEntriesOnBranch\<close>. Each returns its results and whether it left the loop
  by \<open>break\<close>; a generator that throws is only noticed when it did not.
\<close>

fun branch_loop ::
  "(entry \<Rightarrow> bool) \<Rightarrow> (entry \<Rightarrow> bool) \<Rightarrow> js_number option \<Rightarrow> entry list \<Rightarrow> entry list \<Rightarrow> entry list \<times> bool" where
  "branch_loop P bound limit results [] = (results, False)"
| "branch_loop P bound limit results (e # es) =
     (let results' = (if P e then results @ [e] else results)
      in if bound e \<or> limit_reached (length results') limit then (results', True)
         else branch_loop P bound limit results' es)"

definition findEntriesOnBranch ::
  "session_state \<Rightarrow> entry_query \<Rightarrow> branch_bounds \<Rightarrow> string \<Rightarrow> session_error + entry list" where
  "findEntriesOnBranch s q b start =
     andThen (assertValidLimit (eq_limit q)) (\<lambda>_.
     andThen (assertValidCursor (eq_afterSeq q)) (\<lambda>_.
     if eq_order q = Some OldestFirst then
       (case walkToRoot s (Some start) (\<lambda>_. False) of
          (_, Some err) \<Rightarrow> Inl err
        | (path, None) \<Rightarrow>
            Inr (fst (branch_loop (matchesEntryQuery q) (bound_reached (bb_stopAtId b) (bb_stopAtType b))
                        (eq_limit q) [] (rev path))))
     else
       (case walkToRoot s (Some start) (bound_reached (bb_stopAtId b) (bb_stopAtType b)) of
          (path, err) \<Rightarrow>
            (case branch_loop (matchesEntryQuery q) (\<lambda>_. False) (eq_limit q) [] path of
               (results, broke) \<Rightarrow>
                 (case err of
                    Some x \<Rightarrow> if broke then Inr results else Inl x
                  | None \<Rightarrow> Inr results)))))"

definition findRecords :: "session_state \<Rightarrow> record_query \<Rightarrow> session_error + lane_record list" where
  "findRecords s q =
     andThen (assertValidLimit (rq_limit q)) (\<lambda>_.
     andThen (assertValidCursor (rq_afterSeq q)) (\<lambda>_.
     Inr (collect (matchesRecordQuery q) (rq_limit q) [] (ordered (records s) (rq_order q)))))"

definition findOpenOperations ::
  "session_state \<Rightarrow> string \<Rightarrow> js_number option \<Rightarrow> session_error + operation_started list" where
  "findOpenOperations s lane limit =
     andThen (assertValidLimit limit) (\<lambda>_.
     let openOperations = (case map_of (openOperationsByLane s) lane of
                             None \<Rightarrow> [] | Some m \<Rightarrow> rev (map snd m))
     in Inr (case limit of None \<Rightarrow> openOperations
                         | Some n \<Rightarrow> take (nat (intValue n)) openOperations))"

definition getLog :: "session_state \<Rightarrow> log_options \<Rightarrow> session_error + log_item list" where
  "getLog s opts =
     andThen (assertValidLimit (lo_limit opts)) (\<lambda>_.
     andThen (assertValidCursor (lo_afterSeq opts)) (\<lambda>_.
     Inr (collect (\<lambda>item. case lo_afterSeq opts of None \<Rightarrow> True
                                                   | Some c \<Rightarrow> \<not> int (log_seq item) \<le> intValue c)
            (lo_limit opts) [] (log s))))"

definition getName :: "session_state \<Rightarrow> string option" where
  "getName s = name s"

definition getLabel :: "session_state \<Rightarrow> string \<Rightarrow> string option" where
  "getLabel s i = map_of (labels s) i"

definition getStats :: "session_state \<Rightarrow> session_stats" where
  "getStats s = stats s"

section \<open>Forking\<close>

fun fork_entries :: "nat \<Rightarrow> entry list \<Rightarrow> session_mutation list" where
  "fork_entries q [] = []"
| "fork_entries q (e # es) = MU_entry None (e\<lparr>ent_seq := q\<rparr>) # fork_entries (q + 1) es"

fun fork_lanes :: "nat \<Rightarrow> (string \<times> string option) list \<Rightarrow> session_mutation list" where
  "fork_lanes q [] = []"
| "fork_lanes q ((lane, leafId) # ls) = MU_lane q lane leafId # fork_lanes (q + 1) ls"

fun fork_labels :: "session_state \<Rightarrow> nat \<Rightarrow> entry list \<Rightarrow> session_mutation list" where
  "fork_labels s q [] = []"
| "fork_labels s q (e # es) =
     (case map_of (labels s) (ent_id e) of
        None \<Rightarrow> fork_labels s q es
      | Some l \<Rightarrow> MU_label q (ent_id e) (Some l) # fork_labels s (q + 1) es)"

definition all_oldest_first :: entry_query where
  "all_oldest_first = \<lparr>eq_type = None, eq_customType = None, eq_order = Some OldestFirst,
                       eq_limit = None, eq_afterSeq = None\<rparr>"

definition no_bounds :: branch_bounds where
  "no_bounds = \<lparr>bb_start = None, bb_stopAtType = None, bb_stopAtId = None\<rparr>"

text \<open>The entry a branch fork ends at: \<open>null\<close> for an empty branch.\<close>

definition fork_target ::
  "session_state \<Rightarrow> string option \<Rightarrow> fork_position option \<Rightarrow> session_error + string option" where
  "fork_target s entryId position =
     andThen (case entryId of Some i \<Rightarrow> Inr (Some i) | None \<Rightarrow> requireLane s ''main'') (\<lambda>selected.
     case selected of
       None \<Rightarrow> Inr None
     | Some i \<Rightarrow>
         (let invalid = SessionError SE_invalid_fork_target (''Fork target is not a message entry: '' @ i)
          in case getEntry s i of
               None \<Rightarrow> Inl invalid
             | Some e \<Rightarrow>
                 if ent_type e \<noteq> ET_message then Inl invalid
                 else (case (case position of Some p \<Rightarrow> p
                               | None \<Rightarrow> if entryId = None then FP_at else FP_before) of
                         FP_at \<Rightarrow> Inr (Some (ent_id e))
                       | FP_before \<Rightarrow> Inr (ent_parentId e))))"

definition fork_source ::
  "session_state \<Rightarrow> fork_options \<Rightarrow> session_error + entry list \<times> (string \<times> string option) list" where
  "fork_source s opts =
     (case opts of
        F_tree \<Rightarrow> andThen (findEntries s all_oldest_first) (\<lambda>es. Inr (es, getLanes s))
      | F_branch entryId position \<Rightarrow>
          andThen (fork_target s entryId position) (\<lambda>targetId.
          andThen (case targetId of
                     None \<Rightarrow> Inr []
                   | Some i \<Rightarrow> findEntriesOnBranch s all_oldest_first no_bounds i) (\<lambda>es.
          Inr (es, [(''main'', targetId)]))))"

definition createForkMutations :: "session_state \<Rightarrow> fork_options \<Rightarrow> session_error + session_mutation list" where
  "createForkMutations s opts =
     andThen (fork_source s opts) (\<lambda>(es, ls).
     let q1 = 1; q2 = q1 + length es; q3 = q2 + length ls;
         named = (case name s of None \<Rightarrow> [] | Some nm \<Rightarrow> [MU_name q3 (Some nm)])
     in Inr (fork_entries q1 es @ fork_lanes q2 ls @ named @ fork_labels s (q3 + length named) es))"

end
