(* ===== verification/Session_Invariant.thy ===== *)
theory Session_Invariant
  imports Session_State
begin

text \<open>
  What \<open>applyMutation\<close> keeps true of a session's state. The log is the authority: the entries, the
  records, the id index, the statistics and the open operations are all functions of it, sequence
  numbers are the positions in it, ids are unique across entries and records, and every parent, lane
  leaf and label target is an entry. \<open>wf_state\<close> is the conjunction; \<open>applyMutation_wf\<close> is its
  preservation, and \<open>reachable_state\<close> are the states a sequence of mutations leads to.
\<close>

section \<open>The specification the state is checked against\<close>

fun log_entries :: "log_item list \<Rightarrow> entry list" where
  "log_entries [] = []"
| "log_entries (L_entry _ e # l) = e # log_entries l"
| "log_entries (_ # l) = log_entries l"

fun log_records :: "log_item list \<Rightarrow> lane_record list" where
  "log_records [] = []"
| "log_records (L_record _ r # l) = r # log_records l"
| "log_records (_ # l) = log_records l"

lemma log_entries_append [simp]: "log_entries (xs @ ys) = log_entries xs @ log_entries ys"
  by (induction xs rule: log_entries.induct) simp_all

lemma log_records_append [simp]: "log_records (xs @ ys) = log_records xs @ log_records ys"
  by (induction xs rule: log_records.induct) simp_all

text \<open>A log item carries the sequence number of what it logs.\<close>

fun item_seq_ok :: "log_item \<Rightarrow> bool" where
  "item_seq_ok (L_entry q e) = (ent_seq e = q)"
| "item_seq_ok (L_record q r) = (rec_seq r = q)"
| "item_seq_ok _ = True"

definition parent_known :: "entry list \<Rightarrow> entry \<Rightarrow> bool" where
  "parent_known earlier e =
     (case ent_parentId e of None \<Rightarrow> True | Some p \<Rightarrow> p \<in> ent_id ` set earlier)"

fun parents_before :: "entry list \<Rightarrow> entry list \<Rightarrow> bool" where
  "parents_before earlier [] = True"
| "parents_before earlier (e # es) = (parent_known earlier e \<and> parents_before (earlier @ [e]) es)"

lemma parents_before_append [simp]:
  "parents_before earlier (es @ fs) = (parents_before earlier es \<and> parents_before (earlier @ es) fs)"
  by (induction es arbitrary: earlier) auto

text \<open>The operations of a lane that were started and not finished afterwards, oldest first.\<close>

definition finishes :: "string \<Rightarrow> string \<Rightarrow> lane_record \<Rightarrow> bool" where
  "finishes lane i r \<longleftrightarrow>
     rec_lane r = lane \<and> (case rec_data r of R_operation_finished runId _ _ \<Rightarrow> runId = i | _ \<Rightarrow> False)"

fun unfinished :: "string \<Rightarrow> lane_record list \<Rightarrow> operation_started list" where
  "unfinished lane [] = []"
| "unfinished lane (r # rs) =
     (case narrow_started r of
        None \<Rightarrow> []
      | Some p \<Rightarrow> if rec_lane r = lane \<and> \<not> list_ex (finishes lane (rec_id r)) rs then [p] else [])
     @ unfinished lane rs"

definition step_open :: "string \<Rightarrow> operation_started list \<Rightarrow> lane_record \<Rightarrow> operation_started list" where
  "step_open lane ps r =
     filter (\<lambda>p. \<not> finishes lane (os_id p) r) ps
     @ (case narrow_started r of None \<Rightarrow> [] | Some p \<Rightarrow> if rec_lane r = lane then [p] else [])"

lemma unfinished_snoc: "unfinished lane (rs @ [r]) = step_open lane (unfinished lane rs) r"
proof (induction rs)
  case Nil
  show ?case by (simp add: step_open_def split: option.splits)
next
  case (Cons x rs)
  then show ?case
    by (auto simp: step_open_def split: option.splits dest: narrow_started_Some)
qed

lemma narrow_started_id: "narrow_started r = Some p \<Longrightarrow> os_id p = rec_id r"
  by (simp add: narrow_started_Some)

lemma unfinished_ids: "os_id ` set (unfinished lane rs) \<subseteq> rec_id ` set rs"
proof (induction rs)
  case (Cons r rs)
  then show ?case by (cases "narrow_started r") (auto dest: narrow_started_id)
qed simp

lemma unfinished_distinct:
  "distinct (map rec_id rs) \<Longrightarrow> distinct (map os_id (unfinished lane rs))"
proof (induction rs)
  case (Cons r rs)
  then have "rec_id r \<notin> os_id ` set (unfinished lane rs)"
    using unfinished_ids [of lane rs] by auto
  with Cons show ?case
    by (cases "narrow_started r") (auto simp: narrow_started_id)
qed simp

text \<open>The statistics of a log, by the additions in the order of the log.\<close>

definition count_entry :: "session_stats \<Rightarrow> entry \<Rightarrow> session_stats" where
  "count_entry st e =
     (if ent_type e = ET_message then st\<lparr>st_messageCount := st_messageCount st + 1\<rparr> else st)"

definition count_record :: "session_stats \<Rightarrow> lane_record \<Rightarrow> session_stats" where
  "count_record st r = (case rec_data r of R_usage u _ \<Rightarrow> add_usage st u | _ \<Rightarrow> st)"

fun count_item :: "session_stats \<Rightarrow> log_item \<Rightarrow> session_stats" where
  "count_item st (L_entry _ e) = count_entry st e"
| "count_item st (L_record _ r) = count_record st r"
| "count_item st _ = st"

definition stats_of_log :: "log_item list \<Rightarrow> session_stats" where
  "stats_of_log l = fold (\<lambda>i st. count_item st i) l initial_stats"

section \<open>The invariant\<close>

definition index_of :: "entry list \<Rightarrow> (string \<times> entry) list" where
  "index_of es = map (\<lambda>e. (ent_id e, e)) es"

definition wf_log :: "session_state \<Rightarrow> bool" where
  "wf_log s \<longleftrightarrow>
     map log_seq (log s) = [1..<Suc (sequence s)] \<and> list_all item_seq_ok (log s) \<and>
     entries s = log_entries (log s) \<and> records s = log_records (log s) \<and>
     stats s = stats_of_log (log s)"

definition wf_ids :: "session_state \<Rightarrow> bool" where
  "wf_ids s \<longleftrightarrow>
     distinct (map ent_id (entries s) @ map rec_id (records s)) \<and>
     usedIds s = ent_id ` set (entries s) \<union> rec_id ` set (records s) \<and>
     entriesById s = index_of (entries s)"

definition lanes_ok :: "string set \<Rightarrow> (string \<times> string option) list \<Rightarrow> bool" where
  "lanes_ok ids ls \<longleftrightarrow>
     distinct (map fst ls) \<and> ''main'' \<in> fst ` set ls \<and>
     (\<forall>l leaf. (l, leaf) \<in> set ls \<longrightarrow> set_option leaf \<subseteq> ids)"

definition labels_ok :: "string set \<Rightarrow> (string \<times> string) list \<Rightarrow> bool" where
  "labels_ok ids ls \<longleftrightarrow> distinct (map fst ls) \<and> fst ` set ls \<subseteq> ids"

definition wf_refs :: "session_state \<Rightarrow> bool" where
  "wf_refs s \<longleftrightarrow>
     parents_before [] (entries s) \<and>
     lanes_ok (ent_id ` set (entries s)) (lanes s) \<and>
     labels_ok (ent_id ` set (entries s)) (labels s) \<and>
     rec_lane ` set (records s) \<subseteq> fst ` set (lanes s)"

definition open_of :: "session_state \<Rightarrow> string \<Rightarrow> (string \<times> operation_started) list" where
  "open_of s lane = (case map_of (openOperationsByLane s) lane of None \<Rightarrow> [] | Some m \<Rightarrow> m)"

definition wf_open :: "session_state \<Rightarrow> bool" where
  "wf_open s \<longleftrightarrow> (\<forall>lane. open_of s lane = map (\<lambda>p. (os_id p, p)) (unfinished lane (records s)))"

definition wf_state :: "session_state \<Rightarrow> bool" where
  "wf_state s \<longleftrightarrow> wf_log s \<and> wf_ids s \<and> wf_refs s \<and> wf_open s"

lemmas wf_defs = wf_state_def wf_log_def wf_ids_def wf_refs_def wf_open_def

lemma wf_initial: "wf_state initial_state"
  by (simp add: wf_defs initial_state_def index_of_def open_of_def stats_of_log_def
      lanes_ok_def labels_ok_def)

lemma initial_fields [simp]:
  "entries initial_state = []" "records initial_state = []" "labels initial_state = []"
  "lanes initial_state = [(''main'', None)]" "sequence initial_state = 0" "name initial_state = None"
  by (simp_all add: initial_state_def)

lemma set_update_value:
  "(k, v) \<in> set (AList.update a b m) \<Longrightarrow> (k, v) \<in> set m \<or> k = a \<and> v = b"
  by (induction m) (auto split: if_splits)

lemma lanes_ok_update:
  "lanes_ok ids ls \<Longrightarrow> set_option leaf \<subseteq> ids \<Longrightarrow> lanes_ok ids (AList.update l leaf ls)"
  unfolding lanes_ok_def
  by (metis distinct_update dom_update insertI2 insert_is_Un set_update_value)

lemma lanes_ok_mono: "lanes_ok ids ls \<Longrightarrow> ids \<subseteq> ids' \<Longrightarrow> lanes_ok ids' ls"
  unfolding lanes_ok_def by blast

lemma labels_ok_update: "labels_ok ids ls \<Longrightarrow> i \<in> ids \<Longrightarrow> labels_ok ids (AList.update i v ls)"
  by (simp add: labels_ok_def distinct_update dom_update)

lemma labels_ok_delete: "labels_ok ids ls \<Longrightarrow> labels_ok ids (AList.delete i ls)"
  using delete_keys [of i ls, THEN arg_cong, of set] by (auto simp: labels_ok_def distinct_delete)

lemma labels_ok_mono: "labels_ok ids ls \<Longrightarrow> ids \<subseteq> ids' \<Longrightarrow> labels_ok ids' ls"
  by (auto simp: labels_ok_def)

lemmas ref_rules = lanes_ok_update lanes_ok_mono labels_ok_update labels_ok_delete labels_ok_mono

lemma wf_lookup:
  "wf_ids s \<Longrightarrow> map_of (entriesById s) i = None \<longleftrightarrow> i \<notin> ent_id ` set (entries s)"
  by (simp add: wf_ids_def index_of_def map_of_map_id_eq_None)

lemma wf_lookup_Some:
  "wf_ids s \<Longrightarrow> map_of (entriesById s) i = Some e \<longleftrightarrow> e \<in> set (entries s) \<and> ent_id e = i"
  by (auto simp: wf_ids_def index_of_def dest: map_of_map_id_SomeD intro: map_of_map_id_SomeI)

section \<open>What a mutation must satisfy to be accepted\<close>

fun mutation_ok :: "session_state \<Rightarrow> session_mutation \<Rightarrow> bool" where
  "mutation_ok s (MU_entry lane e) \<longleftrightarrow>
     ent_id e \<notin> usedIds s \<and>
     (case lane of None \<Rightarrow> True | Some l \<Rightarrow> map_of (lanes s) l = Some (ent_parentId e)) \<and>
     (case ent_parentId e of None \<Rightarrow> True | Some p \<Rightarrow> map_of (entriesById s) p \<noteq> None)"
| "mutation_ok s (MU_record r) \<longleftrightarrow> map_of (lanes s) (rec_lane r) \<noteq> None \<and> rec_id r \<notin> usedIds s"
| "mutation_ok s (MU_lane _ _ leafId) \<longleftrightarrow>
     (case leafId of None \<Rightarrow> True | Some i \<Rightarrow> map_of (entriesById s) i \<noteq> None)"
| "mutation_ok s (MU_name _ _) \<longleftrightarrow> True"
| "mutation_ok s (MU_label _ targetId _) \<longleftrightarrow> map_of (entriesById s) targetId \<noteq> None"

lemmas apply_defs = applyMutation_def apply_entry_def apply_record_def apply_lane_def
  apply_name_def apply_label_def

lemma applyMutation_accepts:
  "(\<exists>t. applyMutation s mu = Inr t) \<longleftrightarrow> mutation_seq mu = sequence s + 1 \<and> mutation_ok s mu"
  by (cases mu) (auto simp: apply_defs check_entry_lane_def throws split: option.splits)

lemma applyMutation_error_code:
  "applyMutation s mu = Inl e \<Longrightarrow> code e = SE_invalid_entry"
  by (cases mu)
    (auto simp: apply_defs check_entry_lane_def throws invalidMutation_def split: option.splits)

section \<open>Preservation, one kind of mutation at a time\<close>

lemma wf_log_step:
  assumes "wf_log s" "log_seq i = sequence s + 1" "item_seq_ok i"
    and "sequence t = sequence s + 1" "log t = log s @ [i]"
    and "entries t = entries s @ log_entries [i]" "records t = records s @ log_records [i]"
    and "stats t = count_item (stats s) i"
  shows "wf_log t"
  using assms by (simp add: wf_log_def stats_of_log_def)

lemma track_open_correct:
  assumes "wf_open s" "wf_ids s" "rec_id r \<notin> usedIds s"
    and "openOperationsByLane t = track_open (openOperationsByLane s) r"
    and "records t = records s @ [r]"
  shows "wf_open t"
  unfolding wf_open_def
proof
  fix lane
  let ?us = "unfinished lane (records s)"
  have old: "open_of s lane = map (\<lambda>p. (os_id p, p)) ?us"
    using assms(1) by (simp add: wf_open_def)
  have fresh: "rec_id r \<notin> os_id ` set ?us"
    using unfinished_ids [of lane "records s"] assms(2,3) by (auto simp: wf_ids_def)
  have "open_of t lane = map (\<lambda>p. (os_id p, p)) (step_open lane ?us r)"
  proof (cases "rec_data r")
    case (R_operation_started src intent)
    then obtain p where p: "narrow_started r = Some p" "os_id p = rec_id r"
      by (auto simp: narrow_started.simps)
    have "AList.update (rec_id r) p (open_of s lane) = open_of s lane @ [(rec_id r, p)]"
      using fresh by (intro update_fresh) (simp add: old map_of_eq_None_iff image_image)
    with R_operation_started p old show ?thesis
      by (auto simp: open_of_def assms(4) track_open_def step_open_def finishes_def filter_True)
  next
    case (R_operation_finished i o' err)
    have none: "narrow_started r = None" by (simp add: narrow_started.simps R_operation_finished)
    have del: "AList.delete i (map (\<lambda>p. (os_id p, p)) ps) =
        map (\<lambda>p. (os_id p, p)) (filter (\<lambda>p. i \<noteq> os_id p) ps)" for ps
      by (induction ps) auto
    have "open_of t lane = (if rec_lane r = lane then AList.delete i (open_of s lane) else open_of s lane)"
      by (auto simp: open_of_def assms(4) track_open_def R_operation_finished split: option.splits)
    moreover have "step_open lane ?us r = filter (\<lambda>p. rec_lane r = lane \<longrightarrow> i \<noteq> os_id p) ?us"
      by (simp add: step_open_def finishes_def none R_operation_finished)
    ultimately show ?thesis by (simp add: old del)
  qed (use old in \<open>auto simp: open_of_def assms(4) track_open_def step_open_def finishes_def
        narrow_started.simps\<close>)
  then show "open_of t lane = map (\<lambda>p. (os_id p, p)) (unfinished lane (records t))"
    by (simp add: assms(5) unfinished_snoc)
qed

lemma apply_entry_wf:
  assumes "wf_state s" "apply_entry s lane e = Inr t" "ent_seq e = sequence s + 1"
  shows "wf_state t"
proof -
  have wf: "wf_log s" "wf_ids s" "wf_refs s" "wf_open s" using assms(1) by (auto simp: wf_state_def)
  from assms(2) have fresh: "ent_id e \<notin> usedIds s"
    and par: "case ent_parentId e of None \<Rightarrow> True | Some p \<Rightarrow> map_of (entriesById s) p \<noteq> None"
    and t: "t = s\<lparr>sequence := ent_seq e, usedIds := insert (ent_id e) (usedIds s),
        entries := entries s @ [e], entriesById := AList.update (ent_id e) e (entriesById s),
        lanes := (case lane of None \<Rightarrow> lanes s | Some l \<Rightarrow> AList.update l (Some (ent_id e)) (lanes s)),
        log := log s @ [L_entry (ent_seq e) e],
        stats := (if ent_type e = ET_message
                  then (stats s)\<lparr>st_messageCount := st_messageCount (stats s) + 1\<rparr> else stats s)\<rparr>"
    by (auto simp: apply_entry_def throws)
  have "wf_log t"
    by (rule wf_log_step [OF wf(1), of "L_entry (ent_seq e) e"])
      (simp_all add: t assms(3) count_entry_def)
  moreover have "ent_id e \<notin> ent_id ` set (entries s)"
    using fresh wf(2) by (auto simp: wf_ids_def)
  then have "map_of (entriesById s) (ent_id e) = None"
    by (simp add: wf_lookup [OF wf(2)])
  with wf(2) fresh have "wf_ids t"
    by (auto simp: wf_ids_def t update_fresh index_of_def)
  moreover have "parent_known (entries s) e"
    using par by (auto simp: parent_known_def wf_lookup [OF wf(2)] split: option.splits)
  with wf(3) have "wf_refs t"
    by (auto simp: wf_refs_def t dom_update split: option.splits intro!: lanes_ok_update
        elim!: lanes_ok_mono labels_ok_mono)
  moreover have "wf_open t"
    using wf(4) by (simp add: wf_open_def open_of_def t)
  ultimately show ?thesis by (simp add: wf_state_def)
qed

lemma apply_record_wf:
  assumes "wf_state s" "apply_record s r = Inr t" "rec_seq r = sequence s + 1"
  shows "wf_state t"
proof -
  have wf: "wf_log s" "wf_ids s" "wf_refs s" "wf_open s" using assms(1) by (auto simp: wf_state_def)
  from assms(2) have fresh: "rec_id r \<notin> usedIds s" and lane: "map_of (lanes s) (rec_lane r) \<noteq> None"
    and t: "t = s\<lparr>sequence := rec_seq r, usedIds := insert (rec_id r) (usedIds s),
        records := records s @ [r], openOperationsByLane := track_open (openOperationsByLane s) r,
        log := log s @ [L_record (rec_seq r) r],
        stats := (case rec_data r of R_usage u _ \<Rightarrow> add_usage (stats s) u | _ \<Rightarrow> stats s)\<rparr>"
    by (auto simp: apply_record_def throws)
  have "wf_log t"
    by (rule wf_log_step [OF wf(1), of "L_record (rec_seq r) r"])
      (simp_all add: t assms(3) count_record_def)
  moreover have "wf_ids t"
    using wf(2) fresh by (auto simp: wf_ids_def t)
  moreover have "rec_lane r \<in> fst ` set (lanes s)"
    using lane by (simp add: map_of_eq_None_iff)
  with wf(3) have "wf_refs t" by (auto simp: wf_refs_def t)
  moreover have "wf_open t"
    by (rule track_open_correct [OF wf(4) wf(2) fresh]) (simp_all add: t)
  ultimately show ?thesis by (simp add: wf_state_def)
qed

lemma apply_lane_wf:
  assumes "wf_state s" "apply_lane s q lane leafId = Inr t" "q = sequence s + 1"
  shows "wf_state t"
proof -
  have wf: "wf_log s" "wf_ids s" "wf_refs s" "wf_open s" using assms(1) by (auto simp: wf_state_def)
  from assms(2) have leaf: "case leafId of None \<Rightarrow> True | Some i \<Rightarrow> map_of (entriesById s) i \<noteq> None"
    and t: "t = s\<lparr>sequence := q, lanes := AList.update lane leafId (lanes s),
                  log := log s @ [L_lane q lane leafId]\<rparr>"
    by (auto simp: apply_lane_def throws)
  have "wf_log t"
    by (rule wf_log_step [OF wf(1), of "L_lane q lane leafId"]) (simp_all add: t assms(3))
  moreover have "wf_refs t"
    using wf(3) leaf wf_lookup [OF wf(2)]
    by (auto simp: wf_refs_def t dom_update split: option.splits intro!: lanes_ok_update)
  moreover have "wf_ids t" "wf_open t"
    using wf(2,4) by (simp_all add: wf_ids_def wf_open_def open_of_def t)
  ultimately show ?thesis by (simp add: wf_state_def)
qed

lemma apply_name_wf:
  assumes "wf_state s" "apply_name s q nm = Inr t" "q = sequence s + 1"
  shows "wf_state t"
proof -
  have t: "t = s\<lparr>sequence := q, name := nm, log := log s @ [L_name q nm]\<rparr>"
    using assms(2) by (simp add: apply_name_def)
  have "wf_log t"
    using assms(1) by (rule_tac wf_log_step [of s "L_name q nm"]) (simp_all add: t assms(3) wf_state_def)
  with assms(1) show ?thesis
    by (simp add: t wf_state_def wf_ids_def wf_refs_def wf_open_def open_of_def)
qed

lemma apply_label_wf:
  assumes "wf_state s" "apply_label s q targetId lbl = Inr t" "q = sequence s + 1"
  shows "wf_state t"
proof -
  have wf: "wf_log s" "wf_ids s" "wf_refs s" "wf_open s" using assms(1) by (auto simp: wf_state_def)
  from assms(2) have target: "targetId \<in> ent_id ` set (entries s)"
    and t: "t = s\<lparr>sequence := q,
        labels := (case lbl of None \<Rightarrow> AList.delete targetId (labels s)
                             | Some l \<Rightarrow> AList.update targetId l (labels s)),
        log := log s @ [L_label q targetId lbl]\<rparr>"
    using wf_lookup [OF wf(2), of targetId] by (auto simp: apply_label_def throws)
  have "wf_log t"
    by (rule wf_log_step [OF wf(1), of "L_label q targetId lbl"]) (simp_all add: t assms(3))
  moreover have "wf_refs t"
    using wf(3) target
    by (auto simp: wf_refs_def t split: option.splits intro!: labels_ok_update labels_ok_delete)
  moreover have "wf_ids t" "wf_open t"
    using wf(2,4) by (simp_all add: wf_ids_def wf_open_def open_of_def t)
  ultimately show ?thesis by (simp add: wf_state_def)
qed

lemma applyMutation_wf:
  assumes "wf_state s" "applyMutation s mu = Inr t"
  shows "wf_state t"
  using assms
  by (cases mu) (auto simp: applyMutation_def throws
      intro: apply_entry_wf apply_record_wf apply_lane_wf apply_name_wf apply_label_wf)

lemma applyMutation_sequence: "applyMutation s mu = Inr t \<Longrightarrow> sequence t = sequence s + 1"
  by (cases mu) (auto simp: apply_defs throws)

lemma applyMutation_records:
  "applyMutation s mu = Inr t \<Longrightarrow>
     records t = records s @ (case mu of MU_record r \<Rightarrow> [r] | _ \<Rightarrow> [])"
  by (cases mu) (auto simp: apply_defs throws)

lemma applyMutation_log_prefix: "applyMutation s mu = Inr t \<Longrightarrow> \<exists>i. log t = log s @ [i]"
  by (cases mu) (auto simp: apply_defs throws)

section \<open>Reachable states\<close>

inductive reachable_state :: "session_state \<Rightarrow> bool" where
  reach_init: "reachable_state initial_state"
| reach_step: "reachable_state s \<Longrightarrow> applyMutation s mu = Inr t \<Longrightarrow> reachable_state t"

inductive_simps reachable_state_simps: "reachable_state s"

lemma reachable_wf: "reachable_state s \<Longrightarrow> wf_state s"
  by (induction rule: reachable_state.induct) (auto intro: wf_initial applyMutation_wf)

lemma reachable_foldR:
  "reachable_state s \<Longrightarrow> foldR applyMutation s mus = Inr t \<Longrightarrow> reachable_state t"
  by (erule foldR_invariant) (auto intro: reach_step)

end
