(* ===== verification/Session_Queries.thy ===== *)
theory Session_Queries
  imports Session_Invariant
begin

text \<open>
  What the queries of \<open>SessionState\<close> return on a well-formed state: the shared loop is a filter cut
  at the limit, a branch walk is the chain of parents down to a root and never throws, open
  operations are the unfinished starts. The last section proves that a fork can be replayed: every
  mutation \<open>createForkMutations\<close> makes is accepted by a fresh state.
\<close>

section \<open>The collecting loop\<close>

definition limited :: "js_number option \<Rightarrow> 'a list \<Rightarrow> 'a list" where
  "limited limit xs = (case limit of None \<Rightarrow> xs | Some n \<Rightarrow> take (nat (intValue n)) xs)"

definition valid_limit :: "js_number option \<Rightarrow> bool" where
  "valid_limit limit = (case limit of None \<Rightarrow> True | Some n \<Rightarrow> isInteger n \<and> 0 < intValue n)"

definition valid_cursor :: "js_number option \<Rightarrow> bool" where
  "valid_cursor c = (case c of None \<Rightarrow> True | Some n \<Rightarrow> isInteger n \<and> 0 \<le> intValue n)"

lemma assertValidLimit_Inr: "assertValidLimit l = Inr u \<longleftrightarrow> valid_limit l"
  by (auto simp: assertValidLimit_def valid_limit_def split: option.splits)

lemma assertValidCursor_Inr: "assertValidCursor c = Inr u \<longleftrightarrow> valid_cursor c"
  by (auto simp: assertValidCursor_def valid_cursor_def split: option.splits)

lemma valid_limit_Some: "valid_limit (Some n) \<longleftrightarrow> (\<exists>k. n = JInt (int k) \<and> 0 < k)"
  by (cases n) (auto simp: valid_limit_def dest: zero_less_imp_eq_int)

lemma collect_unlimited: "collect P None acc xs = acc @ filter P xs"
  by (induction xs arbitrary: acc) (simp_all add: limit_reached_def)

lemma collect_limit:
  "length acc < k \<Longrightarrow>
     collect P (Some (JInt (int k))) acc xs = acc @ take (k - length acc) (filter P xs)"
proof (induction xs arbitrary: acc)
  case (Cons x xs)
  show ?case
  proof (cases "P x \<and> length acc + 1 < k")
    case True
    then have "k - length acc = Suc (k - length (acc @ [x]))" by auto
    with True Cons.IH [of "acc @ [x]"] show ?thesis by (simp add: limit_reached_def)
  next
    case False
    then have "P x \<Longrightarrow> k = Suc (length acc)" using Cons.prems by simp
    with Cons show ?thesis by (cases "P x") (auto simp: limit_reached_def)
  qed
qed simp

lemma collect_limited: "valid_limit l \<Longrightarrow> collect P l [] xs = limited l (filter P xs)"
  by (cases l) (auto simp: collect_unlimited collect_limit limited_def valid_limit_Some)

lemma findEntries_eq:
  "findEntries s q = Inr es \<longleftrightarrow>
     valid_limit (eq_limit q) \<and> valid_cursor (eq_afterSeq q) \<and>
     es = limited (eq_limit q) (filter (matchesEntryQuery q) (ordered (entries s) (eq_order q)))"
  by (auto simp: findEntries_def throws assertValidLimit_Inr assertValidCursor_Inr collect_limited)

lemma findRecords_eq:
  "findRecords s q = Inr rs \<longleftrightarrow>
     valid_limit (rq_limit q) \<and> valid_cursor (rq_afterSeq q) \<and>
     rs = limited (rq_limit q) (filter (matchesRecordQuery q) (ordered (records s) (rq_order q)))"
  by (auto simp: findRecords_def throws assertValidLimit_Inr assertValidCursor_Inr collect_limited)

lemma findOpenOperations_eq:
  "wf_state s \<Longrightarrow> valid_limit l \<Longrightarrow>
     findOpenOperations s lane l = Inr (limited l (rev (unfinished lane (records s))))"
proof -
  assume wf: "wf_state s" and l: "valid_limit l"
  have m: "(case map_of (openOperationsByLane s) lane of None \<Rightarrow> [] | Some m \<Rightarrow> rev (map snd m))
      = rev (map snd (open_of s lane))"
    by (simp add: open_of_def split: option.splits)
  have "map snd (open_of s lane) = unfinished lane (records s)"
    using wf by (simp add: wf_state_def wf_open_def comp_def)
  with l m show ?thesis
    by (auto simp: findOpenOperations_def limited_def throws assertValidLimit_Inr [THEN iffD2]
        split: option.splits)
qed

section \<open>Sequence numbers order the entries\<close>

lemma log_entries_seq:
  "list_all item_seq_ok l \<Longrightarrow> sorted_wrt (<) (map log_seq l) \<Longrightarrow>
     sorted_wrt (<) (map ent_seq (log_entries l)) \<and>
     ent_seq ` set (log_entries l) \<subseteq> set (map log_seq l)"
proof (induction l rule: log_entries.induct)
  case (2 q e l)
  then show ?case by auto
qed auto

lemma wf_entries_sorted: "wf_state s \<Longrightarrow> sorted_wrt (<) (map ent_seq (entries s))"
  using log_entries_seq [of "log s"] sorted_wrt_upt [of 1 "Suc (sequence s)"]
  unfolding wf_state_def wf_log_def by metis

lemma parents_before_smaller:
  assumes "sorted_wrt (<) (map ent_seq es)" "parents_before [] es" "e \<in> set es"
    and "ent_parentId e = Some i"
  shows "\<exists>p \<in> set es. ent_id p = i \<and> ent_seq p < ent_seq e"
proof -
  obtain xs ys where es: "es = xs @ e # ys" using assms(3) by (meson split_list)
  then have "i \<in> ent_id ` set xs" using assms(2,4) by (simp add: parent_known_def)
  then obtain p where "p \<in> set xs" "ent_id p = i" by blast
  with es assms(1) show ?thesis by (auto simp: sorted_wrt_append)
qed

section \<open>Branch walks\<close>

fun parent_chain :: "entry list \<Rightarrow> bool" where
  "parent_chain [] = False"
| "parent_chain [e] = (ent_parentId e = None)"
| "parent_chain (e # f # es) = (ent_parentId e = Some (ent_id f) \<and> parent_chain (f # es))"

fun take_until :: "('a \<Rightarrow> bool) \<Rightarrow> 'a list \<Rightarrow> 'a list" where
  "take_until P [] = []"
| "take_until P (x # xs) = (if P x then [x] else x # take_until P xs)"

lemma take_until_never [simp]: "take_until (\<lambda>_. False) xs = xs"
  by (induction xs) simp_all

lemma parent_chain_not_Nil: "parent_chain xs \<Longrightarrow> xs \<noteq> []"
  by (cases xs) simp_all

text \<open>A branch of a state: a chain of its entries from a given entry to a root, newest first.\<close>

definition is_branch :: "session_state \<Rightarrow> string \<Rightarrow> entry list \<Rightarrow> bool" where
  "is_branch s i path \<longleftrightarrow>
     parent_chain path \<and> ent_id (hd path) = i \<and> set path \<subseteq> set (entries s) \<and>
     sorted_wrt (>) (map ent_seq path)"

lemma walk_from_branch:
  assumes wf: "wf_state s" and "e \<in> set (entries s)"
  shows "\<exists>path. is_branch s (ent_id e) path \<and> hd path = e \<and>
    (\<forall>stop visited. (\<forall>f \<in> set (entries s). ent_seq f \<le> ent_seq e \<longrightarrow> ent_id f \<notin> visited) \<longrightarrow>
       walk_from (entriesById s) stop visited e = (take_until stop path, None))"
  using assms(2)
proof (induction "ent_seq e" arbitrary: e rule: less_induct)
  case less
  show ?case
  proof (cases "ent_parentId e")
    case None
    with less.prems show ?thesis
      by (intro exI [of _ "[e]"]) (auto simp: is_branch_def walk_from.simps)
  next
    case (Some i)
    obtain p where p: "p \<in> set (entries s)" "ent_id p = i" "ent_seq p < ent_seq e"
      using parents_before_smaller [OF wf_entries_sorted [OF wf] _ less.prems Some] wf
      by (auto simp: wf_state_def wf_refs_def)
    obtain path where path: "is_branch s (ent_id p) path" "hd path = p"
      and walk: "\<And>stop visited. (\<forall>f \<in> set (entries s). ent_seq f \<le> ent_seq p \<longrightarrow> ent_id f \<notin> visited) \<Longrightarrow>
        walk_from (entriesById s) stop visited p = (take_until stop path, None)"
      using less.hyps [OF p(3) p(1)] by blast
    obtain rest where cons: "path = p # rest"
      using path parent_chain_not_Nil by (cases path) (auto simp: is_branch_def)
    have look: "map_of (entriesById s) i = Some p"
      using p wf by (simp add: wf_state_def wf_lookup_Some)
    have inj: "f = e" if "f \<in> set (entries s)" "ent_id f = ent_id e" for f
      using that less.prems wf by (auto simp: wf_state_def wf_ids_def distinct_map inj_on_def)
    have "is_branch s (ent_id e) (e # path)"
      using path p Some less.prems by (auto simp: is_branch_def cons)
    moreover have "walk_from (entriesById s) stop visited e = (take_until stop (e # path), None)"
      if v: "\<forall>f \<in> set (entries s). ent_seq f \<le> ent_seq e \<longrightarrow> ent_id f \<notin> visited" for stop visited
    proof -
      have "\<forall>f \<in> set (entries s). ent_seq f \<le> ent_seq p \<longrightarrow> ent_id f \<notin> insert (ent_id e) visited"
        using v p inj by fastforce
      from walk [OF this] show ?thesis
        using v less.prems by (auto simp: walk_from.simps [of _ _ visited e] Some look)
    qed
    ultimately show ?thesis by (intro exI [of _ "e # path"]) simp
  qed
qed

lemma walkToRoot_branch:
  assumes "wf_state s" and "i \<in> ent_id ` set (entries s)"
  shows "\<exists>path. is_branch s i path \<and> (\<forall>stop. walkToRoot s (Some i) stop = (take_until stop path, None))"
proof -
  obtain e where e: "e \<in> set (entries s)" "ent_id e = i" using assms(2) by blast
  then have "map_of (entriesById s) i = Some e"
    using assms(1) by (simp add: wf_state_def wf_lookup_Some)
  then show ?thesis
    using walk_from_branch [OF assms(1) e(1)] e(2) by (auto simp: walkToRoot_def)
qed

lemma getEntry_known:
  "wf_state s \<Longrightarrow> getEntry s i \<noteq> None \<Longrightarrow> i \<in> ent_id ` set (entries s)"
  using wf_lookup [of s i] by (auto simp: getEntry_def wf_state_def)

lemma walkToRoot_unknown:
  assumes "wf_state s" and "i \<notin> ent_id ` set (entries s)"
  shows "walkToRoot s (Some i) stop = ([], Some (SessionError SE_not_found (''Entry not found: '' @ i)))"
  using assms wf_lookup [of s i] by (auto simp: walkToRoot_def wf_state_def)

lemma branch_loop_unlimited:
  "fst (branch_loop P bound None acc es) = acc @ filter P (take_until bound es)"
  by (induction es arbitrary: acc) (auto simp: limit_reached_def Let_def)

lemma branch_loop_limit:
  "length acc < k \<Longrightarrow>
     fst (branch_loop P bound (Some (JInt (int k))) acc es) =
       acc @ take (k - length acc) (filter P (take_until bound es))"
proof (induction es arbitrary: acc)
  case (Cons e es)
  show ?case
  proof (cases "P e \<and> length acc + 1 < k")
    case True
    then have "k - length acc = Suc (k - length (acc @ [e]))" by auto
    with True Cons.IH [of "acc @ [e]"] show ?thesis by (simp add: limit_reached_def Let_def)
  next
    case False
    then have "P e \<Longrightarrow> k = Suc (length acc)" using Cons.prems by simp
    with Cons show ?thesis by (cases "P e") (auto simp: limit_reached_def Let_def)
  qed
qed simp

lemma branch_loop_limited:
  "valid_limit l \<Longrightarrow>
     fst (branch_loop P bound l [] es) = limited l (filter P (take_until bound es))"
  by (cases l) (auto simp: branch_loop_unlimited branch_loop_limit limited_def valid_limit_Some)

text \<open>
  A branch query scans the branch from the leaf, or from the root when oldest first, up to the first
  bound, and keeps the matching entries up to the limit.
\<close>

lemma findEntriesOnBranch_eq:
  assumes wf: "wf_state s" and "valid_limit (eq_limit q)" "valid_cursor (eq_afterSeq q)"
    and path: "is_branch s i path"
    and walk: "\<And>stop. walkToRoot s (Some i) stop = (take_until stop path, None)"
  shows "findEntriesOnBranch s q b i =
    Inr (limited (eq_limit q) (filter (matchesEntryQuery q)
      (take_until (bound_reached (bb_stopAtId b) (bb_stopAtType b))
        (if eq_order q = Some OldestFirst then rev path else path))))"
proof -
  have l: "assertValidLimit (eq_limit q) = Inr ()" "assertValidCursor (eq_afterSeq q) = Inr ()"
    using assms(2,3) by (simp_all add: assertValidLimit_Inr assertValidCursor_Inr)
  show ?thesis
    using branch_loop_limited [OF assms(2)]
    by (auto simp: findEntriesOnBranch_def l walk split: prod.split)
      (metis fst_conv take_until_never)
qed

section \<open>Replaying a fork\<close>

fun renumber :: "nat \<Rightarrow> entry list \<Rightarrow> entry list" where
  "renumber q [] = []"
| "renumber q (e # es) = e\<lparr>ent_seq := q\<rparr> # renumber (q + 1) es"

lemma renumber_ids [simp]: "map ent_id (renumber q es) = map ent_id es"
  by (induction es arbitrary: q) simp_all

lemma renumber_parents [simp]: "map ent_parentId (renumber q es) = map ent_parentId es"
  by (induction es arbitrary: q) simp_all

lemma renumber_data [simp]: "map ent_data (renumber q es) = map ent_data es"
  by (induction es arbitrary: q) simp_all

lemma renumber_seqs: "map ent_seq (renumber q es) = [q..<q + length es]"
proof (induction es arbitrary: q)
  case (Cons e es)
  have "[q..<q + length (e # es)] = q # [q + 1..<(q + 1) + length es]"
    by (subst upt_conv_Cons) simp_all
  with Cons.IH [of "q + 1"] show ?case by simp
qed simp

lemma renumber_id_set [simp]: "ent_id ` set (renumber q es) = ent_id ` set es"
  using renumber_ids [of q es] by (metis set_map)

lemma parents_before_cong:
  "ent_id ` set xs = ent_id ` set ys \<Longrightarrow> parents_before xs es = parents_before ys es"
proof (induction es arbitrary: xs ys)
  case (Cons e es)
  have "parents_before (xs @ [e]) es = parents_before (ys @ [e]) es"
    by (rule Cons.IH) (simp add: Cons.prems image_Un)
  moreover have "parent_known xs e = parent_known ys e"
    using Cons.prems unfolding parent_known_def by metis
  ultimately show ?case by simp
qed simp

text \<open>What replaying the entries, the lanes and the labels of a fork leaves as it was.\<close>

definition same_but :: "session_state \<Rightarrow> session_state \<Rightarrow> nat \<Rightarrow> bool" where
  "same_but s t n \<longleftrightarrow> wf_state t \<and> records t = records s \<and> sequence t = sequence s + n"

lemma fork_entries_replay:
  assumes "wf_state s" "records s = []" "q = sequence s + 1"
    and "distinct (map ent_id es)" "ent_id ` set es \<inter> ent_id ` set (entries s) = {}"
    and "parents_before (entries s) es"
  shows "\<exists>t. foldR applyMutation s (fork_entries q es) = Inr t \<and> same_but s t (length es) \<and>
    entries t = entries s @ renumber q es \<and> lanes t = lanes s \<and> name t = name s \<and> labels t = labels s"
  using assms
proof (induction es arbitrary: s q)
  case Nil
  then show ?case by (simp add: same_but_def)
next
  case (Cons e es)
  let ?e = "e\<lparr>ent_seq := q\<rparr>" and ?m = "MU_entry None (e\<lparr>ent_seq := q\<rparr>)"
  have ids: "wf_ids s" using Cons.prems(1) by (simp add: wf_state_def)
  have "mutation_ok s ?m"
    using Cons.prems(2,5,6) ids
    by (auto simp: parent_known_def wf_lookup [OF ids] split: option.splits)
       (auto simp: wf_ids_def)
  moreover have "mutation_seq ?m = sequence s + 1"
    using Cons.prems(3) by simp
  ultimately obtain u where u: "applyMutation s ?m = Inr u"
    using applyMutation_accepts by blast
  then have f: "entries u = entries s @ [?e]" "records u = []" "lanes u = lanes s"
    "name u = name s" "labels u = labels s" "sequence u = q"
    using Cons.prems(2) by (auto simp: applyMutation_def apply_entry_def throws)
  have "parents_before (entries u) es"
    using Cons.prems(6) f(1) parents_before_cong [of "entries s @ [e]" "entries u" es] by simp
  then obtain t where t: "foldR applyMutation u (fork_entries (q + 1) es) = Inr t"
      "same_but u t (length es)" "entries t = entries u @ renumber (q + 1) es"
      "lanes t = lanes u" "name t = name u" "labels t = labels u"
    using Cons.IH [of u "q + 1"] Cons.prems(4,5) applyMutation_wf [OF Cons.prems(1) u] f
    by auto
  then show ?case
    using u f Cons.prems(2,3) by (auto simp: same_but_def)
qed

lemma fork_lanes_replay:
  assumes "wf_state s" "q = sequence s + 1" "distinct (map fst ls)"
    and "\<And>l leaf. (l, leaf) \<in> set ls \<Longrightarrow> set_option leaf \<subseteq> ent_id ` set (entries s)"
  shows "\<exists>t. foldR applyMutation s (fork_lanes q ls) = Inr t \<and> same_but s t (length ls) \<and>
    entries t = entries s \<and> map_of (lanes t) = map_of (lanes s) ++ map_of ls \<and>
    name t = name s \<and> labels t = labels s"
  using assms
proof (induction ls arbitrary: s q)
  case Nil
  then show ?case by (simp add: same_but_def)
next
  case (Cons p ls)
  obtain l leaf where p: "p = (l, leaf)" by (cases p)
  have ids: "wf_ids s" using Cons.prems(1) by (simp add: wf_state_def)
  have "mutation_ok s (MU_lane q l leaf)"
    using Cons.prems(4) [of l leaf] wf_lookup [OF ids] p by (auto split: option.splits)
  moreover have "mutation_seq (MU_lane q l leaf) = sequence s + 1"
    using Cons.prems(2) by simp
  ultimately obtain u where u: "applyMutation s (MU_lane q l leaf) = Inr u"
    using applyMutation_accepts by blast
  then have f: "entries u = entries s" "records u = records s" "name u = name s"
    "labels u = labels s" "sequence u = q" "map_of (lanes u) = (map_of (lanes s))(l \<mapsto> leaf)"
    by (auto simp: applyMutation_def apply_lane_def throws)
  have "\<exists>t. foldR applyMutation u (fork_lanes (q + 1) ls) = Inr t \<and> same_but u t (length ls) \<and>
      entries t = entries u \<and> map_of (lanes t) = map_of (lanes u) ++ map_of ls \<and>
      name t = name u \<and> labels t = labels u"
  proof (rule Cons.IH [OF applyMutation_wf [OF Cons.prems(1) u]])
    fix l' leaf' assume "(l', leaf') \<in> set ls"
    then show "set_option leaf' \<subseteq> ent_id ` set (entries u)"
      using Cons.prems(4) [of l' leaf'] f(1) by simp
  qed (use Cons.prems(3) f(5) in simp_all)
  then obtain t where t: "foldR applyMutation u (fork_lanes (q + 1) ls) = Inr t"
      "same_but u t (length ls)" "entries t = entries u"
      "map_of (lanes t) = map_of (lanes u) ++ map_of ls" "name t = name u" "labels t = labels u"
    by blast
  have "l \<notin> dom (map_of ls)" using Cons.prems(3) p by (simp add: dom_map_of_conv_image_fst)
  then have "map_of (lanes t) = map_of (lanes s) ++ map_of (p # ls)"
    by (simp add: t(4) f(6) p map_add_upd_left)
  moreover have "same_but s t (length (p # ls))"
    using t(2) f(2,5) Cons.prems(2) by (simp add: same_but_def)
  moreover have "foldR applyMutation s (fork_lanes q (p # ls)) = Inr t"
    using t(1) u p by simp
  ultimately show ?case
    using t(3,5,6) f(1,3,4) by (intro exI [of _ t]) (simp only: simp_thms)
qed

lemma fork_labels_replay:
  assumes "wf_state s" "q = sequence s + 1" "distinct (map ent_id es)"
    and "ent_id ` set es \<subseteq> ent_id ` set (entries s)"
  shows "\<exists>t n. foldR applyMutation s (fork_labels src q es) = Inr t \<and> same_but s t n \<and>
    entries t = entries s \<and> lanes t = lanes s \<and> name t = name s \<and>
    map_of (labels t) = map_of (labels s) ++ (map_of (labels src) |` (ent_id ` set es))"
  using assms
proof (induction es arbitrary: s q)
  case Nil
  then show ?case by (auto simp: same_but_def)
next
  case (Cons e es)
  show ?case
  proof (cases "map_of (labels src) (ent_id e)")
    case None
    then have "map_of (labels src) |` insert (ent_id e) (ent_id ` set es)
        = map_of (labels src) |` (ent_id ` set es)"
      by (auto simp: restrict_map_def fun_eq_iff)
    with None Cons.IH [of s q] Cons.prems show ?thesis by auto
  next
    case (Some l)
    have ids: "wf_ids s" using Cons.prems(1) by (simp add: wf_state_def)
    have "mutation_ok s (MU_label q (ent_id e) (Some l))"
      using Cons.prems(4) wf_lookup [OF ids] by auto
    moreover have "mutation_seq (MU_label q (ent_id e) (Some l)) = sequence s + 1"
      using Cons.prems(2) by simp
    ultimately obtain u where u: "applyMutation s (MU_label q (ent_id e) (Some l)) = Inr u"
      using applyMutation_accepts by blast
    then have f: "entries u = entries s" "records u = records s" "name u = name s"
      "lanes u = lanes s" "sequence u = q" "map_of (labels u) = (map_of (labels s))(ent_id e \<mapsto> l)"
      by (auto simp: applyMutation_def apply_label_def throws)
    have "\<exists>t n. foldR applyMutation u (fork_labels src (q + 1) es) = Inr t \<and> same_but u t n \<and>
        entries t = entries u \<and> lanes t = lanes u \<and> name t = name u \<and>
        map_of (labels t) = map_of (labels u) ++ (map_of (labels src) |` (ent_id ` set es))"
      by (rule Cons.IH [OF applyMutation_wf [OF Cons.prems(1) u]])
        (use Cons.prems(3,4) f(1,5) in simp_all)
    then obtain t n where t: "foldR applyMutation u (fork_labels src (q + 1) es) = Inr t"
        "same_but u t n" "entries t = entries u" "lanes t = lanes u" "name t = name u"
        "map_of (labels t) = map_of (labels u) ++ (map_of (labels src) |` (ent_id ` set es))"
      by blast
    have "map_of (labels t) =
        map_of (labels s) ++ (map_of (labels src) |` (ent_id ` set (e # es)))"
      using Some by (auto simp: t(6) f(6) map_add_def restrict_map_def fun_eq_iff split: option.splits)
    with t u f Cons.prems(2) Some show ?thesis
      by (intro exI [of _ t] exI [of _ "Suc n"]) (simp add: same_but_def)
  qed
qed

end
