(* ===== verification/Session_Memory.thy ===== *)
theory Session_Memory
  imports Session_Queries
begin

text \<open>
  \<open>InMemorySessionStorage\<close> and \<open>InMemorySessionRepo\<close>
  (\<open>packages/agent/src/harness/session/memory.ts\<close>) over \<open>SessionState\<close>. \<open>Date.now()\<close> and \<open>uuidv7()\<close>
  are the arguments \<open>now\<close> and \<open>fresh\<close>; \<open>structuredClone\<close> is the identity, as every value is
  immutable here. The theory also states the contract a session storage offers its callers, as the
  locale \<open>session_storage\<close>, and shows that the in-memory storage meets it.
\<close>

section \<open>The storage\<close>

record memory_storage =
  ms_metadata :: session_metadata
  ms_state :: session_state

definition new_storage :: "session_metadata \<Rightarrow> memory_storage" where
  "new_storage metadata = \<lparr>ms_metadata = metadata, ms_state = initial_state\<rparr>"

definition storage_fork ::
  "memory_storage \<Rightarrow> session_metadata \<Rightarrow> fork_options \<Rightarrow> session_error + memory_storage" where
  "storage_fork st metadata opts =
     andThen (createForkMutations (ms_state st) opts) (\<lambda>mutations.
     andThen (foldR applyMutation (ms_state (new_storage metadata)) mutations) (\<lambda>s.
     Inr ((new_storage metadata)\<lparr>ms_state := s\<rparr>)))"

definition createLane :: "memory_storage \<Rightarrow> string \<Rightarrow> string option \<Rightarrow> session_error + memory_storage" where
  "createLane st lane at =
     andThen (validateNewLane (ms_state st) lane) (\<lambda>_.
     andThen (validateTarget (ms_state st) at) (\<lambda>_.
     andThen (applyMutation (ms_state st) (MU_lane (nextSequence (ms_state st)) lane at)) (\<lambda>s.
     Inr (st\<lparr>ms_state := s\<rparr>))))"

definition moveLane :: "memory_storage \<Rightarrow> string \<Rightarrow> string option \<Rightarrow> session_error + memory_storage" where
  "moveLane st lane to =
     andThen (requireLane (ms_state st) lane) (\<lambda>_.
     andThen (validateTarget (ms_state st) to) (\<lambda>_.
     andThen (applyMutation (ms_state st) (MU_lane (nextSequence (ms_state st)) lane to)) (\<lambda>s.
     Inr (st\<lparr>ms_state := s\<rparr>))))"

definition stored_entry :: "provisioned_entry \<Rightarrow> string option \<Rightarrow> nat \<Rightarrow> int \<Rightarrow> entry" where
  "stored_entry new parentId q now = provisioned_entry.extend new (entry.fields parentId q now)"

definition appendEntry ::
  "int \<Rightarrow> memory_storage \<Rightarrow> provisioned_entry \<Rightarrow> string \<Rightarrow> session_error + memory_storage \<times> entry" where
  "appendEntry now st newEntry lane =
     andThen (requireLane (ms_state st) lane) (\<lambda>parentId.
     andThen (validateUnusedId (ms_state st) (ent_id newEntry)) (\<lambda>_.
     let e = stored_entry newEntry parentId (nextSequence (ms_state st)) now
     in andThen (applyMutation (ms_state st) (MU_entry (Some lane) e)) (\<lambda>s.
        Inr (st\<lparr>ms_state := s\<rparr>, e))))"

definition stored_record :: "new_record \<Rightarrow> nat \<Rightarrow> int \<Rightarrow> lane_record" where
  "stored_record new q now = new_record.extend new (lane_record.fields q now)"

definition appendRecord ::
  "int \<Rightarrow> memory_storage \<Rightarrow> new_record \<Rightarrow> session_error + memory_storage \<times> lane_record" where
  "appendRecord now st newRecord =
     andThen (requireLane (ms_state st) (rec_lane newRecord)) (\<lambda>_.
     andThen (validateUnusedId (ms_state st) (rec_id newRecord)) (\<lambda>_.
     andThen (findOpenOperations (ms_state st) (rec_lane newRecord) (Some (JInt 1))) (\<lambda>open.
     case (if rec_type newRecord = RT_operation_started then map_option os_id (array_get open 0)
           else None) of
       Some i \<Rightarrow> Inl (SessionError SE_storage
                  (''Lane '' @ rec_lane newRecord @ '' already has an open operation '' @ i))
     | None \<Rightarrow>
         (let r = stored_record newRecord (nextSequence (ms_state st)) now
          in andThen (applyMutation (ms_state st) (MU_record r)) (\<lambda>s.
             Inr (st\<lparr>ms_state := s\<rparr>, r))))))"

definition setName :: "memory_storage \<Rightarrow> string option \<Rightarrow> session_error + memory_storage" where
  "setName st nm =
     andThen (applyMutation (ms_state st) (MU_name (nextSequence (ms_state st)) nm)) (\<lambda>s.
     Inr (st\<lparr>ms_state := s\<rparr>))"

definition setLabel ::
  "memory_storage \<Rightarrow> string \<Rightarrow> string option \<Rightarrow> session_error + memory_storage" where
  "setLabel st i lbl =
     andThen (validateTarget (ms_state st) (Some i)) (\<lambda>_.
     andThen (applyMutation (ms_state st) (MU_label (nextSequence (ms_state st)) i lbl)) (\<lambda>s.
     Inr (st\<lparr>ms_state := s\<rparr>)))"

section \<open>The repository\<close>

type_synonym memory_repo = "(string \<times> memory_storage) list"

definition requireStorage :: "memory_repo \<Rightarrow> string \<Rightarrow> session_error + memory_storage" where
  "requireStorage repo i =
     (case map_of repo i of
        None \<Rightarrow> Inl (SessionError SE_not_found (''Session not found: '' @ i))
      | Some st \<Rightarrow> Inr st)"

definition repo_create ::
  "string \<Rightarrow> int \<Rightarrow> memory_repo \<Rightarrow> string option \<Rightarrow> string option \<Rightarrow>
   session_error + memory_repo \<times> memory_storage" where
  "repo_create fresh now repo optId parentSessionId =
     (let i = (case optId of Some x \<Rightarrow> x | None \<Rightarrow> fresh)
      in andThen (require (map_of repo i = None)
                    (SessionError SE_already_exists (''Session already exists: '' @ i))) (\<lambda>_.
         let st = new_storage \<lparr>md_id = i, md_createdAt = now, md_parentSessionId = parentSessionId\<rparr>
         in Inr (AList.update i st repo, st)))"

definition repo_open :: "memory_repo \<Rightarrow> session_metadata \<Rightarrow> session_error + memory_storage" where
  "repo_open repo metadata = requireStorage repo (md_id metadata)"

definition repo_list :: "memory_repo \<Rightarrow> session_metadata list" where
  "repo_list repo = map (ms_metadata \<circ> snd) repo"

definition repo_delete :: "memory_repo \<Rightarrow> session_metadata \<Rightarrow> memory_repo" where
  "repo_delete repo metadata = AList.delete (md_id metadata) repo"

definition repo_fork ::
  "string \<Rightarrow> int \<Rightarrow> memory_repo \<Rightarrow> session_metadata \<Rightarrow> fork_options \<Rightarrow> string option \<Rightarrow> string option \<Rightarrow>
   session_error + memory_repo \<times> memory_storage" where
  "repo_fork fresh now repo source opts optId parentSessionId =
     andThen (requireStorage repo (md_id source)) (\<lambda>src.
     let i = (case optId of Some x \<Rightarrow> x | None \<Rightarrow> fresh)
     in andThen (require (map_of repo i = None)
                   (SessionError SE_already_exists (''Session already exists: '' @ i))) (\<lambda>_.
        andThen (storage_fork src
                   \<lparr>md_id = i, md_createdAt = now,
                    md_parentSessionId = Some (case parentSessionId of Some p \<Rightarrow> p | None \<Rightarrow> md_id source)\<rparr>
                   opts) (\<lambda>st.
        Inr (AList.update i st repo, st))))"

section \<open>Facts of the single operations\<close>

lemma stored_entry_sel [simp]:
  "ent_id (stored_entry n p q t) = ent_id n" "ent_data (stored_entry n p q t) = ent_data n"
  "ent_parentId (stored_entry n p q t) = p" "ent_seq (stored_entry n p q t) = q"
  "ent_timestamp (stored_entry n p q t) = t" "ent_type (stored_entry n p q t) = ent_type n"
  by (simp_all add: stored_entry_def provisioned_entry.defs entry.defs ent_type_def)

lemma stored_record_sel [simp]:
  "rec_id (stored_record n q t) = rec_id n" "rec_lane (stored_record n q t) = rec_lane n"
  "rec_data (stored_record n q t) = rec_data n" "rec_seq (stored_record n q t) = q"
  "rec_type (stored_record n q t) = rec_type n"
  by (simp_all add: stored_record_def new_record.defs lane_record.defs rec_type_def)

lemma requireLane_Inr: "requireLane s lane = Inr leaf \<longleftrightarrow> map_of (lanes s) lane = Some leaf"
  by (auto simp: requireLane_def split: option.splits)

text \<open>
  On a well-formed state an append succeeds exactly when the lane exists and the id is unused, and
  then the new entry is the lane's leaf, chained to the old one.
\<close>

lemma leaf_known:
  "wf_state s \<Longrightarrow> map_of (lanes s) lane = Some (Some i) \<Longrightarrow> map_of (entriesById s) i \<noteq> None"
  by (auto simp: wf_state_def wf_lookup wf_refs_def lanes_ok_def dest!: map_of_SomeD)

lemma appendEntry_eq:
  assumes wf: "wf_state (ms_state st)"
    and lane: "map_of (lanes (ms_state st)) lane = Some leaf"
    and fresh: "ent_id new \<notin> usedIds (ms_state st)"
  shows "\<exists>st' e. appendEntry now st new lane = Inr (st', e) \<and>
    e = stored_entry new leaf (nextSequence (ms_state st)) now \<and>
    wf_state (ms_state st') \<and> ms_metadata st' = ms_metadata st \<and>
    entries (ms_state st') = entries (ms_state st) @ [e] \<and>
    records (ms_state st') = records (ms_state st) \<and>
    map_of (lanes (ms_state st')) = (map_of (lanes (ms_state st)))(lane \<mapsto> Some (ent_id new))"
proof -
  let ?e = "stored_entry new leaf (nextSequence (ms_state st)) now"
  have "mutation_ok (ms_state st) (MU_entry (Some lane) ?e)"
    using lane fresh leaf_known [OF wf] by (auto split: option.splits)
  then obtain s where s: "applyMutation (ms_state st) (MU_entry (Some lane) ?e) = Inr s"
    using applyMutation_accepts [of "ms_state st" "MU_entry (Some lane) ?e"]
    by (auto simp: nextSequence_def simp del: mutation_ok.simps)
  then have "entries s = entries (ms_state st) @ [?e]" "records s = records (ms_state st)"
    "map_of (lanes s) = (map_of (lanes (ms_state st)))(lane \<mapsto> Some (ent_id new))"
    by (auto simp: applyMutation_def apply_entry_def throws)
  with s wf lane fresh applyMutation_wf [OF wf s] show ?thesis
    by (simp add: appendEntry_def requireLane_def validateUnusedId_def Let_def)
qed

lemma appendEntry_Inr:
  assumes "appendEntry now st new lane = Inr (st', e)"
  shows "\<exists>mu. applyMutation (ms_state st) mu = Inr (ms_state st') \<and>
    records (ms_state st') = records (ms_state st)"
  using assms
  by (auto simp: appendEntry_def throws Let_def dest: applyMutation_records)

lemma lane_op_Inr:
  assumes "createLane st lane at = Inr st' \<or> moveLane st lane at = Inr st'"
  shows "\<exists>mu. applyMutation (ms_state st) mu = Inr (ms_state st') \<and>
    records (ms_state st') = records (ms_state st)"
  using assms
  by (auto simp: createLane_def moveLane_def throws dest: applyMutation_records)

lemma fact_op_Inr:
  assumes "setName st nm = Inr st' \<or> setLabel st i lbl = Inr st'"
  shows "\<exists>mu. applyMutation (ms_state st) mu = Inr (ms_state st') \<and>
    records (ms_state st') = records (ms_state st)"
  using assms
  by (auto simp: setName_def setLabel_def throws dest: applyMutation_records)

lemma appendRecord_Inr:
  assumes wf: "wf_state (ms_state st)" and "appendRecord now st new = Inr (st', r)"
  shows "applyMutation (ms_state st) (MU_record r) = Inr (ms_state st') \<and>
    records (ms_state st') = records (ms_state st) @ [r] \<and>
    r = stored_record new (nextSequence (ms_state st)) now \<and>
    (rec_type r = RT_operation_started \<longrightarrow> unfinished (rec_lane r) (records (ms_state st)) = [])"
proof -
  have "valid_limit (Some (JInt 1))" by (simp add: valid_limit_def)
  note find = findOpenOperations_eq [OF wf this]
  have hd: "array_get (limited (Some (JInt 1)) xs) 0 = None \<longleftrightarrow> xs = []" for xs :: "operation_started list"
    by (cases xs) (auto simp: array_get_def limited_def)
  show ?thesis
    using assms(2)
    by (auto simp: appendRecord_def throws Let_def find hd dest: applyMutation_records
        split: if_splits option.splits)
qed

section \<open>The contract of a session storage\<close>

text \<open>
  What a caller relies on: an invariant every successful operation keeps, and a record log that
  only \<open>appendRecord\<close> extends, never by a second start while an operation is open. \<open>ops\<close> are the
  operations that leave the records alone.
\<close>

locale session_storage =
  fixes state_of :: "'s \<Rightarrow> session_state"
    and ops :: "('s \<Rightarrow> session_error + 's) set"
    and append :: "'s \<Rightarrow> int \<Rightarrow> new_record \<Rightarrow> session_error + 's \<times> lane_record"
    and start :: "'s set"
  assumes start_wf: "s \<in> start \<Longrightarrow> wf_state (state_of s) \<and> records (state_of s) = []"
    and ops_wf: "f \<in> ops \<Longrightarrow> wf_state (state_of s) \<Longrightarrow> f s = Inr t \<Longrightarrow>
      wf_state (state_of t) \<and> records (state_of t) = records (state_of s)"
    and append_wf: "wf_state (state_of s) \<Longrightarrow> append s now new = Inr (t, r) \<Longrightarrow>
      wf_state (state_of t) \<and> records (state_of t) = records (state_of s) @ [r] \<and>
      (rec_type r = RT_operation_started \<longrightarrow> unfinished (rec_lane r) (records (state_of s)) = [])"
begin

inductive stored :: "'s \<Rightarrow> bool" where
  stored_start: "s \<in> start \<Longrightarrow> stored s"
| stored_op: "stored s \<Longrightarrow> f \<in> ops \<Longrightarrow> f s = Inr t \<Longrightarrow> stored t"
| stored_append: "stored s \<Longrightarrow> append s now new = Inr (t, r) \<Longrightarrow> stored t"

lemma stored_invariant:
  "stored s \<Longrightarrow> wf_state (state_of s) \<and> (\<forall>lane. length (unfinished lane (records (state_of s))) \<le> 1)"
proof (induction rule: stored.induct)
  case (stored_start s)
  then show ?case using start_wf by simp
next
  case (stored_op s f t)
  then show ?case using ops_wf by metis
next
  case (stored_append s now new t r)
  then have wf: "wf_state (state_of s)" by simp
  note app = append_wf [OF wf stored_append.hyps(2)]
  have "length (unfinished lane (records (state_of t))) \<le> 1" for lane
  proof (cases "narrow_started r = None \<or> rec_lane r \<noteq> lane")
    case True
    then have "length (step_open lane (unfinished lane (records (state_of s))) r)
        \<le> length (unfinished lane (records (state_of s)))"
      by (auto simp: step_open_def split: option.splits)
    also have "\<dots> \<le> 1" using stored_append.IH by simp
    finally show ?thesis using app by (simp add: unfinished_snoc)
  next
    case False
    then have "unfinished lane (records (state_of s)) = []"
      using app by (auto simp: narrow_started_None)
    with app show ?thesis
      by (auto simp: unfinished_snoc step_open_def split: option.splits)
  qed
  with app show ?case by simp
qed

lemma open_operations_at_most_one:
  assumes "stored s" and "valid_limit l"
  shows "\<exists>ops. findOpenOperations (state_of s) lane l = Inr ops \<and> length ops \<le> 1"
proof -
  note inv = stored_invariant [OF assms(1)]
  then have "length (rev (unfinished lane (records (state_of s)))) \<le> 1" by simp
  then have "length (limited l (rev (unfinished lane (records (state_of s))))) \<le> 1"
    by (auto simp: limited_def split: option.splits)
  with inv show ?thesis
    using findOpenOperations_eq [OF _ assms(2)] by blast
qed

end

text \<open>The in-memory storage as an instance: its operations, as functions of the storage.\<close>

inductive_set memory_ops :: "(memory_storage \<Rightarrow> session_error + memory_storage) set" where
  op_createLane: "(\<lambda>st. createLane st lane at) \<in> memory_ops"
| op_moveLane: "(\<lambda>st. moveLane st lane at) \<in> memory_ops"
| op_appendEntry: "(\<lambda>st. map_sum id fst (appendEntry now st new lane)) \<in> memory_ops"
| op_setName: "(\<lambda>st. setName st nm) \<in> memory_ops"
| op_setLabel: "(\<lambda>st. setLabel st i lbl) \<in> memory_ops"

text \<open>A storage starts empty or as the fork of a well-formed one.\<close>

inductive_set memory_start :: "memory_storage set" where
  start_new: "new_storage metadata \<in> memory_start"
| start_fork: "wf_state (ms_state src) \<Longrightarrow> storage_fork src metadata opts = Inr st \<Longrightarrow>
     st \<in> memory_start"

lemma fork_entries_mutations: "mu \<in> set (fork_entries q es) \<Longrightarrow> \<exists>l e. mu = MU_entry l e"
  by (induction es arbitrary: q) auto

lemma fork_lanes_mutations: "mu \<in> set (fork_lanes q ls) \<Longrightarrow> \<exists>q l i. mu = MU_lane q l i"
  by (induction q ls rule: fork_lanes.induct) auto

lemma fork_labels_mutations: "mu \<in> set (fork_labels s q es) \<Longrightarrow> \<exists>q i l. mu = MU_label q i l"
  by (induction es arbitrary: q) (auto split: option.splits)

lemma fork_no_records: "createForkMutations s opts = Inr mus \<Longrightarrow> MU_record r \<notin> set mus"
  by (fastforce simp: createForkMutations_def throws Let_def split: prod.splits option.splits
      dest: fork_entries_mutations fork_lanes_mutations fork_labels_mutations)

lemma storage_fork_wf:
  assumes "storage_fork src metadata opts = Inr st"
  shows "reachable_state (ms_state st) \<and> records (ms_state st) = []"
proof -
  obtain mus s where mus: "createForkMutations (ms_state src) opts = Inr mus"
    and s: "foldR applyMutation initial_state mus = Inr s" and st: "ms_state st = s"
    using assms by (auto simp: storage_fork_def throws new_storage_def)
  have "records s = []"
  proof (rule foldR_invariant [OF s])
    show "records initial_state = []" by (simp add: initial_state_def)
  next
    fix u mu v assume "mu \<in> set mus" "records u = []" "applyMutation u mu = Inr v"
    with fork_no_records [OF mus] show "records v = []"
      by (cases mu) (auto simp: apply_defs throws)
  qed
  with st reachable_foldR [OF reach_init s] show ?thesis by simp
qed

interpretation mem: session_storage ms_state memory_ops "\<lambda>st now new. appendRecord now st new" memory_start
proof (unfold_locales, goal_cases)
  case (1 s)
  then show ?case
    by cases (auto simp: new_storage_def wf_initial dest!: storage_fork_wf intro: reachable_wf)
next
  case (2 f s t)
  from 2(1,3) have "\<exists>mu. applyMutation (ms_state s) mu = Inr (ms_state t) \<and>
      records (ms_state t) = records (ms_state s)"
  proof cases
    case (op_appendEntry now new lane)
    with 2(3) obtain e where "appendEntry now s new lane = Inr (t, e)"
      by (cases "appendEntry now s new lane") auto
    then show ?thesis by (rule appendEntry_Inr)
  qed (use lane_op_Inr fact_op_Inr in blast)+
  with 2(2) show ?case by (auto intro: applyMutation_wf)
next
  case (3 s now new t r)
  with appendRecord_Inr [OF 3(1,2)] show ?case by (auto intro: applyMutation_wf)
qed

end
