(* ===== verification/Session_Fork.thy ===== *)
theory Session_Fork
  imports Session_Memory
begin

text \<open>
  Forking a session: the mutation list \<open>createForkMutations\<close> computes from a well-formed state is
  accepted, mutation by mutation, by an empty state, and what the fork holds is the copied entries
  renumbered from 1, the chosen lanes, the name and the labels of the copied entries.
\<close>

lemma fork_replay:
  assumes wf: "wf_state s" and src: "fork_source s opts = Inr (es, ls)"
    and es: "distinct (map ent_id es)" "parents_before [] es"
    and ls: "lanes_ok (ent_id ` set es) ls"
  shows "\<exists>mus t. createForkMutations s opts = Inr mus \<and> foldR applyMutation initial_state mus = Inr t \<and>
    wf_state t \<and> records t = [] \<and> entries t = renumber 1 es \<and> map_of (lanes t) = map_of ls \<and>
    name t = name s \<and> map_of (labels t) = map_of (labels s) |` (ent_id ` set es)"
proof -
  let ?q2 = "1 + length es" and ?q3 = "1 + length es + length ls"
  let ?named = "case name s of None \<Rightarrow> [] | Some nm \<Rightarrow> [MU_name ?q3 (Some nm)]"
  obtain t1 where t1: "foldR applyMutation initial_state (fork_entries 1 es) = Inr t1"
      "same_but initial_state t1 (length es)" "entries t1 = renumber 1 es"
      "lanes t1 = [(''main'', None)]" "name t1 = None" "labels t1 = []"
    using fork_entries_replay [OF wf_initial _ _ es(1), of 1] es(2) by auto
  have "\<exists>t. foldR applyMutation t1 (fork_lanes ?q2 ls) = Inr t \<and> same_but t1 t (length ls) \<and>
    entries t = entries t1 \<and> map_of (lanes t) = map_of (lanes t1) ++ map_of ls \<and>
    name t = name t1 \<and> labels t = labels t1"
    by (rule fork_lanes_replay)
      (use t1 ls in \<open>auto simp: same_but_def lanes_ok_def\<close>)
  then obtain t2 where t2: "foldR applyMutation t1 (fork_lanes ?q2 ls) = Inr t2"
      "same_but t1 t2 (length ls)" "entries t2 = entries t1"
      "map_of (lanes t2) = map_of (lanes t1) ++ map_of ls" "name t2 = name t1" "labels t2 = labels t1"
    by blast
  have seq2: "sequence t2 = length es + length ls" and wf2: "wf_state t2"
    using t1(2) t2(2) by (simp_all add: same_but_def)
  obtain t3 where t3: "foldR applyMutation t2 ?named = Inr t3" "same_but t2 t3 (length ?named)"
      "entries t3 = entries t2" "lanes t3 = lanes t2" "name t3 = name s" "labels t3 = labels t2"
  proof (cases "name s")
    case None
    with t1(5) t2(5) wf2 that [of t2] show thesis by (simp add: same_but_def)
  next
    case (Some nm)
    let ?t = "t2\<lparr>sequence := ?q3, name := Some nm, log := log t2 @ [L_name ?q3 (Some nm)]\<rparr>"
    have step: "applyMutation t2 (MU_name ?q3 (Some nm)) = Inr ?t"
      using seq2 by (simp add: applyMutation_def apply_name_def)
    with that [of ?t] Some seq2 applyMutation_wf [OF wf2 step] show thesis
      by (simp add: same_but_def)
  qed
  have "\<exists>t n. foldR applyMutation t3 (fork_labels s (?q3 + length ?named) es) = Inr t \<and>
    same_but t3 t n \<and> entries t = entries t3 \<and> lanes t = lanes t3 \<and> name t = name t3 \<and>
    map_of (labels t) = map_of (labels t3) ++ (map_of (labels s) |` (ent_id ` set es))"
    by (rule fork_labels_replay)
      (use t1(3) t2(2,3) t3(2,3) seq2 es(1) in \<open>simp_all add: same_but_def\<close>)
  then obtain t n where t: "foldR applyMutation t3 (fork_labels s (?q3 + length ?named) es) = Inr t"
      "same_but t3 t n" "entries t = entries t3" "lanes t = lanes t3" "name t = name t3"
      "map_of (labels t) = map_of (labels t3) ++ (map_of (labels s) |` (ent_id ` set es))"
    by blast
  let ?mus = "fork_entries 1 es @ fork_lanes ?q2 ls @ ?named @ fork_labels s (?q3 + length ?named) es"
  have "createForkMutations s opts = Inr ?mus"
    by (cases "name s") (simp_all add: createForkMutations_def src Let_def)
  moreover have "foldR applyMutation initial_state ?mus = Inr t"
    by (simp only: foldR_append t1(1) t2(1) t3(1) t(1) andThen_Inr)
  moreover have "map_of (lanes t) = map_of ls"
  proof -
    have "''main'' \<in> dom (map_of ls)"
      using ls by (simp add: lanes_ok_def dom_map_of_conv_image_fst)
    then show ?thesis
      by (auto simp: t(4) t3(4) t2(4) t1(4) map_add_def fun_eq_iff split: option.splits)
  qed
  moreover have "wf_state t \<and> records t = []"
    using t1(2) t2(2) t3(2) t(2) by (simp add: same_but_def)
  moreover have "map_of (labels t) = map_of (labels s) |` (ent_id ` set es)"
    by (simp add: t(6) t3(6) t2(6) t1(6))
  ultimately show ?thesis
    using t(3,5) t1(3) t2(3) t3(3,5) by auto
qed

lemma fork_source_tree:
  assumes "wf_state s"
  shows "fork_source s F_tree = Inr (entries s, lanes s)"
proof -
  have "matchesEntryQuery all_oldest_first = (\<lambda>_. True)"
    by (simp add: matchesEntryQuery_def all_oldest_first_def fun_eq_iff)
  then show ?thesis
    by (simp add: fork_source_def findEntries_def collect_unlimited assertValidLimit_def
        assertValidCursor_def ordered_def getLanes_def all_oldest_first_def)
qed

lemma parent_chain_parents:
  "parent_chain path \<Longrightarrow> parents_before [] (rev path)"
proof (induction path rule: parent_chain.induct)
  case (3 e f es)
  then show ?case by (simp add: parent_known_def)
qed (simp_all add: parent_known_def)

lemma branch_distinct:
  assumes "wf_state s" "is_branch s i path"
  shows "distinct (map ent_id path)"
proof -
  have "sorted_wrt (>) (map ent_seq path)" using assms(2) by (simp add: is_branch_def)
  then have "distinct (map ent_seq path)" by (rule sorted_wrt_greater_distinct)
  then have "distinct path" by (simp add: distinct_map)
  moreover have "inj_on ent_id (set path)"
    using assms by (auto simp: is_branch_def wf_state_def wf_ids_def distinct_map
        intro: inj_on_subset)
  ultimately show ?thesis by (simp add: distinct_map)
qed

text \<open>The oldest-first branch a branch fork copies.\<close>

lemma branch_query_all:
  assumes "wf_state s" "is_branch s i path"
    and "\<And>stop. walkToRoot s (Some i) stop = (take_until stop path, None)"
  shows "findEntriesOnBranch s all_oldest_first no_bounds i = Inr (rev path)"
proof -
  have "matchesEntryQuery all_oldest_first = (\<lambda>_. True)"
    and "bound_reached None None = (\<lambda>_. False)"
    by (simp_all add: matchesEntryQuery_def all_oldest_first_def bound_reached_def fun_eq_iff)
  then show ?thesis
    using findEntriesOnBranch_eq [OF assms(1) _ _ assms(2,3), of all_oldest_first no_bounds]
    by (simp add: valid_limit_def valid_cursor_def limited_def all_oldest_first_def no_bounds_def)
qed

text \<open>Whatever is forked, the mutations replay.\<close>

lemma fork_target_known:
  assumes wf: "wf_state s" and t: "fork_target s entryId position = Inr (Some i)"
  shows "i \<in> ent_id ` set (entries s)"
proof -
  let ?invalid = "\<lambda>sel. SessionError SE_invalid_fork_target (''Fork target is not a message entry: '' @ sel)"
  obtain selected where "(case selected of None \<Rightarrow> Inr None
      | Some sel \<Rightarrow> (case getEntry s sel of None \<Rightarrow> Inl (?invalid sel)
          | Some e \<Rightarrow> if ent_type e \<noteq> ET_message then Inl (?invalid sel)
              else (case (case position of Some p \<Rightarrow> p | None \<Rightarrow> if entryId = None then FP_at else FP_before) of
                      FP_at \<Rightarrow> Inr (Some (ent_id e)) | FP_before \<Rightarrow> Inr (ent_parentId e)))) = Inr (Some i)"
    using t unfolding fork_target_def andThen_eq_Inr Let_def by blast
  then obtain sel e where sel: "getEntry s sel = Some e" and i: "i = ent_id e \<or> ent_parentId e = Some i"
    by (cases selected; cases "getEntry s (the selected)") (auto split: if_split_asm fork_position.split_asm)
  have e: "e \<in> set (entries s)" using sel wf by (simp add: getEntry_def wf_state_def wf_lookup_Some)
  from i show ?thesis
  proof
    assume p: "ent_parentId e = Some i"
    obtain es fs where "entries s = es @ e # fs" using e by (meson split_list)
    with wf p show ?thesis by (auto simp: wf_state_def wf_refs_def parent_known_def)
  qed (use e in simp)
qed

lemma fork_always_replays:
  assumes wf: "wf_state s" and mus: "createForkMutations s opts = Inr mus"
  shows "\<exists>t. foldR applyMutation initial_state mus = Inr t \<and> wf_state t"
proof -
  obtain es ls where src: "fork_source s opts = Inr (es, ls)"
    using mus by (auto simp: createForkMutations_def throws)
  have "distinct (map ent_id es) \<and> parents_before [] es \<and> lanes_ok (ent_id ` set es) ls"
  proof (cases opts)
    case F_tree
    with src fork_source_tree [OF wf] have "es = entries s" "ls = lanes s" by simp_all
    with wf show ?thesis by (simp add: wf_state_def wf_ids_def wf_refs_def)
  next
    case (F_branch entryId position)
    then obtain target where t: "fork_target s entryId position = Inr target"
      and ls: "ls = [(''main'', target)]"
      and es: "(case target of None \<Rightarrow> Inr [] | Some i \<Rightarrow> findEntriesOnBranch s all_oldest_first no_bounds i) = Inr es"
      using src by (auto simp: fork_source_def throws)
    show ?thesis
    proof (cases target)
      case None
      with es ls show ?thesis by (simp add: lanes_ok_def)
    next
      case (Some i)
      then obtain path where path: "is_branch s i path"
        and walk: "\<And>stop. walkToRoot s (Some i) stop = (take_until stop path, None)"
        using walkToRoot_branch [OF wf fork_target_known [OF wf]] t by blast
      have "es = rev path" using es Some branch_query_all [OF wf path walk] by simp
      moreover have chain: "parent_chain path" "i \<in> ent_id ` set path"
        using path parent_chain_not_Nil [of path] by (auto simp: is_branch_def intro: image_eqI)
      ultimately show ?thesis
        using branch_distinct [OF wf path] parent_chain_parents [OF chain(1)] ls Some
        by (simp add: lanes_ok_def flip: rev_map)
    qed
  qed
  with fork_replay [OF wf src] mus show ?thesis by auto
qed

end
