(* ===== verification/Session_Properties.thy ===== *)
theory Session_Properties
  imports Session_Fork
begin

text \<open>
  The properties of the session store, each with a witness on the small session \<open>demo_session\<close>:
  two user messages on the lane \<open>main\<close>, the second labelled.
\<close>

section \<open>A session to evaluate on\<close>

definition demo_message :: agent_message where
  "demo_message = UserMsg \<lparr>um_content = UserText ''hi'', um_timestamp = 0, um_internal = None\<rparr>"

definition demo_new :: "string \<Rightarrow> provisioned_entry" where
  "demo_new i = \<lparr>ent_id = i, ent_data = E_message demo_message False\<rparr>"

definition demo_entry :: "string \<Rightarrow> string option \<Rightarrow> nat \<Rightarrow> entry" where
  "demo_entry i parent q =
     \<lparr>ent_id = i, ent_data = E_message demo_message False, ent_parentId = parent,
      ent_seq = q, ent_timestamp = 0\<rparr>"

definition demo_session :: session_state where
  "demo_session =
     \<lparr>sequence = 3, usedIds = {''b'', ''a''},
      entries = [demo_entry ''a'' None 1, demo_entry ''b'' (Some ''a'') 2],
      entriesById = [(''a'', demo_entry ''a'' None 1), (''b'', demo_entry ''b'' (Some ''a'') 2)],
      records = [], openOperationsByLane = [], lanes = [(''main'', Some ''b'')],
      log = [L_entry 1 (demo_entry ''a'' None 1), L_entry 2 (demo_entry ''b'' (Some ''a'') 2),
             L_label 3 ''b'' (Some ''todo'')],
      stats = initial_stats\<lparr>st_messageCount := 2\<rparr>, name = None, labels = [(''b'', ''todo'')]\<rparr>"

lemma demo_type [simp]: "ent_type (demo_entry i p q) = ET_message"
  by (simp add: ent_type_def demo_entry_def)

lemma demo_sel [simp]:
  "ent_id (demo_entry i p q) = i" "ent_parentId (demo_entry i p q) = p" "ent_seq (demo_entry i p q) = q"
  by (simp_all add: demo_entry_def)

lemma demo_replay:
  "foldR applyMutation initial_state
     [MU_entry (Some ''main'') (demo_entry ''a'' None 1),
      MU_entry (Some ''main'') (demo_entry ''b'' (Some ''a'') 2), MU_label 3 ''b'' (Some ''todo'')]
   = Inr demo_session"
  by (simp add: apply_defs check_entry_lane_def initial_state_def demo_session_def initial_stats_def)

lemma demo_reachable: "reachable_state demo_session"
  using reachable_foldR [OF reach_init demo_replay] .

section \<open>Mutations and the invariant\<close>

text \<open>C7. Every state that mutations lead to is well formed: the log has the consecutive sequence
  numbers 1, 2, ..., the entries, records and statistics are those of the log, ids are unique across
  entries and records and indexed, parents, lane leaves and label targets exist, the lane main
  exists, and the open operations are the starts without a later finish.\<close>

theorem session_invariant:
  assumes "reachable_state s"
  shows "wf_log s \<and> wf_ids s \<and> wf_refs s \<and> wf_open s"
  using reachable_wf [OF assms] by (simp add: wf_state_def)

theorem session_invariant_witness:
  "reachable_state demo_session \<and> wf_log demo_session \<and> wf_refs demo_session"
  using session_invariant [OF demo_reachable] demo_reachable by simp

text \<open>C8. A mutation is accepted exactly when it carries the next sequence number and meets the
  conditions of its kind; an accepted one advances the sequence by one and adds one log item, and
  every rejection is the error invalid_entry.\<close>

theorem applyMutation_total_behaviour:
  "case applyMutation s mu of
     Inl e \<Rightarrow> code e = SE_invalid_entry \<and> \<not> (mutation_seq mu = sequence s + 1 \<and> mutation_ok s mu)
   | Inr t \<Rightarrow> mutation_seq mu = sequence s + 1 \<and> mutation_ok s mu \<and>
              sequence t = sequence s + 1 \<and> (\<exists>i. log t = log s @ [i])"
proof (cases "applyMutation s mu")
  case (Inl e)
  then show ?thesis
    using applyMutation_accepts [of s mu] applyMutation_error_code [OF Inl] by auto
next
  case (Inr t)
  then show ?thesis
    using applyMutation_accepts [of s mu] applyMutation_sequence [OF Inr]
      applyMutation_log_prefix [OF Inr] by auto
qed

section \<open>Branches\<close>

text \<open>C18. From every entry of a reachable session the walk to the root returns: it never reports a
  cycle or a missing parent, it is the chain of parents ending at a root, with strictly decreasing
  sequence numbers, and a stopping condition cuts that same chain after its first hit.\<close>

theorem walk_to_root_total:
  assumes "reachable_state s" and "getEntry s i \<noteq> None"
  shows "\<exists>path. is_branch s i path \<and>
    (\<forall>stop. walkToRoot s (Some i) stop = (take_until stop path, None))"
proof -
  have "wf_state s" using assms(1) by (rule reachable_wf)
  from walkToRoot_branch [OF this getEntry_known [OF this assms(2)]] show ?thesis .
qed

theorem walk_to_root_total_witness:
  "\<exists>path. is_branch demo_session ''b'' path \<and>
    (\<forall>stop. walkToRoot demo_session (Some ''b'') stop = (take_until stop path, None))"
  by (rule walk_to_root_total [OF demo_reachable]) (simp add: getEntry_def demo_session_def)

text \<open>A branch query with a valid limit and cursor, from an entry that exists, always returns:
  it scans the branch from the leaf (from the root when oldest first) up to and including the first
  entry with the stop id or type, and keeps the matching entries up to the limit.\<close>

theorem branch_query_result:
  assumes "reachable_state s" and "getEntry s i \<noteq> None"
    and "valid_limit (eq_limit q)" and "valid_cursor (eq_afterSeq q)"
  shows "\<exists>path. is_branch s i path \<and> findEntriesOnBranch s q b i =
    Inr (limited (eq_limit q) (filter (matchesEntryQuery q)
      (take_until (bound_reached (bb_stopAtId b) (bb_stopAtType b))
        (if eq_order q = Some OldestFirst then rev path else path))))"
proof -
  have wf: "wf_state s" using assms(1) by (rule reachable_wf)
  then have "i \<in> ent_id ` set (entries s)"
    using assms(2) by (rule getEntry_known)
  then obtain path where "is_branch s i path"
    "\<And>stop. walkToRoot s (Some i) stop = (take_until stop path, None)"
    using walkToRoot_branch [OF wf] by blast
  then show ?thesis using findEntriesOnBranch_eq [OF wf assms(3,4)] by blast
qed

theorem branch_query_result_witness:
  "\<exists>path. is_branch demo_session ''b'' path \<and>
     findEntriesOnBranch demo_session (all_oldest_first\<lparr>eq_limit := Some (JInt 1)\<rparr>) no_bounds ''b''
     = Inr (take 1 (filter (matchesEntryQuery (all_oldest_first\<lparr>eq_limit := Some (JInt 1)\<rparr>))
         (take_until (bound_reached None None) (rev path))))"
  using branch_query_result [OF demo_reachable, of "''b''" "all_oldest_first\<lparr>eq_limit := Some (JInt 1)\<rparr>"
      no_bounds]
  by (simp add: getEntry_def demo_session_def all_oldest_first_def no_bounds_def valid_limit_def
      valid_cursor_def limited_def)

section \<open>Queries\<close>

lemma drop_by_key:
  fixes f :: "'a \<Rightarrow> nat"
  assumes "sorted_wrt (<) (map f xs)" and "take k xs \<noteq> []"
  shows "drop k xs = filter (\<lambda>x. f (last (take k xs)) < f x) xs"
proof -
  obtain ys l where ys: "take k xs = ys @ [l]"
    using assms(2) by (cases "take k xs" rule: rev_cases) auto
  then have xs: "xs = ys @ l # drop k xs"
    by (metis append.assoc append_Cons append_Nil append_take_drop_id)
  with assms(1) have "sorted_wrt (<) (map f (ys @ l # drop k xs))" by simp
  then have small: "\<forall>y \<in> set ys. f y < f l" and big: "\<forall>z \<in> set (drop k xs). f l < f z"
    by (simp_all add: sorted_wrt_append)
  have "filter (\<lambda>x. f l < f x) (ys @ l # drop k xs) = drop k xs"
    using small big by (auto simp: filter_empty_conv filter_id_conv)
  with xs ys show ?thesis by simp
qed

text \<open>Paging loses and repeats nothing: for an oldest-first query, a page cut at a limit
  followed by the query for everything after the page's last sequence number is the whole result.\<close>

theorem paging_complete:
  assumes "reachable_state s" and "eq_order q = Some OldestFirst"
    and "findEntries s q = Inr page" and "page \<noteq> []"
  shows "\<exists>rest. findEntries s (q\<lparr>eq_limit := None, eq_afterSeq := Some (JInt (int (ent_seq (last page))))\<rparr>)
      = Inr rest \<and> findEntries s (q\<lparr>eq_limit := None\<rparr>) = Inr (page @ rest)"
proof -
  let ?es = "entries s" and ?P = "matchesEntryQuery q"
  let ?q' = "q\<lparr>eq_limit := None, eq_afterSeq := Some (JInt (int (ent_seq (last page))))\<rparr>"
  let ?all = "filter ?P ?es"
  have v: "valid_limit (eq_limit q)" "valid_cursor (eq_afterSeq q)"
    and page: "page = limited (eq_limit q) ?all"
    using assms(2,3) by (auto simp: findEntries_eq ordered_def)
  then obtain k where k: "page = take k ?all"
    by (auto simp: limited_def intro: that [of "length ?all"] split: option.splits)
  have sorted: "sorted_wrt (<) (map ent_seq ?all)"
    using wf_entries_sorted [OF reachable_wf [OF assms(1)]]
    by (simp add: sorted_wrt_map sorted_wrt_filter)
  have "last page \<in> set ?all" using assms(4) k by (metis in_set_takeD last_in_set)
  then have "?P (last page)" by simp
  then have cut: "matchesEntryQuery ?q' e \<longleftrightarrow> ?P e \<and> ent_seq (last page) < ent_seq e" for e
    using assms(2) by (auto simp: matchesEntryQuery_def split: option.splits)
  have "drop k ?all = filter (matchesEntryQuery ?q') ?es"
    unfolding cut using drop_by_key [OF sorted, of k] assms(4)
    by (simp add: conj_commute flip: k)
  then have "page @ filter (matchesEntryQuery ?q') ?es = ?all"
    using k by (metis append_take_drop_id)
  moreover have "matchesEntryQuery (q\<lparr>eq_limit := None\<rparr>) = ?P"
    by (auto simp: matchesEntryQuery_def fun_eq_iff split: option.splits)
  ultimately show ?thesis
    using v assms(2)
    by (simp add: findEntries_eq ordered_def limited_def valid_limit_def valid_cursor_def)
qed

theorem paging_complete_witness:
  "\<exists>rest. findEntries demo_session (all_oldest_first\<lparr>eq_limit := None, eq_afterSeq := Some (JInt 1)\<rparr>)
      = Inr rest \<and>
    findEntries demo_session all_oldest_first = Inr ([demo_entry ''a'' None 1] @ rest)"
proof -
  let ?q = "all_oldest_first\<lparr>eq_limit := Some (JInt 1)\<rparr>"
  have "findEntries demo_session ?q = Inr [demo_entry ''a'' None 1]"
    by (simp add: findEntries_def assertValidLimit_def assertValidCursor_def ordered_def
        all_oldest_first_def demo_session_def matchesEntryQuery_def limit_reached_def)
  from paging_complete [OF demo_reachable _ this] show ?thesis
    by (simp add: all_oldest_first_def)
qed

text \<open>The open operations of a lane are its starts without a later finish on the lane, newest
  first, cut at the limit.\<close>

theorem open_operations_result:
  assumes "reachable_state s" and "valid_limit l"
  shows "findOpenOperations s lane l = Inr (limited l (rev (unfinished lane (records s))))"
  using findOpenOperations_eq [OF reachable_wf [OF assms(1)] assms(2)] .

theorem open_operations_result_witness:
  "findOpenOperations demo_session ''main'' (Some (JInt 2)) = Inr []"
  using open_operations_result [OF demo_reachable, of "Some (JInt 2)" "''main''"]
  by (simp add: valid_limit_def limited_def demo_session_def)

section \<open>The in-memory storage\<close>

text \<open>Appending an entry under an unused id to an existing lane returns the entry chained to the
  lane's old leaf with the next sequence number; the entry is then found by its id, it is the new leaf
  of that lane, and every other lane keeps its leaf.\<close>

theorem append_entry_result:
  assumes "reachable_state (ms_state st)" and "map_of (lanes (ms_state st)) lane = Some leaf"
    and "ent_id new \<notin> usedIds (ms_state st)"
  shows "\<exists>st' e. appendEntry now st new lane = Inr (st', e) \<and>
    ent_parentId e = leaf \<and> ent_seq e = sequence (ms_state st) + 1 \<and> ent_data e = ent_data new \<and>
    getEntry (ms_state st') (ent_id new) = Some e \<and>
    map_of (lanes (ms_state st')) = (map_of (lanes (ms_state st)))(lane \<mapsto> Some (ent_id new))"
proof -
  obtain st' e where app: "appendEntry now st new lane = Inr (st', e)"
      "e = stored_entry new leaf (nextSequence (ms_state st)) now" "wf_state (ms_state st')"
      "entries (ms_state st') = entries (ms_state st) @ [e]"
      "map_of (lanes (ms_state st')) = (map_of (lanes (ms_state st)))(lane \<mapsto> Some (ent_id new))"
    using appendEntry_eq [OF reachable_wf [OF assms(1)] assms(2,3), of now] by blast
  moreover have "getEntry (ms_state st') (ent_id new) = Some e"
    using app by (simp add: getEntry_def wf_state_def wf_lookup_Some)
  ultimately show ?thesis by (auto simp: nextSequence_def)
qed

theorem append_entry_result_witness:
  "\<exists>st' e. appendEntry 5 \<lparr>ms_metadata = \<lparr>md_id = ''s'', md_createdAt = 0, md_parentSessionId = None\<rparr>,
       ms_state = demo_session\<rparr> (demo_new ''c'') ''main'' = Inr (st', e) \<and>
     ent_parentId e = Some ''b'' \<and> ent_seq e = 4 \<and> getEntry (ms_state st') ''c'' = Some e"
  using append_entry_result [of "\<lparr>ms_metadata = \<lparr>md_id = ''s'', md_createdAt = 0, md_parentSessionId = None\<rparr>,
       ms_state = demo_session\<rparr>" "''main''" "Some ''b''" "demo_new ''c''" 5] demo_reachable
  by (auto simp: demo_session_def demo_new_def)

text \<open>Whatever operations run on an in-memory storage, new or forked, a lane never has two
  unfinished operations: the recovery query with limit two returns at most one.\<close>

theorem memory_single_open_operation:
  assumes "mem.stored st" and "valid_limit l"
  shows "\<exists>ops. findOpenOperations (ms_state st) lane l = Inr ops \<and> length ops \<le> 1"
  using mem.open_operations_at_most_one [OF assms] .

definition demo_start :: "string \<Rightarrow> new_record" where
  "demo_start i = \<lparr>rec_id = i, rec_lane = ''main'',
     rec_data = R_operation_started None (I_compaction None ''r'')\<rparr>"

definition demo_metadata :: session_metadata where
  "demo_metadata = \<lparr>md_id = ''s'', md_createdAt = 0, md_parentSessionId = None\<rparr>"

theorem memory_single_open_operation_witness:
  "\<exists>st r ops. appendRecord 7 (new_storage demo_metadata) (demo_start ''op'') = Inr (st, r) \<and>
     findOpenOperations (ms_state st) ''main'' (Some (JInt 2)) = Inr ops \<and> length ops \<le> 1 \<and> ops \<noteq> []"
proof -
  obtain st r where app: "appendRecord 7 (new_storage demo_metadata) (demo_start ''op'') = Inr (st, r)"
    and opens: "openOperationsByLane (ms_state st) \<noteq> []"
      "\<exists>p. map_of (openOperationsByLane (ms_state st)) ''main'' = Some [(''op'', p)]"
    by (simp add: appendRecord_def new_storage_def initial_state_def demo_start_def requireLane_def
        validateUnusedId_def findOpenOperations_def assertValidLimit_def array_get_def Let_def
        applyMutation_def apply_record_def stored_record_def new_record.defs lane_record.defs
        nextSequence_def track_open_def narrow_started.simps rec_type_def)
  have "mem.stored st"
    using mem.stored_append [OF mem.stored_start [OF start_new] app] .
  from memory_single_open_operation [OF this, of "Some (JInt 2)" "''main''"] app opens(2)
  show ?thesis by (auto simp: valid_limit_def findOpenOperations_def assertValidLimit_def)
qed

section \<open>Forks\<close>

text \<open>C10. Forking the whole tree of a well-formed session succeeds: replaying the mutations on an empty
  state is never rejected, and gives the same entries renumbered from 1, the same lanes, name and
  labels, and no records.\<close>

theorem fork_tree_replays:
  assumes "reachable_state s"
  shows "\<exists>mus t. createForkMutations s F_tree = Inr mus \<and> foldR applyMutation initial_state mus = Inr t \<and>
    wf_state t \<and> records t = [] \<and> entries t = renumber 1 (entries s) \<and>
    map_of (lanes t) = map_of (lanes s) \<and> name t = name s \<and> map_of (labels t) = map_of (labels s)"
proof -
  have wf: "wf_state s" using assms by (rule reachable_wf)
  have refs: "lanes_ok (ent_id ` set (entries s)) (lanes s)" "parents_before [] (entries s)"
    "labels_ok (ent_id ` set (entries s)) (labels s)" "distinct (map ent_id (entries s))"
    using wf by (simp_all add: wf_state_def wf_refs_def wf_ids_def)
  have "map_of (labels s) i = None" if "i \<notin> ent_id ` set (entries s)" for i
    using refs(3) that by (auto simp: labels_ok_def map_of_eq_None_iff)
  then have "map_of (labels s) |` (ent_id ` set (entries s)) = map_of (labels s)"
    by (auto simp: restrict_map_def fun_eq_iff)
  then show ?thesis
    using fork_replay [OF wf fork_source_tree [OF wf] refs(4,2,1)] by simp
qed

theorem fork_tree_replays_witness:
  "\<exists>mus t. createForkMutations demo_session F_tree = Inr mus \<and>
     foldR applyMutation initial_state mus = Inr t \<and> length (entries t) = 2 \<and>
     map_of (labels t) ''b'' = Some ''todo''"
  using fork_tree_replays [OF demo_reachable] by (auto simp: demo_session_def)

text \<open>C9. Forking a branch at a message entry succeeds: the fork's entries are the branch from its
  root to the entry, oldest first and renumbered from 1, its lane main ends there, and it keeps the
  session's name and the labels of the copied entries.\<close>

theorem fork_branch_replays:
  assumes "reachable_state s" and "getEntry s i = Some e" and "ent_type e = ET_message"
  shows "\<exists>path mus t. is_branch s i path \<and>
    createForkMutations s (F_branch (Some i) (Some FP_at)) = Inr mus \<and>
    foldR applyMutation initial_state mus = Inr t \<and> wf_state t \<and> records t = [] \<and>
    entries t = renumber 1 (rev path) \<and> map_of (lanes t) = [''main'' \<mapsto> Some i] \<and>
    name t = name s \<and> map_of (labels t) = map_of (labels s) |` (ent_id ` set path)"
proof -
  have wf: "wf_state s" using assms(1) by (rule reachable_wf)
  have e: "e \<in> set (entries s)" "ent_id e = i"
    using assms(2) wf by (simp_all add: getEntry_def wf_state_def wf_lookup_Some)
  then obtain path where path: "is_branch s i path"
    and walk: "\<And>stop. walkToRoot s (Some i) stop = (take_until stop path, None)"
    using walkToRoot_branch [OF wf] by blast
  have src: "fork_source s (F_branch (Some i) (Some FP_at)) = Inr (rev path, [(''main'', Some i)])"
    using e assms(2,3) branch_query_all [OF wf path walk]
    by (simp add: fork_source_def fork_target_def Let_def)
  have chain: "parent_chain path" "i \<in> ent_id ` set path"
    using path parent_chain_not_Nil [of path] by (auto simp: is_branch_def intro: image_eqI)
  have "lanes_ok (ent_id ` set (rev path)) [(''main'', Some i)]"
    using chain by (simp add: lanes_ok_def)
  moreover have "distinct (map ent_id (rev path))"
    using branch_distinct [OF wf path] by (simp flip: rev_map)
  ultimately show ?thesis
    using fork_replay [OF wf src _ parent_chain_parents [OF chain(1)]] path by auto
qed

theorem fork_branch_replays_witness:
  "\<exists>path mus t. is_branch demo_session ''a'' path \<and>
    createForkMutations demo_session (F_branch (Some ''a'') (Some FP_at)) = Inr mus \<and>
    foldR applyMutation initial_state mus = Inr t \<and> entries t = renumber 1 (rev path) \<and>
    map_of (lanes t) = [''main'' \<mapsto> Some ''a'']"
proof -
  have "getEntry demo_session ''a'' = Some (demo_entry ''a'' None 1)"
    by (simp add: getEntry_def demo_session_def)
  from fork_branch_replays [OF demo_reachable this] show ?thesis by auto
qed

end
