(* ===== verification/Session_Context.thy ===== *)
theory Session_Context
  imports Session_Types
begin

text \<open>
  The model context built from a branch (\<open>packages/agent/src/harness/session/context.ts\<close>): the
  configuration in effect at its end and the messages the model sees. Entry transforms and projectors
  of custom entries are caller-supplied functions, so they are arguments.
\<close>

section \<open>Definitions\<close>

record session_model =
  sm_provider :: string
  sm_modelId :: string

record session_context =
  sc_messages :: "agent_message list"
  sc_thinkingLevel :: string
  sc_model :: "session_model option"
  sc_activeToolNames :: "string list option"

record context_build_options =
  co_entryTransforms :: "(entry list \<Rightarrow> entry list) list"
  co_entryProjectors :: "(string \<times> (entry \<Rightarrow> nat \<Rightarrow> entry list \<Rightarrow> agent_message list option)) list"

definition default_options :: context_build_options where
  "default_options = \<lparr>co_entryTransforms = [], co_entryProjectors = []\<rparr>"

text \<open>One iteration of the loop in \<open>deriveSessionContextState\<close>, which leaves the messages alone.\<close>

definition derive_step :: "session_context \<Rightarrow> entry \<Rightarrow> session_context" where
  "derive_step c e =
     (case ent_data e of
        E_thinking_level_change level \<Rightarrow> c\<lparr>sc_thinkingLevel := level\<rparr>
      | E_model_change p m \<Rightarrow> c\<lparr>sc_model := Some \<lparr>sm_provider = p, sm_modelId = m\<rparr>\<rparr>
      | E_message m _ \<Rightarrow>
          (case ent_assistant e of
             Some a \<Rightarrow> c\<lparr>sc_model := Some \<lparr>sm_provider = am_provider a, sm_modelId = am_model a\<rparr>\<rparr>
           | None \<Rightarrow> c)
      | E_active_tools_change tools \<Rightarrow> c\<lparr>sc_activeToolNames := Some tools\<rparr>
      | _ \<Rightarrow> c)"

definition deriveSessionContextState :: "entry list \<Rightarrow> session_context" where
  "deriveSessionContextState pathEntries =
     foldl derive_step
       \<lparr>sc_messages = [], sc_thinkingLevel = ''off'', sc_model = None, sc_activeToolNames = None\<rparr>
       pathEntries"

text \<open>
  The backwards loop over the indices: the last compaction and everything after it. \<open>scan_back\<close> is
  handed the entries before the index and the ones from it on.
\<close>

fun scan_back :: "entry list \<Rightarrow> entry list \<Rightarrow> (entry \<times> entry list) option" where
  "scan_back [] after = None"
| "scan_back (e # before) after =
     (if ent_type e = ET_compaction then Some (e, after) else scan_back before (e # after))"

definition defaultContextEntryTransform :: "entry list \<Rightarrow> entry list" where
  "defaultContextEntryTransform pathEntries =
     (case scan_back (rev pathEntries) [] of
        None \<Rightarrow> pathEntries
      | Some (compaction, after) \<Rightarrow> compaction # after)"

definition buildContextEntries :: "entry list \<Rightarrow> context_build_options \<Rightarrow> entry list" where
  "buildContextEntries pathEntries opts =
     foldl (\<lambda>es transform. transform es) (defaultContextEntryTransform pathEntries)
       (co_entryTransforms opts)"

definition sessionEntryToContextMessages ::
  "entry \<Rightarrow> nat \<Rightarrow> entry list \<Rightarrow> context_build_options \<Rightarrow> agent_message list" where
  "sessionEntryToContextMessages e index es opts =
     (case ent_data e of
        E_message m _ \<Rightarrow>
          (case ent_assistant e of
             Some a \<Rightarrow> if am_stopReason a = SR_deferred then [] else [m]
           | None \<Rightarrow> [m])
      | E_compaction summary retainedTail tokensBefore _ _ \<Rightarrow>
          createCompactionSummaryMessage summary tokensBefore (ent_timestamp e) # retainedTail
      | E_branch_summary fromId summary _ _ \<Rightarrow>
          (if summary \<noteq> '''' then [createBranchSummaryMessage summary fromId (ent_timestamp e)] else [])
      | E_custom customType _ \<Rightarrow>
          (case map_of (co_entryProjectors opts) customType of
             None \<Rightarrow> []
           | Some projector \<Rightarrow> (case projector e index es of None \<Rightarrow> [] | Some ms \<Rightarrow> ms))
      | _ \<Rightarrow> [])"

definition context_messages :: "entry list \<Rightarrow> context_build_options \<Rightarrow> agent_message list" where
  "context_messages es opts =
     concat (map (\<lambda>(index, e). sessionEntryToContextMessages e index es opts) (enumerate 0 es))"

definition buildSessionContext :: "entry list \<Rightarrow> context_build_options \<Rightarrow> session_context" where
  "buildSessionContext pathEntries opts =
     (deriveSessionContextState pathEntries)
       \<lparr>sc_messages := context_messages (buildContextEntries pathEntries opts) opts\<rparr>"

section \<open>Lemmas\<close>

definition is_compaction :: "entry \<Rightarrow> bool" where
  "is_compaction e \<longleftrightarrow> ent_type e = ET_compaction"

lemma scan_back_none: "list_all (Not \<circ> is_compaction) before \<Longrightarrow> scan_back before after = None"
  by (induction before arbitrary: after) (simp_all add: is_compaction_def)

lemma scan_back_found:
  "list_all (Not \<circ> is_compaction) newer \<Longrightarrow> is_compaction e \<Longrightarrow>
     scan_back (newer @ e # older) after = Some (e, rev newer @ after)"
  by (induction newer arbitrary: after) (simp_all add: is_compaction_def)

lemma transform_no_compaction:
  "list_all (Not \<circ> is_compaction) es \<Longrightarrow> defaultContextEntryTransform es = es"
  by (simp add: defaultContextEntryTransform_def scan_back_none)

lemma transform_last_compaction:
  "is_compaction c \<Longrightarrow> list_all (Not \<circ> is_compaction) after \<Longrightarrow>
     defaultContextEntryTransform (before @ c # after) = c # after"
  by (simp add: defaultContextEntryTransform_def scan_back_found [of "rev after", simplified])

lemma transform_cases:
  obtains "list_all (Not \<circ> is_compaction) es" "defaultContextEntryTransform es = es"
  | before c after where "es = before @ c # after" "is_compaction c"
      "list_all (Not \<circ> is_compaction) after" "defaultContextEntryTransform es = c # after"
proof (cases "\<exists>e \<in> set es. is_compaction e")
  case True
  then obtain before c after where "es = before @ c # after" "is_compaction c"
      "\<forall>e \<in> set after. \<not> is_compaction e"
    using split_list_last_prop [of es is_compaction] by blast
  then show thesis
    using that(2) transform_last_compaction by (simp add: list_all_iff)
next
  case False
  then show thesis using that(1) transform_no_compaction by (simp add: list_all_iff)
qed

text \<open>The three configuration fields, each by the last entry that sets it.\<close>

fun entry_model :: "entry_data \<Rightarrow> session_model option" where
  "entry_model (E_model_change p m) = Some \<lparr>sm_provider = p, sm_modelId = m\<rparr>"
| "entry_model (E_message (Msg (M_assistant a)) _) =
     Some \<lparr>sm_provider = am_provider a, sm_modelId = am_model a\<rparr>"
| "entry_model _ = None"

fun entry_level :: "entry_data \<Rightarrow> string option" where
  "entry_level (E_thinking_level_change level) = Some level"
| "entry_level _ = None"

fun entry_tools :: "entry_data \<Rightarrow> string list option" where
  "entry_tools (E_active_tools_change tools) = Some tools"
| "entry_tools _ = None"

text \<open>The last value a list of settings gives, or the default.\<close>

definition last_setting :: "'a \<Rightarrow> ('b \<Rightarrow> 'a option) \<Rightarrow> 'b list \<Rightarrow> 'a" where
  "last_setting d f xs = (case last_option (List.map_filter f xs) of None \<Rightarrow> d | Some v \<Rightarrow> v)"

lemma last_setting_Nil [simp]: "last_setting d f [] = d"
  by (simp add: last_setting_def List.map_filter_def)

lemma last_setting_snoc [simp]:
  "last_setting d f (xs @ [x]) = (case f x of None \<Rightarrow> last_setting d f xs | Some v \<Rightarrow> v)"
  by (simp add: last_setting_def List.map_filter_def split: option.splits)

lemma derive_step_eq:
  "derive_step c e =
     c\<lparr>sc_model := (case entry_model (ent_data e) of None \<Rightarrow> sc_model c | Some m \<Rightarrow> Some m),
       sc_thinkingLevel := (case entry_level (ent_data e) of None \<Rightarrow> sc_thinkingLevel c | Some l \<Rightarrow> l),
       sc_activeToolNames := (case entry_tools (ent_data e) of None \<Rightarrow> sc_activeToolNames c
                                                              | Some t \<Rightarrow> Some t)\<rparr>"
  by (cases "ent_data e" rule: entry_model.cases)
    (simp_all add: derive_step_def ent_assistant_def)

lemma derive_eq:
  "deriveSessionContextState es =
     \<lparr>sc_messages = [], sc_thinkingLevel = last_setting ''off'' (entry_level \<circ> ent_data) es,
      sc_model = last_setting None (map_option Some \<circ> entry_model \<circ> ent_data) es,
      sc_activeToolNames = last_setting None (map_option Some \<circ> entry_tools \<circ> ent_data) es\<rparr>"
  unfolding deriveSessionContextState_def
proof (induction es rule: rev_induct)
  case (snoc e es)
  then show ?case by (simp add: derive_step_eq split: option.splits)
qed simp

text \<open>Without projectors, an entry's messages depend neither on its index nor on its neighbours.\<close>

lemma default_messages_local:
  "context_messages es default_options =
     concat (map (\<lambda>e. sessionEntryToContextMessages e 0 [] default_options) es)"
proof -
  have "sessionEntryToContextMessages e i xs default_options =
      sessionEntryToContextMessages e 0 [] default_options" for e i xs
    by (simp add: sessionEntryToContextMessages_def default_options_def split: entry_data.splits)
  then have "context_messages es default_options =
      concat (map ((\<lambda>e. sessionEntryToContextMessages e 0 [] default_options) \<circ> snd) (enumerate 0 es))"
    unfolding context_messages_def by (intro arg_cong [of _ _ concat] map_cong) auto
  then show ?thesis by (simp flip: map_map)
qed

section \<open>Properties\<close>

lemma compacted_context:
  assumes "ent_data c = E_compaction summary tail tokens details usage"
    and "list_all (Not \<circ> is_compaction) after"
  shows "sc_messages (buildSessionContext (before @ c # after) default_options) =
    createCompactionSummaryMessage summary tokens (ent_timestamp c) # tail
      @ concat (map (\<lambda>e. sessionEntryToContextMessages e 0 [] default_options) after)"
proof -
  have "is_compaction c" using assms(1) by (simp add: is_compaction_def ent_type_def)
  then have "buildContextEntries (before @ c # after) default_options = c # after"
    using transform_last_compaction [OF _ assms(2)]
    by (simp add: buildContextEntries_def default_options_def)
  then show ?thesis
    using assms(1)
    by (simp add: buildSessionContext_def default_messages_local sessionEntryToContextMessages_def)
qed

text \<open>With the default options a compaction hides everything before it: if it is the branch's
  last, the context's messages are its summary, its retained tail and the messages of the entries
  after it, whatever came before.\<close>

theorem compaction_hides_prefix:
  assumes "ent_data c = E_compaction summary tail tokens details usage"
    and "list_all (Not \<circ> is_compaction) after"
  shows "sc_messages (buildSessionContext (before @ c # after) default_options) =
    createCompactionSummaryMessage summary tokens (ent_timestamp c) # tail
      @ concat (map (\<lambda>e. sessionEntryToContextMessages e 0 [] default_options) after)"
  by (rule compacted_context [OF assms])

definition demo_compaction :: entry where
  "demo_compaction = \<lparr>ent_id = ''c'', ent_data = E_compaction ''sum'' [] 10 None None,
     ent_parentId = None, ent_seq = 2, ent_timestamp = 3\<rparr>"

definition demo_old :: entry where
  "demo_old = \<lparr>ent_id = ''m'', ent_data = E_message (BranchSummary
     \<lparr>bs_summary = ''old'', bs_fromId = ''x'', bs_timestamp = 0\<rparr>) False,
     ent_parentId = None, ent_seq = 1, ent_timestamp = 3\<rparr>"

theorem compaction_hides_prefix_witness:
  "sc_messages (buildSessionContext [demo_old, demo_compaction, demo_old] default_options) =
     [createCompactionSummaryMessage ''sum'' 10 3,
      createBranchSummaryMessage ''old'' ''x'' 0]"
  using compaction_hides_prefix [of demo_compaction "''sum''" "[]" 10 None None "[demo_old]" "[demo_old]"]
  by (simp add: demo_compaction_def demo_old_def is_compaction_def ent_type_def
      sessionEntryToContextMessages_def ent_assistant_def createBranchSummaryMessage_def)

text \<open>The configuration of a context is the last writer's, compacted entries included: the
  thinking level, the model (set by a model change or by an assistant message) and the active tools
  are each the last value the branch gives, or off, none and none.\<close>

theorem context_configuration_last_writer:
  "sc_thinkingLevel (buildSessionContext es opts) = last_setting ''off'' (entry_level \<circ> ent_data) es \<and>
   sc_model (buildSessionContext es opts) =
     last_setting None (map_option Some \<circ> entry_model \<circ> ent_data) es \<and>
   sc_activeToolNames (buildSessionContext es opts) =
     last_setting None (map_option Some \<circ> entry_tools \<circ> ent_data) es"
  by (simp_all add: buildSessionContext_def derive_eq)

end
