(* ===== verification/Reducer_Log.thy ===== *)
theory Reducer_Log
  imports Session_Types
begin

text \<open>
  Validation of a lane's durable log before recovery: \<open>validateRecordLog\<close> and its helpers in
  \<open>packages/agent/src/harness/reducer.ts\<close>. A thrown \<open>RecordLogCorruption\<close> is a value with its reason
  and its message. \<open>Guard.IsDeepEqual\<close> comes from the package typebox, so it is the parameter
  \<open>deepEq\<close> of every definition that compares a stored entry with its provisioned target.
\<close>

section \<open>Inputs and errors\<close>

datatype corruption_reason =
    C_multiple_open_operations
  | C_unknown_operation
  | C_record_after_finish
  | C_non_consecutive_attempt
  | C_invalid_compaction_reason
  | C_queue_after_abort
  | C_invalid_queue_cancellation
  | C_inconsistent_step
  | C_tool_call_mismatch
  | C_duplicate_tool_invocation
  | C_provisioned_entry_mismatch
  | C_invalid_deferred_handle

datatype record_log_corruption = RecordLogCorruption (reason: corruption_reason) (detail: string)

type_synonym deep_equal = "provisioned_entry \<Rightarrow> provisioned_entry \<Rightarrow> bool"

record record_log_slice =
  rl_lane :: string
  rl_openOperations :: "operation_started list"
  rl_records :: "lane_record list"
  rl_entries :: "entry list"

definition corrupt :: "corruption_reason \<Rightarrow> string \<Rightarrow> record_log_corruption + 'a" where
  "corrupt r msg = Inl (RecordLogCorruption r msg)"

fun step_name :: "step_kind \<Rightarrow> string" where
  "step_name ST_assistant = ''assistant''"
| "step_name ST_compaction = ''compaction''"
| "step_name ST_branch_summary = ''branch_summary''"

fun queue_name :: "queue_kind \<Rightarrow> string" where
  "queue_name Q_steer = ''steer''"
| "queue_name Q_followUp = ''followUp''"
| "queue_name Q_nextRun = ''nextRun''"

text \<open>\<open>new Map(entries.map((entry) => [entry.id, entry]))\<close>: a later entry replaces an earlier one.\<close>

definition index_entries :: "entry list \<Rightarrow> (string \<times> entry) list" where
  "index_entries es = foldl (\<lambda>m e. AList.update (ent_id e) e m) [] es"

section \<open>Checks of single records\<close>

definition matchesProvisionedEntry :: "deep_equal \<Rightarrow> entry \<Rightarrow> provisioned_entry \<Rightarrow> bool" where
  "matchesProvisionedEntry deepEq e target = deepEq (provisioned_entry.truncate e) target"

definition validateExactProvisionedEntry ::
  "deep_equal \<Rightarrow> (string \<times> entry) list \<Rightarrow> provisioned_entry \<Rightarrow> record_log_corruption + unit" where
  "validateExactProvisionedEntry deepEq byId target =
     (case map_of byId (ent_id target) of
        None \<Rightarrow> Inr ()
      | Some e \<Rightarrow>
          if matchesProvisionedEntry deepEq e target then Inr ()
          else corrupt C_provisioned_entry_mismatch
                 (''Provisioned entry '' @ ent_id target @ '' exists with content different from its intent''))"

definition validateResultEntry ::
  "(string \<times> entry) list \<Rightarrow> string \<Rightarrow> (entry \<Rightarrow> bool) \<Rightarrow> string \<Rightarrow> record_log_corruption + unit" where
  "validateResultEntry byId resultEntryId matches description =
     (case map_of byId resultEntryId of
        None \<Rightarrow> Inr ()
      | Some e \<Rightarrow>
          if matches e then Inr ()
          else corrupt C_provisioned_entry_mismatch
                 (''Provisioned '' @ description @ '' entry '' @ resultEntryId @ '' exists with different content''))"

definition validateAttemptReason :: "string \<Rightarrow> step_attempt \<Rightarrow> record_log_corruption + unit" where
  "validateAttemptReason i sa =
     (if sa_step sa = ST_compaction then
        (if sa_compactionReason sa \<notin> {Some (JString ''manual''), Some (JString ''threshold''),
              Some (JString ''overflow'')}
         then corrupt C_invalid_compaction_reason
                (''Compaction attempt '' @ i @ '' has no valid compaction reason'')
         else Inr ())
      else if sa_compactionReason sa \<noteq> None
        then corrupt C_invalid_compaction_reason
               (step_name (sa_step sa) @ '' attempt '' @ i @ '' has a compaction reason'')
      else Inr ())"

text \<open>Does the attempt continue the series of the previous one, or start a new one at 1?\<close>

definition continuesSeries ::
  "nat \<Rightarrow> step_attempt \<Rightarrow> step_attempt option \<Rightarrow> (string \<times> entry) list \<Rightarrow> bool" where
  "continuesSeries q sa previous byId =
     (case previous of
        None \<Rightarrow> False
      | Some p \<Rightarrow>
          sa_step p = sa_step sa \<and>
          (case map_of byId (sa_resultEntryId p) of None \<Rightarrow> True | Some e \<Rightarrow> ent_seq e \<ge> q))"

definition validateAttemptSequence ::
  "string \<Rightarrow> nat \<Rightarrow> step_attempt \<Rightarrow> step_attempt option \<Rightarrow> (string \<times> entry) list \<Rightarrow>
   record_log_corruption + unit" where
  "validateAttemptSequence i q sa previous byId =
     (let continues = continuesSeries q sa previous byId;
          expected = (case previous of Some p \<Rightarrow> if continues then sa_attempt p + 1 else 1 | None \<Rightarrow> 1)
      in if sa_attempt sa \<noteq> expected
         then corrupt C_non_consecutive_attempt
                (step_name (sa_step sa) @ '' attempt '' @ i @ '' is '' @ show_int (sa_attempt sa)
                   @ ''; expected '' @ show_int expected)
         else if \<not> continues \<or> sa_step sa = ST_assistant then Inr ()
         else case previous of
             None \<Rightarrow> Inr ()
           | Some p \<Rightarrow>
               if sa_resultEntryId sa \<noteq> sa_resultEntryId p
               then corrupt C_inconsistent_step
                      (step_name (sa_step sa) @ '' attempts disagree on their result entry id'')
               else if sa_compactionReason sa \<noteq> sa_compactionReason p
               then corrupt C_inconsistent_step
                      (step_name (sa_step sa) @ '' attempts disagree on their compaction reason'')
               else Inr ())"

definition validateAttemptResult ::
  "(string \<times> entry) list \<Rightarrow> step_attempt \<Rightarrow> record_log_corruption + unit" where
  "validateAttemptResult byId sa =
     (case sa_step sa of
        ST_assistant \<Rightarrow>
          validateResultEntry byId (sa_resultEntryId sa) (\<lambda>e. ent_assistant e \<noteq> None) ''assistant result''
      | ST_compaction \<Rightarrow>
          validateResultEntry byId (sa_resultEntryId sa) (\<lambda>e. ent_type e = ET_compaction)
            ''compaction result''
      | ST_branch_summary \<Rightarrow>
          validateResultEntry byId (sa_resultEntryId sa) (\<lambda>e. ent_type e = ET_branch_summary)
            ''branch-summary result'')"

text \<open>The key of a tool invocation, with a NUL between its parts.\<close>

definition invocation_key :: "tool_started \<Rightarrow> string" where
  "invocation_key t = ts_assistantEntryId t @ [char_of (0::nat)] @ show_int (ts_toolIndex t)"

definition tool_result_matches :: "tool_started \<Rightarrow> entry \<Rightarrow> bool" where
  "tool_result_matches t e =
     (case ent_toolResult e of
        None \<Rightarrow> False
      | Some m \<Rightarrow> tr_toolCallId m = ts_toolCallId t \<and> tr_toolName m = ts_toolName t)"

definition validateToolStart ::
  "string \<Rightarrow> tool_started \<Rightarrow> (string \<times> entry) list \<Rightarrow> string set \<Rightarrow>
   record_log_corruption + string set" where
  "validateToolStart i t byId invocations =
     (if invocation_key t \<in> invocations
      then corrupt C_duplicate_tool_invocation
             (''Tool invocation '' @ ts_assistantEntryId t @ '':'' @ show_int (ts_toolIndex t)
                @ '' is duplicated'')
      else case Option.bind (map_of byId (ts_assistantEntryId t)) ent_assistant of
          None \<Rightarrow> corrupt C_tool_call_mismatch
                    (''Tool start '' @ i @ '' does not reference an assistant entry'')
        | Some a \<Rightarrow>
            (let mismatch = corrupt C_tool_call_mismatch
                   (''Tool start '' @ i @ '' does not match its assistant tool-call ordinal'')
             in case array_get (toolCalls_of (am_content a)) (ts_toolIndex t) of
                  None \<Rightarrow> mismatch
                | Some c \<Rightarrow>
                    if tc_id c \<noteq> ts_toolCallId t \<or> tc_name c \<noteq> ts_toolName t then mismatch
                    else andThen (validateResultEntry byId (ts_resultEntryId t)
                                    (tool_result_matches t) ''tool result'') (\<lambda>_.
                         Inr (insert (invocation_key t) invocations))))"

definition lacks_handle :: "entry \<Rightarrow> bool" where
  "lacks_handle e =
     (case ent_assistant e of
        None \<Rightarrow> False
      | Some a \<Rightarrow> am_stopReason a = SR_deferred \<and> am_deferred a = None)"

definition validateDeferredHandles :: "entry list \<Rightarrow> record_log_corruption + unit" where
  "validateDeferredHandles es =
     foldR (\<lambda>_ e. if lacks_handle e
                   then corrupt C_invalid_deferred_handle
                          (''Deferred assistant entry '' @ ent_id e @ '' does not carry a handle'')
                   else Inr ()) () es"

definition validateOperationResult ::
  "deep_equal \<Rightarrow> (string \<times> entry) list \<Rightarrow> operation_intent \<Rightarrow> record_log_corruption + unit" where
  "validateOperationResult deepEq byId intent =
     (case intent of
        I_run _ initialMessages _ _ \<Rightarrow>
          foldR (\<lambda>_ target. validateExactProvisionedEntry deepEq byId target) () initialMessages
      | I_compaction _ resultEntryId \<Rightarrow>
          validateResultEntry byId resultEntryId (\<lambda>e. ent_type e = ET_compaction) ''manual compaction''
      | I_navigation _ _ _ _ summaryEntryId \<Rightarrow>
          (case summaryEntryId of
             None \<Rightarrow> Inr ()
           | Some i \<Rightarrow>
               if i = '''' then Inr ()
               else validateResultEntry byId i (\<lambda>e. ent_type e = ET_branch_summary)
                      ''navigation summary''))"

section \<open>The loop over the records\<close>

text \<open>The maps and sets the loop carries. An enqueue is kept as its sequence number and run id.\<close>

record log_scan =
  sc_starts :: "string set"
  sc_finishedAt :: "(string \<times> nat) list"
  sc_abortedAt :: "(string \<times> nat) list"
  sc_queueEnqueues :: "(string \<times> nat \<times> string option) list"
  sc_latestAttempt :: "(string \<times> step_attempt) list"
  sc_toolInvocations :: "string set"

definition empty_scan :: log_scan where
  "empty_scan = \<lparr>sc_starts = {}, sc_finishedAt = [], sc_abortedAt = [], sc_queueEnqueues = [],
                 sc_latestAttempt = [], sc_toolInvocations = {}\<rparr>"

definition check_owner :: "log_scan \<Rightarrow> lane_record \<Rightarrow> record_log_corruption + unit" where
  "check_owner sc r =
     (case rec_runId r of
        None \<Rightarrow> Inr ()
      | Some run \<Rightarrow>
          if run \<notin> sc_starts sc
          then corrupt C_unknown_operation
                 (''Record '' @ rec_id r @ '' references unknown operation '' @ run)
          else case map_of (sc_finishedAt sc) run of
              None \<Rightarrow> Inr ()
            | Some finishSeq \<Rightarrow>
                if rec_seq r > finishSeq
                then corrupt C_record_after_finish
                       (''Record '' @ rec_id r @ '' follows the finish of operation '' @ run)
                else Inr ())"

definition enqueued_after_abort :: "log_scan \<Rightarrow> nat \<Rightarrow> queue_kind \<Rightarrow> string option \<Rightarrow> bool" where
  "enqueued_after_abort sc q queue runId \<longleftrightarrow>
     queue \<noteq> Q_nextRun \<and>
     (case Option.bind runId (map_of (sc_abortedAt sc)) of None \<Rightarrow> False | Some a \<Rightarrow> q > a)"

definition cancellation_pending ::
  "log_scan \<Rightarrow> (string \<times> entry) list \<Rightarrow> nat \<Rightarrow> string option \<Rightarrow> string \<Rightarrow> bool" where
  "cancellation_pending sc byId q runId entryId =
     (case map_of (sc_queueEnqueues sc) entryId of
        None \<Rightarrow> False
      | Some (enqueuedAt, enqueueRun) \<Rightarrow>
          enqueuedAt < q \<and> enqueueRun = runId \<and> map_of byId entryId = None)"

definition check_record ::
  "deep_equal \<Rightarrow> (string \<times> entry) list \<Rightarrow> log_scan \<Rightarrow> lane_record \<Rightarrow> record_log_corruption + log_scan" where
  "check_record deepEq byId sc r =
     (case rec_data r of
        R_operation_started _ intent \<Rightarrow>
          andThen (validateOperationResult deepEq byId intent) (\<lambda>_.
          Inr (sc\<lparr>sc_starts := insert (rec_id r) (sc_starts sc)\<rparr>))
      | R_operation_finished runId _ _ \<Rightarrow>
          Inr (sc\<lparr>sc_finishedAt := AList.update runId (rec_seq r) (sc_finishedAt sc)\<rparr>)
      | R_abort_requested runId \<Rightarrow>
          Inr (sc\<lparr>sc_abortedAt := AList.update runId (rec_seq r) (sc_abortedAt sc)\<rparr>)
      | R_step_attempt sa \<Rightarrow>
          andThen (validateAttemptReason (rec_id r) sa) (\<lambda>_.
          andThen (validateAttemptSequence (rec_id r) (rec_seq r) sa
                     (map_of (sc_latestAttempt sc) (sa_runId sa)) byId) (\<lambda>_.
          andThen (validateAttemptResult byId sa) (\<lambda>_.
          Inr (sc\<lparr>sc_latestAttempt := AList.update (sa_runId sa) sa (sc_latestAttempt sc)\<rparr>))))
      | R_tool_started t \<Rightarrow>
          andThen (validateToolStart (rec_id r) t byId (sc_toolInvocations sc)) (\<lambda>invocations.
          Inr (sc\<lparr>sc_toolInvocations := invocations\<rparr>))
      | R_queue_enqueued queue runId target \<Rightarrow>
          andThen (if enqueued_after_abort sc (rec_seq r) queue runId
                   then corrupt C_queue_after_abort
                          (queue_name queue @ '' item '' @ ent_id target @ '' was enqueued after abort'')
                   else Inr ()) (\<lambda>_.
          andThen (validateExactProvisionedEntry deepEq byId target) (\<lambda>_.
          Inr (sc\<lparr>sc_queueEnqueues :=
                    AList.update (ent_id target) (rec_seq r, runId) (sc_queueEnqueues sc)\<rparr>)))
      | R_queue_cancelled runId entryId \<Rightarrow>
          (if cancellation_pending sc byId (rec_seq r) runId entryId then Inr sc
           else corrupt C_invalid_queue_cancellation
                  (''Queue cancellation '' @ rec_id r @ '' has no pending matching enqueue''))
      | R_write_deferred _ target \<Rightarrow>
          andThen (validateExactProvisionedEntry deepEq byId target) (\<lambda>_. Inr sc)
      | R_usage _ _ \<Rightarrow> Inr sc)"

text \<open>
  One iteration. An operation start skips the owner check (it has no \<open>runId\<close>), as its \<open>continue\<close> does.
\<close>

definition validate_step ::
  "deep_equal \<Rightarrow> (string \<times> entry) list \<Rightarrow> log_scan \<Rightarrow> lane_record \<Rightarrow> record_log_corruption + log_scan" where
  "validate_step deepEq byId sc r =
     andThen (check_owner sc r) (\<lambda>_. check_record deepEq byId sc r)"

definition validateRecordLog ::
  "deep_equal \<Rightarrow> 'a record_log_slice_scheme \<Rightarrow> record_log_corruption + unit" where
  "validateRecordLog deepEq input =
     andThen (if length (rl_openOperations input) > 1
              then corrupt C_multiple_open_operations
                     (''Lane '' @ rl_lane input @ '' has at least two open operations'')
              else Inr ()) (\<lambda>_.
     let byId = index_entries (rl_entries input)
     in andThen (validateDeferredHandles (map snd byId)) (\<lambda>_.
        andThen (foldR (validate_step deepEq byId) empty_scan (sort_key rec_seq (rl_records input)))
          (\<lambda>_. Inr ())))"

section \<open>Lemmas\<close>

lemma map_of_index_entries:
  "map_of (index_entries es) = foldl (\<lambda>m e. m(ent_id e \<mapsto> e)) Map.empty es"
proof -
  have "map_of (foldl (\<lambda>m e. AList.update (ent_id e) e m) n es) =
      foldl (\<lambda>m e. m(ent_id e \<mapsto> e)) (map_of n) es" for n
    by (induction es arbitrary: n) simp_all
  then show ?thesis by (simp add: index_entries_def)
qed

lemma map_of_index_append:
  "map_of (index_entries (es @ [e])) = (map_of (index_entries es))(ent_id e \<mapsto> e)"
  by (simp add: map_of_index_entries)

lemma index_entries_None: "map_of (index_entries es) i = None \<longleftrightarrow> i \<notin> ent_id ` set es"
  by (induction es rule: rev_induct) (auto simp: map_of_index_append index_entries_def)

lemma index_entries_Some: "map_of (index_entries es) i = Some e \<Longrightarrow> e \<in> set es \<and> ent_id e = i"
  by (induction es rule: rev_induct)
    (auto simp: map_of_index_append index_entries_def split: if_splits)

lemma corrupt_not_Inr [simp]: "corrupt r m \<noteq> Inr x"
  by (simp add: corrupt_def)

lemma corrupt_eq_Inl [simp]: "corrupt r m = Inl e \<longleftrightarrow> e = RecordLogCorruption r m"
  by (auto simp: corrupt_def)

text \<open>What one accepted iteration says of its record and does to the scan.\<close>

lemma validate_step_Inr:
  assumes "validate_step deepEq byId sc r = Inr sc'"
  shows "check_owner sc r = Inr () \<and> check_record deepEq byId sc r = Inr sc'"
  using assms by (auto simp: validate_step_def andThen_eq_Inr)

lemma check_record_starts:
  "check_record deepEq byId sc r = Inr sc' \<Longrightarrow>
     sc_starts sc' = (if rec_type r = RT_operation_started then insert (rec_id r) (sc_starts sc)
                      else sc_starts sc)"
  by (cases "rec_data r") (auto simp: check_record_def rec_type_def throws split: if_splits)

lemma check_record_finished:
  "check_record deepEq byId sc r = Inr sc' \<Longrightarrow>
     sc_finishedAt sc' = (case rec_data r of
         R_operation_finished runId _ _ \<Rightarrow> AList.update runId (rec_seq r) (sc_finishedAt sc)
       | _ \<Rightarrow> sc_finishedAt sc)"
  by (cases "rec_data r") (auto simp: check_record_def throws split: if_splits)

lemma validateToolStart_Inr:
  "validateToolStart i t byId seen = Inr seen' \<Longrightarrow>
     invocation_key t \<notin> seen \<and> seen' = insert (invocation_key t) seen"
  by (auto simp: validateToolStart_def throws Let_def split: if_splits option.splits)

lemma check_record_invocations:
  "check_record deepEq byId sc r = Inr sc' \<Longrightarrow>
     sc_toolInvocations sc' = (case rec_data r of
         R_tool_started t \<Rightarrow> insert (invocation_key t) (sc_toolInvocations sc)
       | _ \<Rightarrow> sc_toolInvocations sc)"
  by (cases "rec_data r")
    (auto simp: check_record_def throws split: if_splits dest: validateToolStart_Inr)

text \<open>
  The accepted prefix determines what the scan knows: which operations have started, which finished
  and when, which tool invocations have started.
\<close>

definition scan_invocations :: "lane_record list \<Rightarrow> string list" where
  "scan_invocations rs =
     List.map_filter (\<lambda>r. case rec_data r of R_tool_started t \<Rightarrow> Some (invocation_key t) | _ \<Rightarrow> None) rs"

definition scan_ok :: "lane_record list \<Rightarrow> log_scan \<Rightarrow> bool" where
  "scan_ok rs sc \<longleftrightarrow>
     sc_starts sc = rec_id ` {r \<in> set rs. rec_type r = RT_operation_started} \<and>
     (\<forall>run. map_of (sc_finishedAt sc) run \<noteq> None \<longleftrightarrow>
        (\<exists>r \<in> set rs. \<exists>o' err. rec_data r = R_operation_finished run o' err)) \<and>
     sc_toolInvocations sc = set (scan_invocations rs) \<and> distinct (scan_invocations rs)"

lemma scan_ok_empty: "scan_ok [] empty_scan"
  by (simp add: scan_ok_def empty_scan_def scan_invocations_def List.map_filter_def)

lemma scan_invocations_snoc:
  "scan_invocations (rs @ [r]) = scan_invocations rs @
     (case rec_data r of R_tool_started t \<Rightarrow> [invocation_key t] | _ \<Rightarrow> [])"
  by (simp add: scan_invocations_def List.map_filter_def split: record_data.splits)

lemma scan_ok_step:
  assumes "scan_ok rs sc" and "check_record deepEq byId sc r = Inr sc'"
  shows "scan_ok (rs @ [r]) sc'"
proof -
  have inv: "invocation_key t \<notin> sc_toolInvocations sc" if "rec_data r = R_tool_started t" for t
    using assms(2) that by (auto simp: check_record_def throws dest: validateToolStart_Inr)
  have st: "sc_starts sc' = rec_id ` {x \<in> set (rs @ [r]). rec_type x = RT_operation_started}"
    using assms(1) check_record_starts [OF assms(2)] by (auto simp: scan_ok_def)
  have fin: "map_of (sc_finishedAt sc') run \<noteq> None \<longleftrightarrow>
      (\<exists>x \<in> set (rs @ [r]). \<exists>o' err. rec_data x = R_operation_finished run o' err)" for run
    using assms(1) check_record_finished [OF assms(2)]
    by (auto simp: scan_ok_def split: record_data.splits)
  have "sc_toolInvocations sc' = set (scan_invocations (rs @ [r])) \<and>
      distinct (scan_invocations (rs @ [r]))"
    using assms(1) check_record_invocations [OF assms(2)] inv
    by (auto simp: scan_ok_def scan_invocations_snoc split: record_data.splits)
  with st fin show ?thesis by (simp add: scan_ok_def)
qed

lemma validate_scan:
  "foldR (validate_step deepEq byId) empty_scan rs = Inr sc \<Longrightarrow> scan_ok rs sc"
proof (induction rs arbitrary: sc rule: rev_induct)
  case Nil
  then show ?case by (simp add: scan_ok_empty)
next
  case (snoc r rs)
  then obtain u where "foldR (validate_step deepEq byId) empty_scan rs = Inr u"
      "validate_step deepEq byId u r = Inr sc"
    by (auto simp: foldR_append andThen_eq_Inr)
  then show ?case using snoc.IH scan_ok_step validate_step_Inr by blast
qed

lemma validateRecordLog_Inr:
  assumes "validateRecordLog deepEq input = Inr ()"
  obtains sc where "foldR (validate_step deepEq (index_entries (rl_entries input))) empty_scan
      (sort_key rec_seq (rl_records input)) = Inr sc"
    "length (rl_openOperations input) \<le> 1"
  using assms that by (auto simp: validateRecordLog_def throws Let_def split: if_splits)

lemma validate_prefix:
  assumes "foldR (validate_step deepEq byId) empty_scan (before @ r # after) = Inr sc"
  shows "\<exists>u. scan_ok before u \<and> check_owner u r = Inr ()"
proof -
  from assms obtain u v where "foldR (validate_step deepEq byId) empty_scan before = Inr u"
      "validate_step deepEq byId u r = Inr v"
    by (auto simp: foldR_append andThen_eq_Inr)
  then show ?thesis using validate_scan validate_step_Inr by blast
qed

end
