(* ===== verification/Reducer.thy ===== *)
theory Reducer
  imports Reducer_Log Session_Context
begin

text \<open>
  Recovery of a lane: \<open>reduceLaneState\<close> of \<open>packages/agent/src/harness/reducer.ts\<close>. From the bounded
  slice of a lane's log it rebuilds the orchestration state: what the open operation was doing, which
  provisioned entries are still missing, which tools ran. \<open>clone\<close> is the identity.
\<close>

section \<open>The lane state\<close>

record effective_lane_configuration =
  ec_model :: session_model
  ec_thinkingLevel :: string
  ec_activeToolNames :: "string list"

datatype failure_source = FS_step | FS_deferred_fetch

record terminal_failure =
  tf_entryId :: string
  tf_source :: failure_source
  tf_message :: assistant_message

record tool_call_state =
  tcs_toolIndex :: nat
  tcs_toolCall :: tool_call
  tcs_started :: "lane_record option"
  tcs_resultExists :: bool
  tcs_terminate :: bool

record tool_batch_state =
  tb_assistantEntryId :: string
  tb_calls :: "tool_call_state list"
  tb_truncated :: bool
  tb_unresolved :: bool

record step_state =
  ss_kind :: step_kind
  ss_attempts :: int
  ss_resultEntryId :: string
  ss_compactionReason :: "json option"

datatype message_role =
  MR_user | MR_assistant | MR_toolResult | MR_bashExecution | MR_custom
  | MR_branchSummary | MR_compactionSummary

fun role_of :: "agent_message \<Rightarrow> message_role" where
  "role_of (Msg (M_user _)) = MR_user"
| "role_of (Msg (M_assistant _)) = MR_assistant"
| "role_of (Msg (M_toolResult _)) = MR_toolResult"
| "role_of (BashExecution _) = MR_bashExecution"
| "role_of (Custom _) = MR_custom"
| "role_of (BranchSummary _) = MR_branchSummary"
| "role_of (CompactionSummary _) = MR_compactionSummary"

record newest_own =
  no_entryId :: string
  no_type :: entry_type
  no_role :: "message_role option"
  no_stopReason :: "stop_reason option"

record operation_state =
  op_id :: string
  op_kind :: operation_kind
  op_intent :: operation_intent
  op_aborting :: bool
  op_step :: "step_state option"
  op_toolBatch :: "tool_batch_state option"
  op_missingInitialMessages :: "provisioned_entry list"
  op_pendingSteer :: "provisioned_entry list"
  op_pendingFollowUp :: "provisioned_entry list"
  op_pendingWrites :: "provisioned_entry list"
  op_deferred :: "deferred_handle option"
  op_overflowRecoveryUsed :: bool
  op_newestOwn :: "newest_own option"
  op_targetResult :: "bool option"
  op_targetSummary :: "bool option"

record lane_state =
  ln_lane :: string
  ln_leafId :: "string option"
  ln_operation :: "operation_state option"
  ln_pendingNextRun :: "provisioned_entry list"

record lane_reduction_input = record_log_slice +
  li_leafId :: "string option"
  li_ownEntries :: "entry list"
  li_configurationEntries :: "entry list"
  li_defaults :: effective_lane_configuration

record lane_reduction_result =
  lr_laneState :: lane_state
  lr_effectiveConfiguration :: effective_lane_configuration
  lr_terminalFailure :: "terminal_failure option"

section \<open>Effective configuration and newest own entry\<close>

definition configure :: "effective_lane_configuration \<Rightarrow> entry \<Rightarrow> effective_lane_configuration" where
  "configure c e =
     (case ent_data e of
        E_model_change p m \<Rightarrow> c\<lparr>ec_model := \<lparr>sm_provider = p, sm_modelId = m\<rparr>\<rparr>
      | E_thinking_level_change level \<Rightarrow> c\<lparr>ec_thinkingLevel := level\<rparr>
      | E_active_tools_change tools \<Rightarrow> c\<lparr>ec_activeToolNames := tools\<rparr>
      | E_message _ _ \<Rightarrow>
          (case ent_assistant e of
             Some a \<Rightarrow> c\<lparr>ec_model := \<lparr>sm_provider = am_provider a, sm_modelId = am_model a\<rparr>\<rparr>
           | None \<Rightarrow> c)
      | _ \<Rightarrow> c)"

definition deriveEffectiveConfiguration ::
  "lane_reduction_input \<Rightarrow> effective_lane_configuration" where
  "deriveEffectiveConfiguration input =
     foldl configure (li_defaults input)
       (sort_key ent_seq
         (map snd (index_entries (li_configurationEntries input @ li_ownEntries input))))"

definition deriveNewestOwn :: "entry option \<Rightarrow> newest_own option" where
  "deriveNewestOwn oe =
     (case oe of
        None \<Rightarrow> None
      | Some e \<Rightarrow>
          (case ent_data e of
             E_message m _ \<Rightarrow>
               Some \<lparr>no_entryId = ent_id e, no_type = ent_type e, no_role = Some (role_of m),
                     no_stopReason = map_option am_stopReason (ent_assistant e)\<rparr>
           | _ \<Rightarrow> Some \<lparr>no_entryId = ent_id e, no_type = ent_type e, no_role = None,
                        no_stopReason = None\<rparr>))"

section \<open>The tool batch\<close>

definition has_toolCall :: "entry \<Rightarrow> bool" where
  "has_toolCall e =
     (case ent_assistant e of None \<Rightarrow> False | Some a \<Rightarrow> list_ex is_toolCall (am_content a))"

text \<open>The starts of one assistant entry's calls, by tool index; a later record replaces an earlier one.\<close>

definition batch_starts :: "string \<Rightarrow> lane_record list \<Rightarrow> string \<Rightarrow> (int \<times> lane_record \<times> tool_started) list" where
  "batch_starts operationId recs assistantId =
     foldl (\<lambda>m r. case rec_data r of
               R_tool_started t \<Rightarrow>
                 if ts_runId t = operationId \<and> ts_assistantEntryId t = assistantId
                 then AList.update (ts_toolIndex t) (r, t) m else m
             | _ \<Rightarrow> m) [] recs"

definition blocked_result :: "entry list \<Rightarrow> string set \<Rightarrow> nat \<Rightarrow> string \<Rightarrow> entry option" where
  "blocked_result ownEntries deferredWriteIds assistantSeq callId =
     List.find (\<lambda>e. ent_seq e > assistantSeq \<and> ent_id e \<notin> deferredWriteIds \<and>
       (case ent_toolResult e of None \<Rightarrow> False | Some m \<Rightarrow> tr_toolCallId m = callId)) ownEntries"

fun terminates :: "entry_data \<Rightarrow> bool" where
  "terminates (E_message _ t) = t"
| "terminates _ = False"

definition call_state ::
  "(int \<times> lane_record \<times> tool_started) list \<Rightarrow> entry list \<Rightarrow> (string \<times> entry) list \<Rightarrow> string set \<Rightarrow> nat \<Rightarrow>
   nat \<times> tool_call \<Rightarrow> tool_call_state" where
  "call_state starts ownEntries byId deferredWriteIds assistantSeq call =
     (case call of (toolIndex, toolCall) \<Rightarrow>
        let started = map_of starts (int toolIndex);
            startedResult = Option.bind started (\<lambda>(_, t). map_of byId (ts_resultEntryId t));
            result = (case startedResult of Some e \<Rightarrow> Some e
                        | None \<Rightarrow> blocked_result ownEntries deferredWriteIds assistantSeq (tc_id toolCall))
        in \<lparr>tcs_toolIndex = toolIndex, tcs_toolCall = toolCall, tcs_started = map_option fst started,
            tcs_resultExists = (result \<noteq> None),
            tcs_terminate = (case result of None \<Rightarrow> False | Some e \<Rightarrow> terminates (ent_data e))\<rparr>)"

definition deriveToolBatch ::
  "string \<Rightarrow> lane_record list \<Rightarrow> entry list \<Rightarrow> (string \<times> entry) list \<Rightarrow> string set \<Rightarrow>
   tool_batch_state option" where
  "deriveToolBatch operationId recs ownEntries byId deferredWriteIds =
     (case List.find has_toolCall (rev ownEntries) of
        None \<Rightarrow> None
      | Some e \<Rightarrow>
          (case ent_assistant e of
             None \<Rightarrow> None
           | Some a \<Rightarrow>
               let starts = batch_starts operationId recs (ent_id e);
                   calls = map (call_state starts ownEntries byId deferredWriteIds (ent_seq e))
                             (enumerate 0 (toolCalls_of (am_content a)))
               in Some \<lparr>tb_assistantEntryId = ent_id e, tb_calls = calls,
                        tb_truncated = (am_stopReason a = SR_length),
                        tb_unresolved = list_ex (\<lambda>c. \<not> tcs_resultExists c) calls\<rparr>))"

section \<open>reduceLaneState\<close>

text \<open>\<open>new Map\<close> over \<open>[...input.entries, ...ownEntries]\<close>.\<close>

definition known_entries :: "lane_reduction_input \<Rightarrow> (string \<times> entry) list" where
  "known_entries input = index_entries (rl_entries input @ sort_key ent_seq (li_ownEntries input))"

definition absent :: "(string \<times> entry) list \<Rightarrow> provisioned_entry \<Rightarrow> bool" where
  "absent byId target \<longleftrightarrow> map_of byId (ent_id target) = None"

definition cancelled_ids :: "lane_record list \<Rightarrow> string set" where
  "cancelled_ids recs =
     set (List.map_filter (\<lambda>r. case rec_data r of R_queue_cancelled _ i \<Rightarrow> Some i | _ \<Rightarrow> None) recs)"

text \<open>Queue items that are neither written nor cancelled, as (queue, runId, target).\<close>

definition pending_queue ::
  "(string \<times> entry) list \<Rightarrow> lane_record list \<Rightarrow> (queue_kind \<times> string option \<times> provisioned_entry) list" where
  "pending_queue byId recs =
     List.map_filter (\<lambda>r. case rec_data r of
         R_queue_enqueued q runId target \<Rightarrow>
           if absent byId target \<and> ent_id target \<notin> cancelled_ids recs then Some (q, runId, target)
           else None
       | _ \<Rightarrow> None) recs"

definition queue_targets ::
  "queue_kind \<Rightarrow> string \<Rightarrow> (queue_kind \<times> string option \<times> provisioned_entry) list \<Rightarrow> provisioned_entry list" where
  "queue_targets q run pend = map (snd \<circ> snd) (filter (\<lambda>(q', runId, _). q' = q \<and> runId = Some run) pend)"

fun initial_messages :: "operation_intent \<Rightarrow> provisioned_entry list" where
  "initial_messages (I_run _ msgs _ _) = msgs"
| "initial_messages _ = []"

definition pending_next_run ::
  "provisioned_entry list \<Rightarrow> (queue_kind \<times> string option \<times> provisioned_entry) list \<Rightarrow> provisioned_entry list" where
  "pending_next_run captured pend =
     map (snd \<circ> snd)
       (filter (\<lambda>(q, _, target). q = Q_nextRun \<and> ent_id target \<notin> ent_id ` set captured) pend)"

definition operation_records :: "operation_started \<Rightarrow> lane_record list \<Rightarrow> lane_record list" where
  "operation_records started recs =
     filter (\<lambda>r. if rec_type r = RT_operation_started then rec_id r = os_id started
                 else rec_runId r = Some (os_id started)) recs"

definition deferred_targets :: "lane_record list \<Rightarrow> provisioned_entry list" where
  "deferred_targets recs =
     List.map_filter (\<lambda>r. case rec_data r of R_write_deferred _ target \<Rightarrow> Some target | _ \<Rightarrow> None) recs"

definition attempts :: "lane_record list \<Rightarrow> step_attempt list" where
  "attempts recs =
     List.map_filter (\<lambda>r. case rec_data r of R_step_attempt sa \<Rightarrow> Some sa | _ \<Rightarrow> None) recs"

definition current_step :: "(string \<times> entry) list \<Rightarrow> lane_record list \<Rightarrow> step_state option" where
  "current_step byId recs =
     (case last_option (attempts recs) of
        None \<Rightarrow> None
      | Some sa \<Rightarrow>
          if map_of byId (sa_resultEntryId sa) \<noteq> None then None
          else Some \<lparr>ss_kind = sa_step sa, ss_attempts = sa_attempt sa,
                     ss_resultEntryId = sa_resultEntryId sa,
                     ss_compactionReason = (if sa_step sa = ST_compaction then sa_compactionReason sa
                                            else None)\<rparr>)"

definition consumed_ids :: "operation_started \<Rightarrow> lane_record list \<Rightarrow> string list" where
  "consumed_ids started recs =
     map ent_id (initial_messages (os_intent started)) @
     List.map_filter (\<lambda>r. case rec_data r of
         R_queue_enqueued q _ target \<Rightarrow> if q \<noteq> Q_nextRun then Some (ent_id target) else None
       | _ \<Rightarrow> None) recs"

text \<open>The largest sequence number of a consumed input; \<open>None\<close> is minus infinity.\<close>

definition newest_consumed :: "(string \<times> entry) list \<Rightarrow> string list \<Rightarrow> nat option" where
  "newest_consumed byId ids =
     foldl (\<lambda>m i. case map_of byId i of
               None \<Rightarrow> m
             | Some e \<Rightarrow> if ent_type e = ET_message
                 then Some (case m of None \<Rightarrow> ent_seq e | Some q \<Rightarrow> max q (ent_seq e)) else m)
       None ids"

definition overflow_used :: "nat option \<Rightarrow> lane_record list \<Rightarrow> bool" where
  "overflow_used newest recs =
     list_ex (\<lambda>r. case rec_data r of
         R_step_attempt sa \<Rightarrow>
           sa_step sa = ST_compaction \<and> sa_compactionReason sa = Some (JString ''overflow'') \<and>
           (case newest of None \<Rightarrow> True | Some q \<Rightarrow> rec_seq r > q)
       | _ \<Rightarrow> False) recs"

definition own_deferred :: "entry option \<Rightarrow> deferred_handle option" where
  "own_deferred newest =
     (case Option.bind newest ent_assistant of
        None \<Rightarrow> None
      | Some a \<Rightarrow> if am_stopReason a = SR_deferred then am_deferred a else None)"

definition produced_by_step :: "lane_record list \<Rightarrow> string \<Rightarrow> bool" where
  "produced_by_step recs i = list_ex (\<lambda>sa. sa_resultEntryId sa = i) (attempts recs)"

definition produced_by_deferred_fetch :: "lane_record list \<Rightarrow> entry option \<Rightarrow> string \<Rightarrow> bool" where
  "produced_by_deferred_fetch recs previous i \<longleftrightarrow>
     list_ex (\<lambda>r. case rec_data r of
         R_usage _ (U_step UC_deferred_fetch _ entryId _ _) \<Rightarrow> entryId = i | _ \<Rightarrow> False) recs \<or>
     (case Option.bind previous ent_assistant of
        None \<Rightarrow> False | Some a \<Rightarrow> am_stopReason a = SR_deferred)"

text \<open>\<open>ownEntries.at(-2)\<close>.\<close>

definition second_last :: "'a list \<Rightarrow> 'a option" where
  "second_last xs = last_option (butlast xs)"

definition terminal_failure_of ::
  "lane_record list \<Rightarrow> entry list \<Rightarrow> string set \<Rightarrow> terminal_failure option" where
  "terminal_failure_of recs ownEntries deferredWriteIds =
     (case last_option ownEntries of
        None \<Rightarrow> None
      | Some e \<Rightarrow>
          (case ent_assistant e of
             None \<Rightarrow> None
           | Some a \<Rightarrow>
               if am_stopReason a \<noteq> SR_error \<or> ent_id e \<in> deferredWriteIds then None
               else let byStep = produced_by_step recs (ent_id e);
                        byFetch = produced_by_deferred_fetch recs (second_last ownEntries) (ent_id e)
                    in if byStep \<or> byFetch
                       then Some \<lparr>tf_entryId = ent_id e,
                                  tf_source = (if byStep then FS_step else FS_deferred_fetch),
                                  tf_message = a\<rparr>
                       else None))"

fun target_result :: "(string \<times> entry) list \<Rightarrow> operation_intent \<Rightarrow> bool option" where
  "target_result byId (I_compaction _ resultEntryId) = Some (map_of byId resultEntryId \<noteq> None)"
| "target_result byId _ = None"

fun target_summary :: "(string \<times> entry) list \<Rightarrow> operation_intent \<Rightarrow> bool option" where
  "target_summary byId (I_navigation _ _ _ _ (Some i)) =
     (if i = '''' then None else Some (map_of byId i \<noteq> None))"
| "target_summary byId _ = None"

text \<open>The state of the open operation, from its own records.\<close>

definition reduce_operation ::
  "lane_reduction_input \<Rightarrow> operation_started \<Rightarrow> operation_state" where
  "reduce_operation input started =
     (let recs = sort_key rec_seq (rl_records input);
          ownEntries = sort_key ent_seq (li_ownEntries input);
          byId = known_entries input;
          pend = pending_queue byId recs;
          own = operation_records started recs;
          aborting = list_ex (\<lambda>r. rec_type r = RT_abort_requested) own;
          deferredWriteIds = ent_id ` set (deferred_targets own)
      in \<lparr>op_id = os_id started, op_kind = intent_kind (os_intent started),
          op_intent = os_intent started, op_aborting = aborting,
          op_step = current_step byId own,
          op_toolBatch = deriveToolBatch (os_id started) own ownEntries byId deferredWriteIds,
          op_missingInitialMessages = filter (absent byId) (initial_messages (os_intent started)),
          op_pendingSteer = (if aborting then [] else queue_targets Q_steer (os_id started) pend),
          op_pendingFollowUp = (if aborting then [] else queue_targets Q_followUp (os_id started) pend),
          op_pendingWrites = filter (absent byId) (deferred_targets own),
          op_deferred = own_deferred (last_option ownEntries),
          op_overflowRecoveryUsed = overflow_used (newest_consumed byId (consumed_ids started own)) own,
          op_newestOwn = deriveNewestOwn (last_option ownEntries),
          op_targetResult = target_result byId (os_intent started),
          op_targetSummary = target_summary byId (os_intent started)\<rparr>)"

definition reduce_failure ::
  "lane_reduction_input \<Rightarrow> operation_started \<Rightarrow> terminal_failure option" where
  "reduce_failure input started =
     (let own = operation_records started (sort_key rec_seq (rl_records input))
      in terminal_failure_of own (sort_key ent_seq (li_ownEntries input))
           (ent_id ` set (deferred_targets own)))"

definition reduceLaneState ::
  "deep_equal \<Rightarrow> lane_reduction_input \<Rightarrow> record_log_corruption + lane_reduction_result" where
  "reduceLaneState deepEq input =
     andThen (validateRecordLog deepEq input) (\<lambda>_.
     let recs = sort_key rec_seq (rl_records input);
         pend = pending_queue (known_entries input) recs;
         started = (case rl_openOperations input of [] \<Rightarrow> None | s # _ \<Rightarrow> Some s);
         captured = (case started of None \<Rightarrow> [] | Some s \<Rightarrow> initial_messages (os_intent s))
     in Inr \<lparr>lr_laneState =
               \<lparr>ln_lane = rl_lane input, ln_leafId = li_leafId input,
                ln_operation = map_option (reduce_operation input) started,
                ln_pendingNextRun = pending_next_run captured pend\<rparr>,
             lr_effectiveConfiguration = deriveEffectiveConfiguration input,
             lr_terminalFailure = Option.bind started (reduce_failure input)\<rparr>)"

end
