(* ===== verification/Reducer_Properties.thy ===== *)
theory Reducer_Properties
  imports Reducer Session_Properties
begin

text \<open>
  The properties of log validation and of lane recovery. The demo log is one run with one prompt, an
  assistant attempt, the assistant entry with one tool call, and that call's start.
\<close>

section \<open>Lemmas on the derived lists\<close>

lemma map_filter_Cons_simps [simp]:
  "List.map_filter f [] = []"
  "List.map_filter f (x # xs) = (case f x of None \<Rightarrow> List.map_filter f xs | Some y \<Rightarrow> y # List.map_filter f xs)"
  by (simp_all add: List.map_filter_def split: option.splits)

lemma set_map_filter: "set (List.map_filter f xs) = {y. \<exists>x \<in> set xs. f x = Some y}"
  by (force simp: List.map_filter_def)

lemma pending_queue_absent:
  "(q, runId, target) \<in> set (pending_queue byId recs) \<Longrightarrow>
     absent byId target \<and> ent_id target \<notin> cancelled_ids recs"
proof -
  assume "(q, runId, target) \<in> set (pending_queue byId recs)"
  then obtain x :: lane_record where "(case rec_data x of
      R_queue_enqueued q runId target \<Rightarrow>
        if absent byId target \<and> ent_id target \<notin> cancelled_ids recs then Some (q, runId, target) else None
    | _ \<Rightarrow> None) = Some (q, runId, target)"
    unfolding pending_queue_def set_map_filter by blast
  then show ?thesis by (cases "rec_data x") (auto split: if_splits)
qed

lemma reduceLaneState_Inr:
  assumes "reduceLaneState deepEq input = Inr res"
  shows "validateRecordLog deepEq input = Inr () \<and>
    ln_operation (lr_laneState res) =
      map_option (reduce_operation input)
        (case rl_openOperations input of [] \<Rightarrow> None | s # _ \<Rightarrow> Some s) \<and>
    ln_pendingNextRun (lr_laneState res) =
      pending_next_run (case rl_openOperations input of [] \<Rightarrow> [] | s # _ \<Rightarrow> initial_messages (os_intent s))
        (pending_queue (known_entries input) (sort_key rec_seq (rl_records input))) \<and>
    lr_effectiveConfiguration res = deriveEffectiveConfiguration input \<and>
    lr_terminalFailure res =
      Option.bind (case rl_openOperations input of [] \<Rightarrow> None | s # _ \<Rightarrow> Some s) (reduce_failure input)"
  using assms by (auto simp: reduceLaneState_def andThen_eq_Inr Let_def split: list.splits)

text \<open>Every provisioned entry the recovered state still waits for.\<close>

definition awaited :: "lane_state \<Rightarrow> provisioned_entry list" where
  "awaited ln = ln_pendingNextRun ln @
     (case ln_operation ln of
        None \<Rightarrow> []
      | Some op \<Rightarrow> op_missingInitialMessages op @ op_pendingSteer op @ op_pendingFollowUp op
                    @ op_pendingWrites op)"

lemma awaited_absent:
  assumes "reduceLaneState deepEq input = Inr res" and "t \<in> set (awaited (lr_laneState res))"
  shows "absent (known_entries input) t"
  using assms(2) reduceLaneState_Inr [OF assms(1)]
  by (auto simp: awaited_def pending_next_run_def reduce_operation_def Let_def queue_targets_def
      split: list.splits if_splits dest: pending_queue_absent)

text \<open>Writing one more entry into the slice removes exactly its target from every pending list.\<close>

definition with_entry :: "entry \<Rightarrow> lane_reduction_input \<Rightarrow> lane_reduction_input" where
  "with_entry e input = input\<lparr>rl_entries := rl_entries input @ [e]\<rparr>"

lemma known_with_entry:
  "map_of (known_entries (with_entry e input)) i = None \<longleftrightarrow>
     map_of (known_entries input) i = None \<and> i \<noteq> ent_id e"
  by (auto simp: known_entries_def with_entry_def index_entries_None)

lemma absent_with_entry:
  "absent (known_entries (with_entry e input)) t \<longleftrightarrow>
     absent (known_entries input) t \<and> ent_id t \<noteq> ent_id e"
  by (simp add: absent_def known_with_entry)

lemma pending_queue_with_entry:
  "pending_queue (known_entries (with_entry e input)) recs =
     filter (\<lambda>(_, _, t). ent_id t \<noteq> ent_id e) (pending_queue (known_entries input) recs)"
proof -
  have "List.map_filter (\<lambda>r. case rec_data r of
        R_queue_enqueued q runId target \<Rightarrow>
          if absent (known_entries (with_entry e input)) target \<and> ent_id target \<notin> C
          then Some (q, runId, target) else None | _ \<Rightarrow> None) rs =
      filter (\<lambda>(_, _, t). ent_id t \<noteq> ent_id e) (List.map_filter (\<lambda>r. case rec_data r of
        R_queue_enqueued q runId target \<Rightarrow>
          if absent (known_entries input) target \<and> ent_id target \<notin> C
          then Some (q, runId, target) else None | _ \<Rightarrow> None) rs)" for rs C
    by (induction rs) (auto simp: absent_with_entry split: record_data.splits)
  then show ?thesis by (simp add: pending_queue_def)
qed

lemma queue_targets_filter:
  "queue_targets q run (filter (\<lambda>(_, _, t). P t) pend) = filter P (queue_targets q run pend)"
  by (induction pend) (auto simp: queue_targets_def)

lemma pending_next_run_filter:
  "pending_next_run captured (filter (\<lambda>(_, _, t). P t) pend) =
     filter P (pending_next_run captured pend)"
  by (induction pend) (auto simp: pending_next_run_def)

lemma filter_absent_with_entry:
  "filter (absent (known_entries (with_entry e input))) ts =
     filter (\<lambda>t. ent_id t \<noteq> ent_id e) (filter (absent (known_entries input)) ts)"
  by (induction ts) (auto simp: absent_with_entry)

lemma with_entry_sel [simp]:
  "rl_records (with_entry e input) = rl_records input"
  "rl_openOperations (with_entry e input) = rl_openOperations input"
  "li_ownEntries (with_entry e input) = li_ownEntries input"
  by (simp_all add: with_entry_def)

lemma awaited_with_entry:
  assumes "reduceLaneState deepEq input = Inr res"
    and "reduceLaneState deepEq (with_entry e input) = Inr res'"
  shows "awaited (lr_laneState res') =
    filter (\<lambda>t. ent_id t \<noteq> ent_id e) (awaited (lr_laneState res))"
  using reduceLaneState_Inr [OF assms(1)] reduceLaneState_Inr [OF assms(2)]
  by (cases "rl_openOperations input")
    (simp_all add: awaited_def reduce_operation_def Let_def pending_queue_with_entry
      queue_targets_filter pending_next_run_filter filter_absent_with_entry)

section \<open>A log to evaluate on\<close>

definition demo_call :: tool_call where
  "demo_call = \<lparr>tc_id = ''t1'', tc_name = ''read'', tc_arguments = JObject [],
                tc_thoughtSignature = None, tc_namespace = None\<rparr>"

definition demo_usage :: usage where
  "demo_usage = \<lparr>us_input = 1, us_output = 1, us_cacheRead = 0, us_cacheWrite = 0,
     us_cacheWrite1h = None, us_reasoning = None, us_totalTokens = 2,
     us_cost = \<lparr>uc_input = JInt 0, uc_output = JInt 0, uc_cacheRead = JInt 0,
                uc_cacheWrite = JInt 0, uc_total = JInt 0\<rparr>\<rparr>"

definition demo_assistant :: "stop_reason \<Rightarrow> content list \<Rightarrow> assistant_message" where
  "demo_assistant stop blocks =
     \<lparr>am_content = blocks, am_api = ''api'', am_provider = ''p'', am_model = ''m'',
      am_responseModel = None, am_responseId = None, am_diagnostics = None, am_usage = demo_usage,
      am_stopReason = stop, am_deferred = None, am_errorMessage = None, am_rawStopReason = None,
      am_endTurn = None, am_timestamp = 0\<rparr>"

definition demo_run :: operation_started where
  "demo_run = \<lparr>os_id = ''op'', os_lane = ''main'', os_sourceLeafId = None,
     os_intent = I_run [] [demo_new ''p1''] None None, os_seq = 1, os_timestamp = 0\<rparr>"

definition demo_record :: "string \<Rightarrow> nat \<Rightarrow> record_data \<Rightarrow> lane_record" where
  "demo_record i q d = \<lparr>rec_id = i, rec_lane = ''main'', rec_data = d, rec_seq = q, rec_timestamp = 0\<rparr>"

definition demo_attempt :: step_attempt where
  "demo_attempt = \<lparr>sa_runId = ''op'', sa_step = ST_assistant, sa_attempt = 1,
     sa_resultEntryId = ''a1'', sa_compactionReason = None\<rparr>"

definition demo_tool_start :: tool_started where
  "demo_tool_start = \<lparr>ts_runId = ''op'', ts_assistantEntryId = ''a1'', ts_toolIndex = 0,
     ts_toolCallId = ''t1'', ts_toolName = ''read'', ts_effectiveArgs = JObject [],
     ts_resultEntryId = ''r1'', ts_replay = R_safe\<rparr>"

definition demo_records :: "lane_record list" where
  "demo_records =
     [demo_record ''op'' 1 (R_operation_started None (I_run [] [demo_new ''p1''] None None)),
      demo_record ''at'' 3 (R_step_attempt demo_attempt),
      demo_record ''ts'' 5 (R_tool_started demo_tool_start),
      demo_record ''qs'' 6 (R_queue_enqueued Q_steer (Some ''op'') (demo_new ''s1''))]"

definition demo_assistant_entry :: entry where
  "demo_assistant_entry =
     \<lparr>ent_id = ''a1'', ent_data = E_message (AssistantMsg (demo_assistant SR_toolUse
        [ToolCallContent demo_call])) False, ent_parentId = None, ent_seq = 4, ent_timestamp = 0\<rparr>"

definition demo_defaults :: effective_lane_configuration where
  "demo_defaults = \<lparr>ec_model = \<lparr>sm_provider = ''d'', sm_modelId = ''d''\<rparr>, ec_thinkingLevel = ''off'',
                    ec_activeToolNames = []\<rparr>"

definition demo_input :: lane_reduction_input where
  "demo_input = \<lparr>rl_lane = ''main'', rl_openOperations = [demo_run], rl_records = demo_records,
     rl_entries = [demo_assistant_entry], li_leafId = Some ''a1'', li_ownEntries = [demo_assistant_entry],
     li_configurationEntries = [], li_defaults = demo_defaults\<rparr>"

lemmas demo_defs = demo_input_def demo_records_def demo_record_def demo_run_def demo_attempt_def
  demo_tool_start_def demo_assistant_entry_def demo_assistant_def demo_call_def demo_new_def
  demo_defaults_def

section \<open>What an accepted log satisfies\<close>

text \<open>The finishes the scan knows carry the sequence number of a scanned record.\<close>

lemma scan_finished_seq:
  assumes "foldR (validate_step deepEq byId) empty_scan rs = Inr sc"
    and "map_of (sc_finishedAt sc) run = Some q"
  shows "q \<in> rec_seq ` set rs"
proof -
  have "\<forall>run q. map_of (sc_finishedAt sc) run = Some q \<longrightarrow> q \<in> rec_seq ` set rs"
  proof (rule foldR_invariant [OF assms(1)])
    fix u r v
    assume "r \<in> set rs" "\<forall>run q. map_of (sc_finishedAt u) run = Some q \<longrightarrow> q \<in> rec_seq ` set rs"
      "validate_step deepEq byId u r = Inr v"
    then show "\<forall>run q. map_of (sc_finishedAt v) run = Some q \<longrightarrow> q \<in> rec_seq ` set rs"
      using check_record_finished [of deepEq byId u r v] validate_step_Inr
      by (cases "rec_data r") auto
  qed (simp add: empty_scan_def)
  with assms(2) show ?thesis by blast
qed

lemma sorted_split_seq:
  assumes "sort_key f xs = before @ r # after" and "distinct (map f xs)" and "y \<in> set before"
  shows "f y < (f r :: nat)"
proof -
  have "sorted (map f (before @ r # after))" "distinct (map f (before @ r # after))"
    using assms(1,2) by (metis sorted_sort_key, metis distinct_map distinct_sort set_sort)
  then have "f y \<le> f r" "f y \<noteq> f r"
    using assms(3) by (auto simp: sorted_append) (metis image_eqI)
  then show ?thesis by simp
qed

lemma log_causality:
  assumes "validateRecordLog deepEq input = Inr ()"
    and "sort_key rec_seq (rl_records input) = before @ r # after"
    and "distinct (map rec_seq (rl_records input))" and "rec_runId r = Some run"
  shows "(\<exists>s \<in> set before. rec_type s = RT_operation_started \<and> rec_id s = run) \<and>
    (\<forall>f \<in> set before. \<forall>oc err. rec_data f \<noteq> R_operation_finished run oc err)"
proof -
  obtain sc where "foldR (validate_step deepEq (index_entries (rl_entries input))) empty_scan
      (before @ r # after) = Inr sc"
    using assms(1,2) by (metis validateRecordLog_Inr)
  then obtain u where u: "foldR (validate_step deepEq (index_entries (rl_entries input))) empty_scan
      before = Inr u" and owner: "check_owner u r = Inr ()"
    by (auto simp: foldR_append andThen_eq_Inr dest: validate_step_Inr)
  note ok = validate_scan [OF u]
  have "map_of (sc_finishedAt u) run = None"
  proof (rule ccontr)
    assume "map_of (sc_finishedAt u) run \<noteq> None"
    then obtain q where q: "map_of (sc_finishedAt u) run = Some q" by auto
    then obtain f where "f \<in> set before" "rec_seq f = q"
      using scan_finished_seq [OF u] by auto
    with sorted_split_seq [OF assms(2,3)] have "q < rec_seq r" by auto
    with owner q assms(4) show False by (auto simp: check_owner_def split: if_splits)
  qed
  with ok have "\<forall>f \<in> set before. \<forall>oc err. rec_data f \<noteq> R_operation_finished run oc err"
    by (metis scan_ok_def)
  with ok owner assms(4) show ?thesis
    by (auto simp: scan_ok_def check_owner_def split: if_splits)
qed

text \<open>The tool starts of a log, and what the checks say of each.\<close>

definition tool_starts :: "lane_record list \<Rightarrow> tool_started list" where
  "tool_starts rs =
     List.map_filter (\<lambda>r. case rec_data r of R_tool_started t \<Rightarrow> Some t | _ \<Rightarrow> None) rs"

definition start_matches :: "(string \<times> entry) list \<Rightarrow> tool_started \<Rightarrow> bool" where
  "start_matches byId t \<longleftrightarrow>
     (\<exists>e a c. map_of byId (ts_assistantEntryId t) = Some e \<and> ent_assistant e = Some a \<and>
        array_get (toolCalls_of (am_content a)) (ts_toolIndex t) = Some c \<and>
        tc_id c = ts_toolCallId t \<and> tc_name c = ts_toolName t)"

lemma in_tool_starts: "t \<in> set (tool_starts rs) \<longleftrightarrow> (\<exists>r \<in> set rs. rec_data r = R_tool_started t)"
proof -
  have "(case d of R_tool_started t \<Rightarrow> Some t | _ \<Rightarrow> None) = Some t \<longleftrightarrow> d = R_tool_started t" for d t
    by (cases d) simp_all
  then show ?thesis by (simp add: tool_starts_def set_map_filter)
qed

lemma scan_invocations_eq: "scan_invocations rs = map invocation_key (tool_starts rs)"
  by (induction rs) (auto simp: scan_invocations_def tool_starts_def split: record_data.splits)

lemma validateToolStart_matches:
  "validateToolStart i t byId seen = Inr seen' \<Longrightarrow> start_matches byId t"
  by (auto simp: validateToolStart_def throws Let_def start_matches_def bind_eq_Some_conv
      split: if_splits option.splits)

lemma scan_starts_match:
  assumes "foldR (validate_step deepEq byId) empty_scan rs = Inr sc" and "t \<in> set (tool_starts rs)"
  shows "start_matches byId t"
proof -
  obtain r where r: "r \<in> set rs" "rec_data r = R_tool_started t"
    using assms(2) by (auto simp: in_tool_starts)
  then obtain before after where "rs = before @ r # after" by (auto dest: split_list)
  with assms(1) obtain u v where "check_record deepEq byId u r = Inr v"
    by (auto simp: foldR_append andThen_eq_Inr dest: validate_step_Inr)
  with r(2) show ?thesis
    by (auto simp: check_record_def throws dest: validateToolStart_matches)
qed

lemma mset_map_filter: "mset xs = mset ys \<Longrightarrow> mset (List.map_filter f xs) = mset (List.map_filter f ys)"
  by (simp only: List.map_filter_def mset_map mset_filter)

lemma mset_tool_starts: "mset rs = mset rs' \<Longrightarrow> mset (tool_starts rs) = mset (tool_starts rs')"
  unfolding tool_starts_def by (rule mset_map_filter)

lemma accepted_starts:
  assumes "validateRecordLog deepEq input = Inr ()"
  shows "distinct (map (\<lambda>t. (ts_assistantEntryId t, ts_toolIndex t)) (tool_starts (rl_records input)))"
    and "\<And>t. t \<in> set (tool_starts (rl_records input)) \<Longrightarrow>
      start_matches (index_entries (rl_entries input)) t"
proof -
  let ?sorted = "sort_key rec_seq (rl_records input)"
  obtain sc where sc: "foldR (validate_step deepEq (index_entries (rl_entries input))) empty_scan
      ?sorted = Inr sc"
    using assms by (metis validateRecordLog_Inr)
  have ms: "mset (tool_starts ?sorted) = mset (tool_starts (rl_records input))"
    by (rule mset_tool_starts) simp
  have "distinct (map invocation_key (tool_starts ?sorted))"
    using validate_scan [OF sc] by (simp add: scan_ok_def scan_invocations_eq)
  then have "distinct (map (\<lambda>t. (ts_assistantEntryId t, ts_toolIndex t)) (tool_starts ?sorted))"
    by (auto simp: distinct_map inj_on_def invocation_key_def)
  then show "distinct (map (\<lambda>t. (ts_assistantEntryId t, ts_toolIndex t)) (tool_starts (rl_records input)))"
    using ms by (metis mset_map mset_eq_imp_distinct_iff)
  show "start_matches (index_entries (rl_entries input)) t"
    if "t \<in> set (tool_starts (rl_records input))" for t
    using scan_starts_match [OF sc] that ms by (metis mset_eq_setD)
qed

section \<open>Attempts\<close>

text \<open>How an attempt may follow the previous attempt of its operation.\<close>

definition attempt_follows :: "step_attempt \<Rightarrow> step_attempt \<Rightarrow> bool" where
  "attempt_follows p sa \<longleftrightarrow>
     sa_attempt sa = 1 \<or>
     sa_attempt sa = sa_attempt p + 1 \<and> sa_step sa = sa_step p \<and>
     (sa_step sa \<noteq> ST_assistant \<longrightarrow>
        sa_resultEntryId sa = sa_resultEntryId p \<and> sa_compactionReason sa = sa_compactionReason p)"

definition run_attempts :: "string \<Rightarrow> lane_record list \<Rightarrow> step_attempt list" where
  "run_attempts run rs = filter (\<lambda>sa. sa_runId sa = run) (attempts rs)"

lemma run_attempts_simps [simp]:
  "run_attempts run [] = []"
  "run_attempts run (rs @ [r]) = run_attempts run rs @
     (case rec_data r of R_step_attempt sa \<Rightarrow> if sa_runId sa = run then [sa] else [] | _ \<Rightarrow> [])"
  by (simp_all add: run_attempts_def attempts_def List.map_filter_def split: record_data.splits)

lemma length_run_attempts_sort:
  "length (run_attempts run (sort_key f rs)) = length (run_attempts run rs)"
proof (rule mset_eq_length)
  show "mset (run_attempts run (sort_key f rs)) = mset (run_attempts run rs)"
    unfolding run_attempts_def attempts_def mset_filter
    by (intro arg_cong [of _ _ "filter_mset _"] mset_map_filter) simp
qed

definition series_ok :: "step_attempt list \<Rightarrow> bool" where
  "series_ok as \<longleftrightarrow> (as \<noteq> [] \<longrightarrow> sa_attempt (hd as) = 1) \<and> successively attempt_follows as"

lemma series_ok_snoc:
  "series_ok (as @ [sa]) \<longleftrightarrow> series_ok as \<and>
     (case last_option as of None \<Rightarrow> sa_attempt sa = 1 | Some p \<Rightarrow> attempt_follows p sa)"
  by (auto simp: series_ok_def successively_append_iff last_option_def hd_append)

lemma validateAttemptSequence_Inr:
  "validateAttemptSequence i q sa previous byId = Inr () \<Longrightarrow>
     case previous of None \<Rightarrow> sa_attempt sa = 1 | Some p \<Rightarrow> attempt_follows p sa"
  by (auto simp: validateAttemptSequence_def continuesSeries_def Let_def attempt_follows_def
      split: option.splits if_splits)

lemma check_record_latest:
  "check_record deepEq byId sc r = Inr sc' \<Longrightarrow>
     sc_latestAttempt sc' = (case rec_data r of
         R_step_attempt sa \<Rightarrow> AList.update (sa_runId sa) sa (sc_latestAttempt sc)
       | _ \<Rightarrow> sc_latestAttempt sc)"
  by (cases "rec_data r") (auto simp: check_record_def throws split: if_splits)

lemma check_record_attempt:
  "check_record deepEq byId sc r = Inr sc' \<Longrightarrow> rec_data r = R_step_attempt sa \<Longrightarrow>
     case map_of (sc_latestAttempt sc) (sa_runId sa) of
       None \<Rightarrow> sa_attempt sa = 1 | Some p \<Rightarrow> attempt_follows p sa"
  by (rule validateAttemptSequence_Inr [of "rec_id r" "rec_seq r" sa _ byId])
    (auto simp: check_record_def throws)

lemma scan_attempts:
  "foldR (validate_step deepEq byId) empty_scan rs = Inr sc \<Longrightarrow>
     map_of (sc_latestAttempt sc) run = last_option (run_attempts run rs) \<and>
     series_ok (run_attempts run rs)"
proof (induction rs arbitrary: sc rule: rev_induct)
  case Nil
  then show ?case by (auto simp: empty_scan_def series_ok_def)
next
  case (snoc r rs)
  then obtain u where u: "foldR (validate_step deepEq byId) empty_scan rs = Inr u"
      "check_record deepEq byId u r = Inr sc"
    by (auto simp: foldR_append andThen_eq_Inr dest: validate_step_Inr)
  note IH = snoc.IH [OF u(1)] and latest = check_record_latest [OF u(2)]
  show ?case
  proof (cases "\<exists>sa. rec_data r = R_step_attempt sa \<and> sa_runId sa = run")
    case True
    then obtain sa where sa: "rec_data r = R_step_attempt sa" "sa_runId sa = run" by blast
    with IH check_record_attempt [OF u(2) sa(1)] latest show ?thesis
      by (simp add: series_ok_snoc)
  next
    case False
    then show ?thesis using IH latest by (cases "rec_data r") auto
  qed
qed

section \<open>The error of two open operations\<close>

lemma check_reason:
  "validate_step deepEq byId sc r = Inl e \<Longrightarrow> reason e \<noteq> C_multiple_open_operations"
proof -
  have exact: "validateExactProvisionedEntry deepEq byId t = Inl e \<Longrightarrow>
      reason e \<noteq> C_multiple_open_operations" for t e
    by (auto simp: validateExactProvisionedEntry_def split: option.splits if_splits)
  have res: "validateResultEntry byId i m d = Inl e \<Longrightarrow> reason e \<noteq> C_multiple_open_operations" for i m d e
    by (auto simp: validateResultEntry_def split: option.splits if_splits)
  have targets: "foldR (\<lambda>_. validateExactProvisionedEntry deepEq byId) () ts = Inl e \<Longrightarrow>
      reason e \<noteq> C_multiple_open_operations" for ts e
    by (induction ts) (auto simp: andThen_eq_Inl dest: exact)
  have intent: "validateOperationResult deepEq byId it = Inl e \<Longrightarrow>
      reason e \<noteq> C_multiple_open_operations" for it e
    by (cases it) (auto simp: validateOperationResult_def dest: targets res split: option.splits if_splits)
  have attempt: "validateAttemptReason i sa = Inl e \<Longrightarrow> reason e \<noteq> C_multiple_open_operations"
    "validateAttemptSequence i q sa p byId = Inl e \<Longrightarrow> reason e \<noteq> C_multiple_open_operations"
    "validateAttemptResult byId sa = Inl e \<Longrightarrow> reason e \<noteq> C_multiple_open_operations" for i sa q p e
    by (auto simp: validateAttemptReason_def validateAttemptSequence_def validateAttemptResult_def
        Let_def dest: res split: option.splits if_splits step_kind.splits)
  have tool: "validateToolStart i t byId seen = Inl e \<Longrightarrow> reason e \<noteq> C_multiple_open_operations" for i t seen e
    by (auto simp: validateToolStart_def Let_def throws dest: res split: option.splits if_splits)
  have owner: "check_owner sc r = Inl e \<Longrightarrow> reason e \<noteq> C_multiple_open_operations" for e
    by (auto simp: check_owner_def split: option.splits if_splits)
  assume "validate_step deepEq byId sc r = Inl e"
  then consider "check_owner sc r = Inl e" | "check_record deepEq byId sc r = Inl e"
    by (auto simp: validate_step_def andThen_eq_Inl)
  then show ?thesis
    by cases (use owner in blast, cases "rec_data r",
      auto simp: check_record_def throws dest: exact intent attempt tool split: if_splits)
qed

lemma multiple_open_operations_iff:
  "(\<exists>e. validateRecordLog deepEq input = Inl e \<and> reason e = C_multiple_open_operations) \<longleftrightarrow>
     length (rl_openOperations input) > 1"
proof -
  have steps: "foldR (validate_step deepEq byId) sc rs = Inl e \<Longrightarrow>
      reason e \<noteq> C_multiple_open_operations" for byId sc rs e
    by (induction rs arbitrary: sc) (auto simp: andThen_eq_Inl dest: check_reason)
  have handles: "validateDeferredHandles es = Inl e \<Longrightarrow> reason e \<noteq> C_multiple_open_operations" for es e
    unfolding validateDeferredHandles_def
    by (induction es) (auto simp: andThen_eq_Inl split: if_splits)
  show ?thesis
    by (auto simp: validateRecordLog_def andThen_eq_Inl Let_def dest: steps handles split: if_splits)
qed

section \<open>Attempts and steps of the open operation\<close>

lemma operation_attempts: "attempts (operation_records started rs) = run_attempts (os_id started) rs"
proof (induction rs)
  case Nil
  then show ?case by (simp add: operation_records_def attempts_def run_attempts_def)
next
  case (Cons r rs)
  then show ?case
    by (cases "rec_data r")
      (simp_all add: operation_records_def attempts_def run_attempts_def rec_type_def rec_runId_def)
qed

lemma series_bounds: "series_ok as \<Longrightarrow> as \<noteq> [] \<Longrightarrow> 1 \<le> sa_attempt (last as) \<and> sa_attempt (last as) \<le> int (length as)"
proof (induction as rule: rev_induct)
  case (snoc sa as)
  note prems = snoc.prems(1) [unfolded series_ok_snoc]
  show ?case
  proof (cases "as = []")
    case False
    with prems snoc.IH show ?thesis by (auto simp: attempt_follows_def last_option_def)
  qed (use prems in simp)
qed simp

lemma current_step_Some:
  assumes "current_step byId (operation_records started rs) = Some ss"
  shows "\<exists>sa. last_option (run_attempts (os_id started) rs) = Some sa \<and>
    map_of byId (ss_resultEntryId ss) = None \<and> ss_resultEntryId ss = sa_resultEntryId sa \<and>
    ss_kind ss = sa_step sa \<and> ss_attempts ss = sa_attempt sa"
  using assms by (auto simp: current_step_def operation_attempts split: option.splits if_splits)

section \<open>The tool batch\<close>

lemma toolCalls_of_Nil_iff: "toolCalls_of cs = [] \<longleftrightarrow> \<not> list_ex is_toolCall cs"
  by (induction cs rule: toolCalls_of.induct) simp_all

lemma find_rev_split:
  "List.find P (rev xs) = Some e \<Longrightarrow>
     \<exists>older newer. xs = older @ e # newer \<and> P e \<and> (\<forall>x \<in> set newer. \<not> P x)"
proof (induction xs rule: rev_induct)
  case (snoc x xs)
  show ?case
  proof (cases "P x")
    case True
    with snoc.prems show ?thesis by (intro exI [of _ xs] exI [of _ "[]"]) simp
  next
    case False
    with snoc obtain older newer where "xs = older @ e # newer" "P e" "\<forall>x \<in> set newer. \<not> P x"
      by auto
    with False show ?thesis by (intro exI [of _ older] exI [of _ "newer @ [x]"]) simp
  qed
qed simp

lemma batch_starts_Some:
  "map_of (batch_starts opId rs aId) i = Some (r, t) \<Longrightarrow>
     r \<in> set rs \<and> rec_data r = R_tool_started t \<and> ts_runId t = opId \<and>
     ts_assistantEntryId t = aId \<and> ts_toolIndex t = i"
  unfolding batch_starts_def
proof (induction rs rule: rev_induct)
  case (snoc x rs)
  then show ?case by (cases "rec_data x") (auto split: if_splits)
qed simp

lemma call_state_sel [simp]:
  "tcs_toolIndex (call_state starts own byId dw q (i, c)) = i"
  "tcs_toolCall (call_state starts own byId dw q (i, c)) = c"
  "tcs_started (call_state starts own byId dw q (i, c)) = map_option fst (map_of starts (int i))"
  by (simp_all add: call_state_def Let_def)

lemma call_state_result:
  "tcs_resultExists (call_state starts own byId dw q (i, c)) \<longleftrightarrow>
     (\<exists>r t. map_of starts (int i) = Some (r, t) \<and> map_of byId (ts_resultEntryId t) \<noteq> None) \<or>
     blocked_result own dw q (tc_id c) \<noteq> None"
  by (cases "map_of starts (int i)") (auto simp: call_state_def Let_def split: option.splits)

lemma call_states_eq:
  "map tcs_toolCall (map (call_state st own byId dw q) (enumerate n cs)) = cs"
  "map tcs_toolIndex (map (call_state st own byId dw q) (enumerate n cs)) = [n..<n + length cs]"
  by (induction cs arbitrary: n) (simp_all add: upt_rec)

section \<open>The effective configuration\<close>

lemma configure_eq:
  "configure c e =
     c\<lparr>ec_model := (case entry_model (ent_data e) of None \<Rightarrow> ec_model c | Some m \<Rightarrow> m),
       ec_thinkingLevel := (case entry_level (ent_data e) of None \<Rightarrow> ec_thinkingLevel c | Some l \<Rightarrow> l),
       ec_activeToolNames := (case entry_tools (ent_data e) of None \<Rightarrow> ec_activeToolNames c
                                                            | Some t \<Rightarrow> t)\<rparr>"
  by (cases "ent_data e" rule: entry_model.cases)
    (simp_all add: configure_def ent_assistant_def)

lemma foldl_configure:
  "foldl configure c es =
     \<lparr>ec_model = last_setting (ec_model c) (entry_model \<circ> ent_data) es,
      ec_thinkingLevel = last_setting (ec_thinkingLevel c) (entry_level \<circ> ent_data) es,
      ec_activeToolNames = last_setting (ec_activeToolNames c) (entry_tools \<circ> ent_data) es\<rparr>"
proof (induction es rule: rev_induct)
  case (snoc e es)
  then show ?case by (simp add: configure_eq split: option.splits)
qed simp

lemma index_entries_distinct: "distinct (map ent_id es) \<Longrightarrow> map snd (index_entries es) = es"
proof (induction es rule: rev_induct)
  case Nil
  then show ?case by (simp add: index_entries_def)
next
  case (snoc e es)
  then have "map_of (index_entries es) (ent_id e) = None" by (auto simp: index_entries_None)
  moreover have "index_entries (es @ [e]) = AList.update (ent_id e) e (index_entries es)"
    by (simp add: index_entries_def)
  ultimately show ?case using snoc by (simp add: update_fresh)
qed

lemma sort_key_sorted: "sorted (map f xs) \<Longrightarrow> sort_key f xs = xs"
  by (rule sort_key_id_if_sorted)

end
