(* ===== verification/Recovery.thy ===== *)
theory Recovery
  imports Reducer_Properties
begin

text \<open>
  The properties of log validation and of lane recovery, each with a witness on the demo log: one run
  with one prompt, an assistant attempt, the assistant entry with one tool call, and that call's start.
\<close>

lemma demo_known:
  "map_of (known_entries demo_input) = [''a1'' \<mapsto> demo_assistant_entry]"
  by (simp add: known_entries_def index_entries_def demo_defs)

lemma demo_sorted: "sort_key rec_seq demo_records = demo_records"
  by (simp add: demo_records_def demo_record_def)

lemma demo_accepted: "validateRecordLog (=) demo_input = Inr ()"
  by code_simp

lemma demo_reduced:
  obtains res where "reduceLaneState (=) demo_input = Inr res"
    "map ent_id (awaited (lr_laneState res)) = [''p1'', ''s1'']"
proof -
  have "case reduceLaneState (=) demo_input of Inl e \<Rightarrow> False
    | Inr res \<Rightarrow> map ent_id (awaited (lr_laneState res)) = [''p1'', ''s1'']"
    by code_simp
  then show ?thesis using that by (auto split: sum.splits)
qed

section \<open>Accepted logs\<close>

text \<open>C19. In a log that validation accepts, a record that names an operation comes after the start of
  that operation and never after its finish.\<close>

theorem accepted_log_causality:
  assumes "validateRecordLog deepEq input = Inr ()"
    and "distinct (map rec_seq (rl_records input))"
    and "sort_key rec_seq (rl_records input) = before @ r # after"
    and "rec_runId r = Some run"
  shows "(\<exists>s \<in> set before. rec_type s = RT_operation_started \<and> rec_id s = run) \<and>
    (\<forall>f \<in> set before. \<forall>oc err. rec_data f \<noteq> R_operation_finished run oc err)"
  using log_causality [OF assms(1,3,2,4)] .

theorem accepted_log_causality_witness:
  "\<exists>s \<in> set (take 2 demo_records). rec_type s = RT_operation_started \<and> rec_id s = ''op''"
proof -
  have "sort_key rec_seq (rl_records demo_input) =
      take 2 demo_records @ demo_records ! 2 # drop 3 demo_records"
    and "distinct (map rec_seq (rl_records demo_input))"
    and "rec_runId (demo_records ! 2) = Some ''op''"
    by (simp_all add: demo_defs rec_runId_def numeral_eq_Suc)
  from accepted_log_causality [OF demo_accepted this(2,1,3)] show ?thesis by simp
qed

text \<open>In a log that validation accepts no tool invocation, an assistant entry with a tool index,
  starts twice, and every start names a call of its assistant entry: the call at that index, with the
  same id and tool name.\<close>

theorem accepted_tool_starts:
  assumes "validateRecordLog deepEq input = Inr ()"
  shows "distinct (map (\<lambda>t. (ts_assistantEntryId t, ts_toolIndex t)) (tool_starts (rl_records input))) \<and>
    list_all (start_matches (index_entries (rl_entries input))) (tool_starts (rl_records input))"
  using accepted_starts [OF assms] by (simp add: list_all_iff)

theorem accepted_tool_starts_witness:
  "start_matches (index_entries (rl_entries demo_input)) demo_tool_start"
  using accepted_tool_starts [OF demo_accepted]
  by (auto simp: list_all_iff in_tool_starts demo_input_def demo_records_def demo_record_def)

text \<open>In a log that validation accepts the attempts of an operation are numbered in series: the
  first is 1, and each later one starts again at 1 or is one more than the attempt before it, of the
  same step and, unless it is an assistant step, with the same result entry and compaction reason.\<close>

theorem accepted_attempt_series:
  assumes "validateRecordLog deepEq input = Inr ()"
    and "as = run_attempts run (sort_key rec_seq (rl_records input))"
  shows "(as = [] \<or> sa_attempt (hd as) = 1) \<and> successively attempt_follows as"
proof -
  obtain sc where "foldR (validate_step deepEq (index_entries (rl_entries input))) empty_scan
      (sort_key rec_seq (rl_records input)) = Inr sc"
    using assms(1) by (metis validateRecordLog_Inr)
  from scan_attempts [OF this] assms(2) show ?thesis by (auto simp: series_ok_def)
qed

theorem accepted_attempt_series_witness:
  "run_attempts ''op'' (sort_key rec_seq (rl_records demo_input)) = [demo_attempt] \<and>
   sa_attempt demo_attempt = 1"
  using accepted_attempt_series [OF demo_accepted refl, of "''op''"]
  by (simp add: run_attempts_def attempts_def demo_input_def demo_sorted)
    (simp add: demo_records_def demo_record_def demo_attempt_def)

text \<open>The storage and the recovery agree on single operations: whatever operations ran on an
  in-memory storage, a slice filled from its query for open operations, with limit two, is never
  rejected for having two of them.\<close>

theorem stored_lane_has_one_operation:
  assumes "mem.stored st"
    and "findOpenOperations (ms_state st) (rl_lane input) (Some (JInt 2)) = Inr (rl_openOperations input)"
    and "validateRecordLog deepEq input = Inl e"
  shows "reason e \<noteq> C_multiple_open_operations"
proof -
  have "length (rl_openOperations input) \<le> 1"
    using mem.open_operations_at_most_one [OF assms(1), of "Some (JInt 2)" "rl_lane input"] assms(2)
    by (auto simp: valid_limit_def)
  then show ?thesis using multiple_open_operations_iff [of deepEq input] assms(3) by auto
qed

theorem stored_lane_has_one_operation_witness:
  "\<exists>e. validateRecordLog (=) \<lparr>rl_lane = ''main'', rl_openOperations = [],
      rl_records = [demo_record ''at'' 3 (R_step_attempt demo_attempt)], rl_entries = []\<rparr> = Inl e \<and>
    reason e \<noteq> C_multiple_open_operations"
proof -
  let ?input = "\<lparr>rl_lane = ''main'', rl_openOperations = [],
      rl_records = [demo_record ''at'' 3 (R_step_attempt demo_attempt)], rl_entries = []\<rparr> :: record_log_slice"
  have "\<exists>e. validateRecordLog (=) ?input = Inl e"
    by (simp add: validateRecordLog_def validateDeferredHandles_def index_entries_def validate_step_def
        check_owner_def rec_runId_def demo_record_def demo_attempt_def empty_scan_def corrupt_def)
  then obtain e where e: "validateRecordLog (=) ?input = Inl e" ..
  have "findOpenOperations (ms_state (new_storage demo_metadata)) (rl_lane ?input) (Some (JInt 2)) =
      Inr (rl_openOperations ?input)"
    by (simp add: new_storage_def initial_state_def findOpenOperations_def assertValidLimit_def)
  from stored_lane_has_one_operation [OF mem.stored_start [OF start_new] this e] e show ?thesis by blast
qed

section \<open>Recovered states\<close>

text \<open>Validation and recovery depend on the records of the log, not on the order in which the
  storage returned them, since every record of a lane has its own sequence number.\<close>

theorem recovery_ignores_record_order:
  assumes "mset rs = mset (rl_records input)" and "distinct (map rec_seq rs)"
  shows "validateRecordLog deepEq (input\<lparr>rl_records := rs\<rparr>) = validateRecordLog deepEq input \<and>
    reduceLaneState deepEq (input\<lparr>rl_records := rs\<rparr>) = reduceLaneState deepEq input"
proof -
  have sorted: "sort_key rec_seq rs = sort_key rec_seq (rl_records input)"
    using sort_key_perm_eq [OF assms] .
  then have "validateRecordLog deepEq (input\<lparr>rl_records := rs\<rparr>) = validateRecordLog deepEq input"
    by (simp add: validateRecordLog_def)
  moreover have "reduce_operation (input\<lparr>rl_records := rs\<rparr>) = reduce_operation input"
    "reduce_failure (input\<lparr>rl_records := rs\<rparr>) = reduce_failure input"
    "known_entries (input\<lparr>rl_records := rs\<rparr>) = known_entries input"
    "deriveEffectiveConfiguration (input\<lparr>rl_records := rs\<rparr>) = deriveEffectiveConfiguration input"
    using sorted by (simp_all add: reduce_operation_def reduce_failure_def known_entries_def
        deriveEffectiveConfiguration_def fun_eq_iff)
  ultimately show ?thesis using sorted by (simp add: reduceLaneState_def)
qed

theorem recovery_ignores_record_order_witness:
  "reduceLaneState (=) (demo_input\<lparr>rl_records := rev demo_records\<rparr>) = reduceLaneState (=) demo_input"
  using recovery_ignores_record_order [of "rev demo_records" demo_input "(=)"]
  by (simp add: demo_defs)

text \<open>Every entry the recovered state waits for is missing: it is neither among the slice's
  entries nor among the operation's own. After an abort request nothing is left to steer or to
  follow up with.\<close>

theorem awaited_entries_missing:
  assumes "reduceLaneState deepEq input = Inr res"
  shows "list_all (\<lambda>t. ent_id t \<notin> ent_id ` set (rl_entries input @ li_ownEntries input))
      (awaited (lr_laneState res)) \<and>
    (case ln_operation (lr_laneState res) of
       None \<Rightarrow> rl_openOperations input = []
     | Some op \<Rightarrow> op_aborting op \<longrightarrow> op_pendingSteer op = [] \<and> op_pendingFollowUp op = [])"
  using awaited_absent [OF assms] reduceLaneState_Inr [OF assms]
  by (auto simp: list_all_iff absent_def known_entries_def index_entries_None reduce_operation_def
      Let_def split: list.splits option.splits)

theorem awaited_entries_missing_witness:
  "\<exists>res. reduceLaneState (=) demo_input = Inr res \<and>
     map ent_id (awaited (lr_laneState res)) = [''p1'', ''s1''] \<and>
     list_all (\<lambda>t. ent_id t \<notin> {''a1''}) (awaited (lr_laneState res))"
proof -
  obtain res where res: "reduceLaneState (=) demo_input = Inr res"
    "map ent_id (awaited (lr_laneState res)) = [''p1'', ''s1'']" by (rule demo_reduced)
  from awaited_entries_missing [OF res(1)] res show ?thesis
    by (auto simp: list_all_iff demo_defs)
qed

text \<open>Recovery is resumable: writing one of the awaited entries and recovering again gives the
  same awaited entries in the same order, less the one that was written.\<close>

theorem writing_resumes_recovery:
  assumes "reduceLaneState deepEq input = Inr res"
    and "reduceLaneState deepEq (with_entry e input) = Inr res'"
  shows "awaited (lr_laneState res') =
    filter (\<lambda>t. ent_id t \<noteq> ent_id e) (awaited (lr_laneState res))"
  using awaited_with_entry [OF assms] .

theorem writing_resumes_recovery_witness:
  "\<exists>res. reduceLaneState (=) (with_entry (demo_entry ''p1'' None 2) demo_input) = Inr res \<and>
     map ent_id (awaited (lr_laneState res)) = [''s1'']"
proof -
  have "case reduceLaneState (=) (with_entry (demo_entry ''p1'' None 2) demo_input) of
      Inl e \<Rightarrow> False | Inr res \<Rightarrow> True"
    by code_simp
  then obtain res' where res': "reduceLaneState (=) (with_entry (demo_entry ''p1'' None 2) demo_input) = Inr res'"
    by (auto split: sum.splits)
  obtain res where res: "reduceLaneState (=) demo_input = Inr res"
    "map ent_id (awaited (lr_laneState res)) = [''p1'', ''s1'']" by (rule demo_reduced)
  have "map ent_id (filter (\<lambda>t. ent_id t \<noteq> ''p1'') (awaited (lr_laneState res))) =
      filter (\<lambda>i. i \<noteq> ''p1'') (map ent_id (awaited (lr_laneState res)))"
    by (simp add: filter_map comp_def)
  with res(2) res' writing_resumes_recovery [OF res(1) res'] show ?thesis by simp
qed

text \<open>A recovered step is unfinished: its result entry is missing, it is the last attempt recorded
  for the operation, and its attempt number lies between 1 and the number of attempts recorded.\<close>

theorem recovered_step:
  assumes "reduceLaneState deepEq input = Inr res" and "ln_operation (lr_laneState res) = Some op"
    and "op_step op = Some ss"
  shows "ss_resultEntryId ss \<notin> ent_id ` set (rl_entries input @ li_ownEntries input) \<and>
    1 \<le> ss_attempts ss \<and>
    ss_attempts ss \<le> int (length (run_attempts (op_id op) (rl_records input))) \<and>
    (\<exists>sa. last_option (run_attempts (op_id op) (sort_key rec_seq (rl_records input))) = Some sa \<and>
       ss_kind ss = sa_step sa \<and> ss_attempts ss = sa_attempt sa \<and>
       ss_resultEntryId ss = sa_resultEntryId sa)"
proof -
  let ?recs = "sort_key rec_seq (rl_records input)"
  note red = reduceLaneState_Inr [OF assms(1)]
  then obtain started where op: "op = reduce_operation input started"
    using assms(2) by (auto split: list.splits)
  have id: "op_id op = os_id started"
    and "current_step (known_entries input) (operation_records started ?recs) = Some ss"
    using op assms(3) by (simp_all add: reduce_operation_def Let_def)
  from current_step_Some [OF this(2)] obtain sa where
    sa: "last_option (run_attempts (os_id started) ?recs) = Some sa"
      "map_of (known_entries input) (ss_resultEntryId ss) = None"
      "ss_resultEntryId ss = sa_resultEntryId sa" "ss_kind ss = sa_step sa" "ss_attempts ss = sa_attempt sa"
    by blast
  obtain sc where "foldR (validate_step deepEq (index_entries (rl_entries input))) empty_scan
      ?recs = Inr sc"
    using red by (metis validateRecordLog_Inr)
  then have "series_ok (run_attempts (os_id started) ?recs)"
    using scan_attempts by blast
  from series_bounds [OF this] sa(1) have
    "1 \<le> sa_attempt sa \<and> sa_attempt sa \<le> int (length (run_attempts (os_id started) ?recs))"
    by (auto simp: last_option_def split: if_splits)
  then show ?thesis using sa id
    by (auto simp: known_entries_def index_entries_None length_run_attempts_sort)
qed

theorem recovered_step_witness:
  "\<exists>res op ss. reduceLaneState (=) (demo_input\<lparr>li_ownEntries := [], rl_entries := [], rl_records := take 2 demo_records\<rparr>) = Inr res \<and>
     ln_operation (lr_laneState res) = Some op \<and> op_step op = Some ss \<and> ss_attempts ss = 1"
proof -
  let ?input = "demo_input\<lparr>li_ownEntries := [], rl_entries := [], rl_records := take 2 demo_records\<rparr>"
  have "case reduceLaneState (=) ?input of Inl e \<Rightarrow> False
    | Inr res \<Rightarrow> map_option op_id (ln_operation (lr_laneState res)) = Some ''op'' \<and>
        map_option ss_resultEntryId (Option.bind (ln_operation (lr_laneState res)) op_step) = Some ''a1''"
    by code_simp
  then obtain res op ss where res: "reduceLaneState (=) ?input = Inr res"
      "ln_operation (lr_laneState res) = Some op" "op_step op = Some ss" "op_id op = ''op''"
    by (auto split: sum.splits simp: bind_eq_Some_conv)
  moreover have "length (run_attempts ''op'' (rl_records ?input)) = 1"
    by (simp add: run_attempts_def attempts_def demo_records_def demo_record_def demo_attempt_def)
  ultimately have "ss_attempts ss = 1"
    using recovered_step [OF res(1-3)] by auto
  with res show ?thesis by blast
qed

text \<open>The recovered tool batch is that of the operation's newest entry with tool calls: one item
  per call, in order and with its index; it is unresolved exactly when some call has no result yet,
  and a recorded start belongs to the item with its index. A call whose recorded result entry is
  known has a result.\<close>

theorem recovered_tool_batch:
  assumes "reduceLaneState deepEq input = Inr res" and "ln_operation (lr_laneState res) = Some op"
    and "op_toolBatch op = Some b"
  shows "\<exists>older e newer a. sort_key ent_seq (li_ownEntries input) = older @ e # newer \<and>
    (\<forall>x \<in> set newer. \<not> has_toolCall x) \<and> ent_assistant e = Some a \<and>
    tb_assistantEntryId b = ent_id e \<and> tb_calls b \<noteq> [] \<and>
    map tcs_toolCall (tb_calls b) = toolCalls_of (am_content a) \<and>
    map tcs_toolIndex (tb_calls b) = [0..<length (toolCalls_of (am_content a))] \<and>
    (tb_truncated b \<longleftrightarrow> am_stopReason a = SR_length) \<and>
    (tb_unresolved b \<longleftrightarrow> (\<exists>c \<in> set (tb_calls b). \<not> tcs_resultExists c)) \<and>
    (\<forall>c \<in> set (tb_calls b). \<forall>r. tcs_started c = Some r \<longrightarrow> r \<in> set (rl_records input) \<and>
       (\<exists>t. rec_data r = R_tool_started t \<and> ts_assistantEntryId t = ent_id e \<and>
          ts_toolIndex t = int (tcs_toolIndex c) \<and>
          (ts_resultEntryId t \<in> ent_id ` set (rl_entries input @ li_ownEntries input) \<longrightarrow>
             tcs_resultExists c)))"
proof -
  obtain started where op: "op = reduce_operation input started"
    using assms(2) reduceLaneState_Inr [OF assms(1)] by (auto split: list.splits)
  define own where "own = operation_records started (sort_key rec_seq (rl_records input))"
  define es where "es = sort_key ent_seq (li_ownEntries input)"
  define dw where "dw = ent_id ` set (deferred_targets own)"
  let ?byId = "known_entries input"
  have "deriveToolBatch (os_id started) own es ?byId dw = Some b"
    using assms(3) op by (simp add: reduce_operation_def Let_def own_def es_def dw_def)
  then obtain e a where e: "List.find has_toolCall (rev es) = Some e" "ent_assistant e = Some a"
    and b: "tb_assistantEntryId b = ent_id e"
      "tb_calls b = map (call_state (batch_starts (os_id started) own (ent_id e)) es ?byId dw (ent_seq e))
         (enumerate 0 (toolCalls_of (am_content a)))"
      "tb_truncated b = (am_stopReason a = SR_length)"
      "tb_unresolved b = list_ex (\<lambda>c. \<not> tcs_resultExists c) (tb_calls b)"
    by (auto simp: deriveToolBatch_def Let_def split: option.splits)
  have "toolCalls_of (am_content a) \<noteq> []"
    using e find_SomeD [OF e(1)] by (auto simp: has_toolCall_def toolCalls_of_Nil_iff)
  moreover obtain older newer where "es = older @ e # newer" "\<forall>x \<in> set newer. \<not> has_toolCall x"
    using find_rev_split [OF e(1)] by blast
  moreover have "\<exists>t. rec_data r = R_tool_started t \<and> ts_assistantEntryId t = ent_id e \<and>
      ts_toolIndex t = int (tcs_toolIndex c) \<and> r \<in> set (rl_records input) \<and>
      (ts_resultEntryId t \<in> ent_id ` set (rl_entries input @ li_ownEntries input) \<longrightarrow> tcs_resultExists c)"
    if c: "c \<in> set (tb_calls b)" and r: "tcs_started c = Some r" for c r
  proof -
    obtain i tc where ic: "c = call_state (batch_starts (os_id started) own (ent_id e)) es ?byId dw
        (ent_seq e) (i, tc)"
      using c b(2) by auto
    with r obtain t where t: "map_of (batch_starts (os_id started) own (ent_id e)) (int i) = Some (r, t)"
      by auto
    from batch_starts_Some [OF t] have "r \<in> set own" "rec_data r = R_tool_started t"
      "ts_assistantEntryId t = ent_id e" "ts_toolIndex t = int (tcs_toolIndex c)"
      using ic by simp_all
    moreover have "r \<in> set (rl_records input)"
      using \<open>r \<in> set own\<close> by (simp add: own_def operation_records_def)
    moreover have "map_of ?byId (ts_resultEntryId t) \<noteq> None \<longrightarrow> tcs_resultExists c"
      using ic t by (auto simp: call_state_result)
    ultimately show ?thesis by (auto simp: known_entries_def index_entries_None)
  qed
  moreover have "map tcs_toolCall (tb_calls b) = toolCalls_of (am_content a)"
    "map tcs_toolIndex (tb_calls b) = [0..<length (toolCalls_of (am_content a))]"
    unfolding b(2) call_states_eq by simp_all
  moreover have "tb_unresolved b \<longleftrightarrow> (\<exists>c \<in> set (tb_calls b). \<not> tcs_resultExists c)"
    using b(4) by (simp add: list_ex_iff)
  moreover have "tb_calls b \<noteq> []" using calculation(1,5) by auto
  ultimately show ?thesis
    using e(2) b(1,3) unfolding es_def by blast
qed

theorem recovered_tool_batch_witness:
  "\<exists>res op b. reduceLaneState (=) demo_input = Inr res \<and> ln_operation (lr_laneState res) = Some op \<and>
     op_toolBatch op = Some b \<and> map tcs_toolCall (tb_calls b) = [demo_call] \<and> \<not> tb_truncated b"
proof -
  have "case reduceLaneState (=) demo_input of Inl e \<Rightarrow> False
    | Inr res \<Rightarrow> Option.bind (ln_operation (lr_laneState res)) op_toolBatch \<noteq> None"
    by code_simp
  then obtain res op b where res: "reduceLaneState (=) demo_input = Inr res"
      "ln_operation (lr_laneState res) = Some op" "op_toolBatch op = Some b"
    by (auto split: sum.splits simp: bind_eq_Some_conv)
  from recovered_tool_batch [OF this] obtain older e newer a
    where "sort_key ent_seq (li_ownEntries demo_input) = older @ e # newer" "ent_assistant e = Some a"
      "map tcs_toolCall (tb_calls b) = toolCalls_of (am_content a)"
      "tb_truncated b \<longleftrightarrow> am_stopReason a = SR_length" by blast
  with res show ?thesis
    by (auto simp: demo_input_def demo_assistant_entry_def ent_assistant_def demo_assistant_def
        Cons_eq_append_conv)
qed

text \<open>A terminal failure is the operation's newest own entry, an assistant message that stopped
  with an error; when it is laid to a step, a recorded attempt of the slice has it as its result.\<close>

theorem recovered_failure:
  assumes "reduceLaneState deepEq input = Inr res" and "lr_terminalFailure res = Some tf"
  shows "ln_operation (lr_laneState res) \<noteq> None \<and>
    (\<exists>e. last_option (sort_key ent_seq (li_ownEntries input)) = Some e \<and> ent_id e = tf_entryId tf \<and>
       ent_assistant e = Some (tf_message tf) \<and> am_stopReason (tf_message tf) = SR_error \<and>
       (tf_source tf = FS_step \<longrightarrow>
          (\<exists>sa \<in> set (attempts (rl_records input)). sa_resultEntryId sa = tf_entryId tf)))"
proof -
  note red = reduceLaneState_Inr [OF assms(1)]
  obtain started others where open_ops: "rl_openOperations input = started # others"
    and fail: "reduce_failure input started = Some tf"
    using red assms(2) by (auto split: list.splits)
  have sub: "set (attempts (operation_records started (sort_key rec_seq (rl_records input))))
      \<subseteq> set (attempts (rl_records input))"
    by (auto simp: attempts_def set_map_filter operation_records_def)
  show ?thesis
    using fail red open_ops sub
    by (auto simp: reduce_failure_def Let_def terminal_failure_of_def produced_by_step_def list_ex_iff
        split: option.splits if_splits)
qed

theorem recovered_failure_witness:
  "\<exists>res tf. reduceLaneState (=) (demo_input\<lparr>li_ownEntries := [demo_assistant_entry\<lparr>ent_data :=
       E_message (AssistantMsg (demo_assistant SR_error [])) False\<rparr>]\<rparr>) = Inr res \<and>
     lr_terminalFailure res = Some tf \<and> tf_entryId tf = ''a1''"
proof -
  let ?e = "demo_assistant_entry\<lparr>ent_data := E_message (AssistantMsg (demo_assistant SR_error [])) False\<rparr>"
  let ?input = "demo_input\<lparr>li_ownEntries := [?e]\<rparr>"
  have "case reduceLaneState (=) ?input of Inl e \<Rightarrow> False | Inr res \<Rightarrow> lr_terminalFailure res \<noteq> None"
    by code_simp
  then obtain res tf where res: "reduceLaneState (=) ?input = Inr res" "lr_terminalFailure res = Some tf"
    by (auto split: sum.splits)
  from recovered_failure [OF this] have "tf_entryId tf = ''a1''"
    by (auto simp: last_option_def demo_assistant_entry_def)
  with res show ?thesis by blast
qed

text \<open>The configuration recovery derives from a lane's entries is the one the live context derives
  from the same branch: the same thinking level when the default is off, and the same model and
  active tools wherever the branch sets them.\<close>

theorem recovered_configuration_matches_context:
  assumes "distinct (map ent_id es)" and "sorted (map ent_seq es)"
    and "es = li_configurationEntries input @ li_ownEntries input"
    and "ec_thinkingLevel (li_defaults input) = ''off''"
  shows "ec_thinkingLevel (deriveEffectiveConfiguration input) =
      sc_thinkingLevel (buildSessionContext es opts) \<and>
    ec_model (deriveEffectiveConfiguration input) =
      (case sc_model (buildSessionContext es opts) of None \<Rightarrow> ec_model (li_defaults input) | Some m \<Rightarrow> m) \<and>
    ec_activeToolNames (deriveEffectiveConfiguration input) =
      (case sc_activeToolNames (buildSessionContext es opts) of
         None \<Rightarrow> ec_activeToolNames (li_defaults input) | Some ts \<Rightarrow> ts)"
proof -
  have "deriveEffectiveConfiguration input = foldl configure (li_defaults input) es"
    using assms(1-3) by (simp add: deriveEffectiveConfiguration_def index_entries_distinct sort_key_sorted)
  moreover have last: "last_setting d f es = (case last_setting None (map_option Some \<circ> f) es of
      None \<Rightarrow> d | Some v \<Rightarrow> v)" for d and f :: "entry \<Rightarrow> 'b option"
    by (induction es rule: rev_induct) (auto split: option.splits)
  ultimately show ?thesis
    using assms(4) last [of _ "entry_model \<circ> ent_data"] last [of _ "entry_tools \<circ> ent_data"]
    by (simp add: foldl_configure buildSessionContext_def derive_eq comp_assoc)
qed

theorem recovered_configuration_matches_context_witness:
  "ec_thinkingLevel (deriveEffectiveConfiguration demo_input) = ''off'' \<and>
   ec_model (deriveEffectiveConfiguration demo_input) = \<lparr>sm_provider = ''p'', sm_modelId = ''m''\<rparr>"
proof -
  have es: "distinct (map ent_id [demo_assistant_entry])" "sorted (map ent_seq [demo_assistant_entry])"
    "[demo_assistant_entry] = li_configurationEntries demo_input @ li_ownEntries demo_input"
    "ec_thinkingLevel (li_defaults demo_input) = ''off''"
    by (simp_all add: demo_input_def demo_defaults_def)
  from recovered_configuration_matches_context [OF this, of default_options] show ?thesis
    by (simp add: buildSessionContext_def derive_eq last_setting_def last_option_def demo_assistant_entry_def
        demo_assistant_def)
qed

end
