(* ===== verification/Text_Encoding.thy ===== *)
theory Text_Encoding
  imports Js_Prelude
begin

text \<open>
  \<open>TextEncoder\<close> and the fatal \<open>TextDecoder\<close> of \<open>packages/protocol/src/cbor/options.ts\<close>: UTF-8
  over JavaScript strings. Here a JavaScript string is the list of its UTF-16 code units, because the
  protocol's checks depend on lone surrogates. \<open>ignoreBOM: true\<close> keeps a byte order mark, so the
  decoder treats it as any other character.
\<close>

type_synonym js_string = "16 word list"
type_synonym bytes = "8 word list"

section \<open>Definitions\<close>

definition is_high :: "16 word \<Rightarrow> bool" where
  "is_high u \<longleftrightarrow> 0xD800 \<le> unat u \<and> unat u < 0xDC00"

definition is_low :: "16 word \<Rightarrow> bool" where
  "is_low u \<longleftrightarrow> 0xDC00 \<le> unat u \<and> unat u < 0xE000"

text \<open>One code unit that pairs with no other: a lone surrogate becomes U+FFFD.\<close>

definition single_scalar :: "16 word \<Rightarrow> nat" where
  "single_scalar u = (if is_high u \<or> is_low u then 0xFFFD else unat u)"

fun scalar_values :: "js_string \<Rightarrow> nat list" where
  "scalar_values [] = []"
| "scalar_values [u] = [single_scalar u]"
| "scalar_values (h # l # us) =
     (if is_high h \<and> is_low l
      then (0x10000 + (unat h - 0xD800) * 0x400 + (unat l - 0xDC00)) # scalar_values us
      else single_scalar h # scalar_values (l # us))"

definition utf8_of :: "nat \<Rightarrow> nat list" where
  "utf8_of p =
     (if p < 0x80 then [p]
      else if p < 0x800 then [0xC0 + p div 64, 0x80 + p mod 64]
      else if p < 0x10000 then [0xE0 + p div 4096, 0x80 + p div 64 mod 64, 0x80 + p mod 64]
      else [0xF0 + p div 262144, 0x80 + p div 4096 mod 64, 0x80 + p div 64 mod 64, 0x80 + p mod 64])"

text \<open>\<open>textEncoder.encode\<close>.\<close>

definition utf8_encode :: "js_string \<Rightarrow> bytes" where
  "utf8_encode s = map word_of_nat (concat (map utf8_of (scalar_values s)))"

definition continuation :: "nat \<Rightarrow> bool" where
  "continuation b \<longleftrightarrow> 0x80 \<le> b \<and> b < 0xC0"

text \<open>
  The first scalar value of a byte sequence and the bytes after it, \<open>None\<close> on an error. The bounds
  on the second byte exclude overlong forms, surrogates and values past U+10FFFF.
\<close>

fun utf8_next :: "nat list \<Rightarrow> (nat \<times> nat list) option" where
  "utf8_next [] = None"
| "utf8_next (b # bs) =
     (if b < 0x80 then Some (b, bs)
      else if 0xC2 \<le> b \<and> b \<le> 0xDF then
        (case bs of
           c # rest \<Rightarrow> if continuation c then Some ((b - 0xC0) * 64 + (c - 0x80), rest) else None
         | _ \<Rightarrow> None)
      else if 0xE0 \<le> b \<and> b \<le> 0xEF then
        (case bs of
           c # d # rest \<Rightarrow>
             if continuation c \<and> continuation d \<and> (b = 0xE0 \<longrightarrow> 0xA0 \<le> c) \<and> (b = 0xED \<longrightarrow> c < 0xA0)
             then Some ((b - 0xE0) * 4096 + (c - 0x80) * 64 + (d - 0x80), rest) else None
         | _ \<Rightarrow> None)
      else if 0xF0 \<le> b \<and> b \<le> 0xF4 then
        (case bs of
           c # d # e # rest \<Rightarrow>
             if continuation c \<and> continuation d \<and> continuation e \<and>
                (b = 0xF0 \<longrightarrow> 0x90 \<le> c) \<and> (b = 0xF4 \<longrightarrow> c < 0x90)
             then Some ((b - 0xF0) * 262144 + (c - 0x80) * 4096 + (d - 0x80) * 64 + (e - 0x80), rest)
             else None
         | _ \<Rightarrow> None)
      else None)"

lemma utf8_next_shorter: "utf8_next bs = Some (p, rest) \<Longrightarrow> length rest < length bs"
  by (cases bs) (auto split: if_splits list.splits)

function utf8_scalars :: "nat list \<Rightarrow> nat list option" where
  "utf8_scalars bs =
     (if bs = [] then Some []
      else case utf8_next bs of
          None \<Rightarrow> None
        | Some (p, rest) \<Rightarrow> map_option (Cons p) (utf8_scalars rest))"
  by pat_completeness auto
termination
  by (relation "measure length") (auto dest: utf8_next_shorter)

declare utf8_scalars.simps [simp del]

definition utf16_of :: "nat \<Rightarrow> js_string" where
  "utf16_of p =
     (if p < 0x10000 then [word_of_nat p]
      else [word_of_nat (0xD800 + (p - 0x10000) div 0x400), word_of_nat (0xDC00 + (p - 0x10000) mod 0x400)])"

text \<open>\<open>textDecoder.decode\<close>; \<open>None\<close> is the exception of a fatal decoder.\<close>

definition utf8_decode :: "bytes \<Rightarrow> js_string option" where
  "utf8_decode bs = map_option (concat \<circ> map utf16_of) (utf8_scalars (map unat bs))"

section \<open>Encoding and decoding are inverse on well-formed strings\<close>

definition scalar :: "nat \<Rightarrow> bool" where
  "scalar p \<longleftrightarrow> p < 0xD800 \<or> 0xE000 \<le> p \<and> p < 0x110000"

lemma utf8_of_bytes: "scalar p \<Longrightarrow> b \<in> set (utf8_of p) \<Longrightarrow> b < 256"
  by (auto simp: scalar_def utf8_of_def split: if_splits)

lemma div_mod_64: "p div 64 * 64 + p mod 64 = (p::nat)"
  by simp

lemma utf8_next_of:
  assumes "scalar p"
  shows "utf8_next (utf8_of p @ rest) = Some (p, rest)"
proof -
  consider "p < 0x80" | "0x80 \<le> p" "p < 0x800" | "0x800 \<le> p" "p < 0x10000" | "0x10000 \<le> p" "p < 0x110000"
    using assms by (force simp: scalar_def)
  then show ?thesis
  proof cases
    case 2
    then have "2 \<le> p div 64" "p div 64 < 32" by auto
    with 2 show ?thesis by (simp add: utf8_of_def continuation_def)
  next
    case 3
    define a b c where abc: "a = p div 4096" "b = p div 64 mod 64" "c = p mod 64"
    obtain q where "q = p div 64" by blast
    then have "a = q div 64" "b = q mod 64" "p = q * 64 + c"
      unfolding abc by (simp_all flip: div_mult2_eq)
    then have "q = a * 64 + b" "p = q * 64 + c" by (simp_all add: div_mod_64)
    then have p: "p = a * 4096 + b * 64 + c" by simp
    have bounds: "a < 16" "b < 64" "c < 64"
      using 3 by (auto simp: abc)
    have "a = 0 \<Longrightarrow> 0x20 \<le> b" "a = 0xD \<Longrightarrow> b < 0x20"
      using p bounds assms 3 by (auto simp: scalar_def)
    moreover have "utf8_of p = [0xE0 + a, 0x80 + b, 0x80 + c]"
      using 3 by (simp add: utf8_of_def abc)
    ultimately show ?thesis
      using p bounds by (auto simp: continuation_def)
  next
    case 4
    define a b c d where abcd: "a = p div 262144" "b = p div 4096 mod 64" "c = p div 64 mod 64" "d = p mod 64"
    obtain q r where "q = p div 64" "r = q div 64" by blast
    moreover from this have "a = r div 64" "b = r mod 64" "c = q mod 64" "d = p mod 64"
      unfolding abcd by (simp_all flip: div_mult2_eq)
    ultimately have "r = a * 64 + b" "q = r * 64 + c" "p = q * 64 + d" by (simp_all add: div_mod_64)
    then have p: "p = a * 262144 + b * 4096 + c * 64 + d" by simp
    have bounds: "a < 5" "b < 64" "c < 64" "d < 64"
      using 4 by (auto simp: abcd)
    have "a = 0 \<Longrightarrow> 0x10 \<le> b" "a = 4 \<Longrightarrow> b < 0x10"
      using p bounds 4 by auto
    moreover have "utf8_of p = [0xF0 + a, 0x80 + b, 0x80 + c, 0x80 + d]"
      using 4 by (simp add: utf8_of_def abcd)
    ultimately show ?thesis
      using p bounds by (auto simp: continuation_def)
  qed (simp add: utf8_of_def)
qed

lemma utf8_scalars_of: "list_all scalar ps \<Longrightarrow> utf8_scalars (concat (map utf8_of ps)) = Some ps"
proof (induction ps)
  case Nil
  then show ?case by (simp add: utf8_scalars.simps)
next
  case (Cons p ps)
  have "utf8_of p \<noteq> []" by (simp add: utf8_of_def)
  with Cons show ?case
    by (subst utf8_scalars.simps) (simp add: utf8_next_of)
qed

lemma unat_16: "unat (u :: 16 word) < 0x10000"
  using unsigned_less [where 'a = nat, of u] by simp

lemma single_scalar_scalar: "scalar (single_scalar u)"
  using unat_16 [of u] by (auto simp: single_scalar_def scalar_def is_high_def is_low_def)

lemma scalar_values_scalar: "list_all scalar (scalar_values s)"
proof (induction s rule: scalar_values.induct)
  case (3 h l us)
  then show ?case
    by (auto simp: single_scalar_scalar)
      (auto simp: scalar_def is_high_def is_low_def)
qed (simp_all add: single_scalar_scalar)

text \<open>The string a decoder reads back: every lone surrogate has become U+FFFD.\<close>

definition to_well_formed :: "js_string \<Rightarrow> js_string" where
  "to_well_formed s = concat (map utf16_of (scalar_values s))"

lemma utf8_decode_encode: "utf8_decode (utf8_encode s) = Some (to_well_formed s)"
proof -
  have small: "\<forall>b \<in> set (concat (map utf8_of (scalar_values s))). b < 256"
    using scalar_values_scalar [of s] by (auto simp: list_all_iff dest: utf8_of_bytes)
  then have "map unat (utf8_encode s) = concat (map utf8_of (scalar_values s))"
    by (auto simp: utf8_encode_def unat_of_nat intro!: map_idI)
  then show ?thesis
    by (simp add: utf8_decode_def utf8_scalars_of scalar_values_scalar to_well_formed_def)
qed

text \<open>A string without lone surrogates.\<close>

fun well_formed :: "js_string \<Rightarrow> bool" where
  "well_formed [] = True"
| "well_formed [u] = (\<not> is_high u \<and> \<not> is_low u)"
| "well_formed (h # l # us) =
     (if is_high h \<and> is_low l then well_formed us
      else \<not> is_high h \<and> \<not> is_low h \<and> well_formed (l # us))"

lemma utf16_of_single: "utf16_of (single_scalar u) = [u] \<longleftrightarrow> \<not> is_high u \<and> \<not> is_low u"
  using unat_16 [of u] by (auto simp: utf16_of_def single_scalar_def is_high_def is_low_def)

lemma utf16_of_pair:
  assumes "is_high h" and "is_low l"
  shows "utf16_of (0x10000 + (unat h - 0xD800) * 0x400 + (unat l - 0xDC00)) = [h, l]"
proof -
  have b: "0xD800 \<le> unat h" "unat h < 0xDC00" "0xDC00 \<le> unat l" "unat l < 0xE000"
    using assms by (auto simp: is_high_def is_low_def)
  let ?x = "(unat h - 0xD800) * 0x400 + (unat l - 0xDC00)"
  have "unat l - 0xDC00 < 0x400" using b by simp
  then have "?x div 0x400 = unat h - 0xD800" "?x mod 0x400 = unat l - 0xDC00"
    by simp_all
  then show ?thesis using b by (simp add: utf16_of_def add.assoc del: diff_add_assoc diff_add_assoc2)
qed

lemma length_utf16_of_single: "length (utf16_of (single_scalar u)) = 1"
  using unat_16 [of u] by (auto simp: utf16_of_def single_scalar_def)

lemma to_well_formed_id: "to_well_formed s = s \<longleftrightarrow> well_formed s"
proof (induction s rule: scalar_values.induct)
  case (2 u)
  then show ?case by (simp add: to_well_formed_def utf16_of_single)
next
  case (3 h l us)
  obtain x where x: "utf16_of (single_scalar h) = [x]"
    using length_utf16_of_single [of h] by (auto simp: length_Suc_conv)
  with utf16_of_single [of h] have "x = h \<longleftrightarrow> \<not> is_high h \<and> \<not> is_low h" by simp
  with 3 x show ?case
    by (auto simp: to_well_formed_def utf16_of_pair simp del: One_nat_def)
qed (simp add: to_well_formed_def)

lemma text_roundtrip_iff: "utf8_decode (utf8_encode s) = Some s \<longleftrightarrow> well_formed s"
  by (simp add: utf8_decode_encode to_well_formed_id)

section \<open>What the fatal decoder accepts\<close>

lemma offset_nat: "a \<le> (b::nat) \<Longrightarrow> \<exists>x. b = a + x"
  by (rule le_Suc_ex)

lemma digit_64: "z < 64 \<Longrightarrow> (a * 64 + z) div 64 = a \<and> (a * 64 + z) mod 64 = (z::nat)"
  by simp

lemma utf8_of_2: "2 \<le> x \<Longrightarrow> x < 32 \<Longrightarrow> y < 64 \<Longrightarrow>
    scalar (x * 64 + y) \<and> utf8_of (x * 64 + y) = [0xC0 + x, 0x80 + y]"
  by (simp add: utf8_of_def scalar_def)

lemma utf8_of_3:
  assumes "x < 16" "y < 64" "z < 64" "x = 0 \<longrightarrow> 0x20 \<le> y" "x = 0xD \<longrightarrow> y < 0x20"
  shows "scalar (x * 4096 + y * 64 + z) \<and>
    utf8_of (x * 4096 + y * 64 + z) = [0xE0 + x, 0x80 + y, 0x80 + z]"
proof -
  let ?p = "x * 4096 + y * 64 + z"
  have p: "?p = (x * 64 + y) * 64 + z" by simp
  have "?p div 64 = x * 64 + y" "?p mod 64 = z"
    unfolding p using digit_64 [OF assms(3), of "x * 64 + y"] by blast+
  moreover have "?p div 4096 = (?p div 64) div 64" by (simp flip: div_mult2_eq)
  moreover have "(x * 64 + y) div 64 = x" "(x * 64 + y) mod 64 = y" using assms(2) by simp_all
  moreover have "0x800 \<le> ?p \<and> ?p < 0x10000 \<and> (?p < 0xD800 \<or> 0xE000 \<le> ?p)"
  proof -
    consider "x = 0" | "1 \<le> x" "x \<le> 12" | "x = 13" | "14 \<le> x" by linarith
    then show ?thesis using assms by cases linarith+
  qed
  ultimately show ?thesis by (simp add: utf8_of_def scalar_def)
qed

lemma utf8_of_4:
  assumes "x < 5" "y < 64" "z < 64" "w < 64" "x = 0 \<longrightarrow> 0x10 \<le> y" "x = 4 \<longrightarrow> y < 0x10"
  shows "scalar (x * 262144 + y * 4096 + z * 64 + w) \<and>
    utf8_of (x * 262144 + y * 4096 + z * 64 + w) = [0xF0 + x, 0x80 + y, 0x80 + z, 0x80 + w]"
proof -
  let ?p = "x * 262144 + y * 4096 + z * 64 + w"
  have p: "?p = ((x * 64 + y) * 64 + z) * 64 + w" by simp
  have "?p div 64 = (x * 64 + y) * 64 + z" "?p mod 64 = w"
    unfolding p using digit_64 [OF assms(4), of "(x * 64 + y) * 64 + z"] by blast+
  moreover have "?p div 4096 = (?p div 64) div 64" "?p div 262144 = (?p div 64) div 64 div 64"
    by (simp_all flip: div_mult2_eq)
  moreover have "((x * 64 + y) * 64 + z) div 64 = x * 64 + y" "((x * 64 + y) * 64 + z) mod 64 = z"
    "(x * 64 + y) div 64 = x" "(x * 64 + y) mod 64 = y"
    using digit_64 [OF assms(3), of "x * 64 + y"] digit_64 [OF assms(2), of x] by blast+
  moreover have "0x10000 \<le> ?p \<and> ?p < 0x110000"
  proof -
    consider "x = 0" | "1 \<le> x" "x \<le> 3" | "x = 4" using assms(1) by linarith
    then show ?thesis using assms by cases linarith+
  qed
  ultimately show ?thesis by (simp add: utf8_of_def scalar_def)
qed

lemma utf8_next_Some:
  assumes "utf8_next bs = Some (p, rest)"
  shows "scalar p \<and> bs = utf8_of p @ rest"
proof -
  obtain b cs where bs: "bs = b # cs" using assms by (cases bs) auto
  consider "b < 0x80" | "0xC2 \<le> b" "b \<le> 0xDF" | "0xE0 \<le> b" "b \<le> 0xEF" | "0xF0 \<le> b" "b \<le> 0xF4"
    using assms bs by (auto split: if_splits)
  then show ?thesis
  proof cases
    case 1
    then show ?thesis using assms bs by (auto simp: scalar_def utf8_of_def)
  next
    case 2
    then obtain c where c: "cs = c # rest" "continuation c" "p = (b - 0xC0) * 64 + (c - 0x80)"
      using assms bs by (auto split: list.splits if_splits)
    have "2 \<le> b - 0xC0" "b - 0xC0 < 32" "c - 0x80 < 64" using 2 c(2) by (auto simp: continuation_def)
    from utf8_of_2 [OF this] show ?thesis using 2 c bs by (simp add: continuation_def)
  next
    case 3
    then obtain c d where c: "cs = c # d # rest" "continuation c" "continuation d"
      "b = 0xE0 \<longrightarrow> 0xA0 \<le> c" "b = 0xED \<longrightarrow> c < 0xA0"
      "p = (b - 0xE0) * 4096 + (c - 0x80) * 64 + (d - 0x80)"
      using assms bs by (auto split: list.splits if_splits)
    have "b - 0xE0 < 16" "c - 0x80 < 64" "d - 0x80 < 64" "b - 0xE0 = 0 \<longrightarrow> 0x20 \<le> c - 0x80"
      "b - 0xE0 = 0xD \<longrightarrow> c - 0x80 < 0x20" using 3 c by (auto simp: continuation_def)
    from utf8_of_3 [OF this] show ?thesis using 3 c bs by (simp add: continuation_def)
  next
    case 4
    then obtain c d e where c: "cs = c # d # e # rest" "continuation c" "continuation d" "continuation e"
      "b = 0xF0 \<longrightarrow> 0x90 \<le> c" "b = 0xF4 \<longrightarrow> c < 0x90"
      "p = (b - 0xF0) * 262144 + (c - 0x80) * 4096 + (d - 0x80) * 64 + (e - 0x80)"
      using assms bs by (auto split: list.splits if_splits)
    have "b - 0xF0 < 5" "c - 0x80 < 64" "d - 0x80 < 64" "e - 0x80 < 64"
      "b - 0xF0 = 0 \<longrightarrow> 0x10 \<le> c - 0x80" "b - 0xF0 = 4 \<longrightarrow> c - 0x80 < 0x10"
      using 4 c by (auto simp: continuation_def)
    from utf8_of_4 [OF this] show ?thesis using 4 c bs by (simp add: continuation_def)
  qed
qed

lemma utf8_scalars_Some: "utf8_scalars bs = Some ps \<Longrightarrow> list_all scalar ps \<and> bs = concat (map utf8_of ps)"
proof (induction bs arbitrary: ps rule: utf8_scalars.induct)
  case (1 bs)
  show ?case
  proof (cases "bs = []")
    case True
    with 1 show ?thesis by (simp add: utf8_scalars.simps)
  next
    case False
    then obtain p rest qs where "utf8_next bs = Some (p, rest)" "utf8_scalars rest = Some qs" "ps = p # qs"
      using "1.prems" by (subst (asm) utf8_scalars.simps) (auto split: option.splits)
    with 1 False utf8_next_Some show ?thesis by auto
  qed
qed

lemma unat_word16: "n < 0x10000 \<Longrightarrow> unat (word_of_nat n :: 16 word) = n"
  by (simp add: unsigned_of_nat take_bit_eq_mod)

lemma scalar_values_utf16:
  assumes "scalar p"
  shows "scalar_values (utf16_of p @ s) = p # scalar_values s"
proof (cases "p < 0x10000")
  case True
  then have u: "utf16_of p = [word_of_nat p]" "unat (word_of_nat p :: 16 word) = p"
    by (simp_all add: utf16_of_def unsigned_of_nat take_bit_eq_mod)
  have "\<not> is_high (word_of_nat p)" "single_scalar (word_of_nat p) = p"
    using assms True u(2) by (auto simp: is_high_def is_low_def single_scalar_def scalar_def)
  then show ?thesis using u(1) by (cases s) simp_all
next
  case False
  define x where "x = p - 0x10000"
  have x: "p = 0x10000 + x" "x < 0x100000" using False assms by (auto simp: x_def scalar_def)
  then have "x div 0x400 < 0x400" by simp
  then have h: "unat (word_of_nat (0xD800 + x div 0x400) :: 16 word) = 0xD800 + x div 0x400"
    "unat (word_of_nat (0xDC00 + x mod 0x400) :: 16 word) = 0xDC00 + x mod 0x400"
    by (intro unat_word16; linarith)+
  have "is_high (word_of_nat (0xD800 + x div 0x400))" "is_low (word_of_nat (0xDC00 + x mod 0x400))"
    using \<open>x div 0x400 < 0x400\<close> unfolding is_high_def is_low_def h by auto
  moreover have "utf16_of p = [word_of_nat (0xD800 + x div 0x400), word_of_nat (0xDC00 + x mod 0x400)]"
    using False by (simp add: utf16_of_def x_def)
  ultimately show ?thesis using h x(1) by simp
qed

lemma scalar_values_concat: "list_all scalar ps \<Longrightarrow> scalar_values (concat (map utf16_of ps)) = ps"
  by (induction ps) (simp_all add: scalar_values_utf16)

text \<open>The bytes of a decoded text are the encoding of the text.\<close>

lemma utf8_encode_decode:
  assumes "utf8_decode bs = Some s"
  shows "utf8_encode s = bs" and "well_formed s"
proof -
  obtain ps where ps: "utf8_scalars (map unat bs) = Some ps" "s = concat (map utf16_of ps)"
    using assms by (auto simp: utf8_decode_def)
  from utf8_scalars_Some [OF ps(1)] have "scalar_values s = ps" "map unat bs = concat (map utf8_of ps)"
    using ps(2) scalar_values_concat by simp_all
  then have "utf8_encode s = map word_of_nat (map unat bs)" by (simp add: utf8_encode_def)
  then show enc: "utf8_encode s = bs" by (simp add: comp_def)
  show "well_formed s" using assms enc text_roundtrip_iff [of s] by simp
qed

end
