(* ===== verification/Cbor_Encoder.thy ===== *)
theory Cbor_Encoder
  imports Text_Encoding "HOL-Library.While_Combinator"
begin

text \<open>
  The strict CBOR encoder: \<open>packages/protocol/src/cbor/options.ts\<close> and \<open>encoder.ts\<close>. A JavaScript
  value is a tree, so the \<open>ancestors\<close> set, which rejects cyclic object graphs, never rejects here
  and is left out. An object lists its entries in the order of \<open>Object.keys\<close>; \<open>undefined\<close>, as an
  array element (or hole) or as a property, is a value of its own.
\<close>

unbundle bit_operations_syntax

section \<open>Errors, values, options\<close>

datatype protocol_error =
    CborError (error_message: string)
  | RangeError (error_message: string)
  | FrameError (error_message: string)
  | ProtocolValidationError (error_message: string)

datatype js_value =
    V_undefined
  | V_null
  | V_bool bool
  | V_number js_number
  | V_string js_string
  | V_bytes bytes
  | V_array "js_value list"
  | V_object bool "(js_string \<times> js_value) list"  \<comment> \<open>the flag: an enumerable symbol key exists\<close>
  | V_other string                                  \<comment> \<open>any other value, with its \<open>typeof\<close>\<close>

definition UINT32_BASE :: nat where "UINT32_BASE = 0x100000000"
definition MAX_UINT32 :: nat where "MAX_UINT32 = 0xffffffff"
definition MAX_CONFIGURED_DEPTH :: nat where "MAX_CONFIGURED_DEPTH = 512"
definition DEFAULT_MAX_CBOR_BYTE_LENGTH :: nat where "DEFAULT_MAX_CBOR_BYTE_LENGTH = 16 * 1024 * 1024"
definition DEFAULT_MAX_CBOR_CONTAINER_LENGTH :: nat where "DEFAULT_MAX_CBOR_CONTAINER_LENGTH = 1000000"
definition DEFAULT_MAX_CBOR_DEPTH :: nat where "DEFAULT_MAX_CBOR_DEPTH = 64"

record cbor_options =
  co_maxByteLength :: "js_number option"
  co_maxContainerLength :: "js_number option"
  co_maxDepth :: "js_number option"

record resolved_cbor_options =
  maxByteLength :: nat
  maxContainerLength :: nat
  maxDepth :: nat

definition resolveLimit :: "string \<Rightarrow> js_number \<Rightarrow> nat \<Rightarrow> protocol_error + nat" where
  "resolveLimit nm value maximum =
     (if \<not> isSafeInteger value \<or> intValue value < 0 \<or> intValue value > int maximum
      then Inl (RangeError (nm @ '' must be an integer between 0 and '' @ show_nat maximum))
      else Inr (nat (intValue value)))"

text \<open>\<open>options?.key ?? default\<close>.\<close>

definition option_or :: "'o option \<Rightarrow> ('o \<Rightarrow> js_number option) \<Rightarrow> nat \<Rightarrow> js_number" where
  "option_or opts field d =
     (case Option.bind opts field of Some v \<Rightarrow> v | None \<Rightarrow> JInt (int d))"

definition resolveOptions :: "cbor_options option \<Rightarrow> protocol_error + resolved_cbor_options" where
  "resolveOptions opts =
     andThen (resolveLimit ''maxByteLength''
       (option_or opts co_maxByteLength DEFAULT_MAX_CBOR_BYTE_LENGTH) MAX_UINT32) (\<lambda>b.
     andThen (resolveLimit ''maxContainerLength''
       (option_or opts co_maxContainerLength DEFAULT_MAX_CBOR_CONTAINER_LENGTH) MAX_UINT32) (\<lambda>c.
     andThen (resolveLimit ''maxDepth''
       (option_or opts co_maxDepth DEFAULT_MAX_CBOR_DEPTH) MAX_CONFIGURED_DEPTH) (\<lambda>d.
     Inr \<lparr>maxByteLength = b, maxContainerLength = c, maxDepth = d\<rparr>)))"

section \<open>The writer\<close>

record cbor_writer =
  cw_buffer :: bytes
  cw_offset :: nat
  cw_maxByteLength :: nat

definition new_writer :: "nat \<Rightarrow> cbor_writer" where
  "new_writer limit = \<lparr>cw_buffer = replicate (min 256 limit) 0, cw_offset = 0, cw_maxByteLength = limit\<rparr>"

definition limit_message :: "string \<Rightarrow> nat \<Rightarrow> string" where
  "limit_message what limit = what @ '' exceeds configured limit of '' @ show_nat limit"

definition grow_capacity :: "nat \<Rightarrow> nat \<Rightarrow> nat \<Rightarrow> nat" where
  "grow_capacity limit required capacity =
     while (\<lambda>c. c < required) (\<lambda>c. min limit (max required (c * 2))) capacity"

definition ensureCapacity :: "cbor_writer \<Rightarrow> nat \<Rightarrow> protocol_error + cbor_writer" where
  "ensureCapacity w additionalBytes =
     (let required = cw_offset w + additionalBytes
      in if required > cw_maxByteLength w
         then Inl (CborError (limit_message ''CBOR byte length'' (cw_maxByteLength w)))
         else if required \<le> length (cw_buffer w) then Inr w
         else let capacity = grow_capacity (cw_maxByteLength w) required (max 1 (length (cw_buffer w)))
              in Inr (w\<lparr>cw_buffer := cw_buffer w @ replicate (capacity - length (cw_buffer w)) 0\<rparr>))"

text \<open>\<open>buffer.set(bytes, offset)\<close>.\<close>

definition set_bytes :: "bytes \<Rightarrow> nat \<Rightarrow> bytes \<Rightarrow> bytes" where
  "set_bytes buf off bs = take off buf @ bs @ drop (off + length bs) buf"

definition writeByte :: "cbor_writer \<Rightarrow> 8 word \<Rightarrow> protocol_error + cbor_writer" where
  "writeByte w b =
     andThen (ensureCapacity w 1) (\<lambda>w.
     Inr (w\<lparr>cw_buffer := (cw_buffer w)[cw_offset w := b], cw_offset := cw_offset w + 1\<rparr>))"

definition writeBytes :: "cbor_writer \<Rightarrow> bytes \<Rightarrow> protocol_error + cbor_writer" where
  "writeBytes w bs =
     andThen (ensureCapacity w (length bs)) (\<lambda>w.
     Inr (w\<lparr>cw_buffer := set_bytes (cw_buffer w) (cw_offset w) bs,
            cw_offset := cw_offset w + length bs\<rparr>))"

text \<open>A number stored in a \<open>Uint8Array\<close> is reduced modulo 256.\<close>

definition writeUint16 :: "cbor_writer \<Rightarrow> nat \<Rightarrow> protocol_error + cbor_writer" where
  "writeUint16 w v =
     andThen (ensureCapacity w 2) (\<lambda>w.
     Inr (w\<lparr>cw_buffer := (cw_buffer w)[cw_offset w := word_of_nat (v div 2 ^ 8),
                                       cw_offset w + 1 := word_of_nat v],
            cw_offset := cw_offset w + 2\<rparr>))"

definition writeUint32 :: "cbor_writer \<Rightarrow> nat \<Rightarrow> protocol_error + cbor_writer" where
  "writeUint32 w v =
     andThen (ensureCapacity w 4) (\<lambda>w.
     Inr (w\<lparr>cw_buffer := (cw_buffer w)[cw_offset w := word_of_nat (v div 2 ^ 24),
                                       cw_offset w + 1 := word_of_nat (v div 2 ^ 16),
                                       cw_offset w + 2 := word_of_nat (v div 2 ^ 8),
                                       cw_offset w + 3 := word_of_nat v],
            cw_offset := cw_offset w + 4\<rparr>))"

definition writeUint64 :: "cbor_writer \<Rightarrow> nat \<Rightarrow> protocol_error + cbor_writer" where
  "writeUint64 w v =
     (let high = v div UINT32_BASE; low = v - high * UINT32_BASE
      in andThen (writeUint32 w high) (\<lambda>w. writeUint32 w low))"

definition float64_bytes :: "64 word \<Rightarrow> bytes" where
  "float64_bytes b = map (\<lambda>i. word_of_nat (unat b div 256 ^ i)) [7, 6, 5, 4, 3, 2, 1, 0]"

definition writeFloat64 :: "cbor_writer \<Rightarrow> 64 word \<Rightarrow> protocol_error + cbor_writer" where
  "writeFloat64 w b =
     andThen (ensureCapacity w 9) (\<lambda>w.
     Inr (w\<lparr>cw_buffer := set_bytes ((cw_buffer w)[cw_offset w := 0xfb]) (cw_offset w + 1) (float64_bytes b),
            cw_offset := cw_offset w + 9\<rparr>))"

definition finish :: "cbor_writer \<Rightarrow> bytes" where
  "finish w = take (cw_offset w) (cw_buffer w)"

section \<open>The encoder\<close>

definition initial_byte :: "nat \<Rightarrow> nat \<Rightarrow> 8 word" where
  "initial_byte majorType info = push_bit 5 (word_of_nat majorType) OR word_of_nat info"

definition writeArgument :: "cbor_writer \<Rightarrow> nat \<Rightarrow> nat \<Rightarrow> protocol_error + cbor_writer" where
  "writeArgument w majorType v =
     (if v < 24 then writeByte w (initial_byte majorType v)
      else if v \<le> 0xff then
        andThen (writeByte w (initial_byte majorType 24)) (\<lambda>w. writeByte w (word_of_nat v))
      else if v \<le> 0xffff then
        andThen (writeByte w (initial_byte majorType 25)) (\<lambda>w. writeUint16 w v)
      else if v \<le> MAX_UINT32 then
        andThen (writeByte w (initial_byte majorType 26)) (\<lambda>w. writeUint32 w v)
      else
        andThen (writeByte w (initial_byte majorType 27)) (\<lambda>w. writeUint64 w v))"

definition encodeText ::
  "cbor_writer \<Rightarrow> js_string \<Rightarrow> resolved_cbor_options \<Rightarrow> protocol_error + cbor_writer" where
  "encodeText w s opts =
     (let bs = utf8_encode s
      in if length bs > maxByteLength opts
         then Inl (CborError (limit_message ''CBOR text string length'' (maxByteLength opts)))
         else if utf8_decode bs \<noteq> Some s
         then Inl (CborError ''CBOR text strings must contain valid Unicode scalar values'')
         else andThen (writeArgument w 3 (length bs)) (\<lambda>w. writeBytes w bs))"

definition encodeNumber :: "cbor_writer \<Rightarrow> js_number \<Rightarrow> protocol_error + cbor_writer" where
  "encodeNumber w n =
     (if \<not> isFinite n then Inl (CborError ''CBOR numbers must be finite'')
      else case n of
          JInt i \<Rightarrow>
            if \<not> isSafeInteger n
            then Inl (CborError ''CBOR integers must be safe JavaScript integers'')
            else if i \<ge> 0 then writeArgument w 0 (nat i)
            else writeArgument w 1 (nat (- 1 - i))
        | JFrac b \<Rightarrow> writeFloat64 w b
        | _ \<Rightarrow> writeFloat64 w 0x8000000000000000)"

fun js_typeof :: "js_value \<Rightarrow> string" where
  "js_typeof V_undefined = ''undefined''"
| "js_typeof (V_bool _) = ''boolean''"
| "js_typeof (V_number _) = ''number''"
| "js_typeof (V_string _) = ''string''"
| "js_typeof (V_other t) = t"
| "js_typeof _ = ''object''"

definition depth_check :: "resolved_cbor_options \<Rightarrow> nat \<Rightarrow> protocol_error + unit" where
  "depth_check opts depth =
     (if depth > maxDepth opts
      then Inl (CborError (limit_message ''CBOR nesting depth'' (maxDepth opts))) else Inr ())"

text \<open>The entries of an object that are written: those that are not \<open>undefined\<close>.\<close>

definition defined_entries :: "(js_string \<times> js_value) list \<Rightarrow> (js_string \<times> js_value) list" where
  "defined_entries kvs = filter (\<lambda>(_, v). v \<noteq> V_undefined) kvs"

fun encodeValue ::
    "cbor_writer \<Rightarrow> js_value \<Rightarrow> resolved_cbor_options \<Rightarrow> nat \<Rightarrow> protocol_error + cbor_writer"
  and encodeItems ::
    "cbor_writer \<Rightarrow> js_value list \<Rightarrow> resolved_cbor_options \<Rightarrow> nat \<Rightarrow> protocol_error + cbor_writer"
  and encodeEntries ::
    "cbor_writer \<Rightarrow> (js_string \<times> js_value) list \<Rightarrow> resolved_cbor_options \<Rightarrow> nat \<Rightarrow>
     protocol_error + cbor_writer" where
  "encodeValue w value opts depth =
     andThen (depth_check opts depth) (\<lambda>_.
     case value of
       V_null \<Rightarrow> writeByte w 0xf6
     | V_bool b \<Rightarrow> writeByte w (if b then 0xf5 else 0xf4)
     | V_number n \<Rightarrow> encodeNumber w n
     | V_string s \<Rightarrow> encodeText w s opts
     | V_bytes bs \<Rightarrow>
         if length bs > maxByteLength opts
         then Inl (CborError (limit_message ''CBOR byte string length'' (maxByteLength opts)))
         else andThen (writeArgument w 2 (length bs)) (\<lambda>w. writeBytes w bs)
     | V_array items \<Rightarrow>
         if length items > maxContainerLength opts
         then Inl (CborError (limit_message ''CBOR array length'' (maxContainerLength opts)))
         else andThen (writeArgument w 4 (length items)) (\<lambda>w. encodeItems w items opts (depth + 1))
     | V_object symbolKey kvs \<Rightarrow>
         if symbolKey then Inl (CborError ''CBOR map keys must be strings'')
         else if length (defined_entries kvs) > maxContainerLength opts
         then Inl (CborError (limit_message ''CBOR map length'' (maxContainerLength opts)))
         else andThen (writeArgument w 5 (length (defined_entries kvs)))
                (\<lambda>w. encodeEntries w kvs opts (depth + 1))
     | other \<Rightarrow> Inl (CborError (''Unsupported CBOR value type: '' @ js_typeof other)))"
| "encodeItems w [] opts depth = Inr w"
| "encodeItems w (v # vs) opts depth =
     (if v = V_undefined then Inl (CborError ''CBOR arrays must not contain holes or undefined values'')
      else andThen (encodeValue w v opts depth) (\<lambda>w. encodeItems w vs opts depth))"
| "encodeEntries w [] opts depth = Inr w"
| "encodeEntries w ((k, v) # kvs) opts depth =
     (if v = V_undefined then encodeEntries w kvs opts depth
      else andThen (encodeText w k opts) (\<lambda>w.
           andThen (encodeValue w v opts depth) (\<lambda>w. encodeEntries w kvs opts depth)))"

declare encodeValue.simps [simp del]

definition encodeCbor :: "js_value \<Rightarrow> cbor_options option \<Rightarrow> protocol_error + bytes" where
  "encodeCbor value opts =
     andThen (resolveOptions opts) (\<lambda>resolved.
     andThen (encodeValue (new_writer (maxByteLength resolved)) value resolved 0) (\<lambda>w.
     Inr (finish w)))"

end
