(* ===== verification/Framing.thy ===== *)
theory Framing
  imports Cbor_Encoder
begin

text \<open>
  Length-prefixed frames: \<open>packages/protocol/src/framing.ts\<close>. A chunk is consumed from its front, so
  \<open>chunk.subarray(chunkOffset)\<close> is the list of the bytes that are left. A \<open>while\<close> loop is a
  \<open>partial_function\<close>: \<open>None\<close> is a loop that does not end. The field \<open>currentPayloadBlock\<close> aliases an
  element of \<open>payloadBlocks\<close>, so it is that element's index.
\<close>

definition FRAME_HEADER_LENGTH :: nat where "FRAME_HEADER_LENGTH = 4"
definition PAYLOAD_BLOCK_SIZE :: nat where "PAYLOAD_BLOCK_SIZE = 64 * 1024"
definition DEFAULT_MAX_FRAME_LENGTH :: nat where "DEFAULT_MAX_FRAME_LENGTH = 16 * 1024 * 1024"

text \<open>The argument is \<open>options?.maxFrameLength\<close>.\<close>

definition resolveMaxFrameLength :: "js_number option \<Rightarrow> protocol_error + nat" where
  "resolveMaxFrameLength opt =
     resolveLimit ''maxFrameLength''
       (case opt of Some v \<Rightarrow> v | None \<Rightarrow> JInt (int DEFAULT_MAX_FRAME_LENGTH)) MAX_UINT32"

section \<open>Whole frames\<close>

definition encodeFrame :: "bytes \<Rightarrow> protocol_error + bytes" where
  "encodeFrame payload =
     (if length payload > MAX_UINT32
      then Inl (RangeError ''Frame payload exceeds the unsigned 32-bit length limit'')
      else let n = length payload; frame = replicate (FRAME_HEADER_LENGTH + n) 0
           in Inr (set_bytes (frame[0 := word_of_nat (n div 2 ^ 24), 1 := word_of_nat (n div 2 ^ 16),
                                    2 := word_of_nat (n div 2 ^ 8), 3 := word_of_nat n])
                     FRAME_HEADER_LENGTH payload))"

definition frame_length :: "bytes \<Rightarrow> nat" where
  "frame_length b =
     unat (b ! 0) * 0x1000000 + unat (b ! 1) * 0x10000 + unat (b ! 2) * 0x100 + unat (b ! 3)"

definition frame_limit_message :: "nat \<Rightarrow> nat \<Rightarrow> string" where
  "frame_limit_message n limit =
     ''Frame length '' @ show_nat n @ '' exceeds configured limit of '' @ show_nat limit"

definition assertCompleteFrame :: "bytes \<Rightarrow> js_number option \<Rightarrow> protocol_error + unit" where
  "assertCompleteFrame frame opt =
     (if length frame < FRAME_HEADER_LENGTH
      then Inl (FrameError ''Frame does not contain a complete length prefix'')
      else andThen (resolveMaxFrameLength opt) (\<lambda>limit.
        if frame_length frame > limit
        then Inl (FrameError (frame_limit_message (frame_length frame) limit))
        else if length frame \<noteq> FRAME_HEADER_LENGTH + frame_length frame
        then Inl (FrameError ''Frame must contain exactly one complete payload'')
        else Inr ()))"

section \<open>The incremental decoder\<close>

datatype decoder_state = D_open | D_ended | D_failed

record frame_decoder =
  fd_header :: bytes
  fd_headerLength :: nat
  fd_maxFrameLength :: nat
  fd_payloadBlocks :: "bytes list"
  fd_currentPayloadBlock :: "nat option"
  fd_currentPayloadBlockLength :: nat
  fd_expectedPayloadLength :: "nat option"
  fd_payloadLength :: nat
  fd_state :: decoder_state

definition new_frame_decoder :: "js_number option \<Rightarrow> protocol_error + frame_decoder" where
  "new_frame_decoder opt =
     andThen (resolveMaxFrameLength opt) (\<lambda>limit.
     Inr \<lparr>fd_header = replicate FRAME_HEADER_LENGTH 0, fd_headerLength = 0, fd_maxFrameLength = limit,
          fd_payloadBlocks = [], fd_currentPayloadBlock = None, fd_currentPayloadBlockLength = 0,
          fd_expectedPayloadLength = None, fd_payloadLength = 0, fd_state = D_open\<rparr>)"

text \<open>The assignments that both a started and a finished payload make.\<close>

definition clear_payload :: "nat option \<Rightarrow> frame_decoder \<Rightarrow> frame_decoder" where
  "clear_payload expected fd =
     fd\<lparr>fd_payloadBlocks := [], fd_currentPayloadBlock := None, fd_currentPayloadBlockLength := 0,
        fd_expectedPayloadLength := expected, fd_payloadLength := 0\<rparr>"

definition failed_decoder :: "frame_decoder \<Rightarrow> frame_decoder" where
  "failed_decoder fd = clear_payload None (fd\<lparr>fd_state := D_failed, fd_headerLength := 0\<rparr>)"

text \<open>The current block's index, after a new block has been allocated where there is none or it is full.\<close>

definition current_block :: "nat \<Rightarrow> frame_decoder \<Rightarrow> frame_decoder \<times> nat" where
  "current_block expected fd =
     (let allocated =
        (fd\<lparr>fd_payloadBlocks := fd_payloadBlocks fd @
              [replicate (min PAYLOAD_BLOCK_SIZE (expected - fd_payloadLength fd)) 0],
            fd_currentPayloadBlock := Some (length (fd_payloadBlocks fd)),
            fd_currentPayloadBlockLength := 0\<rparr>, length (fd_payloadBlocks fd))
      in case fd_currentPayloadBlock fd of
           None \<Rightarrow> allocated
         | Some i \<Rightarrow> if fd_currentPayloadBlockLength fd = length (fd_payloadBlocks fd ! i)
                     then allocated else (fd, i))"

definition copy_block :: "nat \<Rightarrow> frame_decoder \<Rightarrow> bytes \<Rightarrow> frame_decoder \<times> bytes" where
  "copy_block expected fd chunk =
     (case current_block expected fd of (fd, i) \<Rightarrow>
        let block = fd_payloadBlocks fd ! i;
            n = min (length block - fd_currentPayloadBlockLength fd) (length chunk)
        in (fd\<lparr>fd_payloadBlocks := (fd_payloadBlocks fd)
                  [i := set_bytes block (fd_currentPayloadBlockLength fd) (take n chunk)],
               fd_currentPayloadBlockLength := fd_currentPayloadBlockLength fd + n,
               fd_payloadLength := fd_payloadLength fd + n\<rparr>, drop n chunk))"

partial_function (option) copy_payload ::
  "nat \<Rightarrow> frame_decoder \<Rightarrow> bytes \<Rightarrow> (frame_decoder \<times> bytes) option" where
  "copy_payload expected fd chunk =
     (if chunk \<noteq> [] \<and> fd_payloadLength fd < expected
      then copy_payload expected (fst (copy_block expected fd chunk)) (snd (copy_block expected fd chunk))
      else Some (fd, chunk))"

definition join_blocks :: "nat \<Rightarrow> bytes list \<Rightarrow> bytes" where
  "join_blocks n blocks =
     (if length blocks = 1 then blocks ! 0
      else fst (foldl (\<lambda>(payload, off) block. (set_bytes payload off block, off + length block))
             (replicate n 0, 0) blocks))"

text \<open>The payload part of an iteration: the decoder, the bytes left and the frames completed.\<close>

definition payload_step ::
  "nat \<Rightarrow> frame_decoder \<Rightarrow> bytes \<Rightarrow> (frame_decoder \<times> (protocol_error + bytes \<times> bytes list)) option" where
  "payload_step expected fd chunk =
     map_option (\<lambda>(fd, chunk).
       if fd_payloadLength fd = expected
       then (clear_payload None fd, Inr (chunk, [join_blocks expected (fd_payloadBlocks fd)]))
       else (fd, Inr (chunk, [])))
     (copy_payload expected fd chunk)"

definition push_step ::
  "frame_decoder \<Rightarrow> bytes \<Rightarrow> (frame_decoder \<times> (protocol_error + bytes \<times> bytes list)) option" where
  "push_step fd chunk =
     (case fd_expectedPayloadLength fd of
        Some expected \<Rightarrow> payload_step expected fd chunk
      | None \<Rightarrow>
          let n = min (FRAME_HEADER_LENGTH - fd_headerLength fd) (length chunk);
              fd = fd\<lparr>fd_header := set_bytes (fd_header fd) (fd_headerLength fd) (take n chunk),
                      fd_headerLength := fd_headerLength fd + n\<rparr>;
              chunk = drop n chunk
          in if fd_headerLength fd < FRAME_HEADER_LENGTH then Some (fd, Inr (chunk, []))
             else let frameLength = frame_length (fd_header fd); fd = fd\<lparr>fd_headerLength := 0\<rparr>
                  in if frameLength > fd_maxFrameLength fd
                     then Some (failed_decoder fd,
                            Inl (FrameError (frame_limit_message frameLength (fd_maxFrameLength fd))))
                     else if frameLength = 0 then Some (fd, Inr (chunk, [[]]))
                     else payload_step frameLength (clear_payload (Some frameLength) fd) chunk)"

partial_function (option) push_loop ::
  "frame_decoder \<Rightarrow> bytes \<Rightarrow> bytes list \<Rightarrow> (frame_decoder \<times> (protocol_error + bytes list)) option" where
  "push_loop fd chunk frames =
     (if chunk = [] then Some (fd, Inr frames)
      else Option.bind (push_step fd chunk) (\<lambda>r.
        case snd r of
          Inl e \<Rightarrow> Some (fst r, Inl e)
        | Inr p \<Rightarrow> push_loop (fst r) (fst p) (frames @ snd p)))"

definition not_open :: "frame_decoder \<Rightarrow> protocol_error option" where
  "not_open fd =
     (case fd_state fd of
        D_ended \<Rightarrow> Some (FrameError ''Frame decoder has ended'')
      | D_failed \<Rightarrow> Some (FrameError ''Frame decoder has failed'')
      | D_open \<Rightarrow> None)"

definition push_frames ::
  "frame_decoder \<Rightarrow> bytes \<Rightarrow> (frame_decoder \<times> (protocol_error + bytes list)) option" where
  "push_frames fd chunk =
     (case not_open fd of Some e \<Rightarrow> Some (fd, Inl e) | None \<Rightarrow> push_loop fd chunk [])"

definition end_frames :: "frame_decoder \<Rightarrow> frame_decoder \<times> (protocol_error + unit)" where
  "end_frames fd =
     (case not_open fd of
        Some e \<Rightarrow> (fd, Inl e)
      | None \<Rightarrow>
          if fd_headerLength fd \<noteq> 0 \<or> fd_expectedPayloadLength fd \<noteq> None
          then (failed_decoder fd, Inl (FrameError ''Truncated frame at end of stream''))
          else (fd\<lparr>fd_state := D_ended\<rparr>, Inr ()))"

declare copy_payload.simps [code] push_loop.simps [code]

end
