(* ===== verification/Cbor_Spec.thy ===== *)
theory Cbor_Spec
  imports Cbor_Encoder
begin

text \<open>
  The reference encoding and the proof that the encoder produces it. \<open>cbor_bytes\<close> gives the bytes of a
  value directly, \<open>encodable\<close> says which values the strict subset accepts. The writer's growing
  buffer is used through the interface \<open>byte_sink\<close>, an append-only sequence of bytes with a limit.
\<close>

section \<open>The reference encoding\<close>

definition be_bytes :: "nat \<Rightarrow> nat \<Rightarrow> bytes" where
  "be_bytes n v = map (\<lambda>i. word_of_nat (v div 256 ^ i)) (rev [0..<n])"

definition head_bytes :: "nat \<Rightarrow> nat \<Rightarrow> bytes" where
  "head_bytes major v =
     (if v < 24 then [initial_byte major v]
      else if v < 256 then initial_byte major 24 # be_bytes 1 v
      else if v < 256 ^ 2 then initial_byte major 25 # be_bytes 2 v
      else if v < 256 ^ 4 then initial_byte major 26 # be_bytes 4 v
      else initial_byte major 27 # be_bytes 8 v)"

definition text_bytes :: "js_string \<Rightarrow> bytes" where
  "text_bytes s = head_bytes 3 (length (utf8_encode s)) @ utf8_encode s"

fun number_bytes :: "js_number \<Rightarrow> bytes" where
  "number_bytes (JInt i) = (if i \<ge> 0 then head_bytes 0 (nat i) else head_bytes 1 (nat (- 1 - i)))"
| "number_bytes (JFrac b) = 0xfb # be_bytes 8 (unat b)"
| "number_bytes _ = 0xfb # be_bytes 8 0x8000000000000000"

fun cbor_bytes :: "js_value \<Rightarrow> bytes" where
  "cbor_bytes V_undefined = []"
| "cbor_bytes V_null = [0xf6]"
| "cbor_bytes (V_bool b) = [if b then 0xf5 else 0xf4]"
| "cbor_bytes (V_number n) = number_bytes n"
| "cbor_bytes (V_string s) = text_bytes s"
| "cbor_bytes (V_bytes bs) = head_bytes 2 (length bs) @ bs"
| "cbor_bytes (V_array vs) = head_bytes 4 (length vs) @ concat (map cbor_bytes vs)"
| "cbor_bytes (V_object symbolKey kvs) =
     head_bytes 5 (length (defined_entries kvs)) @
     concat (map (\<lambda>(k, v). if v = V_undefined then [] else text_bytes k @ cbor_bytes v) kvs)"
| "cbor_bytes (V_other t) = []"

definition text_ok :: "resolved_cbor_options \<Rightarrow> js_string \<Rightarrow> bool" where
  "text_ok opts s \<longleftrightarrow> length (utf8_encode s) \<le> maxByteLength opts \<and> well_formed s"

fun encodable :: "resolved_cbor_options \<Rightarrow> nat \<Rightarrow> js_value \<Rightarrow> bool" where
  "encodable opts d V_undefined = False"
| "encodable opts d V_null = (d \<le> maxDepth opts)"
| "encodable opts d (V_bool b) = (d \<le> maxDepth opts)"
| "encodable opts d (V_number n) =
     (d \<le> maxDepth opts \<and> isFinite n \<and> (isInteger n \<longrightarrow> isSafeInteger n))"
| "encodable opts d (V_string s) = (d \<le> maxDepth opts \<and> text_ok opts s)"
| "encodable opts d (V_bytes bs) = (d \<le> maxDepth opts \<and> length bs \<le> maxByteLength opts)"
| "encodable opts d (V_array vs) =
     (d \<le> maxDepth opts \<and> length vs \<le> maxContainerLength opts \<and> list_all (encodable opts (Suc d)) vs)"
| "encodable opts d (V_object symbolKey kvs) =
     (d \<le> maxDepth opts \<and> \<not> symbolKey \<and> length (defined_entries kvs) \<le> maxContainerLength opts \<and>
      list_all (\<lambda>(k, v). v = V_undefined \<or> text_ok opts k \<and> encodable opts (Suc d) v) kvs)"
| "encodable opts d (V_other t) = False"

section \<open>An append-only sequence of bytes with a limit\<close>

locale byte_sink =
  fixes ok :: "'s \<Rightarrow> bool"
    and content :: "'s \<Rightarrow> bytes"
    and limit :: "'s \<Rightarrow> nat"
    and put :: "'s \<Rightarrow> bytes \<Rightarrow> 'e + 's"
  assumes put_fits: "ok s \<Longrightarrow> length (content s) + length bs \<le> limit s \<Longrightarrow>
      \<exists>t. put s bs = Inr t \<and> ok t \<and> content t = content s @ bs \<and> limit t = limit s"
    and put_full: "ok s \<Longrightarrow> length (content s) + length bs > limit s \<Longrightarrow> \<exists>e. put s bs = Inl e"
begin

text \<open>
  A result that emits \<open>bs\<close> if \<open>P\<close>: it returns exactly when \<open>P\<close> holds and the bytes fit, and then
  they are appended.
\<close>

definition emits :: "'s \<Rightarrow> bytes \<Rightarrow> bool \<Rightarrow> 'e + 's \<Rightarrow> bool" where
  "emits s bs P r \<longleftrightarrow>
     (if P \<and> length (content s) + length bs \<le> limit s
      then \<exists>t. r = Inr t \<and> ok t \<and> content t = content s @ bs \<and> limit t = limit s
      else \<exists>e. r = Inl e)"

lemma emits_put: "ok s \<Longrightarrow> emits s bs True (put s bs)"
  using put_fits put_full by (simp add: emits_def not_le)

lemma emits_return: "ok s \<Longrightarrow> length (content s) \<le> limit s \<Longrightarrow> emits s [] True (Inr s)"
  by (simp add: emits_def)

lemma emits_throw: "\<not> P \<Longrightarrow> emits s bs P (Inl e)"
  by (simp add: emits_def)

lemma emits_then:
  assumes "emits s bs P r"
    and "\<And>t. r = Inr t \<Longrightarrow> ok t \<Longrightarrow> emits t cs Q (f t)"
  shows "emits s (bs @ cs) (P \<and> Q) (andThen r f)"
proof (cases "P \<and> length (content s) + length bs \<le> limit s")
  case True
  with assms(1) obtain t where t: "r = Inr t" "ok t" "content t = content s @ bs" "limit t = limit s"
    by (auto simp: emits_def)
  with True assms(2) [of t] show ?thesis by (auto simp: emits_def add.assoc split: if_splits)
next
  case False
  with assms(1) obtain e where "r = Inl e" by (auto simp: emits_def split: if_splits)
  with False show ?thesis by (auto simp: emits_def)
qed

lemma emits_cong: "emits s bs P r \<Longrightarrow> bs = bs' \<Longrightarrow> P = P' \<Longrightarrow> emits s bs' P' r"
  by simp

lemma emits_guard:
  assumes "c \<Longrightarrow> emits s bs P r"
  shows "emits s bs (c \<and> P) (if c then r else Inl e)"
  using assms by (simp add: emits_def)

lemma emits_result:
  "emits s bs P r \<Longrightarrow> r = Inr t \<longleftrightarrow> P \<and> length (content s) + length bs \<le> limit s \<and> r = Inr t"
  by (auto simp: emits_def split: if_splits)

end

section \<open>The writer is such a sequence\<close>

definition writer_ok :: "cbor_writer \<Rightarrow> bool" where
  "writer_ok w \<longleftrightarrow> cw_offset w \<le> length (cw_buffer w) \<and> length (cw_buffer w) \<le> cw_maxByteLength w"

lemma grow_capacity_eq:
  assumes "required \<le> limit"
  shows "grow_capacity limit required c =
    (if c < required then min limit (max required (c * 2)) else c)"
  using assms unfolding grow_capacity_def by (subst while_unfold) (simp add: while_unfold)

text \<open>After a successful \<open>ensureCapacity\<close> the new bytes fit into the buffer.\<close>

lemma ensureCapacity_fits:
  assumes "writer_ok w" and "cw_offset w + n \<le> cw_maxByteLength w"
  obtains buf where "ensureCapacity w n = Inr (w\<lparr>cw_buffer := buf\<rparr>)"
    "cw_offset w + n \<le> length buf" "length buf \<le> cw_maxByteLength w"
    "take (cw_offset w) buf = finish w"
proof (cases "cw_offset w + n \<le> length (cw_buffer w)")
  case True
  with assms show ?thesis
    by (intro that [of "cw_buffer w"]) (simp_all add: ensureCapacity_def Let_def finish_def writer_ok_def)
next
  case False
  let ?c = "grow_capacity (cw_maxByteLength w) (cw_offset w + n) (max 1 (length (cw_buffer w)))"
  have "cw_offset w + n \<le> ?c" "?c \<le> cw_maxByteLength w"
    using False assms by (auto simp: grow_capacity_eq writer_ok_def)
  with False assms show ?thesis
    by (intro that [of "cw_buffer w @ replicate (?c - length (cw_buffer w)) 0"])
      (auto simp: ensureCapacity_def Let_def finish_def writer_ok_def)
qed

lemma ensureCapacity_full:
  "cw_offset w + n > cw_maxByteLength w \<Longrightarrow> \<exists>e. ensureCapacity w n = Inl e"
  by (simp add: ensureCapacity_def)

lemma length_set_bytes: "off + length bs \<le> length buf \<Longrightarrow> length (set_bytes buf off bs) = length buf"
  by (simp add: set_bytes_def)

lemma take_set_bytes:
  "off + length bs \<le> length buf \<Longrightarrow> take (off + length bs) (set_bytes buf off bs) = take off buf @ bs"
  by (simp add: set_bytes_def)

lemma writer_length: "writer_ok w \<Longrightarrow> length (finish w) = cw_offset w"
  by (simp add: finish_def writer_ok_def)

interpretation writer: byte_sink writer_ok finish cw_maxByteLength writeBytes
proof (unfold_locales, goal_cases)
  case (1 w bs)
  then obtain buf where buf: "ensureCapacity w (length bs) = Inr (w\<lparr>cw_buffer := buf\<rparr>)"
    "cw_offset w + length bs \<le> length buf" "length buf \<le> cw_maxByteLength w"
    "take (cw_offset w) buf = finish w"
    by (metis ensureCapacity_fits writer_length)
  then show ?case
    by (simp add: writeBytes_def writer_ok_def length_set_bytes take_set_bytes finish_def)
next
  case (2 w bs)
  then show ?case
    using ensureCapacity_full [of w "length bs"] by (auto simp: writeBytes_def writer_length)
qed

text \<open>The other write operations write the same bytes as \<open>writeBytes\<close>.\<close>

lemma set_bytes_single: "off < length buf \<Longrightarrow> buf[off := b] = set_bytes buf off [b]"
  by (simp add: set_bytes_def upd_conv_take_nth_drop)

lemma set_bytes_append:
  assumes "off + length bs + length cs \<le> length buf"
  shows "set_bytes (set_bytes buf off bs) (off + length bs) cs = set_bytes buf off (bs @ cs)"
proof -
  have "drop (off + length bs + length cs) (set_bytes buf off bs) = drop (off + length bs + length cs) buf"
    using assms by (simp add: set_bytes_def ac_simps)
  with assms show ?thesis
    by (simp add: set_bytes_def [of _ "off + length bs"] set_bytes_def [of _ _ "bs @ cs"] take_set_bytes
        add.assoc)
qed

lemma set_bytes_snoc:
  "off + length bs < length buf \<Longrightarrow>
     (set_bytes buf off bs)[off + length bs := b] = set_bytes buf off (bs @ [b])"
  by (simp add: set_bytes_single length_set_bytes set_bytes_append)

lemma set_bytes_next:
  "Suc off < length buf \<Longrightarrow> (set_bytes buf off [x])[Suc off := b] = set_bytes buf off [x, b]"
  "Suc (Suc off) < length buf \<Longrightarrow>
     (set_bytes buf off [x, y])[Suc (Suc off) := b] = set_bytes buf off [x, y, b]"
  "off + 3 < length buf \<Longrightarrow> (set_bytes buf off [x, y, z])[off + 3 := b] = set_bytes buf off [x, y, z, b]"
  using set_bytes_snoc [of off "[x]" buf b] set_bytes_snoc [of off "[x, y]" buf b]
    set_bytes_snoc [of off "[x, y, z]" buf b]
  by (simp_all add: eval_nat_numeral)

text \<open>An operation that reserves \<open>n\<close> bytes and stores \<open>bs\<close>.\<close>

lemma reserve_eq_writeBytes:
  assumes "writer_ok w" and "n = length bs"
    and "\<And>buf off. off + n \<le> length buf \<Longrightarrow> store buf off = set_bytes buf off bs"
  shows "andThen (ensureCapacity w n)
      (\<lambda>w. Inr (w\<lparr>cw_buffer := store (cw_buffer w) (cw_offset w), cw_offset := cw_offset w + n\<rparr>))
    = writeBytes w bs"
proof (cases "cw_offset w + n \<le> cw_maxByteLength w")
  case True
  with assms(1) obtain buf where "ensureCapacity w n = Inr (w\<lparr>cw_buffer := buf\<rparr>)"
    "cw_offset w + n \<le> length buf" by (metis ensureCapacity_fits)
  with assms(2,3) show ?thesis by (simp add: writeBytes_def)
next
  case False
  then obtain e where "ensureCapacity w n = Inl e" using ensureCapacity_full by fastforce
  with assms(2) show ?thesis by (simp add: writeBytes_def)
qed

lemma writeByte_eq: "writer_ok w \<Longrightarrow> writeByte w b = writeBytes w [b]"
  unfolding writeByte_def
  by (rule reserve_eq_writeBytes [where store = "\<lambda>buf off. buf[off := b]"])
    (simp_all add: set_bytes_single)

lemma be_bytes_2: "be_bytes 2 v = [word_of_nat (v div 2 ^ 8), word_of_nat v]"
  by (simp add: be_bytes_def upt_rec)

lemma be_bytes_4: "be_bytes 4 v =
    [word_of_nat (v div 2 ^ 24), word_of_nat (v div 2 ^ 16), word_of_nat (v div 2 ^ 8), word_of_nat v]"
  by (simp add: be_bytes_def upt_rec)

lemma writeUint16_eq: "writer_ok w \<Longrightarrow> writeUint16 w v = writeBytes w (be_bytes 2 v)"
  unfolding writeUint16_def be_bytes_2
  by (rule reserve_eq_writeBytes [where store = "\<lambda>buf off. buf[off := word_of_nat (v div 2 ^ 8),
      off + 1 := word_of_nat v]"])
    (simp_all add: set_bytes_single set_bytes_next)

lemma writeUint32_eq: "writer_ok w \<Longrightarrow> writeUint32 w v = writeBytes w (be_bytes 4 v)"
  unfolding writeUint32_def be_bytes_4
  by (rule reserve_eq_writeBytes [where store = "\<lambda>buf off. buf[off := word_of_nat (v div 2 ^ 24),
      off + 1 := word_of_nat (v div 2 ^ 16), off + 2 := word_of_nat (v div 2 ^ 8),
      off + 3 := word_of_nat v]"])
    (simp_all add: set_bytes_single set_bytes_next)

lemma be_bytes_Suc: "be_bytes (Suc n) v = word_of_nat (v div 256 ^ n) # be_bytes n v"
  by (simp add: be_bytes_def)

lemma be_bytes_0 [simp]: "be_bytes 0 v = []"
  by (simp add: be_bytes_def)

lemma length_be_bytes [simp]: "length (be_bytes n v) = n"
  by (simp add: be_bytes_def)

lemma be_bytes_add: "be_bytes (m + n) v = be_bytes m (v div 256 ^ n) @ be_bytes n v"
proof (induction m)
  case (Suc m)
  have "v div 256 ^ (m + n) = v div 256 ^ n div 256 ^ m"
    by (metis div_mult2_eq power_add mult.commute)
  then show ?case using Suc by (simp add: be_bytes_Suc)
qed simp

lemma mod_mult_div: "v mod (a * b) div a = v div a mod (b::nat)"
  by (cases "a = 0") (simp_all add: mod_mult2_eq)

lemma be_bytes_mod: "be_bytes n (v mod 256 ^ n) = be_bytes n v"
proof -
  have "v mod 256 ^ n div 256 ^ i mod 256 = v div 256 ^ i mod 256" if i: "i < n" for i
  proof -
    obtain k where "n = Suc (i + k)" using less_imp_Suc_add [OF i] by blast
    then have "(256::nat) ^ n = 256 ^ i * (256 * 256 ^ k)" by (simp add: power_add)
    then have "v mod 256 ^ n div 256 ^ i = v div 256 ^ i mod (256 * 256 ^ k)"
      by (simp only: mod_mult_div)
    then show ?thesis by (simp only: mod_mod_cancel dvd_triv_left)
  qed
  then have "(word_of_nat (v mod 256 ^ n div 256 ^ i) :: 8 word) = word_of_nat (v div 256 ^ i)" if "i < n" for i
    using that by (simp add: word_of_nat_eq_iff take_bit_eq_mod)
  then show ?thesis unfolding be_bytes_def by (intro map_cong refl) simp
qed

lemma writeUint64_emits: "writer_ok w \<Longrightarrow> writer.emits w (be_bytes 8 v) True (writeUint64 w v)"
proof -
  assume ok: "writer_ok w"
  have "v - v div UINT32_BASE * UINT32_BASE = v mod 256 ^ 4"
    by (simp add: UINT32_BASE_def minus_div_mult_eq_mod)
  then have "writeUint64 w v = andThen (writeUint32 w (v div 256 ^ 4)) (\<lambda>w. writeUint32 w (v mod 256 ^ 4))"
    by (simp add: writeUint64_def UINT32_BASE_def)
  moreover have "writer.emits w (be_bytes 4 (v div 256 ^ 4) @ be_bytes 4 v) (True \<and> True) \<dots>"
    using ok by (intro writer.emits_then) (simp_all only: writeUint32_eq be_bytes_mod writer.emits_put)
  moreover have "be_bytes 8 v = be_bytes 4 (v div 256 ^ 4) @ be_bytes 4 v"
    using be_bytes_add [of 4 4 v] by simp
  ultimately show ?thesis by simp
qed

lemma writeFloat64_eq: "writer_ok w \<Longrightarrow> writeFloat64 w b = writeBytes w (0xfb # be_bytes 8 (unat b))"
proof -
  have bytes: "float64_bytes b = be_bytes 8 (unat b)"
    by (simp add: float64_bytes_def be_bytes_def upt_rec)
  have "set_bytes (buf[off := 0xfb]) (off + 1) (be_bytes 8 (unat b)) = set_bytes buf off (0xfb # be_bytes 8 (unat b))"
    if "off + 9 \<le> length buf" for buf off
    using set_bytes_append [of off "[0xfb]" "be_bytes 8 (unat b)" buf] that
    by (simp add: set_bytes_single be_bytes_def)
  moreover assume "writer_ok w"
  ultimately show ?thesis
    unfolding writeFloat64_def bytes
    by (intro reserve_eq_writeBytes [where store = "\<lambda>buf off. set_bytes (buf[off := 0xfb]) (off + 1) (be_bytes 8 (unat b))"])
      (simp_all add: be_bytes_def)
qed

section \<open>The encoder emits the reference encoding\<close>

lemma writer_emits_then:
  assumes "writer.emits w bs P r" and "\<And>t. r = Inr t \<Longrightarrow> writer_ok t \<Longrightarrow> writer.emits t cs Q (f t)"
    and "bs @ cs = ds" and "P \<and> Q \<longleftrightarrow> R"
  shows "writer.emits w ds R (andThen r f)"
  using writer.emits_then [OF assms(1,2)] assms(3,4) by simp

lemma writer_return: "writer_ok w \<Longrightarrow> writer.emits w [] True (Inr w)"
  by (rule writer.emits_return) (simp_all add: writer_length, simp add: writer_ok_def)

lemma writeByte_emits: "writer_ok w \<Longrightarrow> writer.emits w [b] True (writeByte w b)"
  by (simp add: writeByte_eq writer.emits_put)

lemma writeArgument_emits:
  assumes "writer_ok w"
  shows "writer.emits w (head_bytes major v) True (writeArgument w major v)"
proof -
  have head: "writer.emits w (b # bs) True (andThen (writeByte w b) f)"
    if "\<And>t. writer_ok t \<Longrightarrow> writer.emits t bs True (f t)" for b bs f
    by (rule writer_emits_then [OF writeByte_emits [OF assms]]) (use that in simp_all)
  have "be_bytes 1 v = [word_of_nat v]" by (simp add: be_bytes_def)
  then show ?thesis
    using assms unfolding writeArgument_def head_bytes_def MAX_UINT32_def
    by (auto intro!: head writeByte_emits writeUint64_emits
        simp: writeUint16_eq writeUint32_eq writer.emits_put)
qed

lemma encodeText_emits:
  assumes "writer_ok w"
  shows "writer.emits w (text_bytes s) (text_ok opts s) (encodeText w s opts)"
proof -
  have "writer.emits w (text_bytes s) True
      (andThen (writeArgument w 3 (length (utf8_encode s))) (\<lambda>w. writeBytes w (utf8_encode s)))"
    using assms unfolding text_bytes_def
    by (intro writer_emits_then [OF writeArgument_emits]) (simp_all add: writer.emits_put)
  then show ?thesis
    by (auto simp: encodeText_def Let_def text_ok_def text_roundtrip_iff writer.emits_throw)
qed

lemma encodeNumber_emits:
  assumes "writer_ok w"
  shows "writer.emits w (number_bytes n) (isFinite n \<and> (isInteger n \<longrightarrow> isSafeInteger n)) (encodeNumber w n)"
  using assms
  by (cases n) (auto simp: encodeNumber_def writeArgument_emits writer.emits_throw writeFloat64_eq
      writer.emits_put simp del: isSafeInteger.simps(1))

lemma depth_check_emits:
  assumes "d \<le> maxDepth opts \<Longrightarrow> writer.emits w bs P r"
  shows "writer.emits w bs (d \<le> maxDepth opts \<and> P) (andThen (depth_check opts d) (\<lambda>_. r))"
  using assms by (auto simp: depth_check_def writer.emits_throw)

lemma encode_emits:
  "writer_ok w \<Longrightarrow> writer.emits w (cbor_bytes v) (encodable opts d v) (encodeValue w v opts d)"
  "writer_ok w \<Longrightarrow> writer.emits w (concat (map cbor_bytes vs)) (list_all (encodable opts d) vs)
     (encodeItems w vs opts d)"
  "writer_ok w \<Longrightarrow> writer.emits w
     (concat (map (\<lambda>(k, v). if v = V_undefined then [] else text_bytes k @ cbor_bytes v) kvs))
     (list_all (\<lambda>(k, v). v = V_undefined \<or> text_ok opts k \<and> encodable opts d v) kvs)
     (encodeEntries w kvs opts d)"
proof (induction w v opts d and w vs opts d and w kvs opts d
    rule: encodeValue_encodeItems_encodeEntries.induct)
  case (1 w v opts d)
  note ok = 1(3)
  show ?case
  proof (cases v)
    case (V_array items)
    have "writer.emits w (cbor_bytes v) (list_all (encodable opts (Suc d)) items)
        (andThen (writeArgument w 4 (length items)) (\<lambda>w. encodeItems w items opts (d + 1)))"
      if "d \<le> maxDepth opts" "length items \<le> maxContainerLength opts"
      using 1(1) [of "()" items] that ok V_array
      by (intro writer_emits_then [OF writeArgument_emits]) (auto simp: depth_check_def)
    then show ?thesis unfolding encodeValue.simps V_array
      by (intro writer.emits_cong [OF depth_check_emits]) (auto simp: writer.emits_throw)
  next
    case (V_object symbolKey kvs)
    have "writer.emits w (cbor_bytes v)
        (list_all (\<lambda>(k, v). v = V_undefined \<or> text_ok opts k \<and> encodable opts (Suc d) v) kvs)
        (andThen (writeArgument w 5 (length (defined_entries kvs)))
          (\<lambda>w. encodeEntries w kvs opts (d + 1)))"
      if "d \<le> maxDepth opts" "\<not> symbolKey" "length (defined_entries kvs) \<le> maxContainerLength opts"
      using 1(2) [of "()" symbolKey kvs] that ok V_object
      by (intro writer_emits_then [OF writeArgument_emits]) (auto simp: depth_check_def)
    then show ?thesis unfolding encodeValue.simps V_object
      by (intro writer.emits_cong [OF depth_check_emits]) (auto simp: writer.emits_throw)
  next
    case (V_bytes bs)
    have "writer.emits w (cbor_bytes v) True (andThen (writeArgument w 2 (length bs)) (\<lambda>w. writeBytes w bs))"
      using ok V_bytes by (intro writer_emits_then [OF writeArgument_emits]) (auto simp: writer.emits_put)
    then show ?thesis unfolding encodeValue.simps V_bytes
      by (intro writer.emits_cong [OF depth_check_emits]) (auto simp: writer.emits_throw)
  next
    case (V_number n)
    then show ?thesis using encodeNumber_emits [OF ok] unfolding encodeValue.simps
      by (intro writer.emits_cong [OF depth_check_emits]) auto
  next
    case (V_string s)
    then show ?thesis using encodeText_emits [OF ok] unfolding encodeValue.simps
      by (intro writer.emits_cong [OF depth_check_emits]) auto
  qed (use ok writeByte_emits in \<open>simp_all add: encodeValue.simps depth_check_def writer.emits_throw\<close>)
next
  case (3 w v vs opts d)
  then show ?case
    by (auto simp: writer.emits_throw intro!: writer_emits_then)
next
  case (5 w k v kvs opts d)
  show ?case
  proof (cases "v = V_undefined")
    case True
    with 5 show ?thesis by simp
  next
    case False
    have entry: "writer.emits t (cbor_bytes v @ concat (map (\<lambda>(k, v). if v = V_undefined then []
          else text_bytes k @ cbor_bytes v) kvs))
        (encodable opts d v \<and> list_all (\<lambda>(k, v). v = V_undefined \<or> text_ok opts k \<and> encodable opts d v) kvs)
        (andThen (encodeValue t v opts d) (\<lambda>w. encodeEntries w kvs opts d))"
      if "encodeText w k opts = Inr t" "writer_ok t" for t
      using 5(2,3) [OF False that(1)] that(2) by (intro writer_emits_then) auto
    show ?thesis using False
      by (simp, intro writer_emits_then [OF encodeText_emits [OF 5(4)] entry]) auto
  qed
qed (simp_all add: writer_return)

lemma new_writer_ok: "writer_ok (new_writer n)" "finish (new_writer n) = []"
    "cw_maxByteLength (new_writer n) = n"
  by (simp_all add: writer_ok_def new_writer_def finish_def)

lemma encodeCbor_Inr:
  "encodeCbor v opts = Inr bs \<longleftrightarrow>
     (\<exists>r. resolveOptions opts = Inr r \<and> encodable r 0 v \<and> length (cbor_bytes v) \<le> maxByteLength r \<and>
       bs = cbor_bytes v)"
proof (cases "resolveOptions opts")
  case (Inr r)
  have "writer.emits (new_writer (maxByteLength r)) (cbor_bytes v) (encodable r 0 v)
      (encodeValue (new_writer (maxByteLength r)) v r 0)"
    by (rule encode_emits(1)) (rule new_writer_ok)
  with Inr show ?thesis
    by (auto simp: encodeCbor_def writer.emits_def new_writer_ok split: if_splits)
qed (simp add: encodeCbor_def)

end
