(* ===== verification/Cbor_Decoder.thy ===== *)
theory Cbor_Decoder
  imports Cbor_Encoder
begin

text \<open>
  The strict CBOR decoder: \<open>packages/protocol/src/cbor/decoder.ts\<close>. The reader's \<open>bytes\<close> and
  \<open>options\<close> are constant arguments and its \<open>offset\<close> is passed through. An object keeps its entries in
  the order in which the decoder defines them.
\<close>

section \<open>The reader\<close>

definition truncated :: "protocol_error + 'a" where
  "truncated = Inl (CborError ''Truncated CBOR payload'')"

definition readByte :: "bytes \<Rightarrow> nat \<Rightarrow> protocol_error + nat \<times> nat" where
  "readByte bs off = (if off \<ge> length bs then truncated else Inr (unat (bs ! off), off + 1))"

definition readBytes :: "bytes \<Rightarrow> nat \<Rightarrow> nat \<Rightarrow> protocol_error + bytes \<times> nat" where
  "readBytes bs n off =
     (if n > length bs - off then truncated else Inr (take n (drop off bs), off + n))"

definition readUint32 :: "bytes \<Rightarrow> nat \<Rightarrow> protocol_error + nat \<times> nat" where
  "readUint32 bs off =
     andThen (readBytes bs 4 off) (\<lambda>(b, off).
     Inr (unat (b ! 0) * 0x1000000 + unat (b ! 1) * 0x10000 + unat (b ! 2) * 0x100 + unat (b ! 3), off))"

definition readArgument :: "bytes \<Rightarrow> nat \<Rightarrow> nat \<Rightarrow> protocol_error + nat \<times> nat" where
  "readArgument bs info off =
     (if info < 24 then Inr (info, off)
      else if info = 24 then readByte bs off
      else if info = 25 then
        andThen (readBytes bs 2 off) (\<lambda>(b, off). Inr (unat (b ! 0) * 0x100 + unat (b ! 1), off))
      else if info = 26 then readUint32 bs off
      else if info = 27 then
        andThen (readUint32 bs off) (\<lambda>(high, off).
        andThen (readUint32 bs off) (\<lambda>(low, off).
        if high > 0x1fffff
        then Inl (CborError ''Decoded CBOR integer or length is outside the safe range'')
        else Inr (high * UINT32_BASE + low, off)))
      else if info = 31 then Inl (CborError ''Indefinite-length CBOR items are not supported'')
      else Inl (CborError ''Malformed CBOR additional information''))"

definition readLength :: "bytes \<Rightarrow> nat \<Rightarrow> string \<Rightarrow> nat \<Rightarrow> nat \<Rightarrow> protocol_error + nat \<times> nat" where
  "readLength bs info kind limit off =
     (if info = 31 then Inl (CborError (''Indefinite-length CBOR '' @ kind @ ''s are not supported''))
      else andThen (readArgument bs info off) (\<lambda>(n, off).
        if n > limit then Inl (CborError (limit_message (''CBOR '' @ kind @ '' length'') limit))
        else Inr (n, off)))"

definition be_value :: "bytes \<Rightarrow> nat" where
  "be_value bs = foldl (\<lambda>a b. a * 256 + unat b) 0 bs"

definition readSimple :: "bytes \<Rightarrow> nat \<Rightarrow> nat \<Rightarrow> protocol_error + js_value \<times> nat" where
  "readSimple bs info off =
     (if info = 20 then Inr (V_bool False, off)
      else if info = 21 then Inr (V_bool True, off)
      else if info = 22 then Inr (V_null, off)
      else if info = 27 then
        andThen (readBytes bs 8 off) (\<lambda>(b, off).
        let n = float_of_bits (word_of_nat (be_value b))
        in if \<not> isFinite n then Inl (CborError ''Decoded CBOR number must be finite'')
           else if isInteger n \<and> \<not> isSafeInteger n
           then Inl (CborError ''Decoded CBOR integer is outside the safe range'')
           else Inr (V_number n, off))
      else if info = 31 then Inl (CborError ''CBOR break marker is not supported'')
      else Inl (CborError ''Unsupported CBOR simple value or floating-point width''))"

definition readText :: "resolved_cbor_options \<Rightarrow> bytes \<Rightarrow> nat \<Rightarrow> nat \<Rightarrow> protocol_error + js_value \<times> nat" where
  "readText opts bs info off =
     andThen (readLength bs info ''text string'' (maxByteLength opts) off) (\<lambda>(n, off).
     andThen (readBytes bs n off) (\<lambda>(b, off).
     case utf8_decode b of
       None \<Rightarrow> Inl (CborError ''CBOR text string contains invalid UTF-8'')
     | Some s \<Rightarrow> Inr (V_string s, off)))"

definition readNegative :: "bytes \<Rightarrow> nat \<Rightarrow> nat \<Rightarrow> protocol_error + js_value \<times> nat" where
  "readNegative bs info off =
     andThen (readArgument bs info off) (\<lambda>(n, off).
     let v = JInt (- 1 - int n)
     in if isSafeInteger v then Inr (V_number v, off)
        else Inl (CborError ''Decoded CBOR integer is outside the safe range''))"

text \<open>\<open>readItem\<close> with its two loops; \<open>keys\<close> are the keys the map has so far.\<close>

function (sequential)
    readItem :: "resolved_cbor_options \<Rightarrow> bytes \<Rightarrow> nat \<Rightarrow> nat \<Rightarrow> protocol_error + js_value \<times> nat"
  and readItems :: "resolved_cbor_options \<Rightarrow> bytes \<Rightarrow> nat \<Rightarrow> nat \<Rightarrow> nat \<Rightarrow> protocol_error + js_value list \<times> nat"
  and readEntries :: "resolved_cbor_options \<Rightarrow> bytes \<Rightarrow> nat \<Rightarrow> nat \<Rightarrow> js_string set \<Rightarrow> nat \<Rightarrow>
    protocol_error + (js_string \<times> js_value) list \<times> nat" where
  "readItem opts bs depth off =
     (if depth > maxDepth opts
      then Inl (CborError (limit_message ''CBOR nesting depth'' (maxDepth opts)))
      else andThen (readByte bs off) (\<lambda>(initial, off).
        let majorType = initial div 32; info = initial mod 32
        in if majorType = 0 then andThen (readArgument bs info off) (\<lambda>(n, off). Inr (V_number (JInt (int n)), off))
           else if majorType = 1 then readNegative bs info off
           else if majorType = 2 then
             andThen (readLength bs info ''byte string'' (maxByteLength opts) off) (\<lambda>(n, off).
             andThen (readBytes bs n off) (\<lambda>(b, off). Inr (V_bytes b, off)))
           else if majorType = 3 then readText opts bs info off
           else if majorType = 4 then
             andThen (readLength bs info ''array'' (maxContainerLength opts) off) (\<lambda>(n, off).
             andThen (readItems opts bs (depth + 1) n off) (\<lambda>(vs, off). Inr (V_array vs, off)))
           else if majorType = 5 then
             andThen (readLength bs info ''map'' (maxContainerLength opts) off) (\<lambda>(n, off).
             andThen (readEntries opts bs (depth + 1) n {} off) (\<lambda>(kvs, off).
             Inr (V_object False kvs, off)))
           else if majorType = 6 then Inl (CborError ''CBOR tags are not supported'')
           else if majorType = 7 then readSimple bs info off
           else Inl (CborError ''Malformed CBOR major type'')))"
| "readItems opts bs depth 0 off = Inr ([], off)"
| "readItems opts bs depth (Suc n) off =
     andThen (readItem opts bs depth off) (\<lambda>(v, off).
     andThen (readItems opts bs depth n off) (\<lambda>(vs, off). Inr (v # vs, off)))"
| "readEntries opts bs depth 0 keys off = Inr ([], off)"
| "readEntries opts bs depth (Suc n) keys off =
     andThen (readItem opts bs depth off) (\<lambda>(key, off).
     case key of
       V_string k \<Rightarrow>
         if k \<in> keys then Inl (CborError ''CBOR map contains a duplicate key'')
         else andThen (readItem opts bs depth off) (\<lambda>(v, off).
              andThen (readEntries opts bs depth n (insert k keys) off) (\<lambda>(kvs, off).
              Inr ((k, v) # kvs, off)))
     | _ \<Rightarrow> Inl (CborError ''CBOR map keys must be strings''))"
  by pat_completeness auto
termination
  by (relation "inv_image (less_than <*lex*> less_than) (\<lambda>x. case x of
        Inl (opts, bs, depth, off) \<Rightarrow> (Suc (maxDepth opts) - depth, 0)
      | Inr (Inl (opts, bs, depth, n, off)) \<Rightarrow> (Suc (maxDepth opts) - depth, Suc n)
      | Inr (Inr (opts, bs, depth, n, keys, off)) \<Rightarrow> (Suc (maxDepth opts) - depth, Suc n))") auto

declare readItem.simps [simp del]

definition decodeCbor :: "bytes \<Rightarrow> cbor_options option \<Rightarrow> protocol_error + js_value" where
  "decodeCbor bs opts =
     andThen (resolveOptions opts) (\<lambda>resolved.
     if length bs > maxByteLength resolved
     then Inl (CborError (limit_message ''CBOR byte length'' (maxByteLength resolved)))
     else andThen (readItem resolved bs 0 0) (\<lambda>(v, off).
       if off \<noteq> length bs then Inl (CborError ''CBOR payload contains trailing data'') else Inr v))"

end
