(* ===== verification/Cbor_Roundtrip.thy ===== *)
theory Cbor_Roundtrip
  imports Cbor_Spec Cbor_Decoder
begin

text \<open>
  The decoder reads back what the encoder writes. A value comes back without its undefined properties
  (\<open>normal\<close>); \<open>js_value_ok\<close> says that a tree is a value JavaScript can hold: the fractions are the
  canonical bit patterns and the keys of an object are distinct.
\<close>

section \<open>Values\<close>

fun normal :: "js_value \<Rightarrow> js_value" where
  "normal (V_array vs) = V_array (map normal vs)"
| "normal (V_object symbolKey kvs) =
     V_object symbolKey (map (\<lambda>(k, v). (k, normal v)) (filter (\<lambda>(_, v). v \<noteq> V_undefined) kvs))"
| "normal v = v"

fun number_ok :: "js_number \<Rightarrow> bool" where
  "number_ok (JFrac b) = (float_of_bits b = JFrac b)"
| "number_ok _ = True"

fun js_value_ok :: "js_value \<Rightarrow> bool" where
  "js_value_ok (V_number n) = number_ok n"
| "js_value_ok (V_array vs) = list_all js_value_ok vs"
| "js_value_ok (V_object symbolKey kvs) =
     (distinct (map fst kvs) \<and> list_all (\<lambda>(k, v). js_value_ok v) kvs)"
| "js_value_ok _ = True"

definition options_ok :: "resolved_cbor_options \<Rightarrow> bool" where
  "options_ok r \<longleftrightarrow> maxByteLength r \<le> MAX_UINT32 \<and> maxContainerLength r \<le> MAX_UINT32 \<and>
     maxDepth r \<le> MAX_CONFIGURED_DEPTH"

lemma resolveOptions_ok: "resolveOptions opts = Inr r \<Longrightarrow> options_ok r"
  by (auto simp: resolveOptions_def resolveLimit_def throws options_ok_def split: if_splits)

section \<open>Reading bytes\<close>

lemma readByte_at:
  assumes "drop off bs = b # rest"
  shows "readByte bs off = Inr (unat b, off + 1) \<and> drop (off + 1) bs = rest"
proof -
  have "off < length bs" using assms by (metis drop_all leI list.distinct(1))
  moreover from this assms have "b # rest = bs ! off # drop (Suc off) bs"
    by (metis Cons_nth_drop_Suc)
  ultimately show ?thesis by (simp add: readByte_def)
qed

lemma readBytes_at:
  assumes "drop off bs = cs @ rest"
  shows "readBytes bs (length cs) off = Inr (cs, off + length cs) \<and> drop (off + length cs) bs = rest"
proof -
  have "length bs - off = length cs + length rest" using assms by (metis length_append length_drop)
  moreover have "drop (off + length cs) bs = drop (length cs) (drop off bs)" by (simp add: add.commute)
  ultimately show ?thesis using assms by (simp add: readBytes_def)
qed

lemma be_value_snoc: "be_value (bs @ [b]) = be_value bs * 256 + unat b"
  by (simp add: be_value_def)

lemma be_bytes_snoc: "be_bytes (Suc n) v = be_bytes n (v div 256) @ [word_of_nat v]"
  using be_bytes_add [of n 1 v] by (simp add: be_bytes_Suc)

lemma be_value_be_bytes: "v < 256 ^ n \<Longrightarrow> be_value (be_bytes n v) = v"
proof (induction n arbitrary: v)
  case (Suc n)
  then have "v div 256 < 256 ^ n" by (simp add: less_mult_imp_div_less)
  with Suc.IH show ?case
    by (simp add: be_bytes_snoc be_value_snoc unsigned_of_nat take_bit_eq_mod)
qed (simp add: be_value_def)

lemma be_value_4:
  assumes "length b = 4"
  shows "unat (b ! 0) * 0x1000000 + unat (b ! 1) * 0x10000 + unat (b ! 2) * 0x100 + unat (b ! 3) = be_value b"
proof -
  have "length b = Suc (Suc (Suc (Suc 0)))" using assms by simp
  then obtain w x y z where "b = [w, x, y, z]" by (auto simp: length_Suc_conv)
  then show ?thesis by (simp add: be_value_def)
qed

lemma be_value_2:
  assumes "length b = 2"
  shows "unat (b ! 0) * 0x100 + unat (b ! 1) = be_value b"
proof -
  have "length b = Suc (Suc 0)" using assms by simp
  then obtain w x where "b = [w, x]" by (auto simp: length_Suc_conv)
  then show ?thesis by (simp add: be_value_def)
qed

lemma initial_byte_value: "m < 8 \<Longrightarrow> i < 32 \<Longrightarrow> unat (initial_byte m i) = 32 * m + i"
proof -
  assume "m < 8" "i < 32"
  moreover have "list_all (\<lambda>m. list_all (\<lambda>i. unat (initial_byte m i) = 32 * m + i) [0..<32]) [0..<8]"
    by code_simp
  ultimately show ?thesis by (simp add: list_all_iff)
qed

lemma unat_8: "unat (b :: 8 word) < 256"
  using unsigned_less [where 'a = nat, of b] by simp

lemma readUint32_at:
  assumes "drop off bs = be_bytes 4 v @ rest" and "v < 256 ^ 4"
  shows "readUint32 bs off = Inr (v, off + 4) \<and> drop (off + 4) bs = rest"
  using readBytes_at [OF assms(1)] be_value_4 [of "be_bytes 4 v"] be_value_be_bytes [OF assms(2)]
  by (simp add: readUint32_def)

text \<open>Reading the argument that follows an initial byte.\<close>

definition argument_info :: "nat \<Rightarrow> nat" where
  "argument_info v = (if v < 24 then v else if v < 256 then 24 else if v < 256 ^ 2 then 25
     else if v < 256 ^ 4 then 26 else 27)"

lemma head_bytes_info:
  "head_bytes major v = initial_byte major (argument_info v) #
     (if v < 24 then [] else if v < 256 then be_bytes 1 v else if v < 256 ^ 2 then be_bytes 2 v
      else if v < 256 ^ 4 then be_bytes 4 v else be_bytes 8 v)"
  by (simp add: head_bytes_def argument_info_def)

lemma argument_info_less: "argument_info v < 28"
  by (simp add: argument_info_def)

lemma readArgument_64:
  assumes at: "drop off bs = be_bytes 8 v @ rest" and v: "v < 2 ^ 53"
  shows "readArgument bs 27 off = Inr (v, off + 8) \<and> drop (off + 8) bs = rest"
proof -
  have "drop off bs = be_bytes 4 (v div 256 ^ 4) @ be_bytes 4 (v mod 256 ^ 4) @ rest"
    using at be_bytes_add [of 4 4 v] be_bytes_mod [of 4 v] by simp
  moreover have "v div 256 ^ 4 < 256 ^ 4" using v by simp
  ultimately have hi: "readUint32 bs off = Inr (v div 256 ^ 4, off + 4)"
      "drop (off + 4) bs = be_bytes 4 (v mod 256 ^ 4) @ rest"
    using readUint32_at by blast+
  have lo: "readUint32 bs (off + 4) = Inr (v mod 256 ^ 4, off + 4 + 4)" "drop (off + 4 + 4) bs = rest"
    using readUint32_at [OF hi(2)] by simp_all
  have "v div 256 ^ 4 \<le> 0x1fffff" using v by simp
  moreover have "v div 256 ^ 4 * UINT32_BASE + v mod 256 ^ 4 = v" by (simp add: UINT32_BASE_def)
  ultimately show ?thesis using hi(1) lo by (simp add: readArgument_def add.assoc)
qed

lemma readArgument_at:
  assumes at: "drop off bs = head_bytes major v @ rest" and v: "v < 2 ^ 53" and "major < 8"
  shows "readByte bs off = Inr (32 * major + argument_info v, off + 1) \<and>
    readArgument bs (argument_info v) (off + 1) = Inr (v, off + length (head_bytes major v)) \<and>
    drop (off + length (head_bytes major v)) bs = rest"
proof -
  let ?arg = "tl (head_bytes major v)"
  have ib: "head_bytes major v = initial_byte major (argument_info v) # ?arg"
    by (simp add: head_bytes_info)
  then have byte: "readByte bs off = Inr (32 * major + argument_info v, off + 1)"
      "drop (off + 1) bs = ?arg @ rest"
    using readByte_at [of off bs "initial_byte major (argument_info v)" "?arg @ rest"] at assms(3)
      argument_info_less [of v] initial_byte_value [of major "argument_info v"]
    by simp_all
  consider "v < 24" | "24 \<le> v" "v < 256" | "256 \<le> v" "v < 256 ^ 2" | "256 ^ 2 \<le> v" "v < 256 ^ 4"
    | "256 ^ 4 \<le> v" by linarith
  then have "readArgument bs (argument_info v) (off + 1) = Inr (v, off + length (head_bytes major v)) \<and>
    drop (off + length (head_bytes major v)) bs = rest"
  proof cases
    case 1
    with byte(2) show ?thesis by (simp add: head_bytes_info argument_info_def readArgument_def)
  next
    case 2
    then have "drop (off + 1) bs = word_of_nat v # rest"
      using byte(2) by (simp add: head_bytes_info be_bytes_def)
    from readByte_at [OF this] 2 show ?thesis
      by (simp add: head_bytes_info argument_info_def readArgument_def unsigned_of_nat take_bit_eq_mod)
  next
    case 3
    then have "drop (off + 1) bs = be_bytes 2 v @ rest"
      using byte(2) by (simp add: head_bytes_info)
    from readBytes_at [OF this] 3 show ?thesis
      using be_value_2 [of "be_bytes 2 v"] be_value_be_bytes [OF 3(2)]
      by (simp add: numeral_3_eq_3 head_bytes_info argument_info_def readArgument_def)
  next
    case 4
    then have "drop (off + 1) bs = be_bytes 4 v @ rest"
      using byte(2) by (simp add: head_bytes_info)
    from readUint32_at [OF this 4(2)] 4 show ?thesis
      by (simp add: head_bytes_info argument_info_def readArgument_def add.commute [of 5 off])
  next
    case 5
    then have "drop (off + 1) bs = be_bytes 8 v @ rest"
      using byte(2) by (simp add: head_bytes_info)
    from readArgument_64 [OF this v] 5 show ?thesis
      by (simp add: head_bytes_info argument_info_def add.commute [of 9 off])
  qed
  with byte(1) show ?thesis by simp
qed

section \<open>Round trip\<close>

definition reads ::
  "(nat \<Rightarrow> protocol_error + 'a \<times> nat) \<Rightarrow> bytes \<Rightarrow> bytes \<Rightarrow> 'a \<Rightarrow> bool" where
  "reads r bs cs x \<longleftrightarrow>
     (\<forall>off rest. drop off bs = cs @ rest \<longrightarrow>
        r off = Inr (x, off + length cs) \<and> drop (off + length cs) bs = rest)"

lemma readsD:
  "reads r bs cs x \<Longrightarrow> drop off bs = cs @ rest \<Longrightarrow>
     r off = Inr (x, off + length cs) \<and> drop (off + length cs) bs = rest"
  by (simp add: reads_def)

text \<open>The branch of \<open>readItem\<close> for each major type.\<close>

lemma readItem_major:
  assumes "d \<le> maxDepth opts" and "readByte bs off = Inr (32 * m + info, off')" and "info < 32"
  shows "m = 0 \<Longrightarrow> readItem opts bs d off =
      andThen (readArgument bs info off') (\<lambda>(n, off). Inr (V_number (JInt (int n)), off))"
    and "m = 1 \<Longrightarrow> readItem opts bs d off = readNegative bs info off'"
    and "m = 2 \<Longrightarrow> readItem opts bs d off =
      andThen (readLength bs info ''byte string'' (maxByteLength opts) off') (\<lambda>(n, off).
      andThen (readBytes bs n off) (\<lambda>(b, off). Inr (V_bytes b, off)))"
    and "m = 3 \<Longrightarrow> readItem opts bs d off = readText opts bs info off'"
    and "m = 4 \<Longrightarrow> readItem opts bs d off =
      andThen (readLength bs info ''array'' (maxContainerLength opts) off') (\<lambda>(n, off).
      andThen (readItems opts bs (d + 1) n off) (\<lambda>(vs, off). Inr (V_array vs, off)))"
    and "m = 5 \<Longrightarrow> readItem opts bs d off =
      andThen (readLength bs info ''map'' (maxContainerLength opts) off') (\<lambda>(n, off).
      andThen (readEntries opts bs (d + 1) n {} off) (\<lambda>(kvs, off). Inr (V_object False kvs, off)))"
    and "m = 7 \<Longrightarrow> readItem opts bs d off = readSimple bs info off'"
proof -
  have "(32 * m + info) div 32 = m" "(32 * m + info) mod 32 = info" using assms(3) by simp_all
  with assms(1,2) show
    "m = 0 \<Longrightarrow> readItem opts bs d off =
      andThen (readArgument bs info off') (\<lambda>(n, off). Inr (V_number (JInt (int n)), off))"
    "m = 1 \<Longrightarrow> readItem opts bs d off = readNegative bs info off'"
    "m = 2 \<Longrightarrow> readItem opts bs d off =
      andThen (readLength bs info ''byte string'' (maxByteLength opts) off') (\<lambda>(n, off).
      andThen (readBytes bs n off) (\<lambda>(b, off). Inr (V_bytes b, off)))"
    "m = 3 \<Longrightarrow> readItem opts bs d off = readText opts bs info off'"
    "m = 4 \<Longrightarrow> readItem opts bs d off =
      andThen (readLength bs info ''array'' (maxContainerLength opts) off') (\<lambda>(n, off).
      andThen (readItems opts bs (d + 1) n off) (\<lambda>(vs, off). Inr (V_array vs, off)))"
    "m = 5 \<Longrightarrow> readItem opts bs d off =
      andThen (readLength bs info ''map'' (maxContainerLength opts) off') (\<lambda>(n, off).
      andThen (readEntries opts bs (d + 1) n {} off) (\<lambda>(kvs, off). Inr (V_object False kvs, off)))"
    "m = 7 \<Longrightarrow> readItem opts bs d off = readSimple bs info off'"
    by (simp_all add: readItem.simps Let_def)
qed

lemma major_info: "argument_info v < 32" "argument_info v \<noteq> 31"
  using argument_info_less [of v] by simp_all

lemma readLength_at:
  assumes "drop off bs = head_bytes m v @ rest" and "v < 2 ^ 53" and "m < 8" and "v \<le> limit"
  shows "readLength bs (argument_info v) kind limit (off + 1) = Inr (v, off + length (head_bytes m v))"
  using readArgument_at [OF assms(1-3)] assms(4) major_info [of v] by (simp add: readLength_def)

lemma reads_int:
  assumes "d \<le> maxDepth opts" and "isSafeInteger (JInt i)"
  shows "reads (readItem opts bs d) bs (number_bytes (JInt i)) (V_number (JInt i))"
  unfolding reads_def
proof (intro allI impI)
  fix off rest assume at: "drop off bs = number_bytes (JInt i) @ rest"
  show "readItem opts bs d off = Inr (V_number (JInt i), off + length (number_bytes (JInt i))) \<and>
      drop (off + length (number_bytes (JInt i))) bs = rest"
  proof (cases "i \<ge> 0")
    case True
    then have b: "nat i < 2 ^ 53" using assms(2) by (simp add: MAX_SAFE_INTEGER_def)
    have "drop off bs = head_bytes 0 (nat i) @ rest" using at True by simp
    note arg = readArgument_at [OF this b]
    with readItem_major(1) [OF assms(1), where m = 0 and info = "argument_info (nat i)"] major_info [of "nat i"] True
    show ?thesis by simp
  next
    case False
    then have b: "nat (- 1 - i) < 2 ^ 53" using assms(2) by (simp add: MAX_SAFE_INTEGER_def)
    have "drop off bs = head_bytes 1 (nat (- 1 - i)) @ rest" using at False by simp
    note arg = readArgument_at [OF this b]
    with readItem_major(2) [OF assms(1), where m = 1 and info = "argument_info (nat (- 1 - i))"] major_info [of "nat (- 1 - i)"] False
    show ?thesis using assms(2) by (simp add: readNegative_def)
  qed
qed

lemma reads_float:
  assumes "d \<le> maxDepth opts" and "b < 2 ^ 64" and "float_of_bits (word_of_nat b) = n"
    and "isFinite n" and "isInteger n \<longrightarrow> isSafeInteger n"
  shows "reads (readItem opts bs d) bs (0xfb # be_bytes 8 b) (V_number n)"
  unfolding reads_def
proof (intro allI impI)
  fix off rest assume at: "drop off bs = (0xfb # be_bytes 8 b) @ rest"
  then have byte: "readByte bs off = Inr (32 * 7 + 27, off + 1)" "drop (off + 1) bs = be_bytes 8 b @ rest"
    using readByte_at [of off bs "0xfb" "be_bytes 8 b @ rest"] by simp_all
  have "be_value (be_bytes 8 b) = b" using assms(2) by (intro be_value_be_bytes) simp
  then show "readItem opts bs d off = Inr (V_number n, off + length (0xfb # be_bytes 8 b)) \<and>
      drop (off + length (0xfb # be_bytes 8 b)) bs = rest"
    using readItem_major(7) [OF assms(1) byte(1)] readBytes_at [OF byte(2)] assms(3-5)
    by (simp add: readSimple_def Let_def add.commute [of 9 off])
qed

lemma reads_simple:
  assumes "d \<le> maxDepth opts"
  shows "reads (readItem opts bs d) bs [0xf6] V_null"
    and "reads (readItem opts bs d) bs [if b then 0xf5 else 0xf4] (V_bool b)"
  using readItem_major(7) [OF assms, where m = 7 and info = 22]
    readItem_major(7) [OF assms, where m = 7 and info = 21]
    readItem_major(7) [OF assms, where m = 7 and info = 20]
  by (auto simp: reads_def readSimple_def dest!: readByte_at)

lemma reads_bytes:
  assumes "d \<le> maxDepth opts" and "length b \<le> maxByteLength opts" and "length b < 2 ^ 53"
  shows "reads (readItem opts bs d) bs (head_bytes 2 (length b) @ b) (V_bytes b)"
  unfolding reads_def
proof (intro allI impI)
  fix off rest assume "drop off bs = (head_bytes 2 (length b) @ b) @ rest"
  then have at: "drop off bs = head_bytes 2 (length b) @ b @ rest" by simp
  note arg = readArgument_at [OF at assms(3)]
  show "readItem opts bs d off = Inr (V_bytes b, off + length (head_bytes 2 (length b) @ b)) \<and>
      drop (off + length (head_bytes 2 (length b) @ b)) bs = rest"
    using arg readItem_major(3) [OF assms(1), where m = 2 and info = "argument_info (length b)"] major_info [of "length b"]
      readLength_at [OF at assms(3) _ assms(2)] readBytes_at [of "off + length (head_bytes 2 (length b))" bs b rest]
    by (simp add: add.assoc)
qed

lemma reads_text:
  assumes "d \<le> maxDepth opts" and "text_ok opts s" and "maxByteLength opts < 2 ^ 53"
  shows "reads (readItem opts bs d) bs (text_bytes s) (V_string s)"
  unfolding reads_def
proof (intro allI impI)
  let ?b = "utf8_encode s"
  have len: "length ?b \<le> maxByteLength opts" "length ?b < 2 ^ 53" and "utf8_decode ?b = Some s"
    using assms(2,3) by (simp_all add: text_ok_def text_roundtrip_iff)
  fix off rest assume "drop off bs = text_bytes s @ rest"
  then have at: "drop off bs = head_bytes 3 (length ?b) @ ?b @ rest" by (simp add: text_bytes_def)
  note arg = readArgument_at [OF at len(2)]
  show "readItem opts bs d off = Inr (V_string s, off + length (text_bytes s)) \<and>
      drop (off + length (text_bytes s)) bs = rest"
    using arg readItem_major(4) [OF assms(1), where m = 3 and info = "argument_info (length ?b)"] major_info [of "length ?b"]
      readLength_at [OF at len(2) _ len(1)] readBytes_at [of "off + length (head_bytes 3 (length ?b))" bs ?b rest] \<open>utf8_decode ?b = Some s\<close>
    by (simp add: readText_def text_bytes_def add.assoc)
qed

lemma reads_number:
  assumes "d \<le> maxDepth opts" and "number_ok n" and "isFinite n" and "isInteger n \<longrightarrow> isSafeInteger n"
  shows "reads (readItem opts bs d) bs (number_bytes n) (V_number n)"
proof (cases n)
  case (JInt i)
  with assms show ?thesis using reads_int by simp
next
  case JNegZero
  have "float_of_bits (word_of_nat 0x8000000000000000) = JNegZero"
    by (simp add: float_of_bits_def float_sign_def float_exponent_def float_mantissa_def Let_def
        bit_numeral_rec)
  with JNegZero show ?thesis using assms(1) by (auto intro!: reads_float)
next
  case (JFrac b)
  have "unat b < 2 ^ 64" using unsigned_less [where 'a = nat, of b] by simp
  moreover have "float_of_bits (word_of_nat (unat b)) = n" using assms(2) JFrac by simp
  ultimately show ?thesis using assms reads_float JFrac by (metis number_bytes.simps(2))
qed (use assms in simp_all)

text \<open>The loops.\<close>

lemma reads_items:
  assumes "\<And>v. v \<in> set vs \<Longrightarrow> reads (readItem opts bs d) bs (cbor_bytes v) (normal v)"
  shows "reads (readItems opts bs d (length vs)) bs (concat (map cbor_bytes vs)) (map normal vs)"
  using assms
proof (induction vs)
  case Nil
  then show ?case by (simp add: reads_def)
next
  case (Cons v vs)
  then have item: "reads (readItem opts bs d) bs (cbor_bytes v) (normal v)"
    and rest: "reads (readItems opts bs d (length vs)) bs (concat (map cbor_bytes vs)) (map normal vs)"
    by simp_all
  show ?case unfolding reads_def
  proof (intro allI impI)
    fix off tail assume "drop off bs = concat (map cbor_bytes (v # vs)) @ tail"
    then have "drop off bs = cbor_bytes v @ concat (map cbor_bytes vs) @ tail" by simp
    note v = readsD [OF item this]
    with readsD [OF rest] have "readItems opts bs d (length vs) (off + length (cbor_bytes v)) =
        Inr (map normal vs, off + length (cbor_bytes v) + length (concat (map cbor_bytes vs))) \<and>
        drop (off + length (cbor_bytes v) + length (concat (map cbor_bytes vs))) bs = tail"
      by blast
    with v show "readItems opts bs d (length (v # vs)) off =
        Inr (map normal (v # vs), off + length (concat (map cbor_bytes (v # vs)))) \<and>
        drop (off + length (concat (map cbor_bytes (v # vs)))) bs = tail"
      by (simp add: add.assoc)
  qed
qed

lemma reads_entries:
  assumes "\<And>k v. (k, v) \<in> set kvs \<Longrightarrow> reads (readItem opts bs d) bs (text_bytes k) (V_string k) \<and>
      reads (readItem opts bs d) bs (cbor_bytes v) (normal v)"
    and "distinct (map fst kvs)" and "keys \<inter> fst ` set kvs = {}"
  shows "reads (readEntries opts bs d (length kvs) keys) bs
    (concat (map (\<lambda>(k, v). text_bytes k @ cbor_bytes v) kvs)) (map (\<lambda>(k, v). (k, normal v)) kvs)"
  using assms
proof (induction kvs arbitrary: keys)
  case Nil
  then show ?case by (simp add: reads_def)
next
  case (Cons p kvs)
  obtain k v where p: "p = (k, v)" by force
  let ?tail = "concat (map (\<lambda>(k, v). text_bytes k @ cbor_bytes v) kvs)"
  have key: "reads (readItem opts bs d) bs (text_bytes k) (V_string k)"
    and val: "reads (readItem opts bs d) bs (cbor_bytes v) (normal v)"
    using Cons.prems(1) [of k v] p by simp_all
  have rest: "reads (readEntries opts bs d (length kvs) (insert k keys)) bs ?tail
      (map (\<lambda>(k, v). (k, normal v)) kvs)"
    using Cons.prems p by (intro Cons.IH) auto
  have new: "k \<notin> keys" using Cons.prems(3) p by auto
  show ?case unfolding reads_def
  proof (intro allI impI)
    fix off more assume "drop off bs = concat (map (\<lambda>(k, v). text_bytes k @ cbor_bytes v) (p # kvs)) @ more"
    then have at: "drop off bs = text_bytes k @ cbor_bytes v @ ?tail @ more" using p by simp
    define o1 where "o1 = off + length (text_bytes k)"
    define o2 where "o2 = o1 + length (cbor_bytes v)"
    from readsD [OF key at] have k: "readItem opts bs d off = Inr (V_string k, o1)"
      "drop o1 bs = cbor_bytes v @ ?tail @ more" by (simp_all add: o1_def)
    from readsD [OF val k(2)] have v: "readItem opts bs d o1 = Inr (normal v, o2)"
      "drop o2 bs = ?tail @ more" by (simp_all add: o2_def)
    from readsD [OF rest v(2)] k v p new
    show "readEntries opts bs d (length (p # kvs)) keys off =
        Inr (map (\<lambda>(k, v). (k, normal v)) (p # kvs),
             off + length (concat (map (\<lambda>(k, v). text_bytes k @ cbor_bytes v) (p # kvs)))) \<and>
        drop (off + length (concat (map (\<lambda>(k, v). text_bytes k @ cbor_bytes v) (p # kvs)))) bs = more"
      by (simp add: o1_def o2_def add.assoc)
  qed
qed

text \<open>A container: its head, then its loop.\<close>

lemma reads_container:
  assumes d: "d \<le> maxDepth opts" and n: "n < 2 ^ 53" "n \<le> maxContainerLength opts"
  shows "reads (readItems opts bs (d + 1) n) bs cs vs \<Longrightarrow>
      reads (readItem opts bs d) bs (head_bytes 4 n @ cs) (V_array vs)"
    and "reads (readEntries opts bs (d + 1) n {}) bs cs kvs \<Longrightarrow>
      reads (readItem opts bs d) bs (head_bytes 5 n @ cs) (V_object False kvs)"
proof -
  have split: "drop off bs = (head_bytes m n @ cs) @ rest \<Longrightarrow> drop off bs = head_bytes m n @ cs @ rest" for off m rest
    by simp
  note info = major_info [of n]
  show "reads (readItem opts bs d) bs (head_bytes 4 n @ cs) (V_array vs)"
    if r: "reads (readItems opts bs (d + 1) n) bs cs vs" unfolding reads_def
  proof (intro allI impI)
    fix off rest assume at: "drop off bs = (head_bytes 4 n @ cs) @ rest"
    note arg = readArgument_at [OF split [OF at] n(1)] and len = readLength_at [OF split [OF at] n(1) _ n(2)]
    from arg have "drop (off + length (head_bytes 4 n)) bs = cs @ rest" by simp
    from readsD [OF r this] arg len readItem_major(5) [OF d, where m = 4 and info = "argument_info n"] info
    show "readItem opts bs d off = Inr (V_array vs, off + length (head_bytes 4 n @ cs)) \<and>
        drop (off + length (head_bytes 4 n @ cs)) bs = rest"
      by (simp add: add.assoc)
  qed
  show "reads (readItem opts bs d) bs (head_bytes 5 n @ cs) (V_object False kvs)"
    if r: "reads (readEntries opts bs (d + 1) n {}) bs cs kvs" unfolding reads_def
  proof (intro allI impI)
    fix off rest assume at: "drop off bs = (head_bytes 5 n @ cs) @ rest"
    note arg = readArgument_at [OF split [OF at] n(1)] and len = readLength_at [OF split [OF at] n(1) _ n(2)]
    from arg have "drop (off + length (head_bytes 5 n)) bs = cs @ rest" by simp
    from readsD [OF r this] arg len readItem_major(6) [OF d, where m = 5 and info = "argument_info n"] info
    show "readItem opts bs d off = Inr (V_object False kvs, off + length (head_bytes 5 n @ cs)) \<and>
        drop (off + length (head_bytes 5 n @ cs)) bs = rest"
      by (simp add: add.assoc)
  qed
qed

lemma encodable_depth: "encodable opts d v \<Longrightarrow> d \<le> maxDepth opts"
  by (cases v) auto

lemma concat_defined_entries:
  "concat (map (\<lambda>(k, v). if v = V_undefined then [] else f k v) kvs) =
     concat (map (\<lambda>(k, v). f k v) (defined_entries kvs))"
  by (induction kvs) (auto simp: defined_entries_def)

lemma reads_value:
  assumes "options_ok opts"
  shows "js_value_ok v \<Longrightarrow> encodable opts d v \<Longrightarrow> reads (readItem opts bs d) bs (cbor_bytes v) (normal v)"
proof (induction v arbitrary: d)
  case (V_array vs)
  then have "reads (readItems opts bs (d + 1) (length vs)) bs (concat (map cbor_bytes vs)) (map normal vs)"
    by (intro reads_items) (auto simp: list_all_iff)
  then show ?case using V_array.prems assms
    by (simp add: reads_container options_ok_def MAX_UINT32_def)
next
  case (V_object symbolKey kvs)
  have enc: "text_ok opts k \<and> encodable opts (Suc d) v" if "(k, v) \<in> set (defined_entries kvs)" for k v
    using V_object.prems(2) that by (auto simp: list_all_iff defined_entries_def)
  have "reads (readItem opts bs (d + 1)) bs (text_bytes k) (V_string k) \<and>
      reads (readItem opts bs (d + 1)) bs (cbor_bytes v) (normal v)"
    if kv: "(k, v) \<in> set (defined_entries kvs)" for k v
  proof
    show "reads (readItem opts bs (d + 1)) bs (text_bytes k) (V_string k)"
      using enc [OF kv] assms
      by (intro reads_text) (auto simp: options_ok_def MAX_UINT32_def dest: encodable_depth)
    have "(k, v) \<in> set kvs" using kv by (auto simp: defined_entries_def)
    then show "reads (readItem opts bs (d + 1)) bs (cbor_bytes v) (normal v)"
      using V_object.IH [of "(k, v)" v "d + 1"] V_object.prems(1) enc [OF kv]
      by (auto simp: list_all_iff)
  qed
  moreover have "distinct (map fst (defined_entries kvs))"
    using V_object.prems(1) by (simp add: defined_entries_def distinct_map_filter)
  ultimately have "reads (readEntries opts bs (d + 1) (length (defined_entries kvs)) {}) bs
      (concat (map (\<lambda>(k, v). text_bytes k @ cbor_bytes v) (defined_entries kvs)))
      (map (\<lambda>(k, v). (k, normal v)) (defined_entries kvs))"
    by (intro reads_entries) auto
  from reads_container(2) [OF _ _ _ this] show ?case
    using V_object.prems(2) assms
    by (simp add: options_ok_def MAX_UINT32_def concat_defined_entries flip: defined_entries_def)
next
  case (V_string s)
  then show ?case using reads_text assms by (simp add: options_ok_def MAX_UINT32_def)
next
  case (V_bytes b)
  then show ?case using reads_bytes assms by (simp add: options_ok_def MAX_UINT32_def)
qed (simp_all add: reads_simple reads_number del: number_bytes.simps)

lemma decode_encode:
  assumes "encodeCbor v opts = Inr bs" and "js_value_ok v"
  shows "decodeCbor bs opts = Inr (normal v)"
proof -
  obtain r where r: "resolveOptions opts = Inr r" "encodable r 0 v" "length (cbor_bytes v) \<le> maxByteLength r"
    "bs = cbor_bytes v"
    using assms(1) by (auto simp: encodeCbor_Inr)
  have "drop 0 bs = cbor_bytes v @ []" using r(4) by simp
  from readsD [OF reads_value [OF resolveOptions_ok [OF r(1)] assms(2) r(2)] this] r show ?thesis
    by (simp add: decodeCbor_def)
qed

end
