(* ===== verification/Cbor_Sound.thy ===== *)
theory Cbor_Sound
  imports Cbor_Roundtrip
begin

text \<open>
  What the decoder accepts: every decoded value lies in the strict subset and within the limits, and
  its own encoding is never longer than the input, so it can always be sent on.
\<close>

section \<open>Readers\<close>

lemma readByte_Inr: "readByte bs off = Inr (n, off') \<Longrightarrow> n < 256 \<and> off' = off + 1 \<and> off' \<le> length bs"
  using unat_8 by (auto simp: readByte_def truncated_def split: if_splits)

lemma readBytes_Inr:
  "readBytes bs n off = Inr (b, off') \<Longrightarrow> off \<le> length bs \<Longrightarrow>
     length b = n \<and> off' = off + n \<and> off' \<le> length bs"
  by (auto simp: readBytes_def truncated_def split: if_splits)

lemma be_value_less: "be_value bs < 256 ^ length bs"
proof (induction bs rule: rev_induct)
  case (snoc b bs)
  then show ?case using unat_8 [of b] by (simp add: be_value_snoc)
qed (simp add: be_value_def)

lemma readUint32_Inr:
  assumes "readUint32 bs off = Inr (n, off')" and "off \<le> length bs"
  shows "n < 256 ^ 4 \<and> off' = off + 4 \<and> off' \<le> length bs"
proof -
  obtain b where b: "readBytes bs 4 off = Inr (b, off')"
    "n = unat (b ! 0) * 0x1000000 + unat (b ! 1) * 0x10000 + unat (b ! 2) * 0x100 + unat (b ! 3)"
    using assms(1) by (auto simp: readUint32_def andThen_eq_Inr)
  with readBytes_Inr [OF b(1) assms(2)] show ?thesis
    using be_value_4 [of b] be_value_less [of b] by simp
qed

lemma length_head_bytes: "length (head_bytes m v) =
    (if v < 24 then 1 else if v < 256 then 2 else if v < 256 ^ 2 then 3 else if v < 256 ^ 4 then 5 else 9)"
  by (simp add: head_bytes_def)

text \<open>An argument is a safe integer, and its shortest encoding is no longer than what was read.\<close>

lemma readArgument_Inr:
  assumes "readArgument bs info off = Inr (n, off')" and "off \<le> length bs"
  shows "n < 2 ^ 53 \<and> off \<le> off' \<and> length (head_bytes m n) \<le> 1 + (off' - off) \<and> off' \<le> length bs"
proof -
  consider "info < 24" | "info = 24" | "info = 25" | "info = 26" | "info = 27"
    using assms(1) by (auto simp: readArgument_def split: if_splits)
  then show ?thesis
  proof cases
    case 3
    then obtain b where b: "readBytes bs 2 off = Inr (b, off')" "n = unat (b ! 0) * 0x100 + unat (b ! 1)"
      using assms(1) by (auto simp: readArgument_def andThen_eq_Inr)
    with readBytes_Inr [OF b(1) assms(2)] show ?thesis
      using be_value_2 [of b] be_value_less [of b] by (simp add: length_head_bytes)
  next
    case 5
    then obtain high low off1 where r: "readUint32 bs off = Inr (high, off1)"
      "readUint32 bs off1 = Inr (low, off')" "high \<le> 0x1fffff" "n = high * UINT32_BASE + low"
      using assms(1) by (auto simp: readArgument_def andThen_eq_Inr split: if_splits)
    note hi = readUint32_Inr [OF r(1) assms(2)]
    with readUint32_Inr [OF r(2)] r(3,4) show ?thesis
      by (auto simp: length_head_bytes UINT32_BASE_def)
  qed (use assms in \<open>auto simp: readArgument_def length_head_bytes dest: readByte_Inr readUint32_Inr\<close>)
qed

lemma readLength_Inr:
  assumes "readLength bs info kind limit off = Inr (n, off')" and "off \<le> length bs"
  shows "n \<le> limit \<and> off \<le> off' \<and> length (head_bytes m n) \<le> 1 + (off' - off) \<and> off' \<le> length bs"
  using assms readArgument_Inr [of bs info off n off' m]
  by (auto simp: readLength_def andThen_eq_Inr split: if_splits)

section \<open>Items\<close>

text \<open>A decoded item: within the limits, and no longer when it is encoded again.\<close>

definition item_ok :: "resolved_cbor_options \<Rightarrow> nat \<Rightarrow> js_value \<Rightarrow> bool" where
  "item_ok r d v \<longleftrightarrow> encodable r d v \<and> js_value_ok v \<and> normal v = v"

lemma item_ok_defined: "item_ok r d v \<Longrightarrow> v \<noteq> V_undefined"
  by (auto simp: item_ok_def)

lemma readText_Inr:
  assumes "readText r bs info off = Inr (v, off')" and "off \<le> length bs" and "d \<le> maxDepth r"
  shows "item_ok r d v \<and> off \<le> off' \<and> off' \<le> length bs \<and> length (cbor_bytes v) \<le> 1 + (off' - off)"
proof -
  obtain n off1 b s where t: "readLength bs info ''text string'' (maxByteLength r) off = Inr (n, off1)"
    "readBytes bs n off1 = Inr (b, off')" "utf8_decode b = Some s" "v = V_string s"
    using assms(1) by (auto simp: readText_def andThen_eq_Inr split: option.splits)
  note len = readLength_Inr [OF t(1) assms(2), of 3]
  with readBytes_Inr [OF t(2)] utf8_encode_decode [OF t(3)] t(4) assms(3) show ?thesis
    by (auto simp: item_ok_def text_ok_def text_bytes_def)
qed

lemma float_of_bits_JFrac: "float_of_bits b = JFrac c \<Longrightarrow> c = b"
  by (auto simp: float_of_bits_def Let_def split: if_splits)

lemma readSimple_Inr:
  assumes "readSimple bs info off = Inr (v, off')" and "off \<le> length bs" and "d \<le> maxDepth r"
  shows "item_ok r d v \<and> off \<le> off' \<and> off' \<le> length bs \<and> length (cbor_bytes v) \<le> 1 + (off' - off)"
proof -
  consider "info \<in> {20, 21, 22}" | "info = 27"
    using assms(1) by (auto simp: readSimple_def split: if_splits)
  then show ?thesis
  proof cases
    case 2
    then obtain b where b: "readBytes bs 8 off = Inr (b, off')"
      and n: "isFinite (float_of_bits (word_of_nat (be_value b)))"
        "isInteger (float_of_bits (word_of_nat (be_value b))) \<longrightarrow>
           isSafeInteger (float_of_bits (word_of_nat (be_value b)))"
        "v = V_number (float_of_bits (word_of_nat (be_value b)))"
      using assms(1) by (auto simp: readSimple_def andThen_eq_Inr Let_def split: if_splits)
    have "number_ok (float_of_bits (word_of_nat (be_value b)))"
      by (cases "float_of_bits (word_of_nat (be_value b))") (auto dest: float_of_bits_JFrac)
    moreover have "length (number_bytes x) \<le> 9" for x
      by (cases x) (auto simp: length_head_bytes)
    ultimately show ?thesis using readBytes_Inr [OF b assms(2)] n assms(3)
      by (simp add: item_ok_def)
  qed (use assms in \<open>auto simp: readSimple_def item_ok_def\<close>)
qed

definition reader_sound ::
  "resolved_cbor_options \<Rightarrow> bytes \<Rightarrow> nat \<Rightarrow> (nat \<Rightarrow> protocol_error + js_value \<times> nat) \<Rightarrow> bool" where
  "reader_sound r bs d f \<longleftrightarrow>
     (\<forall>off v off'. f off = Inr (v, off') \<longrightarrow> off \<le> length bs \<longrightarrow>
        item_ok r d v \<and> off' \<le> length bs \<and> off + length (cbor_bytes v) \<le> off')"

lemma reader_soundD:
  "reader_sound r bs d f \<Longrightarrow> f off = Inr (v, off') \<Longrightarrow> off \<le> length bs \<Longrightarrow>
     item_ok r d v \<and> off' \<le> length bs \<and> off + length (cbor_bytes v) \<le> off'"
  by (simp add: reader_sound_def)

lemma readItems_sound:
  assumes "reader_sound r bs d (readItem r bs d)"
  shows "readItems r bs d n off = Inr (vs, off') \<Longrightarrow> off \<le> length bs \<Longrightarrow>
    list_all (item_ok r d) vs \<and> length vs = n \<and> off' \<le> length bs \<and>
    off + length (concat (map cbor_bytes vs)) \<le> off'"
proof (induction n arbitrary: off vs)
  case (Suc n)
  then obtain v off1 ws where r: "readItem r bs d off = Inr (v, off1)"
    "readItems r bs d n off1 = Inr (ws, off')" "vs = v # ws"
    by (auto simp: andThen_eq_Inr)
  note v = reader_soundD [OF assms r(1) Suc.prems(2)]
  with Suc.IH [OF r(2)] r(3) show ?case by auto
qed simp

lemma readEntries_sound:
  assumes "reader_sound r bs d (readItem r bs d)"
  shows "readEntries r bs d n keys off = Inr (kvs, off') \<Longrightarrow> off \<le> length bs \<Longrightarrow>
    list_all (\<lambda>(k, v). text_ok r k \<and> item_ok r d v) kvs \<and> length kvs = n \<and> distinct (map fst kvs) \<and>
    keys \<inter> fst ` set kvs = {} \<and> off' \<le> length bs \<and>
    off + length (concat (map (\<lambda>(k, v). text_bytes k @ cbor_bytes v) kvs)) \<le> off'"
proof (induction n arbitrary: off kvs keys)
  case (Suc n)
  obtain key off1 where key: "readItem r bs d off = Inr (key, off1)"
    using Suc.prems(1) by (auto simp: andThen_eq_Inr)
  then obtain k where "key = V_string k" using Suc.prems(1) by (cases key) auto
  with key Suc.prems(1) obtain v off2 ws where r: "readItem r bs d off = Inr (V_string k, off1)" "k \<notin> keys"
    "readItem r bs d off1 = Inr (v, off2)" "readEntries r bs d n (insert k keys) off2 = Inr (ws, off')"
    "kvs = (k, v) # ws"
    by (auto simp: andThen_eq_Inr split: if_splits)
  note k = reader_soundD [OF assms r(1) Suc.prems(2)]
  then have v: "item_ok r d v \<and> off2 \<le> length bs \<and> off1 + length (cbor_bytes v) \<le> off2"
    using reader_soundD [OF assms r(3)] by simp
  have "text_ok r k" using k by (simp add: item_ok_def)
  with k v Suc.IH [OF r(4)] r(2,5) show ?case by auto
qed simp

lemma defined_entries_id: "list_all (\<lambda>(k, v). P k \<and> item_ok r d v) kvs \<Longrightarrow> defined_entries kvs = kvs"
  by (auto simp: defined_entries_def list_all_iff filter_id_conv dest: item_ok_defined)

lemma item_ok_array:
  assumes "list_all (item_ok r (Suc d)) vs" and "d \<le> maxDepth r" and "length vs \<le> maxContainerLength r"
  shows "item_ok r d (V_array vs)"
  using assms by (auto simp: item_ok_def list_all_iff intro!: map_idI)

lemma item_ok_object:
  assumes "list_all (\<lambda>(k, v). text_ok r k \<and> item_ok r (Suc d) v) kvs" and "distinct (map fst kvs)"
    and "d \<le> maxDepth r" and "length kvs \<le> maxContainerLength r"
  shows "item_ok r d (V_object False kvs)"
proof -
  have "normal (V_object False kvs) = V_object False kvs"
    using defined_entries_id [OF assms(1)] assms(1)
    by (auto simp: list_all_iff item_ok_def intro!: map_idI simp flip: defined_entries_def)
  moreover have "encodable r d (V_object False kvs) \<and> js_value_ok (V_object False kvs)"
    using assms defined_entries_id [OF assms(1)] by (auto simp: list_all_iff item_ok_def)
  ultimately show ?thesis by (simp add: item_ok_def)
qed

lemma readItem_sound: "reader_sound r bs d (readItem r bs d)"
proof (induction "Suc (maxDepth r) - d" arbitrary: d rule: less_induct)
  case less
  show ?case unfolding reader_sound_def
  proof (intro allI impI)
    fix off v off' assume read: "readItem r bs d off = Inr (v, off')" and off: "off \<le> length bs"
    obtain initial off1 where d: "d \<le> maxDepth r" and byte: "readByte bs off = Inr (initial, off1)"
      using read by (auto simp: readItem.simps andThen_eq_Inr split: if_splits)
    define m where "m = initial div 32"
    define info where "info = initial mod 32"
    have off1: "initial < 256" "off1 = off + 1" "off1 \<le> length bs" using readByte_Inr [OF byte] by simp_all
    have split: "readByte bs off = Inr (32 * m + info, off1)" "info < 32"
      using byte by (simp_all add: m_def info_def)
    note major = readItem_major [OF d split]
    have inner: "reader_sound r bs (d + 1) (readItem r bs (d + 1))" using less d by simp
    have "m < 8" using off1(1) by (auto simp: m_def)
    moreover have "m \<noteq> 6" using read d byte
      by (auto simp: readItem.simps Let_def m_def)
    ultimately consider "m = 0" | "m = 1" | "m = 2" | "m = 3" | "m = 4" | "m = 5" | "m = 7" by linarith
    then show "item_ok r d v \<and> off' \<le> length bs \<and> off + length (cbor_bytes v) \<le> off'"
    proof cases
      case 1
      with read major(1) obtain n where "readArgument bs info off1 = Inr (n, off')" "v = V_number (JInt (int n))"
        by (auto simp: andThen_eq_Inr)
      with readArgument_Inr [of bs info off1 n off' 0] off1 d show ?thesis
        by (auto simp: item_ok_def MAX_SAFE_INTEGER_def)
    next
      case 2
      with read major(2) obtain n where "readArgument bs info off1 = Inr (n, off')"
        "v = V_number (JInt (- 1 - int n))" "isSafeInteger (JInt (- 1 - int n))"
        by (auto simp: readNegative_def andThen_eq_Inr Let_def split: if_splits)
      with readArgument_Inr [of bs info off1 n off' 1] off1 d show ?thesis
        by (auto simp: item_ok_def)
    next
      case 3
      with read major(3) obtain n off2 b where r: "readBytes bs n off2 = Inr (b, off')" "v = V_bytes b"
        "readLength bs info ''byte string'' (maxByteLength r) off1 = Inr (n, off2)"
        by (auto simp: andThen_eq_Inr)
      note len = readLength_Inr [OF r(3) off1(3), of 2]
      with readBytes_Inr [OF r(1)] r(2) off1 d show ?thesis by (auto simp: item_ok_def)
    next
      case 4
      with read major(4) readText_Inr [of r bs info off1 v off' d] off1 d show ?thesis by auto
    next
      case 5
      with read major(5) obtain n off2 vs where r: "readItems r bs (d + 1) n off2 = Inr (vs, off')"
        "v = V_array vs" "readLength bs info ''array'' (maxContainerLength r) off1 = Inr (n, off2)"
        by (auto simp: andThen_eq_Inr)
      note len = readLength_Inr [OF r(3) off1(3), of 4]
      with readItems_sound [OF inner r(1)] have items: "list_all (item_ok r (Suc d)) vs" "length vs = n"
        "off' \<le> length bs" "off2 + length (concat (map cbor_bytes vs)) \<le> off'" by simp_all
      with item_ok_array [OF items(1) d] len r(2) off1 show ?thesis by auto
    next
      case 6
      with read major(6) obtain n off2 kvs where r: "readEntries r bs (d + 1) n {} off2 = Inr (kvs, off')"
        "v = V_object False kvs" "readLength bs info ''map'' (maxContainerLength r) off1 = Inr (n, off2)"
        by (auto simp: andThen_eq_Inr)
      note len = readLength_Inr [OF r(3) off1(3), of 5]
      with readEntries_sound [OF inner r(1)] have
        items: "list_all (\<lambda>(k, v). text_ok r k \<and> item_ok r (Suc d) v) kvs" "length kvs = n"
        "distinct (map fst kvs)" "off' \<le> length bs"
        "off2 + length (concat (map (\<lambda>(k, v). text_bytes k @ cbor_bytes v) kvs)) \<le> off'" by simp_all
      with item_ok_object [OF items(1,3) d] len r(2) off1 show ?thesis
        by (auto simp: concat_defined_entries defined_entries_id [OF items(1)])
    next
      case 7
      with read major(7) readSimple_Inr [of bs info off1 v off' d r] off1 d show ?thesis by auto
    qed
  qed
qed

lemma decode_sound:
  assumes "decodeCbor bs opts = Inr v"
  shows "\<exists>r. resolveOptions opts = Inr r \<and> item_ok r 0 v \<and> length bs \<le> maxByteLength r \<and>
    length (cbor_bytes v) \<le> length bs"
proof -
  obtain r where r: "resolveOptions opts = Inr r" "length bs \<le> maxByteLength r"
    and read: "readItem r bs 0 0 = Inr (v, length bs)"
    using assms by (auto simp: decodeCbor_def andThen_eq_Inr split: if_splits)
  from reader_soundD [OF readItem_sound read] r show ?thesis by auto
qed

end
