(* ===== verification/Framing_Spec.thy ===== *)
theory Framing_Spec
  imports Framing Cbor_Sound
begin

text \<open>
  The abstract frame stream and the proof that the block-wise decoder implements it. \<open>parse_frames\<close>
  splits a byte sequence into whole payloads and the rest; \<open>buffered\<close> is the part of the stream the
  decoder holds. The interface \<open>stream_decoder\<close> states what a client may rely on.
\<close>

section \<open>The stream\<close>

text \<open>The payloads at the front of the bytes, and either what is left or a length over the limit.\<close>

function parse_frames :: "nat \<Rightarrow> bytes \<Rightarrow> bytes list \<times> (nat + bytes)" where
  "parse_frames limit bs =
     (if length bs < 4 then ([], Inr bs)
      else if frame_length bs > limit then ([], Inl (frame_length bs))
      else if length bs < 4 + frame_length bs then ([], Inr bs)
      else map_prod (Cons (take (frame_length bs) (drop 4 bs))) id
             (parse_frames limit (drop (4 + frame_length bs) bs)))"
  by pat_completeness auto
termination
  by (relation "measure (\<lambda>(_, bs). length bs)") auto

declare parse_frames.simps [simp del]

definition prepend :: "bytes list \<Rightarrow> bytes list \<times> 'a \<Rightarrow> bytes list \<times> 'a" where
  "prepend fs = map_prod ((@) fs) id"

lemma prepend_simps [simp]: "prepend [] = id" "prepend fs (gs, x) = (fs @ gs, x)"
  "prepend fs (prepend gs y) = prepend (fs @ gs) y"
  by (simp_all add: prepend_def fun_eq_iff map_prod_def split: prod.splits)

lemma parse_short: "length bs < 4 \<Longrightarrow> parse_frames limit bs = ([], Inr bs)"
  by (simp add: parse_frames.simps)

lemma frame_length_append: "4 \<le> length bs \<Longrightarrow> frame_length (bs @ cs) = frame_length bs"
  by (auto simp: frame_length_def nth_append)

lemma frame_length_value: "length bs \<ge> 4 \<Longrightarrow> frame_length bs = be_value (take 4 bs)"
  using be_value_4 [of "take 4 bs"] by (simp add: frame_length_def)

lemma frame_length_be_bytes: "n < 256 ^ 4 \<Longrightarrow> frame_length (be_bytes 4 n @ bs) = n"
  by (simp add: frame_length_value be_value_be_bytes)

lemma append_eq_Cons: "(@) [x] = Cons x"
  by (simp add: fun_eq_iff)

lemma parse_head:
  assumes "n < 256 ^ 4"
  shows "parse_frames limit (be_bytes 4 n @ bs) =
    (if n > limit then ([], Inl n)
     else if length bs < n then ([], Inr (be_bytes 4 n @ bs))
     else prepend [take n bs] (parse_frames limit (drop n bs)))"
  using frame_length_be_bytes [OF assms, of bs]
  by (subst parse_frames.simps) (simp add: prepend_def append_eq_Cons)

lemma be_bytes_be_value: "be_bytes (length bs) (be_value bs) = bs"
proof (induction bs rule: rev_induct)
  case (snoc b bs)
  have "(be_value bs * 256 + unat b) div 256 = be_value bs" using unat_8 [of b] by simp
  moreover have "(word_of_nat (be_value bs * 256 + unat b) :: 8 word) = b"
    using unat_8 [of b] by (simp only: word_unat_eq_iff unsigned_of_nat take_bit_eq_mod) simp
  ultimately show ?case using snoc by (simp add: be_bytes_snoc be_value_snoc)
qed (simp add: be_value_def)

text \<open>Four bytes are the prefix of their length.\<close>

lemma four_bytes:
  assumes "length h = 4"
  shows "h = be_bytes 4 (frame_length h) \<and> frame_length h < 256 ^ 4"
  using be_bytes_be_value [of h] be_value_less [of h] frame_length_value [of h] assms by simp

section \<open>The decoder's part of the stream\<close>

definition payload_bytes :: "frame_decoder \<Rightarrow> bytes" where
  "payload_bytes fd =
     (if fd_payloadBlocks fd = [] then []
      else concat (butlast (fd_payloadBlocks fd))
             @ take (fd_currentPayloadBlockLength fd) (last (fd_payloadBlocks fd)))"

definition buffered :: "frame_decoder \<Rightarrow> bytes" where
  "buffered fd =
     (case fd_expectedPayloadLength fd of
        None \<Rightarrow> take (fd_headerLength fd) (fd_header fd)
      | Some n \<Rightarrow> be_bytes 4 n @ payload_bytes fd)"

text \<open>The blocks of a payload of length \<open>n\<close> that is being received.\<close>

definition blocks_ok :: "nat \<Rightarrow> frame_decoder \<Rightarrow> bool" where
  "blocks_ok n fd \<longleftrightarrow>
     length (concat (fd_payloadBlocks fd)) \<le> n \<and> fd_payloadLength fd = length (payload_bytes fd) \<and>
     (if fd_payloadBlocks fd = [] then fd_currentPayloadBlock fd = None
      else fd_currentPayloadBlock fd = Some (length (fd_payloadBlocks fd) - 1) \<and>
        fd_currentPayloadBlockLength fd \<le> length (last (fd_payloadBlocks fd)))"

definition frame_ok :: "frame_decoder \<Rightarrow> bool" where
  "frame_ok fd \<longleftrightarrow>
     length (fd_header fd) = 4 \<and> fd_headerLength fd < 4 \<and> fd_state fd = D_open \<and>
     fd_maxFrameLength fd \<le> MAX_UINT32 \<and>
     (case fd_expectedPayloadLength fd of
        None \<Rightarrow> True
      | Some n \<Rightarrow> fd_headerLength fd = 0 \<and> 0 < n \<and> n \<le> fd_maxFrameLength fd \<and>
          fd_payloadLength fd < n \<and> blocks_ok n fd)"

lemma frame_ok_open: "frame_ok fd \<Longrightarrow> fd_state fd = D_open"
  by (simp add: frame_ok_def)

lemma parse_buffered:
  assumes "frame_ok fd"
  shows "parse_frames (fd_maxFrameLength fd) (buffered fd) = ([], Inr (buffered fd))"
proof (cases "fd_expectedPayloadLength fd")
  case None
  then show ?thesis using assms by (simp add: buffered_def frame_ok_def parse_short)
next
  case (Some n)
  then have "n < 256 ^ 4" "length (payload_bytes fd) < n" "n \<le> fd_maxFrameLength fd"
    using assms by (auto simp: frame_ok_def blocks_ok_def MAX_UINT32_def)
  then show ?thesis using Some by (simp add: buffered_def parse_head)
qed

section \<open>Copying into blocks\<close>

text \<open>One copy: it takes at least one byte, and the payload grows by what it takes.\<close>

text \<open>Copying leaves the other fields alone.\<close>

definition same_frame :: "frame_decoder \<Rightarrow> frame_decoder \<Rightarrow> bool" where
  "same_frame fd fd' \<longleftrightarrow>
     fd_header fd' = fd_header fd \<and> fd_headerLength fd' = fd_headerLength fd \<and>
     fd_maxFrameLength fd' = fd_maxFrameLength fd \<and> fd_state fd' = fd_state fd \<and>
     fd_expectedPayloadLength fd' = fd_expectedPayloadLength fd"

lemma concat_butlast_last: "xss \<noteq> [] \<Longrightarrow> concat (butlast xss) @ last xss = concat xss"
  by (metis append_butlast_last_id concat.simps(1) concat.simps(2) concat_append append_Nil2)

lemma payload_le: "length (payload_bytes fd) \<le> length (concat (fd_payloadBlocks fd))"
proof (cases "fd_payloadBlocks fd = []")
  case False
  show ?thesis
    unfolding concat_butlast_last [OF False, symmetric] using False by (simp add: payload_bytes_def)
qed (simp add: payload_bytes_def)

lemma allocate_ok:
  assumes "blocks_ok n fd" and "fd_payloadLength fd < n" and "payload_bytes fd = concat (fd_payloadBlocks fd)"
    and "fd' = fd\<lparr>fd_payloadBlocks := fd_payloadBlocks fd @
              [replicate (min PAYLOAD_BLOCK_SIZE (n - fd_payloadLength fd)) 0],
            fd_currentPayloadBlock := Some (length (fd_payloadBlocks fd)),
            fd_currentPayloadBlockLength := 0\<rparr>"
  shows "blocks_ok n fd' \<and> payload_bytes fd' = payload_bytes fd \<and>
    fd_currentPayloadBlockLength fd' < length (last (fd_payloadBlocks fd'))"
  using assms by (auto simp: blocks_ok_def payload_bytes_def [of "fd'"] PAYLOAD_BLOCK_SIZE_def)
    (simp_all add: payload_bytes_def)

lemma current_block_ok:
  assumes "blocks_ok n fd" and "fd_payloadLength fd < n" and "current_block n fd = (fd', i)"
  shows "blocks_ok n fd' \<and> fd_payloadBlocks fd' \<noteq> [] \<and> i = length (fd_payloadBlocks fd') - 1 \<and>
    payload_bytes fd' = payload_bytes fd \<and>
    fd_currentPayloadBlockLength fd' < length (last (fd_payloadBlocks fd')) \<and>
    same_frame fd fd'"
proof (cases "fd_payloadBlocks fd = [] \<or> fd_currentPayloadBlockLength fd = length (last (fd_payloadBlocks fd))")
  case True
  then have "payload_bytes fd = concat (fd_payloadBlocks fd)"
    by (auto simp: payload_bytes_def concat_butlast_last)
  moreover have alloc: "fd' = fd\<lparr>fd_payloadBlocks := fd_payloadBlocks fd @
              [replicate (min PAYLOAD_BLOCK_SIZE (n - fd_payloadLength fd)) 0],
            fd_currentPayloadBlock := Some (length (fd_payloadBlocks fd)),
            fd_currentPayloadBlockLength := 0\<rparr>" "i = length (fd_payloadBlocks fd)"
    using assms(1,3) True
    by (auto simp: current_block_def Let_def blocks_ok_def last_conv_nth split: if_splits)
  ultimately show ?thesis using allocate_ok [OF assms(1,2) _ alloc(1)] alloc
    by (auto simp: same_frame_def)
next
  case False
  then have "fd' = fd" "i = length (fd_payloadBlocks fd) - 1"
    using assms(1,3)
    by (auto simp: current_block_def Let_def blocks_ok_def last_conv_nth split: if_splits)
  with False assms(1) show ?thesis
    by (auto simp: blocks_ok_def same_frame_def)
qed

lemma copy_block_ok:
  assumes "blocks_ok n fd" and "fd_payloadLength fd < n" and "chunk \<noteq> []"
    and "copy_block n fd chunk = (fd', chunk')"
  shows "\<exists>k. 0 < k \<and> k \<le> length chunk \<and> chunk' = drop k chunk \<and> blocks_ok n fd' \<and>
    payload_bytes fd' = payload_bytes fd @ take k chunk \<and>
    same_frame fd fd'"
proof -
  obtain fd1 i where cb: "current_block n fd = (fd1, i)" by force
  note ok = current_block_ok [OF assms(1,2) cb]
  define blocks where "blocks = fd_payloadBlocks fd1"
  define cur where "cur = fd_currentPayloadBlockLength fd1"
  define k where "k = min (length (last blocks) - cur) (length chunk)"
  from ok have b: "blocks \<noteq> []" "i = length blocks - 1" "cur < length (last blocks)"
    by (auto simp: blocks_def cur_def)
  then have last_i: "blocks ! i = last blocks" by (simp add: last_conv_nth)
  have fd': "fd' = fd1\<lparr>fd_payloadBlocks := blocks[i := set_bytes (last blocks) cur (take k chunk)],
      fd_currentPayloadBlockLength := cur + k, fd_payloadLength := fd_payloadLength fd1 + k\<rparr>"
    "chunk' = drop k chunk"
    using assms(4) cb last_i by (auto simp: copy_block_def Let_def blocks_def cur_def k_def)
  have upd: "blocks[i := x] = butlast blocks @ [x]" for x
    using b(1,2) by (metis append_butlast_last_id length_butlast list_update_length)
  have k: "0 < k" "k \<le> length chunk" "cur + k \<le> length (last blocks)"
    using b(3) assms(3) by (auto simp: k_def)
  have set_k: "length (set_bytes (last blocks) cur (take k chunk)) = length (last blocks)"
    "take (cur + k) (set_bytes (last blocks) cur (take k chunk)) = take cur (last blocks) @ take k chunk"
    using length_set_bytes [of cur "take k chunk" "last blocks"]
      take_set_bytes [of cur "take k chunk" "last blocks"] k by simp_all
  have "payload_bytes fd' = payload_bytes fd1 @ take k chunk"
    using b(1) upd set_k fd'(1) by (simp add: payload_bytes_def blocks_def cur_def)
  then have pay: "payload_bytes fd' = payload_bytes fd @ take k chunk" using ok by simp
  have "length (concat (butlast blocks)) + length (last blocks) = length (concat blocks)"
    using concat_butlast_last [OF b(1)] by (metis length_append)
  then have "blocks_ok n fd'"
    using ok b upd set_k(1) fd'(1) k pay by (auto simp: blocks_ok_def blocks_def cur_def)
  with pay k fd' ok show ?thesis by (intro exI [of _ k]) (auto simp: same_frame_def)
qed

lemma copy_payload_ok:
  assumes "blocks_ok n fd" and "fd_payloadLength fd \<le> n"
  shows "\<exists>fd' k. copy_payload n fd chunk = Some (fd', drop k chunk) \<and> blocks_ok n fd' \<and>
    k = min (n - fd_payloadLength fd) (length chunk) \<and>
    payload_bytes fd' = payload_bytes fd @ take k chunk \<and>
    same_frame fd fd'"
  using assms
proof (induction "length chunk" arbitrary: fd chunk rule: less_induct)
  case less
  have len: "fd_payloadLength f = length (payload_bytes f)" if "blocks_ok n f" for f
    using that by (simp add: blocks_ok_def)
  show ?case
  proof (cases "chunk \<noteq> [] \<and> fd_payloadLength fd < n")
    case False
    then have "copy_payload n fd chunk = Some (fd, chunk)"
      by (subst copy_payload.simps) auto
    with False less.prems show ?thesis
      by (intro exI [of _ fd] exI [of _ 0]) (auto simp: same_frame_def)
  next
    case True
    obtain fd1 chunk1 where c: "copy_block n fd chunk = (fd1, chunk1)" by force
    from copy_block_ok [OF less.prems(1) _ _ c] True obtain j where
      j: "0 < j" "j \<le> length chunk" "chunk1 = drop j chunk" "blocks_ok n fd1"
        "payload_bytes fd1 = payload_bytes fd @ take j chunk"
      and frame: "same_frame fd fd1" by blast
    have l1: "fd_payloadLength fd1 = fd_payloadLength fd + j"
      using len [OF j(4)] len [OF less.prems(1)] j(2,5) by simp
    note payload_le [of fd1]
    then have "fd_payloadLength fd1 \<le> n" using j(4) by (simp add: blocks_ok_def)
    have "length chunk1 < length chunk" using j(1-3) True by simp
    from less.hyps [OF this j(4) \<open>fd_payloadLength fd1 \<le> n\<close>] obtain fd' k where
      r: "copy_payload n fd1 chunk1 = Some (fd', drop k chunk1)" "blocks_ok n fd'"
        "k = min (n - fd_payloadLength fd1) (length chunk1)"
        "payload_bytes fd' = payload_bytes fd1 @ take k chunk1"
      and frame': "same_frame fd1 fd'" by blast
    have "copy_payload n fd chunk = copy_payload n fd1 chunk1"
      using True c by (subst copy_payload.simps) simp
    moreover have "drop k chunk1 = drop (j + k) chunk" using j(3) by (simp add: add.commute)
    moreover have "payload_bytes fd' = payload_bytes fd @ take (j + k) chunk"
      using r(4) j(3,5) by (simp add: take_add)
    moreover have "j + k = min (n - fd_payloadLength fd) (length chunk)"
      using r(3) j l1 \<open>fd_payloadLength fd1 \<le> n\<close> by simp
    ultimately show ?thesis using r frame frame'
      by (intro exI [of _ fd'] exI [of _ "j + k"]) (auto simp: same_frame_def)
  qed
qed

text \<open>A complete payload is the concatenation of its blocks.\<close>

lemma join_blocks_eq: "length (concat blocks) = n \<Longrightarrow> join_blocks n blocks = concat blocks"
proof (cases "length blocks = 1")
  case True
  then obtain b where "blocks = [b]" by (auto simp: length_Suc_conv)
  then show ?thesis by (simp add: join_blocks_def)
next
  case False
  have fold: "foldl (\<lambda>(payload, off) block. (set_bytes payload off block, off + length block)) (replicate n 0, 0) bs
      = (set_bytes (replicate n 0) 0 (concat bs), length (concat bs))"
    if "length (concat bs) \<le> n" for bs :: "bytes list"
    using that
  proof (induction bs rule: rev_induct)
    case Nil
    then show ?case by (simp add: set_bytes_def)
  next
    case (snoc b bs)
    then show ?case using set_bytes_append [of 0 "concat bs" b "replicate n 0"] by simp
  qed
  assume "length (concat blocks) = n"
  with False fold [of blocks] show ?thesis by (simp add: join_blocks_def set_bytes_def)
qed

lemma complete_payload:
  assumes "blocks_ok n fd" and "fd_payloadLength fd = n" and "0 < n"
  shows "join_blocks n (fd_payloadBlocks fd) = payload_bytes fd"
proof -
  have len: "length (payload_bytes fd) = n" "length (concat (fd_payloadBlocks fd)) = n"
    using assms(1,2) payload_le [of fd] by (simp_all add: blocks_ok_def)
  then have ne: "fd_payloadBlocks fd \<noteq> []" using assms(3) by auto
  have split: "concat (fd_payloadBlocks fd) = concat (butlast (fd_payloadBlocks fd)) @ last (fd_payloadBlocks fd)"
    using concat_butlast_last [OF ne] by simp
  then have "length (take (fd_currentPayloadBlockLength fd) (last (fd_payloadBlocks fd))) =
      length (last (fd_payloadBlocks fd))"
    using len ne by (simp add: payload_bytes_def)
  then have "take (fd_currentPayloadBlockLength fd) (last (fd_payloadBlocks fd)) = last (fd_payloadBlocks fd)"
    by simp
  with split ne have "payload_bytes fd = concat (fd_payloadBlocks fd)" by (simp add: payload_bytes_def)
  with join_blocks_eq [OF len(2)] show ?thesis by simp
qed

section \<open>One iteration and the whole push\<close>

text \<open>What an iteration may do to the stream: it takes bytes, and what is still to be parsed is the same.\<close>

definition step_refines ::
  "frame_decoder \<Rightarrow> bytes \<Rightarrow> (frame_decoder \<times> (protocol_error + bytes \<times> bytes list)) option \<Rightarrow> bool" where
  "step_refines fd chunk res \<longleftrightarrow>
     (\<exists>fd' r. res = Some (fd', r) \<and>
       (case r of
          Inl e \<Rightarrow> fd_state fd' = D_failed \<and>
            (\<exists>n. parse_frames (fd_maxFrameLength fd) (buffered fd @ chunk) = ([], Inl n) \<and>
               e = FrameError (frame_limit_message n (fd_maxFrameLength fd)))
        | Inr (chunk', fs) \<Rightarrow> frame_ok fd' \<and> fd_maxFrameLength fd' = fd_maxFrameLength fd \<and>
            length chunk' \<le> length chunk \<and>
            parse_frames (fd_maxFrameLength fd) (buffered fd @ chunk) =
              prepend fs (parse_frames (fd_maxFrameLength fd) (buffered fd' @ chunk'))))"

lemma step_refines_mono:
  assumes "step_refines fd1 chunk1 res" and "buffered fd1 @ chunk1 = buffered fd @ chunk"
    and "fd_maxFrameLength fd1 = fd_maxFrameLength fd" and "length chunk1 \<le> length chunk"
  shows "step_refines fd chunk res"
proof -
  obtain fd' r where r: "res = Some (fd', r)" using assms(1) by (auto simp: step_refines_def)
  show ?thesis using assms unfolding step_refines_def r by (cases r) auto
qed

lemma payload_step_refines:
  assumes "length (fd_header fd) = 4" "fd_headerLength fd = 0" "fd_state fd = D_open"
    "fd_maxFrameLength fd \<le> MAX_UINT32" "fd_expectedPayloadLength fd = Some n"
    "0 < n" "n \<le> fd_maxFrameLength fd" "fd_payloadLength fd < n" "blocks_ok n fd"
  shows "step_refines fd chunk (payload_step n fd chunk)"
    and "chunk \<noteq> [] \<Longrightarrow> payload_step n fd chunk = Some (fd', Inr (chunk', fs)) \<Longrightarrow>
      length chunk' < length chunk"
proof -
  obtain fd1 k where c: "copy_payload n fd chunk = Some (fd1, drop k chunk)" "blocks_ok n fd1"
      "k = min (n - fd_payloadLength fd) (length chunk)"
      "payload_bytes fd1 = payload_bytes fd @ take k chunk" "same_frame fd fd1"
    using copy_payload_ok [OF assms(9), of chunk] assms(8) by auto
  have len: "fd_payloadLength fd = length (payload_bytes fd)" "fd_payloadLength fd1 = length (payload_bytes fd1)"
    using assms(9) c(2) by (simp_all add: blocks_ok_def)
  have small: "n < 256 ^ 4" using assms(4,7) by (simp add: MAX_UINT32_def)
  have stream: "buffered fd @ chunk = be_bytes 4 n @ payload_bytes fd1 @ drop k chunk"
    using assms(5) c(4) by (simp add: buffered_def)
  show "step_refines fd chunk (payload_step n fd chunk)"
  proof (cases "fd_payloadLength fd1 = n")
    case True
    have "parse_frames (fd_maxFrameLength fd) (buffered fd @ chunk) =
        prepend [payload_bytes fd1] (parse_frames (fd_maxFrameLength fd) (drop k chunk))"
      unfolding stream using parse_head [OF small] assms(7) True len(2) by simp
    moreover have "frame_ok (clear_payload None fd1)" "buffered (clear_payload None fd1) = []"
      using assms(1-4) c(5) by (auto simp: clear_payload_def frame_ok_def same_frame_def buffered_def)
    ultimately show ?thesis
      using c(1,5) True complete_payload [OF c(2) True assms(6)]
      by (simp add: payload_step_def step_refines_def clear_payload_def same_frame_def)
  next
    case False
    have lt: "fd_payloadLength fd1 < n" using False len c(3,4) assms(8) by auto
    then have "frame_ok fd1" "buffered fd1 @ drop k chunk = buffered fd @ chunk"
      using assms c(2,5) stream by (auto simp: frame_ok_def same_frame_def buffered_def)
    then show ?thesis using c(1,5) False
      by (simp add: payload_step_def step_refines_def same_frame_def)
  qed
  show "length chunk' < length chunk" if "chunk \<noteq> []" "payload_step n fd chunk = Some (fd', Inr (chunk', fs))"
    using that c(1,3) assms(8) by (auto simp: payload_step_def split: if_splits)
qed

lemma take_set_front:
  assumes "length h = 4" and "j + length c \<le> 4"
  shows "take (j + length c) (set_bytes h j c) = take j h @ c \<and> length (set_bytes h j c) = 4"
  using take_set_bytes [of j c h] length_set_bytes [of j c h] assms by simp

lemma push_step_refines:
  assumes ok: "frame_ok fd" and chunk: "chunk \<noteq> []"
  shows "step_refines fd chunk (push_step fd chunk) \<and>
    (\<forall>fd' chunk' fs. push_step fd chunk = Some (fd', Inr (chunk', fs)) \<longrightarrow> length chunk' < length chunk)"
proof (cases "fd_expectedPayloadLength fd")
  case (Some n)
  then show ?thesis
    using payload_step_refines [of fd n chunk] ok chunk by (auto simp: push_step_def frame_ok_def)
next
  case None
  define j where "j = fd_headerLength fd"
  define k where "k = min (4 - j) (length chunk)"
  define h where "h = set_bytes (fd_header fd) j (take k chunk)"
  let ?fd1 = "fd\<lparr>fd_header := h, fd_headerLength := j + k\<rparr>"
  have j: "j < 4" "length (fd_header fd) = 4" "fd_state fd = D_open" "fd_maxFrameLength fd \<le> MAX_UINT32"
    using ok by (auto simp: frame_ok_def j_def)
  have k: "0 < k" "k \<le> length chunk" "j + k \<le> 4" using j(1) chunk by (auto simp: k_def)
  have h: "take (j + k) h = take j (fd_header fd) @ take k chunk" "length h = 4"
    using take_set_front [of "fd_header fd" j "take k chunk"] j(2) k by (simp_all add: h_def)
  have stream: "buffered fd @ chunk = take (j + k) h @ drop k chunk"
    using None h(1) by (simp add: buffered_def j_def)
  show ?thesis
  proof (cases "j + k < 4")
    case True
    then have "push_step fd chunk = Some (?fd1, Inr (drop k chunk, []))"
      using None True
      by (simp add: push_step_def Let_def FRAME_HEADER_LENGTH_def flip: j_def k_def h_def)
    moreover have "frame_ok ?fd1" "buffered ?fd1 = take (j + k) h"
      using True None j h(2) by (auto simp: frame_ok_def buffered_def)
    ultimately show ?thesis using stream k chunk by (auto simp: step_refines_def)
  next
    case False
    define n where "n = frame_length h"
    let ?fd2 = "?fd1\<lparr>fd_headerLength := 0\<rparr>" and ?limit = "fd_maxFrameLength fd"
    have h4: "take (j + k) h = be_bytes 4 n" "n < 256 ^ 4"
      using False k(3) four_bytes [OF h(2)] h(2) by (simp_all add: n_def)
    have parse: "parse_frames ?limit (buffered fd @ chunk) =
        (if n > ?limit then ([], Inl n)
         else if length (drop k chunk) < n then ([], Inr (be_bytes 4 n @ drop k chunk))
         else prepend [take n (drop k chunk)] (parse_frames ?limit (drop n (drop k chunk))))"
      unfolding stream h4(1) by (rule parse_head [OF h4(2)])
    have step: "push_step fd chunk =
        (if n > ?limit then Some (failed_decoder ?fd2, Inl (FrameError (frame_limit_message n ?limit)))
         else if n = 0 then Some (?fd2, Inr (drop k chunk, [[]]))
         else payload_step n (clear_payload (Some n) ?fd2) (drop k chunk))"
      using None False
      by (simp add: push_step_def Let_def FRAME_HEADER_LENGTH_def n_def flip: j_def k_def h_def)
    consider "n > ?limit" | "n = 0" | "0 < n" "n \<le> ?limit" by linarith
    then show ?thesis
    proof cases
      case 1
      with parse step show ?thesis by (simp add: step_refines_def failed_decoder_def clear_payload_def)
    next
      case 2
      have "frame_ok ?fd2" "buffered ?fd2 = []" using None j h(2) by (auto simp: frame_ok_def buffered_def)
      with 2 parse step k chunk show ?thesis by (auto simp: step_refines_def)
    next
      case 3
      let ?fd3 = "clear_payload (Some n) ?fd2"
      have b: "blocks_ok n ?fd3" "payload_bytes ?fd3 = []"
        by (simp_all add: blocks_ok_def payload_bytes_def clear_payload_def)
      note pre = payload_step_refines [of ?fd3 n]
      have "step_refines ?fd3 (drop k chunk) (push_step fd chunk)"
        using pre(1) 3 step b(1) j h(2) by (simp add: clear_payload_def)
      moreover have "buffered ?fd3 @ drop k chunk = buffered fd @ chunk"
        using b(2) stream h4(1) by (simp add: buffered_def clear_payload_def)
      moreover have "fd_maxFrameLength ?fd3 = ?limit" by (simp add: clear_payload_def)
      moreover have "length (drop k chunk) < length chunk" using k chunk by simp
      ultimately have "step_refines fd chunk (push_step fd chunk)"
        using step_refines_mono [of ?fd3 "drop k chunk" _ fd chunk] by simp
      moreover have "length chunk' \<le> length (drop k chunk)"
        if "push_step fd chunk = Some (fd', Inr (chunk', fs))" for fd' chunk' fs
        using \<open>step_refines ?fd3 (drop k chunk) (push_step fd chunk)\<close> that by (auto simp: step_refines_def)
      ultimately show ?thesis using \<open>length (drop k chunk) < length chunk\<close> by fastforce
    qed
  qed
qed

lemma push_loop_refines:
  "frame_ok fd \<Longrightarrow>
     (case parse_frames (fd_maxFrameLength fd) (buffered fd @ chunk) of
        (fs, Inr rest) \<Rightarrow> \<exists>fd'. push_loop fd chunk frames = Some (fd', Inr (frames @ fs)) \<and>
          frame_ok fd' \<and> buffered fd' = rest \<and> fd_maxFrameLength fd' = fd_maxFrameLength fd
      | (fs, Inl n) \<Rightarrow> \<exists>fd'. push_loop fd chunk frames =
            Some (fd', Inl (FrameError (frame_limit_message n (fd_maxFrameLength fd)))) \<and>
          fd_state fd' = D_failed)"
proof (induction "length chunk" arbitrary: fd chunk frames rule: less_induct)
  case less
  show ?case
  proof (cases "chunk = []")
    case True
    then show ?thesis using parse_buffered [OF less.prems] less.prems
      by (subst push_loop.simps) simp
  next
    case False
    have loop: "push_loop fd chunk frames = Option.bind (push_step fd chunk) (\<lambda>r.
        case snd r of
          Inl e \<Rightarrow> Some (fst r, Inl e)
        | Inr p \<Rightarrow> push_loop (fst r) (fst p) (frames @ snd p))"
      using False by (subst push_loop.simps) simp
    note step = push_step_refines [OF less.prems False]
    then obtain fd1 r where r: "push_step fd chunk = Some (fd1, r)" by (auto simp: step_refines_def)
    show ?thesis
    proof (cases r)
      case (Inl e)
      with r step loop show ?thesis by (auto simp: step_refines_def)
    next
      case (Inr p)
      obtain chunk1 fs1 where p: "p = (chunk1, fs1)" by force
      with r Inr step have s1: "frame_ok fd1" "fd_maxFrameLength fd1 = fd_maxFrameLength fd"
        "length chunk1 < length chunk"
        "parse_frames (fd_maxFrameLength fd) (buffered fd @ chunk) =
           prepend fs1 (parse_frames (fd_maxFrameLength fd) (buffered fd1 @ chunk1))"
        by (auto simp: step_refines_def)
      from less.hyps [OF s1(3,1), of "frames @ fs1"] s1(2,4) r Inr p loop show ?thesis
        by (auto split: prod.splits sum.splits)
    qed
  qed
qed

lemma push_frames_refines:
  assumes "frame_ok fd"
  shows "case parse_frames (fd_maxFrameLength fd) (buffered fd @ chunk) of
      (fs, Inr rest) \<Rightarrow> \<exists>fd'. push_frames fd chunk = Some (fd', Inr fs) \<and>
        frame_ok fd' \<and> buffered fd' = rest \<and> fd_maxFrameLength fd' = fd_maxFrameLength fd
    | (fs, Inl n) \<Rightarrow> \<exists>fd'. push_frames fd chunk =
          Some (fd', Inl (FrameError (frame_limit_message n (fd_maxFrameLength fd)))) \<and>
        fd_state fd' = D_failed"
  using push_loop_refines [OF assms, of chunk "[]"] frame_ok_open [OF assms]
  by (simp add: push_frames_def not_open_def split: prod.splits sum.splits)

section \<open>The interface of a stream decoder\<close>

lemma parse_append:
  "parse_frames limit (xs @ ys) =
     (case parse_frames limit xs of
        (fs, Inl n) \<Rightarrow> (fs, Inl n)
      | (fs, Inr rest) \<Rightarrow> prepend fs (parse_frames limit (rest @ ys)))"
proof (induction limit xs rule: parse_frames.induct)
  case (1 limit xs)
  show ?case
  proof (cases "length xs < 4")
    case True
    then show ?thesis by (simp add: parse_short)
  next
    case False
    then have len: "frame_length (xs @ ys) = frame_length xs" by (simp add: frame_length_append)
    show ?thesis
    proof (cases "frame_length xs > limit \<or> length xs < 4 + frame_length xs")
      case True
      with False len show ?thesis by (auto simp: parse_frames.simps [of limit xs] parse_frames.simps [of limit "xs @ ys"])
    next
      case complete: False
      have "parse_frames limit (xs @ ys) = map_prod (Cons (take (frame_length xs) (drop 4 xs))) id
          (parse_frames limit (drop (4 + frame_length xs) xs @ ys))"
        using False complete len by (subst parse_frames.simps) simp
      moreover have "parse_frames limit xs = map_prod (Cons (take (frame_length xs) (drop 4 xs))) id
          (parse_frames limit (drop (4 + frame_length xs) xs))"
        using False complete by (subst parse_frames.simps) simp
      ultimately show ?thesis using 1 False complete
        by (auto simp: prepend_def map_prod_def split: prod.splits sum.splits)
    qed
  qed
qed

fun push_all :: "('s \<Rightarrow> bytes \<Rightarrow> ('s \<times> ('e + bytes list)) option) \<Rightarrow> 's \<Rightarrow> bytes list \<Rightarrow> ('s \<times> bytes list) option" where
  "push_all push s [] = Some (s, [])"
| "push_all push s (c # cs) =
     (case push s c of
        Some (t, Inr fs) \<Rightarrow> map_option (map_prod id ((@) fs)) (push_all push t cs)
      | _ \<Rightarrow> None)"

locale stream_decoder =
  fixes ok :: "'s \<Rightarrow> bool"
    and pending :: "'s \<Rightarrow> bytes"
    and limit :: "'s \<Rightarrow> nat"
    and push :: "'s \<Rightarrow> bytes \<Rightarrow> ('s \<times> ('e + bytes list)) option"
  assumes push_frames_law: "ok s \<Longrightarrow> parse_frames (limit s) (pending s @ chunk) = (fs, Inr rest) \<Longrightarrow>
      \<exists>t. push s chunk = Some (t, Inr fs) \<and> ok t \<and> pending t = rest \<and> limit t = limit s"
    and pending_law: "ok s \<Longrightarrow> parse_frames (limit s) (pending s) = ([], Inr (pending s))"
begin

text \<open>How the stream is cut into chunks does not matter.\<close>

lemma push_all_parses:
  "ok s \<Longrightarrow> parse_frames (limit s) (pending s @ concat chunks) = (fs, Inr rest) \<Longrightarrow>
     \<exists>t. push_all push s chunks = Some (t, fs) \<and> ok t \<and> pending t = rest \<and> limit t = limit s"
proof (induction chunks arbitrary: s fs)
  case Nil
  then show ?case using pending_law by auto
next
  case (Cons c cs)
  obtain gs x where first: "parse_frames (limit s) (pending s @ c) = (gs, x)" by force
  have all: "parse_frames (limit s) ((pending s @ c) @ concat cs) = (fs, Inr rest)"
    using Cons.prems(2) by simp
  then obtain mid where mid: "x = Inr mid"
    unfolding parse_append [of _ "pending s @ c"] first by (cases x) auto
  obtain hs where hs: "parse_frames (limit s) (mid @ concat cs) = (hs, Inr rest)" "fs = gs @ hs"
    using all unfolding parse_append [of _ "pending s @ c"] first mid
    by (cases "parse_frames (limit s) (mid @ concat cs)") (auto simp: prepend_def)
  from push_frames_law [OF Cons.prems(1)] first mid obtain t where
    t: "push s c = Some (t, Inr gs)" "ok t" "pending t = mid" "limit t = limit s" by blast
  from Cons.IH [OF t(2), of hs] t hs show ?case by auto
qed

end

interpretation frames: stream_decoder frame_ok buffered fd_maxFrameLength push_frames
proof (unfold_locales, goal_cases)
  case (1 fd chunk fs rest)
  then show ?case using push_frames_refines [OF 1(1), of chunk] by simp
next
  case (2 fd)
  then show ?case by (rule parse_buffered)
qed

section \<open>Frames that were encoded\<close>

lemma encodeFrame_eq:
  "encodeFrame payload = Inr frame \<longleftrightarrow>
     length payload \<le> MAX_UINT32 \<and> frame = be_bytes 4 (length payload) @ payload"
proof -
  have four: "(replicate (4 + n) (0 :: 8 word))[0 := a, 1 := b, 2 := c, 3 := d] = [a, b, c, d] @ replicate n 0"
    for n a b c d
    by (simp add: numeral_eq_Suc)
  show ?thesis
    unfolding encodeFrame_def FRAME_HEADER_LENGTH_def Let_def four be_bytes_4
    by (auto simp: set_bytes_def)
qed

lemma parse_frames_encoded:
  assumes "list_all (\<lambda>p. length p \<le> limit) ps" and "limit \<le> MAX_UINT32"
  shows "parse_frames limit (concat (map (\<lambda>p. be_bytes 4 (length p) @ p) ps)) = (ps, Inr [])"
  using assms(1)
proof (induction ps)
  case Nil
  then show ?case by (simp add: parse_short)
next
  case (Cons p ps)
  then have "length p < 256 ^ 4" using assms(2) by (simp add: MAX_UINT32_def)
  from parse_head [OF this, of limit "p @ concat (map (\<lambda>p. be_bytes 4 (length p) @ p) ps)"] Cons
  show ?case by simp
qed

lemma new_frame_decoder_ok:
  assumes "new_frame_decoder opt = Inr fd"
  shows "frame_ok fd \<and> buffered fd = [] \<and> resolveMaxFrameLength opt = Inr (fd_maxFrameLength fd)"
  using assms
  by (auto simp: new_frame_decoder_def andThen_eq_Inr frame_ok_def buffered_def FRAME_HEADER_LENGTH_def
      resolveMaxFrameLength_def resolveLimit_def split: if_splits)

lemma buffered_Nil:
  "frame_ok fd \<Longrightarrow> buffered fd = [] \<longleftrightarrow> fd_headerLength fd = 0 \<and> fd_expectedPayloadLength fd = None"
  by (auto simp: buffered_def frame_ok_def be_bytes_4 split: option.splits)

lemma end_frames_eq:
  assumes "frame_ok fd"
  shows "end_frames fd =
    (if buffered fd = [] then (fd\<lparr>fd_state := D_ended\<rparr>, Inr ())
     else (failed_decoder fd, Inl (FrameError ''Truncated frame at end of stream'')))"
  using frame_ok_open [OF assms] buffered_Nil [OF assms] by (auto simp: end_frames_def not_open_def)

end
