(* ===== verification/Codec.thy ===== *)
theory Codec
  imports Framing_Spec
begin

text \<open>
  Validated messages: \<open>packages/protocol/src/codec.ts\<close>. \<open>Check\<close> of typebox, applied to the client or
  the server schema, is the parameter \<open>check\<close>. An exception caught by \<open>catch\<close> is the \<open>Inl\<close> of the
  protected block. An object is a plain one with the prototype \<open>Object.prototype\<close>; sparse arrays and
  objects without a prototype are not values of the model.
\<close>

section \<open>Validation\<close>

fun isProtocolValue :: "js_value \<Rightarrow> bool \<Rightarrow> bool" where
  "isProtocolValue V_undefined optionalProperty = optionalProperty"
| "isProtocolValue (V_array items) _ = list_all (\<lambda>v. isProtocolValue v False) items"
| "isProtocolValue (V_object symbolKey kvs) _ = list_all (\<lambda>(_, v). isProtocolValue v True) kvs"
| "isProtocolValue (V_bytes _) _ = False"
| "isProtocolValue (V_other _) _ = False"
| "isProtocolValue _ _ = True"

definition parse_message ::
  "(js_value \<Rightarrow> bool) \<Rightarrow> string \<Rightarrow> js_value \<Rightarrow> protocol_error + js_value" where
  "parse_message check kind v =
     (if \<not> isProtocolValue v False \<or> \<not> check v
      then Inl (ProtocolValidationError (''Invalid '' @ kind @ '' protocol message''))
      else Inr v)"

definition parseClientMessage :: "(js_value \<Rightarrow> bool) \<Rightarrow> js_value \<Rightarrow> protocol_error + js_value" where
  "parseClientMessage check = parse_message check ''client''"

definition parseServerMessage :: "(js_value \<Rightarrow> bool) \<Rightarrow> js_value \<Rightarrow> protocol_error + js_value" where
  "parseServerMessage check = parse_message check ''server''"

definition boundedErrorMessage :: "protocol_error \<Rightarrow> string" where
  "boundedErrorMessage e =
     (if length (error_message e) \<le> 500 then error_message e
      else take 497 (error_message e) @ ''...'')"

text \<open>The \<open>catch\<close> blocks: a validation error passes, any other error is wrapped.\<close>

fun wrap_error :: "string \<Rightarrow> protocol_error \<Rightarrow> protocol_error" where
  "wrap_error prefix (ProtocolValidationError m) = ProtocolValidationError m"
| "wrap_error prefix e = ProtocolValidationError (prefix @ boundedErrorMessage e)"

definition max_frame_length :: "js_number option \<Rightarrow> js_number" where
  "max_frame_length opt = (case opt of Some v \<Rightarrow> v | None \<Rightarrow> JInt (int DEFAULT_MAX_FRAME_LENGTH))"

definition cbor_limit :: "js_number \<Rightarrow> cbor_options option" where
  "cbor_limit n = Some \<lparr>co_maxByteLength = Some n, co_maxContainerLength = None, co_maxDepth = None\<rparr>"

section \<open>Encoding\<close>

definition encodeProtocolMessage ::
  "(js_value \<Rightarrow> bool) \<Rightarrow> string \<Rightarrow> js_value \<Rightarrow> js_number option \<Rightarrow> protocol_error + bytes" where
  "encodeProtocolMessage check kind v opt =
     andThen (parse_message check kind v) (\<lambda>validated.
     map_sum (wrap_error (''Unable to encode '' @ kind @ '' protocol message: '')) id
       (andThen (encodeCbor validated (cbor_limit (max_frame_length opt))) (\<lambda>payload.
        andThen (encodeFrame payload) (\<lambda>frame.
        andThen (assertCompleteFrame frame (Some (max_frame_length opt))) (\<lambda>_. Inr frame)))))"

definition encodeClientMessage ::
  "(js_value \<Rightarrow> bool) \<Rightarrow> js_value \<Rightarrow> js_number option \<Rightarrow> protocol_error + bytes" where
  "encodeClientMessage check = encodeProtocolMessage check ''client''"

definition encodeServerMessage ::
  "(js_value \<Rightarrow> bool) \<Rightarrow> js_value \<Rightarrow> js_number option \<Rightarrow> protocol_error + bytes" where
  "encodeServerMessage check = encodeProtocolMessage check ''server''"

section \<open>Decoding\<close>

record message_decoder =
  md_failed :: bool
  md_frames :: frame_decoder
  md_kind :: string
  md_maxFrameLength :: js_number

definition new_message_decoder :: "string \<Rightarrow> js_number option \<Rightarrow> protocol_error + message_decoder" where
  "new_message_decoder kind opt =
     andThen (new_frame_decoder opt) (\<lambda>fd.
     Inr \<lparr>md_failed = False, md_frames = fd, md_kind = kind, md_maxFrameLength = max_frame_length opt\<rparr>)"

definition createClientMessageDecoder :: "js_number option \<Rightarrow> protocol_error + message_decoder" where
  "createClientMessageDecoder = new_message_decoder ''client''"

definition createServerMessageDecoder :: "js_number option \<Rightarrow> protocol_error + message_decoder" where
  "createServerMessageDecoder = new_message_decoder ''server''"

definition decoder_failed :: "message_decoder \<Rightarrow> protocol_error" where
  "decoder_failed md = ProtocolValidationError (md_kind md @ '' message decoder has failed'')"

text \<open>The messages of the completed frames; an invalid one loses them all.\<close>

definition decode_frames ::
  "(js_value \<Rightarrow> bool) \<Rightarrow> message_decoder \<Rightarrow> bytes list \<Rightarrow> protocol_error + js_value list" where
  "decode_frames check md fs =
     foldR (\<lambda>messages frame.
       andThen (decodeCbor frame (cbor_limit (md_maxFrameLength md))) (\<lambda>v.
       andThen (parse_message check (md_kind md) v) (\<lambda>m. Inr (messages @ [m])))) [] fs"

definition push_messages ::
  "(js_value \<Rightarrow> bool) \<Rightarrow> message_decoder \<Rightarrow> bytes \<Rightarrow>
   (message_decoder \<times> (protocol_error + js_value list)) option" where
  "push_messages check md chunk =
     (if md_failed md then Some (md, Inl (decoder_failed md))
      else map_option (\<lambda>(fd, r).
        let md = md\<lparr>md_frames := fd\<rparr>
        in case andThen r (decode_frames check md) of
             Inr ms \<Rightarrow> (md, Inr ms)
           | Inl e \<Rightarrow> (md\<lparr>md_failed := True\<rparr>,
               Inl (wrap_error (''Invalid '' @ md_kind md @ '' protocol frame: '') e)))
        (push_frames (md_frames md) chunk))"

definition end_messages :: "message_decoder \<Rightarrow> message_decoder \<times> (protocol_error + unit)" where
  "end_messages md =
     (if md_failed md then (md, Inl (decoder_failed md))
      else case end_frames (md_frames md) of
          (fd, Inr _) \<Rightarrow> (md\<lparr>md_frames := fd\<rparr>, Inr ())
        | (fd, Inl e) \<Rightarrow> (md\<lparr>md_frames := fd, md_failed := True\<rparr>,
            Inl (ProtocolValidationError (''Invalid '' @ md_kind md @ '' protocol framing: ''
                   @ boundedErrorMessage e))))"

definition PROTOCOL_VERSION :: int where "PROTOCOL_VERSION = 1"

definition isSupportedProtocolVersion :: "js_number \<Rightarrow> bool" where
  "isSupportedProtocolVersion v \<longleftrightarrow> isInteger v \<and> v = JInt PROTOCOL_VERSION"

section \<open>Lemmas\<close>

text \<open>A message without undefined properties comes back as it is.\<close>

fun all_defined :: "js_value \<Rightarrow> bool" where
  "all_defined V_undefined = False"
| "all_defined (V_array vs) = list_all all_defined vs"
| "all_defined (V_object symbolKey kvs) = list_all (\<lambda>(_, v). all_defined v) kvs"
| "all_defined _ = True"

lemma normal_all_defined: "all_defined v \<Longrightarrow> normal v = v"
proof (induction v)
  case (V_array vs)
  then show ?case by (auto simp: list_all_iff intro!: map_idI)
next
  case (V_object symbolKey kvs)
  then have "v \<noteq> V_undefined \<and> normal v = v" if "(k, v) \<in> set kvs" for k v
    using that by (fastforce simp: list_all_iff)
  then have "filter (\<lambda>(_, v). v \<noteq> V_undefined) kvs = kvs" "map (\<lambda>(k, v). (k, normal v)) kvs = kvs"
    by (auto simp: filter_id_conv intro!: map_idI)
  then show ?case by simp
qed simp_all

lemma parse_message_Inr: "parse_message check kind v = Inr w \<longleftrightarrow> w = v \<and> isProtocolValue v False \<and> check v"
  by (auto simp: parse_message_def)

lemma map_sum_Inr: "map_sum f id r = Inr x \<longleftrightarrow> r = Inr x"
  by (cases r) auto

lemma assertCompleteFrame_Inr:
  "assertCompleteFrame frame opt = Inr () \<longleftrightarrow>
     4 \<le> length frame \<and> (\<exists>limit. resolveMaxFrameLength opt = Inr limit \<and> frame_length frame \<le> limit \<and>
       length frame = 4 + frame_length frame)"
  by (cases "resolveMaxFrameLength opt")
    (auto simp: assertCompleteFrame_def FRAME_HEADER_LENGTH_def throws)

lemma resolve_max_frame_length: "resolveMaxFrameLength (Some (max_frame_length opt)) = resolveMaxFrameLength opt"
  by (simp add: resolveMaxFrameLength_def max_frame_length_def split: option.splits)

text \<open>What an encoded message is, and that its frame decodes to it.\<close>

lemma encodeProtocolMessage_Inr:
  assumes "encodeProtocolMessage check kind v opt = Inr frame"
  shows "\<exists>payload limit. frame = be_bytes 4 (length payload) @ payload \<and>
    encodeCbor v (cbor_limit (max_frame_length opt)) = Inr payload \<and>
    isProtocolValue v False \<and> check v \<and>
    resolveMaxFrameLength opt = Inr limit \<and> length payload \<le> limit"
proof -
  obtain payload where p: "isProtocolValue v False" "check v"
    "encodeCbor v (cbor_limit (max_frame_length opt)) = Inr payload" "encodeFrame payload = Inr frame"
    "assertCompleteFrame frame (Some (max_frame_length opt)) = Inr ()"
    using assms by (auto simp: encodeProtocolMessage_def throws parse_message_Inr map_sum_Inr)
  from p(4) have f: "length payload \<le> MAX_UINT32" "frame = be_bytes 4 (length payload) @ payload"
    by (simp_all add: encodeFrame_eq)
  then have "frame_length frame = length payload"
    using frame_length_be_bytes [of "length payload" payload] by (simp add: MAX_UINT32_def)
  with p f show ?thesis
    by (auto simp: assertCompleteFrame_Inr resolve_max_frame_length)
qed

lemma decode_frames_append:
  "decode_frames check md (fs @ [f]) = andThen (decode_frames check md fs) (\<lambda>ms.
     andThen (decodeCbor f (cbor_limit (md_maxFrameLength md))) (\<lambda>v.
     andThen (parse_message check (md_kind md) v) (\<lambda>m. Inr (ms @ [m]))))"
  by (simp add: decode_frames_def foldR_append andThen_assoc)

text \<open>Pushing a list of chunks, one call after the other.\<close>

fun push_message_chunks ::
  "(js_value \<Rightarrow> bool) \<Rightarrow> message_decoder \<Rightarrow> bytes list \<Rightarrow> (message_decoder \<times> js_value list) option" where
  "push_message_chunks check md [] = Some (md, [])"
| "push_message_chunks check md (c # cs) =
     (case push_messages check md c of
        Some (md', Inr ms) \<Rightarrow> map_option (map_prod id ((@) ms)) (push_message_chunks check md' cs)
      | _ \<Rightarrow> None)"

lemma decode_frames_all:
  assumes "list_all2 (\<lambda>f v. decodeCbor f (cbor_limit (md_maxFrameLength md)) = Inr v \<and>
      isProtocolValue v False \<and> check v) fs vs"
  shows "decode_frames check md fs = Inr vs"
  using assms
proof (induction fs arbitrary: vs rule: rev_induct)
  case Nil
  then show ?case by (simp add: decode_frames_def)
next
  case (snoc f fs)
  then show ?case
    by (auto simp: list_all2_append1 list_all2_Cons1 decode_frames_append parse_message_def)
qed

lemma decode_frames_split:
  "decode_frames check md (fs @ gs) = andThen (decode_frames check md fs) (\<lambda>ms.
     andThen (decode_frames check md gs) (\<lambda>ns. Inr (ms @ ns)))"
proof (induction gs rule: rev_induct)
  case Nil
  then show ?case by (cases "decode_frames check md fs") (simp_all add: decode_frames_def)
next
  case (snoc g gs)
  show ?case
    unfolding append_assoc [symmetric] decode_frames_append snoc.IH
    by (simp add: andThen_assoc)
qed

lemma decode_frames_frames [simp]: "decode_frames check (md\<lparr>md_frames := fd\<rparr>) fs = decode_frames check md fs"
  by (simp add: decode_frames_def)

lemma push_message_chunks_eq:
  "push_all push_frames (md_frames md) chunks = Some (fd, fs) \<Longrightarrow> \<not> md_failed md \<Longrightarrow>
     decode_frames check md fs = Inr vs \<Longrightarrow>
     push_message_chunks check md chunks = Some (md\<lparr>md_frames := fd\<rparr>, vs)"
proof (induction chunks arbitrary: md fs vs)
  case Nil
  then show ?case by (auto simp: decode_frames_def)
next
  case (Cons c cs)
  then obtain fd1 gs hs where push: "push_frames (md_frames md) c = Some (fd1, Inr gs)"
    and rest: "push_all push_frames fd1 cs = Some (fd, hs)" and fs: "fs = gs @ hs"
    by (auto split: option.splits sum.splits)
  then obtain ms ns where ms: "decode_frames check md gs = Inr ms" "decode_frames check md hs = Inr ns"
    "vs = ms @ ns"
    using Cons.prems(3) by (auto simp: decode_frames_split andThen_eq_Inr)
  have "push_messages check md c = Some (md\<lparr>md_frames := fd1\<rparr>, Inr ms)"
    using push Cons.prems(2) ms(1) by (simp add: push_messages_def Let_def)
  with Cons.IH [of "md\<lparr>md_frames := fd1\<rparr>" hs ns] rest ms Cons.prems(2) show ?case by simp
qed

lemma new_message_decoder_Inr:
  assumes "new_message_decoder kind opt = Inr md"
  shows "\<not> md_failed md \<and> md_kind md = kind \<and> md_maxFrameLength md = max_frame_length opt \<and>
    frame_ok (md_frames md) \<and> buffered (md_frames md) = [] \<and>
    resolveMaxFrameLength opt = Inr (fd_maxFrameLength (md_frames md))"
  using assms new_frame_decoder_ok by (auto simp: new_message_decoder_def andThen_eq_Inr)

text \<open>Messages that were encoded come back, however their bytes were cut into chunks.\<close>

lemma messages_roundtrip:
  assumes "list_all2 (\<lambda>v frame. encodeProtocolMessage check kind v opt = Inr frame) vs frames"
    and "list_all (\<lambda>v. js_value_ok v \<and> all_defined v) vs"
    and "concat chunks = concat frames" and "new_message_decoder kind opt = Inr md"
  shows "\<exists>md'. push_message_chunks check md chunks = Some (md', vs) \<and>
    snd (end_messages md') = Inr ()"
proof -
  note md = new_message_decoder_Inr [OF assms(4)]
  let ?limit = "fd_maxFrameLength (md_frames md)"
  define payload where "payload frame = drop 4 (frame :: bytes)" for frame
  have frame: "frame = be_bytes 4 (length (payload frame)) @ payload frame \<and> length (payload frame) \<le> ?limit \<and>
      decodeCbor (payload frame) (cbor_limit (max_frame_length opt)) = Inr v \<and> isProtocolValue v False \<and> check v"
    if "encodeProtocolMessage check kind v opt = Inr frame" "js_value_ok v" "all_defined v" for v frame
  proof -
    from encodeProtocolMessage_Inr [OF that(1)] md obtain p where
      p: "frame = be_bytes 4 (length p) @ p" "length p \<le> ?limit" "isProtocolValue v False" "check v"
        "encodeCbor v (cbor_limit (max_frame_length opt)) = Inr p" by auto
    from decode_encode [OF p(5) that(2)] p normal_all_defined [OF that(3)] show ?thesis
      by (simp add: payload_def)
  qed
  have all: "list_all2 (\<lambda>f v. decodeCbor f (cbor_limit (md_maxFrameLength md)) = Inr v \<and>
      isProtocolValue v False \<and> check v) (map payload frames) vs \<and>
      concat frames = concat (map (\<lambda>p. be_bytes 4 (length p) @ p) (map payload frames)) \<and>
      list_all (\<lambda>p. length p \<le> ?limit) (map payload frames)"
    using assms(1,2)
  proof (induction rule: list_all2_induct)
    case (Cons v vs f fs)
    with frame [of v f] md show ?case by simp
  qed simp
  have "?limit \<le> MAX_UINT32" using md by (simp add: frame_ok_def)
  with all assms(3) md have
    "parse_frames ?limit (buffered (md_frames md) @ concat chunks) = (map payload frames, Inr [])"
    using parse_frames_encoded [of ?limit "map payload frames"] by simp
  from frames.push_all_parses [OF _ this] md obtain fd where
    fd: "push_all push_frames (md_frames md) chunks = Some (fd, map payload frames)"
      "frame_ok fd" "buffered fd = []" by blast
  have "push_message_chunks check md chunks = Some (md\<lparr>md_frames := fd\<rparr>, vs)"
    using push_message_chunks_eq [OF fd(1)] decode_frames_all all md by blast
  moreover have "snd (end_messages (md\<lparr>md_frames := fd\<rparr>)) = Inr ()"
    using md end_frames_eq [OF fd(2)] fd(3) by (simp add: end_messages_def)
  ultimately show ?thesis by blast
qed

end
