(* ===== verification/Protocol_Properties.thy ===== *)
theory Protocol_Properties
  imports Codec
begin

text \<open>
  The properties of the wire protocol, from CBOR items through frames to validated messages, each with
  a witness on small values.
\<close>

definition demo_value :: js_value where
  "demo_value = V_array [V_number (JInt (-300)), V_object False [([97], V_undefined), ([98], V_bool True)],
                         V_string [0xD83D, 0xDE00]]"

definition default_limits :: resolved_cbor_options where
  "default_limits = \<lparr>maxByteLength = 16777216, maxContainerLength = 1000000, maxDepth = 64\<rparr>"

lemmas limit_defs = option_or_def resolveLimit_def MAX_UINT32_def MAX_SAFE_INTEGER_def
  MAX_CONFIGURED_DEPTH_def DEFAULT_MAX_CBOR_BYTE_LENGTH_def DEFAULT_MAX_CBOR_CONTAINER_LENGTH_def
  DEFAULT_MAX_CBOR_DEPTH_def

lemma resolve_default: "resolveOptions None = Inr default_limits"
  by (simp add: resolveOptions_def default_limits_def limit_defs)

lemma be_bytes_1: "be_bytes 1 v = [word_of_nat v]"
  by (simp add: be_bytes_def)

lemmas item_defs = defined_entries_def head_bytes_def initial_byte_def text_bytes_def text_ok_def
  utf8_encode_def utf8_of_def single_scalar_def is_high_def is_low_def be_bytes_1 be_bytes_2

lemma demo_bytes: "cbor_bytes demo_value =
    [0x83, 0x39, 0x01, 0x2B, 0xA1, 0x61, 0x62, 0xF5, 0x64, 0xF0, 0x9F, 0x98, 0x80]"
  by (simp add: demo_value_def item_defs)

lemma demo_encodes: "encodeCbor demo_value None = Inr
    [0x83, 0x39, 0x01, 0x2B, 0xA1, 0x61, 0x62, 0xF5, 0x64, 0xF0, 0x9F, 0x98, 0x80]"
  unfolding encodeCbor_Inr resolve_default demo_bytes
  by (simp add: default_limits_def) (simp add: demo_value_def item_defs MAX_SAFE_INTEGER_def)

section \<open>CBOR\<close>

text \<open>C38. The encoder computes the reference encoding: it returns exactly when the options are valid, the
  value lies in the strict subset (no undefined elements, only finite numbers and safe integers,
  text without lone surrogates, within the length and depth limits) and its reference encoding fits
  the byte limit, and then it returns those bytes, whatever the growth of its buffer.\<close>

theorem encoder_computes_reference:
  "encodeCbor v opts = Inr bs \<longleftrightarrow>
     (\<exists>r. resolveOptions opts = Inr r \<and> encodable r 0 v \<and> length (cbor_bytes v) \<le> maxByteLength r \<and>
       bs = cbor_bytes v)"
  by (rule encodeCbor_Inr)

text \<open>C37. Decoding what the encoder returned, with the same options, gives the value back, less its
  undefined properties.\<close>

theorem cbor_roundtrip:
  assumes "encodeCbor v opts = Inr bs" and "js_value_ok v"
  shows "decodeCbor bs opts = Inr (normal v)"
  by (rule decode_encode [OF assms])

theorem cbor_roundtrip_witness:
  "decodeCbor [0x83, 0x39, 0x01, 0x2B, 0xA1, 0x61, 0x62, 0xF5, 0x64, 0xF0, 0x9F, 0x98, 0x80] None =
     Inr (V_array [V_number (JInt (-300)), V_object False [([98], V_bool True)], V_string [0xD83D, 0xDE00]])"
  using cbor_roundtrip [OF demo_encodes] by (simp add: demo_value_def)

text \<open>Whatever bytes the decoder accepts, the value it returns can be encoded with the same options,
  in no more bytes than were read, and that encoding decodes to the same value.\<close>

theorem decoded_value_reencodes:
  assumes "decodeCbor bs opts = Inr v"
  shows "\<exists>cs. encodeCbor v opts = Inr cs \<and> length cs \<le> length bs \<and> decodeCbor cs opts = Inr v"
proof -
  obtain r where r: "resolveOptions opts = Inr r" "item_ok r 0 v" "length bs \<le> maxByteLength r"
    "length (cbor_bytes v) \<le> length bs"
    using decode_sound [OF assms] by blast
  then have enc: "encodeCbor v opts = Inr (cbor_bytes v)"
    by (simp add: encodeCbor_Inr item_ok_def)
  from decode_encode [OF this] r show ?thesis using enc by (simp add: item_ok_def)
qed

theorem decoded_value_reencodes_witness:
  "\<exists>cs. encodeCbor (V_number (JInt 5)) None = Inr cs \<and> length cs \<le> 3 \<and>
     decodeCbor cs None = Inr (V_number (JInt 5))"
proof -
  have "decodeCbor [0x19, 0, 5] None = Inr (V_number (JInt 5))"
    by (simp add: decodeCbor_def resolve_default default_limits_def readItem.simps readByte_def
        readArgument_def readBytes_def)
  from decoded_value_reencodes [OF this] show ?thesis by (simp add: numeral_3_eq_3)
qed

lemma wrap_error_validation: "\<exists>m. wrap_error prefix e = ProtocolValidationError m"
  by (cases e) simp_all

section \<open>Frames\<close>

text \<open>C39. One push of an open decoder always ends and does what the abstract stream says: with the bytes
  it held before, it returns the payloads of all complete frames and keeps exactly the rest, or, when
  a length over the limit follows, it fails with that length.\<close>

theorem frame_push_refines_stream:
  assumes "frame_ok fd"
  shows "case parse_frames (fd_maxFrameLength fd) (buffered fd @ chunk) of
      (fs, Inr rest) \<Rightarrow> \<exists>fd'. push_frames fd chunk = Some (fd', Inr fs) \<and>
        frame_ok fd' \<and> buffered fd' = rest \<and> fd_maxFrameLength fd' = fd_maxFrameLength fd
    | (fs, Inl n) \<Rightarrow> \<exists>fd'. push_frames fd chunk =
          Some (fd', Inl (FrameError (frame_limit_message n (fd_maxFrameLength fd)))) \<and>
        fd_state fd' = D_failed"
  by (rule push_frames_refines [OF assms])

text \<open>However the bytes of encoded payloads are cut into chunks, a fresh decoder returns exactly those
  payloads in order, and ends without an error.\<close>

theorem frame_stream_roundtrip:
  assumes "new_frame_decoder opt = Inr fd"
    and "list_all2 (\<lambda>p f. encodeFrame p = Inr f \<and> length p \<le> fd_maxFrameLength fd) ps fs"
    and "concat chunks = concat fs"
  shows "\<exists>fd'. push_all push_frames fd chunks = Some (fd', ps) \<and> snd (end_frames fd') = Inr ()"
proof -
  note fd = new_frame_decoder_ok [OF assms(1)]
  then have limit: "fd_maxFrameLength fd \<le> MAX_UINT32" by (simp add: frame_ok_def)
  have "concat fs = concat (map (\<lambda>p. be_bytes 4 (length p) @ p) ps) \<and>
      list_all (\<lambda>p. length p \<le> fd_maxFrameLength fd) ps"
    using assms(2) by (induction rule: list_all2_induct) (simp_all add: encodeFrame_eq)
  with assms(3) fd parse_frames_encoded [OF _ limit, of ps]
  have "parse_frames (fd_maxFrameLength fd) (buffered fd @ concat chunks) = (ps, Inr [])" by simp
  from frames.push_all_parses [OF _ this] fd obtain fd' where
    "push_all push_frames fd chunks = Some (fd', ps)" "frame_ok fd'" "buffered fd' = []" by blast
  with end_frames_eq show ?thesis by auto
qed

theorem frame_stream_roundtrip_witness:
  "\<exists>fd fd'. new_frame_decoder (Some (JInt 16)) = Inr fd \<and>
     push_all push_frames fd [[0, 0], [0, 2, 7], [], [8, 0, 0, 0, 0]] = Some (fd', [[7, 8], []])"
proof -
  obtain fd where fd: "new_frame_decoder (Some (JInt 16)) = Inr fd" "fd_maxFrameLength fd = 16"
    by (simp add: new_frame_decoder_def resolveMaxFrameLength_def limit_defs)
  have "list_all2 (\<lambda>p f. encodeFrame p = Inr f \<and> length p \<le> fd_maxFrameLength fd)
      [[7, 8], []] [[0, 0, 0, 2, 7, 8], [0, 0, 0, 0]]"
    using fd(2) by (simp add: encodeFrame_eq be_bytes_4 MAX_UINT32_def)
  from frame_stream_roundtrip [OF fd(1) this, of "[[0, 0], [0, 2, 7], [], [8, 0, 0, 0, 0]]"] fd(1)
  show ?thesis by auto
qed

theorem frame_push_refines_stream_witness:
  "\<exists>fd fd'. new_frame_decoder (Some (JInt 16)) = Inr fd \<and>
     push_frames fd [0, 0, 0, 1, 9, 0] = Some (fd', Inr [[9]]) \<and> buffered fd' = [0]"
proof -
  obtain fd where fd: "new_frame_decoder (Some (JInt 16)) = Inr fd" "fd_maxFrameLength fd = 16"
    by (simp add: new_frame_decoder_def resolveMaxFrameLength_def limit_defs)
  note new = new_frame_decoder_ok [OF fd(1)]
  have "parse_frames 16 [0, 0, 0, 1, 9, 0] = ([[9]], Inr [0])"
    by (simp add: parse_frames.simps frame_length_def)
  with frame_push_refines_stream [of fd "[0, 0, 0, 1, 9, 0]"] new fd show ?thesis by auto
qed

section \<open>Messages\<close>

text \<open>C40. Messages that were encoded, for any schema check, come back in order from a fresh decoder with
  the same options, however the bytes of their frames were cut into chunks, and the decoder ends
  without an error.\<close>

theorem message_stream_roundtrip:
  assumes "new_message_decoder kind opt = Inr md"
    and "list_all2 (\<lambda>v frame. encodeProtocolMessage check kind v opt = Inr frame) vs frames"
    and "list_all (\<lambda>v. js_value_ok v \<and> all_defined v) vs"
    and "concat chunks = concat frames"
  shows "\<exists>md'. push_message_chunks check md chunks = Some (md', vs) \<and> snd (end_messages md') = Inr ()"
  by (rule messages_roundtrip [OF assms(2-4,1)])

definition demo_check :: "js_value \<Rightarrow> bool" where
  "demo_check v = (case v of V_object _ kvs \<Rightarrow> map fst kvs = [[97]] | _ \<Rightarrow> False)"

definition demo_request :: js_value where
  "demo_request = V_object False [([97], V_null)]"

lemma demo_request_encodes:
  "encodeProtocolMessage demo_check ''client'' demo_request None = Inr [0, 0, 0, 4, 0xA1, 0x61, 0x61, 0xF6]"
proof -
  have "resolveOptions (cbor_limit (JInt 16777216)) = Inr default_limits"
    by (simp add: resolveOptions_def cbor_limit_def default_limits_def limit_defs)
  then have "encodeCbor demo_request (cbor_limit (JInt 16777216)) = Inr [0xA1, 0x61, 0x61, 0xF6]"
    unfolding encodeCbor_Inr by (simp add: demo_request_def default_limits_def item_defs)
  moreover have "encodeFrame [0xA1, 0x61, 0x61, 0xF6] = Inr [0, 0, 0, 4, 0xA1, 0x61, 0x61, 0xF6]"
    by (simp add: encodeFrame_eq be_bytes_4 MAX_UINT32_def)
  ultimately show ?thesis
    by (simp add: encodeProtocolMessage_def parse_message_def demo_check_def max_frame_length_def
        DEFAULT_MAX_FRAME_LENGTH_def assertCompleteFrame_def FRAME_HEADER_LENGTH_def frame_length_def
        resolveMaxFrameLength_def limit_defs)
      (simp add: demo_request_def)
qed

theorem message_stream_roundtrip_witness:
  "\<exists>md md'. new_message_decoder ''client'' None = Inr md \<and>
     push_message_chunks demo_check md [[0, 0, 0], [4, 0xA1, 0x61], [0x61, 0xF6]] = Some (md', [demo_request])"
proof -
  obtain md where md: "new_message_decoder ''client'' None = Inr md"
    by (simp add: new_message_decoder_def new_frame_decoder_def resolveMaxFrameLength_def
        DEFAULT_MAX_FRAME_LENGTH_def limit_defs)
  from message_stream_roundtrip [OF md, of demo_check "[demo_request]"
      "[[0, 0, 0, 4, 0xA1, 0x61, 0x61, 0xF6]]" "[[0, 0, 0], [4, 0xA1, 0x61], [0x61, 0xF6]]"]
    demo_request_encodes md
  show ?thesis by (auto simp: demo_request_def)
qed

text \<open>Errors of a message decoder are validation errors and final: once a push or the end reported
  one, every later push and end reports that the decoder has failed.\<close>

theorem message_decoder_failure_final:
  assumes "push_messages check md chunk = Some (md', Inl e)"
  shows "(\<exists>m. e = ProtocolValidationError m) \<and>
    push_messages check md' chunk' = Some (md', Inl (decoder_failed md')) \<and>
    end_messages md' = (md', Inl (decoder_failed md'))"
proof (cases "md_failed md")
  case True
  with assms show ?thesis by (auto simp: push_messages_def end_messages_def decoder_failed_def)
next
  case False
  then obtain fd r where "push_frames (md_frames md) chunk = Some (fd, r)"
    using assms by (auto simp: push_messages_def)
  with assms False have "md_failed md' \<and> (\<exists>m. e = ProtocolValidationError m)"
    using wrap_error_validation
    by (cases "andThen r (decode_frames check (md\<lparr>md_frames := fd\<rparr>))")
      (auto simp: push_messages_def Let_def)
  then show ?thesis by (simp add: push_messages_def end_messages_def)
qed

theorem message_decoder_failure_final_witness:
  "\<exists>md md' e. push_messages demo_check md [] = Some (md', Inl e) \<and>
     end_messages md' = (md', Inl (decoder_failed md'))"
proof -
  obtain fd where fd: "new_frame_decoder None = Inr fd"
    by (simp add: new_frame_decoder_def resolveMaxFrameLength_def DEFAULT_MAX_FRAME_LENGTH_def limit_defs)
  define md where "md = \<lparr>md_failed = False, md_frames = fd\<lparr>fd_state := D_ended\<rparr>, md_kind = ''client'',
    md_maxFrameLength = JInt 10\<rparr>"
  have "\<exists>md' e. push_messages demo_check md [] = Some (md', Inl e)"
    by (simp add: md_def push_messages_def push_frames_def not_open_def Let_def)
  with message_decoder_failure_final show ?thesis by blast
qed

end
