(* ===== verification/Agent_Response.thy ===== *)
theory Agent_Response
  imports Session_Context
begin

text \<open>
  The agent loop, \<open>packages/agent/src/agent-loop.ts\<close> with the types of \<open>packages/agent/src/types.ts\<close>:
  this theory holds the types, the loop's access to the outside world and the streaming of an
  assistant response (\<open>streamAssistantResponse\<close>); \<open>Agent_Tools\<close> and \<open>Agent_Loop\<close> hold the rest.

  Everything outside the loop (queues, hooks, the model provider, tools, the abort signal, the clock,
  the event listeners) is an environment \<open>env\<close> of functions on a state \<open>'w\<close> of the outside world. The
  callbacks whose contract is that they never throw return a value; the hooks and tools that may throw
  return an error message or a value. The loop itself keeps the world and the events emitted so far.
  A stream response is the list of its events with its final message; a tool call is the list of its
  partial results with its outcome.
\<close>

section \<open>Types\<close>

datatype execution_mode = EM_sequential | EM_parallel

record tool_result =
  ar_content :: "content list option"
  ar_details :: "json option"
  ar_usage :: "usage option"
  ar_addedToolNames :: "string list option"
  ar_terminate :: "bool option"

record 'w agent_tool =
  at_name :: string
  at_parameters :: json
  at_prepareArguments :: "(json \<Rightarrow> string + json) option"
  at_execute :: "string \<Rightarrow> json \<Rightarrow> 'w \<Rightarrow> (tool_result list \<times> (string + tool_result)) \<times> 'w"
  at_executionMode :: "execution_mode option"

record 'w agent_context =
  ac_systemPrompt :: string
  ac_messages :: "agent_message list"
  ac_tools :: "'w agent_tool list option"

datatype delta_kind =
  DK_text_start | DK_text_delta | DK_text_end | DK_thinking_start | DK_thinking_delta
  | DK_thinking_end | DK_toolcall_start | DK_toolcall_delta | DK_toolcall_end

datatype assistant_message_event =
    AE_start assistant_message
  | AE_update delta_kind int "json option" assistant_message
  | AE_done
  | AE_error

datatype agent_event =
    EV_agent_start
  | EV_agent_end "agent_message list"
  | EV_turn_start
  | EV_turn_end assistant_message "tool_result_message list"
  | EV_message_start agent_message
  | EV_message_update agent_message assistant_message_event
  | EV_message_end agent_message
  | EV_tool_start string string json
  | EV_tool_update string string json tool_result
  | EV_tool_end string string tool_result bool

record before_result =
  br_block :: "bool option"
  br_reason :: "string option"
  br_terminate :: "bool option"

record after_result =
  af_content :: "content list option"
  af_details :: "json option"
  af_isError :: "bool option"
  af_usage :: "usage option"
  af_terminate :: "bool option"

record 'w tool_call_context =
  tx_assistantMessage :: assistant_message
  tx_toolCall :: tool_call
  tx_args :: json
  tx_context :: "'w agent_context"

record 'w turn_context =
  tn_message :: assistant_message
  tn_toolResults :: "tool_result_message list"
  tn_context :: "'w agent_context"
  tn_newMessages :: "agent_message list"

record 'w turn_update =
  tu_context :: "'w agent_context option"
  tu_model :: "session_model option"
  tu_thinkingLevel :: "string option"

record 'w llm_context =
  lc_systemPrompt :: string
  lc_messages :: "message list"
  lc_tools :: "'w agent_tool list option"

text \<open>The part of the configuration that a turn may replace.\<close>

record loop_config =
  cf_model :: session_model
  cf_reasoning :: "string option"

record 'w environment =
  env_emit :: "agent_event \<Rightarrow> 'w \<Rightarrow> 'w"
  env_aborted :: "'w \<Rightarrow> bool"
  env_now :: "'w \<Rightarrow> int"
  env_schedule :: "nat \<Rightarrow> 'w \<Rightarrow> nat \<times> 'w"   \<comment> \<open>which of so many unfinished calls goes on next\<close>
  validateToolArguments :: "'w agent_tool \<Rightarrow> tool_call \<Rightarrow> string + json"
  streamFunction :: "session_model \<Rightarrow> 'w llm_context \<Rightarrow> string option \<Rightarrow> string option \<Rightarrow> 'w \<Rightarrow>
    (assistant_message_event list \<times> assistant_message) \<times> 'w"
  cf_convertToLlm :: "agent_message list \<Rightarrow> 'w \<Rightarrow> message list \<times> 'w"
  cf_transformContext :: "(agent_message list \<Rightarrow> 'w \<Rightarrow> agent_message list \<times> 'w) option"
  cf_getApiKey :: "(string \<Rightarrow> 'w \<Rightarrow> string option \<times> 'w) option"
  cf_apiKey :: "string option"
  cf_toolExecution :: "execution_mode option"
  cf_getSteeringMessages :: "('w \<Rightarrow> agent_message list \<times> 'w) option"
  cf_getFollowUpMessages :: "('w \<Rightarrow> agent_message list \<times> 'w) option"
  cf_prepareNextTurn :: "('w turn_context \<Rightarrow> 'w \<Rightarrow> (string + 'w turn_update option) \<times> 'w) option"
  cf_shouldStopAfterTurn :: "('w turn_context \<Rightarrow> 'w \<Rightarrow> bool \<times> 'w) option"
  cf_beforeToolCall :: "('w tool_call_context \<Rightarrow> 'w \<Rightarrow> (string + before_result option) \<times> 'w) option"
  cf_afterToolCall :: "('w tool_call_context \<Rightarrow> tool_result \<Rightarrow> bool \<Rightarrow> 'w \<Rightarrow>
    (string + after_result option) \<times> 'w) option"

text \<open>The world and the events emitted so far.\<close>

record 'w ctl =
  ctl_world :: 'w
  ctl_events :: "agent_event list"

definition emit :: "'w environment \<Rightarrow> agent_event \<Rightarrow> 'w ctl \<Rightarrow> 'w ctl" where
  "emit env e c = c\<lparr>ctl_world := env_emit env e (ctl_world c), ctl_events := ctl_events c @ [e]\<rparr>"

definition emits :: "'w environment \<Rightarrow> agent_event list \<Rightarrow> 'w ctl \<Rightarrow> 'w ctl" where
  "emits env es c = fold (emit env) es c"

definition ask :: "('w \<Rightarrow> 'a \<times> 'w) \<Rightarrow> 'w ctl \<Rightarrow> 'a \<times> 'w ctl" where
  "ask f c = (case f (ctl_world c) of (x, w) \<Rightarrow> (x, c\<lparr>ctl_world := w\<rparr>))"

definition ask_option :: "('w \<Rightarrow> 'a \<times> 'w) option \<Rightarrow> 'a \<Rightarrow> 'w ctl \<Rightarrow> 'a \<times> 'w ctl" where
  "ask_option f d c = (case f of None \<Rightarrow> (d, c) | Some g \<Rightarrow> ask g c)"

definition aborted :: "'w environment \<Rightarrow> 'w ctl \<Rightarrow> bool" where
  "aborted env c = env_aborted env (ctl_world c)"

section \<open>The assistant's response\<close>

definition emit_message :: "'w environment \<Rightarrow> agent_message \<Rightarrow> 'w ctl \<Rightarrow> 'w ctl" where
  "emit_message env m c = emits env [EV_message_start m, EV_message_end m] c"

text \<open>\<open>context.messages[context.messages.length - 1] = message\<close>.\<close>

definition replace_last :: "agent_message list \<Rightarrow> agent_message \<Rightarrow> agent_message list" where
  "replace_last ms m = ms[length ms - 1 := m]"

definition finish_response ::
  "'w environment \<Rightarrow> assistant_message \<Rightarrow> bool \<Rightarrow> agent_message list \<Rightarrow> 'w ctl \<Rightarrow>
   agent_message list \<times> 'w ctl" where
  "finish_response env final addedPartial ms c =
     (if addedPartial
      then (replace_last ms (AssistantMsg final), emit env (EV_message_end (AssistantMsg final)) c)
      else (ms @ [AssistantMsg final], emit_message env (AssistantMsg final) c))"

text \<open>The \<open>for await\<close> loop; \<open>partialMessage\<close> is set exactly when \<open>addedPartial\<close> is.\<close>

fun stream_loop ::
  "'w environment \<Rightarrow> assistant_message_event list \<Rightarrow> assistant_message \<Rightarrow> bool \<Rightarrow>
   agent_message list \<Rightarrow> 'w ctl \<Rightarrow> agent_message list \<times> 'w ctl" where
  "stream_loop env [] final addedPartial ms c = finish_response env final addedPartial ms c"
| "stream_loop env (AE_start partial # evs) final addedPartial ms c =
     stream_loop env evs final True (ms @ [AssistantMsg partial])
       (emit env (EV_message_start (AssistantMsg partial)) c)"
| "stream_loop env (AE_update k i payload partial # evs) final addedPartial ms c =
     (if addedPartial
      then stream_loop env evs final addedPartial (replace_last ms (AssistantMsg partial))
             (emit env (EV_message_update (AssistantMsg partial) (AE_update k i payload partial)) c)
      else stream_loop env evs final addedPartial ms c)"
| "stream_loop env (AE_done # evs) final addedPartial ms c = finish_response env final addedPartial ms c"
| "stream_loop env (AE_error # evs) final addedPartial ms c = finish_response env final addedPartial ms c"

definition streamAssistantResponse ::
  "'w environment \<Rightarrow> 'w agent_context \<Rightarrow> loop_config \<Rightarrow> 'w ctl \<Rightarrow>
   assistant_message \<times> 'w agent_context \<times> 'w ctl" where
  "streamAssistantResponse env context config c =
     (case ask_option (map_option (\<lambda>f. f (ac_messages context)) (cf_transformContext env))
             (ac_messages context) c of (messages, c) \<Rightarrow>
      case ask (cf_convertToLlm env messages) c of (llmMessages, c) \<Rightarrow>
      case ask_option (map_option (\<lambda>f. f (sm_provider (cf_model config))) (cf_getApiKey env)) None c of
        (key, c) \<Rightarrow>
      let resolvedApiKey = (case key of Some k \<Rightarrow> if k = '''' then cf_apiKey env else Some k
                              | None \<Rightarrow> cf_apiKey env);
          llmContext = \<lparr>lc_systemPrompt = ac_systemPrompt context, lc_messages = llmMessages,
                        lc_tools = ac_tools context\<rparr>
      in case ask (streamFunction env (cf_model config) llmContext (cf_reasoning config) resolvedApiKey) c of
           ((evs, final), c) \<Rightarrow>
         case stream_loop env evs final False (ac_messages context) c of (ms, c) \<Rightarrow>
           (final, context\<lparr>ac_messages := ms\<rparr>, c))"

end
