(* ===== verification/Agent_Tools.thy ===== *)
theory Agent_Tools
  imports Agent_Response
begin

text \<open>
  Tool calls of an assistant message, from \<open>packages/agent/src/agent-loop.ts\<close>: preparation,
  execution and finalization of one call, and the batches (\<open>failToolCallsFromTruncatedMessage\<close>,
  \<open>executeToolCallsSequential\<close>, \<open>executeToolCallsParallel\<close>). The concurrent part of a parallel batch
  is a list of tasks; the environment chooses which unfinished task makes its next step.
\<close>

section \<open>One tool call\<close>

record finalized_call =
  fc_toolCall :: tool_call
  fc_result :: tool_result
  fc_isError :: bool

record 'w prepared_call =
  pc_toolCall :: tool_call
  pc_tool :: "'w agent_tool"
  pc_args :: json

record tool_batch =
  bt_messages :: "tool_result_message list"
  bt_terminate :: bool

definition createErrorToolResult :: "string \<Rightarrow> tool_result" where
  "createErrorToolResult msg =
     \<lparr>ar_content = Some [TextContent msg None], ar_details = Some (JObject []), ar_usage = None,
      ar_addedToolNames = None, ar_terminate = None\<rparr>"

text \<open>The timestamp is \<open>Date.now()\<close>.\<close>

definition createToolResultMessage :: "finalized_call \<Rightarrow> int \<Rightarrow> tool_result_message" where
  "createToolResultMessage fc now =
     \<lparr>tr_toolCallId = tc_id (fc_toolCall fc), tr_toolName = tc_name (fc_toolCall fc),
      tr_content = (case ar_content (fc_result fc) of None \<Rightarrow> [] | Some cs \<Rightarrow> cs),
      tr_details = ar_details (fc_result fc), tr_usage = ar_usage (fc_result fc),
      tr_addedToolNames = (case ar_addedToolNames (fc_result fc) of
         None \<Rightarrow> None | Some ns \<Rightarrow> if length ns > 0 then Some ns else None),
      tr_isError = fc_isError fc, tr_timestamp = now\<rparr>"

definition tool_start_event :: "tool_call \<Rightarrow> agent_event" where
  "tool_start_event call = EV_tool_start (tc_id call) (tc_name call) (tc_arguments call)"

definition tool_update_event :: "tool_call \<Rightarrow> tool_result \<Rightarrow> agent_event" where
  "tool_update_event call partial = EV_tool_update (tc_id call) (tc_name call) (tc_arguments call) partial"

definition emitToolExecutionEnd :: "'w environment \<Rightarrow> finalized_call \<Rightarrow> 'w ctl \<Rightarrow> 'w ctl" where
  "emitToolExecutionEnd env fc c =
     emit env (EV_tool_end (tc_id (fc_toolCall fc)) (tc_name (fc_toolCall fc)) (fc_result fc) (fc_isError fc)) c"

text \<open>\<open>createToolResultMessage\<close> followed by \<open>emitToolResultMessage\<close>.\<close>

definition result_message ::
  "'w environment \<Rightarrow> finalized_call \<Rightarrow> 'w ctl \<Rightarrow> tool_result_message \<times> 'w ctl" where
  "result_message env fc c =
     (let m = createToolResultMessage fc (env_now env (ctl_world c))
      in (m, emit_message env (ToolResultMsg m) c))"

definition shouldTerminateToolBatch :: "finalized_call list \<Rightarrow> bool" where
  "shouldTerminateToolBatch fcs \<longleftrightarrow>
     length fcs > 0 \<and> list_all (\<lambda>fc. ar_terminate (fc_result fc) = Some True) fcs"

definition find_tool :: "'w agent_context \<Rightarrow> string \<Rightarrow> 'w agent_tool option" where
  "find_tool context n = (case ac_tools context of None \<Rightarrow> None | Some ts \<Rightarrow> find (\<lambda>t. at_name t = n) ts)"

text \<open>When the shim returns the arguments it was given the call is returned as it is, which is the
  same value.\<close>

definition prepareToolCallArguments :: "'w agent_tool \<Rightarrow> tool_call \<Rightarrow> string + tool_call" where
  "prepareToolCallArguments tool call =
     (case at_prepareArguments tool of
        None \<Rightarrow> Inr call
      | Some f \<Rightarrow> andThen (f (tc_arguments call)) (\<lambda>args. Inr (call\<lparr>tc_arguments := args\<rparr>)))"

definition immediate :: "string \<Rightarrow> (tool_result \<times> bool) + 'w prepared_call" where
  "immediate msg = Inl (createErrorToolResult msg, True)"

definition blocked_call :: "before_result option \<Rightarrow> tool_result option" where
  "blocked_call before =
     (case before of
        None \<Rightarrow> None
      | Some b \<Rightarrow>
          if br_block b = Some True
          then let result = createErrorToolResult
                     (case br_reason b of
                        None \<Rightarrow> ''Tool execution was blocked''
                      | Some r \<Rightarrow> if r = [] then ''Tool execution was blocked'' else r)
               in Some (if br_terminate b = Some True then result\<lparr>ar_terminate := Some True\<rparr> else result)
          else None)"

text \<open>The end of \<open>prepareToolCall\<close>: the second look at the abort signal.\<close>

definition prepared_unless_aborted ::
  "'w environment \<Rightarrow> tool_call \<Rightarrow> 'w agent_tool \<Rightarrow> json \<Rightarrow> 'w ctl \<Rightarrow>
   ((tool_result \<times> bool) + 'w prepared_call) \<times> 'w ctl" where
  "prepared_unless_aborted env call tool args c =
     (if aborted env c then (immediate ''Operation aborted'', c)
      else (Inr \<lparr>pc_toolCall = call, pc_tool = tool, pc_args = args\<rparr>, c))"

definition prepareToolCall ::
  "'w environment \<Rightarrow> 'w agent_context \<Rightarrow> assistant_message \<Rightarrow> tool_call \<Rightarrow> 'w ctl \<Rightarrow>
   ((tool_result \<times> bool) + 'w prepared_call) \<times> 'w ctl" where
  "prepareToolCall env context am call c =
     (case find_tool context (tc_name call) of
        None \<Rightarrow> (immediate (''Tool '' @ tc_name call @ '' not found''), c)
      | Some tool \<Rightarrow>
          (case andThen (prepareToolCallArguments tool call) (validateToolArguments env tool) of
             Inl msg \<Rightarrow> (immediate msg, c)
           | Inr args \<Rightarrow>
               (case cf_beforeToolCall env of
                  None \<Rightarrow> prepared_unless_aborted env call tool args c
                | Some hook \<Rightarrow>
                    (case ask (hook \<lparr>tx_assistantMessage = am, tx_toolCall = call, tx_args = args,
                                     tx_context = context\<rparr>) c of
                       (Inl msg, c) \<Rightarrow> (immediate msg, c)
                     | (Inr before, c) \<Rightarrow>
                         if aborted env c then (immediate ''Operation aborted'', c)
                         else (case blocked_call before of
                                 Some result \<Rightarrow> (Inl (result, True), c)
                               | None \<Rightarrow> prepared_unless_aborted env call tool args c)))))"

definition start_execution ::
  "'w prepared_call \<Rightarrow> 'w ctl \<Rightarrow> (tool_result list \<times> (string + tool_result)) \<times> 'w ctl" where
  "start_execution p c = ask (at_execute (pc_tool p) (tc_id (pc_toolCall p)) (pc_args p)) c"

definition executed_outcome :: "string + tool_result \<Rightarrow> tool_result \<times> bool" where
  "executed_outcome out = (case out of Inl msg \<Rightarrow> (createErrorToolResult msg, True) | Inr r \<Rightarrow> (r, False))"

definition executePreparedToolCall ::
  "'w environment \<Rightarrow> 'w prepared_call \<Rightarrow> 'w ctl \<Rightarrow> (tool_result \<times> bool) \<times> 'w ctl" where
  "executePreparedToolCall env p c =
     (case start_execution p c of
        ((partials, out), c) \<Rightarrow>
          (executed_outcome out, emits env (map (tool_update_event (pc_toolCall p)) partials) c))"

text \<open>\<open>a ?? b\<close> of a JSON field, where \<open>null\<close> counts as absent.\<close>

definition json_or :: "json option \<Rightarrow> json option \<Rightarrow> json option" where
  "json_or a b = (if a = None \<or> a = Some JNull then b else a)"

definition override_result :: "after_result \<Rightarrow> tool_result \<times> bool \<Rightarrow> tool_result \<times> bool" where
  "override_result af executed =
     ((fst executed)
       \<lparr>ar_content := (case af_content af of None \<Rightarrow> ar_content (fst executed) | Some x \<Rightarrow> Some x),
        ar_details := json_or (af_details af) (ar_details (fst executed)),
        ar_usage := (case af_usage af of None \<Rightarrow> ar_usage (fst executed) | Some x \<Rightarrow> Some x),
        ar_terminate := (case af_terminate af of None \<Rightarrow> ar_terminate (fst executed) | Some x \<Rightarrow> Some x)\<rparr>,
      case af_isError af of None \<Rightarrow> snd executed | Some x \<Rightarrow> x)"

definition finalizeExecutedToolCall ::
  "'w environment \<Rightarrow> 'w agent_context \<Rightarrow> assistant_message \<Rightarrow> 'w prepared_call \<Rightarrow>
   tool_result \<times> bool \<Rightarrow> 'w ctl \<Rightarrow> finalized_call \<times> 'w ctl" where
  "finalizeExecutedToolCall env context am p executed c =
     (let finalized = (\<lambda>(r, err). \<lparr>fc_toolCall = pc_toolCall p, fc_result = r, fc_isError = err\<rparr>)
      in case cf_afterToolCall env of
           None \<Rightarrow> (finalized executed, c)
         | Some hook \<Rightarrow>
             (case ask (hook \<lparr>tx_assistantMessage = am, tx_toolCall = pc_toolCall p,
                              tx_args = pc_args p, tx_context = context\<rparr> (fst executed) (snd executed)) c of
                (Inl msg, c) \<Rightarrow> (finalized (createErrorToolResult msg, True), c)
              | (Inr None, c) \<Rightarrow> (finalized executed, c)
              | (Inr (Some af), c) \<Rightarrow> (finalized (override_result af executed), c)))"

section \<open>Batches\<close>

definition truncation_message :: "tool_call \<Rightarrow> string" where
  "truncation_message call =
     ''Tool call \"'' @ tc_name call
       @ ''\" was not executed: the response hit the output token limit, so its arguments may be truncated. Re-issue the tool call with complete arguments.''"

fun fail_calls ::
  "'w environment \<Rightarrow> tool_call list \<Rightarrow> 'w ctl \<Rightarrow> tool_result_message list \<times> 'w ctl" where
  "fail_calls env [] c = ([], c)"
| "fail_calls env (call # calls) c =
     (let c = emit env (tool_start_event call) c;
          fc = \<lparr>fc_toolCall = call, fc_result = createErrorToolResult (truncation_message call),
                fc_isError = True\<rparr>;
          c = emitToolExecutionEnd env fc c
      in case result_message env fc c of (m, c) \<Rightarrow>
         case fail_calls env calls c of (ms, c) \<Rightarrow> (m # ms, c))"

definition failToolCallsFromTruncatedMessage ::
  "'w environment \<Rightarrow> tool_call list \<Rightarrow> 'w ctl \<Rightarrow> tool_batch \<times> 'w ctl" where
  "failToolCallsFromTruncatedMessage env calls c =
     (case fail_calls env calls c of (ms, c) \<Rightarrow> (\<lparr>bt_messages = ms, bt_terminate = False\<rparr>, c))"

text \<open>One call of a sequential batch, up to and including its \<open>tool_execution_end\<close>.\<close>

definition sequential_call ::
  "'w environment \<Rightarrow> 'w agent_context \<Rightarrow> assistant_message \<Rightarrow> tool_call \<Rightarrow> 'w ctl \<Rightarrow>
   finalized_call \<times> 'w ctl" where
  "sequential_call env context am call c =
     (case prepareToolCall env context am call (emit env (tool_start_event call) c) of
        (Inl (r, err), c) \<Rightarrow>
          (let fc = \<lparr>fc_toolCall = call, fc_result = r, fc_isError = err\<rparr>
           in (fc, emitToolExecutionEnd env fc c))
      | (Inr p, c) \<Rightarrow>
          (case executePreparedToolCall env p c of (executed, c) \<Rightarrow>
           case finalizeExecutedToolCall env context am p executed c of (fc, c) \<Rightarrow>
             (fc, emitToolExecutionEnd env fc c)))"

fun sequential_loop ::
  "'w environment \<Rightarrow> 'w agent_context \<Rightarrow> assistant_message \<Rightarrow> tool_call list \<Rightarrow> 'w ctl \<Rightarrow>
   (finalized_call list \<times> tool_result_message list) \<times> 'w ctl" where
  "sequential_loop env context am [] c = (([], []), c)"
| "sequential_loop env context am (call # calls) c =
     (case sequential_call env context am call c of (fc, c) \<Rightarrow>
      case result_message env fc c of (m, c) \<Rightarrow>
        if aborted env c then (([fc], [m]), c)
        else (case sequential_loop env context am calls c of
                ((fcs, ms), c) \<Rightarrow> ((fc # fcs, m # ms), c)))"

definition executeToolCallsSequential ::
  "'w environment \<Rightarrow> 'w agent_context \<Rightarrow> assistant_message \<Rightarrow> tool_call list \<Rightarrow> 'w ctl \<Rightarrow>
   tool_batch \<times> 'w ctl" where
  "executeToolCallsSequential env context am calls c =
     (case sequential_loop env context am calls c of
        ((fcs, ms), c) \<Rightarrow> (\<lparr>bt_messages = ms, bt_terminate = shouldTerminateToolBatch fcs\<rparr>, c))"

section \<open>Parallel batches\<close>

text \<open>\<open>FinalizedToolCallEntry\<close>: a finalized call, or the function that still has to run.\<close>

datatype 'w call_entry = CE_finalized finalized_call | CE_function "'w prepared_call"

text \<open>The \<open>for\<close> loop of \<open>executeToolCallsParallel\<close>.\<close>

fun preflight ::
  "'w environment \<Rightarrow> 'w agent_context \<Rightarrow> assistant_message \<Rightarrow> tool_call list \<Rightarrow> 'w ctl \<Rightarrow>
   'w call_entry list \<times> 'w ctl" where
  "preflight env context am [] c = ([], c)"
| "preflight env context am (call # calls) c =
     (case (case prepareToolCall env context am call (emit env (tool_start_event call) c) of
              (Inl (r, err), c) \<Rightarrow>
                (let fc = \<lparr>fc_toolCall = call, fc_result = r, fc_isError = err\<rparr>
                 in (CE_finalized fc, emitToolExecutionEnd env fc c))
            | (Inr p, c) \<Rightarrow> (CE_function p, c)) of
        (e, c) \<Rightarrow>
          if aborted env c then ([e], c)
          else (case preflight env context am calls c of (es, c) \<Rightarrow> (e # es, c)))"

text \<open>
  A concurrent call: its execution has started and its partial results and outcome come in;
  then the execution is over, then the hook has finalized it, then its end event is out.
\<close>

datatype 'w task =
    T_running "'w prepared_call" "tool_result list" "string + tool_result"
  | T_executed "'w prepared_call" "tool_result \<times> bool"
  | T_finalized finalized_call
  | T_done finalized_call

text \<open>\<open>Promise.all\<close> calls the functions in order, and each runs up to its tool's first await.\<close>

fun start_tasks :: "'w call_entry list \<Rightarrow> 'w ctl \<Rightarrow> 'w task list \<times> 'w ctl" where
  "start_tasks [] c = ([], c)"
| "start_tasks (CE_finalized fc # es) c = (case start_tasks es c of (ts, c) \<Rightarrow> (T_done fc # ts, c))"
| "start_tasks (CE_function p # es) c =
     (case start_execution p c of ((partials, out), c) \<Rightarrow>
      case start_tasks es c of (ts, c) \<Rightarrow> (T_running p partials out # ts, c))"

fun task_step ::
  "'w environment \<Rightarrow> 'w agent_context \<Rightarrow> assistant_message \<Rightarrow> 'w task \<Rightarrow> 'w ctl \<Rightarrow> 'w task \<times> 'w ctl" where
  "task_step env context am (T_running p (u # us) out) c =
     (T_running p us out, emit env (tool_update_event (pc_toolCall p) u) c)"
| "task_step env context am (T_running p [] out) c = (T_executed p (executed_outcome out), c)"
| "task_step env context am (T_executed p executed) c =
     (case finalizeExecutedToolCall env context am p executed c of (fc, c) \<Rightarrow> (T_finalized fc, c))"
| "task_step env context am (T_finalized fc) c = (T_done fc, emitToolExecutionEnd env fc c)"
| "task_step env context am (T_done fc) c = (T_done fc, c)"

fun finished_call :: "'w task \<Rightarrow> finalized_call option" where
  "finished_call (T_done fc) = Some fc"
| "finished_call _ = None"

definition unfinished_tasks :: "'w task list \<Rightarrow> nat list" where
  "unfinished_tasks ts = filter (\<lambda>i. finished_call (ts ! i) = None) [0..<length ts]"

fun task_weight :: "'w task \<Rightarrow> nat" where
  "task_weight (T_running p us out) = length us + 3"
| "task_weight (T_executed p executed) = 2"
| "task_weight (T_finalized fc) = 1"
| "task_weight (T_done fc) = 0"

lemma task_step_weight:
  "finished_call t = None \<Longrightarrow> task_step env context am t c = (t', c') \<Longrightarrow> task_weight t' < task_weight t"
  by (cases "(env, context, am, t, c)" rule: task_step.cases) (auto split: prod.splits)

text \<open>The scheduled task: the k-th of the unfinished ones, the last one when there are fewer.\<close>

definition scheduled :: "nat list \<Rightarrow> nat \<Rightarrow> nat" where
  "scheduled is k = (if k < length is then is ! k else last is)"

lemma scheduled_unfinished:
  assumes "unfinished_tasks ts \<noteq> []"
  shows "scheduled (unfinished_tasks ts) k < length ts \<and>
    finished_call (ts ! (scheduled (unfinished_tasks ts) k)) = None"
proof -
  have "scheduled (unfinished_tasks ts) k \<in> set (unfinished_tasks ts)"
    using assms by (simp add: scheduled_def)
  then show ?thesis by (auto simp: unfinished_tasks_def)
qed

text \<open>The await of \<open>Promise.all\<close>: one step of a scheduled task, until all are done.\<close>

function run_tasks ::
  "'w environment \<Rightarrow> 'w agent_context \<Rightarrow> assistant_message \<Rightarrow> 'w task list \<Rightarrow> 'w ctl \<Rightarrow>
   'w task list \<times> 'w ctl" where
  "run_tasks env context am ts c =
     (if unfinished_tasks ts = [] then (ts, c)
      else (case ask (env_schedule env (length (unfinished_tasks ts))) c of (k, c) \<Rightarrow>
        let i = scheduled (unfinished_tasks ts) k
        in case task_step env context am (ts ! i) c of (t, c) \<Rightarrow> run_tasks env context am (ts[i := t]) c))"
  by pat_completeness auto

lemma sum_list_update_less:
  "i < length xs \<Longrightarrow> (f y :: nat) < f (xs ! i) \<Longrightarrow> sum_list (map f (xs[i := y])) < sum_list (map f xs)"
  by (induction xs arbitrary: i) (auto split: nat.splits)

termination run_tasks
  by (relation "measure (\<lambda>(env, context, am, ts, c). sum_list (map task_weight ts))")
    (auto intro!: sum_list_update_less intro: task_step_weight [OF _ sym] dest: scheduled_unfinished)

declare run_tasks.simps [simp del]

fun result_messages ::
  "'w environment \<Rightarrow> finalized_call list \<Rightarrow> 'w ctl \<Rightarrow> tool_result_message list \<times> 'w ctl" where
  "result_messages env [] c = ([], c)"
| "result_messages env (fc # fcs) c =
     (case result_message env fc c of (m, c) \<Rightarrow>
      case result_messages env fcs c of (ms, c) \<Rightarrow> (m # ms, c))"

definition executeToolCallsParallel ::
  "'w environment \<Rightarrow> 'w agent_context \<Rightarrow> assistant_message \<Rightarrow> tool_call list \<Rightarrow> 'w ctl \<Rightarrow>
   tool_batch \<times> 'w ctl" where
  "executeToolCallsParallel env context am calls c =
     (case preflight env context am calls c of (entries, c) \<Rightarrow>
      case start_tasks entries c of (ts, c) \<Rightarrow>
      case run_tasks env context am ts c of (ts, c) \<Rightarrow>
      let ordered = List.map_filter finished_call ts
      in case result_messages env ordered c of (ms, c) \<Rightarrow>
           (\<lparr>bt_messages = ms, bt_terminate = shouldTerminateToolBatch ordered\<rparr>, c))"

definition is_sequential_call :: "'w agent_context \<Rightarrow> tool_call \<Rightarrow> bool" where
  "is_sequential_call context call =
     (case find_tool context (tc_name call) of
        None \<Rightarrow> False | Some t \<Rightarrow> at_executionMode t = Some EM_sequential)"

definition executeToolCalls ::
  "'w environment \<Rightarrow> 'w agent_context \<Rightarrow> assistant_message \<Rightarrow> 'w ctl \<Rightarrow> tool_batch \<times> 'w ctl" where
  "executeToolCalls env context am c =
     (let calls = toolCalls_of (am_content am)
      in if cf_toolExecution env = Some EM_sequential \<or> list_ex (is_sequential_call context) calls
         then executeToolCallsSequential env context am calls c
         else executeToolCallsParallel env context am calls c)"

end
