(* ===== verification/Agent_Loop.thy ===== *)
theory Agent_Loop
  imports Agent_Tools
begin

text \<open>
  The loop itself, from \<open>packages/agent/src/agent-loop.ts\<close>: \<open>runLoop\<close> and its two entry points
  \<open>runAgentLoop\<close> and \<open>runAgentLoopContinue\<close>. The variables of \<open>runLoop\<close> are a record; one iteration of
  its inner loop is \<open>turn\<close>, and the two nested loops are one \<open>partial_function\<close>, since nothing bounds
  the number of turns. \<open>None\<close> is a run that never returns.
\<close>

section \<open>One iteration of the inner loop\<close>

record 'w loop_state =
  ls_context :: "'w agent_context"       \<comment> \<open>currentContext\<close>
  ls_newMessages :: "agent_message list"
  ls_config :: loop_config
  ls_firstTurn :: bool
  ls_pending :: "agent_message list"     \<comment> \<open>pendingMessages\<close>
  ls_more :: bool                        \<comment> \<open>hasMoreToolCalls\<close>

text \<open>\<open>currentContext.messages.push(m); newMessages.push(m)\<close> for each message.\<close>

definition push_both :: "agent_message list \<Rightarrow> 'w loop_state \<Rightarrow> 'w loop_state" where
  "push_both ms s =
     s\<lparr>ls_context := (ls_context s)\<lparr>ac_messages := ac_messages (ls_context s) @ ms\<rparr>,
       ls_newMessages := ls_newMessages s @ ms\<rparr>"

fun emit_messages :: "'w environment \<Rightarrow> agent_message list \<Rightarrow> 'w ctl \<Rightarrow> 'w ctl" where
  "emit_messages env [] c = c"
| "emit_messages env (m # ms) c = emit_messages env ms (emit_message env m c)"

text \<open>The start of an iteration: the turn's start event and the pending messages.\<close>

definition begin_turn :: "'w environment \<Rightarrow> 'w loop_state \<Rightarrow> 'w ctl \<Rightarrow> 'w loop_state \<times> 'w ctl" where
  "begin_turn env s c =
     (let c = (if ls_firstTurn s then c else emit env EV_turn_start c)
      in ((push_both (ls_pending s) s)\<lparr>ls_firstTurn := False, ls_pending := []\<rparr>,
          emit_messages env (ls_pending s) c))"

text \<open>The tool batch of a message, and \<open>hasMoreToolCalls\<close> after it.\<close>

definition run_batch ::
  "'w environment \<Rightarrow> 'w agent_context \<Rightarrow> assistant_message \<Rightarrow> 'w ctl \<Rightarrow>
   (tool_result_message list \<times> bool) \<times> 'w ctl" where
  "run_batch env context am c =
     (let calls = toolCalls_of (am_content am)
      in if length calls > 0
         then (case (if am_stopReason am = SR_length
                     then failToolCallsFromTruncatedMessage env calls c
                     else executeToolCalls env context am c) of
                 (b, c) \<Rightarrow> ((bt_messages b, \<not> bt_terminate b), c))
         else (([], False), c))"

text \<open>The replacement of context, model and thinking level by \<open>prepareNextTurn\<close>.\<close>

definition update_config :: "'w turn_update \<Rightarrow> loop_config \<Rightarrow> loop_config" where
  "update_config u config =
     \<lparr>cf_model = (case tu_model u of None \<Rightarrow> cf_model config | Some m \<Rightarrow> m),
      cf_reasoning = (case tu_thinkingLevel u of
         None \<Rightarrow> cf_reasoning config
       | Some l \<Rightarrow> if l = ''off'' then None else Some l)\<rparr>"

definition apply_update :: "'w turn_update option \<Rightarrow> 'w loop_state \<Rightarrow> 'w loop_state" where
  "apply_update upd s =
     (case upd of
        None \<Rightarrow> s
      | Some u \<Rightarrow> s\<lparr>ls_context := (case tu_context u of None \<Rightarrow> ls_context s | Some x \<Rightarrow> x),
                   ls_config := update_config u (ls_config s)\<rparr>)"

text \<open>What an iteration comes to: another look at the loop conditions, a return of \<open>runLoop\<close>, or a throw.\<close>

datatype 'w turn_result =
    TR_next "'w loop_state"
  | TR_return "agent_message list"
  | TR_throw string

text \<open>The iteration after \<open>turn_end\<close>: the two hooks and the steering queue.\<close>

definition end_turn ::
  "'w environment \<Rightarrow> assistant_message \<Rightarrow> tool_result_message list \<Rightarrow> 'w loop_state \<Rightarrow> 'w ctl \<Rightarrow>
   'w turn_result \<times> 'w ctl" where
  "end_turn env am results s c =
     (let tctx = (\<lambda>s. \<lparr>tn_message = am, tn_toolResults = results, tn_context = ls_context s,
                      tn_newMessages = ls_newMessages s\<rparr>)
      in case ask_option (map_option (\<lambda>f. f (tctx s)) (cf_prepareNextTurn env)) (Inr None) c of
           (Inl err, c) \<Rightarrow> (TR_throw err, c)
         | (Inr upd, c) \<Rightarrow>
             (let s = apply_update upd s
              in case ask_option (map_option (\<lambda>f. f (tctx s)) (cf_shouldStopAfterTurn env)) False c of
                   (stop, c) \<Rightarrow>
                     if stop then (TR_return (ls_newMessages s), emit env (EV_agent_end (ls_newMessages s)) c)
                     else (case ask_option (cf_getSteeringMessages env) [] c of
                             (pending, c) \<Rightarrow> (TR_next (s\<lparr>ls_pending := pending\<rparr>), c))))"

definition turn :: "'w environment \<Rightarrow> 'w loop_state \<Rightarrow> 'w ctl \<Rightarrow> 'w turn_result \<times> 'w ctl" where
  "turn env s c =
     (case begin_turn env s c of (s, c) \<Rightarrow>
      case streamAssistantResponse env (ls_context s) (ls_config s) c of (am, context, c) \<Rightarrow>
      let s = s\<lparr>ls_context := context, ls_newMessages := ls_newMessages s @ [AssistantMsg am]\<rparr>
      in if am_stopReason am = SR_error \<or> am_stopReason am = SR_aborted
         then (TR_return (ls_newMessages s),
               emits env [EV_turn_end am [], EV_agent_end (ls_newMessages s)] c)
         else (case run_batch env (ls_context s) am c of ((results, goOn), c) \<Rightarrow>
               let s = (push_both (map ToolResultMsg results) s)\<lparr>ls_more := goOn\<rparr>
               in end_turn env am results s (emit env (EV_turn_end am results) c)))"

section \<open>The loops\<close>

text \<open>
  The outer loop is entered with \<open>hasMoreToolCalls\<close> set, so its inner loop runs at once; when the inner
  loop stops, the follow-up queue decides whether the outer one goes on.
\<close>

partial_function (option) run_loop ::
  "'w environment \<Rightarrow> 'w loop_state \<Rightarrow> 'w ctl \<Rightarrow> ((string + agent_message list) \<times> 'w ctl) option" where
  "run_loop env s c =
     (if ls_more s \<or> ls_pending s \<noteq> []
      then (case turn env s c of
              (TR_next s', c') \<Rightarrow> run_loop env s' c'
            | (TR_return ms, c') \<Rightarrow> Some (Inr ms, c')
            | (TR_throw e, c') \<Rightarrow> Some (Inl e, c'))
      else (case ask_option (cf_getFollowUpMessages env) [] c of
              (followUps, c') \<Rightarrow>
                if followUps \<noteq> [] then run_loop env (s\<lparr>ls_pending := followUps, ls_more := True\<rparr>) c'
                else Some (Inr (ls_newMessages s), emit env (EV_agent_end (ls_newMessages s)) c')))"

declare run_loop.simps [code]

definition runLoop ::
  "'w environment \<Rightarrow> 'w agent_context \<Rightarrow> agent_message list \<Rightarrow> loop_config \<Rightarrow> 'w ctl \<Rightarrow>
   ((string + agent_message list) \<times> 'w ctl) option" where
  "runLoop env context newMessages config c =
     (case ask_option (cf_getSteeringMessages env) [] c of (pending, c) \<Rightarrow>
        run_loop env \<lparr>ls_context = context, ls_newMessages = newMessages, ls_config = config,
                      ls_firstTurn = True, ls_pending = pending, ls_more = True\<rparr> c)"

definition runAgentLoop ::
  "'w environment \<Rightarrow> agent_message list \<Rightarrow> 'w agent_context \<Rightarrow> loop_config \<Rightarrow> 'w ctl \<Rightarrow>
   ((string + agent_message list) \<times> 'w ctl) option" where
  "runAgentLoop env prompts context config c =
     (let c = emits env [EV_agent_start, EV_turn_start] c
      in runLoop env (context\<lparr>ac_messages := ac_messages context @ prompts\<rparr>) prompts config
           (emit_messages env prompts c))"

definition runAgentLoopContinue ::
  "'w environment \<Rightarrow> 'w agent_context \<Rightarrow> loop_config \<Rightarrow> 'w ctl \<Rightarrow>
   ((string + agent_message list) \<times> 'w ctl) option" where
  "runAgentLoopContinue env context config c =
     (if ac_messages context = [] then Some (Inl ''Cannot continue: no messages in context'', c)
      else if is_assistant (last (ac_messages context))
      then Some (Inl ''Cannot continue from message role: assistant'', c)
      else runLoop env context [] config (emits env [EV_agent_start, EV_turn_start] c))"

end
