(* ===== verification/Agent_Events.thy ===== *)
theory Agent_Events
  imports Agent_Loop
begin

text \<open>
  The event protocol of the agent loop: \<open>monitor\<close> is the automaton of the \<open>AgentEvent\<close> documentation
  (a run is a sequence of turns, a turn holds messages one at a time and tool executions that are
  opened, updated and closed), and \<open>goes\<close> states that a piece of the loop emits events that the
  automaton accepts and ends the given messages. The locale \<open>batch_runner\<close> is the contract between the
  loop and its ways of running a tool batch.
\<close>

section \<open>The automaton\<close>

datatype phase =
    Ph_new
  | Ph_between                              \<comment> \<open>in a run, outside a turn\<close>
  | Ph_turn "(string \<times> string) multiset"    \<comment> \<open>in a turn, with the open tool executions\<close>
  | Ph_message agent_message                \<comment> \<open>in a message of a turn\<close>
  | Ph_end

fun monitor :: "phase \<Rightarrow> agent_event \<Rightarrow> phase option" where
  "monitor Ph_new EV_agent_start = Some Ph_between"
| "monitor Ph_between EV_turn_start = Some (Ph_turn {#})"
| "monitor Ph_between (EV_agent_end ms) = Some Ph_end"
| "monitor (Ph_turn T) (EV_tool_start i n args) = Some (Ph_turn (add_mset (i, n) T))"
| "monitor (Ph_turn T) (EV_tool_update i n args r) = (if (i, n) \<in># T then Some (Ph_turn T) else None)"
| "monitor (Ph_turn T) (EV_tool_end i n r err) =
     (if (i, n) \<in># T then Some (Ph_turn (T - {#(i, n)#})) else None)"
| "monitor (Ph_turn T) (EV_message_start m) = (if T = {#} then Some (Ph_message m) else None)"
| "monitor (Ph_turn T) (EV_turn_end am rs) = (if T = {#} then Some Ph_between else None)"
| "monitor (Ph_message m) (EV_message_update m' ev) =
     (if is_assistant m \<and> is_assistant m' then Some (Ph_message m') else None)"
| "monitor (Ph_message m) (EV_message_end m') =
     (if m' = m \<or> is_assistant m \<and> is_assistant m' then Some (Ph_turn {#}) else None)"
| "monitor _ _ = None"

fun accepts :: "phase \<Rightarrow> agent_event list \<Rightarrow> phase option" where
  "accepts ph [] = Some ph"
| "accepts ph (e # es) = (case monitor ph e of None \<Rightarrow> None | Some ph' \<Rightarrow> accepts ph' es)"

lemma accepts_append:
  "accepts ph (es @ fs) = (case accepts ph es of None \<Rightarrow> None | Some ph' \<Rightarrow> accepts ph' fs)"
  by (induction es arbitrary: ph) (auto split: option.splits)

text \<open>The messages whose end was announced.\<close>

fun ended :: "agent_event list \<Rightarrow> agent_message list" where
  "ended [] = []"
| "ended (EV_message_end m # es) = m # ended es"
| "ended (_ # es) = ended es"

lemma ended_append: "ended (es @ fs) = ended es @ ended fs"
  by (induction es rule: ended.induct) simp_all

lemma monitor_end [simp]: "monitor Ph_end e = None"
  by (cases e) simp_all

lemma accepts_end_iff: "accepts Ph_end es = Some ph \<longleftrightarrow> es = [] \<and> ph = Ph_end"
  by (cases es) auto

section \<open>Pieces of the loop\<close>

definition goes :: "phase \<Rightarrow> 'w ctl \<Rightarrow> 'w ctl \<Rightarrow> phase \<Rightarrow> agent_message list \<Rightarrow> bool" where
  "goes ph c c' ph' ms \<longleftrightarrow>
     (\<exists>es. ctl_events c' = ctl_events c @ es \<and> accepts ph es = Some ph' \<and> ended es = ms)"

lemma goes_silent: "ctl_events c' = ctl_events c \<Longrightarrow> goes ph c c' ph []"
  by (auto simp: goes_def)

lemma goes_trans [trans]:
  "goes ph c c' ph' ms \<Longrightarrow> goes ph' c' c'' ph'' ms' \<Longrightarrow> goes ph c c'' ph'' (ms @ ms')"
  unfolding goes_def by (fastforce simp: accepts_append ended_append)

lemma goes_before: "ctl_events c' = ctl_events c \<Longrightarrow> goes ph c' c'' ph' ms \<Longrightarrow> goes ph c c'' ph' ms"
  by (simp add: goes_def)

lemma goes_after: "goes ph c c' ph' ms \<Longrightarrow> ctl_events c'' = ctl_events c' \<Longrightarrow> goes ph c c'' ph' ms"
  by (simp add: goes_def)

named_theorems events "the events of the steps of the loop"

lemma emit_events [events]: "ctl_events (emit env e c) = ctl_events c @ [e]"
  by (simp add: emit_def)

lemma ask_events [events]: "ctl_events (snd (ask f c)) = ctl_events c"
  by (simp add: ask_def split: prod.splits)

lemma ask_option_events [events]: "ctl_events (snd (ask_option f d c)) = ctl_events c"
  by (simp add: ask_option_def ask_events split: option.splits)

lemma ask_silent: "ask f c = (x, c') \<Longrightarrow> ctl_events c' = ctl_events c"
  using ask_events [of f c] by simp

lemma ask_option_silent: "ask_option f d c = (x, c') \<Longrightarrow> ctl_events c' = ctl_events c"
  using ask_option_events [of f d c] by simp

lemma goes_emit: "monitor ph e = Some ph' \<Longrightarrow> goes ph c (emit env e c) ph' (ended [e])"
  by (simp add: goes_def emit_events)

lemma goes_emits: "accepts ph es = Some ph' \<Longrightarrow> goes ph c (emits env es c) ph' (ended es)"
proof (induction es arbitrary: ph c)
  case Nil
  then show ?case by (simp add: emits_def goes_silent)
next
  case (Cons e es)
  then obtain ph1 where m: "monitor ph e = Some ph1" and "accepts ph1 es = Some ph'"
    by (auto split: option.splits)
  then have "goes ph1 (emit env e c) (emits env es (emit env e c)) ph' (ended es)"
    using Cons.IH by blast
  from goes_trans [OF goes_emit [OF m] this] show ?case
    by (simp add: emits_def ended_append [symmetric])
qed

lemma goes_message: "goes (Ph_turn {#}) c (emit_message env m c) (Ph_turn {#}) [m]"
  using goes_emits [of "Ph_turn {#}" "[EV_message_start m, EV_message_end m]" "Ph_turn {#}" c env]
  by (simp add: emit_message_def)

lemma goes_messages: "goes (Ph_turn {#}) c (emit_messages env ms c) (Ph_turn {#}) ms"
proof (induction ms arbitrary: c)
  case (Cons m ms)
  show ?case using goes_trans [OF goes_message Cons.IH, of c env m] by simp
qed (simp add: goes_silent)

section \<open>The response\<close>

text \<open>A provider announces the start of its message at most once.\<close>

definition started_once :: "assistant_message_event list \<Rightarrow> bool" where
  "started_once evs \<longleftrightarrow> length (filter (\<lambda>e. \<exists>p. e = AE_start p) evs) \<le> 1"

lemma goes_finish:
  assumes "finish_response env final added ms c = (ms', c')"
  shows "goes (if added then Ph_message (AssistantMsg p) else Ph_turn {#}) c c' (Ph_turn {#}) [AssistantMsg final]"
  using assms goes_message [of c env "AssistantMsg final"]
    goes_emit [of "Ph_message (AssistantMsg p)" "EV_message_end (AssistantMsg final)" "Ph_turn {#}"]
  by (auto simp: finish_response_def split: if_splits)

lemma goes_stream:
  assumes "stream_loop env evs final added ms c = (ms', c')"
    and "started_once evs" and "added \<longrightarrow> (\<forall>p. AE_start p \<notin> set evs)"
  shows "goes (if added then Ph_message (AssistantMsg p) else Ph_turn {#}) c c' (Ph_turn {#}) [AssistantMsg final]"
  using assms
proof (induction env evs final added ms c arbitrary: p rule: stream_loop.induct)
  case (2 env partial evs final added ms c)
  let ?c = "emit env (EV_message_start (AssistantMsg partial)) c"
  have "\<not> added" and no: "\<forall>p. AE_start p \<notin> set evs"
    using "2.prems"(2,3) by (auto simp: started_once_def filter_empty_conv)
  moreover have "goes (Ph_message (AssistantMsg partial)) ?c c' (Ph_turn {#}) [AssistantMsg final]"
    using "2.IH" [of partial] "2.prems" no by (auto simp: started_once_def)
  ultimately show ?case
    using goes_trans [OF goes_emit [of "Ph_turn {#}" "EV_message_start (AssistantMsg partial)"]] by fastforce
next
  case (3 env k i payload partial evs final added ms c)
  let ?e = "EV_message_update (AssistantMsg partial) (AE_update k i payload partial)"
  show ?case
  proof (cases added)
    case True
    have "goes (Ph_message (AssistantMsg partial)) (emit env ?e c) c' (Ph_turn {#}) [AssistantMsg final]"
      using "3.IH"(1) [of partial] "3.prems" True by (auto simp: started_once_def)
    then show ?thesis
      using goes_trans [OF goes_emit [of "Ph_message (AssistantMsg p)" ?e "Ph_message (AssistantMsg partial)" c env]]
        True by simp
  next
    case False
    then show ?thesis using "3.IH"(2) [of p] "3.prems" by (auto simp: started_once_def)
  qed
qed (rule goes_finish, simp)+

text \<open>The contract of a provider, over its whole range of responses.\<close>

definition provider_ok :: "'w environment \<Rightarrow> bool" where
  "provider_ok env \<longleftrightarrow>
     (\<forall>m ctx r k w. started_once (fst (fst (streamFunction env m ctx r k w))))"

lemma response_cases:
  assumes "streamAssistantResponse env ctx config c = (am, ctx', c')"
  obtains evs c1 ms where "ctl_events c1 = ctl_events c"
    and "stream_loop env evs am False (ac_messages ctx) c1 = (ms, c')"
    and "ctx' = ctx\<lparr>ac_messages := ms\<rparr>" and "provider_ok env \<Longrightarrow> started_once evs"
proof -
  let ?transform = "map_option (\<lambda>f. f (ac_messages ctx)) (cf_transformContext env)"
  obtain messages c1 where 1: "ask_option ?transform (ac_messages ctx) c = (messages, c1)" by fastforce
  obtain llm c2 where 2: "ask (cf_convertToLlm env messages) c1 = (llm, c2)" by fastforce
  let ?key = "map_option (\<lambda>f. f (sm_provider (cf_model config))) (cf_getApiKey env)"
  obtain key c3 where 3: "ask_option ?key None c2 = (key, c3)" by fastforce
  obtain lctx k where 4: "streamAssistantResponse env ctx config c =
      (case ask (streamFunction env (cf_model config) lctx (cf_reasoning config) k) c3 of
         ((evs, final), c) \<Rightarrow> case stream_loop env evs final False (ac_messages ctx) c of
           (ms, c) \<Rightarrow> (final, ctx\<lparr>ac_messages := ms\<rparr>, c))"
    by (simp only: streamAssistantResponse_def Let_def 1 2 3 prod.case)
  obtain evs final c4 where 5: "ask (streamFunction env (cf_model config) lctx (cf_reasoning config) k) c3
      = ((evs, final), c4)" by (metis prod.exhaust)
  obtain ms c5 where 6: "stream_loop env evs final False (ac_messages ctx) c4 = (ms, c5)" by fastforce
  have "fst (fst (streamFunction env (cf_model config) lctx (cf_reasoning config) k (ctl_world c3))) = evs"
    using 5 by (simp add: ask_def split: prod.splits)
  then have "provider_ok env \<Longrightarrow> started_once evs" unfolding provider_ok_def by metis
  moreover have "ctl_events c4 = ctl_events c"
    using ask_option_silent [OF 1] ask_silent [OF 2] ask_option_silent [OF 3] ask_silent [OF 5] by simp
  ultimately show ?thesis using that [of c4 evs ms] assms 6 by (auto simp: 4 5)
qed

lemma goes_response:
  assumes "streamAssistantResponse env ctx config c = (am, ctx', c')" and "provider_ok env"
  shows "goes (Ph_turn {#}) c c' (Ph_turn {#}) [AssistantMsg am]"
proof -
  obtain evs c1 ms where "ctl_events c1 = ctl_events c" "started_once evs"
    "stream_loop env evs am False (ac_messages ctx) c1 = (ms, c')"
    using response_cases [OF assms(1)] assms(2) by metis
  then show ?thesis using goes_stream [of env evs am False "ac_messages ctx" c1 ms c'] goes_before by fastforce
qed

end
