(* ===== verification/Agent_Batches.thy ===== *)
theory Agent_Batches
  imports Agent_Events
begin

text \<open>
  The tool batches keep the event protocol and answer the calls in order. \<open>batch_runner\<close> is the
  contract the loop relies on; the truncated, the sequential and the parallel batch and
  \<open>executeToolCalls\<close> are its interpretations.
\<close>

section \<open>Opening and closing a tool execution\<close>

definition call_key :: "tool_call \<Rightarrow> string \<times> string" where
  "call_key call = (tc_id call, tc_name call)"

definition result_key :: "tool_result_message \<Rightarrow> string \<times> string" where
  "result_key m = (tr_toolCallId m, tr_toolName m)"

lemma goes_tool_start:
  "goes (Ph_turn T) c (emit env (tool_start_event call) c) (Ph_turn (add_mset (call_key call) T)) []"
  using goes_emit [of "Ph_turn T" "tool_start_event call"]
  by (fastforce simp: tool_start_event_def call_key_def)

lemma goes_tool_update:
  "call_key call \<in># T \<Longrightarrow> goes (Ph_turn T) c (emit env (tool_update_event call r) c) (Ph_turn T) []"
  using goes_emit [of "Ph_turn T" "tool_update_event call r"]
  by (fastforce simp: tool_update_event_def call_key_def)

lemma goes_tool_updates:
  "call_key call \<in># T \<Longrightarrow>
   goes (Ph_turn T) c (emits env (map (tool_update_event call) rs) c) (Ph_turn T) []"
proof (induction rs arbitrary: c)
  case (Cons r rs)
  show ?case
    using goes_trans [OF goes_tool_update [OF Cons.prems] Cons.IH [OF Cons.prems], of c env r]
    by (simp add: emits_def)
qed (simp add: goes_silent emits_def)

lemma goes_tool_end:
  "goes (Ph_turn (add_mset (call_key (fc_toolCall fc)) T)) c (emitToolExecutionEnd env fc c) (Ph_turn T) []"
  using goes_emit [of "Ph_turn (add_mset (call_key (fc_toolCall fc)) T)"
      "EV_tool_end (tc_id (fc_toolCall fc)) (tc_name (fc_toolCall fc)) (fc_result fc) (fc_isError fc)"]
  by (fastforce simp: emitToolExecutionEnd_def call_key_def)

lemma result_message_goes:
  assumes "result_message env fc c = (m, c')"
  shows "goes (Ph_turn {#}) c c' (Ph_turn {#}) [ToolResultMsg m] \<and> result_key m = call_key (fc_toolCall fc)"
  using assms goes_message [of c env "ToolResultMsg m"]
  by (auto simp: result_message_def Let_def createToolResultMessage_def result_key_def call_key_def)

lemma prepareToolCall_silent:
  assumes "prepareToolCall env context am call c = (res, c')"
  shows "ctl_events c' = ctl_events c \<and> (\<forall>p. res = Inr p \<longrightarrow> pc_toolCall p = call)"
  using assms
  by (auto simp: prepareToolCall_def prepared_unless_aborted_def immediate_def
      dest: ask_silent split: option.splits sum.splits prod.splits if_splits)

lemma finalize_silent:
  assumes "finalizeExecutedToolCall env context am p executed c = (fc, c')"
  shows "ctl_events c' = ctl_events c \<and> fc_toolCall fc = pc_toolCall p"
  using assms
  by (auto simp: finalizeExecutedToolCall_def Let_def
      dest: ask_silent split: option.splits sum.splits prod.splits)

lemma start_execution_silent:
  "start_execution p c = (x, c') \<Longrightarrow> ctl_events c' = ctl_events c"
  by (auto simp: start_execution_def dest: ask_silent)

lemma goes_execute:
  assumes "executePreparedToolCall env p c = (x, c')" and "call_key (pc_toolCall p) \<in># T"
  shows "goes (Ph_turn T) c c' (Ph_turn T) []"
proof -
  obtain partials out c1 where s: "start_execution p c = ((partials, out), c1)" by (metis prod.exhaust)
  then have "c' = emits env (map (tool_update_event (pc_toolCall p)) partials) c1"
    using assms(1) by (simp add: executePreparedToolCall_def)
  then show ?thesis
    using goes_before [OF start_execution_silent [OF s] goes_tool_updates [OF assms(2)]] by simp
qed

section \<open>Truncated and sequential batches\<close>

lemma fail_calls_goes:
  assumes "fail_calls env calls c = (ms, c')"
  shows "goes (Ph_turn {#}) c c' (Ph_turn {#}) (map ToolResultMsg ms) \<and>
    map result_key ms = map call_key calls \<and> list_all tr_isError ms"
  using assms
proof (induction env calls c arbitrary: ms c' rule: fail_calls.induct)
  case (2 env call calls c)
  define fc where "fc = \<lparr>fc_toolCall = call, fc_result = createErrorToolResult (truncation_message call),
    fc_isError = True\<rparr>"
  let ?c1 = "emit env (tool_start_event call) c" and ?c2 = "emitToolExecutionEnd env fc (emit env (tool_start_event call) c)"
  obtain m c3 where m: "result_message env fc ?c2 = (m, c3)" by fastforce
  obtain ms' c4 where ms': "fail_calls env calls c3 = (ms', c4)" by fastforce
  have eq: "ms = m # ms'" "c' = c4"
    using "2.prems" m ms' by (simp_all add: fc_def Let_def)
  have "goes (Ph_turn {#call_key call#}) ?c1 ?c2 (Ph_turn {#}) []"
    using goes_tool_end [of fc "{#}" ?c1 env] by (simp add: fc_def)
  from goes_trans [OF goes_tool_start this] have opened: "goes (Ph_turn {#}) c ?c2 (Ph_turn {#}) []" by simp
  have "tr_isError m"
    using m by (auto simp: result_message_def Let_def createToolResultMessage_def fc_def)
  moreover have rest: "goes (Ph_turn {#}) c3 c' (Ph_turn {#}) (map ToolResultMsg ms') \<and>
      map result_key ms' = map call_key calls \<and> list_all tr_isError ms'"
    using "2.IH" [OF refl refl refl m [symmetric, unfolded fc_def]] ms' eq(2) by simp
  ultimately show ?case
    using goes_trans [OF opened goes_trans [OF conjunct1 [OF result_message_goes [OF m]] conjunct1 [OF rest]]]
      result_message_goes [OF m] rest eq by (simp add: fc_def)
qed (simp add: goes_silent)

lemma sequential_call_goes:
  assumes "sequential_call env context am call c = (fc, c')"
  shows "goes (Ph_turn {#}) c c' (Ph_turn {#}) [] \<and> fc_toolCall fc = call"
proof -
  let ?c1 = "emit env (tool_start_event call) c" and ?open = "Ph_turn {#call_key call#}"
  have 1: "goes (Ph_turn {#}) c ?c1 ?open []" by (rule goes_tool_start)
  obtain res c2 where p: "prepareToolCall env context am call ?c1 = (res, c2)" by fastforce
  show ?thesis
  proof (cases res)
    case (Inl im)
    then have "c' = emitToolExecutionEnd env fc c2" "fc_toolCall fc = call"
      using assms p by (auto simp: sequential_call_def Let_def split: prod.splits)
    moreover from this have "goes ?open c2 c' (Ph_turn {#}) []"
      using goes_tool_end [of fc "{#}" c2 env] by simp
    ultimately show ?thesis
      using goes_trans [OF goes_after [OF 1]] prepareToolCall_silent [OF p] by fastforce
  next
    case (Inr p')
    obtain ex c3 where ex: "executePreparedToolCall env p' c2 = (ex, c3)" by fastforce
    obtain fc' c4 where f: "finalizeExecutedToolCall env context am p' ex c3 = (fc', c4)" by fastforce
    have "fc' = fc" "c' = emitToolExecutionEnd env fc c4" "pc_toolCall p' = call"
      using assms p ex f Inr prepareToolCall_silent [OF p] by (auto simp: sequential_call_def)
    moreover have "goes ?open ?c1 c4 ?open []"
      using goes_after [OF goes_before [OF _ goes_execute [OF ex]]] prepareToolCall_silent [OF p]
        finalize_silent [OF f] calculation by simp
    moreover have "goes ?open c4 c' (Ph_turn {#}) []"
      using goes_tool_end [of fc "{#}" c4 env] finalize_silent [OF f] calculation by simp
    ultimately show ?thesis
      using goes_trans [OF goes_trans [OF 1]] finalize_silent [OF f] by fastforce
  qed
qed

lemma sequential_loop_goes:
  assumes "sequential_loop env context am calls c = ((fcs, ms), c')"
  shows "goes (Ph_turn {#}) c c' (Ph_turn {#}) (map ToolResultMsg ms) \<and>
    map result_key ms = take (length ms) (map call_key calls) \<and> (calls \<noteq> [] \<longrightarrow> ms \<noteq> []) \<and>
    ((\<forall>w. \<not> env_aborted env w) \<longrightarrow> length ms = length calls)"
  using assms
proof (induction env "context" am calls c arbitrary: fcs ms c' rule: sequential_loop.induct)
  case (2 env ctx am call calls c)
  obtain fc c1 where fc: "sequential_call env ctx am call c = (fc, c1)" by fastforce
  obtain m c2 where m: "result_message env fc c1 = (m, c2)" by fastforce
  have one: "goes (Ph_turn {#}) c c2 (Ph_turn {#}) [ToolResultMsg m]" "result_key m = call_key call"
    using goes_trans [of _ c c1 _ "[]"] sequential_call_goes [OF fc] result_message_goes [OF m] by auto
  show ?case
  proof (cases "aborted env c2")
    case True
    then show ?thesis using "2.prems" fc m one by (auto simp: aborted_def)
  next
    case False
    obtain fcs' ms' c3 where rest: "sequential_loop env ctx am calls c2 = ((fcs', ms'), c3)"
      by (metis prod.exhaust)
    have "ms = m # ms'" "c' = c3" using "2.prems" fc m rest False by auto
    then show ?thesis
      using "2.IH" [OF fc [symmetric] m [symmetric] False rest] one goes_trans [OF one(1)] by auto
  qed
qed (simp add: goes_silent)

section \<open>Parallel batches\<close>

fun entry_call :: "'w call_entry \<Rightarrow> tool_call" where
  "entry_call (CE_finalized fc) = fc_toolCall fc"
| "entry_call (CE_function p) = pc_toolCall p"

fun entry_open :: "'w call_entry \<Rightarrow> (string \<times> string) multiset" where
  "entry_open (CE_finalized fc) = {#}"
| "entry_open (CE_function p) = {#call_key (pc_toolCall p)#}"

fun task_call :: "'w task \<Rightarrow> tool_call" where
  "task_call (T_running p us out) = pc_toolCall p"
| "task_call (T_executed p executed) = pc_toolCall p"
| "task_call (T_finalized fc) = fc_toolCall fc"
| "task_call (T_done fc) = fc_toolCall fc"

definition task_open :: "'w task \<Rightarrow> (string \<times> string) multiset" where
  "task_open t = (if finished_call t = None then {#call_key (task_call t)#} else {#})"

lemma preflight_goes:
  assumes "preflight env context am calls c = (es, c')"
  shows "goes (Ph_turn T) c c' (Ph_turn (sum_list (map entry_open es) + T)) [] \<and>
    map entry_call es = take (length es) calls \<and> (calls \<noteq> [] \<longrightarrow> es \<noteq> []) \<and>
    ((\<forall>w. \<not> env_aborted env w) \<longrightarrow> length es = length calls)"
  using assms
proof (induction env "context" am calls c arbitrary: es c' T rule: preflight.induct)
  case (2 env ctx am call calls c)
  let ?c1 = "emit env (tool_start_event call) c"
  obtain res c2 where p: "prepareToolCall env ctx am call ?c1 = (res, c2)" by fastforce
  have 1: "goes (Ph_turn T) c c2 (Ph_turn (add_mset (call_key call) T)) []" for T
    using goes_after [OF goes_tool_start] prepareToolCall_silent [OF p] by blast
  define e where "e = (case res of Inl (r, err) \<Rightarrow> CE_finalized \<lparr>fc_toolCall = call, fc_result = r, fc_isError = err\<rparr>
    | Inr p \<Rightarrow> CE_function p)"
  define c3 where "c3 = (case res of
      Inl (r, err) \<Rightarrow> emitToolExecutionEnd env \<lparr>fc_toolCall = call, fc_result = r, fc_isError = err\<rparr> c2
    | Inr p \<Rightarrow> c2)"
  have entry: "(case prepareToolCall env ctx am call ?c1 of
        (Inl (r, err), c) \<Rightarrow> (let fc = \<lparr>fc_toolCall = call, fc_result = r, fc_isError = err\<rparr>
           in (CE_finalized fc, emitToolExecutionEnd env fc c))
      | (Inr p, c) \<Rightarrow> (CE_function p, c)) = (e, c3)"
    by (simp add: p e_def c3_def Let_def split: sum.splits prod.splits)
  have e: "entry_call e = call" "goes (Ph_turn T) c c3 (Ph_turn (entry_open e + T)) []" for T
  proof -
    show "entry_call e = call" using prepareToolCall_silent [OF p] by (auto simp: e_def split: sum.splits)
    show "goes (Ph_turn T) c c3 (Ph_turn (entry_open e + T)) []"
    proof (cases res)
      case (Inl im)
      define fc where "fc = \<lparr>fc_toolCall = call, fc_result = fst im, fc_isError = snd im\<rparr>"
      have "goes (Ph_turn (add_mset (call_key call) T)) c2 (emitToolExecutionEnd env fc c2) (Ph_turn T) []"
        using goes_tool_end [of fc T c2 env] by (simp add: fc_def)
      from goes_trans [OF 1 this] show ?thesis
        using Inl by (cases im) (simp add: e_def c3_def fc_def)
    next
      case (Inr p')
      then show ?thesis using 1 [of T] prepareToolCall_silent [OF p] by (simp add: e_def c3_def)
    qed
  qed
  show ?case
  proof (cases "aborted env c3")
    case True
    then show ?thesis using "2.prems" entry e(1) e(2) [of T] by (auto simp: aborted_def)
  next
    case False
    obtain es' c4 where rest: "preflight env ctx am calls c3 = (es', c4)" by fastforce
    have "es = e # es'" "c' = c4" using "2.prems" entry rest False by auto
    then show ?thesis
      using "2.IH" [OF entry [symmetric] False rest, of "entry_open e + T"] e(1) e(2) [of T] goes_trans [OF e(2) [of T]]
      by (fastforce simp: ac_simps)
  qed
qed (simp add: goes_silent)

lemma start_tasks_silent:
  assumes "start_tasks es c = (ts, c')"
  shows "ctl_events c' = ctl_events c \<and> map task_call ts = map entry_call es \<and>
    map task_open ts = map entry_open es"
  using assms
  by (induction es c arbitrary: ts c' rule: start_tasks.induct)
    (auto simp: task_open_def dest: start_execution_silent split: prod.splits)

lemma task_step_goes:
  assumes "task_step env context am t c = (t', c')" and "finished_call t = None"
  shows "goes (Ph_turn (task_open t + T)) c c' (Ph_turn (task_open t' + T)) [] \<and> task_call t' = task_call t"
  using assms
proof (induction env "context" am t c rule: task_step.induct)
  case (1 env ctx am p u us out c)
  then show ?case using goes_tool_update [of "pc_toolCall p" "add_mset (call_key (pc_toolCall p)) T" c env u]
    by (auto simp: task_open_def)
next
  case (3 env ctx am p executed c)
  obtain fc c2 where f: "finalizeExecutedToolCall env ctx am p executed c = (fc, c2)" by fastforce
  then show ?case using 3 finalize_silent [OF f] by (auto simp: task_open_def goes_silent)
next
  case (4 env ctx am fc c)
  then show ?case using goes_tool_end [of fc T c env] by (auto simp: task_open_def)
qed (auto simp: task_open_def goes_silent)

lemma sum_list_update_split:
  fixes f :: "'a \<Rightarrow> 'b multiset"
  assumes "i < length xs"
  shows "\<exists>R. \<forall>y. sum_list (map f (xs[i := y])) = f y + R"
  using assms
proof (induction xs arbitrary: i)
  case (Cons x xs)
  show ?case
  proof (cases i)
    case (Suc j)
    then obtain R where "\<forall>y. sum_list (map f (xs[j := y])) = f y + R" using Cons by auto
    then show ?thesis using Suc by (auto simp: ac_simps intro!: exI [of _ "f x + R"])
  qed auto
qed simp

lemma unfinished_tasks_Nil: "unfinished_tasks ts = [] \<longleftrightarrow> (\<forall>t \<in> set ts. finished_call t \<noteq> None)"
  by (fastforce simp: unfinished_tasks_def filter_empty_conv in_set_conv_nth)

lemma run_tasks_goes:
  assumes "run_tasks env context am ts c = (ts', c')"
  shows "goes (Ph_turn (sum_list (map task_open ts))) c c' (Ph_turn {#}) [] \<and>
    map task_call ts' = map task_call ts \<and> unfinished_tasks ts' = []"
  using assms
proof (induction env "context" am ts c arbitrary: ts' c' rule: run_tasks.induct)
  case (1 env ctx am ts c)
  show ?case
  proof (cases "unfinished_tasks ts = []")
    case True
    then have "sum_list (map task_open ts) = {#}"
      unfolding unfinished_tasks_Nil by (induction ts) (auto simp: task_open_def)
    then show ?thesis using 1 True by (simp add: goes_silent run_tasks.simps [of env ctx am ts c])
  next
    case False
    obtain k c1 where k: "ask (env_schedule env (length (unfinished_tasks ts))) c = (k, c1)" by fastforce
    define i where "i = scheduled (unfinished_tasks ts) k"
    obtain t c2 where t: "task_step env ctx am (ts ! i) c1 = (t, c2)" by fastforce
    have i: "i < length ts" "finished_call (ts ! i) = None"
      using scheduled_unfinished [OF False] by (simp_all add: i_def)
    obtain R where R: "\<And>y. sum_list (map task_open (ts[i := y])) = task_open y + R"
      using sum_list_update_split [OF i(1)] by blast
    have run: "run_tasks env ctx am (ts[i := t]) c2 = (ts', c')"
      using 1(2) False k t by (simp add: run_tasks.simps [of env ctx am ts c] i_def Let_def)
    have "goes (Ph_turn (task_open (ts ! i) + R)) c c2 (Ph_turn (task_open t + R)) []" "task_call t = task_call (ts ! i)"
      using goes_before [OF ask_silent [OF k]] task_step_goes [OF t i(2)] by blast+
    moreover have "task_open (ts ! i) + R = sum_list (map task_open ts)" using R [of "ts ! i"] by simp
    moreover have "map task_call (ts[i := t]) = map task_call ts"
      using calculation(2) i(1) by (simp add: map_update list_update_same_conv)
    moreover note 1(1) [OF False k [symmetric] i_def t [symmetric] run]
    ultimately show ?thesis using goes_trans [of _ c c2 _ "[]"] R [of t] by fastforce
  qed
qed

lemma result_messages_goes:
  assumes "result_messages env fcs c = (ms, c')"
  shows "goes (Ph_turn {#}) c c' (Ph_turn {#}) (map ToolResultMsg ms) \<and>
    map result_key ms = map (call_key \<circ> fc_toolCall) fcs"
  using assms
proof (induction env fcs c arbitrary: ms c' rule: result_messages.induct)
  case (2 env fc fcs c)
  obtain m c1 where m: "result_message env fc c = (m, c1)" by fastforce
  obtain ms' c2 where ms': "result_messages env fcs c1 = (ms', c2)" by fastforce
  have eq: "ms = m # ms'" "c' = c2" using 2 m ms' by auto
  then show ?case
    using result_message_goes [OF m] "2.IH" [OF m [symmetric] ms']
      goes_trans [OF conjunct1 [OF result_message_goes [OF m]]] by auto
qed (simp add: goes_silent)

lemma finished_calls:
  assumes "unfinished_tasks ts = []"
  shows "map fc_toolCall (List.map_filter finished_call ts) = map task_call ts"
proof -
  have "\<forall>t \<in> set ts. \<exists>fc. t = T_done fc"
    using assms by (metis finished_call.elims unfinished_tasks_Nil)
  then show ?thesis by (induction ts) (auto simp: List.map_filter_simps)
qed

section \<open>The contract of a tool batch\<close>

text \<open>
  Between the assistant's message and the end of the turn a batch keeps the protocol: its tool
  executions are closed when it returns, the messages it ended are its results, in order, and they
  answer the first calls of the assistant's message one by one.
\<close>

locale batch_runner =
  fixes run :: "'w agent_context \<Rightarrow> assistant_message \<Rightarrow> 'w ctl \<Rightarrow> tool_batch \<times> 'w ctl"
  assumes run_goes:
      "run ctx am c = (b, c') \<Longrightarrow> goes (Ph_turn {#}) c c' (Ph_turn {#}) (map ToolResultMsg (bt_messages b))"
    and run_answers:
      "run ctx am c = (b, c') \<Longrightarrow>
       map result_key (bt_messages b) =
         take (length (bt_messages b)) (map call_key (toolCalls_of (am_content am)))"
begin

lemma run_length:
  assumes "run ctx am c = (b, c')"
  shows "length (bt_messages b) \<le> length (toolCalls_of (am_content am))"
proof -
  have "length (map result_key (bt_messages b)) =
      length (take (length (bt_messages b)) (map call_key (toolCalls_of (am_content am))))"
    by (simp only: run_answers [OF assms])
  then show ?thesis by simp
qed

lemma run_answer:
  assumes "run ctx am c = (b, c')" and "i < length (bt_messages b)"
  shows "result_key (bt_messages b ! i) = call_key (toolCalls_of (am_content am) ! i)"
proof -
  have "map result_key (bt_messages b) ! i = take (length (bt_messages b)) (map call_key (toolCalls_of (am_content am))) ! i"
    by (simp only: run_answers [OF assms(1)])
  then show ?thesis using assms(2) run_length [OF assms(1)] by simp
qed

text \<open>The turn ends after the batch with its results.\<close>

lemma run_turn_end:
  assumes "run ctx am c = (b, c')"
  shows "goes (Ph_turn {#}) c (emit env (EV_turn_end am rs) c') Ph_between (map ToolResultMsg (bt_messages b))"
  using goes_trans [OF run_goes [OF assms] goes_emit [of _ "EV_turn_end am rs" Ph_between]] by simp

end

interpretation truncated: batch_runner "\<lambda>ctx am. failToolCallsFromTruncatedMessage env (toolCalls_of (am_content am))"
  for env :: "'w environment"
proof unfold_locales
  fix ctx :: "'w agent_context" and am b and c c' :: "'w ctl"
  assume "failToolCallsFromTruncatedMessage env (toolCalls_of (am_content am)) c = (b, c')"
  then have "fail_calls env (toolCalls_of (am_content am)) c = (bt_messages b, c')"
    by (auto simp: failToolCallsFromTruncatedMessage_def split: prod.splits)
  note r = fail_calls_goes [OF this]
  then have "length (bt_messages b) = length (toolCalls_of (am_content am))" by (metis length_map)
  with r show "goes (Ph_turn {#}) c c' (Ph_turn {#}) (map ToolResultMsg (bt_messages b))"
    and "map result_key (bt_messages b) =
      take (length (bt_messages b)) (map call_key (toolCalls_of (am_content am)))" by simp_all
qed

interpretation sequential: batch_runner "\<lambda>ctx am. executeToolCallsSequential env ctx am (toolCalls_of (am_content am))"
  for env :: "'w environment"
proof unfold_locales
  fix ctx :: "'w agent_context" and am b and c c' :: "'w ctl"
  assume "executeToolCallsSequential env ctx am (toolCalls_of (am_content am)) c = (b, c')"
  then obtain fcs where
    "sequential_loop env ctx am (toolCalls_of (am_content am)) c = ((fcs, bt_messages b), c')"
    by (auto simp: executeToolCallsSequential_def split: prod.splits)
  from sequential_loop_goes [OF this]
  show "goes (Ph_turn {#}) c c' (Ph_turn {#}) (map ToolResultMsg (bt_messages b))"
    and "map result_key (bt_messages b) =
      take (length (bt_messages b)) (map call_key (toolCalls_of (am_content am)))" by simp_all
qed

lemma parallel_goes:
  assumes "executeToolCallsParallel env ctx am calls c = (b, c')"
  shows "goes (Ph_turn {#}) c c' (Ph_turn {#}) (map ToolResultMsg (bt_messages b)) \<and>
    map result_key (bt_messages b) = take (length (bt_messages b)) (map call_key calls) \<and>
    (calls \<noteq> [] \<longrightarrow> bt_messages b \<noteq> []) \<and>
    ((\<forall>w. \<not> env_aborted env w) \<longrightarrow> length (bt_messages b) = length calls)"
proof -
  obtain es c1 where 1: "preflight env ctx am calls c = (es, c1)" by fastforce
  obtain ts c2 where 2: "start_tasks es c1 = (ts, c2)" by fastforce
  obtain ts' c3 where 3: "run_tasks env ctx am ts c2 = (ts', c3)" by fastforce
  let ?fcs = "List.map_filter finished_call ts'"
  obtain ms c4 where 4: "result_messages env ?fcs c3 = (ms, c4)" by fastforce
  have b: "bt_messages b = ms" "c' = c4"
    using assms by (auto simp: executeToolCallsParallel_def 1 2 3 4 Let_def)
  have "goes (Ph_turn {#}) c c3 (Ph_turn {#}) []"
    using goes_trans [OF goes_after [OF conjunct1 [OF preflight_goes [OF 1, of "{#}"]]]]
      start_tasks_silent [OF 2] run_tasks_goes [OF 3] by fastforce
  then have "goes (Ph_turn {#}) c c4 (Ph_turn {#}) (map ToolResultMsg ms)"
    using goes_trans result_messages_goes [OF 4] by fastforce
  moreover have keys: "map fc_toolCall ?fcs = take (length es) calls"
    using finished_calls run_tasks_goes [OF 3] start_tasks_silent [OF 2] preflight_goes [OF 1] by metis
  then have "map result_key ms = take (length es) (map call_key calls)"
    using result_messages_goes [OF 4] by (simp flip: map_map add: take_map)
  moreover from this have "length ms = min (length es) (length calls)"
    by (metis length_map length_take min.commute)
  ultimately show ?thesis using preflight_goes [OF 1] b by (auto simp: min_def)
qed

interpretation parallel: batch_runner "\<lambda>ctx am. executeToolCallsParallel env ctx am (toolCalls_of (am_content am))"
  for env :: "'w environment"
  by unfold_locales (simp_all add: parallel_goes)

interpretation tool_calls: batch_runner "executeToolCalls env" for env :: "'w environment"
  by unfold_locales
    (auto simp: executeToolCalls_def Let_def sequential.run_goes sequential.run_answers
      parallel.run_goes parallel.run_answers split: if_splits)

end
