(* ===== verification/Agent_Runs.thy ===== *)
theory Agent_Runs
  imports Agent_Batches
begin

text \<open>
  From the batches to whole runs: the events and the messages of one turn, the invariant of the loop
  by fixed point induction, and the termination of runs under a stop hook.
\<close>

section \<open>One turn\<close>

lemma run_batch_goes:
  assumes "run_batch env ctx am c = ((results, goOn), c')"
  shows "goes (Ph_turn {#}) c c' (Ph_turn {#}) (map ToolResultMsg results)"
  using assms
  by (auto simp: run_batch_def Let_def goes_silent dest: truncated.run_goes tool_calls.run_goes
      split: if_splits prod.splits)

definition entry_phase :: "'w loop_state \<Rightarrow> phase" where
  "entry_phase s = (if ls_firstTurn s then Ph_turn {#} else Ph_between)"

lemma push_both_simps [simp]:
  "ls_newMessages (push_both ms s) = ls_newMessages s @ ms"
  "ac_messages (ls_context (push_both ms s)) = ac_messages (ls_context s) @ ms"
  "ls_firstTurn (push_both ms s) = ls_firstTurn s"
  "ls_config (push_both ms s) = ls_config s"
  by (simp_all add: push_both_def)

lemma apply_update_simps [simp]:
  "ls_newMessages (apply_update upd s) = ls_newMessages s"
  "ls_firstTurn (apply_update upd s) = ls_firstTurn s"
  "apply_update None s = s"
  by (simp_all add: apply_update_def split: option.splits)

lemma begin_turn_goes:
  assumes "begin_turn env s c = (s', c')"
  shows "goes (entry_phase s) c c' (Ph_turn {#}) (ls_pending s) \<and>
    s' = (push_both (ls_pending s) s)\<lparr>ls_firstTurn := False, ls_pending := []\<rparr>"
  using assms goes_messages [of _ env "ls_pending s"]
    goes_trans [OF goes_emit [of Ph_between EV_turn_start "Ph_turn {#}" c env]]
  by (fastforce simp: begin_turn_def entry_phase_def Let_def)

text \<open>What a piece of the loop that starts with the messages \<open>old\<close> comes to.\<close>

fun outcome_ok :: "phase \<Rightarrow> 'w ctl \<Rightarrow> 'w ctl \<Rightarrow> agent_message list \<Rightarrow> 'w turn_result \<Rightarrow> bool" where
  "outcome_ok ph c c' old (TR_next s) \<longleftrightarrow>
     (\<exists>ms. goes ph c c' Ph_between ms \<and> ls_newMessages s = old @ ms \<and> \<not> ls_firstTurn s)"
| "outcome_ok ph c c' old (TR_return msgs) \<longleftrightarrow>
     (\<exists>ms c1. goes ph c c1 Ph_between ms \<and> msgs = old @ ms \<and>
        ctl_events c' = ctl_events c1 @ [EV_agent_end msgs])"
| "outcome_ok ph c c' old (TR_throw e) \<longleftrightarrow> (\<exists>ms. goes ph c c' Ph_between ms)"

lemma outcome_ok_trans:
  assumes "goes ph c c1 ph' ms" and "outcome_ok ph' c1 c' (old @ ms) r"
  shows "outcome_ok ph c c' old r"
  using assms(2) by (cases r) (auto dest: goes_trans [OF assms(1)])

lemma end_turn_ok:
  assumes "end_turn env am results s c = (r, c')" and "\<not> ls_firstTurn s"
  shows "outcome_ok Ph_between c c' (ls_newMessages s) r"
proof -
  have silent: "goes Ph_between c x Ph_between []" if "ctl_events x = ctl_events c" for x :: "'a ctl"
    using that by (rule goes_silent)
  from assms show ?thesis
    by (cases r)
      (fastforce simp: end_turn_def Let_def emit_events
        dest!: ask_option_silent intro!: goes_silent split: prod.splits sum.splits if_splits)+
qed

lemma turn_ok:
  assumes "turn env s c = (r, c')" and "provider_ok env"
  shows "outcome_ok (entry_phase s) c c' (ls_newMessages s) r"
proof -
  obtain s1 c1 where 1: "begin_turn env s c = (s1, c1)" by fastforce
  obtain am ctx c2 where 2: "streamAssistantResponse env (ls_context s1) (ls_config s1) c1 = (am, ctx, c2)"
    by (metis prod.exhaust)
  define s2 where "s2 = s1\<lparr>ls_context := ctx, ls_newMessages := ls_newMessages s1 @ [AssistantMsg am]\<rparr>"
  let ?ms = "ls_pending s @ [AssistantMsg am]"
  have 3: "goes (entry_phase s) c c2 (Ph_turn {#}) ?ms"
    using goes_trans [OF conjunct1 [OF begin_turn_goes [OF 1]] goes_response [OF 2 assms(2)]] .
  have s2: "ls_newMessages s2 = ls_newMessages s @ ?ms" "\<not> ls_firstTurn s2"
    using begin_turn_goes [OF 1] by (simp_all add: s2_def)
  show ?thesis
  proof (cases "am_stopReason am = SR_error \<or> am_stopReason am = SR_aborted")
    case True
    then have "r = TR_return (ls_newMessages s2)"
      and "c' = emit env (EV_agent_end (ls_newMessages s2)) (emit env (EV_turn_end am []) c2)"
      using assms(1) by (auto simp: turn_def 1 2 s2_def emits_def Let_def)
    moreover have "goes (entry_phase s) c (emit env (EV_turn_end am []) c2) Ph_between ?ms"
      using goes_trans [OF 3 goes_emit [of _ "EV_turn_end am []" Ph_between]] by simp
    ultimately show ?thesis using s2(1) by (auto simp: emit_events)
  next
    case False
    obtain results goOn c3 where 4: "run_batch env (ls_context s2) am c2 = ((results, goOn), c3)"
      by (metis prod.exhaust)
    define s3 where "s3 = (push_both (map ToolResultMsg results) s2)\<lparr>ls_more := goOn\<rparr>"
    have "end_turn env am results s3 (emit env (EV_turn_end am results) c3) = (r, c')"
      using assms(1) False 1 2 4 by (simp add: turn_def Let_def s2_def s3_def)
    moreover have "ls_newMessages s3 = ls_newMessages s @ ?ms @ map ToolResultMsg results" "\<not> ls_firstTurn s3"
      using s2 by (simp_all add: s3_def)
    moreover have "goes (entry_phase s) c (emit env (EV_turn_end am results) c3) Ph_between
        (?ms @ map ToolResultMsg results)"
      using goes_trans [OF 3 goes_trans [OF run_batch_goes [OF 4]
          goes_emit [of "Ph_turn {#}" "EV_turn_end am results" Ph_between]]] by simp
    ultimately show ?thesis using outcome_ok_trans end_turn_ok by fastforce
  qed
qed

section \<open>Whole runs\<close>

definition as_outcome :: "string + agent_message list \<Rightarrow> 'w turn_result" where
  "as_outcome res = (case res of Inl e \<Rightarrow> TR_throw e | Inr msgs \<Rightarrow> TR_return msgs)"

lemma run_loop_step_ok:
  fixes run :: "'w environment \<Rightarrow> 'w loop_state \<Rightarrow> 'w ctl \<Rightarrow> ((string + agent_message list) \<times> 'w ctl) option"
  assumes IH: "\<And>s c y. run env s c = Some y \<Longrightarrow> ls_firstTurn s \<longrightarrow> ls_more s \<Longrightarrow>
      outcome_ok (entry_phase s) c (snd y) (ls_newMessages s) (as_outcome (fst y) :: 'w turn_result)"
    and step: "(if ls_more s \<or> ls_pending s \<noteq> []
      then (case turn env s c of
              (TR_next s', c') \<Rightarrow> run env s' c'
            | (TR_return ms, c') \<Rightarrow> Some (Inr ms, c')
            | (TR_throw e, c') \<Rightarrow> Some (Inl e, c'))
      else (case ask_option (cf_getFollowUpMessages env) [] c of
              (followUps, c') \<Rightarrow>
                if followUps \<noteq> [] then run env (s\<lparr>ls_pending := followUps, ls_more := True\<rparr>) c'
                else Some (Inr (ls_newMessages s), emit env (EV_agent_end (ls_newMessages s)) c'))) = Some y"
    and "provider_ok env" and "ls_firstTurn s \<longrightarrow> ls_more s"
  shows "outcome_ok (entry_phase s) c (snd y) (ls_newMessages s) (as_outcome (fst y) :: 'w turn_result)"
proof (cases "ls_more s \<or> ls_pending s \<noteq> []")
  case True
  obtain r c1 where t: "turn env s c = (r, c1)" by fastforce
  note ok = turn_ok [OF t assms(3)]
  show ?thesis
  proof (cases r)
    case (TR_next s')
    then obtain ms where ms: "goes (entry_phase s) c c1 Ph_between ms"
        "ls_newMessages s' = ls_newMessages s @ ms" "\<not> ls_firstTurn s'" using ok by auto
    have "outcome_ok (entry_phase s') c1 (snd y) (ls_newMessages s') (as_outcome (fst y) :: 'w turn_result)"
      using IH [of s' c1 y] step True t TR_next ms(3) by simp
    then show ?thesis using outcome_ok_trans [OF ms(1)] ms by (simp add: entry_phase_def)
  qed (use step True t ok in \<open>auto simp: as_outcome_def\<close>)
next
  case False
  then have ph: "entry_phase s = Ph_between" using assms(4) by (simp add: entry_phase_def)
  obtain fs c1 where f: "ask_option (cf_getFollowUpMessages env) [] c = (fs, c1)" by fastforce
  note silent = goes_silent [OF ask_option_silent [OF f], of Ph_between]
  show ?thesis
  proof (cases "fs = []")
    case True
    then show ?thesis using step False f silent ph by (auto simp: as_outcome_def emit_events)
  next
    case followUps: False
    let ?s = "s\<lparr>ls_pending := fs, ls_more := True\<rparr>"
    have "outcome_ok (entry_phase ?s) c1 (snd y) (ls_newMessages ?s) (as_outcome (fst y) :: 'w turn_result)"
      using IH [of ?s c1 y] step False f followUps by simp
    then show ?thesis using outcome_ok_trans [OF silent] ph False by (simp add: entry_phase_def split: if_splits)
  qed
qed

lemma run_loop_ok:
  assumes "run_loop env s c = Some y" and "provider_ok env" and "ls_firstTurn s \<longrightarrow> ls_more s"
  shows "outcome_ok (entry_phase s) c (snd y) (ls_newMessages s) (as_outcome (fst y) :: 'w turn_result)"
proof -
  have "provider_ok env \<longrightarrow> (ls_firstTurn s \<longrightarrow> ls_more s) \<longrightarrow>
      outcome_ok (entry_phase s) c (snd y) (ls_newMessages s) (as_outcome (fst y) :: 'w turn_result)"
    by (rule run_loop.raw_induct [OF _ assms(1)]) (blast intro: run_loop_step_ok)
  then show ?thesis using assms(2,3) by blast
qed

section \<open>Entry points\<close>

lemma runLoop_ok:
  assumes "runLoop env ctx new config c = Some y" and "provider_ok env"
  shows "outcome_ok (Ph_turn {#}) c (snd y) new (as_outcome (fst y) :: 'w turn_result)"
proof -
  obtain pending c1 where p: "ask_option (cf_getSteeringMessages env) [] c = (pending, c1)" by fastforce
  let ?s = "\<lparr>ls_context = ctx, ls_newMessages = new, ls_config = config, ls_firstTurn = True,
    ls_pending = pending, ls_more = True\<rparr>"
  have "outcome_ok (entry_phase ?s) c1 (snd y) (ls_newMessages ?s) (as_outcome (fst y) :: 'w turn_result)"
    using assms p by (intro run_loop_ok) (simp_all add: runLoop_def)
  then show ?thesis
    using outcome_ok_trans [OF goes_silent [OF ask_option_silent [OF p]], of "Ph_turn {#}"]
    by (simp add: entry_phase_def)
qed

lemma run_start_goes: "goes Ph_new c (emits env [EV_agent_start, EV_turn_start] c) (Ph_turn {#}) []"
  using goes_emits [of Ph_new "[EV_agent_start, EV_turn_start]" "Ph_turn {#}" c env] by simp

lemma runAgentLoop_ok:
  assumes "runAgentLoop env prompts ctx config c = Some y" and "provider_ok env"
  shows "outcome_ok Ph_new c (snd y) [] (as_outcome (fst y) :: 'w turn_result)"
proof -
  let ?c = "emits env [EV_agent_start, EV_turn_start] c"
  have "outcome_ok (Ph_turn {#}) (emit_messages env prompts ?c) (snd y) ([] @ prompts)
      (as_outcome (fst y) :: 'w turn_result)"
    using assms by (auto simp: runAgentLoop_def Let_def intro: runLoop_ok)
  from outcome_ok_trans [OF goes_messages this]
  have "outcome_ok (Ph_turn {#}) ?c (snd y) ([] @ []) (as_outcome (fst y) :: 'w turn_result)" by simp
  from outcome_ok_trans [OF run_start_goes this] show ?thesis .
qed

lemma runAgentLoop_result:
  assumes "runAgentLoop env prompts ctx config c = Some (Inr msgs, c')" and "provider_ok env"
  shows "\<exists>es ms. ctl_events c' = ctl_events c @ es @ [EV_agent_end msgs] \<and>
    accepts Ph_new (es @ [EV_agent_end msgs]) = Some Ph_end \<and> ended es = msgs \<and> msgs = prompts @ ms"
proof -
  let ?c = "emits env [EV_agent_start, EV_turn_start] c" and ?ctx = "ctx\<lparr>ac_messages := ac_messages ctx @ prompts\<rparr>"
  have "runLoop env ?ctx prompts config (emit_messages env prompts ?c) = Some (Inr msgs, c')"
    using assms(1) by (simp add: runAgentLoop_def)
  from runLoop_ok [OF this assms(2)] obtain ms c1 where
    1: "goes (Ph_turn {#}) (emit_messages env prompts ?c) c1 Ph_between ms" and
    2: "msgs = prompts @ ms" "ctl_events c' = ctl_events c1 @ [EV_agent_end msgs]"
    by (auto simp: as_outcome_def)
  have "goes Ph_new c c1 Ph_between msgs"
    using goes_trans [OF run_start_goes goes_trans [OF goes_messages 1]] 2 by simp
  then show ?thesis using 2 by (auto simp: goes_def accepts_append)
qed

section \<open>The transcript\<close>

lemma stream_messages:
  assumes "stream_loop env evs final added (base @ (if added then [p] else [])) c = (ms', c')"
    and "started_once evs" and "added \<longrightarrow> (\<forall>q. AE_start q \<notin> set evs)"
  shows "ms' = base @ [AssistantMsg final]"
  using assms
proof (induction evs arbitrary: added p c)
  case Nil
  then show ?case by (auto simp: finish_response_def replace_last_def split: if_splits)
next
  case (Cons ev evs)
  show ?case
  proof (cases ev)
    case (AE_start partial)
    then have "\<not> added" "\<forall>q. AE_start q \<notin> set evs"
      using Cons.prems(2,3) by (auto simp: started_once_def filter_empty_conv)
    then show ?thesis
      using AE_start Cons.prems Cons.IH [of True "AssistantMsg partial"] by (auto simp: started_once_def)
  next
    case (AE_update k i payload partial)
    then show ?thesis
      using Cons.prems Cons.IH [of added "AssistantMsg partial"] Cons.IH [of added p]
      by (auto simp: started_once_def replace_last_def split: if_splits)
  qed (use Cons.prems in \<open>auto simp: finish_response_def replace_last_def split: if_splits\<close>)
qed

lemma response_messages:
  assumes "streamAssistantResponse env ctx config c = (am, ctx', c')" and "provider_ok env"
  shows "ac_messages ctx' = ac_messages ctx @ [AssistantMsg am]"
proof -
  obtain evs c1 ms where "stream_loop env evs am False (ac_messages ctx) c1 = (ms, c')"
    "ctx' = ctx\<lparr>ac_messages := ms\<rparr>" "started_once evs"
    using response_cases [OF assms(1)] assms(2) by metis
  then show ?thesis using stream_messages [of env evs am False "ac_messages ctx" _ c1 ms c'] by simp
qed

text \<open>A turn that goes on adds its messages to both lists, at least the assistant's.\<close>

lemma end_turn_next:
  assumes "end_turn env am results s c = (TR_next s', c')"
  shows "ls_newMessages s' = ls_newMessages s \<and>
    (cf_prepareNextTurn env = None \<longrightarrow> ls_context s' = ls_context s)"
  using assms
  by (auto simp: end_turn_def Let_def ask_option_def [of "map_option _ (cf_prepareNextTurn env)"]
      split: prod.splits sum.splits if_splits option.splits)

lemma turn_next:
  assumes "turn env s c = (TR_next s', c')"
  shows "\<exists>ms. ms \<noteq> [] \<and> ls_newMessages s' = ls_newMessages s @ ms \<and>
    (provider_ok env \<and> cf_prepareNextTurn env = None \<longrightarrow>
       ac_messages (ls_context s') = ac_messages (ls_context s) @ ms)"
proof -
  obtain s1 c1 where 1: "begin_turn env s c = (s1, c1)" by fastforce
  obtain am ctx c2 where 2: "streamAssistantResponse env (ls_context s1) (ls_config s1) c1 = (am, ctx, c2)"
    by (metis prod.exhaust)
  let ?s2 = "s1\<lparr>ls_context := ctx, ls_newMessages := ls_newMessages s1 @ [AssistantMsg am]\<rparr>"
  obtain results goOn c3 where 3: "run_batch env ctx am c2 = ((results, goOn), c3)" by (metis prod.exhaust)
  let ?s3 = "(push_both (map ToolResultMsg results) ?s2)\<lparr>ls_more := goOn\<rparr>"
  have "end_turn env am results ?s3 (emit env (EV_turn_end am results) c3) = (TR_next s', c')"
    using assms 1 2 3 by (simp add: turn_def Let_def split: if_splits)
  note e = end_turn_next [OF this]
  define ms where "ms = ls_pending s @ [AssistantMsg am] @ map ToolResultMsg results"
  have b: "ls_newMessages s1 = ls_newMessages s @ ls_pending s"
    "ac_messages (ls_context s1) = ac_messages (ls_context s) @ ls_pending s"
    using begin_turn_goes [OF 1] by simp_all
  have "ms \<noteq> []" by (simp add: ms_def)
  moreover have "ls_newMessages s' = ls_newMessages s @ ms"
    using conjunct1 [OF e] b(1) by (simp add: ms_def)
  moreover have "ac_messages (ls_context s') = ac_messages (ls_context s) @ ms"
    if ok: "provider_ok env \<and> cf_prepareNextTurn env = None"
  proof -
    note mp [OF conjunct2 [OF e] conjunct2 [OF ok]]
    then show ?thesis
      using b(2) response_messages [OF 2 conjunct1 [OF ok]] by (simp add: ms_def)
  qed
  ultimately show ?thesis by blast
qed

section \<open>Runs end under a stop hook\<close>

definition stops_after :: "nat \<Rightarrow> 'w environment \<Rightarrow> bool" where
  "stops_after n env \<longleftrightarrow>
     (\<exists>hook. cf_shouldStopAfterTurn env = Some hook \<and>
        (\<forall>tctx w. n \<le> length (tn_newMessages tctx) \<longrightarrow> fst (hook tctx w)))"

lemma end_turn_stops:
  assumes "stops_after n env" and "end_turn env am results s c = (TR_next s', c')"
  shows "length (ls_newMessages s') < n"
proof (rule ccontr)
  assume "\<not> length (ls_newMessages s') < n"
  then have n: "n \<le> length (ls_newMessages s)" using end_turn_next [OF assms(2)] by simp
  obtain hook where h: "cf_shouldStopAfterTurn env = Some hook"
    "\<And>tctx w. n \<le> length (tn_newMessages tctx) \<Longrightarrow> fst (hook tctx w)"
    using assms(1) by (auto simp: stops_after_def)
  have "stop" if "ask (hook \<lparr>tn_message = am, tn_toolResults = results, tn_context = x,
      tn_newMessages = ls_newMessages s\<rparr>) c1 = (stop, c2)" for x c1 c2 stop
  proof -
    have "fst (hook \<lparr>tn_message = am, tn_toolResults = results, tn_context = x,
        tn_newMessages = ls_newMessages s\<rparr> (ctl_world c1))" by (rule h(2)) (simp add: n)
    then show ?thesis using that by (auto simp: ask_def split: prod.splits)
  qed
  then show False
    using assms(2) by (fastforce simp: end_turn_def Let_def h(1) ask_option_def [of "Some _"]
        split: prod.splits sum.splits if_splits)
qed

lemma turn_stops:
  assumes "stops_after n env" and "turn env s c = (TR_next s', c')"
  shows "length (ls_newMessages s') < n"
proof -
  obtain s1 c1 where 1: "begin_turn env s c = (s1, c1)" by fastforce
  obtain am ctx c2 where 2: "streamAssistantResponse env (ls_context s1) (ls_config s1) c1 = (am, ctx, c2)"
    by (metis prod.exhaust)
  obtain results goOn c3 where 3: "run_batch env ctx am c2 = ((results, goOn), c3)" by (metis prod.exhaust)
  show ?thesis
    using assms(2) 1 2 3 end_turn_stops [OF assms(1)]
    by (auto simp: turn_def Let_def split: if_splits)
qed

lemma run_loop_working:
  assumes "stops_after n env" and "ls_more s \<or> ls_pending s \<noteq> []"
  shows "\<exists>y. run_loop env s c = Some y"
  using assms(2)
proof (induction "n - length (ls_newMessages s)" arbitrary: s c rule: less_induct)
  case less
  obtain r c1 where t: "turn env s c = (r, c1)" by fastforce
  show ?case
  proof (cases r)
    case (TR_next s')
    with t have t': "turn env s c = (TR_next s', c1)" by simp
    obtain ms where "ms \<noteq> []" "ls_newMessages s' = ls_newMessages s @ ms" using turn_next [OF t'] by blast
    then have shorter: "n - length (ls_newMessages s') < n - length (ls_newMessages s)"
      using turn_stops [OF assms(1) t'] by (auto simp: neq_Nil_conv)
    have run: "run_loop env s c = run_loop env s' c1"
      using less.prems t TR_next by (simp add: run_loop.simps [of env s c])
    show ?thesis
    proof (cases "ls_more s' \<or> ls_pending s' \<noteq> []")
      case True
      then show ?thesis using less.hyps [OF shorter] run by simp
    next
      case False
      obtain fs c2 where f: "ask_option (cf_getFollowUpMessages env) [] c1 = (fs, c2)" by fastforce
      show ?thesis
        using less.hyps [of "s'\<lparr>ls_pending := fs, ls_more := True\<rparr>" c2] shorter run False f
        by (auto simp: run_loop.simps [of env s' c1])
    qed
  qed (use less.prems t in \<open>simp_all add: run_loop.simps [of env s c]\<close>)
qed

lemma runAgentLoop_returns:
  assumes "stops_after n env"
  shows "\<exists>y. runAgentLoop env prompts ctx config c = Some y"
proof -
  let ?c = "emit_messages env prompts (emits env [EV_agent_start, EV_turn_start] c)"
  obtain pending c1 where "ask_option (cf_getSteeringMessages env) [] ?c = (pending, c1)" by fastforce
  then show ?thesis
    using run_loop_working [OF assms] by (simp add: runAgentLoop_def runLoop_def Let_def)
qed

end
