(* ===== verification/Agent_Equivalence.thy ===== *)
theory Agent_Equivalence
  imports Agent_Runs
begin

text \<open>
  Sequential and parallel execution give the same batch when hooks and tools answer from their
  arguments alone: the outcome of every call is then a value that no schedule can change
  (\<open>task_value\<close> is what a task will come to, and no step of any task changes it).
\<close>

section \<open>Environments whose answers do not depend on the world\<close>

definition answers_alike :: "('w \<Rightarrow> 'a \<times> 'w) \<Rightarrow> bool" where
  "answers_alike f \<longleftrightarrow> (\<forall>w w'. fst (f w) = fst (f w'))"

definition stateless :: "'w environment \<Rightarrow> 'w agent_context \<Rightarrow> bool" where
  "stateless env ctx \<longleftrightarrow>
     (\<forall>w. \<not> env_aborted env w) \<and> (\<forall>w w'. env_now env w = env_now env w') \<and>
     (\<forall>tools. ac_tools ctx = Some tools \<longrightarrow>
        (\<forall>t \<in> set tools. \<forall>i args. answers_alike (at_execute t i args))) \<and>
     (\<forall>hook. cf_beforeToolCall env = Some hook \<longrightarrow> (\<forall>x. answers_alike (hook x))) \<and>
     (\<forall>hook. cf_afterToolCall env = Some hook \<longrightarrow> (\<forall>x r err. answers_alike (hook x r err)))"

lemma alike_ask: "answers_alike f \<Longrightarrow> fst (ask f c) = fst (ask f c')"
  by (simp add: ask_def answers_alike_def split: prod.splits) (metis fst_conv)

lemma find_tool_set:
  "find_tool ctx n = Some t \<Longrightarrow> \<exists>tools. ac_tools ctx = Some tools \<and> t \<in> set tools"
  by (auto simp: find_tool_def find_Some_iff split: option.splits)

lemma prepare_constant:
  assumes "stateless env ctx"
  shows "fst (prepareToolCall env ctx am call c) = fst (prepareToolCall env ctx am call c')"
proof -
  have never: "\<not> aborted env x" for x using assms by (simp add: stateless_def aborted_def)
  show ?thesis
  proof (cases "cf_beforeToolCall env")
    case None
    then show ?thesis
      by (simp add: prepareToolCall_def prepared_unless_aborted_def never split: option.splits sum.splits)
  next
    case (Some hook)
    have "\<exists>v c1 c2. ask (hook x) c = (v, c1) \<and> ask (hook x) c' = (v, c2)" for x
    proof -
      have "fst (ask (hook x) c) = fst (ask (hook x) c')"
        using assms Some by (intro alike_ask) (simp add: stateless_def)
      then show ?thesis by (metis prod.collapse)
    qed
    then obtain v c1 c2 where "\<And>x. ask (hook x) c = (v x, c1 x)" "\<And>x. ask (hook x) c' = (v x, c2 x)"
      by metis
    then show ?thesis
      by (simp add: prepareToolCall_def prepared_unless_aborted_def never Some split: option.splits sum.splits)
  qed
qed

lemma prepared_tool:
  assumes "prepareToolCall env ctx am call c = (Inr p, c')"
  shows "\<exists>tools. ac_tools ctx = Some tools \<and> pc_tool p \<in> set tools"
proof -
  have "find_tool ctx (tc_name call) = Some (pc_tool p)"
    using assms by (auto simp: prepareToolCall_def prepared_unless_aborted_def immediate_def
        split: option.splits sum.splits prod.splits if_splits)
  then show ?thesis by (rule find_tool_set)
qed

lemma start_constant:
  assumes "stateless env ctx" and "ac_tools ctx = Some tools" and "pc_tool p \<in> set tools"
  shows "fst (start_execution p c) = fst (start_execution p c')"
  unfolding start_execution_def using assms by (intro alike_ask) (simp add: stateless_def)

lemma finalize_constant:
  assumes "stateless env ctx"
  shows "fst (finalizeExecutedToolCall env ctx am p ex c) = fst (finalizeExecutedToolCall env ctx am p ex c')"
proof (cases "cf_afterToolCall env")
  case (Some hook)
  let ?x = "\<lparr>tx_assistantMessage = am, tx_toolCall = pc_toolCall p, tx_args = pc_args p, tx_context = ctx\<rparr>"
  let ?f = "hook ?x (fst ex) (snd ex)"
  have "fst (ask ?f c) = fst (ask ?f c')"
    using assms Some by (intro alike_ask) (simp add: stateless_def)
  then obtain v c1 c2 where "ask ?f c = (v, c1)" "ask ?f c' = (v, c2)" by (metis prod.collapse)
  then show ?thesis using Some by (simp add: finalizeExecutedToolCall_def Let_def split: sum.splits option.splits)
qed (simp add: finalizeExecutedToolCall_def)

section \<open>The value of a call\<close>

text \<open>The values are read off at an arbitrary point \<open>c0\<close>.\<close>

definition prepared_value ::
  "'w environment \<Rightarrow> 'w agent_context \<Rightarrow> assistant_message \<Rightarrow> 'w ctl \<Rightarrow> 'w prepared_call \<Rightarrow> finalized_call" where
  "prepared_value env ctx am c0 p =
     fst (finalizeExecutedToolCall env ctx am p (executed_outcome (snd (fst (start_execution p c0)))) c0)"

definition call_value ::
  "'w environment \<Rightarrow> 'w agent_context \<Rightarrow> assistant_message \<Rightarrow> 'w ctl \<Rightarrow> tool_call \<Rightarrow> finalized_call" where
  "call_value env ctx am c0 call =
     (case fst (prepareToolCall env ctx am call c0) of
        Inl (r, err) \<Rightarrow> \<lparr>fc_toolCall = call, fc_result = r, fc_isError = err\<rparr>
      | Inr p \<Rightarrow> prepared_value env ctx am c0 p)"

definition result_of :: "'w environment \<Rightarrow> 'w ctl \<Rightarrow> finalized_call \<Rightarrow> tool_result_message" where
  "result_of env c0 fc = createToolResultMessage fc (env_now env (ctl_world c0))"

lemma result_message_value:
  assumes "stateless env ctx"
  shows "fst (result_message env fc c) = result_of env c0 fc"
proof -
  have "env_now env (ctl_world c) = env_now env (ctl_world c0)" using assms unfolding stateless_def by blast
  then show ?thesis by (simp add: result_message_def result_of_def Let_def)
qed

lemma sequential_call_value:
  assumes "stateless env ctx"
  shows "fst (sequential_call env ctx am call c) = call_value env ctx am c0 call"
proof -
  obtain res c1 where p: "prepareToolCall env ctx am call (emit env (tool_start_event call) c) = (res, c1)" by fastforce
  then have res: "fst (prepareToolCall env ctx am call c0) = res"
    using prepare_constant [OF assms] by (metis fst_conv)
  show ?thesis
  proof (cases res)
    case (Inl im)
    then show ?thesis by (cases im) (simp add: sequential_call_def call_value_def p res Let_def)
  next
    case (Inr pc)
    obtain partials out c2 where st: "start_execution pc c1 = ((partials, out), c2)" by (metis prod.exhaust)
    have "fst (start_execution pc c0) = (partials, out)"
      using st prepared_tool [OF p [unfolded Inr]] start_constant [OF assms] by (metis fst_conv)
    then show ?thesis
      using finalize_constant [OF assms, of am pc "executed_outcome out" c0]
      by (simp add: sequential_call_def call_value_def prepared_value_def p res Inr
          executePreparedToolCall_def st split: prod.splits) (metis fst_conv)
  qed
qed

lemma sequential_loop_value:
  assumes "stateless env ctx"
  shows "fst (sequential_loop env ctx am calls c) =
    (map (call_value env ctx am c0) calls, map (result_of env c0 \<circ> call_value env ctx am c0) calls)"
proof (induction calls arbitrary: c)
  case (Cons call calls)
  have never: "\<not> aborted env x" for x using assms by (simp add: stateless_def aborted_def)
  obtain fc c1 where 1: "sequential_call env ctx am call c = (fc, c1)" by fastforce
  obtain m c2 where 2: "result_message env fc c1 = (m, c2)" by fastforce
  obtain fcs ms c3 where 3: "sequential_loop env ctx am calls c2 = ((fcs, ms), c3)" by (metis prod.exhaust)
  have "fc = call_value env ctx am c0 call" using sequential_call_value [OF assms, of am call c c0] 1 by simp
  moreover have "m = result_of env c0 fc" using result_message_value [OF assms, of fc c1 c0] 2 by simp
  moreover have "fst (sequential_loop env ctx am (call # calls) c) = (fc # fcs, m # ms)"
    by (simp add: 1 2 3 never)
  ultimately show ?case using Cons.IH [of c2] 3 by simp
qed simp

section \<open>Parallel batches keep the values\<close>

fun entry_value ::
  "'w environment \<Rightarrow> 'w agent_context \<Rightarrow> assistant_message \<Rightarrow> 'w ctl \<Rightarrow> 'w call_entry \<Rightarrow> finalized_call" where
  "entry_value env ctx am c0 (CE_finalized fc) = fc"
| "entry_value env ctx am c0 (CE_function p) = prepared_value env ctx am c0 p"

fun task_value ::
  "'w environment \<Rightarrow> 'w agent_context \<Rightarrow> assistant_message \<Rightarrow> 'w ctl \<Rightarrow> 'w task \<Rightarrow> finalized_call" where
  "task_value env ctx am c0 (T_running p us out) =
     fst (finalizeExecutedToolCall env ctx am p (executed_outcome out) c0)"
| "task_value env ctx am c0 (T_executed p ex) = fst (finalizeExecutedToolCall env ctx am p ex c0)"
| "task_value env ctx am c0 (T_finalized fc) = fc"
| "task_value env ctx am c0 (T_done fc) = fc"

definition entry_known :: "'w agent_context \<Rightarrow> 'w call_entry \<Rightarrow> bool" where
  "entry_known ctx e \<longleftrightarrow>
     (\<forall>p. e = CE_function p \<longrightarrow> (\<exists>tools. ac_tools ctx = Some tools \<and> pc_tool p \<in> set tools))"

lemma preflight_value:
  assumes "stateless env ctx" and "preflight env ctx am calls c = (es, c')"
  shows "map (entry_value env ctx am c0) es = map (call_value env ctx am c0) calls \<and> list_all (entry_known ctx) es"
  using assms(2)
proof (induction calls arbitrary: c es c')
  case (Cons call calls)
  have never: "\<not> aborted env x" for x using assms(1) by (simp add: stateless_def aborted_def)
  obtain res c1 where p: "prepareToolCall env ctx am call (emit env (tool_start_event call) c) = (res, c1)" by fastforce
  then have res: "fst (prepareToolCall env ctx am call c0) = res"
    using prepare_constant [OF assms(1)] by (metis fst_conv)
  show ?case
  proof (cases res)
    case (Inl im)
    then show ?thesis
      using Cons by (cases im) (auto simp: p res call_value_def entry_known_def never Let_def split: prod.splits)
  next
    case (Inr pc)
    then show ?thesis
      using Cons prepared_tool [OF p [unfolded Inr]]
      by (auto simp: p res call_value_def entry_known_def never split: prod.splits)
  qed
qed simp

lemma start_tasks_value:
  assumes "stateless env ctx" and "start_tasks es c = (ts, c')" and "list_all (entry_known ctx) es"
  shows "map (task_value env ctx am c0) ts = map (entry_value env ctx am c0) es"
  using assms(2,3)
proof (induction es c arbitrary: ts c' rule: start_tasks.induct)
  case (3 p es c)
  obtain partials out c1 where st: "start_execution p c = ((partials, out), c1)" by (metis prod.exhaust)
  obtain tools where "ac_tools ctx = Some tools" "pc_tool p \<in> set tools"
    using 3(3) by (auto simp: entry_known_def)
  then have "fst (start_execution p c0) = (partials, out)"
    using st start_constant [OF assms(1), of tools p c0 c] by simp
  then show ?case
    using 3 st by (auto simp: prepared_value_def split: prod.splits)
qed (auto split: prod.splits)

lemma task_step_value:
  assumes "stateless env ctx" and "task_step env ctx am t c = (t', c')"
  shows "task_value env ctx am c0 t' = task_value env ctx am c0 t"
proof (cases t)
  case (T_running p us out)
  then show ?thesis using assms(2) by (cases us) auto
next
  case (T_executed p ex)
  then show ?thesis using assms(2) finalize_constant [OF assms(1), of am p ex c c0] by (auto split: prod.splits)
qed (use assms in auto)

lemma run_tasks_value:
  assumes "stateless env ctx" and "run_tasks env ctx am ts c = (ts', c')"
  shows "map (task_value env ctx am c0) ts' = map (task_value env ctx am c0) ts"
  using assms
proof (induction env ctx am ts c arbitrary: ts' c' rule: run_tasks.induct)
  case (1 env ctx am ts c)
  show ?case
  proof (cases "unfinished_tasks ts = []")
    case True
    then show ?thesis using 1 by (simp add: run_tasks.simps [of env ctx am ts c])
  next
    case False
    obtain k c1 where k: "ask (env_schedule env (length (unfinished_tasks ts))) c = (k, c1)" by fastforce
    define i where "i = scheduled (unfinished_tasks ts) k"
    obtain t c2 where t: "task_step env ctx am (ts ! i) c1 = (t, c2)" by fastforce
    have "run_tasks env ctx am (ts[i := t]) c2 = (ts', c')"
      using 1(3) False k t by (simp add: run_tasks.simps [of env ctx am ts c] i_def Let_def)
    then have "map (task_value env ctx am c0) ts' = map (task_value env ctx am c0) (ts[i := t])"
      by (rule 1(1) [OF False k [symmetric] i_def t [symmetric] 1(2)])
    also have "\<dots> = map (task_value env ctx am c0) ts"
      using task_step_value [OF 1(2) t, of c0] scheduled_unfinished [OF False, of k]
      by (simp add: map_update i_def list_update_same_conv)
    finally show ?thesis .
  qed
qed

lemma finished_values:
  assumes "unfinished_tasks ts = []"
  shows "List.map_filter finished_call ts = map (task_value env ctx am c0) ts"
proof -
  have "\<forall>t \<in> set ts. \<exists>fc. t = T_done fc"
    using assms by (metis finished_call.elims unfinished_tasks_Nil)
  then show ?thesis by (induction ts) (auto simp: List.map_filter_simps)
qed

lemma result_messages_value:
  assumes "stateless env ctx"
  shows "fst (result_messages env fcs c) = map (result_of env c0) fcs"
proof (induction fcs arbitrary: c)
  case (Cons fc fcs)
  obtain m c1 where 1: "result_message env fc c = (m, c1)" by fastforce
  obtain ms c2 where 2: "result_messages env fcs c1 = (ms, c2)" by fastforce
  show ?case using result_message_value [OF assms, of fc c c0] Cons.IH [of c1] by (simp add: 1 2)
qed simp

lemma parallel_value:
  assumes "stateless env ctx"
  shows "fst (executeToolCallsParallel env ctx am calls c) =
    \<lparr>bt_messages = map (result_of env c0 \<circ> call_value env ctx am c0) calls,
     bt_terminate = shouldTerminateToolBatch (map (call_value env ctx am c0) calls)\<rparr>"
proof -
  obtain es c1 where 1: "preflight env ctx am calls c = (es, c1)" by fastforce
  obtain ts c2 where 2: "start_tasks es c1 = (ts, c2)" by fastforce
  obtain ts' c3 where 3: "run_tasks env ctx am ts c2 = (ts', c3)" by fastforce
  have "List.map_filter finished_call ts' = map (task_value env ctx am c0) ts'"
    using finished_values run_tasks_goes [OF 3] by blast
  also have "\<dots> = map (call_value env ctx am c0) calls"
    using run_tasks_value [OF assms 3] start_tasks_value [OF assms 2] preflight_value [OF assms 1] by metis
  finally have vals: "List.map_filter finished_call ts' = map (call_value env ctx am c0) calls" .
  obtain ms c4 where 4: "result_messages env (map (call_value env ctx am c0) calls) c3 = (ms, c4)" by fastforce
  show ?thesis
    using result_messages_value [OF assms, of "map (call_value env ctx am c0) calls" c3 c0]
    by (simp add: executeToolCallsParallel_def 1 2 3 4 vals Let_def)
qed

lemma sequential_value:
  assumes "stateless env ctx"
  shows "fst (executeToolCallsSequential env ctx am calls c) =
    \<lparr>bt_messages = map (result_of env c0 \<circ> call_value env ctx am c0) calls,
     bt_terminate = shouldTerminateToolBatch (map (call_value env ctx am c0) calls)\<rparr>"
  using sequential_loop_value [OF assms, of am calls c c0]
  by (auto simp: executeToolCallsSequential_def split: prod.splits)

end
