(* ===== verification/Agent_Properties.thy ===== *)
theory Agent_Properties
  imports Agent_Equivalence Reducer_Properties
begin

text \<open>
  The properties of the agent loop, each with a witness on a run whose first response calls a tool
  and whose second ends the run. The world of the example counts the responses.
\<close>

definition demo_tool :: "nat agent_tool" where
  "demo_tool = \<lparr>at_name = ''t'', at_parameters = JNull, at_prepareArguments = None,
     at_execute = (\<lambda>i args w. (([createErrorToolResult ''half''], Inr (createErrorToolResult ''done'')), w)),
     at_executionMode = None\<rparr>"

definition demo_tool_call :: "string \<Rightarrow> tool_call" where
  "demo_tool_call i = \<lparr>tc_id = i, tc_name = ''t'', tc_arguments = JNull, tc_thoughtSignature = None, tc_namespace = None\<rparr>"

definition demo_calling :: assistant_message where
  "demo_calling = demo_assistant SR_toolUse [ToolCallContent (demo_tool_call ''x'')]"

definition demo_answer :: assistant_message where
  "demo_answer = demo_assistant SR_stop []"

definition demo_env :: "nat environment" where
  "demo_env = \<lparr>env_emit = (\<lambda>e w. w), env_aborted = (\<lambda>w. False), env_now = (\<lambda>w. 0), env_schedule = (\<lambda>n w. (n - 1, w)),
     validateToolArguments = (\<lambda>t call. Inr (tc_arguments call)),
     streamFunction = (\<lambda>m ctx r k w. (if w = 0 then ([AE_start demo_answer, AE_done], demo_calling)
                                      else ([AE_done], demo_answer), w + 1)),
     cf_convertToLlm = (\<lambda>ms w. ([], w)), cf_transformContext = None, cf_getApiKey = None,
     cf_apiKey = None, cf_toolExecution = None, cf_getSteeringMessages = None,
     cf_getFollowUpMessages = None, cf_prepareNextTurn = None, cf_shouldStopAfterTurn = None,
     cf_beforeToolCall = None, cf_afterToolCall = None\<rparr>"

definition demo_agent_context :: "nat agent_context" where
  "demo_agent_context = \<lparr>ac_systemPrompt = [], ac_messages = [], ac_tools = Some [demo_tool]\<rparr>"

definition demo_config :: loop_config where
  "demo_config = \<lparr>cf_model = \<lparr>sm_provider = [], sm_modelId = []\<rparr>, cf_reasoning = None\<rparr>"

definition demo_ctl :: "nat ctl" where
  "demo_ctl = \<lparr>ctl_world = 0, ctl_events = []\<rparr>"

lemmas demo_agent_defs = demo_tool_def demo_tool_call_def demo_calling_def demo_answer_def demo_env_def
  demo_agent_context_def demo_config_def demo_ctl_def demo_assistant_def

lemma demo_provider: "provider_ok demo_env"
  by (simp add: provider_ok_def demo_env_def started_once_def)

lemma demo_stateless: "stateless demo_env demo_agent_context"
  by (simp add: stateless_def demo_env_def demo_agent_context_def demo_tool_def answers_alike_def)

definition returned :: "((string + agent_message list) \<times> 'w ctl) option \<Rightarrow> agent_message list option" where
  "returned res = (case res of Some (Inr msgs, c) \<Rightarrow> Some msgs | _ \<Rightarrow> None)"

lemma returnedE:
  assumes "returned res \<noteq> None"
  obtains msgs c where "res = Some (Inr msgs, c)"
  using assms that by (auto simp: returned_def split: option.splits prod.splits sum.splits)

lemma demo_run: "returned (runAgentLoop demo_env [demo_message] demo_agent_context demo_config demo_ctl) \<noteq> None"
  by code_simp

section \<open>Runs\<close>

text \<open>C1. A run that returns has emitted a well-formed trace: agent_start first, turns that hold messages
  one at a time and close every tool execution they open, and as its only agent_end the last event,
  which carries the returned messages. Those are the prompts followed by the run's messages, and they
  are exactly the messages whose end was announced, in that order.\<close>

theorem run_event_protocol:
  assumes "runAgentLoop env prompts ctx config c = Some (Inr msgs, c')" and "provider_ok env"
  shows "\<exists>es ms. ctl_events c' = ctl_events c @ es @ [EV_agent_end msgs] \<and>
    accepts Ph_new (es @ [EV_agent_end msgs]) = Some Ph_end \<and> ended es = msgs \<and> msgs = prompts @ ms"
  by (rule runAgentLoop_result [OF assms])

theorem run_event_protocol_witness:
  "\<exists>msgs c'. runAgentLoop demo_env [demo_message] demo_agent_context demo_config demo_ctl = Some (Inr msgs, c') \<and>
     (\<exists>ms. msgs = demo_message # ms) \<and> accepts Ph_new (ctl_events c') = Some Ph_end"
proof -
  obtain msgs c' where r: "runAgentLoop demo_env [demo_message] demo_agent_context demo_config demo_ctl
      = Some (Inr msgs, c')" using demo_run by (rule returnedE)
  show ?thesis using run_event_protocol [OF r demo_provider] r by (auto simp: demo_ctl_def)
qed

text \<open>C11. Every run ends once its stop hook asks for it: when shouldStopAfterTurn answers true as soon as
  the run has n new messages, the run returns or throws, whatever the provider, the tools, the
  schedule and the queues do.\<close>

theorem run_ends_under_stop_hook:
  assumes "cf_shouldStopAfterTurn env = Some hook"
    and "\<And>tctx w. n \<le> length (tn_newMessages tctx) \<Longrightarrow> fst (hook tctx w)"
  shows "\<exists>y. runAgentLoop env prompts ctx config c = Some y"
  using assms by (intro runAgentLoop_returns [of n]) (auto simp: stops_after_def)

theorem run_ends_under_stop_hook_witness:
  "\<exists>y. runAgentLoop (demo_env\<lparr>cf_shouldStopAfterTurn := Some (\<lambda>tctx w. (3 \<le> length (tn_newMessages tctx), w)),
      cf_getFollowUpMessages := Some (\<lambda>w. ([demo_message], w))\<rparr>) [] demo_agent_context demo_config demo_ctl = Some y"
  by (rule run_ends_under_stop_hook [of _ "\<lambda>tctx w. (3 \<le> length (tn_newMessages tctx), w)" 3]) simp_all

text \<open>While the context is not replaced by prepareNextTurn, a turn that goes on appends the same
  messages to the context and to the run's result: the pending messages, the response, and one result
  for each answered call.\<close>

theorem turn_keeps_transcript:
  assumes "turn env s c = (TR_next s', c')" and "provider_ok env" and "cf_prepareNextTurn env = None"
  shows "\<exists>ms. ms \<noteq> [] \<and> ls_newMessages s' = ls_newMessages s @ ms \<and>
    ac_messages (ls_context s') = ac_messages (ls_context s) @ ms"
  using turn_next [OF assms(1)] assms(2,3) by blast

definition demo_loop_state :: "nat loop_state" where
  "demo_loop_state = \<lparr>ls_context = demo_agent_context, ls_newMessages = [], ls_config = demo_config,
     ls_firstTurn = True, ls_pending = [demo_message], ls_more = True\<rparr>"

fun goes_on :: "'w turn_result \<Rightarrow> bool" where
  "goes_on (TR_next s) = True"
| "goes_on _ = False"

lemma demo_goes_on: "goes_on (fst (turn demo_env demo_loop_state demo_ctl))"
  by code_simp

theorem turn_keeps_transcript_witness:
  "\<exists>s' c'. turn demo_env demo_loop_state demo_ctl = (TR_next s', c') \<and>
     ls_newMessages s' = ac_messages (ls_context s') \<and> ls_newMessages s' \<noteq> []"
proof -
  obtain r c' where r: "turn demo_env demo_loop_state demo_ctl = (r, c')" by fastforce
  then obtain s' where "r = TR_next s'" using demo_goes_on by (cases r) auto
  then show ?thesis
    using turn_keeps_transcript [of demo_env demo_loop_state demo_ctl s' c'] r demo_provider
    by (auto simp: demo_env_def demo_loop_state_def demo_agent_context_def)
qed

section \<open>Tool calls\<close>

text \<open>A batch answers the first calls of the message in order, by their ids and names, whatever the
  mode, the schedule and the outcomes; at least one of them when there are any, and all of them when
  the run is never aborted.\<close>

theorem tool_batch_answers_calls:
  assumes "executeToolCalls env ctx am c = (b, c')"
  shows "map (\<lambda>m. (tr_toolCallId m, tr_toolName m)) (bt_messages b) =
      take (length (bt_messages b)) (map (\<lambda>call. (tc_id call, tc_name call)) (toolCalls_of (am_content am))) \<and>
    (toolCalls_of (am_content am) \<noteq> [] \<longrightarrow> bt_messages b \<noteq> []) \<and>
    ((\<forall>w. \<not> env_aborted env w) \<longrightarrow> length (bt_messages b) = length (toolCalls_of (am_content am)))"
proof -
  have "map result_key (bt_messages b) = take (length (bt_messages b)) (map call_key (toolCalls_of (am_content am)))"
    by (rule tool_calls.run_answers [OF assms])
  moreover have "(toolCalls_of (am_content am) \<noteq> [] \<longrightarrow> bt_messages b \<noteq> []) \<and>
      ((\<forall>w. \<not> env_aborted env w) \<longrightarrow> length (bt_messages b) = length (toolCalls_of (am_content am)))"
    using assms parallel_goes [of env ctx am "toolCalls_of (am_content am)" c b c']
      sequential_loop_goes [of env ctx am "toolCalls_of (am_content am)" c]
    by (auto simp: executeToolCalls_def executeToolCallsSequential_def Let_def split: if_splits prod.splits)
  moreover have "result_key = (\<lambda>m. (tr_toolCallId m, tr_toolName m))" "call_key = (\<lambda>call. (tc_id call, tc_name call))"
    by (simp_all add: fun_eq_iff result_key_def call_key_def)
  ultimately show ?thesis by simp
qed

theorem tool_batch_answers_calls_witness:
  "map tr_toolCallId (bt_messages (fst (executeToolCalls demo_env demo_agent_context
     (demo_assistant SR_toolUse (map (ToolCallContent \<circ> demo_tool_call) [''x'', ''y''])) demo_ctl))) = [''x'', ''y'']"
proof -
  let ?am = "demo_assistant SR_toolUse (map (ToolCallContent \<circ> demo_tool_call) [''x'', ''y''])"
  obtain b c' where b: "executeToolCalls demo_env demo_agent_context ?am demo_ctl = (b, c')" by fastforce
  have "toolCalls_of (am_content ?am) = [demo_tool_call ''x'', demo_tool_call ''y'']"
    by (simp add: demo_assistant_def)
  then have "map (\<lambda>m. (tr_toolCallId m, tr_toolName m)) (bt_messages b) = [(''x'', ''t''), (''y'', ''t'')]"
    using tool_batch_answers_calls [OF b] by (simp add: demo_env_def demo_tool_call_def)
  then show ?thesis using b by auto
qed

text \<open>C2. Sequential and parallel execution of a batch agree when hooks and tools answer from their
  arguments alone and the run is not aborted: for every schedule of the concurrent calls the result
  messages, their order and the decision to terminate are the sequential ones.\<close>

theorem parallel_matches_sequential:
  assumes "stateless env ctx"
  shows "fst (executeToolCallsParallel (env\<lparr>env_schedule := schedule\<rparr>) ctx am calls c) =
    fst (executeToolCallsSequential env ctx am calls c')"
proof -
  have 1: "stateless (env\<lparr>env_schedule := schedule\<rparr>) ctx" using assms by (simp add: stateless_def)
  have fields: "aborted (env\<lparr>env_schedule := schedule\<rparr>) = aborted env"
    "prepared_unless_aborted (env\<lparr>env_schedule := schedule\<rparr>) = prepared_unless_aborted env"
    "cf_beforeToolCall (env\<lparr>env_schedule := schedule\<rparr>) = cf_beforeToolCall env"
    "validateToolArguments (env\<lparr>env_schedule := schedule\<rparr>) = validateToolArguments env"
    by (simp_all add: aborted_def prepared_unless_aborted_def fun_eq_iff)
  have prepare: "prepareToolCall (env\<lparr>env_schedule := schedule\<rparr>) = prepareToolCall env"
    by (intro ext) (unfold prepareToolCall_def fields, rule refl)
  have finalize: "finalizeExecutedToolCall (env\<lparr>env_schedule := schedule\<rparr>) = finalizeExecutedToolCall env"
    by (intro ext) (simp add: finalizeExecutedToolCall_def)
  have "call_value (env\<lparr>env_schedule := schedule\<rparr>) ctx am c = call_value env ctx am c"
    by (intro ext) (unfold call_value_def prepared_value_def prepare finalize, rule refl)
  moreover have "result_of (env\<lparr>env_schedule := schedule\<rparr>) c = result_of env c"
    by (intro ext) (simp add: result_of_def)
  ultimately show ?thesis
    using parallel_value [OF 1, of am calls c c] sequential_value [OF assms, of am calls c' c] by simp
qed

theorem parallel_matches_sequential_witness:
  "length (bt_messages (fst (executeToolCallsParallel demo_env demo_agent_context demo_calling
     [demo_tool_call ''x'', demo_tool_call ''y''] demo_ctl))) = 2"
proof -
  have "demo_env\<lparr>env_schedule := env_schedule demo_env\<rparr> = demo_env" by simp
  moreover have "length (bt_messages (fst (executeToolCallsSequential demo_env demo_agent_context demo_calling
      [demo_tool_call ''x'', demo_tool_call ''y''] demo_ctl))) = 2"
    by (simp add: sequential_value [OF demo_stateless, of _ _ _ demo_ctl])
  ultimately show ?thesis
    using parallel_matches_sequential [OF demo_stateless, of "env_schedule demo_env" demo_calling
        "[demo_tool_call ''x'', demo_tool_call ''y'']" demo_ctl demo_ctl] by simp
qed

lemma emits_append: "emits env es' (emits env es c) = emits env (es @ es') c"
  by (simp add: emits_def)

lemma emit_emits: "emit env e c = emits env [e] c"
  by (simp add: emits_def)

lemma fail_calls_emits: "\<exists>es. snd (fail_calls env calls c) = emits env es c"
proof (induction calls arbitrary: c)
  case (Cons call calls)
  define fc where "fc = \<lparr>fc_toolCall = call, fc_result = createErrorToolResult (truncation_message call),
    fc_isError = True\<rparr>"
  let ?c2 = "emitToolExecutionEnd env fc (emit env (tool_start_event call) c)"
  obtain m c3 where m: "result_message env fc ?c2 = (m, c3)" by fastforce
  obtain ms c4 where ms: "fail_calls env calls c3 = (ms, c4)" by fastforce
  obtain es where "c4 = emits env es c3" using Cons [of c3] ms by auto
  moreover have "c3 = emits env [EV_message_start (ToolResultMsg m), EV_message_end (ToolResultMsg m)] ?c2"
    using m by (auto simp: result_message_def emit_message_def Let_def)
  ultimately have "\<exists>es. c4 = emits env es c"
    unfolding emitToolExecutionEnd_def emit_emits by (metis emits_append)
  moreover have "snd (fail_calls env (call # calls) c) = c4"
    using m ms by (simp add: fc_def Let_def)
  ultimately show ?case by simp
qed (auto simp: emits_def intro: exI [of _ "[]"])

text \<open>A response cut off by the token limit executes nothing: all that happens is the emission of
  events, each of its calls is answered by an error, in order, and the loop goes on.\<close>

theorem truncated_calls_fail:
  assumes "run_batch env ctx am c = ((results, goOn), c')" and "am_stopReason am = SR_length"
    and "toolCalls_of (am_content am) \<noteq> []"
  shows "(\<exists>es. c' = emits env es c) \<and> list_all tr_isError results \<and> goOn \<and>
    map (\<lambda>m. (tr_toolCallId m, tr_toolName m)) results =
      map (\<lambda>call. (tc_id call, tc_name call)) (toolCalls_of (am_content am))"
proof -
  have f: "fail_calls env (toolCalls_of (am_content am)) c = (results, c')" and "goOn"
    using assms by (auto simp: run_batch_def failToolCallsFromTruncatedMessage_def Let_def split: prod.splits)
  moreover have "result_key = (\<lambda>m. (tr_toolCallId m, tr_toolName m))" "call_key = (\<lambda>call. (tc_id call, tc_name call))"
    by (simp_all add: fun_eq_iff result_key_def call_key_def)
  ultimately show ?thesis
    using fail_calls_goes [OF f] fail_calls_emits [of env "toolCalls_of (am_content am)" c] by simp
qed

theorem truncated_calls_fail_witness:
  "map tr_isError (fst (fst (run_batch demo_env demo_agent_context
     (demo_assistant SR_length [ToolCallContent (demo_tool_call ''x'')]) demo_ctl))) = [True]"
proof -
  let ?am = "demo_assistant SR_length [ToolCallContent (demo_tool_call ''x'')]"
  obtain results goOn c' where r: "run_batch demo_env demo_agent_context ?am demo_ctl = ((results, goOn), c')"
    by (metis prod.exhaust)
  have "list_all tr_isError results" "length results = 1"
    using truncated_calls_fail [OF r] by (auto simp: demo_assistant_def dest: map_eq_imp_length_eq)
  then show ?thesis using r by (auto simp: length_Suc_conv)
qed

end
