(* ===== verification/Json_Check.thy ===== *)
theory Json_Check
  imports Session_Types
begin

text \<open>
  \<open>assertJsonSerializable\<close> of \<open>packages/agent/src/harness/session/session.ts\<close>, the check of every
  durable payload. It walks an object graph, so its values live in a heap: an object has an address,
  two properties may share one, and a graph may be cyclic. The walk is the source's, an explicit stack
  and the set of the objects on the current path; it is shown to end on every finite graph and to
  accept exactly the values that are finite trees of JSON (\<open>serializable\<close>).
\<close>

section \<open>Object graphs\<close>

type_synonym address = nat

datatype heap_value =
    H_null
  | H_string string
  | H_boolean bool
  | H_number js_number
  | H_object address
  | H_other string                    \<comment> \<open>any other value, with its \<open>typeof\<close>\<close>

text \<open>What \<open>Object.getOwnPropertyDescriptor\<close> tells: a data property or an accessor.\<close>

datatype slot = Data heap_value | Accessor

text \<open>
  An array with its elements (\<open>None\<close> is a hole) and the number of its other own names beside
  \<open>length\<close>; an object with its enumerable own properties and the number of the others. The first
  flag says that the prototype is the standard one (or null, for an object), the second that there
  is a symbol-keyed property.
\<close>

datatype heap_object =
    Array_object bool bool "slot option list" nat
  | Plain_object bool bool "(string \<times> slot) list" nat

type_synonym heap = "address \<Rightarrow> heap_object"

section \<open>The check\<close>

datatype json_frame = F_value heap_value | F_exit address

definition invalidPayload :: "string \<Rightarrow> session_error + 'a" where
  "invalidPayload reason = Inl (SessionError SE_invalid_payload (''Durable payload '' @ reason))"

text \<open>
  The two loops that push the children, from the last to the first; the top of the stack is the head
  of the list.
\<close>

fun push_elements :: "slot option list \<Rightarrow> json_frame list \<Rightarrow> session_error + json_frame list" where
  "push_elements [] stack = Inr stack"
| "push_elements (None # es) stack = invalidPayload ''contains a sparse array''"
| "push_elements (Some Accessor # es) stack = invalidPayload ''contains an array accessor''"
| "push_elements (Some (Data v) # es) stack = push_elements es (F_value v # stack)"

fun push_properties :: "(string \<times> slot) list \<Rightarrow> json_frame list \<Rightarrow> session_error + json_frame list" where
  "push_properties [] stack = Inr stack"
| "push_properties ((k, Accessor) # ps) stack = invalidPayload ''contains an accessor''"
| "push_properties ((k, Data v) # ps) stack = push_properties ps (F_value v # stack)"

fun push_children :: "heap_object \<Rightarrow> json_frame list \<Rightarrow> session_error + json_frame list" where
  "push_children (Array_object standard symbols elements others) stack =
     (if \<not> standard then invalidPayload ''contains a non-standard array''
      else if symbols \<or> length (filter (\<lambda>e. e \<noteq> None) elements) + 1 + others \<noteq> length elements + 1
      then invalidPayload ''contains an array with unsupported properties''
      else push_elements (rev elements) stack)"
| "push_children (Plain_object plain symbols entries hidden) stack =
     (if \<not> plain then invalidPayload ''contains a non-plain object''
      else if symbols then invalidPayload ''contains a symbol-keyed property''
      else if length entries + hidden \<noteq> length entries then invalidPayload ''contains a non-enumerable property''
      else push_properties (rev entries) stack)"

fun check_value ::
  "heap \<Rightarrow> heap_value \<Rightarrow> json_frame list \<Rightarrow> address set \<Rightarrow> session_error + json_frame list \<times> address set" where
  "check_value h H_null stack active = Inr (stack, active)"
| "check_value h (H_string s) stack active = Inr (stack, active)"
| "check_value h (H_boolean b) stack active = Inr (stack, active)"
| "check_value h (H_number n) stack active =
     (if \<not> isFinite n then invalidPayload ''contains a non-finite number'' else Inr (stack, active))"
| "check_value h (H_other t) stack active = invalidPayload (''contains '' @ t)"
| "check_value h (H_object a) stack active =
     (if a \<in> active then invalidPayload ''contains a cycle''
      else andThen (push_children (h a) (F_exit a # stack)) (\<lambda>stack'.
           Inr (stack', insert a active)))"

partial_function (option) check_loop ::
  "heap \<Rightarrow> json_frame list \<Rightarrow> address set \<Rightarrow> (session_error + unit) option" where
  "check_loop h stack active =
     (case stack of
        [] \<Rightarrow> Some (Inr ())
      | F_exit a # rest \<Rightarrow> check_loop h rest (active - {a})
      | F_value v # rest \<Rightarrow>
          (case check_value h v rest active of
             Inl e \<Rightarrow> Some (Inl e)
           | Inr (stack', active') \<Rightarrow> check_loop h stack' active'))"

definition assertJsonSerializable :: "heap \<Rightarrow> heap_value \<Rightarrow> (session_error + unit) option" where
  "assertJsonSerializable h v = check_loop h [F_value v] {}"

lemma check_loop_steps [simp]:
  "check_loop h [] P = Some (Inr ())"
  "check_loop h (F_exit a # rest) P = check_loop h rest (P - {a})"
  by (simp_all add: check_loop.simps)

lemma check_loop_value:
  "check_loop h (F_value v # rest) P =
     (case check_value h v rest P of Inl e \<Rightarrow> Some (Inl e) | Inr (st, Q) \<Rightarrow> check_loop h st Q)"
  by (simp add: check_loop.simps)

section \<open>The values it is meant to accept\<close>

text \<open>The values of an object's data properties, if it has nothing but data properties.\<close>

fun children :: "heap_object \<Rightarrow> heap_value list option" where
  "children (Array_object standard symbols elements others) =
     (if standard \<and> \<not> symbols \<and> others = 0
      then those (map (\<lambda>e. case e of Some (Data v) \<Rightarrow> Some v | _ \<Rightarrow> None) elements) else None)"
| "children (Plain_object plain symbols entries hidden) =
     (if plain \<and> \<not> symbols \<and> hidden = 0
      then those (map (\<lambda>e. case snd e of Data v \<Rightarrow> Some v | _ \<Rightarrow> None) entries) else None)"

inductive serializable :: "heap \<Rightarrow> heap_value \<Rightarrow> bool" for h where
  ser_null: "serializable h H_null"
| ser_string: "serializable h (H_string s)"
| ser_boolean: "serializable h (H_boolean b)"
| ser_number: "isFinite n \<Longrightarrow> serializable h (H_number n)"
| ser_object: "children (h a) = Some vs \<Longrightarrow> (\<And>v. v \<in> set vs \<Longrightarrow> serializable h v) \<Longrightarrow> serializable h (H_object a)"

inductive_cases serializable_object: "serializable h (H_object a)"

inductive_simps serializable_simps [simp]:
  "serializable h H_null" "serializable h (H_string s)" "serializable h (H_boolean b)"
  "serializable h (H_number n)" "serializable h (H_other t)"

lemma those_Some: "those xs = Some ys \<longleftrightarrow> xs = map Some ys"
proof (induction xs arbitrary: ys)
  case (Cons x xs)
  then show ?case by (cases x; cases ys; cases "those xs") auto
qed auto

lemma ex_map_Some:
  assumes "g x = Some v"
  shows "(\<exists>vs. map g (x # xs) = map Some vs \<and> P vs) \<longleftrightarrow> (\<exists>ws. map g xs = map Some ws \<and> P (v # ws))"
proof
  assume "\<exists>vs. map g (x # xs) = map Some vs \<and> P vs"
  then obtain vs where vs: "map g (x # xs) = map Some vs" "P vs" by blast
  with assms obtain ws where "vs = v # ws" by (cases vs) auto
  with vs show "\<exists>ws. map g xs = map Some ws \<and> P (v # ws)" by auto
next
  assume "\<exists>ws. map g xs = map Some ws \<and> P (v # ws)"
  then obtain ws where "map g xs = map Some ws" "P (v # ws)" by blast
  with assms show "\<exists>vs. map g (x # xs) = map Some vs \<and> P vs" by (intro exI [of _ "v # ws"]) simp
qed

lemma ex_map_None: "g x = None \<Longrightarrow> \<not> (\<exists>vs. map g (x # xs) = map Some vs \<and> P vs)"
  by (metis list.map_disc_iff list.set_intros(1) list.simps(9) map_eq_Cons_D option.distinct(1))

lemma those_rev: "those (rev xs) = Some ys \<longleftrightarrow> those xs = Some (rev ys)"
  unfolding those_Some by (metis rev_map rev_rev_ident)

definition element_value :: "slot option \<Rightarrow> heap_value option" where
  "element_value e = (case e of Some (Data v) \<Rightarrow> Some v | _ \<Rightarrow> None)"

definition property_value :: "string \<times> slot \<Rightarrow> heap_value option" where
  "property_value p = (case snd p of Data v \<Rightarrow> Some v | _ \<Rightarrow> None)"

lemma push_elements_Inr:
  "push_elements es st = Inr st' \<longleftrightarrow> (\<exists>vs. map element_value es = map Some vs \<and> st' = rev (map F_value vs) @ st)"
proof (induction es arbitrary: st)
  case (Cons e es)
  show ?case
  proof (cases "element_value e")
    case None
    then have "push_elements (e # es) st \<noteq> Inr st'"
      by (cases e; cases "the e") (simp_all add: element_value_def invalidPayload_def)
    with ex_map_None [of element_value, OF None] show ?thesis by blast
  next
    case (Some v)
    then have "e = Some (Data v)" by (cases e; cases "the e") (simp_all add: element_value_def)
    with Cons.IH [of "F_value v # st"] show ?thesis
      unfolding ex_map_Some [of element_value, OF Some] by simp
  qed
qed auto

lemma push_properties_Inr:
  "push_properties ps st = Inr st' \<longleftrightarrow> (\<exists>vs. map property_value ps = map Some vs \<and> st' = rev (map F_value vs) @ st)"
proof (induction ps arbitrary: st)
  case (Cons p ps)
  obtain k sl where p: "p = (k, sl)" by (cases p)
  show ?case
  proof (cases sl)
    case Accessor
    then have "push_properties (p # ps) st \<noteq> Inr st'" "property_value p = None"
      using p by (simp_all add: property_value_def invalidPayload_def)
    with ex_map_None [of property_value p] show ?thesis by blast
  next
    case (Data v)
    then have v: "property_value p = Some v" using p by (simp add: property_value_def)
    with Cons.IH [of "F_value v # st"] p Data show ?thesis
      unfolding ex_map_Some [of property_value, OF v] by simp
  qed
qed auto

lemma rev_map_Some: "map f (rev xs) = map Some vs \<longleftrightarrow> map f xs = map Some (rev vs)"
  by (metis rev_map rev_rev_ident)

text \<open>A complete array has as many elements as its length says.\<close>

lemma complete_elements:
  "map element_value es = map Some vs \<Longrightarrow> length (filter (\<lambda>e. \<exists>y. e = Some y) es) = length es"
proof -
  assume a: "map element_value es = map Some vs"
  have "\<exists>y. e = Some y" if "e \<in> set es" for e
  proof -
    have "element_value e \<in> Some ` set vs" using that a by (metis image_eqI list.set_map)
    then show ?thesis by (auto simp: element_value_def split: option.splits)
  qed
  then show ?thesis by (simp add: filter_id_conv)
qed

lemma push_children_Inr:
  "push_children ob st = Inr st' \<longleftrightarrow> (\<exists>vs. children ob = Some vs \<and> st' = map F_value vs @ st)"
proof (cases ob)
  case (Array_object standard symbols elements others)
  have le: "length (filter (\<lambda>e. \<exists>y. e = Some y) elements) \<le> length elements" by simp
  have "push_children ob st = Inr st' \<longleftrightarrow> standard \<and> \<not> symbols \<and>
      length (filter (\<lambda>e. \<exists>y. e = Some y) elements) + others = length elements \<and> push_elements (rev elements) st = Inr st'"
    using Array_object by (auto simp: invalidPayload_def)
  also have "\<dots> \<longleftrightarrow> standard \<and> \<not> symbols \<and> others = 0 \<and> push_elements (rev elements) st = Inr st'"
    using complete_elements [of elements "rev _"] by (auto simp: push_elements_Inr rev_map_Some)
  also have "\<dots> \<longleftrightarrow> (\<exists>vs. children ob = Some vs \<and> st' = map F_value vs @ st)"
    using Array_object
    by (auto simp: push_elements_Inr rev_map_Some those_Some element_value_def [abs_def] rev_map
        intro: exI [of _ "rev _"])
  finally show ?thesis .
next
  case (Plain_object plain symbols entries hidden)
  have "push_children ob st = Inr st' \<longleftrightarrow> plain \<and> \<not> symbols \<and> hidden = 0 \<and> push_properties (rev entries) st = Inr st'"
    using Plain_object by (auto simp: invalidPayload_def)
  also have "\<dots> \<longleftrightarrow> (\<exists>vs. children ob = Some vs \<and> st' = map F_value vs @ st)"
    using Plain_object
    by (auto simp: push_properties_Inr rev_map_Some those_Some property_value_def [abs_def] rev_map
        intro: exI [of _ "rev _"])
  finally show ?thesis .
qed

section \<open>Accepted values are trees\<close>

lemma check_value_Inr:
  "check_value h v st P = Inr (st', Q) \<longleftrightarrow>
     (case v of H_object a \<Rightarrow> a \<notin> P \<and> Q = insert a P \<and>
          (\<exists>vs. children (h a) = Some vs \<and> st' = map F_value vs @ F_exit a # st)
      | _ \<Rightarrow> serializable h v \<and> st' = st \<and> Q = P)"
  by (cases v) (auto simp: invalidPayload_def throws push_children_Inr)

definition accepts_only_trees :: "heap \<Rightarrow> json_frame list \<Rightarrow> (session_error + unit) \<Rightarrow> bool" where
  "accepts_only_trees h stack r \<longleftrightarrow> (r = Inr () \<longrightarrow> (\<forall>v. F_value v \<in> set stack \<longrightarrow> serializable h v))"

lemma check_step_sound:
  assumes ih: "\<And>st Q. loop h st Q = Some r \<Longrightarrow> accepts_only_trees h st r"
    and body: "(case stack of [] \<Rightarrow> Some (Inr ()) | F_exit a # rest \<Rightarrow> loop h rest (P - {a})
      | F_value v # rest \<Rightarrow> (case check_value h v rest P of Inl e \<Rightarrow> Some (Inl e)
          | Inr (stack', active') \<Rightarrow> loop h stack' active')) = Some r"
  shows "accepts_only_trees h stack r"
proof (cases stack)
  case (Cons f rest)
  show ?thesis
  proof (cases f)
    case (F_exit a)
    with ih [of rest "P - {a}"] body Cons show ?thesis by (simp add: accepts_only_trees_def)
  next
    case (F_value w)
    show ?thesis
    proof (cases "check_value h w rest P")
      case (Inl e)
      with body Cons F_value show ?thesis by (auto simp: accepts_only_trees_def)
    next
      case (Inr x)
      then obtain st Q where c: "check_value h w rest P = Inr (st, Q)" by (cases x) simp
      with ih [of st Q] body Cons F_value have st: "accepts_only_trees h st r" by simp
      show ?thesis
      proof (cases w)
        case (H_object a)
        with c [unfolded check_value_Inr] obtain vs where "children (h a) = Some vs"
          and "st = map F_value vs @ F_exit a # rest" by auto
        with st Cons F_value H_object show ?thesis
          by (auto simp: accepts_only_trees_def intro!: ser_object)
      qed (use c [unfolded check_value_Inr] st Cons F_value in \<open>auto simp: accepts_only_trees_def\<close>)
    qed
  qed
qed (simp add: accepts_only_trees_def)

lemma check_loop_sound:
  assumes "check_loop h stack P = Some r"
  shows "accepts_only_trees h stack r"
  by (rule check_loop.raw_induct [OF _ assms]) (blast intro: check_step_sound)

section \<open>Trees are accepted\<close>

definition child :: "heap \<Rightarrow> (heap_value \<times> heap_value) set" where
  "child h = {(w, H_object a) | w a vs. children (h a) = Some vs \<and> w \<in> set vs}"

lemma serializable_acc: "serializable h v \<Longrightarrow> v \<in> Wellfounded.acc (child h)"
proof (induction rule: serializable.induct)
  case (ser_object a vs)
  then show ?case by (auto simp: child_def intro: accI)
qed (auto simp: child_def intro: accI)

lemma acc_no_cycle: "v \<in> Wellfounded.acc r \<Longrightarrow> (v, v) \<notin> r\<^sup>+"
proof (induction rule: acc.induct)
  case (accI x)
  show ?case
  proof
    assume "(x, x) \<in> r\<^sup>+"
    then obtain y where "(x, y) \<in> r\<^sup>*" "(y, x) \<in> r" by (meson tranclD2)
    then have "(y, y) \<in> r\<^sup>+" by (meson rtrancl_into_trancl2)
    with accI.IH \<open>(y, x) \<in> r\<close> show False by blast
  qed
qed

text \<open>Nothing on the path \<open>P\<close> is below \<open>v\<close>.\<close>

definition off_path :: "heap \<Rightarrow> address set \<Rightarrow> heap_value \<Rightarrow> bool" where
  "off_path h P v \<longleftrightarrow> (\<forall>a \<in> P. (H_object a, v) \<notin> (child h)\<^sup>*)"

lemma off_path_child:
  assumes "H_object a \<in> Wellfounded.acc (child h)" and "off_path h P (H_object a)"
    and "children (h a) = Some vs" and "w \<in> set vs"
  shows "off_path h (insert a P) w"
proof -
  have w: "(w, H_object a) \<in> child h" using assms(3,4) by (auto simp: child_def)
  have "(H_object a, w) \<notin> (child h)\<^sup>*"
    using acc_no_cycle [OF assms(1)] w by (meson rtrancl_into_trancl1)
  moreover have "(H_object b, w) \<notin> (child h)\<^sup>*" if "b \<in> P" for b
    using assms(2) w that by (meson off_path_def rtrancl.rtrancl_into_rtrancl)
  ultimately show ?thesis by (auto simp: off_path_def)
qed

lemma check_loop_list:
  assumes "\<And>w st. w \<in> set vs \<Longrightarrow> check_loop h (F_value w # st) P = check_loop h st P"
  shows "check_loop h (map F_value vs @ st) P = check_loop h st P"
  using assms by (induction vs) simp_all

lemma check_loop_tree:
  "serializable h v \<Longrightarrow> off_path h P v \<Longrightarrow> check_loop h (F_value v # st) P = check_loop h st P"
proof (induction arbitrary: P st rule: serializable.induct)
  case (ser_object a vs)
  have s: "H_object a \<in> Wellfounded.acc (child h)"
    using ser_object.hyps by (blast intro: serializable_acc serializable.ser_object)
  have a: "a \<notin> P" using ser_object.prems by (auto simp: off_path_def)
  then have "check_value h (H_object a) st P = Inr (map F_value vs @ F_exit a # st, insert a P)"
    unfolding check_value_Inr using ser_object.hyps(1) by simp
  moreover have "check_loop h (map F_value vs @ F_exit a # st) (insert a P) = check_loop h (F_exit a # st) (insert a P)"
    using ser_object.IH off_path_child [OF s ser_object.prems ser_object.hyps(1)] by (intro check_loop_list) blast
  ultimately show ?case using a by (simp add: check_loop_value insert_Diff_if)
qed (simp_all add: check_loop_value)

section \<open>The walk ends\<close>

definition closed :: "heap \<Rightarrow> address set \<Rightarrow> bool" where
  "closed h A \<longleftrightarrow> (\<forall>a \<in> A. \<forall>vs. children (h a) = Some vs \<longrightarrow> (\<forall>b. H_object b \<in> set vs \<longrightarrow> b \<in> A))"

definition goes_on :: "heap \<Rightarrow> heap_value \<Rightarrow> address set \<Rightarrow> json_frame list \<Rightarrow> bool" where
  "goes_on h v P st \<longleftrightarrow> (\<exists>e. check_loop h (F_value v # st) P = Some (Inl e) \<and> code e = SE_invalid_payload) \<or>
     check_loop h (F_value v # st) P = check_loop h st P"

lemma goes_on_list:
  assumes "\<And>w st. w \<in> set vs \<Longrightarrow> goes_on h w P st"
  shows "(\<exists>e. check_loop h (map F_value vs @ st) P = Some (Inl e) \<and> code e = SE_invalid_payload) \<or>
    check_loop h (map F_value vs @ st) P = check_loop h st P"
  using assms
proof (induction vs)
  case (Cons v vs)
  have "goes_on h v P (map F_value vs @ st)" using Cons.prems by simp
  moreover have "(\<exists>e. check_loop h (map F_value vs @ st) P = Some (Inl e) \<and> code e = SE_invalid_payload) \<or>
      check_loop h (map F_value vs @ st) P = check_loop h st P"
    using Cons.IH Cons.prems by simp
  ultimately show ?case by (auto simp: goes_on_def)
qed simp

lemma push_elements_error: "push_elements es st = Inl e \<Longrightarrow> code e = SE_invalid_payload"
  by (induction es st rule: push_elements.induct) (auto simp: invalidPayload_def)

lemma push_properties_error: "push_properties ps st = Inl e \<Longrightarrow> code e = SE_invalid_payload"
  by (induction ps st rule: push_properties.induct) (auto simp: invalidPayload_def)

lemma check_value_error: "check_value h v st P = Inl e \<Longrightarrow> code e = SE_invalid_payload"
  by (cases v; cases "h (the (case v of H_object a \<Rightarrow> Some a | _ \<Rightarrow> None))")
    (auto simp: invalidPayload_def throws push_elements_error push_properties_error split: if_splits)

lemma walk_ends:
  assumes "finite A" and "closed h A"
  shows "(\<forall>a. v = H_object a \<longrightarrow> a \<in> A) \<Longrightarrow> goes_on h v P st"
proof (induction "card (A - P)" arbitrary: P v st rule: less_induct)
  case (less P v st)
  show ?case
  proof (cases "check_value h v st P")
    case (Inl e)
    then show ?thesis using check_value_error [OF Inl] by (simp add: goes_on_def check_loop_value)
  next
    case (Inr x)
    then obtain st' Q where c: "check_value h v st P = Inr (st', Q)" by (cases x) simp
    show ?thesis
    proof (cases v)
      case (H_object a)
      with c [unfolded check_value_Inr] obtain vs where a: "a \<notin> P" "Q = insert a P"
        and vs: "children (h a) = Some vs" and st': "st' = map F_value vs @ F_exit a # st" by auto
      have "a \<in> A" using less.prems H_object by simp
      then have "A - Q \<subset> A - P" using a by blast
      then have lt: "card (A - Q) < card (A - P)" using assms(1) by (simp add: psubset_card_mono)
      have "goes_on h w Q st" if "w \<in> set vs" for w st
        using less.hyps [OF lt, of w st] assms(2) that vs \<open>a \<in> A\<close> by (auto simp: closed_def)
      from goes_on_list [OF this, of vs "F_exit a # st"] show ?thesis
        using a by (auto simp: goes_on_def check_loop_value c st' insert_Diff_if)
    qed (use c [unfolded check_value_Inr] c in \<open>auto simp: goes_on_def check_loop_value\<close>)
  qed
qed

theorem assert_decides:
  assumes "finite A" and "closed h A" and "\<forall>a. v = H_object a \<longrightarrow> a \<in> A"
  shows "\<exists>r. assertJsonSerializable h v = Some r \<and> (r = Inr () \<longleftrightarrow> serializable h v) \<and>
    (\<forall>e. r = Inl e \<longrightarrow> code e = SE_invalid_payload)"
proof -
  have "off_path h {} v" by (simp add: off_path_def)
  then have tree: "assertJsonSerializable h v = Some (Inr ())" if "serializable h v"
    using check_loop_tree [OF that, of "{}" "[]"] by (simp add: assertJsonSerializable_def)
  from walk_ends [OF assms, of "{}" "[]"] obtain r where r: "check_loop h [F_value v] {} = Some r"
    "\<forall>e. r = Inl e \<longrightarrow> code e = SE_invalid_payload" by (auto simp: goes_on_def)
  with check_loop_sound [OF r(1)] tree show ?thesis
    by (auto simp: assertJsonSerializable_def accepts_only_trees_def)
qed

end
