(* ===== verification/Session_Facade.thy ===== *)
theory Session_Facade
  imports Json_Check Session_Memory
begin

text \<open>
  \<open>Session\<close> of \<open>packages/agent/src/harness/session/session.ts\<close>, the facade that callers use, over any
  session storage. The storage is a record of the operations the facade calls, those of the interface
  \<open>SessionStorage\<close>; its state is \<open>'s\<close>. The clock that a storage reads and the ids that the generator
  makes are arguments.

  The payloads of the typed model are trees, so the facade's check of a payload is \<open>assert_tree\<close>,
  which \<open>assert_represents\<close> shows to be \<open>assertJsonSerializable\<close> on every heap that holds the tree.
  \<open>object_of_entry\<close> and \<open>object_of_record\<close> are the objects that the caller passes.
\<close>

section \<open>The check of a tree\<close>

fun json_finite :: "json \<Rightarrow> bool" where
  "json_finite (JNumber n) = isFinite n"
| "json_finite (JArray js) = list_all json_finite js"
| "json_finite (JObject ps) = list_all (\<lambda>p. json_finite (snd p)) ps"
| "json_finite _ = True"

definition assert_tree :: "json \<Rightarrow> session_error + unit" where
  "assert_tree j = (if json_finite j then Inr () else invalidPayload ''contains a non-finite number'')"

inductive represents :: "heap \<Rightarrow> heap_value \<Rightarrow> json \<Rightarrow> bool" for h where
  rep_null: "represents h H_null JNull"
| rep_boolean: "represents h (H_boolean b) (JBool b)"
| rep_number: "represents h (H_number n) (JNumber n)"
| rep_string: "represents h (H_string s) (JString s)"
| rep_array: "h a = Array_object True False (map (\<lambda>v. Some (Data v)) vs) 0 \<Longrightarrow> list_all2 (represents h) vs js \<Longrightarrow>
    represents h (H_object a) (JArray js)"
| rep_object: "h a = Plain_object True False (map (\<lambda>(k, v). (k, Data v)) ps) 0 \<Longrightarrow>
    list_all2 (\<lambda>p q. fst p = fst q \<and> represents h (snd p) (snd q)) ps qs \<Longrightarrow>
    represents h (H_object a) (JObject qs)"

lemma children_array: "children (Array_object True False (map (\<lambda>v. Some (Data v)) vs) 0) = Some vs"
  by (simp add: those_Some comp_def)

lemma children_object: "children (Plain_object True False (map (\<lambda>(k, v). (k, Data v)) ps) 0) = Some (map snd ps)"
  by (simp add: those_Some comp_def case_prod_beta)

lemma acc_object:
  assumes "children (h a) = Some vs" and "\<And>i. i < length vs \<Longrightarrow> vs ! i \<in> Wellfounded.acc (child h)"
  shows "H_object a \<in> Wellfounded.acc (child h)"
proof (rule accI)
  fix w assume "(w, H_object a) \<in> child h"
  then have "w \<in> set vs" using assms(1) by (simp add: child_def)
  then show "w \<in> Wellfounded.acc (child h)" using assms(2) by (metis in_set_conv_nth)
qed

lemma represents_acc: "represents h v j \<Longrightarrow> v \<in> Wellfounded.acc (child h)"
proof (induction rule: represents.induct)
  case (rep_array a vs js)
  then have "children (h a) = Some vs" using children_array by simp
  then show ?case by (rule acc_object) (use rep_array.IH in \<open>simp add: list_all2_conv_all_nth\<close>)
next
  case (rep_object a ps qs)
  then have "children (h a) = Some (map snd ps)" using children_object by simp
  then show ?case by (rule acc_object) (use rep_object.IH in \<open>simp add: list_all2_conv_all_nth\<close>)
qed (auto simp: child_def intro: accI)

text \<open>The walk over a represented value passes it, or reports the number that is not finite.\<close>

abbreviation number_error :: session_error where
  "number_error \<equiv> SessionError SE_invalid_payload ''Durable payload contains a non-finite number''"

lemma walk_list:
  assumes "list_all2 (\<lambda>v j. \<forall>st. check_loop h (F_value v # st) P = (if fine j then check_loop h st P else x)) vs js"
  shows "check_loop h (map F_value vs @ st) P = (if list_all fine js then check_loop h st P else x)"
  using assms by (induction rule: list_all2_induct) auto

lemma walk_object:
  assumes "off_path h P (H_object a)" and "children (h a) = Some vs"
    and "check_loop h (map F_value vs @ F_exit a # st) (insert a P) =
      (if c then check_loop h (F_exit a # st) (insert a P) else Some (Inl e))"
  shows "check_loop h (F_value (H_object a) # st) P = (if c then check_loop h st P else Some (Inl e))"
proof -
  have a: "a \<notin> P" using assms(1) by (auto simp: off_path_def)
  then have "check_value h (H_object a) st P = Inr (map F_value vs @ F_exit a # st, insert a P)"
    unfolding check_value_Inr using assms(2) by simp
  then show ?thesis using assms(3) a by (simp add: check_loop_value insert_Diff_if)
qed

lemma walk_represented:
  "represents h v j \<Longrightarrow> off_path h P v \<Longrightarrow>
     check_loop h (F_value v # st) P = (if json_finite j then check_loop h st P else Some (Inl number_error))"
proof (induction arbitrary: P st rule: represents.induct)
  case (rep_array a vs js)
  have ch: "children (h a) = Some vs" using rep_array.hyps children_array by simp
  have acc: "H_object a \<in> Wellfounded.acc (child h)"
    using rep_array.hyps rep_array.IH
    by (intro represents_acc [OF represents.rep_array [of h a vs js]]) (auto simp: list_all2_conv_all_nth)
  have "off_path h (insert a P) w" if "w \<in> set vs" for w
    using off_path_child [OF acc rep_array.prems ch that] .
  with rep_array.IH
  have "list_all2 (\<lambda>v j. \<forall>st. check_loop h (F_value v # st) (insert a P) =
      (if json_finite j then check_loop h st (insert a P) else Some (Inl number_error))) vs js"
    by (auto simp: list_all2_conv_all_nth)
  from walk_list [OF this] show ?case by (intro walk_object [OF rep_array.prems ch]) simp
next
  case (rep_object a ps qs)
  have ch: "children (h a) = Some (map snd ps)" using rep_object.hyps children_object by simp
  have acc: "H_object a \<in> Wellfounded.acc (child h)"
    using rep_object.hyps rep_object.IH
    by (intro represents_acc [OF represents.rep_object [of h a ps qs]]) (auto simp: list_all2_conv_all_nth)
  have "off_path h (insert a P) w" if "w \<in> set (map snd ps)" for w
    using off_path_child [OF acc rep_object.prems ch that] .
  with rep_object.IH
  have "list_all2 (\<lambda>v j. \<forall>st. check_loop h (F_value v # st) (insert a P) =
      (if json_finite j then check_loop h st (insert a P) else Some (Inl number_error))) (map snd ps) (map snd qs)"
    by (auto simp: list_all2_conv_all_nth)
  from walk_list [OF this] show ?case
    by (intro walk_object [OF rep_object.prems ch]) (simp add: list.pred_map comp_def)
qed (simp_all add: check_loop_value invalidPayload_def)

lemma assert_represents: "represents h v j \<Longrightarrow> assertJsonSerializable h v = Some (assert_tree j)"
  using walk_represented [of h v j "{}" "[]"]
  by (simp add: assertJsonSerializable_def off_path_def assert_tree_def invalidPayload_def)

section \<open>The storage interface\<close>

record 's storage_api =
  sa_getLanes :: "'s \<Rightarrow> (string \<times> string option) list"
  sa_getEntry :: "'s \<Rightarrow> string \<Rightarrow> entry option"
  sa_findEntries :: "'s \<Rightarrow> entry_query \<Rightarrow> session_error + entry list"
  sa_findEntriesOnBranch :: "'s \<Rightarrow> entry_query \<Rightarrow> branch_bounds \<Rightarrow> string \<Rightarrow> session_error + entry list"
  sa_findRecords :: "'s \<Rightarrow> record_query \<Rightarrow> session_error + lane_record list"
  sa_findOpenOperations :: "'s \<Rightarrow> string \<Rightarrow> js_number option \<Rightarrow> session_error + operation_started list"
  sa_getLog :: "'s \<Rightarrow> log_options \<Rightarrow> session_error + log_item list"
  sa_appendEntry :: "int \<Rightarrow> 's \<Rightarrow> provisioned_entry \<Rightarrow> string \<Rightarrow> (session_error + entry) \<times> 's"
  sa_appendRecord :: "int \<Rightarrow> 's \<Rightarrow> new_record \<Rightarrow> (session_error + lane_record) \<times> 's"

section \<open>Queries\<close>

definition getLeafIdForLane :: "'s storage_api \<Rightarrow> 's \<Rightarrow> string \<Rightarrow> session_error + string option" where
  "getLeafIdForLane api s lane =
     (case find (\<lambda>p. fst p = lane) (sa_getLanes api s) of
        None \<Rightarrow> Inl (SessionError SE_invalid_lane (''Lane not found: '' @ lane))
      | Some pointer \<Rightarrow> Inr (snd pointer))"

definition queryEntries ::
  "'s storage_api \<Rightarrow> 's \<Rightarrow> entry_query \<Rightarrow> js_number option \<Rightarrow> session_error + entry list" where
  "queryEntries api s q resultLimit =
     andThen (assertValidLimit (eq_limit q)) (\<lambda>_.
     andThen (assertValidCursor (eq_afterSeq q)) (\<lambda>_.
     sa_findEntries api s (if resultLimit = eq_limit q then q else q\<lparr>eq_limit := resultLimit\<rparr>)))"

definition queryBranchEntries ::
  "'s storage_api \<Rightarrow> 's \<Rightarrow> string \<Rightarrow> entry_query \<Rightarrow> branch_bounds \<Rightarrow> js_number option \<Rightarrow>
   session_error + entry list" where
  "queryBranchEntries api s defaultLane q b resultLimit =
     andThen (assertValidLimit (eq_limit q)) (\<lambda>_.
     andThen (assertValidCursor (eq_afterSeq q)) (\<lambda>_.
     andThen (case bb_start b of Some i \<Rightarrow> Inr (Some i) | None \<Rightarrow> getLeafIdForLane api s defaultLane) (\<lambda>start.
     case start of
       None \<Rightarrow> Inr []
     | Some i \<Rightarrow>
         sa_findEntriesOnBranch api s (if resultLimit = eq_limit q then q else q\<lparr>eq_limit := resultLimit\<rparr>) b i)))"

text \<open>\<open>(await query)[0]\<close>.\<close>

definition first_of :: "session_error + 'a list \<Rightarrow> session_error + 'a option" where
  "first_of r = andThen r (\<lambda>xs. Inr (array_get xs 0))"

definition session_findEntries :: "'s storage_api \<Rightarrow> 's \<Rightarrow> entry_query \<Rightarrow> session_error + entry list" where
  "session_findEntries api s q = queryEntries api s q (eq_limit q)"

definition session_findEntry :: "'s storage_api \<Rightarrow> 's \<Rightarrow> entry_query \<Rightarrow> session_error + entry option" where
  "session_findEntry api s q = first_of (queryEntries api s q (Some (JInt 1)))"

definition session_findEntriesOnBranch ::
  "'s storage_api \<Rightarrow> 's \<Rightarrow> string \<Rightarrow> entry_query \<Rightarrow> branch_bounds \<Rightarrow> session_error + entry list" where
  "session_findEntriesOnBranch api s lane q b = queryBranchEntries api s lane q b (eq_limit q)"

definition session_findEntryOnBranch ::
  "'s storage_api \<Rightarrow> 's \<Rightarrow> string \<Rightarrow> entry_query \<Rightarrow> branch_bounds \<Rightarrow> session_error + entry option" where
  "session_findEntryOnBranch api s lane q b = first_of (queryBranchEntries api s lane q b (Some (JInt 1)))"

definition queryRecords :: "'s storage_api \<Rightarrow> 's \<Rightarrow> record_query \<Rightarrow> session_error + lane_record list" where
  "queryRecords api s q =
     andThen (assertValidLimit (rq_limit q)) (\<lambda>_.
     andThen (assertValidCursor (rq_afterSeq q)) (\<lambda>_.
     andThen (require (rq_operationKind q = None \<or> rq_type q = Some RT_operation_started)
                (SessionError SE_invalid_query ''operationKind requires type \"operation_started\"'')) (\<lambda>_.
     sa_findRecords api s q)))"

definition session_findOpenOperations ::
  "'s storage_api \<Rightarrow> 's \<Rightarrow> string \<Rightarrow> js_number option \<Rightarrow> session_error + operation_started list" where
  "session_findOpenOperations api s lane limit =
     andThen (assertValidLimit limit) (\<lambda>_. sa_findOpenOperations api s lane limit)"

definition queryLog :: "'s storage_api \<Rightarrow> 's \<Rightarrow> log_options \<Rightarrow> session_error + log_item list" where
  "queryLog api s opts =
     andThen (assertValidLimit (lo_limit opts)) (\<lambda>_.
     andThen (assertValidCursor (lo_afterSeq opts)) (\<lambda>_.
     sa_getLog api s opts))"

section \<open>Appends\<close>

definition commitEntry ::
  "'s storage_api \<Rightarrow> (provisioned_entry \<Rightarrow> json) \<Rightarrow> int \<Rightarrow> 's \<Rightarrow> provisioned_entry \<Rightarrow> string \<Rightarrow>
   (session_error + entry) \<times> 's" where
  "commitEntry api object_of_entry now s e lane =
     (case assert_tree (object_of_entry e) of
        Inl err \<Rightarrow> (Inl err, s)
      | Inr _ \<Rightarrow> sa_appendEntry api now s e lane)"

definition commitRecord ::
  "'s storage_api \<Rightarrow> (new_record \<Rightarrow> json) \<Rightarrow> int \<Rightarrow> 's \<Rightarrow> new_record \<Rightarrow> (session_error + lane_record) \<times> 's" where
  "commitRecord api object_of_record now s r =
     (case assert_tree (object_of_record r) of
        Inl err \<Rightarrow> (Inl err, s)
      | Inr _ \<Rightarrow> sa_appendRecord api now s r)"

definition entry_id_of :: "(session_error + entry) \<times> 's \<Rightarrow> (session_error + string) \<times> 's" where
  "entry_id_of res = (map_sum id ent_id (fst res), snd res)"

definition appendMessageToLane ::
  "'s storage_api \<Rightarrow> (provisioned_entry \<Rightarrow> json) \<Rightarrow> int \<Rightarrow> string \<Rightarrow> 's \<Rightarrow> string \<Rightarrow> agent_message \<Rightarrow>
   (session_error + string) \<times> 's" where
  "appendMessageToLane api object_of_entry now fresh s lane msg =
     entry_id_of (commitEntry api object_of_entry now s \<lparr>ent_id = fresh, ent_data = E_message msg False\<rparr> lane)"

definition appendCustomEntryToLane ::
  "'s storage_api \<Rightarrow> (provisioned_entry \<Rightarrow> json) \<Rightarrow> int \<Rightarrow> string \<Rightarrow> 's \<Rightarrow> string \<Rightarrow> string \<Rightarrow> json option \<Rightarrow>
   (session_error + string) \<times> 's" where
  "appendCustomEntryToLane api object_of_entry now fresh s lane customType data =
     entry_id_of (commitEntry api object_of_entry now s \<lparr>ent_id = fresh, ent_data = E_custom customType data\<rparr> lane)"

section \<open>What the facade relies on\<close>

text \<open>
  The contract of a storage behind the facade: its queries are those of the session state, and an
  append either throws and leaves the state alone or applies the entry mutation it returns.
\<close>

lemma matches_any_limit: "matchesEntryQuery (q\<lparr>eq_limit := l\<rparr>) = matchesEntryQuery q"
  by (auto simp: matchesEntryQuery_def fun_eq_iff split: option.splits)

lemma first_limited:
  assumes "valid_limit l"
  shows "array_get (limited (Some (JInt 1)) xs) 0 = array_get (limited l xs) 0"
proof (cases l)
  case (Some n)
  then have "0 < nat (intValue n)" using assms by (simp add: valid_limit_def)
  then show ?thesis using Some by (cases xs) (auto simp: limited_def array_get_def take_Cons')
qed (cases xs; simp add: limited_def array_get_def)

lemma find_map_of: "map_of ls k = map_option snd (find (\<lambda>p. fst p = k) ls)"
  by (induction ls) auto

text \<open>The default query \<open>{}\<close>.\<close>

definition any_query :: entry_query where
  "any_query = \<lparr>eq_type = None, eq_customType = None, eq_order = None, eq_limit = None, eq_afterSeq = None\<rparr>"

lemma leaf_entry_first:
  assumes wf: "wf_state s" and e: "e \<in> set (entries s)"
  shows "findEntriesOnBranch s (any_query\<lparr>eq_limit := Some (JInt 1)\<rparr>) no_bounds (ent_id e) = Inr [e]"
proof -
  obtain path where path: "is_branch s (ent_id e) path"
    and walk: "\<And>stop. walkToRoot s (Some (ent_id e)) stop = (take_until stop path, None)"
    using walkToRoot_branch [OF wf, of "ent_id e"] e by blast
  then have p: "path \<noteq> []" "ent_id (hd path) = ent_id e" "set path \<subseteq> set (entries s)"
    using parent_chain_not_Nil by (auto simp: is_branch_def)
  then have "hd path \<in> set (entries s)" by auto
  moreover have "inj_on ent_id (set (entries s))"
    using wf by (simp add: wf_state_def wf_ids_def distinct_map)
  ultimately have "hd path = e" using p e by (auto dest: inj_onD)
  then have "path = e # tl path" using p by (cases path) auto
  moreover have "matchesEntryQuery (any_query\<lparr>eq_limit := l\<rparr>) = (\<lambda>_. True)" for l
    by (simp add: matchesEntryQuery_def any_query_def fun_eq_iff)
  ultimately show ?thesis
    using findEntriesOnBranch_eq [OF wf _ _ path walk, of "any_query\<lparr>eq_limit := Some (JInt 1)\<rparr>" no_bounds]
    by (cases path) (auto simp: valid_limit_def valid_cursor_def limited_def any_query_def
        no_bounds_def bound_reached_def)
qed

lemma entry_added:
  "applyMutation s (MU_entry (Some lane) e) = Inr t \<Longrightarrow>
     entries t = entries s @ [e] \<and> map_of (lanes t) = (map_of (lanes s))(lane \<mapsto> Some (ent_id e))"
  by (auto simp: applyMutation_def apply_entry_def throws)

locale facade_storage =
  fixes api :: "'s storage_api" and state_of :: "'s \<Rightarrow> session_state"
  assumes lanes_law: "sa_getLanes api s = getLanes (state_of s)"
    and entry_law: "sa_getEntry api s i = getEntry (state_of s) i"
    and entries_law: "sa_findEntries api s q = findEntries (state_of s) q"
    and branch_law: "sa_findEntriesOnBranch api s q b i = findEntriesOnBranch (state_of s) q b i"
    and append_failed: "sa_appendEntry api now s e lane = (Inl err, t) \<Longrightarrow> state_of t = state_of s"
    and append_done: "sa_appendEntry api now s e lane = (Inr x, t) \<Longrightarrow>
      \<exists>leaf. x = stored_entry e leaf (nextSequence (state_of s)) now \<and>
        applyMutation (state_of s) (MU_entry (Some lane) x) = Inr (state_of t)"
begin

text \<open>Asking for one entry is asking for all of them and taking the first.\<close>

lemma find_entry_first:
  "session_findEntry api s q = first_of (session_findEntries api s q)"
proof (cases "valid_limit (eq_limit q) \<and> valid_cursor (eq_afterSeq q)")
  case True
  let ?es = "filter (matchesEntryQuery q) (ordered (entries (state_of s)) (eq_order q))"
  have one: "findEntries (state_of s) (q\<lparr>eq_limit := Some (JInt 1)\<rparr>) = Inr (limited (Some (JInt 1)) ?es)"
    and all: "findEntries (state_of s) q = Inr (limited (eq_limit q) ?es)"
    using True by (simp_all add: findEntries_eq matches_any_limit valid_limit_Some)
  have "array_get (limited (Some (JInt 1)) ?es) 0 = array_get (limited (eq_limit q) ?es) 0"
    using True by (intro first_limited) simp
  then show ?thesis
    using one all True
    by (cases "eq_limit q = Some (JInt 1)")
      (auto simp: session_findEntry_def session_findEntries_def queryEntries_def first_of_def entries_law
        throws assertValidLimit_Inr [of _ "()", THEN iffD2] assertValidCursor_Inr [of _ "()", THEN iffD2])
next
  case False
  then have "assertValidLimit (eq_limit q) \<noteq> Inr () \<or> assertValidCursor (eq_afterSeq q) \<noteq> Inr ()"
    by (simp add: assertValidLimit_Inr assertValidCursor_Inr)
  then show ?thesis
    by (cases "assertValidLimit (eq_limit q)"; cases "assertValidCursor (eq_afterSeq q)")
      (auto simp: session_findEntry_def session_findEntries_def queryEntries_def first_of_def)
qed

text \<open>
  What a lane's view appended last is what it finds first: a committed entry is the answer of
  \<open>findEntryOnBranch()\<close> on its lane.
\<close>

lemma committed_entry_found:
  assumes wf: "wf_state (state_of s)" and run: "commitEntry api object_of_entry now s e lane = (Inr x, t)"
  shows "session_findEntryOnBranch api t lane any_query no_bounds = Inr (Some x)"
proof -
  have "sa_appendEntry api now s e lane = (Inr x, t)"
    using run by (auto simp: commitEntry_def split: sum.splits)
  from append_done [OF this] have mu: "applyMutation (state_of s) (MU_entry (Some lane) x) = Inr (state_of t)"
    by blast
  note added = entry_added [OF mu]
  then have x: "x \<in> set (entries (state_of t))"
    and leaf: "map_of (lanes (state_of t)) lane = Some (Some (ent_id x))" by simp_all
  have "getLeafIdForLane api t lane = Inr (Some (ent_id x))"
    using leaf by (auto simp: getLeafIdForLane_def lanes_law getLanes_def find_map_of)
  moreover have "findEntriesOnBranch (state_of t) (any_query\<lparr>eq_limit := Some (JInt 1)\<rparr>) no_bounds (ent_id x) = Inr [x]"
    using leaf_entry_first [OF applyMutation_wf [OF wf mu] x] .
  ultimately show ?thesis
    by (simp add: session_findEntryOnBranch_def queryBranchEntries_def first_of_def branch_law array_get_def
        any_query_def no_bounds_def assertValidLimit_def assertValidCursor_def)
qed

text \<open>A payload that is not JSON never reaches the storage.\<close>

lemma rejected_payload:
  assumes "\<not> json_finite (object_of_entry e)"
  shows "commitEntry api object_of_entry now s e lane = (Inl number_error, s)"
  using assms by (simp add: commitEntry_def assert_tree_def invalidPayload_def)

end

section \<open>The storages behind it\<close>

definition settle :: "'s \<Rightarrow> session_error + 's \<times> 'a \<Rightarrow> (session_error + 'a) \<times> 's" where
  "settle s r = (case r of Inl e \<Rightarrow> (Inl e, s) | Inr (t, x) \<Rightarrow> (Inr x, t))"

definition memory_api :: "memory_storage storage_api" where
  "memory_api =
     \<lparr>sa_getLanes = getLanes \<circ> ms_state, sa_getEntry = getEntry \<circ> ms_state,
      sa_findEntries = findEntries \<circ> ms_state, sa_findEntriesOnBranch = findEntriesOnBranch \<circ> ms_state,
      sa_findRecords = findRecords \<circ> ms_state, sa_findOpenOperations = findOpenOperations \<circ> ms_state,
      sa_getLog = getLog \<circ> ms_state,
      sa_appendEntry = (\<lambda>now s e lane. settle s (appendEntry now s e lane)),
      sa_appendRecord = (\<lambda>now s r. settle s (appendRecord now s r))\<rparr>"

interpretation memory_facade: facade_storage memory_api ms_state
proof unfold_locales
  fix now s e lane x t
  assume "sa_appendEntry memory_api now s e lane = (Inr x, t)"
  then have "appendEntry now s e lane = Inr (t, x)"
    by (auto simp: memory_api_def settle_def split: sum.splits)
  then show "\<exists>leaf. x = stored_entry e leaf (nextSequence (ms_state s)) now \<and>
      applyMutation (ms_state s) (MU_entry (Some lane) x) = Inr (ms_state t)"
    by (auto simp: appendEntry_def throws Let_def)
qed (auto simp: memory_api_def settle_def split: sum.splits)

end
