(* ===== verification/Branch_Entries.thy ===== *)
theory Branch_Entries
  imports Session_Facade
begin

text \<open>
  \<open>collectEntriesForBranchSummary\<close> of \<open>packages/agent/src/harness/compaction/branch-summarization.ts\<close>:
  the entries that navigating from one leaf of a session to another entry leaves behind. It asks a
  session, so it is stated over any storage behind the facade. The loop to the parents may not end when
  a storage answers with a cycle; not ending is the value \<open>None\<close>.
\<close>

section \<open>Definitions\<close>

record collect_result =
  cl_entries :: "entry list"
  cl_commonAncestorId :: "string option"

partial_function (option) collect_back ::
  "(string \<Rightarrow> entry option) \<Rightarrow> string option \<Rightarrow> string option \<Rightarrow> entry list \<Rightarrow>
   (session_error + entry list) option" where
  "collect_back get commonAncestorId current collected =
     (case current of
        None \<Rightarrow> Some (Inr collected)
      | Some i \<Rightarrow>
          if i = [] \<or> commonAncestorId = Some i then Some (Inr collected)
          else (case get i of
                  None \<Rightarrow> Some (Inl (SessionError SE_invalid_entry (''Entry '' @ i @ '' not found'')))
                | Some e \<Rightarrow> collect_back get commonAncestorId (ent_parentId e) (collected @ [e])))"

declare collect_back.simps [code]

definition from_entry :: "string \<Rightarrow> branch_bounds" where
  "from_entry i = \<lparr>bb_start = Some i, bb_stopAtType = None, bb_stopAtId = None\<rparr>"

definition collectEntriesForBranchSummary ::
  "'s storage_api \<Rightarrow> 's \<Rightarrow> string \<Rightarrow> string option \<Rightarrow> string \<Rightarrow> (session_error + collect_result) option" where
  "collectEntriesForBranchSummary api s lane oldLeafId targetId =
     (case oldLeafId of
        None \<Rightarrow> Some (Inr \<lparr>cl_entries = [], cl_commonAncestorId = None\<rparr>)
      | Some oldLeaf \<Rightarrow>
          if oldLeaf = [] then Some (Inr \<lparr>cl_entries = [], cl_commonAncestorId = None\<rparr>)
          else case session_findEntriesOnBranch api s lane any_query (from_entry oldLeaf) of
              Inl e \<Rightarrow> Some (Inl e)
            | Inr oldPath \<Rightarrow>
                (case session_findEntriesOnBranch api s lane any_query (from_entry targetId) of
                   Inl e \<Rightarrow> Some (Inl e)
                 | Inr targetPath \<Rightarrow>
                     let common = map_option ent_id
                           (find (\<lambda>e. ent_id e \<in> ent_id ` set oldPath) targetPath)
                     in map_option (map_sum id (\<lambda>es. \<lparr>cl_entries = rev es, cl_commonAncestorId = common\<rparr>))
                          (collect_back (sa_getEntry api s) common (Some oldLeaf) [])))"

section \<open>Lemmas\<close>

lemma collect_chain:
  assumes "parent_chain path" and "\<forall>e \<in> set path. get (ent_id e) = Some e \<and> ent_id e \<noteq> []"
  shows "collect_back get common (Some (ent_id (hd path))) acc =
    Some (Inr (acc @ takeWhile (\<lambda>e. Some (ent_id e) \<noteq> common) path))"
  using assms
proof (induction path arbitrary: acc rule: parent_chain.induct)
  case (2 e)
  then show ?case by (simp add: collect_back.simps [of _ _ "Some (ent_id e)"] collect_back.simps [of _ _ None])
next
  case (3 e f es)
  then have "collect_back get common (Some (ent_id f)) (acc @ [e]) =
      Some (Inr ((acc @ [e]) @ takeWhile (\<lambda>e. Some (ent_id e) \<noteq> common) (f # es)))"
    by simp
  with 3(2,3) show ?case
    by (simp add: collect_back.simps [of _ _ "Some (ent_id e)"])
qed simp

lemma find_split:
  "find P xs = Some c \<Longrightarrow> \<exists>front rest. xs = front @ c # rest \<and> P c \<and> (\<forall>e \<in> set front. \<not> P e)"
proof (induction xs)
  case (Cons x xs)
  show ?case
  proof (cases "P x")
    case True
    with Cons.prems show ?thesis by (intro exI [of _ "[]"] exI [of _ xs]) simp
  next
    case False
    with Cons obtain front rest where "xs = front @ c # rest" "P c" "\<forall>e \<in> set front. \<not> P e" by auto
    with False show ?thesis by (intro exI [of _ "x # front"] exI [of _ rest]) simp
  qed
qed simp

text \<open>
  Two branches with decreasing sequence numbers: the first entry of one that is on the other is also
  the first of the other that is on the one.
\<close>

lemma meeting_point:
  assumes sorted: "sorted_wrt (>) (map ent_seq xs)" "sorted_wrt (>) (map ent_seq ys)"
    and inj: "inj_on ent_id (set xs \<union> set ys)"
  shows "takeWhile (\<lambda>e. Some (ent_id e) \<noteq> map_option ent_id (find (\<lambda>e. ent_id e \<in> ent_id ` set xs) ys)) xs =
    takeWhile (\<lambda>e. e \<notin> set ys) xs"
proof (cases "find (\<lambda>e. ent_id e \<in> ent_id ` set xs) ys")
  case None
  then have "\<forall>y \<in> set ys. ent_id y \<notin> ent_id ` set xs" by (induction ys) (auto split: if_splits)
  then have "\<forall>e \<in> set xs. e \<notin> set ys" by auto
  then have "takeWhile (\<lambda>e. e \<notin> set ys) xs = xs" by (simp add: takeWhile_eq_all_conv)
  then show ?thesis unfolding None option.map(1) by (simp only:) (simp add: takeWhile_eq_all_conv)
next
  case (Some c)
  then obtain front rest where ys: "ys = front @ c # rest" and c: "ent_id c \<in> ent_id ` set xs"
    and front: "\<forall>e \<in> set front. ent_id e \<notin> ent_id ` set xs"
    using find_split [OF Some] by blast
  have same: "ent_id e = ent_id c \<longleftrightarrow> e = c" if "e \<in> set xs" for e
    using inj_on_eq_iff [OF inj, of e c] that ys by simp
  from c obtain x where "x \<in> set xs" "ent_id x = ent_id c" by force
  with same have "c \<in> set xs" by metis
  then obtain before after where xs: "xs = before @ c # after" "c \<notin> set before" by (meson split_list_first)
  have "e \<notin> set ys" if e: "e \<in> set before" for e
  proof
    assume "e \<in> set ys"
    moreover have "e \<notin> set front" "e \<noteq> c" using front e xs by auto
    ultimately have "e \<in> set rest" using ys by auto
    then have "ent_seq e < ent_seq c" using sorted(2) by (auto simp: ys sorted_wrt_append)
    moreover have "ent_seq c < ent_seq e" using sorted(1) e by (auto simp: xs sorted_wrt_append)
    ultimately show False by simp
  qed
  moreover have "c \<in> set ys" using ys by simp
  ultimately have "takeWhile (\<lambda>e. e \<notin> set ys) xs = before" by (simp add: xs takeWhile_append)
  moreover have "takeWhile (\<lambda>e. ent_id e \<noteq> ent_id c) xs = before"
  proof -
    have "\<forall>e \<in> set before. ent_id e \<noteq> ent_id c"
    proof
      fix e assume "e \<in> set before"
      then have "e \<in> set xs" "e \<noteq> c" using xs by auto
      with same show "ent_id e \<noteq> ent_id c" by blast
    qed
    then show ?thesis by (simp add: xs takeWhile_append)
  qed
  ultimately show ?thesis by (simp add: Some)
qed

lemma unbounded: "bound_reached None None = (\<lambda>_. False)"
  by (simp add: fun_eq_iff bound_reached_def)

text \<open>The branch of an entry, from it to the root.\<close>

definition whole_path :: "session_state \<Rightarrow> string \<Rightarrow> entry list" where
  "whole_path s i = fst (walkToRoot s (Some i) (\<lambda>_. False))"

context facade_storage begin

lemma whole_branch:
  assumes wf: "wf_state (state_of s)" and "i \<in> ent_id ` set (entries (state_of s))"
  shows "is_branch (state_of s) i (whole_path (state_of s) i) \<and>
    session_findEntriesOnBranch api s lane any_query (from_entry i) = Inr (whole_path (state_of s) i)"
proof -
  obtain path where path: "is_branch (state_of s) i path"
    and walk: "\<And>stop. walkToRoot (state_of s) (Some i) stop = (take_until stop path, None)"
    using walkToRoot_branch [OF assms] by blast
  have "matchesEntryQuery any_query = (\<lambda>_. True)"
    by (simp add: matchesEntryQuery_def any_query_def fun_eq_iff)
  then have "findEntriesOnBranch (state_of s) any_query (from_entry i) i = Inr path"
    using findEntriesOnBranch_eq [OF wf _ _ path walk, of any_query "from_entry i"]
    by (simp add: valid_limit_def valid_cursor_def limited_def any_query_def from_entry_def unbounded)
  then have "session_findEntriesOnBranch api s lane any_query (from_entry i) = Inr path"
    by (simp add: session_findEntriesOnBranch_def queryBranchEntries_def branch_law from_entry_def any_query_def
        assertValidLimit_def assertValidCursor_def)
  with path walk [of "\<lambda>_. False"] show ?thesis by (simp add: whole_path_def)
qed

lemma collected_branch:
  assumes wf: "wf_state (state_of s)" and named: "\<forall>e \<in> set (entries (state_of s)). ent_id e \<noteq> []"
    and known: "getEntry (state_of s) old \<noteq> None" "getEntry (state_of s) target \<noteq> None"
  defines "op \<equiv> whole_path (state_of s) old" and "tp \<equiv> whole_path (state_of s) target"
  shows "is_branch (state_of s) old op \<and> is_branch (state_of s) target tp \<and>
    collectEntriesForBranchSummary api s lane (Some old) target =
      Some (Inr \<lparr>cl_entries = rev (takeWhile (\<lambda>e. e \<notin> set tp) op),
                 cl_commonAncestorId = map_option ent_id (find (\<lambda>e. ent_id e \<in> ent_id ` set op) tp)\<rparr>)"
proof -
  have ids: "old \<in> ent_id ` set (entries (state_of s))" "target \<in> ent_id ` set (entries (state_of s))"
    using getEntry_known [OF wf known(1)] getEntry_known [OF wf known(2)] .
  have op: "is_branch (state_of s) old op"
    "session_findEntriesOnBranch api s lane any_query (from_entry old) = Inr op"
    using whole_branch [OF wf ids(1)] by (simp_all add: op_def)
  have tp: "is_branch (state_of s) target tp"
    "session_findEntriesOnBranch api s lane any_query (from_entry target) = Inr tp"
    using whole_branch [OF wf ids(2)] by (simp_all add: tp_def)
  let ?common = "map_option ent_id (find (\<lambda>e. ent_id e \<in> ent_id ` set op) tp)"
  have branch: "parent_chain op" "ent_id (hd op) = old" "set op \<subseteq> set (entries (state_of s))"
    "sorted_wrt (>) (map ent_seq op)" "set tp \<subseteq> set (entries (state_of s))" "sorted_wrt (>) (map ent_seq tp)"
    using op(1) tp(1) by (simp_all add: is_branch_def)
  have "sa_getEntry api s (ent_id e) = Some e \<and> ent_id e \<noteq> []" if "e \<in> set op" for e
    using that branch(3) named wf by (auto simp: entry_law getEntry_def wf_state_def wf_lookup_Some)
  then have "collect_back (sa_getEntry api s) ?common (Some old) [] =
      Some (Inr (takeWhile (\<lambda>e. Some (ent_id e) \<noteq> ?common) op))"
    using collect_chain [OF branch(1), of "sa_getEntry api s" ?common "[]"] branch(2) by simp
  moreover have "inj_on ent_id (set op \<union> set tp)"
    using wf branch(3,5) by (auto simp: wf_state_def wf_ids_def distinct_map intro: inj_on_subset)
  then have "takeWhile (\<lambda>e. Some (ent_id e) \<noteq> ?common) op = takeWhile (\<lambda>e. e \<notin> set tp) op"
    by (rule meeting_point [OF branch(4,6)])
  moreover have "old \<noteq> []" using ids(1) named by auto
  ultimately show ?thesis
    using op tp by (auto simp: collectEntriesForBranchSummary_def)
qed

end

end
