(* ===== verification/Json_Roundtrip.thy ===== *)
theory Json_Roundtrip
  imports Json_Text
begin

text \<open>
  \<open>JSON.parse\<close> reads back what \<open>JSON.stringify\<close> wrote, and does not read a proper prefix of an
  object's text. The second fact rests on \<open>parse_extend\<close>: what a successful parse has read does not
  depend on the text that follows, unless it was a number at the very end.
\<close>

section \<open>Reading back\<close>

fun json_ok :: "(js_number \<Rightarrow> string) \<Rightarrow> (string \<Rightarrow> js_number) \<Rightarrow> json \<Rightarrow> bool" where
  "json_ok f g (JNumber n) = number_law f g n"
| "json_ok f g (JArray vs) = list_all (json_ok f g) vs"
| "json_ok f g (JObject ps) = (distinct (map fst ps) \<and> list_all (\<lambda>p. json_ok f g (snd p)) ps)"
| "json_ok f g _ = True"

text \<open>No value's text starts with white space or with a closing bracket.\<close>

definition starts_value :: "string \<Rightarrow> bool" where
  "starts_value s \<longleftrightarrow> s \<noteq> [] \<and> \<not> is_space (hd s) \<and> hd s \<noteq> CHR '']'' \<and> hd s \<noteq> CHR ''}''"

lemma number_char_starts: "is_digit c \<or> c = CHR ''-'' \<Longrightarrow>
    \<not> is_space c \<and> c \<noteq> CHR '']'' \<and> c \<noteq> CHR ''}'' \<and> c \<noteq> CHR ''{'' \<and> c \<noteq> CHR ''['' \<and> c \<noteq> quote
      \<and> c \<noteq> CHR ''t'' \<and> c \<noteq> CHR ''f'' \<and> c \<noteq> CHR ''n''"
  by (auto simp: is_digit_def is_space_def quote_def)

lemma number_text_starts:
  assumes "number_law f g n"
  shows "\<exists>c t. number_text f n = c # t \<and> (is_digit c \<or> c = CHR ''-'')"
  using valid_number_hd [OF conjunct1 [OF number_text_ok [OF assms]]]
  by (cases "number_text f n") auto

lemma starts_append: "starts_value s \<Longrightarrow> starts_value (s @ t)"
  by (cases s) (auto simp: starts_value_def)

lemma stringify_starts: "json_ok f g v \<Longrightarrow> starts_value (stringify f v)"
  using number_text_starts number_char_starts
  by (cases v) (fastforce simp: starts_value_def is_space_def quote_string_def quote_def)+

lemma items_start: "vs \<noteq> [] \<Longrightarrow> list_all (json_ok f g) vs \<Longrightarrow> starts_value (stringify_items f vs)"
  by (cases vs) (auto intro: stringify_starts starts_append)

lemma skip_starts: "starts_value s \<Longrightarrow> skip (s @ t) = s @ t"
  by (cases s) (auto simp: starts_value_def skip_def)

lemma skip_char: "\<not> is_space c \<Longrightarrow> skip (c # t) = c # t"
  by (simp add: skip_def)

lemma punctuation:
  "\<not> is_space CHR ''{''" "\<not> is_space CHR ''}''" "\<not> is_space CHR ''[''" "\<not> is_space CHR '']''"
  "\<not> is_space CHR '',''" "\<not> is_space CHR '':''" "\<not> is_space quote"
  "\<not> is_space CHR ''t''" "\<not> is_space CHR ''f''" "\<not> is_space CHR ''n''"
  "quote \<noteq> CHR ''{''" "quote \<noteq> CHR ''}''" "quote \<noteq> CHR ''[''" "quote \<noteq> CHR '']''" "quote \<noteq> CHR '',''" "quote \<noteq> CHR '':''"
  "CHR ''t'' \<noteq> quote" "CHR ''f'' \<noteq> quote" "CHR ''n'' \<noteq> quote"
  by (simp_all add: is_space_def quote_def)

lemma number_ends:
  "\<not> is_number_char CHR ''}''" "\<not> is_number_char CHR '']''" "\<not> is_number_char CHR '',''"
  by (simp_all add: is_number_char_def is_digit_def)

lemma strip_append: "strip w (w @ r) = Some r"
  by (induction w) auto

lemma read_string_quote: "read_string (tl (quote_string k) @ r) = Some (k, r)"
  using read_string_quoted [of k r] by (simp add: quote_string_def)

lemma skip_quoted: "skip (quote_string k @ s) = quote # tl (quote_string k) @ s"
  by (simp add: quote_string_def skip_char punctuation)

lemma parse_number_text:
  assumes "number_law f g n" and "r = [] \<or> \<not> is_number_char (hd r)"
  shows "parse_value g (Suc m) (number_text f n @ r) = Some (JNumber n, r)"
proof -
  obtain c t where c: "number_text f n = c # t" "is_digit c \<or> c = CHR ''-''"
    using number_text_starts [OF assms(1)] by blast
  then show ?thesis
    using read_number_text [OF assms] number_char_starts [OF c(2)] by (simp add: skip_char)
qed

lemma parse_stringify:
  fixes f :: "js_number \<Rightarrow> string" and g :: "string \<Rightarrow> js_number"
  shows
  "json_ok f g v \<Longrightarrow> length (stringify f v) \<le> n \<Longrightarrow> r = [] \<or> \<not> is_number_char (hd r) \<Longrightarrow>
     parse_value g n (stringify f v @ r) = Some (v, r)"
  "list_all (json_ok f g) vs \<Longrightarrow> vs \<noteq> [] \<Longrightarrow> length (stringify_items f vs) \<le> n \<Longrightarrow>
     parse_items g n (stringify_items f vs @ r) = Some (vs, r)"
  "list_all (\<lambda>p. json_ok f g (snd p)) ps \<Longrightarrow> ps \<noteq> [] \<Longrightarrow> distinct (map fst (acc @ ps)) \<Longrightarrow>
     length (stringify_members f ps) \<le> n \<Longrightarrow>
     parse_members g n acc (stringify_members f ps @ r) = Some (acc @ ps, r)"
proof (induction f v and f vs and f ps arbitrary: n r and n r and n r acc
    rule: stringify_stringify_items_stringify_members.induct)
  case (1 f)
  then obtain m where "n = Suc m" by (cases n) auto
  then show ?case by (simp add: skip_char punctuation)
next
  case (2 f b)
  then obtain m where "n = Suc m" by (cases n) (auto split: if_splits)
  then show ?case by (simp add: skip_char punctuation)
next
  case (3 f x)
  then have "number_text f x \<noteq> []" using number_text_starts by fastforce
  then obtain m where "n = Suc m" using 3(2) by (cases n) auto
  then show ?case using 3 parse_number_text [of f g x r m] by (simp del: parse_value.simps)
next
  case (4 f s)
  then obtain m where "n = Suc m" by (cases n) (auto simp: quote_string_def)
  then show ?case using read_string_quote [of s r] by (simp add: quote_string_def skip_char punctuation)
next
  case (5 f vs)
  then obtain m where n: "n = Suc m" by (cases n) auto
  show ?case
  proof (cases "vs = []")
    case True
    then show ?thesis using n by (simp add: skip_char punctuation)
  next
    case False
    have st: "starts_value (stringify_items f vs)" using 5(2) False by (simp add: items_start)
    then obtain d t where d: "stringify_items f vs = d # t" "d \<noteq> CHR '']''"
      by (cases "stringify_items f vs") (auto simp: starts_value_def)
    have "parse_items g m (stringify_items f vs @ r) = Some (vs, r)" using 5 n False by simp
    then show ?thesis using n skip_starts [OF st, of r] d by (simp add: skip_char punctuation)
  qed
next
  case (6 f ps)
  then obtain m where n: "n = Suc m" by (cases n) auto
  show ?case
  proof (cases ps)
    case Nil
    then show ?thesis using n by (simp add: skip_char punctuation)
  next
    case (Cons p qs)
    then obtain t where d: "stringify_members f ps = quote # t" by (simp add: quote_string_def)
    have "parse_members g m [] (stringify_members f ps @ r) = Some (ps, r)" using 6 n Cons by simp
    then show ?thesis using n d by (simp add: skip_char punctuation)
  qed
next
  case (8 f v vs)
  then obtain m where n: "n = Suc m" by (cases n) (auto split: if_splits)
  show ?case
  proof (cases "vs = []")
    case True
    have "parse_value g m (stringify f v @ '']'' @ r) = Some (v, '']'' @ r)"
      using 8 n True by (simp add: number_ends)
    then show ?thesis using n True by (simp add: skip_char punctuation)
  next
    case False
    have "parse_value g m (stringify f v @ CHR '','' # stringify_items f vs @ r) = Some (v, CHR '','' # stringify_items f vs @ r)"
      using 8(1) [of m "CHR '','' # stringify_items f vs @ r"] 8(3,5) n False by (simp add: number_ends)
    moreover have "parse_items g m (stringify_items f vs @ r) = Some (vs, r)"
      using 8(2) [of m r] 8(3,5) n False by simp
    ultimately show ?thesis using n False by (simp add: skip_char punctuation)
  qed
next
  case (10 f p ps)
  then obtain m where n: "n = Suc m" by (cases n) (auto simp: quote_string_def)
  obtain k v where p: "p = (k, v)" by fastforce
  have fresh: "map_of acc k = None" using 10(5) p by (auto simp: map_of_eq_None_iff)
  show ?case
  proof (cases "ps = []")
    case True
    have "parse_value g m (stringify f v @ ''}'' @ r) = Some (v, ''}'' @ r)"
      using 10(1) [of m "''}'' @ r"] 10(3,6) n True p by (simp add: number_ends)
    then show ?thesis
      using n True p by (simp add: skip_quoted skip_char punctuation read_string_quote update_fresh [OF fresh])
  next
    case False
    let ?rest = "CHR '','' # stringify_members f ps @ r"
    have "parse_value g m (stringify f v @ ?rest) = Some (v, ?rest)"
      using 10(1) [of m ?rest] 10(3,6) n False p by (simp add: number_ends)
    moreover have "parse_members g m (acc @ [(k, v)]) (stringify_members f ps @ r) = Some ((acc @ [(k, v)]) @ ps, r)"
      using 10(2) [of "acc @ [(k, v)]" m r] 10(3,5,6) n False p by simp
    ultimately show ?thesis
      using n False p by (simp add: skip_quoted skip_char punctuation read_string_quote update_fresh [OF fresh])
  qed
qed simp_all

lemma parse_json_stringify:
  assumes "json_ok f g v"
  shows "parse_json g (stringify f v) = Some v"
  using parse_stringify(1) [OF assms, of "length (stringify f v)" "[]"]
  by (simp add: parse_json_def skip_def)

section \<open>What was read does not depend on what follows\<close>

lemma skip_append: "skip p = c # r \<Longrightarrow> skip (p @ q) = c # r @ q"
proof (induction p)
  case (Cons d p)
  then show ?case by (cases "is_space d") (auto simp: skip_def)
qed (simp add: skip_def)

lemma read_escape_append: "read_escape p = Some (c, r) \<Longrightarrow> read_escape (p @ q) = Some (c, r @ q)"
  by (cases p) (auto simp: read_escape.simps split: if_splits list.splits option.splits nat.splits)

lemma read_string_append: "read_string p = Some (t, r) \<Longrightarrow> read_string (p @ q) = Some (t, r @ q)"
proof (induction p arbitrary: t r rule: read_string.induct)
  case (2 c s)
  show ?case
  proof (cases "c \<noteq> quote \<and> c = backslash")
    case True
    then obtain d b where d: "read_escape s = Some (d, b)" using "2.prems" by (auto split: option.splits)
    then obtain u where u: "read_string b = Some (u, r)" "t = d # u" using "2.prems" True by auto
    have "backslash \<noteq> quote" by (simp add: quote_def backslash_def)
    moreover from this have "read_string (b @ q) = Some (u, r @ q)"
      using "2.IH"(1) [OF _ _ d refl u(1)] True by simp
    ultimately show ?thesis using True u read_escape_append [OF d, of q] by simp
  next
    case False
    then show ?thesis using "2.prems" "2.IH"(2) by (auto split: if_splits)
  qed
qed simp

lemma strip_extend: "strip w p = Some r \<Longrightarrow> strip w (p @ q) = Some (r @ q)"
  by (induction w p rule: strip.induct) (auto split: if_splits)

lemma dropWhile_extend: "dropWhile P p \<noteq> [] \<Longrightarrow> takeWhile P (p @ q) = takeWhile P p \<and> dropWhile P (p @ q) = dropWhile P p @ q"
  by (induction p) auto

lemma read_number_extend:
  assumes "read_number g p = Some (v, r)" and "r \<noteq> []"
  shows "read_number g (p @ q) = Some (v, r @ q)"
proof -
  have "r = dropWhile is_number_char p" using assms(1) by (auto simp: read_number_def Let_def split: if_splits)
  then show ?thesis
    using assms dropWhile_extend [of is_number_char p q] by (auto simp: read_number_def Let_def split: if_splits)
qed

lemma read_number_number: "read_number g p = Some (v, r) \<Longrightarrow> \<exists>n. v = JNumber n"
  by (auto simp: read_number_def Let_def split: if_splits)

fun is_number :: "json \<Rightarrow> bool" where
  "is_number (JNumber n) = True"
| "is_number _ = False"

lemma parse_extend:
  "(\<forall>p v r. parse_value g n p = Some (v, r) \<longrightarrow> r \<noteq> [] \<or> \<not> is_number v \<longrightarrow>
      parse_value g n (p @ q) = Some (v, r @ q)) \<and>
   (\<forall>p vs r. parse_items g n p = Some (vs, r) \<longrightarrow> parse_items g n (p @ q) = Some (vs, r @ q)) \<and>
   (\<forall>p acc ps r. parse_members g n acc p = Some (ps, r) \<longrightarrow> parse_members g n acc (p @ q) = Some (ps, r @ q))"
proof (induction n)
  case (Suc n)
  have "parse_value g (Suc n) (p @ q) = Some (v, r @ q)"
    if eq: "parse_value g (Suc n) p = Some (v, r)" and num: "r \<noteq> [] \<or> \<not> is_number v" for p v r
  proof -
    obtain c t where c: "skip p = c # t" using eq by (cases "skip p") auto
    note c' = skip_append [OF c, of q]
    show ?thesis
    proof (cases "c = CHR ''{'' \<or> c = CHR ''[''")
      case True
      then obtain d t' where d: "skip t = d # t'" using eq c by (auto split: list.splits if_splits)
      note d' = skip_append [OF d, of q]
      show ?thesis
        using eq c c' d d' True Suc by (fastforce split: if_splits)
    next
      case False
      then show ?thesis
        using eq num c c' read_string_append [of t _ _ q] strip_extend [of _ t _ q]
          read_number_extend [of g "c # t" v r q] read_number_number [of g "c # t" v r]
        by (auto split: if_splits)
    qed
  qed
  moreover have "parse_items g (Suc n) (p @ q) = Some (vs, r @ q)" if eq: "parse_items g (Suc n) p = Some (vs, r)" for p vs r
  proof -
    obtain v s where v: "parse_value g n p = Some (v, s)" using eq by (auto simp: bind_eq_Some_conv)
    then obtain c t where c: "skip s = c # t" using eq by (auto split: list.splits)
    then have "s \<noteq> []" by (auto simp: skip_def)
    then have "parse_value g n (p @ q) = Some (v, s @ q)" using Suc v by blast
    then show ?thesis using eq v c skip_append [OF c, of q] Suc by (fastforce split: if_splits)
  qed
  moreover have "parse_members g (Suc n) acc (p @ q) = Some (ps, r @ q)"
    if eq: "parse_members g (Suc n) acc p = Some (ps, r)" for acc p ps r
  proof -
    obtain s1 where 1: "skip p = quote # s1" using eq by (auto split: list.splits if_splits)
    then obtain k s2 where 2: "read_string s1 = Some (k, s2)" using eq by (auto simp: bind_eq_Some_conv)
    then obtain s3 where 3: "skip s2 = CHR '':'' # s3" using eq 1 by (auto split: list.splits if_splits)
    then obtain v s4 where 4: "parse_value g n s3 = Some (v, s4)" using eq 1 2 by (auto simp: bind_eq_Some_conv)
    then obtain d s5 where 5: "skip s4 = d # s5" using eq 1 2 3 by (auto split: list.splits)
    then have "s4 \<noteq> []" by (auto simp: skip_def)
    then have "parse_value g n (s3 @ q) = Some (v, s4 @ q)" using Suc 4 by blast
    then show ?thesis
      using eq 1 2 3 4 5 skip_append [OF 1, of q] read_string_append [OF 2, of q] skip_append [OF 3, of q]
        skip_append [OF 5, of q] Suc by (auto split: if_splits)
  qed
  ultimately show ?case by blast
qed simp

lemma parse_fuel:
  "(\<forall>p x. parse_value g n p = Some x \<longrightarrow> parse_value g (Suc n) p = Some x) \<and>
   (\<forall>p x. parse_items g n p = Some x \<longrightarrow> parse_items g (Suc n) p = Some x) \<and>
   (\<forall>p acc x. parse_members g n acc p = Some x \<longrightarrow> parse_members g (Suc n) acc p = Some x)"
proof (induction n)
  case (Suc n)
  have "parse_value g (Suc (Suc n)) p = Some x" if eq: "parse_value g (Suc n) p = Some x" for p x
  proof -
    obtain c t where c: "skip p = c # t" using eq by (cases "skip p") auto
    show ?thesis
    proof (cases "c = CHR ''{'' \<or> c = CHR ''[''")
      case True
      then obtain d t' where d: "skip t = d # t'" using eq c by (auto split: list.splits if_splits)
      show ?thesis
      proof (cases "c = CHR ''{''")
        case True
        then show ?thesis
          using eq c d Suc by (auto simp del: parse_items.simps parse_members.simps split: if_splits)
      next
        case False
        then have "c = CHR ''[''" using True by simp
        then show ?thesis
          using eq c d Suc by (auto simp del: parse_items.simps parse_members.simps split: if_splits)
      qed
    next
      case False
      then show ?thesis using eq c by auto
    qed
  qed
  moreover have "parse_items g (Suc (Suc n)) p = Some x" if eq: "parse_items g (Suc n) p = Some x" for p x
  proof -
    obtain v s where v: "parse_value g n p = Some (v, s)" using eq by (auto simp: bind_eq_Some_conv)
    then obtain c t where c: "skip s = c # t" using eq by (auto split: list.splits)
    have v': "parse_value g (Suc n) p = Some (v, s)" using Suc v by blast
    show ?thesis
      using eq Suc by (subst parse_items.simps) (auto simp: v v' c simp del: parse_value.simps split: if_splits)
  qed
  moreover have "parse_members g (Suc (Suc n)) acc p = Some x" if eq: "parse_members g (Suc n) acc p = Some x" for p acc x
  proof -
    obtain s1 where 1: "skip p = quote # s1" using eq by (auto split: list.splits if_splits)
    then obtain k s2 where 2: "read_string s1 = Some (k, s2)" using eq by (auto simp: bind_eq_Some_conv)
    then obtain s3 where 3: "skip s2 = CHR '':'' # s3" using eq 1 by (auto split: list.splits if_splits)
    then obtain v s4 where 4: "parse_value g n s3 = Some (v, s4)" using eq 1 2 by (auto simp: bind_eq_Some_conv)
    then obtain d s5 where 5: "skip s4 = d # s5" using eq 1 2 3 by (auto split: list.splits)
    have 6: "parse_value g (Suc n) s3 = Some (v, s4)" using Suc 4 by blast
    have "(if d = CHR ''}'' then Some (AList.update k v acc, s5)
        else if d = CHR '','' then parse_members g n (AList.update k v acc) s5 else None) = Some x"
      using eq by (simp add: 1 2 3 4 5)
    moreover have "parse_members g (Suc n) (AList.update k v acc) s5 = Some x"
      if "parse_members g n (AList.update k v acc) s5 = Some x" using Suc that by blast
    ultimately show ?thesis
      by (subst parse_members.simps)
        (simp add: 1 2 3 5 6 del: parse_members.simps parse_value.simps split: if_splits)
  qed
  ultimately show ?case by blast
qed simp

lemma parse_more_fuel:
  assumes "parse_value g n p = Some x" and "n \<le> m"
  shows "parse_value g m p = Some x"
  using assms(2)
proof (induction m rule: dec_induct)
  case base
  then show ?case by (rule assms(1))
next
  case (step k)
  then show ?case using parse_fuel [of g k] by blast
qed

text \<open>A torn object: what is left of its text is no JSON, unless nothing is missing.\<close>

theorem torn_object:
  assumes "json_ok f g (JObject ps)" and "stringify f (JObject ps) = p @ q" and "q \<noteq> []"
  shows "parse_json g p = None"
proof (rule ccontr)
  assume "parse_json g p \<noteq> None"
  then obtain v r where v: "parse_value g (length p) p = Some (v, r)"
    by (auto simp: parse_json_def split: option.splits)
  then have "p \<noteq> []" by auto
  then obtain p' where p: "p = CHR ''{'' # p'" using assms(2) by (cases p) auto
  then have "\<not> is_number v"
    using v by (auto simp: skip_char punctuation split: list.splits if_splits)
  then have "parse_value g (length p) (p @ q) = Some (v, r @ q)" using parse_extend v by blast
  then have "parse_value g (length (p @ q)) (p @ q) = Some (v, r @ q)"
    by (rule parse_more_fuel) simp
  moreover have "parse_value g (length (p @ q)) (p @ q) = Some (JObject ps, [])"
    using parse_stringify(1) [OF assms(1), of "length (p @ q)" "[]"] unfolding assms(2) by simp
  ultimately show False using assms(3) by simp
qed

section \<open>One line\<close>

lemma newline_code: "newline = CHR 0x0A"
proof -
  have "(of_char (CHR 0x0A) :: nat) = 10" by simp
  then show ?thesis unfolding newline_def by (metis char_of_char)
qed

lemma hex_digit_no_newline: "n < 16 \<Longrightarrow> hex_digit n \<noteq> CHR 0x0A"
proof
  assume "n < 16" "hex_digit n = CHR 0x0A"
  then have "(of_char (hex_digit n) :: nat) = 10" by simp
  then show False using \<open>n < 16\<close> by (simp add: hex_digit_def split: if_splits)
qed

lemma escape_no_newline: "newline \<notin> set (escape_char c)"
proof (cases "(of_char c :: nat) < 32")
  case True
  define h l where "h = hex_digit (of_char c div 16)" and "l = hex_digit (of_char c mod 16)"
  have "h \<noteq> CHR 0x0A" "l \<noteq> CHR 0x0A"
    unfolding h_def l_def using True by (intro hex_digit_no_newline; simp)+
  then show ?thesis
    unfolding escape_char_def h_def [symmetric] l_def [symmetric]
    by (auto simp: newline_code quote_def backslash_def)
next
  case False
  then have "c \<noteq> CHR 0x0A" by auto
  then show ?thesis using False by (auto simp: escape_char_def newline_code quote_def backslash_def)
qed

lemma quote_string_no_newline: "newline \<notin> set (quote_string s)"
  using escape_no_newline by (auto simp: quote_string_def quote_def newline_code)

lemma number_no_newline:
  assumes "number_law f g n"
  shows "newline \<notin> set (number_text f n)"
proof -
  have "\<not> is_number_char newline" by (simp add: newline_code is_number_char_def is_digit_def)
  then show ?thesis using number_text_ok [OF assms] by (auto simp: list_all_iff)
qed

lemma stringify_no_newline:
  fixes f :: "js_number \<Rightarrow> string" and g :: "string \<Rightarrow> js_number"
  shows
  "json_ok f g v \<Longrightarrow> newline \<notin> set (stringify f v)"
  "list_all (json_ok f g) vs \<Longrightarrow> newline \<notin> set (stringify_items f vs)"
  "list_all (\<lambda>p. json_ok f g (snd p)) ps \<Longrightarrow> newline \<notin> set (stringify_members f ps)"
proof (induction f v and f vs and f ps rule: stringify_stringify_items_stringify_members.induct)
  case (3 f n)
  then show ?case using number_no_newline by simp
next
  case (4 f s)
  then show ?case using quote_string_no_newline by simp
next
  case (10 f p ps)
  then show ?case using quote_string_no_newline by (simp add: newline_code)
qed (simp_all add: newline_code)

end
