(* ===== verification/Jsonl_Codec.thy ===== *)
theory Jsonl_Codec
  imports Json_Roundtrip Session_State
begin

text \<open>
  The line codec of session files: \<open>packages/agent/src/harness/session/jsonl/codec.ts\<close> with the
  errors and types beside it. A line is the JSON text of one mutation.

  The source casts between a parsed object and the TypeScript types \<open>Entry\<close> and \<open>LaneRecord\<close>, whose
  variants it does not check beyond their tag. How the variants of \<open>entry_data\<close> and \<open>record_data\<close> lie
  in an object's own properties is the parameter \<open>representation\<close>, next to the two number functions of
  \<open>Json_Text\<close>; \<open>represented\<close> says that a value can be read back from its properties.
\<close>

section \<open>Types\<close>

datatype decode_error_kind = DE_syntax | DE_schema

record decode_error =
  de_kind :: decode_error_kind
  de_message :: string

record jsonl_header =
  jh_id :: string
  jh_createdAt :: int
  jh_cwd :: string
  jh_parentSessionId :: "string option"
  jh_legacyParentSessionPath :: "string option"
  jh_metadata :: "(string \<times> json) list option"

record jsonl_metadata = session_metadata +
  jm_cwd :: string
  jm_path :: string
  jm_modifiedAt :: int
  jm_sourceFormat :: int
  jm_legacyParentSessionPath :: "string option"
  jm_metadata :: "(string \<times> json) list option"

record representation =
  entry_fields :: "entry_data \<Rightarrow> (string \<times> json) list"
  entry_of_fields :: "entry_type \<Rightarrow> (string \<times> json) list \<Rightarrow> entry_data"
  record_fields :: "record_data \<Rightarrow> (string \<times> json) list"
  record_of_fields :: "record_type \<Rightarrow> (string \<times> json) list \<Rightarrow> record_data"
  text_of_number :: "js_number \<Rightarrow> string"
  number_of_text :: "string \<Rightarrow> js_number"

definition schema_error :: "string \<Rightarrow> decode_error" where
  "schema_error msg = \<lparr>de_kind = DE_schema, de_message = msg\<rparr>"

fun entry_type_name :: "entry_type \<Rightarrow> string" where
  "entry_type_name ET_message = ''message''"
| "entry_type_name ET_model_change = ''model_change''"
| "entry_type_name ET_thinking_level_change = ''thinking_level_change''"
| "entry_type_name ET_active_tools_change = ''active_tools_change''"
| "entry_type_name ET_compaction = ''compaction''"
| "entry_type_name ET_branch_summary = ''branch_summary''"
| "entry_type_name ET_custom = ''custom''"

definition ENTRY_TYPES :: "entry_type list" where
  "ENTRY_TYPES = [ET_message, ET_model_change, ET_thinking_level_change, ET_active_tools_change,
     ET_compaction, ET_branch_summary, ET_custom]"

fun record_type_name :: "record_type \<Rightarrow> string" where
  "record_type_name RT_operation_started = ''operation_started''"
| "record_type_name RT_abort_requested = ''abort_requested''"
| "record_type_name RT_operation_finished = ''operation_finished''"
| "record_type_name RT_step_attempt = ''step_attempt''"
| "record_type_name RT_tool_started = ''tool_started''"
| "record_type_name RT_queue_enqueued = ''queue_enqueued''"
| "record_type_name RT_queue_cancelled = ''queue_cancelled''"
| "record_type_name RT_write_deferred = ''write_deferred''"
| "record_type_name RT_usage = ''usage''"

definition RECORD_TYPES :: "record_type list" where
  "RECORD_TYPES = [RT_operation_started, RT_abort_requested, RT_operation_finished, RT_step_attempt,
     RT_tool_started, RT_queue_enqueued, RT_queue_cancelled, RT_write_deferred, RT_usage]"

definition OPERATION_KINDS :: "string list" where
  "OPERATION_KINDS = [''run'', ''compaction'', ''navigation'']"

section \<open>Reading fields\<close>

definition parseObject :: "representation \<Rightarrow> string \<Rightarrow> decode_error + (string \<times> json) list" where
  "parseObject rp line =
     (case parse_json (number_of_text rp) line of
        None \<Rightarrow> Inl \<lparr>de_kind = DE_syntax, de_message = ''is not valid JSON''\<rparr>
      | Some (JObject ps) \<Rightarrow> Inr ps
      | Some _ \<Rightarrow> Inl (schema_error ''is not a JSON object''))"

fun requireString :: "json option \<Rightarrow> string \<Rightarrow> decode_error + string" where
  "requireString (Some (JString s)) field = Inr s"
| "requireString _ field = Inl (schema_error (''has invalid '' @ field))"

definition requireSequence :: "json option \<Rightarrow> decode_error + nat" where
  "requireSequence v =
     (case v of
        Some (JNumber n) \<Rightarrow>
          if isSafeInteger n \<and> intValue n > 0 then Inr (nat (intValue n)) else Inl (schema_error ''has invalid seq'')
      | _ \<Rightarrow> Inl (schema_error ''has invalid seq''))"

definition requireTimestamp :: "json option \<Rightarrow> decode_error + int" where
  "requireTimestamp v =
     (case v of
        Some (JNumber n) \<Rightarrow>
          if isSafeInteger n \<and> intValue n \<ge> 0 then Inr (intValue n) else Inl (schema_error ''has invalid timestamp'')
      | _ \<Rightarrow> Inl (schema_error ''has invalid timestamp''))"

fun requireNullableId :: "json option \<Rightarrow> string \<Rightarrow> decode_error + string option" where
  "requireNullableId (Some JNull) field = Inr None"
| "requireNullableId (Some (JString s)) field = Inr (Some s)"
| "requireNullableId _ field = Inl (schema_error (''has invalid '' @ field))"

text \<open>\<open>v !== undefined && typeof v !== "string"\<close> is an error.\<close>

fun optionalString :: "json option \<Rightarrow> string \<Rightarrow> decode_error + string option" where
  "optionalString None field = Inr None"
| "optionalString (Some (JString s)) field = Inr (Some s)"
| "optionalString _ field = Inl (schema_error (''has invalid '' @ field))"

section \<open>The header\<close>

fun optionalObject :: "json option \<Rightarrow> decode_error + (string \<times> json) list option" where
  "optionalObject None = Inr None"
| "optionalObject (Some (JObject ps)) = Inr (Some ps)"
| "optionalObject _ = Inl (schema_error ''has invalid metadata'')"

definition parseHeader :: "representation \<Rightarrow> string \<Rightarrow> decode_error + jsonl_header" where
  "parseHeader rp line =
     andThen (parseObject rp line) (\<lambda>ps.
     andThen (require (map_of ps ''kind'' = Some (JString ''header'')) (schema_error ''is not a header'')) (\<lambda>_.
     andThen (require (map_of ps ''version'' = Some (JNumber (JInt 4)))
                (schema_error ''has unsupported session version'')) (\<lambda>_.
     andThen (optionalString (map_of ps ''parentSessionId'') ''parentSessionId'') (\<lambda>parent.
     andThen (optionalString (map_of ps ''legacyParentSessionPath'') ''legacyParentSessionPath'') (\<lambda>legacy.
     andThen (require (parent = None \<or> legacy = None)
                (schema_error ''has both parentSessionId and legacyParentSessionPath'')) (\<lambda>_.
     andThen (optionalObject (map_of ps ''metadata'')) (\<lambda>metadata.
     andThen (requireString (map_of ps ''id'') ''id'') (\<lambda>i.
     andThen (requireTimestamp (map_of ps ''createdAt'')) (\<lambda>createdAt.
     andThen (requireString (map_of ps ''cwd'') ''cwd'') (\<lambda>cwd.
     Inr \<lparr>jh_id = i, jh_createdAt = createdAt, jh_cwd = cwd, jh_parentSessionId = parent,
          jh_legacyParentSessionPath = legacy, jh_metadata = metadata\<rparr>))))))))))"

definition optional :: "string \<Rightarrow> ('a \<Rightarrow> json) \<Rightarrow> 'a option \<Rightarrow> (string \<times> json) list" where
  "optional key f v = (case v of None \<Rightarrow> [] | Some x \<Rightarrow> [(key, f x)])"

definition nullable :: "string option \<Rightarrow> json" where
  "nullable v = (case v of None \<Rightarrow> JNull | Some s \<Rightarrow> JString s)"

definition header_object :: "jsonl_header \<Rightarrow> json" where
  "header_object h = JObject
     ([(''kind'', JString ''header''), (''version'', JNumber (JInt 4)), (''id'', JString (jh_id h)),
       (''createdAt'', JNumber (JInt (jh_createdAt h))), (''cwd'', JString (jh_cwd h))]
      @ optional ''parentSessionId'' JString (jh_parentSessionId h)
      @ optional ''legacyParentSessionPath'' JString (jh_legacyParentSessionPath h)
      @ optional ''metadata'' JObject (jh_metadata h))"

definition encodeHeader :: "representation \<Rightarrow> jsonl_header \<Rightarrow> string" where
  "encodeHeader rp h = stringify (text_of_number rp) (header_object h) @ [newline]"

definition metadataFromHeader :: "jsonl_header \<Rightarrow> string \<Rightarrow> int \<Rightarrow> jsonl_metadata" where
  "metadataFromHeader h path modifiedAt =
     \<lparr>md_id = jh_id h, md_createdAt = jh_createdAt h, md_parentSessionId = jh_parentSessionId h,
      jm_cwd = jh_cwd h, jm_path = path, jm_modifiedAt = modifiedAt, jm_sourceFormat = 4,
      jm_legacyParentSessionPath = jh_legacyParentSessionPath h, jm_metadata = jh_metadata h\<rparr>"

section \<open>Mutations\<close>

text \<open>The own properties of an entry or record object that are not the payload of its variant.\<close>

definition base_keys :: "string list" where
  "base_keys = [''kind'', ''lane'', ''id'', ''type'', ''parentId'', ''seq'', ''timestamp'']"

definition payload_fields :: "(string \<times> json) list \<Rightarrow> (string \<times> json) list" where
  "payload_fields ps = filter (\<lambda>p. fst p \<notin> set base_keys) ps"

definition parseEntryMutation ::
  "representation \<Rightarrow> (string \<times> json) list \<Rightarrow> nat \<Rightarrow> decode_error + session_mutation" where
  "parseEntryMutation rp ps q =
     andThen (case map_of ps ''lane'' of None \<Rightarrow> Inr None
                | Some v \<Rightarrow> andThen (requireString (Some v) ''lane'') (\<lambda>l. Inr (Some l))) (\<lambda>lane.
     andThen (requireString (map_of ps ''id'') ''id'') (\<lambda>i.
     andThen (requireString (map_of ps ''type'') ''entry type'') (\<lambda>ty.
     andThen (case find (\<lambda>t. entry_type_name t = ty) ENTRY_TYPES of
                None \<Rightarrow> Inl (schema_error (''has unknown entry type '' @ ty)) | Some t \<Rightarrow> Inr t) (\<lambda>t.
     andThen (requireNullableId (map_of ps ''parentId'') ''parentId'') (\<lambda>parentId.
     andThen (requireTimestamp (map_of ps ''timestamp'')) (\<lambda>timestamp.
     andThen (if t = ET_custom then requireString (map_of ps ''customType'') ''customType'' else Inr []) (\<lambda>_.
     Inr (MU_entry lane
            \<lparr>ent_id = i, ent_data = entry_of_fields rp t (payload_fields ps), ent_parentId = parentId,
             ent_seq = q, ent_timestamp = timestamp\<rparr>))))))))"

definition check_intent :: "json option \<Rightarrow> decode_error + string" where
  "check_intent v =
     (case v of
        Some (JObject ps) \<Rightarrow>
          andThen (requireString (map_of ps ''kind'') ''operation kind'') (\<lambda>k.
          andThen (require (k \<in> set OPERATION_KINDS) (schema_error (''has unknown operation kind '' @ k))) (\<lambda>_.
          Inr k))
      | _ \<Rightarrow> Inl (schema_error ''has invalid intent''))"

definition parseRecordMutation ::
  "representation \<Rightarrow> (string \<times> json) list \<Rightarrow> nat \<Rightarrow> decode_error + session_mutation" where
  "parseRecordMutation rp ps q =
     andThen (requireString (map_of ps ''id'') ''id'') (\<lambda>i.
     andThen (requireString (map_of ps ''lane'') ''lane'') (\<lambda>lane.
     andThen (requireString (map_of ps ''type'') ''record type'') (\<lambda>ty.
     andThen (case find (\<lambda>t. record_type_name t = ty) RECORD_TYPES of
                None \<Rightarrow> Inl (schema_error (''has unknown record type '' @ ty)) | Some t \<Rightarrow> Inr t) (\<lambda>t.
     andThen (requireTimestamp (map_of ps ''timestamp'')) (\<lambda>timestamp.
     andThen (if t = RT_operation_started then check_intent (map_of ps ''intent'') else Inr []) (\<lambda>_.
     andThen (if t = RT_operation_finished then requireString (map_of ps ''runId'') ''runId'' else Inr []) (\<lambda>_.
     Inr (MU_record
            \<lparr>rec_id = i, rec_lane = lane, rec_data = record_of_fields rp t (payload_fields ps),
             rec_seq = q, rec_timestamp = timestamp\<rparr>))))))))"

definition parseLaneMutation :: "(string \<times> json) list \<Rightarrow> nat \<Rightarrow> decode_error + session_mutation" where
  "parseLaneMutation ps q =
     andThen (requireString (map_of ps ''lane'') ''lane'') (\<lambda>lane.
     andThen (requireNullableId (map_of ps ''leafId'') ''leafId'') (\<lambda>leafId.
     Inr (MU_lane q lane leafId)))"

definition parseFactMutation :: "(string \<times> json) list \<Rightarrow> nat \<Rightarrow> decode_error + session_mutation" where
  "parseFactMutation ps q =
     (if map_of ps ''fact'' = Some (JString ''name'')
      then andThen (optionalString (map_of ps ''name'') ''name'') (\<lambda>nm. Inr (MU_name q nm))
      else if map_of ps ''fact'' = Some (JString ''label'')
      then andThen (optionalString (map_of ps ''label'') ''label'') (\<lambda>lbl.
           andThen (requireString (map_of ps ''targetId'') ''targetId'') (\<lambda>i. Inr (MU_label q i lbl)))
      else Inl (schema_error ''has unknown fact type''))"

definition parseMutation :: "representation \<Rightarrow> string \<Rightarrow> decode_error + session_mutation" where
  "parseMutation rp line =
     andThen (parseObject rp line) (\<lambda>ps.
     andThen (requireSequence (map_of ps ''seq'')) (\<lambda>q.
     if map_of ps ''kind'' = Some (JString ''entry'') then parseEntryMutation rp ps q
     else if map_of ps ''kind'' = Some (JString ''record'') then parseRecordMutation rp ps q
     else if map_of ps ''kind'' = Some (JString ''lane'') then parseLaneMutation ps q
     else if map_of ps ''kind'' = Some (JString ''fact'') then parseFactMutation ps q
     else Inl (schema_error ''has unknown mutation kind'')))"

definition seq_number :: "nat \<Rightarrow> json" where
  "seq_number q = JNumber (JInt (int q))"

fun mutation_fields :: "representation \<Rightarrow> session_mutation \<Rightarrow> (string \<times> json) list" where
  "mutation_fields rp (MU_entry lane e) =
     [(''kind'', JString ''entry'')] @ optional ''lane'' JString lane
       @ [(''id'', JString (ent_id e)), (''type'', JString (entry_type_name (ent_type e)))]
       @ entry_fields rp (ent_data e)
       @ [(''parentId'', nullable (ent_parentId e)), (''seq'', seq_number (ent_seq e)),
          (''timestamp'', JNumber (JInt (ent_timestamp e)))]"
| "mutation_fields rp (MU_record r) =
     [(''kind'', JString ''record''), (''id'', JString (rec_id r)), (''lane'', JString (rec_lane r)),
      (''type'', JString (record_type_name (rec_type r)))]
       @ record_fields rp (rec_data r)
       @ [(''seq'', seq_number (rec_seq r)), (''timestamp'', JNumber (JInt (rec_timestamp r)))]"
| "mutation_fields rp (MU_lane q lane leafId) =
     [(''kind'', JString ''lane''), (''seq'', seq_number q), (''lane'', JString lane), (''leafId'', nullable leafId)]"
| "mutation_fields rp (MU_name q nm) =
     [(''kind'', JString ''fact''), (''seq'', seq_number q), (''fact'', JString ''name'')]
       @ optional ''name'' JString nm"
| "mutation_fields rp (MU_label q i lbl) =
     [(''kind'', JString ''fact''), (''seq'', seq_number q), (''fact'', JString ''label''), (''targetId'', JString i)]
       @ optional ''label'' JString lbl"

definition encodeMutation :: "representation \<Rightarrow> session_mutation \<Rightarrow> string" where
  "encodeMutation rp mu = stringify (text_of_number rp) (JObject (mutation_fields rp mu)) @ [newline]"

end
