(* ===== verification/Jsonl_Roundtrip.thy ===== *)
theory Jsonl_Roundtrip
  imports Jsonl_Codec
begin

text \<open>
  A line that \<open>encodeMutation\<close> or \<open>encodeHeader\<close> wrote parses back, contains one newline, at its end,
  and no proper prefix of it is JSON.
\<close>

section \<open>Values a line can carry\<close>

definition safe_nat :: "int \<Rightarrow> bool" where
  "safe_nat i \<longleftrightarrow> 0 \<le> i \<and> i \<le> MAX_SAFE_INTEGER"

definition fields_ok :: "representation \<Rightarrow> (string \<times> json) list \<Rightarrow> bool" where
  "fields_ok rp fs \<longleftrightarrow> distinct (map fst fs) \<and> list_all (\<lambda>p. fst p \<notin> set base_keys) fs \<and>
     list_all (\<lambda>p. json_ok (text_of_number rp) (number_of_text rp) (snd p)) fs"

fun represented :: "representation \<Rightarrow> session_mutation \<Rightarrow> bool" where
  "represented rp (MU_entry lane e) \<longleftrightarrow>
     0 < ent_seq e \<and> safe_nat (int (ent_seq e)) \<and> safe_nat (ent_timestamp e) \<and>
     fields_ok rp (entry_fields rp (ent_data e)) \<and>
     entry_of_fields rp (ent_type e) (entry_fields rp (ent_data e)) = ent_data e \<and>
     (ent_type e = ET_custom \<longrightarrow> (\<exists>s. map_of (entry_fields rp (ent_data e)) ''customType'' = Some (JString s)))"
| "represented rp (MU_record r) \<longleftrightarrow>
     0 < rec_seq r \<and> safe_nat (int (rec_seq r)) \<and> safe_nat (rec_timestamp r) \<and>
     fields_ok rp (record_fields rp (rec_data r)) \<and>
     record_of_fields rp (rec_type r) (record_fields rp (rec_data r)) = rec_data r \<and>
     (rec_type r = RT_operation_started \<longrightarrow>
        (\<exists>k. check_intent (map_of (record_fields rp (rec_data r)) ''intent'') = Inr k)) \<and>
     (rec_type r = RT_operation_finished \<longrightarrow>
        (\<exists>s. map_of (record_fields rp (rec_data r)) ''runId'' = Some (JString s)))"
| "represented rp (MU_lane q lane leafId) \<longleftrightarrow> 0 < q \<and> safe_nat (int q)"
| "represented rp (MU_name q nm) \<longleftrightarrow> 0 < q \<and> safe_nat (int q)"
| "represented rp (MU_label q i lbl) \<longleftrightarrow> 0 < q \<and> safe_nat (int q)"

lemma safe_number_ok: "safe_nat i \<Longrightarrow> json_ok f g (JNumber (JInt i))"
  by (simp add: safe_nat_def number_law_def)

lemma nullable_ok: "json_ok f g (nullable v)"
  by (simp add: nullable_def split: option.splits)

lemma optional_string_ok: "list_all (\<lambda>p. json_ok f g (snd p)) (optional k JString v)"
  by (simp add: optional_def split: option.splits)

lemma optional_keys: "map fst (optional k f v) = (if v = None then [] else [k])"
  by (simp add: optional_def split: option.splits)

lemma map_of_optional: "map_of (optional k f v) = (\<lambda>x. if x = k then map_option f v else None)"
  by (auto simp: optional_def fun_eq_iff split: option.splits)

lemma fields_base: "fields_ok rp fs \<Longrightarrow> k \<in> set base_keys \<Longrightarrow> map_of fs k = None"
  by (auto simp: fields_ok_def list_all_iff map_of_eq_None_iff)

lemma fields_disjoint: "fields_ok rp fs \<Longrightarrow> k \<in> set base_keys \<Longrightarrow> k \<notin> fst ` set fs"
  by (auto simp: fields_ok_def list_all_iff)

lemmas base_memberships = base_keys_def

lemma mutation_json_ok:
  assumes "represented rp mu"
  shows "json_ok (text_of_number rp) (number_of_text rp) (JObject (mutation_fields rp mu))"
proof (cases mu)
  case (MU_entry lane e)
  then have f: "fields_ok rp (entry_fields rp (ent_data e))" using assms by simp
  have "k \<notin> fst ` set (entry_fields rp (ent_data e))" if "k \<in> set base_keys" for k
    using fields_disjoint [OF f that] .
  moreover have "distinct (map fst (entry_fields rp (ent_data e)))" using f by (simp add: fields_ok_def)
  ultimately have "distinct (map fst (mutation_fields rp mu))"
    using MU_entry by (auto simp: base_keys_def optional_keys)
  moreover have "list_all (\<lambda>p. json_ok (text_of_number rp) (number_of_text rp) (snd p)) (mutation_fields rp mu)"
    using MU_entry assms f optional_string_ok nullable_ok safe_number_ok
    by (auto simp: fields_ok_def seq_number_def simp del: json_ok.simps(1) intro: safe_number_ok)
  ultimately show ?thesis by simp
next
  case (MU_record r)
  then have f: "fields_ok rp (record_fields rp (rec_data r))" using assms by simp
  have "k \<notin> fst ` set (record_fields rp (rec_data r))" if "k \<in> set base_keys" for k
    using fields_disjoint [OF f that] .
  moreover have "distinct (map fst (record_fields rp (rec_data r)))" using f by (simp add: fields_ok_def)
  ultimately have "distinct (map fst (mutation_fields rp mu))"
    using MU_record by (auto simp: base_keys_def)
  moreover have "list_all (\<lambda>p. json_ok (text_of_number rp) (number_of_text rp) (snd p)) (mutation_fields rp mu)"
    using MU_record assms f
    by (auto simp: fields_ok_def seq_number_def simp del: json_ok.simps(1) intro: safe_number_ok)
  ultimately show ?thesis by simp
qed (use assms optional_string_ok nullable_ok safe_number_ok in
    \<open>auto simp: seq_number_def optional_keys simp del: json_ok.simps(1)\<close>)

section \<open>Round trips\<close>

lemma find_entry_type: "find (\<lambda>u. entry_type_name u = entry_type_name t) ENTRY_TYPES = Some t"
  by (cases t) (simp_all add: ENTRY_TYPES_def)

lemma find_record_type: "find (\<lambda>u. record_type_name u = record_type_name t) RECORD_TYPES = Some t"
  by (cases t) (simp_all add: RECORD_TYPES_def)

lemma requireNullableId_nullable: "requireNullableId (Some (nullable v)) field = Inr v"
  by (cases v) (simp_all add: nullable_def)

lemma optionalString_map: "optionalString (map_option JString v) field = Inr v"
  by (cases v) simp_all

lemma requireSequence_number: "0 < q \<Longrightarrow> safe_nat (int q) \<Longrightarrow> requireSequence (Some (seq_number q)) = Inr q"
  by (simp add: requireSequence_def seq_number_def safe_nat_def)

lemma requireTimestamp_number: "safe_nat i \<Longrightarrow> requireTimestamp (Some (JNumber (JInt i))) = Inr i"
  by (simp add: requireTimestamp_def safe_nat_def)

lemma payload_fields_id: "fields_ok rp fs \<Longrightarrow> payload_fields fs = fs"
  by (simp add: payload_fields_def fields_ok_def list_all_iff filter_id_conv)

lemma payload_fields_append: "payload_fields (ps @ qs) = payload_fields ps @ payload_fields qs"
  by (simp add: payload_fields_def)

lemma payload_fields_base: "list_all (\<lambda>p. fst p \<in> set base_keys) ps \<Longrightarrow> payload_fields ps = []"
  by (simp add: payload_fields_def list_all_iff filter_empty_conv)

lemma parse_fields:
  assumes "represented rp mu"
  shows "parseObject rp (stringify (text_of_number rp) (JObject (mutation_fields rp mu))) = Inr (mutation_fields rp mu)"
  by (simp only: parseObject_def parse_json_stringify [OF mutation_json_ok [OF assms]]) simp

lemma entry_roundtrip:
  assumes "represented rp (MU_entry lane e)"
  shows "parseEntryMutation rp (mutation_fields rp (MU_entry lane e)) (ent_seq e) = Inr (MU_entry lane e)"
proof -
  let ?fs = "entry_fields rp (ent_data e)" and ?ps = "mutation_fields rp (MU_entry lane e)"
  have f: "fields_ok rp ?fs" using assms by simp
  note none = fields_base [OF f]
  have look: "map_of ?ps ''lane'' = map_option JString lane" "map_of ?ps ''id'' = Some (JString (ent_id e))"
    "map_of ?ps ''type'' = Some (JString (entry_type_name (ent_type e)))"
    "map_of ?ps ''parentId'' = Some (nullable (ent_parentId e))"
    "map_of ?ps ''timestamp'' = Some (JNumber (JInt (ent_timestamp e)))"
    "map_of ?ps ''customType'' = map_of ?fs ''customType''"
    using none by (auto simp: base_keys_def map_add_def map_of_optional split: option.splits)
  have pay: "payload_fields ?ps = ?fs"
    using payload_fields_id [OF f]
    by (simp add: payload_fields_append) (simp add: payload_fields_def base_keys_def optional_def split: option.splits)
  have lane: "(case map_option JString lane of None \<Rightarrow> Inr None
      | Some v \<Rightarrow> andThen (requireString (Some v) ''lane'') (\<lambda>l. Inr (Some l))) = (Inr lane :: decode_error + string option)"
    by (cases lane) simp_all
  show ?thesis
    using assms unfolding parseEntryMutation_def look pay lane
    by (auto simp: find_entry_type requireNullableId_nullable requireTimestamp_number ent_type_def)
qed

lemma record_roundtrip:
  assumes "represented rp (MU_record r)"
  shows "parseRecordMutation rp (mutation_fields rp (MU_record r)) (rec_seq r) = Inr (MU_record r)"
proof -
  let ?fs = "record_fields rp (rec_data r)" and ?ps = "mutation_fields rp (MU_record r)"
  have f: "fields_ok rp ?fs" using assms by simp
  note none = fields_base [OF f]
  have look: "map_of ?ps ''lane'' = Some (JString (rec_lane r))" "map_of ?ps ''id'' = Some (JString (rec_id r))"
    "map_of ?ps ''type'' = Some (JString (record_type_name (rec_type r)))"
    "map_of ?ps ''timestamp'' = Some (JNumber (JInt (rec_timestamp r)))"
    "map_of ?ps ''intent'' = map_of ?fs ''intent''" "map_of ?ps ''runId'' = map_of ?fs ''runId''"
    using none by (auto simp: base_keys_def map_add_def split: option.splits)
  have pay: "payload_fields ?ps = ?fs"
    using payload_fields_id [OF f]
    by (simp add: payload_fields_append) (simp add: payload_fields_def base_keys_def)
  show ?thesis
    using assms unfolding parseRecordMutation_def look pay
    by (auto simp: find_record_type requireTimestamp_number rec_type_def)
qed

lemma mutation_roundtrip:
  assumes "represented rp mu"
  shows "parseMutation rp (stringify (text_of_number rp) (JObject (mutation_fields rp mu))) = Inr mu"
proof (cases mu)
  case (MU_entry lane e)
  then have f: "fields_ok rp (entry_fields rp (ent_data e))" using assms by simp
  have "map_of (mutation_fields rp mu) ''seq'' = Some (seq_number (ent_seq e))"
    "map_of (mutation_fields rp mu) ''kind'' = Some (JString ''entry'')"
    using MU_entry fields_base [OF f] by (auto simp: base_keys_def map_add_def map_of_optional split: option.splits)
  then show ?thesis
    using assms MU_entry entry_roundtrip [of rp lane e]
    unfolding parseMutation_def parse_fields [OF assms] by (simp add: requireSequence_number del: mutation_fields.simps)
next
  case (MU_record r)
  then have f: "fields_ok rp (record_fields rp (rec_data r))" using assms by simp
  have "map_of (mutation_fields rp mu) ''seq'' = Some (seq_number (rec_seq r))"
    "map_of (mutation_fields rp mu) ''kind'' = Some (JString ''record'')"
    using MU_record fields_base [OF f] by (auto simp: base_keys_def map_add_def split: option.splits)
  then show ?thesis
    using assms MU_record record_roundtrip [of rp r]
    unfolding parseMutation_def parse_fields [OF assms] by (simp add: requireSequence_number del: mutation_fields.simps)
qed (unfold parseMutation_def parse_fields [OF assms], use assms in \<open>simp_all add: requireSequence_number
    parseLaneMutation_def parseFactMutation_def requireNullableId_nullable map_of_optional optionalString_map\<close>)


definition header_ok :: "representation \<Rightarrow> jsonl_header \<Rightarrow> bool" where
  "header_ok rp h \<longleftrightarrow> safe_nat (jh_createdAt h) \<and>
     (jh_parentSessionId h = None \<or> jh_legacyParentSessionPath h = None) \<and>
     (\<forall>ps. jh_metadata h = Some ps \<longrightarrow> json_ok (text_of_number rp) (number_of_text rp) (JObject ps))"

lemma header_json_ok:
  assumes "header_ok rp h"
  shows "json_ok (text_of_number rp) (number_of_text rp) (header_object h)"
  using assms
  by (auto simp: header_ok_def header_object_def optional_keys optional_def number_law_def safe_nat_def
      MAX_SAFE_INTEGER_def split: option.splits)

lemma header_roundtrip:
  assumes "header_ok rp h"
  shows "parseHeader rp (stringify (text_of_number rp) (header_object h)) = Inr h"
proof -
  obtain ps where ps: "header_object h = JObject ps" by (simp add: header_object_def)
  have "parseObject rp (stringify (text_of_number rp) (header_object h)) = Inr ps"
    by (simp only: parseObject_def parse_json_stringify [OF header_json_ok [OF assms]]) (simp add: ps)
  moreover have "map_of ps ''kind'' = Some (JString ''header'')" "map_of ps ''version'' = Some (JNumber (JInt 4))"
    "map_of ps ''parentSessionId'' = map_option JString (jh_parentSessionId h)"
    "map_of ps ''legacyParentSessionPath'' = map_option JString (jh_legacyParentSessionPath h)"
    "map_of ps ''metadata'' = map_option JObject (jh_metadata h)"
    "map_of ps ''id'' = Some (JString (jh_id h))" "map_of ps ''cwd'' = Some (JString (jh_cwd h))"
    "map_of ps ''createdAt'' = Some (JNumber (JInt (jh_createdAt h)))"
    using ps by (auto simp: header_object_def map_add_def map_of_optional split: option.splits)
  moreover have "optionalObject (map_option JObject (jh_metadata h)) = Inr (jh_metadata h)"
    by (cases "jh_metadata h") simp_all
  ultimately show ?thesis
    using assms by (simp add: parseHeader_def header_ok_def optionalString_map requireTimestamp_number)
qed

section \<open>Lines\<close>

definition mutation_line :: "representation \<Rightarrow> session_mutation \<Rightarrow> string" where
  "mutation_line rp mu = stringify (text_of_number rp) (JObject (mutation_fields rp mu))"

definition header_line :: "representation \<Rightarrow> jsonl_header \<Rightarrow> string" where
  "header_line rp h = stringify (text_of_number rp) (header_object h)"

lemma encodeMutation_line: "encodeMutation rp mu = mutation_line rp mu @ [newline]"
  by (simp add: encodeMutation_def mutation_line_def)

lemma encodeHeader_line: "encodeHeader rp h = header_line rp h @ [newline]"
  by (simp add: encodeHeader_def header_line_def)

lemma mutation_line_no_newline: "represented rp mu \<Longrightarrow> newline \<notin> set (mutation_line rp mu)"
  unfolding mutation_line_def by (rule stringify_no_newline(1) [OF mutation_json_ok])

lemma header_line_no_newline: "header_ok rp h \<Longrightarrow> newline \<notin> set (header_line rp h)"
  unfolding header_line_def by (rule stringify_no_newline(1) [OF header_json_ok])

lemma parse_mutation_line: "represented rp mu \<Longrightarrow> parseMutation rp (mutation_line rp mu) = Inr mu"
  unfolding mutation_line_def by (rule mutation_roundtrip)

lemma parse_header_line: "header_ok rp h \<Longrightarrow> parseHeader rp (header_line rp h) = Inr h"
  unfolding header_line_def by (rule header_roundtrip)

lemma header_line_nonempty: "header_line rp h \<noteq> []"
  by (simp add: header_line_def header_object_def)

lemma mutation_line_nonempty: "mutation_line rp mu \<noteq> []"
  by (simp add: mutation_line_def)

text \<open>The torn end of a file: a proper prefix of a line is a syntax error.\<close>

lemma torn_line:
  assumes "represented rp mu" and "mutation_line rp mu = p @ q" and "q \<noteq> []"
  shows "\<exists>e. parseMutation rp p = Inl e \<and> de_kind e = DE_syntax"
  using torn_object [OF mutation_json_ok [OF assms(1)] assms(2) [unfolded mutation_line_def] assms(3)]
  by (simp add: parseMutation_def parseObject_def)

end
