(* ===== verification/File_System.thy ===== *)
theory File_System
  imports Session_Types
begin

text \<open>
  The file system the stores write to, the interface \<open>FileSystem\<close> of
  \<open>packages/agent/src/harness/types.ts\<close>. Its implementations call the operating system, so it is a
  parameter: a record of operations on a world \<open>'w\<close> which, as the interface demands, never throw but
  return an error or a result. \<open>disk\<close> states what the interface documents of them.

  A method of a store is a function of the world to the \<open>SessionError\<close> it throws or its result; the
  combinators are those of \<open>async\<close> code run one await after the other.
\<close>

section \<open>The interface\<close>

datatype file_kind = FK_file | FK_directory | FK_symlink

datatype file_error_code =
    FE_aborted | FE_not_found | FE_permission_denied | FE_not_directory | FE_is_directory
  | FE_invalid | FE_not_supported | FE_unknown

record file_error =
  fe_code :: file_error_code
  fe_message :: string

record file_info =
  fi_name :: string
  fi_path :: string
  fi_kind :: file_kind
  fi_size :: int
  fi_mtimeMs :: int

record 'w file_system =
  fs_absolutePath :: "string \<Rightarrow> 'w \<Rightarrow> (file_error + string) \<times> 'w"
  fs_joinPath :: "string list \<Rightarrow> 'w \<Rightarrow> (file_error + string) \<times> 'w"
  fs_readTextFile :: "string \<Rightarrow> 'w \<Rightarrow> (file_error + string) \<times> 'w"
  fs_readTextLines :: "string \<Rightarrow> nat \<Rightarrow> 'w \<Rightarrow> (file_error + string list) \<times> 'w"
  fs_writeFile :: "string \<Rightarrow> string \<Rightarrow> 'w \<Rightarrow> (file_error + unit) \<times> 'w"
  fs_appendFile :: "string \<Rightarrow> string \<Rightarrow> 'w \<Rightarrow> (file_error + unit) \<times> 'w"
  fs_renameFile :: "string \<Rightarrow> string \<Rightarrow> 'w \<Rightarrow> (file_error + unit) \<times> 'w"
  fs_fileInfo :: "string \<Rightarrow> 'w \<Rightarrow> (file_error + file_info) \<times> 'w"
  fs_listDir :: "string \<Rightarrow> 'w \<Rightarrow> (file_error + file_info list) \<times> 'w"
  fs_exists :: "string \<Rightarrow> 'w \<Rightarrow> (file_error + bool) \<times> 'w"
  fs_createDir :: "string \<Rightarrow> 'w \<Rightarrow> (file_error + unit) \<times> 'w"
  fs_remove :: "string \<Rightarrow> 'w \<Rightarrow> (file_error + unit) \<times> 'w"

section \<open>Methods of a store\<close>

type_synonym ('w, 'a) io = "'w \<Rightarrow> (session_error + 'a) \<times> 'w"

definition returnIO :: "'a \<Rightarrow> ('w, 'a) io" where
  "returnIO x = (\<lambda>w. (Inr x, w))"

definition throwIO :: "session_error \<Rightarrow> ('w, 'a) io" where
  "throwIO e = (\<lambda>w. (Inl e, w))"

definition liftIO :: "session_error + 'a \<Rightarrow> ('w, 'a) io" where
  "liftIO r = (\<lambda>w. (r, w))"

definition bindIO :: "('w, 'a) io \<Rightarrow> ('a \<Rightarrow> ('w, 'b) io) \<Rightarrow> ('w, 'b) io" where
  "bindIO m f = (\<lambda>w. case m w of (Inl e, w') \<Rightarrow> (Inl e, w') | (Inr x, w') \<Rightarrow> f x w')"

text \<open>\<open>try { m } catch (error) { h; throw error }\<close>, where \<open>h\<close> never throws.\<close>

definition onErrorIO :: "('w, 'a) io \<Rightarrow> ('w \<Rightarrow> 'w) \<Rightarrow> ('w, 'a) io" where
  "onErrorIO m h = (\<lambda>w. case m w of (Inl e, w') \<Rightarrow> (Inl e, h w') | (Inr x, w') \<Rightarrow> (Inr x, w'))"

definition fileResult :: "('w \<Rightarrow> (file_error + 'a) \<times> 'w) \<Rightarrow> string \<Rightarrow> ('w, 'a) io" where
  "fileResult op msg =
     (\<lambda>w. case op w of
        (Inl e, w') \<Rightarrow>
          (Inl (SessionError (if fe_code e = FE_not_found then SE_not_found else SE_storage)
                  (msg @ '': '' @ fe_message e)), w')
      | (Inr x, w') \<Rightarrow> (Inr x, w'))"

named_theorems io "unfolding of the sequenced methods"

lemma bindIO_Inr [io]:
  "bindIO m f w = (Inr y, w2) \<longleftrightarrow> (\<exists>x w1. m w = (Inr x, w1) \<and> f x w1 = (Inr y, w2))"
  by (auto simp: bindIO_def split: prod.splits sum.splits)

lemma bindIO_Inl [io]:
  "bindIO m f w = (Inl e, w2) \<longleftrightarrow>
     m w = (Inl e, w2) \<or> (\<exists>x w1. m w = (Inr x, w1) \<and> f x w1 = (Inl e, w2))"
  by (auto simp: bindIO_def split: prod.splits sum.splits)

lemma returnIO_eq [io, simp]: "returnIO x w = (Inr x, w)"
  by (simp add: returnIO_def)

lemma throwIO_eq [io, simp]: "throwIO e w = (Inl e, w)"
  by (simp add: throwIO_def)

lemma liftIO_eq [io, simp]: "liftIO r w = (r, w)"
  by (simp add: liftIO_def)

lemma onErrorIO_Inr [io]: "onErrorIO m h w = (Inr x, w') \<longleftrightarrow> m w = (Inr x, w')"
  by (auto simp: onErrorIO_def split: prod.splits sum.splits)

lemma onErrorIO_Inl [io]: "onErrorIO m h w = (Inl e, w') \<longleftrightarrow> (\<exists>w1. m w = (Inl e, w1) \<and> w' = h w1)"
  by (auto simp: onErrorIO_def split: prod.splits sum.splits)

lemma fileResult_Inr [io]: "fileResult op msg w = (Inr x, w') \<longleftrightarrow> op w = (Inr x, w')"
  by (auto simp: fileResult_def split: prod.splits sum.splits)

lemma fileResult_Inl:
  "fileResult op msg w = (Inl e, w') \<Longrightarrow>
     \<exists>err. op w = (Inl err, w') \<and> code e = (if fe_code err = FE_not_found then SE_not_found else SE_storage)"
  by (auto simp: fileResult_def split: prod.splits sum.splits)

lemma bindIO_cong [fundef_cong]:
  "m w = m' w' \<Longrightarrow> (\<And>x w1. m' w' = (Inr x, w1) \<Longrightarrow> f x w1 = f' x w1) \<Longrightarrow> w = w' \<Longrightarrow> bindIO m f w = bindIO m' f' w'"
  by (auto simp: bindIO_def split: prod.splits sum.splits)

section \<open>What the interface documents\<close>

text \<open>
  \<open>content w\<close> maps the paths of the files to their text. A failed append may have written a part of
  its text, a failed write may have left anything, and a rename happens as a whole or not at all.
\<close>

definition appended :: "string option \<Rightarrow> string \<Rightarrow> string" where
  "appended old s = (case old of None \<Rightarrow> s | Some t \<Rightarrow> t @ s)"

definition disk :: "'w file_system \<Rightarrow> ('w \<Rightarrow> string \<rightharpoonup> string) \<Rightarrow> bool" where
  "disk fs content \<longleftrightarrow>
     (\<forall>p w. content (snd (fs_readTextFile fs p w)) = content w) \<and>
     (\<forall>p w t. fst (fs_readTextFile fs p w) = Inr t \<longrightarrow> content w p = Some t) \<and>
     (\<forall>p w. content (snd (fs_fileInfo fs p w)) = content w) \<and>
     (\<forall>p s w. fst (fs_writeFile fs p s w) = Inr () \<longrightarrow>
        content (snd (fs_writeFile fs p s w)) = (content w)(p \<mapsto> s)) \<and>
     (\<forall>p s w q. q \<noteq> p \<longrightarrow> content (snd (fs_writeFile fs p s w)) q = content w q) \<and>
     (\<forall>p s w. fst (fs_appendFile fs p s w) = Inr () \<longrightarrow>
        content (snd (fs_appendFile fs p s w)) = (content w)(p \<mapsto> appended (content w p) s)) \<and>
     (\<forall>p s w q. q \<noteq> p \<longrightarrow> content (snd (fs_appendFile fs p s w)) q = content w q) \<and>
     (\<forall>p s w e. fst (fs_appendFile fs p s w) = Inl e \<longrightarrow>
        content (snd (fs_appendFile fs p s w)) p = content w p \<or>
        (\<exists>s1 s2. s = s1 @ s2 \<and> content (snd (fs_appendFile fs p s w)) p = Some (appended (content w p) s1))) \<and>
     (\<forall>p q w. fst (fs_renameFile fs p q w) = Inr () \<longrightarrow>
        content (snd (fs_renameFile fs p q w)) = (content w)(q := content w p, p := None)) \<and>
     (\<forall>p q w e. fst (fs_renameFile fs p q w) = Inl e \<longrightarrow> content (snd (fs_renameFile fs p q w)) = content w) \<and>
     (\<forall>p w q. q \<noteq> p \<longrightarrow> content (snd (fs_remove fs p w)) q = content w q)"

lemma disk_read:
  assumes "disk fs content" and "fs_readTextFile fs p w = (r, w')"
  shows "content w' = content w" and "r = Inr t \<Longrightarrow> content w p = Some t"
  using assms unfolding disk_def by (metis snd_conv, metis fst_conv)

lemma disk_info:
  assumes "disk fs content" and "fs_fileInfo fs p w = (r, w')"
  shows "content w' = content w"
  using assms unfolding disk_def by (metis snd_conv)

lemma disk_write:
  assumes "disk fs content" and "fs_writeFile fs p s w = (r, w')"
  shows "r = Inr () \<Longrightarrow> content w' = (content w)(p \<mapsto> s)" and "q \<noteq> p \<Longrightarrow> content w' q = content w q"
  using assms unfolding disk_def by (metis fst_conv snd_conv, metis snd_conv)

lemma disk_append:
  assumes "disk fs content" and "fs_appendFile fs p s w = (r, w')"
  shows "r = Inr () \<Longrightarrow> content w' = (content w)(p \<mapsto> appended (content w p) s)"
    and "q \<noteq> p \<Longrightarrow> content w' q = content w q"
  using assms unfolding disk_def by (metis fst_conv snd_conv, metis snd_conv)

lemma disk_append_failed:
  assumes "disk fs content" and "fs_appendFile fs p s w = (Inl e, w')" and "content w p = Some t"
  shows "\<exists>s1 s2. s = s1 @ s2 \<and> content w' p = Some (t @ s1)"
proof -
  have "content w' p = content w p \<or> (\<exists>s1 s2. s = s1 @ s2 \<and> content w' p = Some (appended (content w p) s1))"
    using assms(1,2) unfolding disk_def by (metis fst_conv snd_conv)
  then show ?thesis using assms(3) by (auto simp: appended_def)
qed

lemma disk_rename:
  assumes "disk fs content" and "fs_renameFile fs p q w = (r, w')"
  shows "r = Inr () \<Longrightarrow> content w' = (content w)(q := content w p, p := None)"
    and "r = Inl e \<Longrightarrow> content w' = content w"
  using assms unfolding disk_def by (metis fst_conv snd_conv, metis fst_conv snd_conv)

lemma disk_remove:
  assumes "disk fs content" and "q \<noteq> p"
  shows "content (snd (fs_remove fs p w)) q = content w q"
  using assms unfolding disk_def by blast

end
