(* ===== verification/Jsonl_Storage.thy ===== *)
theory Jsonl_Storage
  imports Jsonl_Roundtrip File_System Session_Memory
begin

text \<open>
  \<open>JsonlSessionStorage\<close> of \<open>packages/agent/src/harness/session/jsonl/storage.ts\<close>, with \<open>invalidFile\<close>
  of \<open>errors.ts\<close>. A storage is its metadata and its \<open>SessionState\<close>. The private queue \<open>tail\<close> runs the
  operations one after the other, so an operation is one function of the storage and the world; a
  storage whose operation throws keeps its state.
\<close>

section \<open>Lines\<close>

text \<open>\<open>content.split("\n")\<close> and \<open>lines.join("\n")\<close>.\<close>

fun split_lines :: "string \<Rightarrow> string list" where
  "split_lines [] = [[]]"
| "split_lines (c # cs) =
     (if c = newline then [] # split_lines cs
      else (case split_lines cs of [] \<Rightarrow> [[c]] | l # ls \<Rightarrow> (c # l) # ls))"

fun join_lines :: "string list \<Rightarrow> string" where
  "join_lines [] = []"
| "join_lines [l] = l"
| "join_lines (l # ls) = l @ newline # join_lines ls"

definition physical_lines :: "string \<Rightarrow> string list" where
  "physical_lines content =
     (let ls = split_lines content in if last_option ls = Some [] then butlast ls else ls)"

definition invalidFile :: "string \<Rightarrow> nat \<Rightarrow> string \<Rightarrow> session_error" where
  "invalidFile path line cause =
     SessionError SE_invalid_entry
       (''Invalid JSONL v4 session '' @ path @ '': line '' @ show_nat line @ '' '' @ cause)"

section \<open>The storage\<close>

record jsonl_storage =
  js_metadata :: jsonl_metadata
  js_state :: session_state

definition new_jsonl_storage :: "jsonl_metadata \<Rightarrow> jsonl_storage" where
  "new_jsonl_storage metadata = \<lparr>js_metadata = metadata, js_state = initial_state\<rparr>"

definition temp_path :: "string \<Rightarrow> string" where
  "temp_path path = path @ ''.tmp''"

definition publishFileAtomically ::
  "'w file_system \<Rightarrow> string \<Rightarrow> (string \<Rightarrow> ('w, unit) io) \<Rightarrow> ('w, unit) io" where
  "publishFileAtomically fs destinationPath populate =
     (let tempPath = temp_path destinationPath
      in onErrorIO
           (bindIO (populate tempPath) (\<lambda>_.
            fileResult (fs_renameFile fs tempPath destinationPath)
              (''Failed to publish staged file '' @ destinationPath)))
           (\<lambda>w. snd (fs_remove fs tempPath w)))"

definition jsonl_create ::
  "'w file_system \<Rightarrow> representation \<Rightarrow> string \<Rightarrow> jsonl_header \<Rightarrow> ('w, jsonl_storage) io" where
  "jsonl_create fs rp path header =
     bindIO (fileResult (fs_writeFile fs path (encodeHeader rp header)) (''Failed to initialize session '' @ path)) (\<lambda>_.
     bindIO (fileResult (fs_fileInfo fs path) (''Failed to read session metadata '' @ path)) (\<lambda>info.
     returnIO (new_jsonl_storage (metadataFromHeader header path (fi_mtimeMs info)))))"

text \<open>
  The loop of \<open>load\<close> over the lines after the header; \<open>seen\<close> are the lines before the current one.
  The flag of the result says that the loop repaired a torn tail and \<open>load\<close> returns at once.
\<close>

fun load_lines ::
  "'w file_system \<Rightarrow> representation \<Rightarrow> string \<Rightarrow> string list \<Rightarrow> string list \<Rightarrow> jsonl_storage \<Rightarrow>
   ('w, jsonl_storage \<times> bool) io" where
  "load_lines fs rp path seen [] st = returnIO (st, False)"
| "load_lines fs rp path seen (line # rest) st =
     (case parseMutation rp line of
        Inl e \<Rightarrow>
          if rest = [] \<and> de_kind e = DE_syntax then
            bindIO (publishFileAtomically fs path (\<lambda>tempPath.
                      fileResult (fs_writeFile fs tempPath (join_lines seen @ [newline]))
                        (''Failed to stage torn-tail repair '' @ path))) (\<lambda>_.
            returnIO (st, True))
          else throwIO (invalidFile path (length seen + 1) (de_message e))
      | Inr mu \<Rightarrow>
          (case applyMutation (js_state st) mu of
             Inl e \<Rightarrow>
               throwIO (if code e = SE_invalid_entry then invalidFile path (length seen + 1) (message e) else e)
           | Inr s \<Rightarrow> load_lines fs rp path (seen @ [line]) rest (st\<lparr>js_state := s\<rparr>)))"

definition ends_with_newline :: "string \<Rightarrow> bool" where
  "ends_with_newline content \<longleftrightarrow> last_option content = Some newline"

definition jsonl_load :: "'w file_system \<Rightarrow> representation \<Rightarrow> string \<Rightarrow> ('w, jsonl_storage) io" where
  "jsonl_load fs rp path =
     bindIO (fileResult (fs_readTextFile fs path) (''Failed to read session '' @ path)) (\<lambda>content.
     case physical_lines content of
       [] \<Rightarrow> throwIO (invalidFile path 1 ''is missing a header'')
     | first # rest \<Rightarrow>
         if first = [] then throwIO (invalidFile path 1 ''is missing a header'')
         else case parseHeader rp first of
                Inl e \<Rightarrow> throwIO (invalidFile path 1 (de_message e))
              | Inr header \<Rightarrow>
                  bindIO (fileResult (fs_fileInfo fs path) (''Failed to read session metadata '' @ path)) (\<lambda>info.
                  bindIO (load_lines fs rp path [first] rest
                            (new_jsonl_storage (metadataFromHeader header path (fi_mtimeMs info)))) (\<lambda>(st, repaired).
                  if repaired \<or> ends_with_newline content then returnIO st
                  else bindIO (fileResult (fs_appendFile fs path [newline])
                                 (''Failed to repair unterminated session tail '' @ path)) (\<lambda>_.
                       returnIO st))))"

text \<open>The private \<open>appendMutation\<close>, and with the private \<open>applyMutation\<close> after it.\<close>

definition appendMutation ::
  "'w file_system \<Rightarrow> representation \<Rightarrow> jsonl_storage \<Rightarrow> session_mutation \<Rightarrow> ('w, unit) io" where
  "appendMutation fs rp st mu =
     fileResult (fs_appendFile fs (jm_path (js_metadata st)) (encodeMutation rp mu))
       (''Failed to append session '' @ jm_path (js_metadata st))"

definition append_apply ::
  "'w file_system \<Rightarrow> representation \<Rightarrow> jsonl_storage \<Rightarrow> session_mutation \<Rightarrow> ('w, jsonl_storage) io" where
  "append_apply fs rp st mu =
     bindIO (appendMutation fs rp st mu) (\<lambda>_.
     bindIO (liftIO (applyMutation (js_state st) mu)) (\<lambda>s.
     returnIO (st\<lparr>js_state := s\<rparr>)))"

fun append_all ::
  "'w file_system \<Rightarrow> representation \<Rightarrow> jsonl_storage \<Rightarrow> session_mutation list \<Rightarrow> ('w, jsonl_storage) io" where
  "append_all fs rp st [] = returnIO st"
| "append_all fs rp st (mu # mus) = bindIO (append_apply fs rp st mu) (\<lambda>st'. append_all fs rp st' mus)"

definition jsonl_fork ::
  "'w file_system \<Rightarrow> representation \<Rightarrow> jsonl_storage \<Rightarrow> string \<Rightarrow> jsonl_header \<Rightarrow> fork_options \<Rightarrow>
   ('w, jsonl_storage) io" where
  "jsonl_fork fs rp st path header opts =
     bindIO (liftIO (createForkMutations (js_state st) opts)) (\<lambda>mutations.
     bindIO (publishFileAtomically fs path (\<lambda>tempPath.
               bindIO (jsonl_create fs rp tempPath header) (\<lambda>target.
               bindIO (append_all fs rp target mutations) (\<lambda>_.
               returnIO ())))) (\<lambda>_.
     jsonl_load fs rp path))"

section \<open>Operations\<close>

definition jsonl_createLane ::
  "'w file_system \<Rightarrow> representation \<Rightarrow> jsonl_storage \<Rightarrow> string \<Rightarrow> string option \<Rightarrow> ('w, jsonl_storage) io" where
  "jsonl_createLane fs rp st lane at =
     bindIO (liftIO (validateNewLane (js_state st) lane)) (\<lambda>_.
     bindIO (liftIO (validateTarget (js_state st) at)) (\<lambda>_.
     append_apply fs rp st (MU_lane (nextSequence (js_state st)) lane at)))"

definition jsonl_moveLane ::
  "'w file_system \<Rightarrow> representation \<Rightarrow> jsonl_storage \<Rightarrow> string \<Rightarrow> string option \<Rightarrow> ('w, jsonl_storage) io" where
  "jsonl_moveLane fs rp st lane to =
     bindIO (liftIO (requireLane (js_state st) lane)) (\<lambda>_.
     bindIO (liftIO (validateTarget (js_state st) to)) (\<lambda>_.
     append_apply fs rp st (MU_lane (nextSequence (js_state st)) lane to)))"

definition jsonl_appendEntry ::
  "'w file_system \<Rightarrow> representation \<Rightarrow> int \<Rightarrow> jsonl_storage \<Rightarrow> provisioned_entry \<Rightarrow> string \<Rightarrow>
   ('w, jsonl_storage \<times> entry) io" where
  "jsonl_appendEntry fs rp now st newEntry lane =
     bindIO (liftIO (requireLane (js_state st) lane)) (\<lambda>parentId.
     bindIO (liftIO (validateUnusedId (js_state st) (ent_id newEntry))) (\<lambda>_.
     let e = stored_entry newEntry parentId (nextSequence (js_state st)) now
     in bindIO (append_apply fs rp st (MU_entry (Some lane) e)) (\<lambda>st'.
        returnIO (st', e))))"

definition jsonl_appendRecord ::
  "'w file_system \<Rightarrow> representation \<Rightarrow> int \<Rightarrow> jsonl_storage \<Rightarrow> new_record \<Rightarrow>
   ('w, jsonl_storage \<times> lane_record) io" where
  "jsonl_appendRecord fs rp now st newRecord =
     bindIO (liftIO (requireLane (js_state st) (rec_lane newRecord))) (\<lambda>_.
     bindIO (liftIO (validateUnusedId (js_state st) (rec_id newRecord))) (\<lambda>_.
     bindIO (liftIO (findOpenOperations (js_state st) (rec_lane newRecord) (Some (JInt 1)))) (\<lambda>open.
     case (if rec_type newRecord = RT_operation_started then map_option os_id (array_get open 0)
           else None) of
       Some i \<Rightarrow> throwIO (SessionError SE_storage
                   (''Lane '' @ rec_lane newRecord @ '' already has an open operation '' @ i))
     | None \<Rightarrow>
         (let r = stored_record newRecord (nextSequence (js_state st)) now
          in bindIO (append_apply fs rp st (MU_record r)) (\<lambda>st'.
             returnIO (st', r))))))"

definition jsonl_setName ::
  "'w file_system \<Rightarrow> representation \<Rightarrow> jsonl_storage \<Rightarrow> string option \<Rightarrow> ('w, jsonl_storage) io" where
  "jsonl_setName fs rp st nm = append_apply fs rp st (MU_name (nextSequence (js_state st)) nm)"

definition jsonl_setLabel ::
  "'w file_system \<Rightarrow> representation \<Rightarrow> jsonl_storage \<Rightarrow> string \<Rightarrow> string option \<Rightarrow> ('w, jsonl_storage) io" where
  "jsonl_setLabel fs rp st i lbl =
     bindIO (liftIO (validateTarget (js_state st) (Some i))) (\<lambda>_.
     append_apply fs rp st (MU_label (nextSequence (js_state st)) i lbl))"

end
