(* ===== verification/Jsonl_Recovery.thy ===== *)
theory Jsonl_Recovery
  imports Jsonl_Storage
begin

text \<open>
  Loading a session file: what \<open>load\<close> makes of the text of a mutation log, whole or cut anywhere in its
  last line.
\<close>

section \<open>The text of a log\<close>

definition file_text :: "representation \<Rightarrow> jsonl_header \<Rightarrow> session_mutation list \<Rightarrow> string" where
  "file_text rp h mus = encodeHeader rp h @ concat (map (encodeMutation rp) mus)"

lemma file_text_snoc: "file_text rp h (mus @ [mu]) = file_text rp h mus @ encodeMutation rp mu"
  by (simp add: file_text_def)

lemma split_lines_nonempty: "split_lines s \<noteq> []"
  by (induction s) (auto split: list.splits)

lemma split_lines_line: "newline \<notin> set l \<Longrightarrow> split_lines (l @ newline # s) = l # split_lines s"
  by (induction l) auto

lemma split_lines_last: "newline \<notin> set l \<Longrightarrow> split_lines l = [l]"
  by (induction l) auto

lemma split_lines_text:
  "list_all (\<lambda>l. newline \<notin> set l) ls \<Longrightarrow>
     split_lines (concat (map (\<lambda>l. l @ [newline]) ls) @ s) = ls @ split_lines s"
  by (induction ls) (simp_all add: split_lines_line)

lemma physical_lines_text:
  assumes "list_all (\<lambda>l. newline \<notin> set l) ls" and "newline \<notin> set p"
  shows "physical_lines (concat (map (\<lambda>l. l @ [newline]) ls) @ p) = ls @ (if p = [] then [] else [p])"
  using assms by (simp add: physical_lines_def split_lines_text split_lines_last Let_def)

lemma join_lines_text: "ls \<noteq> [] \<Longrightarrow> join_lines ls @ [newline] = concat (map (\<lambda>l. l @ [newline]) ls)"
proof (induction ls rule: join_lines.induct)
  case (3 l m ls)
  then show ?case by simp
qed simp_all

definition log_lines :: "representation \<Rightarrow> jsonl_header \<Rightarrow> session_mutation list \<Rightarrow> string list" where
  "log_lines rp h mus = header_line rp h # map (mutation_line rp) mus"

lemma file_text_lines: "file_text rp h mus = concat (map (\<lambda>l. l @ [newline]) (log_lines rp h mus))"
  by (auto simp: file_text_def log_lines_def encodeHeader_line encodeMutation_line comp_def
      intro!: arg_cong [of _ _ concat])

lemma log_lines_no_newline:
  "header_ok rp h \<Longrightarrow> list_all (represented rp) mus \<Longrightarrow> list_all (\<lambda>l. newline \<notin> set l) (log_lines rp h mus)"
  by (auto simp: log_lines_def list_all_iff header_line_no_newline mutation_line_no_newline)

lemma file_text_rest:
  assumes "header_ok rp h" "list_all (represented rp) mus" "newline \<notin> set p"
  shows "physical_lines (file_text rp h mus @ p) =
    header_line rp h # map (mutation_line rp) mus @ (if p = [] then [] else [p])"
  using physical_lines_text [OF log_lines_no_newline [OF assms(1,2)] assms(3)]
  by (simp add: file_text_lines) (simp add: log_lines_def)

lemma file_text_ends: "ends_with_newline (file_text rp h mus @ p) \<longleftrightarrow> p = [] \<or> ends_with_newline p"
proof (cases "p = []")
  case True
  have "\<exists>t. file_text rp h mus = t @ [newline]"
    by (cases mus rule: rev_cases) (simp_all add: file_text_def encodeHeader_line encodeMutation_line)
  with True show ?thesis by (auto simp: ends_with_newline_def)
next
  case False
  then obtain q c where "p = q @ [c]" by (cases p rule: rev_cases) auto
  then have "last_option (file_text rp h mus @ p) = last_option p"
    by (simp flip: append_assoc)
  with False show ?thesis by (simp add: ends_with_newline_def)
qed

section \<open>The loop of load\<close>

lemma load_lines_log:
  assumes "list_all (represented rp) mus" and "foldR applyMutation (js_state st) mus = Inr s"
  shows "load_lines fs rp path seen (map (mutation_line rp) mus @ rest) st =
    load_lines fs rp path (seen @ map (mutation_line rp) mus) rest (st\<lparr>js_state := s\<rparr>)"
  using assms
proof (induction mus arbitrary: st seen)
  case (Cons mu mus)
  then obtain t where t: "applyMutation (js_state st) mu = Inr t"
    and "foldR applyMutation t mus = Inr s"
    by (auto simp: throws)
  with Cons.IH [of "st\<lparr>js_state := t\<rparr>" "seen @ [mutation_line rp mu]"] Cons.prems(1)
  show ?case by (simp add: parse_mutation_line)
next
  case Nil
  then show ?case by (cases st) simp
qed

text \<open>Publishing a file: its content as a whole, or what was there before.\<close>

lemma publish_content:
  assumes d: "disk fs content"
    and p: "publishFileAtomically fs path (\<lambda>t. fileResult (fs_writeFile fs t text) msg) w = (r, w')"
  shows "r = Inr u \<Longrightarrow> content w' path = Some text"
    and "r = Inl e \<Longrightarrow> content w' path = content w path \<and> code e \<in> {SE_storage, SE_not_found}"
proof -
  have ne: "path \<noteq> temp_path path" "temp_path path \<noteq> path" by (simp_all add: temp_path_def)
  {
    assume "r = Inr u"
    with p obtain w1 where "fs_writeFile fs (temp_path path) text w = (Inr (), w1)"
      and "fs_renameFile fs (temp_path path) path w1 = (Inr (), w')"
      by (auto simp: publishFileAtomically_def Let_def io)
    with disk_write(1) [OF d] disk_rename(1) [OF d] ne show "content w' path = Some text" by simp
  next
    assume "r = Inl e"
    with p obtain w1 where
      m: "bindIO (fileResult (fs_writeFile fs (temp_path path) text) msg) (\<lambda>_.
            fileResult (fs_renameFile fs (temp_path path) path) (''Failed to publish staged file '' @ path)) w = (Inl e, w1)"
      and w': "w' = snd (fs_remove fs (temp_path path) w1)"
      by (auto simp: publishFileAtomically_def Let_def io)
    have "content w1 path = content w path \<and> code e \<in> {SE_storage, SE_not_found}"
      using m disk_write(2) [OF d _ ne(1)] disk_rename(2) [OF d]
      by (auto simp: io dest!: fileResult_Inl)
    with w' disk_remove [OF d ne(1)] show "content w' path = content w path \<and> code e \<in> {SE_storage, SE_not_found}"
      by simp
  }
qed

section \<open>A log cut in its last line\<close>

text \<open>
  \<open>cut_log rp h mus mu text\<close>: the file holds the log \<open>mus\<close> and as much of the line of \<open>mu\<close> as an append
  that was interrupted had written.
\<close>

definition cut_log :: "representation \<Rightarrow> jsonl_header \<Rightarrow> session_mutation list \<Rightarrow> session_mutation \<Rightarrow> string \<Rightarrow> bool" where
  "cut_log rp h mus mu text \<longleftrightarrow> (\<exists>p q. encodeMutation rp mu = p @ q \<and> text = file_text rp h mus @ p)"

lemma cut_whole: "cut_log rp h mus mu (file_text rp h (mus @ [mu]))" "cut_log rp h mus mu (file_text rp h mus)"
  by (auto simp: cut_log_def file_text_snoc)

text \<open>The three places the cut can be: before the line, inside it, after it (with or without its newline).\<close>

lemma cut_cases:
  assumes "cut_log rp h mus mu text"
  obtains (none) "text = file_text rp h mus"
  | (part) p q where "text = file_text rp h mus @ p" "mutation_line rp mu = p @ q" "p \<noteq> []" "q \<noteq> []"
  | (whole) "text = file_text rp h mus @ mutation_line rp mu"
  | (ended) "text = file_text rp h (mus @ [mu])"
proof -
  obtain p q where pq: "mutation_line rp mu @ [newline] = p @ q" and t: "text = file_text rp h mus @ p"
    using assms by (auto simp: cut_log_def encodeMutation_line)
  show ?thesis
  proof (cases "p = [] \<or> q = []")
    case True
    with pq t none ended show ?thesis by (auto simp: file_text_snoc encodeMutation_line)
  next
    case False
    then obtain q' c where q: "q = q' @ [c]" by (cases q rule: rev_cases) auto
    with pq have "mutation_line rp mu = p @ q'" by auto
    with t False whole part show ?thesis by (cases "q' = []") auto
  qed
qed

text \<open>
  What loading such a file does, on any disk: it returns the state before the mutation and a file
  that holds the log before it, or the state and the log after it; if the disk fails it throws the
  disk's error and the file is still such a file. Never is the file found corrupt.
\<close>

definition recovery ::
  "('w \<Rightarrow> string \<rightharpoonup> string) \<Rightarrow> representation \<Rightarrow> jsonl_header \<Rightarrow> session_mutation list \<Rightarrow> session_mutation \<Rightarrow>
   string \<Rightarrow> session_state \<Rightarrow> session_state \<Rightarrow> (session_error + jsonl_storage) \<times> 'w \<Rightarrow> bool" where
  "recovery content rp h mus mu path s s' res \<longleftrightarrow>
     (case res of
        (Inl e, w') \<Rightarrow> code e \<in> {SE_storage, SE_not_found} \<and>
          (\<exists>text. content w' path = Some text \<and> cut_log rp h mus mu text)
      | (Inr st, w') \<Rightarrow> jm_path (js_metadata st) = path \<and> md_id (js_metadata st) = jh_id h \<and>
          (js_state st = s \<and> content w' path = Some (file_text rp h mus) \<or>
           js_state st = s' \<and> content w' path = Some (file_text rp h (mus @ [mu]))))"

lemma recovery_error: "code e \<in> {SE_storage, SE_not_found} \<Longrightarrow> content w' path = Some text \<Longrightarrow>
  cut_log rp h mus mu text \<Longrightarrow> recovery content rp h mus mu path s s' (Inl e, w')"
  by (auto simp: recovery_def)

text \<open>What \<open>load\<close> does after it has read the file and the header.\<close>

definition load_body ::
  "'w file_system \<Rightarrow> representation \<Rightarrow> string \<Rightarrow> string \<Rightarrow> string list \<Rightarrow> jsonl_storage \<Rightarrow> ('w, jsonl_storage) io" where
  "load_body fs rp path text ls st =
     bindIO (load_lines fs rp path [hd ls] (tl ls) st) (\<lambda>(st, repaired).
     if repaired \<or> ends_with_newline text then returnIO st
     else bindIO (fileResult (fs_appendFile fs path [newline])
                    (''Failed to repair unterminated session tail '' @ path)) (\<lambda>_.
          returnIO st))"

lemma jsonl_load_body:
  assumes d: "disk fs content" and ct: "content w path = Some text"
    and ls: "physical_lines text = header_line rp h # ls" and h: "header_ok rp h"
    and load: "jsonl_load fs rp path w = (r, w')"
  shows "(\<exists>e. r = Inl e \<and> content w' = content w \<and> code e \<in> {SE_storage, SE_not_found}) \<or>
    (\<exists>(info :: file_info) w1. content w1 = content w \<and>
       load_body fs rp path text (header_line rp h # ls)
         (new_jsonl_storage (metadataFromHeader h path (fi_mtimeMs info))) w1 = (r, w'))"
proof -
  obtain r1 w1 where read: "fs_readTextFile fs path w = (r1, w1)" by fastforce
  obtain r2 w2 where info: "fs_fileInfo fs path w1 = (r2, w2)" by fastforce
  have c: "content w1 = content w" "content w2 = content w"
    using disk_read(1) [OF d read] disk_info [OF d info] by simp_all
  note run = load read info ls parse_header_line [OF h] header_line_nonempty [of rp h]
  show ?thesis
  proof (cases "\<exists>t i. r1 = Inr t \<and> r2 = Inr i")
    case True
    then obtain t i where r: "r1 = Inr t" "r2 = Inr i" by blast
    with disk_read(2) [OF d read] ct run
    have "load_body fs rp path text (header_line rp h # ls)
        (new_jsonl_storage (metadataFromHeader h path (fi_mtimeMs i))) w2 = (r, w')"
      by (simp add: jsonl_load_def bindIO_def fileResult_def load_body_def)
    with c show ?thesis by metis
  next
    case False
    with run c disk_read(2) [OF d read] ct show ?thesis
      by (cases r1; cases r2) (auto simp: jsonl_load_def bindIO_def fileResult_def split: if_splits)
  qed
qed

lemma load_body_log:
  assumes "list_all (represented rp) mus" and "foldR applyMutation initial_state mus = Inr s"
  shows "load_body fs rp path text (header_line rp h # map (mutation_line rp) mus @ rest) (new_jsonl_storage md) =
    bindIO (load_lines fs rp path (log_lines rp h mus) rest \<lparr>js_metadata = md, js_state = s\<rparr>) (\<lambda>(st, repaired).
      if repaired \<or> ends_with_newline text then returnIO st
      else bindIO (fileResult (fs_appendFile fs path [newline])
                     (''Failed to repair unterminated session tail '' @ path)) (\<lambda>_.
           returnIO st))"
  using load_lines_log [of rp mus "new_jsonl_storage md" s fs path "[header_line rp h]" rest] assms
  by (simp add: load_body_def new_jsonl_storage_def log_lines_def)

text \<open>The two repairs at the end of a file.\<close>

lemma append_newline:
  assumes d: "disk fs content" and c: "content w path = Some text"
    and run: "bindIO (fileResult (fs_appendFile fs path [newline]) msg) (\<lambda>_. returnIO st) w = (r, w')"
  shows "r = Inr st \<and> content w' path = Some (text @ [newline]) \<or>
    (\<exists>e. r = Inl e \<and> code e \<in> {SE_storage, SE_not_found} \<and>
      (content w' path = Some text \<or> content w' path = Some (text @ [newline])))"
proof -
  obtain r1 w1 where app: "fs_appendFile fs path [newline] w = (r1, w1)" by fastforce
  show ?thesis
  proof (cases r1)
    case (Inl err)
    with disk_append_failed [OF d _ c] app
    obtain s1 s2 where "[newline] = s1 @ s2" "content w1 path = Some (text @ s1)" by blast
    then have "content w1 path = Some text \<or> content w1 path = Some (text @ [newline])"
      by (cases s1) auto
    with run app Inl show ?thesis by (auto simp: bindIO_def fileResult_def split: if_splits)
  next
    case (Inr u)
    with disk_append(1) [OF d app] run app c show ?thesis
      by (auto simp: bindIO_def fileResult_def appended_def)
  qed
qed

lemma load_lines_torn:
  assumes d: "disk fs content" and mu: "represented rp mu" "mutation_line rp mu = p @ q" "q \<noteq> []"
    and run: "load_lines fs rp path (log_lines rp h mus) [p] st w = (r, w')"
  shows "r = Inr (st, True) \<and> content w' path = Some (file_text rp h mus) \<or>
    (\<exists>e. r = Inl e \<and> code e \<in> {SE_storage, SE_not_found} \<and> content w' path = content w path)"
proof -
  obtain e where e: "parseMutation rp p = Inl e" "de_kind e = DE_syntax"
    using torn_line [OF mu] by blast
  let ?text = "join_lines (log_lines rp h mus) @ [newline]"
  have t: "?text = file_text rp h mus"
    by (simp add: join_lines_text file_text_lines log_lines_def del: join_lines.simps)
  obtain r1 where pub: "publishFileAtomically fs path (\<lambda>tempPath.
      fileResult (fs_writeFile fs tempPath ?text) (''Failed to stage torn-tail repair '' @ path)) w = (r1, w')"
    and r: "r = (case r1 of Inl e \<Rightarrow> Inl e | Inr _ \<Rightarrow> Inr (st, True))"
    using run e by (auto simp: bindIO_def split: prod.splits sum.splits)
  show ?thesis
    using publish_content [OF d pub] r t by (cases r1) auto
qed

theorem load_cut_log:
  assumes d: "disk fs content" and h: "header_ok rp h"
    and mus: "list_all (represented rp) mus" "foldR applyMutation initial_state mus = Inr s"
    and mu: "represented rp mu" "applyMutation s mu = Inr s'"
    and ct: "content w path = Some text" "cut_log rp h mus mu text"
  shows "recovery content rp h mus mu path s s' (jsonl_load fs rp path w)"
proof -
  obtain r w' where load: "jsonl_load fs rp path w = (r, w')" by fastforce
  note nn = mutation_line_no_newline [OF mu(1)]
  have mus': "list_all (represented rp) (mus @ [mu])" using mus mu by simp
  have fold': "foldR applyMutation initial_state (mus @ [mu]) = Inr s'"
    using mus mu by (simp add: foldR_append)
  note body = jsonl_load_body [OF d ct(1) _ h load]
  have failed: ?thesis if "r = Inl e" "content w' = content w" "code e \<in> {SE_storage, SE_not_found}" for e
    unfolding load that(1) by (rule recovery_error [OF that(3) _ ct(2)]) (simp add: that(2) ct(1))
  from ct(2) show ?thesis
  proof (cases rule: cut_cases)
    case none
    have "physical_lines text = header_line rp h # map (mutation_line rp) mus @ []"
      using file_text_rest [OF h mus(1), of "[]"] none by simp
    from body [OF this] show ?thesis
      using file_text_ends [of rp h mus "[]"] none ct(1) failed
      by (auto simp: load_body_log [OF mus, where rest = "[]", simplified] load recovery_def bindIO_def metadataFromHeader_def)
  next
    case ended
    have "physical_lines text = header_line rp h # map (mutation_line rp) (mus @ [mu]) @ []"
      using file_text_rest [OF h mus', of "[]"] ended by simp
    from body [OF this] show ?thesis
      using file_text_ends [of rp h "mus @ [mu]" "[]"] ended ct(1) failed
      by (auto simp: load_body_log [OF mus' fold', where rest = "[]", simplified] load recovery_def bindIO_def metadataFromHeader_def)
  next
    case whole
    have ends: "\<not> ends_with_newline text"
      using file_text_ends [of rp h mus "mutation_line rp mu"] mutation_line_nonempty [of rp mu] nn whole
      by (auto simp: ends_with_newline_def dest: last_option_SomeD)
    have "physical_lines text = header_line rp h # map (mutation_line rp) (mus @ [mu]) @ []"
      using file_text_rest [OF h mus(1) nn] mutation_line_nonempty [of rp mu] whole by simp
    from body [OF this] show ?thesis
    proof (elim disjE exE conjE)
      fix info :: file_info and w1
      assume c: "content w1 = content w"
        and b: "load_body fs rp path text (header_line rp h # map (mutation_line rp) (mus @ [mu]) @ [])
          (new_jsonl_storage (metadataFromHeader h path (fi_mtimeMs info))) w1 = (r, w')"
      let ?st = "\<lparr>js_metadata = metadataFromHeader h path (fi_mtimeMs info), js_state = s'\<rparr>"
      from b have "bindIO (fileResult (fs_appendFile fs path [newline])
          (''Failed to repair unterminated session tail '' @ path)) (\<lambda>_. returnIO ?st) w1 = (r, w')"
        unfolding load_body_log [OF mus' fold'] using ends by (simp add: bindIO_def)
      from append_newline [OF d _ this, of "text"] ct(1) c whole cut_whole [of rp h mus mu]
      show ?thesis
        using ct(2) by (auto simp: load recovery_def metadataFromHeader_def file_text_snoc encodeMutation_line)
    qed (rule failed)
  next
    case (part p q)
    have "newline \<notin> set p" using nn part(2) by simp
    with file_text_rest [OF h mus(1), of p] part
    have "physical_lines text = header_line rp h # map (mutation_line rp) mus @ [p]" by simp
    from body [OF this] show ?thesis
    proof (elim disjE exE conjE)
      fix info :: file_info and w1
      assume c: "content w1 = content w"
        and b: "load_body fs rp path text (header_line rp h # map (mutation_line rp) mus @ [p])
          (new_jsonl_storage (metadataFromHeader h path (fi_mtimeMs info))) w1 = (r, w')"
      let ?st = "\<lparr>js_metadata = metadataFromHeader h path (fi_mtimeMs info), js_state = s\<rparr>"
      obtain r2 w2 where run: "load_lines fs rp path (log_lines rp h mus) [p] ?st w1 = (r2, w2)" by fastforce
      from load_lines_torn [OF d mu(1) part(2,4) run] b c ct run
      show ?thesis
        unfolding load_body_log [OF mus]
        by (auto simp: bindIO_def load recovery_def metadataFromHeader_def)
    qed (rule failed)
  qed
qed

end
