(* ===== verification/Jsonl_Durability.thy ===== *)
theory Jsonl_Durability
  imports Jsonl_Recovery
begin

text \<open>
  The file-backed storage against the in-memory one. Both decide first and commit then: \<open>decide\<close> is
  the part of an operation that reads the state and throws or builds a mutation, the commit is an
  append to the file and the application of the mutation.
\<close>

section \<open>Operations as requests\<close>

datatype request =
    Q_createLane string "string option"
  | Q_moveLane string "string option"
  | Q_appendEntry int provisioned_entry string
  | Q_appendRecord int new_record
  | Q_setName "string option"
  | Q_setLabel string "string option"

datatype answer = A_done | A_entry entry | A_record lane_record

fun run_memory :: "memory_storage \<Rightarrow> request \<Rightarrow> session_error + memory_storage \<times> answer" where
  "run_memory st (Q_createLane lane at) = andThen (createLane st lane at) (\<lambda>t. Inr (t, A_done))"
| "run_memory st (Q_moveLane lane to) = andThen (moveLane st lane to) (\<lambda>t. Inr (t, A_done))"
| "run_memory st (Q_appendEntry now new lane) = andThen (appendEntry now st new lane) (\<lambda>(t, e). Inr (t, A_entry e))"
| "run_memory st (Q_appendRecord now new) = andThen (appendRecord now st new) (\<lambda>(t, r). Inr (t, A_record r))"
| "run_memory st (Q_setName nm) = andThen (setName st nm) (\<lambda>t. Inr (t, A_done))"
| "run_memory st (Q_setLabel i lbl) = andThen (setLabel st i lbl) (\<lambda>t. Inr (t, A_done))"

fun run_jsonl :: "'w file_system \<Rightarrow> representation \<Rightarrow> jsonl_storage \<Rightarrow> request \<Rightarrow> ('w, jsonl_storage \<times> answer) io" where
  "run_jsonl fs rp st (Q_createLane lane at) =
     bindIO (jsonl_createLane fs rp st lane at) (\<lambda>t. returnIO (t, A_done))"
| "run_jsonl fs rp st (Q_moveLane lane to) =
     bindIO (jsonl_moveLane fs rp st lane to) (\<lambda>t. returnIO (t, A_done))"
| "run_jsonl fs rp st (Q_appendEntry now new lane) =
     bindIO (jsonl_appendEntry fs rp now st new lane) (\<lambda>(t, e). returnIO (t, A_entry e))"
| "run_jsonl fs rp st (Q_appendRecord now new) =
     bindIO (jsonl_appendRecord fs rp now st new) (\<lambda>(t, r). returnIO (t, A_record r))"
| "run_jsonl fs rp st (Q_setName nm) =
     bindIO (jsonl_setName fs rp st nm) (\<lambda>t. returnIO (t, A_done))"
| "run_jsonl fs rp st (Q_setLabel i lbl) =
     bindIO (jsonl_setLabel fs rp st i lbl) (\<lambda>t. returnIO (t, A_done))"

fun decide :: "session_state \<Rightarrow> request \<Rightarrow> session_error + session_mutation \<times> answer" where
  "decide s (Q_createLane lane at) =
     andThen (validateNewLane s lane) (\<lambda>_. andThen (validateTarget s at) (\<lambda>_.
     Inr (MU_lane (nextSequence s) lane at, A_done)))"
| "decide s (Q_moveLane lane to) =
     andThen (requireLane s lane) (\<lambda>_. andThen (validateTarget s to) (\<lambda>_.
     Inr (MU_lane (nextSequence s) lane to, A_done)))"
| "decide s (Q_appendEntry now new lane) =
     andThen (requireLane s lane) (\<lambda>parentId. andThen (validateUnusedId s (ent_id new)) (\<lambda>_.
     let e = stored_entry new parentId (nextSequence s) now in Inr (MU_entry (Some lane) e, A_entry e)))"
| "decide s (Q_appendRecord now new) =
     andThen (requireLane s (rec_lane new)) (\<lambda>_. andThen (validateUnusedId s (rec_id new)) (\<lambda>_.
     andThen (findOpenOperations s (rec_lane new) (Some (JInt 1))) (\<lambda>open.
     case (if rec_type new = RT_operation_started then map_option os_id (array_get open 0) else None) of
       Some i \<Rightarrow> Inl (SessionError SE_storage
                   (''Lane '' @ rec_lane new @ '' already has an open operation '' @ i))
     | None \<Rightarrow> (let r = stored_record new (nextSequence s) now in Inr (MU_record r, A_record r)))))"
| "decide s (Q_setName nm) = Inr (MU_name (nextSequence s) nm, A_done)"
| "decide s (Q_setLabel i lbl) =
     andThen (validateTarget s (Some i)) (\<lambda>_. Inr (MU_label (nextSequence s) i lbl, A_done))"

lemma andThen_if: "andThen (if b then x else y) f = (if b then andThen x f else andThen y f)"
  by simp

lemma run_memory_decide:
  "run_memory st q = andThen (decide (ms_state st) q) (\<lambda>(mu, a).
     andThen (applyMutation (ms_state st) mu) (\<lambda>s. Inr (st\<lparr>ms_state := s\<rparr>, a)))"
  by (cases q) (auto simp: createLane_def moveLane_def appendEntry_def appendRecord_def setName_def
      setLabel_def andThen_def Let_def split: sum.splits option.splits)

lemma run_jsonl_decide:
  "run_jsonl fs rp st q w = bindIO (liftIO (decide (js_state st) q)) (\<lambda>(mu, a).
     bindIO (append_apply fs rp st mu) (\<lambda>t. returnIO (t, a))) w"
  by (cases q) (auto simp: jsonl_createLane_def jsonl_moveLane_def jsonl_appendEntry_def
      jsonl_appendRecord_def jsonl_setName_def jsonl_setLabel_def andThen_def bindIO_def Let_def
      split: sum.splits option.splits prod.splits)

lemma decide_accepted:
  assumes "wf_state s" and "decide s q = Inr (mu, a)"
  shows "\<exists>t. applyMutation s mu = Inr t"
  unfolding applyMutation_accepts
  using assms leaf_known [OF assms(1)]
  by (cases q) (auto simp: throws Let_def nextSequence_def requireLane_def validateUnusedId_def
      validateTarget_def validateNewLane_def mutation_ok.simps split: option.splits if_splits)

section \<open>The file holds the state\<close>

definition in_memory :: "jsonl_storage \<Rightarrow> memory_storage" where
  "in_memory st = \<lparr>ms_metadata = session_metadata.truncate (js_metadata st), ms_state = js_state st\<rparr>"

text \<open>
  \<open>holds\<close>: the file of a storage is the text of a log that leads to its state. \<open>writable\<close>: the
  mutation a request makes, if it makes one, can be read back from its line.
\<close>

definition holds ::
  "('w \<Rightarrow> string \<rightharpoonup> string) \<Rightarrow> representation \<Rightarrow> jsonl_header \<Rightarrow> session_mutation list \<Rightarrow> jsonl_storage \<Rightarrow> 'w \<Rightarrow> bool" where
  "holds content rp h mus st w \<longleftrightarrow>
     header_ok rp h \<and> list_all (represented rp) mus \<and>
     foldR applyMutation initial_state mus = Inr (js_state st) \<and>
     content w (jm_path (js_metadata st)) = Some (file_text rp h mus)"

definition writable :: "representation \<Rightarrow> session_state \<Rightarrow> request \<Rightarrow> bool" where
  "writable rp s q \<longleftrightarrow> (case decide s q of Inl _ \<Rightarrow> True | Inr (mu, a) \<Rightarrow> represented rp mu)"

lemma holds_wf: "holds content rp h mus st w \<Longrightarrow> wf_state (js_state st)"
  unfolding holds_def by (metis reachable_foldR reach_init reachable_wf)

lemma append_apply_step:
  assumes d: "disk fs content" and st: "holds content rp h mus st w"
    and mu: "represented rp mu" "applyMutation (js_state st) mu = Inr s'"
    and run: "append_apply fs rp st mu w = (r, w')"
  shows "r = Inr (st\<lparr>js_state := s'\<rparr>) \<and> holds content rp h (mus @ [mu]) (st\<lparr>js_state := s'\<rparr>) w' \<or>
    (\<exists>e text. r = Inl e \<and> code e \<in> {SE_storage, SE_not_found} \<and>
       content w' (jm_path (js_metadata st)) = Some text \<and> cut_log rp h mus mu text)"
proof -
  let ?path = "jm_path (js_metadata st)"
  obtain r1 w1 where app: "fs_appendFile fs ?path (encodeMutation rp mu) w = (r1, w1)" by fastforce
  have ct: "content w ?path = Some (file_text rp h mus)" using st by (simp add: holds_def)
  show ?thesis
  proof (cases r1)
    case (Inl err)
    then obtain s1 s2 where "encodeMutation rp mu = s1 @ s2" "content w1 ?path = Some (file_text rp h mus @ s1)"
      using disk_append_failed [OF d _ ct] app by blast
    then have "\<exists>t. content w1 ?path = Some t \<and> cut_log rp h mus mu t" unfolding cut_log_def by blast
    with Inl app run show ?thesis
      by (auto simp: append_apply_def appendMutation_def bindIO_def fileResult_def split: if_splits)
  next
    case (Inr u)
    with disk_append(1) [OF d app] ct
    have "content w1 ?path = Some (file_text rp h (mus @ [mu]))" by (simp add: appended_def file_text_snoc)
    with Inr app run st mu show ?thesis
      by (auto simp: append_apply_def appendMutation_def bindIO_def fileResult_def holds_def foldR_append)
  qed
qed

text \<open>
  One request: the file-backed storage does what the in-memory one does, the file follows, and
  when the disk fails the file holds the log with a part of the line. The request is not lost
  half way: opening the session again gives the state before it or the state after it.
\<close>

theorem request_refines_memory:
  assumes d: "disk fs content" and st: "holds content rp h mus st w" and q: "writable rp (js_state st) q"
  shows "case run_jsonl fs rp st q w of
      (Inr (st', a), w') \<Rightarrow> run_memory (in_memory st) q = Inr (in_memory st', a) \<and>
        js_metadata st' = js_metadata st \<and> (\<exists>mu. holds content rp h (mus @ [mu]) st' w')
    | (Inl e, w') \<Rightarrow>
        run_memory (in_memory st) q = Inl e \<and> w' = w \<or>
        (\<exists>mu a s' text. decide (js_state st) q = Inr (mu, a) \<and> applyMutation (js_state st) mu = Inr s' \<and>
           code e \<in> {SE_storage, SE_not_found} \<and>
           content w' (jm_path (js_metadata st)) = Some text \<and> cut_log rp h mus mu text)"
proof (cases "decide (js_state st) q")
  case (Inl e)
  then show ?thesis
    unfolding run_jsonl_decide run_memory_decide by (simp add: bindIO_def in_memory_def)
next
  case (Inr x)
  then obtain mu a where x: "decide (js_state st) q = Inr (mu, a)" by (cases x) simp
  with q have mu: "represented rp mu" by (simp add: writable_def)
  obtain s' where s': "applyMutation (js_state st) mu = Inr s'"
    using decide_accepted [OF holds_wf [OF st] x] by blast
  obtain r w' where run: "append_apply fs rp st mu w = (r, w')" by fastforce
  from append_apply_step [OF d st mu s' run] show ?thesis
    unfolding run_jsonl_decide run_memory_decide
    by (auto simp: x s' run bindIO_def in_memory_def)
qed

section \<open>Any number of requests\<close>

text \<open>A disk whose operations succeed.\<close>

definition healthy :: "'w file_system \<Rightarrow> ('w \<Rightarrow> string \<rightharpoonup> string) \<Rightarrow> bool" where
  "healthy fs content \<longleftrightarrow> disk fs content \<and>
     (\<forall>p w t. content w p = Some t \<longrightarrow> fst (fs_readTextFile fs p w) = Inr t) \<and>
     (\<forall>p w t. content w p = Some t \<longrightarrow> (\<exists>i. fst (fs_fileInfo fs p w) = Inr i)) \<and>
     (\<forall>p s w. fst (fs_writeFile fs p s w) = Inr ()) \<and>
     (\<forall>p s w. fst (fs_appendFile fs p s w) = Inr ()) \<and>
     (\<forall>p q w t. content w p = Some t \<longrightarrow> fst (fs_renameFile fs p q w) = Inr ())"

lemma healthy_disk: "healthy fs content \<Longrightarrow> disk fs content"
  by (simp add: healthy_def)

text \<open>The requests of a caller that goes on after one that threw.\<close>

fun serve :: "'w file_system \<Rightarrow> representation \<Rightarrow> jsonl_storage \<Rightarrow> request list \<Rightarrow> 'w \<Rightarrow> jsonl_storage \<times> 'w" where
  "serve fs rp st [] w = (st, w)"
| "serve fs rp st (q # qs) w =
     (case run_jsonl fs rp st q w of
        (Inr (st', a), w') \<Rightarrow> serve fs rp st' qs w'
      | (Inl e, w') \<Rightarrow> serve fs rp st qs w')"

fun serve_memory :: "memory_storage \<Rightarrow> request list \<Rightarrow> memory_storage" where
  "serve_memory st [] = st"
| "serve_memory st (q # qs) =
     (case run_memory st q of Inr (st', a) \<Rightarrow> serve_memory st' qs | Inl e \<Rightarrow> serve_memory st qs)"

fun all_writable :: "representation \<Rightarrow> memory_storage \<Rightarrow> request list \<Rightarrow> bool" where
  "all_writable rp st [] \<longleftrightarrow> True"
| "all_writable rp st (q # qs) \<longleftrightarrow> writable rp (ms_state st) q \<and>
     (case run_memory st q of Inr (st', a) \<Rightarrow> all_writable rp st' qs | Inl e \<Rightarrow> all_writable rp st qs)"

lemma healthy_append_apply:
  assumes "healthy fs content"
  shows "\<exists>w'. fileResult (fs_appendFile fs p s) msg w = (Inr (), w')"
proof -
  have "fst (fs_appendFile fs p s w) = Inr ()" using assms unfolding healthy_def by blast
  then show ?thesis by (cases "fs_appendFile fs p s w") (simp add: fileResult_def)
qed

lemma healthy_request:
  assumes d: "healthy fs content" and st: "holds content rp h mus st w" and q: "writable rp (js_state st) q"
  shows "case run_jsonl fs rp st q w of
      (Inr (st', a), w') \<Rightarrow> run_memory (in_memory st) q = Inr (in_memory st', a) \<and>
        js_metadata st' = js_metadata st \<and> (\<exists>mu. holds content rp h (mus @ [mu]) st' w')
    | (Inl e, w') \<Rightarrow> run_memory (in_memory st) q = Inl e \<and> w' = w"
proof (cases "decide (js_state st) q")
  case (Inl e)
  then show ?thesis
    unfolding run_jsonl_decide run_memory_decide by (simp add: bindIO_def in_memory_def)
next
  case (Inr x)
  then obtain mu a where x: "decide (js_state st) q = Inr (mu, a)" by (cases x) simp
  obtain s' where s': "applyMutation (js_state st) mu = Inr s'"
    using decide_accepted [OF holds_wf [OF st] x] by blast
  obtain w' where "append_apply fs rp st mu w = (Inr (st\<lparr>js_state := s'\<rparr>), w')"
    using healthy_append_apply [OF d, of "jm_path (js_metadata st)" "encodeMutation rp mu"
        "''Failed to append session '' @ jm_path (js_metadata st)" w] s'
    by (auto simp: append_apply_def appendMutation_def bindIO_def)
  then have "\<exists>y. run_jsonl fs rp st q w = (Inr y, w')"
    unfolding run_jsonl_decide by (simp add: x bindIO_def)
  then show ?thesis
    using request_refines_memory [OF healthy_disk [OF d] st q] by auto
qed

lemma serve_holds:
  assumes d: "healthy fs content" and "holds content rp h mus st w" and "all_writable rp (in_memory st) qs"
    and "serve fs rp st qs w = (st', w')"
  shows "in_memory st' = serve_memory (in_memory st) qs \<and> js_metadata st' = js_metadata st \<and>
    (\<exists>mus'. holds content rp h (mus @ mus') st' w')"
  using assms(2-)
proof (induction qs arbitrary: st w mus)
  case Nil
  then show ?case by (auto intro: exI [of _ "[]"])
next
  case (Cons q qs)
  have "writable rp (js_state st) q" using Cons.prems(2) by (simp add: in_memory_def)
  note step = healthy_request [OF d Cons.prems(1) this]
  show ?case
  proof (cases "run_jsonl fs rp st q w")
    case (Pair r w1)
    show ?thesis
    proof (cases r)
      case (Inl e)
      with step Pair Cons show ?thesis by auto
    next
      case (Inr y)
      then obtain st1 a where y: "r = Inr (st1, a)" by (cases y) simp
      with step Pair obtain mu where m: "run_memory (in_memory st) q = Inr (in_memory st1, a)"
        and md: "js_metadata st1 = js_metadata st" and hs: "holds content rp h (mus @ [mu]) st1 w1" by auto
      with Cons.IH [OF hs] Cons.prems y Pair show ?thesis by fastforce
    qed
  qed
qed

lemma healthy_load:
  assumes d: "healthy fs content" and st: "holds content rp h mus st w"
  shows "\<exists>st' w'. jsonl_load fs rp (jm_path (js_metadata st)) w = (Inr st', w') \<and>
    js_state st' = js_state st \<and> content w' = content w \<and> jm_path (js_metadata st') = jm_path (js_metadata st) \<and>
    md_id (js_metadata st') = jh_id h"
proof -
  let ?path = "jm_path (js_metadata st)"
  have mus: "list_all (represented rp) mus" "foldR applyMutation initial_state mus = Inr (js_state st)"
    and h: "header_ok rp h" and c: "content w ?path = Some (file_text rp h mus)"
    using st by (simp_all add: holds_def)
  note dk = healthy_disk [OF d]
  obtain w1 where read: "fs_readTextFile fs ?path w = (Inr (file_text rp h mus), w1)"
    using d c unfolding healthy_def by (metis prod.collapse)
  have c1: "content w1 = content w" using disk_read(1) [OF dk read] .
  then obtain i w2 where info: "fs_fileInfo fs ?path w1 = (Inr i, w2)"
    using d c unfolding healthy_def by (metis prod.collapse)
  have c2: "content w2 = content w" using disk_info [OF dk info] c1 by simp
  have lines: "physical_lines (file_text rp h mus) = header_line rp h # map (mutation_line rp) mus"
    using file_text_rest [OF h mus(1), of "[]"] by simp
  have "jsonl_load fs rp ?path w =
    load_body fs rp ?path (file_text rp h mus) (header_line rp h # map (mutation_line rp) mus)
      (new_jsonl_storage (metadataFromHeader h ?path (fi_mtimeMs i))) w2"
    using read info lines parse_header_line [OF h] header_line_nonempty [of rp h]
    by (simp add: jsonl_load_def bindIO_def fileResult_def load_body_def)
  also have "\<dots> = (Inr \<lparr>js_metadata = metadataFromHeader h ?path (fi_mtimeMs i), js_state = js_state st\<rparr>, w2)"
    using file_text_ends [of rp h mus "[]"]
    by (simp add: load_body_log [OF mus, where rest = "[]", simplified] bindIO_def)
  finally show ?thesis using c2 by (simp add: metadataFromHeader_def)
qed

end
