(* ===== verification/Jsonl_Fork.thy ===== *)
theory Jsonl_Fork
  imports Jsonl_Durability Session_Fork
begin

text \<open>
  Creating and forking session files: the fork is published whole or not at all, and it is the fork
  the in-memory storage makes. The theory also gives the file-backed storage as an instance of the
  contract \<open>session_storage\<close>.
\<close>

section \<open>Reading a whole file\<close>

lemma load_whole_log:
  assumes d: "disk fs content" and h: "header_ok rp h"
    and mus: "list_all (represented rp) mus" "foldR applyMutation initial_state mus = Inr s"
    and ct: "content w path = Some (file_text rp h mus)"
    and load: "jsonl_load fs rp path w = (r, w')"
  shows "content w' = content w \<and>
    (case r of Inl e \<Rightarrow> code e \<in> {SE_storage, SE_not_found}
     | Inr st \<Rightarrow> holds content rp h mus st w' \<and> js_state st = s \<and> jm_path (js_metadata st) = path \<and>
         md_id (js_metadata st) = jh_id h)"
proof -
  have "physical_lines (file_text rp h mus) = header_line rp h # map (mutation_line rp) mus"
    using file_text_rest [OF h mus(1), of "[]"] by simp
  from jsonl_load_body [OF d ct this h load] show ?thesis
    using file_text_ends [of rp h mus "[]"] ct h mus
    by (auto simp: load_body_log [OF mus, where rest = "[]", simplified] holds_def bindIO_def metadataFromHeader_def)
qed

section \<open>Writing one\<close>

lemma fileResult_code: "fileResult op msg w = (Inl e, w') \<Longrightarrow> code e \<in> {SE_storage, SE_not_found}"
  by (auto dest!: fileResult_Inl)

lemma create_file:
  assumes d: "disk fs content" and h: "header_ok rp h" and run: "jsonl_create fs rp path h w = (r, w')"
  shows "(\<forall>q. q \<noteq> path \<longrightarrow> content w' q = content w q) \<and>
    (case r of Inl e \<Rightarrow> code e \<in> {SE_storage, SE_not_found}
     | Inr st \<Rightarrow> holds content rp h [] st w' \<and> jm_path (js_metadata st) = path \<and> js_state st = initial_state)"
proof -
  obtain r1 w1 where wr: "fs_writeFile fs path (encodeHeader rp h) w = (r1, w1)" by fastforce
  obtain r2 w2 where info: "fs_fileInfo fs path w1 = (r2, w2)" by fastforce
  note facts = disk_write [OF d wr] disk_info [OF d info]
  show ?thesis
  proof (cases "r1 = Inr () \<and> (\<exists>i. r2 = Inr i)")
    case True
    with facts run wr info h show ?thesis
      by (auto simp: jsonl_create_def bindIO_def fileResult_def holds_def new_jsonl_storage_def
          metadataFromHeader_def file_text_def)
  next
    case False
    with facts run wr info show ?thesis
      by (cases r1; cases r2) (auto simp: jsonl_create_def bindIO_def fileResult_def split: if_splits)
  qed
qed

lemma append_all_step:
  assumes d: "disk fs content" and "holds content rp h mus0 st w"
    and "list_all (represented rp) mus" "foldR applyMutation (js_state st) mus = Inr s"
    and "append_all fs rp st mus w = (r, w')"
  shows "(\<forall>q. q \<noteq> jm_path (js_metadata st) \<longrightarrow> content w' q = content w q) \<and>
    (case r of Inl e \<Rightarrow> code e \<in> {SE_storage, SE_not_found}
     | Inr st' \<Rightarrow> holds content rp h (mus0 @ mus) st' w' \<and> js_metadata st' = js_metadata st \<and> js_state st' = s)"
  using assms(2-)
proof (induction mus arbitrary: st w mus0)
  case (Cons mu mus)
  let ?path = "jm_path (js_metadata st)"
  obtain t where t: "applyMutation (js_state st) mu = Inr t" "foldR applyMutation t mus = Inr s"
    using Cons.prems(3) by (auto simp: throws)
  have mu: "represented rp mu" and rest: "list_all (represented rp) mus" using Cons.prems(2) by simp_all
  obtain r1 w1 where run: "append_apply fs rp st mu w = (r1, w1)" by fastforce
  obtain ra wa where app: "fs_appendFile fs ?path (encodeMutation rp mu) w = (ra, wa)" by fastforce
  have "w1 = wa" using run app t(1)
    by (auto simp: append_apply_def appendMutation_def bindIO_def fileResult_def split: sum.splits)
  then have other: "content w1 q = content w q" if "q \<noteq> ?path" for q
    using disk_append(2) [OF d app] that by simp
  from append_apply_step [OF d Cons.prems(1) mu t(1) run] show ?case
  proof (elim disjE exE conjE)
    assume r1: "r1 = Inr (st\<lparr>js_state := t\<rparr>)" and hold: "holds content rp h (mus0 @ [mu]) (st\<lparr>js_state := t\<rparr>) w1"
    then have "append_all fs rp (st\<lparr>js_state := t\<rparr>) mus w1 = (r, w')"
      using Cons.prems(4) run by (simp add: bindIO_def)
    from Cons.IH [OF hold rest _ this] t(2) other show ?thesis by (auto split: sum.splits)
  next
    fix e assume "r1 = Inl e" "code e \<in> {SE_storage, SE_not_found}"
    then show ?thesis using Cons.prems(4) run other by (auto simp: bindIO_def)
  qed
qed auto

lemma publish_step:
  assumes d: "disk fs content" and run: "publishFileAtomically fs path populate w = (r, w')"
    and pop: "populate (temp_path path) w = (r1, w1)"
  shows "r1 = Inl e \<Longrightarrow> r = Inl e \<and> (\<forall>q. q \<noteq> temp_path path \<longrightarrow> content w' q = content w1 q)"
    and "r1 = Inr u \<Longrightarrow>
      r = Inr () \<and> content w' = (content w1)(path := content w1 (temp_path path), temp_path path := None) \<or>
      (\<exists>e. r = Inl e \<and> code e \<in> {SE_storage, SE_not_found} \<and> (\<forall>q. q \<noteq> temp_path path \<longrightarrow> content w' q = content w1 q))"
proof -
  let ?t = "temp_path path" and ?msg = "''Failed to publish staged file '' @ path"
  {
    assume "r1 = Inl e"
    with pop run show "r = Inl e \<and> (\<forall>q. q \<noteq> ?t \<longrightarrow> content w' q = content w1 q)"
      using disk_remove [OF d] by (auto simp: publishFileAtomically_def Let_def onErrorIO_def bindIO_def)
  next
    assume r1: "r1 = Inr u"
    obtain r2 w2 where ren: "fs_renameFile fs ?t path w1 = (r2, w2)" by fastforce
    note facts = disk_rename [OF d ren] disk_remove [OF d]
    show "r = Inr () \<and> content w' = (content w1)(path := content w1 ?t, ?t := None) \<or>
      (\<exists>e. r = Inl e \<and> code e \<in> {SE_storage, SE_not_found} \<and> (\<forall>q. q \<noteq> ?t \<longrightarrow> content w' q = content w1 q))"
    proof (cases r2)
      case (Inl err)
      with pop run r1 ren have "w' = snd (fs_remove fs ?t w2)" and "\<exists>e. r = Inl e \<and> code e \<in> {SE_storage, SE_not_found}"
        by (auto simp: publishFileAtomically_def Let_def onErrorIO_def bindIO_def fileResult_def)
      with facts Inl show ?thesis by auto
    next
      case (Inr v)
      with pop run r1 ren facts show ?thesis
        by (auto simp: publishFileAtomically_def Let_def onErrorIO_def bindIO_def fileResult_def)
    qed
  }
qed

section \<open>Forking\<close>

lemma temp_path_other: "temp_path path \<noteq> path" "path \<noteq> temp_path path"
  by (simp_all add: temp_path_def)

definition stage_fork ::
  "'w file_system \<Rightarrow> representation \<Rightarrow> jsonl_header \<Rightarrow> session_mutation list \<Rightarrow> string \<Rightarrow> ('w, unit) io" where
  "stage_fork fs rp h mus tempPath =
     bindIO (jsonl_create fs rp tempPath h) (\<lambda>target.
     bindIO (append_all fs rp target mus) (\<lambda>_. returnIO ()))"

lemma jsonl_fork_stages:
  assumes "createForkMutations (js_state st) opts = Inr mus"
  shows "jsonl_fork fs rp st path h opts w =
    bindIO (publishFileAtomically fs path (stage_fork fs rp h mus)) (\<lambda>_. jsonl_load fs rp path) w"
proof -
  have "stage_fork fs rp h mus = (\<lambda>tempPath. bindIO (jsonl_create fs rp tempPath h) (\<lambda>target.
     bindIO (append_all fs rp target mus) (\<lambda>_. returnIO ())))"
    by (simp add: stage_fork_def fun_eq_iff)
  then show ?thesis by (simp add: jsonl_fork_def assms bindIO_def)
qed

lemma staged_fork:
  assumes d: "disk fs content" and h: "header_ok rp h" and mus: "list_all (represented rp) mus"
    and s: "foldR applyMutation initial_state mus = Inr s"
    and run: "stage_fork fs rp h mus t w = (r, w')"
  shows "(\<forall>q. q \<noteq> t \<longrightarrow> content w' q = content w q) \<and>
    (case r of Inl e \<Rightarrow> code e \<in> {SE_storage, SE_not_found}
     | Inr _ \<Rightarrow> content w' t = Some (file_text rp h mus))"
proof -
  obtain r1 w1 where create: "jsonl_create fs rp t h w = (r1, w1)" by fastforce
  note created = create_file [OF d h create]
  show ?thesis
  proof (cases r1)
    case (Inl e)
    with created run create show ?thesis by (auto simp: stage_fork_def bindIO_def)
  next
    case (Inr target)
    obtain r2 w2 where all: "append_all fs rp target mus w1 = (r2, w2)" by fastforce
    from created Inr have t: "holds content rp h [] target w1" and tp: "jm_path (js_metadata target) = t"
      and ts: "foldR applyMutation (js_state target) mus = Inr s" using s by simp_all
    note appended = append_all_step [OF d t mus ts all]
    have "r = map_sum id (\<lambda>_. ()) r2 \<and> w' = w2"
      using run create Inr all by (cases r2) (simp_all add: stage_fork_def bindIO_def)
    with appended created Inr tp show ?thesis
      by (cases r2) (auto simp: holds_def)
  qed
qed

section \<open>The contract of a session storage\<close>

text \<open>
  The file-backed storage with its world. An operation that throws leaves the storage alone, and so
  does whatever else happens to the disk.
\<close>

fun appends_record :: "request \<Rightarrow> bool" where
  "appends_record (Q_appendRecord now new) \<longleftrightarrow> True"
| "appends_record _ \<longleftrightarrow> False"

definition attempt_op ::
  "'w file_system \<Rightarrow> representation \<Rightarrow> request \<Rightarrow> jsonl_storage \<times> 'w \<Rightarrow> session_error + jsonl_storage \<times> 'w" where
  "attempt_op fs rp q = (\<lambda>(st, w).
     case run_jsonl fs rp st q w of (Inr (st', a), w') \<Rightarrow> Inr (st', w') | (Inl e, w') \<Rightarrow> Inr (st, w'))"

definition append_record_op ::
  "'w file_system \<Rightarrow> representation \<Rightarrow> jsonl_storage \<times> 'w \<Rightarrow> int \<Rightarrow> new_record \<Rightarrow>
   session_error + (jsonl_storage \<times> 'w) \<times> lane_record" where
  "append_record_op fs rp = (\<lambda>(st, w) now new.
     case jsonl_appendRecord fs rp now st new w of
       (Inr (st', r), w') \<Rightarrow> Inr ((st', w'), r) | (Inl e, w') \<Rightarrow> Inl e)"

inductive_set jsonl_ops ::
  "'w file_system \<Rightarrow> representation \<Rightarrow> (jsonl_storage \<times> 'w \<Rightarrow> session_error + jsonl_storage \<times> 'w) set"
  for fs rp where
  op_request: "\<not> appends_record q \<Longrightarrow> attempt_op fs rp q \<in> jsonl_ops fs rp"
| op_world: "(\<lambda>(st, w). Inr (st, g w)) \<in> jsonl_ops fs rp"

inductive_set jsonl_start :: "(jsonl_storage \<times> 'w) set" where
  start_created: "(new_jsonl_storage metadata, w) \<in> jsonl_start"
| start_forked: "wf_state (ms_state src) \<Longrightarrow> storage_fork src md opts = Inr target \<Longrightarrow>
    js_state st = ms_state target \<Longrightarrow> (st, w) \<in> jsonl_start"

lemma run_jsonl_memory:
  assumes "run_jsonl fs rp st q w = (Inr (st', a), w')"
  shows "run_memory (in_memory st) q = Inr ((in_memory st)\<lparr>ms_state := js_state st'\<rparr>, a)"
  using assms unfolding run_jsonl_decide run_memory_decide
  by (cases "decide (js_state st) q") (auto simp: io append_apply_def in_memory_def split: prod.splits)

lemma decide_no_record: "decide s q = Inr (mu, a) \<Longrightarrow> \<not> appends_record q \<Longrightarrow> mu \<noteq> MU_record r"
  by (cases q) (auto simp: throws Let_def)

lemma run_memory_records:
  assumes "run_memory st q = Inr (st', a)" and "\<not> appends_record q"
  shows "\<exists>mu. applyMutation (ms_state st) mu = Inr (ms_state st') \<and> records (ms_state st') = records (ms_state st)"
proof -
  obtain mu s where "decide (ms_state st) q = Inr (mu, a)" and s: "applyMutation (ms_state st) mu = Inr s"
    and st': "ms_state st' = s"
    using assms(1) unfolding run_memory_decide by (auto simp: throws)
  then have "mu \<noteq> MU_record r" for r using assms(2) by (auto dest: decide_no_record)
  then have "(case mu of MU_record r \<Rightarrow> [r] | _ \<Rightarrow> []) = []" by (auto split: session_mutation.splits)
  then show ?thesis using applyMutation_records [OF s] s st' by auto
qed

interpretation jl: session_storage "js_state \<circ> fst" "jsonl_ops fs rp" "append_record_op fs rp" jsonl_start
  for fs :: "'w file_system" and rp
proof (unfold_locales, goal_cases)
  case (1 s)
  obtain st w where s: "s = (st, w)" by (cases s)
  have "(st, w) \<in> jsonl_start" using 1 s by simp
  then have "wf_state (js_state st) \<and> records (js_state st) = []"
  proof cases
    case (start_forked src md opts target)
    with storage_fork_wf [OF start_forked(2)] show ?thesis by (auto intro: reachable_wf)
  qed (simp add: new_jsonl_storage_def wf_initial)
  with s show ?case by simp
next
  case (2 f s t)
  from 2(1) show ?case
  proof cases
    case (op_request q)
    obtain st w where s: "s = (st, w)" by (cases s)
    obtain r w' where run: "run_jsonl fs rp st q w = (r, w')" by fastforce
    show ?thesis
    proof (cases r)
      case (Inl e)
      with 2 op_request s run show ?thesis by (auto simp: attempt_op_def)
    next
      case (Inr y)
      then obtain st' a where y: "r = Inr (st', a)" by (cases y) simp
      from run_memory_records [OF run_jsonl_memory [OF run [unfolded y]] op_request(2)]
      obtain mu where "applyMutation (js_state st) mu = Inr (js_state st')"
        and "records (js_state st') = records (js_state st)" by (auto simp: in_memory_def)
      with 2 op_request s run y show ?thesis by (auto simp: attempt_op_def intro: applyMutation_wf)
    qed
  qed (use 2 in \<open>auto split: prod.splits\<close>)
next
  case (3 s now new t r)
  obtain st w where s: "s = (st, w)" by (cases s)
  obtain st' w' where t: "t = (st', w')" by (cases t)
  have run: "jsonl_appendRecord fs rp now st new w = (Inr (st', r), w')"
    using 3(2) s t by (auto simp: append_record_op_def split: prod.splits sum.splits)
  then have "run_jsonl fs rp st (Q_appendRecord now new) w = (Inr (st', A_record r), w')"
    by (simp add: bindIO_def)
  from run_jsonl_memory [OF this]
  have "appendRecord now (in_memory st) new = Inr ((in_memory st)\<lparr>ms_state := js_state st'\<rparr>, r)"
    by (auto simp: throws)
  from appendRecord_Inr [OF _ this] 3(1) s t show ?case
    by (auto simp: in_memory_def intro: applyMutation_wf)
qed

end
