(* ===== verification/Jsonl_Properties.thy ===== *)
theory Jsonl_Properties
  imports Jsonl_Fork
begin

text \<open>
  The properties of session files, each with a witness on a disk in memory. The disk of the examples
  can run out of room: its second component lists how much the next appends may write.
\<close>

section \<open>The examples\<close>

type_synonym demo_disk = "(string \<rightharpoonup> string) \<times> nat list"

definition demo_full :: file_error where
  "demo_full = \<lparr>fe_code = FE_unknown, fe_message = ''no space''\<rparr>"

definition demo_missing :: file_error where
  "demo_missing = \<lparr>fe_code = FE_not_found, fe_message = ''no such file''\<rparr>"

definition demo_fs :: "demo_disk file_system" where
  "demo_fs =
     \<lparr>fs_absolutePath = (\<lambda>p w. (Inr p, w)),
      fs_joinPath = (\<lambda>ps w. (Inr (concat ps), w)),
      fs_readTextFile = (\<lambda>p w. (case fst w p of None \<Rightarrow> Inl demo_missing | Some t \<Rightarrow> Inr t, w)),
      fs_readTextLines = (\<lambda>p n w. (case fst w p of None \<Rightarrow> Inl demo_missing | Some t \<Rightarrow> Inr (take n (split_lines t)), w)),
      fs_writeFile = (\<lambda>p s w. (Inr (), ((fst w)(p \<mapsto> s), snd w))),
      fs_appendFile = (\<lambda>p s w.
        case snd w of
          [] \<Rightarrow> (Inr (), ((fst w)(p \<mapsto> appended (fst w p) s), []))
        | n # ns \<Rightarrow> if length s \<le> n then (Inr (), ((fst w)(p \<mapsto> appended (fst w p) s), ns))
                   else (Inl demo_full, ((fst w)(p \<mapsto> appended (fst w p) (take n s)), ns))),
      fs_renameFile = (\<lambda>p q w. case fst w p of None \<Rightarrow> (Inl demo_missing, w)
        | Some t \<Rightarrow> (Inr (), ((fst w)(q := fst w p, p := None), snd w))),
      fs_fileInfo = (\<lambda>p w. (Inr \<lparr>fi_name = p, fi_path = p, fi_kind = FK_file, fi_size = 0, fi_mtimeMs = 7\<rparr>, w)),
      fs_listDir = (\<lambda>p w. (Inr [], w)),
      fs_exists = (\<lambda>p w. (Inr True, w)),
      fs_createDir = (\<lambda>p w. (Inr (), w)),
      fs_remove = (\<lambda>p w. (Inr (), ((fst w)(p := None), snd w)))\<rparr>"

text \<open>The same disk with unlimited room.\<close>

definition demo_roomy :: "demo_disk file_system" where
  "demo_roomy = demo_fs\<lparr>fs_appendFile := (\<lambda>p s w. (Inr (), ((fst w)(p \<mapsto> appended (fst w p) s), snd w)))\<rparr>"

lemma demo_fs_disk: "disk demo_fs fst"
proof -
  have "\<exists>s1 s2. s = s1 @ s2 \<and> appended t (take n s) = appended t s1" for s :: string and n t
    by (metis append_take_drop_id)
  then show ?thesis
    by (auto simp: disk_def demo_fs_def split: option.splits list.splits)
qed

lemma demo_roomy_healthy: "healthy demo_roomy fst"
  by (auto simp: healthy_def disk_def demo_roomy_def demo_fs_def split: option.splits)

definition demo_rp :: representation where
  "demo_rp =
     \<lparr>entry_fields = (\<lambda>d. case d of E_custom t v \<Rightarrow> (''customType'', JString t) # optional ''data'' id v
        | E_thinking_level_change l \<Rightarrow> [(''thinkingLevel'', JString l)] | _ \<Rightarrow> []),
      entry_of_fields = (\<lambda>t ps. case map_of ps ''customType'' of
          Some (JString c) \<Rightarrow> E_custom c (map_of ps ''data'')
        | _ \<Rightarrow> (case map_of ps ''thinkingLevel'' of Some (JString l) \<Rightarrow> E_thinking_level_change l
                | _ \<Rightarrow> E_custom [] None)),
      record_fields = (\<lambda>d. case d of R_abort_requested i \<Rightarrow> [(''runId'', JString i)] | _ \<Rightarrow> []),
      record_of_fields = (\<lambda>t ps. case map_of ps ''runId'' of Some (JString i) \<Rightarrow> R_abort_requested i
        | _ \<Rightarrow> R_abort_requested []),
      text_of_number = (\<lambda>n. ''0''), number_of_text = (\<lambda>t. JNaN)\<rparr>"

definition demo_header :: jsonl_header where
  "demo_header = \<lparr>jh_id = ''s'', jh_createdAt = 5, jh_cwd = ''/w'', jh_parentSessionId = None,
     jh_legacyParentSessionPath = None, jh_metadata = None\<rparr>"

definition demo_storage :: jsonl_storage where
  "demo_storage = new_jsonl_storage (metadataFromHeader demo_header ''f'' 7)"

definition demo_world :: "nat list \<Rightarrow> demo_disk" where
  "demo_world room = ([''f'' \<mapsto> file_text demo_rp demo_header []], room)"

lemma demo_header_ok: "header_ok demo_rp demo_header"
  by (simp add: header_ok_def demo_header_def safe_nat_def MAX_SAFE_INTEGER_def)

lemma demo_holds: "holds fst demo_rp demo_header [] demo_storage (demo_world room)"
  using demo_header_ok
  by (simp add: holds_def demo_storage_def new_jsonl_storage_def metadataFromHeader_def demo_world_def)

definition demo_custom :: "string \<Rightarrow> provisioned_entry" where
  "demo_custom i = \<lparr>ent_id = i, ent_data = E_custom ''note'' (Some (JBool True))\<rparr>"

definition demo_requests :: "request list" where
  "demo_requests = [Q_appendEntry 9 (demo_custom ''a'') ''main'', Q_setName (Some ''n'')]"

lemmas demo_jsonl_defs = demo_storage_def new_jsonl_storage_def metadataFromHeader_def in_memory_def
  demo_custom_def demo_requests_def writable_def

lemma demo_state: "js_state demo_storage = initial_state" "jm_path (js_metadata demo_storage) = ''f''"
  by (simp_all add: demo_jsonl_defs)

lemma demo_entry_represented:
  "represented demo_rp (MU_entry (Some ''main'') (stored_entry (demo_custom ''a'') None 1 9))"
  by (simp add: demo_custom_def demo_rp_def fields_ok_def optional_def base_keys_def safe_nat_def
      MAX_SAFE_INTEGER_def ent_type_def)

lemma demo_lane: "requireLane initial_state ''main'' = Inr None"
  by (simp add: requireLane_def initial_state_def)

lemma initial_used: "usedIds initial_state = {}"
  by (simp add: initial_state_def)

lemma demo_writable: "all_writable demo_rp (in_memory demo_storage) demo_requests"
proof -
  let ?e = "stored_entry (demo_custom ''a'') None (Suc 0) 9" and ?q = "Q_appendEntry 9 (demo_custom ''a'') ''main''"
  have st: "ms_state (in_memory demo_storage) = initial_state"
    by (simp add: in_memory_def demo_state)
  have d: "decide initial_state ?q = Inr (MU_entry (Some ''main'') ?e, A_entry ?e)"
    by (simp add: demo_lane validateUnusedId_def initial_used nextSequence_def Let_def)
  obtain s where s: "applyMutation initial_state (MU_entry (Some ''main'') ?e) = Inr s"
    using decide_accepted [OF wf_initial d] by blast
  have run: "run_memory (in_memory demo_storage) ?q = Inr ((in_memory demo_storage)\<lparr>ms_state := s\<rparr>, A_entry ?e)"
    unfolding run_memory_decide st d by (simp add: s)
  have "sequence s = 1" using applyMutation_sequence [OF s] by (simp add: initial_state_def)
  then have n: "writable demo_rp s (Q_setName (Some ''n''))"
    by (simp add: writable_def nextSequence_def safe_nat_def MAX_SAFE_INTEGER_def)
  have "writable demo_rp initial_state ?q"
    using demo_entry_represented unfolding writable_def d by simp
  moreover have "all_writable demo_rp ((in_memory demo_storage)\<lparr>ms_state := s\<rparr>) [Q_setName (Some ''n'')]"
    using n by (auto simp del: run_memory.simps split: sum.splits prod.splits)
  ultimately show ?thesis
    unfolding demo_requests_def all_writable.simps(2) [of _ _ ?q] run st by simp
qed

definition loaded_name :: "(session_error + jsonl_storage) \<times> 'w \<Rightarrow> session_error_code + string option" where
  "loaded_name res = (case fst res of Inl e \<Rightarrow> Inl (code e) | Inr st \<Rightarrow> Inr (name (js_state st)))"

definition demo_named :: "jsonl_storage \<Rightarrow> demo_disk \<Rightarrow> string \<Rightarrow> (session_error + jsonl_storage \<times> answer) \<times> demo_disk" where
  "demo_named st w nm = run_jsonl demo_fs demo_rp st (Q_setName (Some nm)) w"

section \<open>Lines\<close>

text \<open>C15. The line a mutation is written as contains no newline and parses back to the mutation, and
  every proper prefix of it, what an interrupted append leaves, is a syntax error.\<close>

theorem session_line_roundtrip:
  assumes "represented rp mu"
  shows "\<exists>line. encodeMutation rp mu = line @ [newline] \<and> newline \<notin> set line \<and> parseMutation rp line = Inr mu \<and>
    (\<forall>p q. line = p @ q \<and> q \<noteq> [] \<longrightarrow> (\<exists>e. parseMutation rp p = Inl e \<and> de_kind e = DE_syntax))"
  using encodeMutation_line mutation_line_no_newline [OF assms] parse_mutation_line [OF assms]
    torn_line [OF assms] by blast

theorem session_line_roundtrip_witness:
  "\<exists>line. encodeMutation demo_rp (MU_entry (Some ''main'') (stored_entry (demo_custom ''a'') None 1 9)) = line @ [newline] \<and>
    parseMutation demo_rp line = Inr (MU_entry (Some ''main'') (stored_entry (demo_custom ''a'') None 1 9))"
  using session_line_roundtrip [OF demo_entry_represented] by blast

section \<open>Durability\<close>

text \<open>C13. On a disk that works, a file-backed session that serves any requests, the caller going on
  after those that throw, is at every moment the session the in-memory storage would be, and opening
  its file again gives the same session without changing the file.\<close>

theorem served_session_reloads:
  assumes d: "healthy fs content" and st: "holds content rp h mus st w"
    and q: "all_writable rp (in_memory st) qs" and run: "serve fs rp st qs w = (st', w')"
  shows "in_memory st' = serve_memory (in_memory st) qs \<and>
    (\<exists>st'' w''. jsonl_load fs rp (jm_path (js_metadata st)) w' = (Inr st'', w'') \<and>
       js_state st'' = js_state st' \<and> content w'' = content w')"
  using serve_holds [OF d st q run] healthy_load [OF d] by metis

theorem served_session_reloads_witness:
  "\<exists>st' w' st'' w''. serve demo_roomy demo_rp demo_storage demo_requests (demo_world []) = (st', w') \<and>
     in_memory st' = serve_memory (in_memory demo_storage) demo_requests \<and>
     jsonl_load demo_roomy demo_rp ''f'' w' = (Inr st'', w'') \<and> js_state st'' = js_state st'"
proof -
  obtain st' w' where run: "serve demo_roomy demo_rp demo_storage demo_requests (demo_world []) = (st', w')"
    by (meson surj_pair)
  from served_session_reloads [OF demo_roomy_healthy demo_holds demo_writable run]
  show ?thesis unfolding demo_state using run by blast
qed

text \<open>C12. A request that throws was either rejected before the disk was touched, as the in-memory
  storage rejects it, or the disk failed; in the latter case opening the file again never finds it
  corrupt: the session comes back as it was before the request or as it is after it, and the file
  holds the log of that state.\<close>

theorem failed_request_recovers:
  assumes d: "disk fs content" and st: "holds content rp h mus st w" and q: "writable rp (js_state st) q"
    and run: "run_jsonl fs rp st q w = (Inl e, w')"
  shows "run_memory (in_memory st) q = Inl e \<and> w' = w \<or>
    (\<exists>mu a s'. run_memory (in_memory st) q = Inr ((in_memory st)\<lparr>ms_state := s'\<rparr>, a) \<and>
      recovery content rp h mus mu (jm_path (js_metadata st)) (js_state st) s'
        (jsonl_load fs rp (jm_path (js_metadata st)) w'))"
proof -
  have "(\<exists>mu a s' text. decide (js_state st) q = Inr (mu, a) \<and> applyMutation (js_state st) mu = Inr s' \<and>
      content w' (jm_path (js_metadata st)) = Some text \<and> cut_log rp h mus mu text)"
    if "\<not> (run_memory (in_memory st) q = Inl e \<and> w' = w)"
    using request_refines_memory [OF d st q] run that by auto
  moreover have "?thesis" if "decide (js_state st) q = Inr (mu, a)" "applyMutation (js_state st) mu = Inr s'"
    "content w' (jm_path (js_metadata st)) = Some text" "cut_log rp h mus mu text" for mu a s' "text"
  proof -
    have "represented rp mu" using q that by (simp add: writable_def)
    then have "recovery content rp h mus mu (jm_path (js_metadata st)) (js_state st) s'
        (jsonl_load fs rp (jm_path (js_metadata st)) w')"
      using load_cut_log [OF d] st that by (simp add: holds_def)
    moreover have "run_memory (in_memory st) q = Inr ((in_memory st)\<lparr>ms_state := s'\<rparr>, a)"
      using that by (simp add: run_memory_decide in_memory_def)
    ultimately show ?thesis by blast
  qed
  ultimately show ?thesis by blast
qed

lemma demo_failing: "isl (fst (run_jsonl demo_fs demo_rp demo_storage (Q_setName (Some ''a'')) (demo_world [10])))"
  by code_simp

theorem failed_request_recovers_witness:
  "\<exists>e w' mu a s'. run_jsonl demo_fs demo_rp demo_storage (Q_setName (Some ''a'')) (demo_world [10]) = (Inl e, w') \<and>
    run_memory (in_memory demo_storage) (Q_setName (Some ''a'')) = Inr ((in_memory demo_storage)\<lparr>ms_state := s'\<rparr>, a) \<and>
    recovery fst demo_rp demo_header [] mu ''f'' initial_state s' (jsonl_load demo_fs demo_rp ''f'' w')"
proof -
  let ?q = "Q_setName (Some ''a'')"
  obtain e w' where run: "run_jsonl demo_fs demo_rp demo_storage ?q (demo_world [10]) = (Inl e, w')"
    using demo_failing by (cases "run_jsonl demo_fs demo_rp demo_storage ?q (demo_world [10])") (auto simp: isl_def)
  have "writable demo_rp (js_state demo_storage) ?q"
    by (simp add: writable_def demo_state nextSequence_def safe_nat_def MAX_SAFE_INTEGER_def)
  from failed_request_recovers [OF demo_fs_disk demo_holds this run]
  have "run_memory (in_memory demo_storage) ?q = Inl e \<or> (\<exists>mu a s'.
      run_memory (in_memory demo_storage) ?q = Inr ((in_memory demo_storage)\<lparr>ms_state := s'\<rparr>, a) \<and>
      recovery fst demo_rp demo_header [] mu ''f'' initial_state s' (jsonl_load demo_fs demo_rp ''f'' w'))"
    unfolding demo_state by blast
  moreover have "run_memory (in_memory demo_storage) ?q \<noteq> Inl e"
    by (simp add: setName_def apply_defs in_memory_def demo_state nextSequence_def)
  ultimately show ?thesis using run by blast
qed

section \<open>Forks\<close>

text \<open>C14. Forking a session to a file publishes the fork whole or not at all: no other file but the
  staging file changes, a fork that throws leaves the destination as it was or complete, and one that
  returns is the fork of the in-memory storage, with a file that holds it.\<close>

theorem fork_publishes_whole:
  assumes d: "disk fs content" and wf: "wf_state (js_state st)" and h: "header_ok rp h"
    and mus: "createForkMutations (js_state st) opts = Inr mus" "list_all (represented rp) mus"
    and run: "jsonl_fork fs rp st path h opts w = (r, w')"
  shows "(\<forall>q. q \<noteq> path \<and> q \<noteq> temp_path path \<longrightarrow> content w' q = content w q) \<and>
    (case r of
       Inl e \<Rightarrow> code e \<in> {SE_storage, SE_not_found} \<and>
         (content w' path = content w path \<or> content w' path = Some (file_text rp h mus))
     | Inr st' \<Rightarrow> holds content rp h mus st' w' \<and> jm_path (js_metadata st') = path \<and>
         (\<forall>md. storage_fork (in_memory st) md opts = Inr \<lparr>ms_metadata = md, ms_state = js_state st'\<rparr>))"
proof -
  let ?t = "temp_path path"
  note other = temp_path_other [of path]
  obtain s where s: "foldR applyMutation initial_state mus = Inr s"
    using fork_always_replays [OF wf mus(1)] by blast
  have memory: "storage_fork (in_memory st) md opts = Inr \<lparr>ms_metadata = md, ms_state = s\<rparr>" for md
    using mus(1) s by (simp add: storage_fork_def in_memory_def new_storage_def)
  obtain r2 w2 where pop: "stage_fork fs rp h mus ?t w = (r2, w2)" by (meson surj_pair)
  note staged = staged_fork [OF d h mus(2) s pop]
  obtain r4 w4 where pub: "publishFileAtomically fs path (stage_fork fs rp h mus) w = (r4, w4)" by fastforce
  note publish = publish_step [OF d pub pop]
  have fork: "(case r4 of Inl e \<Rightarrow> (Inl e, w4) | Inr _ \<Rightarrow> jsonl_load fs rp path w4) = (r, w')"
    using run by (cases r4) (simp_all add: jsonl_fork_stages [OF mus(1)] bindIO_def pub)
  have err: ?thesis if "r4 = Inl e" "code e \<in> {SE_storage, SE_not_found}"
    "\<forall>q. q \<noteq> ?t \<longrightarrow> content w4 q = content w2 q" for e
    using that staged fork other by auto
  show ?thesis
  proof (cases r2)
    case (Inl e)
    with publish(1) [OF Inl] staged err [of e] show ?thesis by simp
  next
    case (Inr u)
    from publish(2) [OF this] show ?thesis
    proof (elim disjE exE conjE)
      assume r4: "r4 = Inr ()" and c4: "content w4 = (content w2)(path := content w2 ?t, ?t := None)"
      have ct: "content w4 path = Some (file_text rp h mus)"
        using c4 staged Inr other by simp
      have load: "jsonl_load fs rp path w4 = (r, w')" using fork r4 by simp
      note loaded = load_whole_log [OF d h mus(2) s ct load]
      show ?thesis
      proof (cases r)
        case (Inl e)
        with loaded c4 staged ct show ?thesis by simp
      next
        case (Inr st')
        with loaded c4 staged memory show ?thesis by simp
      qed
    qed (rule err)
  qed
qed

lemma demo_fork: "createForkMutations initial_state F_tree = Inr [MU_lane 1 ''main'' None]"
  by code_simp

theorem fork_publishes_whole_witness:
  "\<exists>r w'. jsonl_fork demo_fs demo_rp demo_storage ''g'' demo_header F_tree (demo_world [200]) = (r, w') \<and>
    fst w' ''f'' = Some (file_text demo_rp demo_header [])"
proof -
  obtain r w' where run: "jsonl_fork demo_fs demo_rp demo_storage ''g'' demo_header F_tree (demo_world [200]) = (r, w')"
    by (meson surj_pair)
  have wf: "wf_state (js_state demo_storage)" by (simp add: demo_state wf_initial)
  have mus: "createForkMutations (js_state demo_storage) F_tree = Inr [MU_lane 1 ''main'' None]"
    by (simp add: demo_state demo_fork)
  have "list_all (represented demo_rp) [MU_lane 1 ''main'' None]"
    by (simp add: safe_nat_def MAX_SAFE_INTEGER_def)
  from fork_publishes_whole [OF demo_fs_disk wf demo_header_ok mus this run] run show ?thesis
    by (auto simp: demo_world_def temp_path_def)
qed

section \<open>Writing on after a failed append\<close>

lemma demo_lost:
  "(let (r1, w1) = demo_named demo_storage (demo_world [10]) ''a'';
        (r2, w2) = demo_named demo_storage w1 ''b''
    in isl r1 \<and> (case r2 of Inl e \<Rightarrow> False | Inr (st2, a2) \<Rightarrow> name (js_state st2) = Some ''b'' \<and>
         loaded_name (jsonl_load demo_fs demo_rp ''f'' w2) = Inr None \<and>
         (let (r3, w3) = demo_named st2 w2 ''c''
          in (case r3 of Inl e \<Rightarrow> False | Inr (st3, a3) \<Rightarrow> name (js_state st3) = Some ''c'' \<and>
                loaded_name (jsonl_load demo_fs demo_rp ''f'' w3) = Inl SE_invalid_entry))))"
  by code_simp


end
