(* ===== verification/Facade_Properties.thy ===== *)
theory Facade_Properties
  imports Session_Facade Branch_Entries Jsonl_Properties
begin

text \<open>
  The facade over the file-backed storage, and the properties of the facade over both storages.
\<close>

section \<open>The file-backed storage behind the facade\<close>

definition answer_of :: "('w, jsonl_storage \<times> 'a) io \<Rightarrow> jsonl_storage \<times> 'w \<Rightarrow> (session_error + 'a) \<times> (jsonl_storage \<times> 'w)" where
  "answer_of m = (\<lambda>(st, w). case m w of (Inl e, w') \<Rightarrow> (Inl e, (st, w')) | (Inr (st', x), w') \<Rightarrow> (Inr x, (st', w')))"

definition jsonl_api :: "'w file_system \<Rightarrow> representation \<Rightarrow> (jsonl_storage \<times> 'w) storage_api" where
  "jsonl_api fs rp =
     \<lparr>sa_getLanes = getLanes \<circ> js_state \<circ> fst, sa_getEntry = getEntry \<circ> js_state \<circ> fst,
      sa_findEntries = findEntries \<circ> js_state \<circ> fst, sa_findEntriesOnBranch = findEntriesOnBranch \<circ> js_state \<circ> fst,
      sa_findRecords = findRecords \<circ> js_state \<circ> fst, sa_findOpenOperations = findOpenOperations \<circ> js_state \<circ> fst,
      sa_getLog = getLog \<circ> js_state \<circ> fst,
      sa_appendEntry = (\<lambda>now s e lane. answer_of (jsonl_appendEntry fs rp now (fst s) e lane) s),
      sa_appendRecord = (\<lambda>now s r. answer_of (jsonl_appendRecord fs rp now (fst s) r) s)\<rparr>"

lemma jsonl_append_entry:
  "jsonl_appendEntry fs rp now st e lane w = (Inr (st', x), w') \<Longrightarrow>
     \<exists>leaf. x = stored_entry e leaf (nextSequence (js_state st)) now \<and>
       applyMutation (js_state st) (MU_entry (Some lane) x) = Inr (js_state st')"
  by (auto simp: jsonl_appendEntry_def append_apply_def io Let_def)

interpretation jsonl_facade: facade_storage "jsonl_api fs rp" "js_state \<circ> fst"
  for fs :: "'w file_system" and rp
proof unfold_locales
  fix now s e lane x t
  assume "sa_appendEntry (jsonl_api fs rp) now s e lane = (Inr x, t)"
  then obtain st' w' where "jsonl_appendEntry fs rp now (fst s) e lane (snd s) = (Inr (st', x), w')" "t = (st', w')"
    by (cases s) (auto simp: jsonl_api_def answer_of_def split: prod.splits sum.splits)
  with jsonl_append_entry show "\<exists>leaf. x = stored_entry e leaf (nextSequence ((js_state \<circ> fst) s)) now \<and>
      applyMutation ((js_state \<circ> fst) s) (MU_entry (Some lane) x) = Inr ((js_state \<circ> fst) t)"
    by fastforce
next
  fix now s e lane err t
  assume "sa_appendEntry (jsonl_api fs rp) now s e lane = (Inl err, t)"
  then show "(js_state \<circ> fst) t = (js_state \<circ> fst) s"
    by (cases s) (auto simp: jsonl_api_def answer_of_def split: prod.splits sum.splits)
qed (simp_all add: jsonl_api_def)

section \<open>Properties\<close>

text \<open>C17. The check of durable payloads ends on every finite object graph, shared and cyclic objects
  included, and accepts exactly the values that are finite trees of JSON; every rejection is the error
  invalid_payload.\<close>

theorem payload_check_decides:
  assumes "finite A" and "closed h A" and "\<forall>a. v = H_object a \<longrightarrow> a \<in> A"
  shows "\<exists>r. assertJsonSerializable h v = Some r \<and> (r = Inr () \<longleftrightarrow> serializable h v) \<and>
    (\<forall>e. r = Inl e \<longrightarrow> code e = SE_invalid_payload)"
  by (rule assert_decides [OF assms])

text \<open>An object that refers to itself, and an array that holds one empty object twice.\<close>

definition demo_heap :: heap where
  "demo_heap a = (if a = 0 then Plain_object True False [(''self'', Data (H_object 0))] 0
     else if a = 1 then Array_object True False [Some (Data (H_object 2)), Some (Data (H_object 2))] 0
     else Plain_object True False [] 0)"

lemma demo_closed: "closed demo_heap {0, 1, 2}"
  by (auto simp: closed_def demo_heap_def)

theorem payload_check_decides_witness:
  "\<not> serializable demo_heap (H_object 0) \<and> (\<exists>e. assertJsonSerializable demo_heap (H_object 0) = Some (Inl e)) \<and>
   serializable demo_heap (H_object 1) \<and> assertJsonSerializable demo_heap (H_object 1) = Some (Inr ())"
proof -
  have "H_object 0 \<notin> Wellfounded.acc (child demo_heap)"
  proof
    assume "H_object 0 \<in> Wellfounded.acc (child demo_heap)"
    moreover have "(H_object 0, H_object 0) \<in> child demo_heap" by (auto simp: child_def demo_heap_def)
    ultimately show False using acc_no_cycle [of "H_object 0" "child demo_heap"] by blast
  qed
  then have bad: "\<not> serializable demo_heap (H_object 0)" using serializable_acc by blast
  have two: "serializable demo_heap (H_object 2)" by (rule ser_object [of _ _ "[]"]) (simp_all add: demo_heap_def)
  have good: "serializable demo_heap (H_object 1)"
    by (rule ser_object [of _ _ "[H_object 2, H_object 2]"]) (use two in \<open>auto simp: demo_heap_def\<close>)
  have "\<forall>a. H_object 0 = H_object a \<longrightarrow> a \<in> {0, 1, 2}" "\<forall>a. H_object 1 = H_object a \<longrightarrow> a \<in> {0, 1, 2}" by simp_all
  from payload_check_decides [OF _ demo_closed this(1)] payload_check_decides [OF _ demo_closed this(2)] bad good
  show ?thesis by (metis finite.emptyI finite_insert old.unit.exhaust sum.exhaust)
qed

text \<open>What is committed to a lane is what the lane's view finds first, over the in-memory and over the
  file-backed storage.\<close>

theorem committed_entry_is_found:
  assumes "reachable_state (ms_state m)" and "commitEntry memory_api obj now m e lane = (Inr x, m')"
    and "reachable_state (js_state (fst j))" and "commitEntry (jsonl_api fs rp) obj now j e lane = (Inr y, j')"
  shows "session_findEntryOnBranch memory_api m' lane any_query no_bounds = Inr (Some x) \<and>
    session_findEntryOnBranch (jsonl_api fs rp) j' lane any_query no_bounds = Inr (Some y)"
  using memory_facade.committed_entry_found [OF reachable_wf [OF assms(1)] assms(2)]
    jsonl_facade.committed_entry_found [OF _ assms(4)] reachable_wf [OF assms(3)] by simp

definition demo_object :: "provisioned_entry \<Rightarrow> json" where
  "demo_object e = JObject [(''id'', JString (ent_id e))]"

lemma returns_Inr: "\<not> isl (fst r) \<Longrightarrow> \<exists>x t. r = (Inr x, t)"
  by (cases r; cases "fst r") auto

lemma demo_commit:
  "\<exists>x m. commitEntry memory_api demo_object 9 (in_memory demo_storage) (demo_custom ''a'') ''main'' = (Inr x, m)"
  "\<exists>y j. commitEntry (jsonl_api demo_roomy demo_rp) demo_object 9 (demo_storage, demo_world []) (demo_custom ''a'') ''main'' = (Inr y, j)"
  by (rule returns_Inr, code_simp)+

theorem committed_entry_is_found_witness:
  "\<exists>x m' y j'. commitEntry memory_api demo_object 9 (in_memory demo_storage) (demo_custom ''a'') ''main'' = (Inr x, m') \<and>
     session_findEntryOnBranch memory_api m' ''main'' any_query no_bounds = Inr (Some x) \<and>
     commitEntry (jsonl_api demo_roomy demo_rp) demo_object 9 (demo_storage, demo_world []) (demo_custom ''a'') ''main'' = (Inr y, j') \<and>
     session_findEntryOnBranch (jsonl_api demo_roomy demo_rp) j' ''main'' any_query no_bounds = Inr (Some y)"
proof -
  have m: "reachable_state (ms_state (in_memory demo_storage))"
    and j: "reachable_state (js_state (fst (demo_storage, demo_world [])))"
    by (simp_all add: in_memory_def demo_state reach_init)
  from demo_commit obtain x m' y j' where
    c: "commitEntry memory_api demo_object 9 (in_memory demo_storage) (demo_custom ''a'') ''main'' = (Inr x, m')"
      "commitEntry (jsonl_api demo_roomy demo_rp) demo_object 9 (demo_storage, demo_world []) (demo_custom ''a'') ''main'' = (Inr y, j')"
    by blast
  with committed_entry_is_found [OF m c(1) j c(2)] show ?thesis by blast
qed

text \<open>Asking the facade for one entry gives the first of the entries it would list, or the same error,
  over the in-memory and over the file-backed storage.\<close>

theorem find_entry_is_first:
  "session_findEntry memory_api m q = first_of (session_findEntries memory_api m q) \<and>
   session_findEntry (jsonl_api fs rp) j q = first_of (session_findEntries (jsonl_api fs rp) j q)"
  using memory_facade.find_entry_first jsonl_facade.find_entry_first by blast

end
