(* ===== verification/Jsonl_Repo.thy ===== *)
theory Jsonl_Repo
  imports Session_Facade Jsonl_Fork
begin

text \<open>
  \<open>JsonlSessionRepo\<close> of \<open>packages/agent/src/harness/session/jsonl/repo.ts\<close>: session files in one
  directory per working directory. The repository's own state is the resolved root, kept from the
  first attempt on, and the destinations that are being created; it is threaded beside the world.
  \<open>Date.now()\<close> and \<open>uuidv7()\<close> are arguments, and \<open>new Session(storage)\<close> is its storage.
\<close>

section \<open>Names\<close>

definition is_alphanumeric :: "char \<Rightarrow> bool" where
  "is_alphanumeric c \<longleftrightarrow>
     (let n = (of_char c :: nat)
      in (65 \<le> n \<and> n \<le> 90) \<or> (97 \<le> n \<and> n \<le> 122) \<or> (48 \<le> n \<and> n \<le> 57))"

definition is_id_char :: "char \<Rightarrow> bool" where
  "is_id_char c \<longleftrightarrow> is_alphanumeric c \<or> c = CHR ''.'' \<or> c = CHR ''_'' \<or> c = CHR ''-''"

text \<open>The regular expression: one alphanumeric, or two with id characters between them.\<close>

fun SESSION_ID_PATTERN :: "string \<Rightarrow> bool" where
  "SESSION_ID_PATTERN [] = False"
| "SESSION_ID_PATTERN (c # rest) \<longleftrightarrow>
     is_alphanumeric c \<and> (rest = [] \<or> list_all is_id_char (butlast rest) \<and> is_alphanumeric (last rest))"

definition validateSessionId :: "string \<Rightarrow> session_error + unit" where
  "validateSessionId i =
     require (SESSION_ID_PATTERN i)
       (SessionError SE_invalid_payload
          (''Session id must be non-empty, contain only alphanumeric characters, '' @ [CHR 0x27] @ ''-'' @ [CHR 0x27]
           @ '', '' @ [CHR 0x27] @ ''_'' @ [CHR 0x27] @ '', and '' @ [CHR 0x27] @ ''.'' @ [CHR 0x27]
           @ '', and start and end with an alphanumeric character''))"

definition is_separator :: "char \<Rightarrow> bool" where
  "is_separator c \<longleftrightarrow> c = CHR ''/'' \<or> c = CHR 0x5C"

definition jsonlSessionDirectoryName :: "string \<Rightarrow> string" where
  "jsonlSessionDirectoryName cwd =
     (let stripped = (case cwd of c # cs \<Rightarrow> if is_separator c then cs else cwd | [] \<Rightarrow> [])
      in ''--'' @ map (\<lambda>c. if is_separator c \<or> c = CHR '':'' then CHR ''-'' else c) stripped @ ''--'')"

text \<open>\<open>Date.prototype.toISOString\<close>: the proleptic Gregorian date of a number of days since 1970.\<close>

definition civil_date :: "int \<Rightarrow> int \<times> int \<times> int" where
  "civil_date days =
     (let z = days + 719468; era = z div 146097; doe = z mod 146097;
          yoe = (doe - doe div 1460 + doe div 36524 - doe div 146096) div 365;
          doy = doe - (365 * yoe + yoe div 4 - yoe div 100); mp = (5 * doy + 2) div 153;
          d = doy - (153 * mp + 2) div 5 + 1; m = (if mp < 10 then mp + 3 else mp - 9)
      in (yoe + era * 400 + (if m \<le> 2 then 1 else 0), m, d))"

definition padded :: "nat \<Rightarrow> int \<Rightarrow> string" where
  "padded n i = (let s = show_nat (nat i) in replicate (n - length s) (CHR ''0'') @ s)"

definition toISOString :: "int \<Rightarrow> string" where
  "toISOString t =
     (case civil_date (t div 86400000) of (y, m, d) \<Rightarrow>
        let ms = t mod 86400000
        in (if 0 \<le> y \<and> y \<le> 9999 then padded 4 y else (if y < 0 then ''-'' else ''+'') @ padded 6 \<bar>y\<bar>)
           @ ''-'' @ padded 2 m @ ''-'' @ padded 2 d @ ''T'' @ padded 2 (ms div 3600000)
           @ '':'' @ padded 2 (ms div 60000 mod 60) @ '':'' @ padded 2 (ms div 1000 mod 60)
           @ ''.'' @ padded 3 (ms mod 1000) @ ''Z'')"

definition sessionFileName :: "int \<Rightarrow> string \<Rightarrow> string" where
  "sessionFileName createdAt i =
     map (\<lambda>c. if c = CHR '':'' \<or> c = CHR ''.'' then CHR ''-'' else c) (toISOString createdAt)
       @ ''_'' @ i @ ''.jsonl''"

definition endsWith :: "string \<Rightarrow> string \<Rightarrow> bool" where
  "endsWith s suf \<longleftrightarrow> length suf \<le> length s \<and> drop (length s - length suf) s = suf"

section \<open>Listing and loading\<close>

definition jsonlSessionsRoot :: "'w file_system \<Rightarrow> string \<Rightarrow> ('w, string) io" where
  "jsonlSessionsRoot fs sessionsRoot =
     fileResult (fs_absolutePath fs sessionsRoot) (''Failed to resolve sessions root '' @ sessionsRoot)"

definition jsonlSessionDirectory :: "'w file_system \<Rightarrow> string \<Rightarrow> string \<Rightarrow> ('w, string) io" where
  "jsonlSessionDirectory fs sessionsRoot cwd =
     fileResult (fs_joinPath fs [sessionsRoot, jsonlSessionDirectoryName cwd])
       (''Failed to resolve sessions directory for '' @ cwd)"

definition jsonlSessionDirectories ::
  "'w file_system \<Rightarrow> string \<Rightarrow> string option \<Rightarrow> ('w, string list) io" where
  "jsonlSessionDirectories fs sessionsRootInput cwd =
     bindIO (jsonlSessionsRoot fs sessionsRootInput) (\<lambda>sessionsRoot.
     case cwd of
       Some d \<Rightarrow>
         bindIO (fileResult (fs_absolutePath fs d) (''Failed to resolve session cwd '' @ d)) (\<lambda>resolvedCwd.
         bindIO (jsonlSessionDirectory fs sessionsRoot resolvedCwd) (\<lambda>directory.
         bindIO (fileResult (fs_exists fs directory) (''Failed to check sessions directory '' @ directory)) (\<lambda>present.
         returnIO (if present then [directory] else []))))
     | None \<Rightarrow>
         bindIO (fileResult (fs_exists fs sessionsRoot) (''Failed to check sessions directory '' @ sessionsRoot)) (\<lambda>present.
         if \<not> present then returnIO []
         else bindIO (fileResult (fs_listDir fs sessionsRoot) (''Failed to list sessions directory '' @ sessionsRoot)) (\<lambda>entries.
              returnIO (map fi_path (filter (\<lambda>e. fi_kind e = FK_directory \<or> fi_kind e = FK_symlink) entries)))))"

fun headers_of ::
  "'w file_system \<Rightarrow> representation \<Rightarrow> file_info list \<Rightarrow> jsonl_metadata list \<Rightarrow> ('w, jsonl_metadata list) io" where
  "headers_of fs rp [] acc = returnIO acc"
| "headers_of fs rp (file # files) acc =
     bindIO (fileResult (fs_readTextLines fs (fi_path file) 1) (''Failed to read session header '' @ fi_path file)) (\<lambda>ls.
     headers_of fs rp files
       (case ls of
          [] \<Rightarrow> acc
        | firstLine # _ \<Rightarrow>
            if firstLine = [] then acc
            else (case parseHeader rp firstLine of
                    Inl _ \<Rightarrow> acc
                  | Inr header \<Rightarrow> acc @ [metadataFromHeader header (fi_path file) (fi_mtimeMs file)])))"

fun metadata_of ::
  "'w file_system \<Rightarrow> representation \<Rightarrow> string list \<Rightarrow> jsonl_metadata list \<Rightarrow> ('w, jsonl_metadata list) io" where
  "metadata_of fs rp [] acc = returnIO acc"
| "metadata_of fs rp (directory # ds) acc =
     bindIO (fileResult (fs_listDir fs directory) (''Failed to list sessions directory '' @ directory)) (\<lambda>entries.
     bindIO (headers_of fs rp
               (filter (\<lambda>e. fi_kind e \<noteq> FK_directory \<and> endsWith (fi_name e) ''.jsonl'') entries) acc) (\<lambda>acc.
     metadata_of fs rp ds acc))"

definition listJsonlSessionMetadata ::
  "'w file_system \<Rightarrow> representation \<Rightarrow> string \<Rightarrow> string option \<Rightarrow> ('w, jsonl_metadata list) io" where
  "listJsonlSessionMetadata fs rp sessionsRoot cwd =
     bindIO (jsonlSessionDirectories fs sessionsRoot cwd) (\<lambda>ds.
     bindIO (metadata_of fs rp ds []) (\<lambda>metadata.
     returnIO (sort_key (\<lambda>m. - jm_modifiedAt m) metadata)))"

definition loadJsonlSessionStorage ::
  "'w file_system \<Rightarrow> representation \<Rightarrow> jsonl_metadata \<Rightarrow> ('w, jsonl_storage) io" where
  "loadJsonlSessionStorage fs rp metadata =
     bindIO (fileResult (fs_exists fs (jm_path metadata)) (''Failed to check session '' @ jm_path metadata)) (\<lambda>present.
     if \<not> present then throwIO (SessionError SE_not_found (''Session not found: '' @ md_id metadata))
     else bindIO (jsonl_load fs rp (jm_path metadata)) (\<lambda>storage.
          if md_id (js_metadata storage) \<noteq> md_id metadata
          then throwIO (SessionError SE_invalid_entry (''Session id does not match header: '' @ md_id metadata))
          else returnIO storage))"

section \<open>The repository\<close>

record jsonl_repo =
  jr_root :: "(session_error + string) option"
  jr_active :: "string set"

definition new_repo :: jsonl_repo where
  "new_repo = \<lparr>jr_root = None, jr_active = {}\<rparr>"

record create_options =
  cr_id :: "string option"
  cr_cwd :: string
  cr_parentSessionId :: "string option"
  cr_metadata :: "(string \<times> json) list option"

text \<open>A method of the world as one of the world and the repository.\<close>

definition on_world :: "('w, 'a) io \<Rightarrow> ('w \<times> jsonl_repo, 'a) io" where
  "on_world m = (\<lambda>(w, repo). case m w of (r, w') \<Rightarrow> (r, (w', repo)))"

text \<open>\<open>rootPromise ??= ...\<close>: the first outcome, an error too, is kept.\<close>

definition repo_root :: "'w file_system \<Rightarrow> string \<Rightarrow> ('w \<times> jsonl_repo, string) io" where
  "repo_root fs sessionsRootInput = (\<lambda>(w, repo).
     case jr_root repo of
       Some r \<Rightarrow> (r, (w, repo))
     | None \<Rightarrow> (case jsonlSessionsRoot fs sessionsRootInput w of
                  (r, w') \<Rightarrow> (r, (w', repo\<lparr>jr_root := Some r\<rparr>))))"

definition sessionDirectory :: "'w file_system \<Rightarrow> string \<Rightarrow> string \<Rightarrow> ('w \<times> jsonl_repo, string) io" where
  "sessionDirectory fs sessionsRootInput cwd =
     bindIO (repo_root fs sessionsRootInput) (\<lambda>root.
     on_world (fileResult (fs_joinPath fs [root, jsonlSessionDirectoryName cwd])
       (''Failed to resolve sessions directory for '' @ cwd)))"

definition sessionIdExists :: "'w file_system \<Rightarrow> string \<Rightarrow> string \<Rightarrow> string \<Rightarrow> ('w \<times> jsonl_repo, bool) io" where
  "sessionIdExists fs sessionsRootInput i cwd =
     (let suffix = ''_'' @ i @ ''.jsonl''
      in bindIO (sessionDirectory fs sessionsRootInput cwd) (\<lambda>directory.
         bindIO (on_world (fileResult (fs_exists fs directory) (''Failed to check sessions directory '' @ directory))) (\<lambda>present.
         if \<not> present then returnIO False
         else bindIO (on_world (fileResult (fs_listDir fs directory) (''Failed to list sessions directory '' @ directory))) (\<lambda>files.
              returnIO (list_ex (\<lambda>e. fi_kind e \<noteq> FK_directory \<and> endsWith (fi_name e) suffix) files)))))"

definition resolveCreateDestination ::
  "'w file_system \<Rightarrow> string \<Rightarrow> create_options \<Rightarrow> ('w \<times> jsonl_repo, string \<times> string) io" where
  "resolveCreateDestination fs fresh opts =
     (let i = (case cr_id opts of Some x \<Rightarrow> x | None \<Rightarrow> fresh)
      in bindIO (liftIO (validateSessionId i)) (\<lambda>_.
         bindIO (on_world (fileResult (fs_absolutePath fs (cr_cwd opts)) (''Failed to resolve session cwd '' @ cr_cwd opts))) (\<lambda>cwd.
         returnIO (i, cwd))))"

definition destination_key :: "string \<times> string \<Rightarrow> string" where
  "destination_key destination = snd destination @ [CHR 0x00] @ fst destination"

definition claimCreateDestination ::
  "string \<times> string \<Rightarrow> ('w \<times> jsonl_repo, 'a) io \<Rightarrow> ('w \<times> jsonl_repo, 'a) io" where
  "claimCreateDestination destination operation = (\<lambda>(w, repo).
     let key = destination_key destination
     in if key \<in> jr_active repo
        then (Inl (SessionError SE_already_exists (''Session already exists: '' @ fst destination)), (w, repo))
        else case operation (w, repo\<lparr>jr_active := insert key (jr_active repo)\<rparr>) of
               (r, (w', repo')) \<Rightarrow> (r, (w', repo'\<lparr>jr_active := jr_active repo' - {key}\<rparr>)))"

definition prepareCreate ::
  "'w file_system \<Rightarrow> string \<Rightarrow> int \<Rightarrow> string \<times> string \<Rightarrow> create_options \<Rightarrow>
   ('w \<times> jsonl_repo, jsonl_header \<times> string) io" where
  "prepareCreate fs sessionsRootInput now destination opts =
     (case destination of (i, cwd) \<Rightarrow>
        bindIO (sessionIdExists fs sessionsRootInput i cwd) (\<lambda>present.
        if present then throwIO (SessionError SE_already_exists (''Session already exists: '' @ i))
        else bindIO (sessionDirectory fs sessionsRootInput cwd) (\<lambda>directory.
             bindIO (on_world (fileResult (fs_joinPath fs [directory, sessionFileName now i])
                       (''Failed to resolve path for session '' @ i))) (\<lambda>path.
             bindIO (liftIO (case cr_metadata opts of None \<Rightarrow> Inr () | Some ps \<Rightarrow> assert_tree (JObject ps))) (\<lambda>_.
             bindIO (on_world (fileResult (fs_createDir fs directory) ''Failed to create sessions directory'')) (\<lambda>_.
             returnIO (\<lparr>jh_id = i, jh_createdAt = now, jh_cwd = cwd, jh_parentSessionId = cr_parentSessionId opts,
                        jh_legacyParentSessionPath = None, jh_metadata = cr_metadata opts\<rparr>, path)))))))"

definition jsonl_repo_create ::
  "'w file_system \<Rightarrow> representation \<Rightarrow> string \<Rightarrow> string \<Rightarrow> int \<Rightarrow> create_options \<Rightarrow>
   ('w \<times> jsonl_repo, jsonl_storage) io" where
  "jsonl_repo_create fs rp sessionsRootInput fresh now opts =
     bindIO (resolveCreateDestination fs fresh opts) (\<lambda>destination.
     claimCreateDestination destination
       (bindIO (prepareCreate fs sessionsRootInput now destination opts) (\<lambda>(header, path).
        on_world (jsonl_create fs rp path header))))"

definition jsonl_repo_open ::
  "'w file_system \<Rightarrow> representation \<Rightarrow> jsonl_metadata \<Rightarrow> ('w \<times> jsonl_repo, jsonl_storage) io" where
  "jsonl_repo_open fs rp metadata = on_world (loadJsonlSessionStorage fs rp metadata)"

definition jsonl_repo_list ::
  "'w file_system \<Rightarrow> representation \<Rightarrow> string \<Rightarrow> string option \<Rightarrow> ('w \<times> jsonl_repo, jsonl_metadata list) io" where
  "jsonl_repo_list fs rp sessionsRootInput cwd = on_world (listJsonlSessionMetadata fs rp sessionsRootInput cwd)"

definition jsonl_repo_delete :: "'w file_system \<Rightarrow> jsonl_metadata \<Rightarrow> ('w \<times> jsonl_repo, unit) io" where
  "jsonl_repo_delete fs metadata =
     on_world (fileResult (fs_remove fs (jm_path metadata)) (''Failed to delete session '' @ jm_path metadata))"

definition jsonl_repo_fork ::
  "'w file_system \<Rightarrow> representation \<Rightarrow> string \<Rightarrow> string \<Rightarrow> int \<Rightarrow> jsonl_metadata \<Rightarrow> fork_options \<Rightarrow> create_options \<Rightarrow>
   ('w \<times> jsonl_repo, jsonl_storage) io" where
  "jsonl_repo_fork fs rp sessionsRootInput fresh now source fopts opts =
     bindIO (on_world (loadJsonlSessionStorage fs rp source)) (\<lambda>sourceStorage.
     let createOptions = opts\<lparr>cr_parentSessionId :=
           Some (case cr_parentSessionId opts of Some p \<Rightarrow> p | None \<Rightarrow> md_id source)\<rparr>
     in bindIO (resolveCreateDestination fs fresh createOptions) (\<lambda>destination.
        claimCreateDestination destination
          (bindIO (prepareCreate fs sessionsRootInput now destination createOptions) (\<lambda>(header, path).
           on_world (jsonl_fork fs rp sourceStorage path header fopts)))))"

end
