(* ===== verification/Repo_Properties.thy ===== *)
theory Repo_Properties
  imports Jsonl_Repo Jsonl_Properties
begin

text \<open>
  The properties of the session repository: one session per id and directory, claims that are always
  released, names that stay inside their directory, and two flaws of \<open>sessionIdExists\<close> and \<open>root\<close>.
\<close>

section \<open>Claims\<close>

definition keeps_active :: "('w \<times> jsonl_repo, 'a) io \<Rightarrow> bool" where
  "keeps_active m \<longleftrightarrow> (\<forall>w repo. jr_active (snd (snd (m (w, repo)))) = jr_active repo)"

named_theorems keeps "methods that leave the claims alone"

lemma keeps_on_world [keeps]: "keeps_active (on_world m)"
  by (auto simp: keeps_active_def on_world_def split: prod.splits)

lemma keeps_return [keeps]: "keeps_active (returnIO x)"
  by (simp add: keeps_active_def)

lemma keeps_throw [keeps]: "keeps_active (throwIO e)"
  by (simp add: keeps_active_def)

lemma keeps_lift [keeps]: "keeps_active (liftIO r)"
  by (simp add: keeps_active_def)

lemma keeps_bind [keeps]:
  assumes "keeps_active m" and "\<And>x. keeps_active (f x)"
  shows "keeps_active (bindIO m f)"
  unfolding keeps_active_def
proof (intro allI)
  fix w repo
  obtain r w1 repo1 where m: "m (w, repo) = (r, (w1, repo1))" by (metis surj_pair)
  then have "jr_active repo1 = jr_active repo" using assms(1) by (metis keeps_active_def snd_conv)
  moreover have "jr_active (snd (snd (f x (w1, repo1)))) = jr_active repo1" for x
    using assms(2) by (simp add: keeps_active_def)
  ultimately show "jr_active (snd (snd (bindIO m f (w, repo)))) = jr_active repo"
    using m by (cases r) (simp_all add: bindIO_def)
qed

lemma keeps_if [keeps]: "keeps_active m \<Longrightarrow> keeps_active m' \<Longrightarrow> keeps_active (if c then m else m')"
  by simp

lemma keeps_root [keeps]: "keeps_active (repo_root fs rootInput)"
  by (auto simp: keeps_active_def repo_root_def split: option.splits prod.splits)

lemma keeps_directory [keeps]: "keeps_active (sessionDirectory fs rootInput cwd)"
  unfolding sessionDirectory_def by (intro keeps)

lemma keeps_exists [keeps]: "keeps_active (sessionIdExists fs rootInput i cwd)"
  unfolding sessionIdExists_def Let_def by (intro keeps)

lemma keeps_prepare [keeps]: "keeps_active (prepareCreate fs rootInput now destination opts)"
  unfolding prepareCreate_def
  by (cases destination) (simp only: prod.case, intro keeps)

lemma keeps_claim [keeps]:
  assumes "keeps_active m"
  shows "keeps_active (claimCreateDestination destination m)"
  unfolding keeps_active_def
proof (intro allI)
  fix w :: 'a and repo :: jsonl_repo
  let ?key = "destination_key destination"
  let ?claimed = "repo\<lparr>jr_active := insert ?key (jr_active repo)\<rparr>"
  obtain r w1 repo1 where m: "m (w, ?claimed) = (r, w1, repo1)" by (rule prod_cases3)
  then have "jr_active repo1 = insert ?key (jr_active repo)"
    using assms by (metis (no_types, lifting) keeps_active_def snd_conv jsonl_repo.select_convs(2)
        jsonl_repo.surjective jsonl_repo.update_convs(2))
  then show "jr_active (snd (snd (claimCreateDestination destination m (w, repo)))) = jr_active repo"
    using m by (simp add: claimCreateDestination_def Let_def)
qed

lemma keeps_resolve [keeps]: "keeps_active (resolveCreateDestination fs fresh opts)"
  unfolding resolveCreateDestination_def Let_def by (intro keeps)

lemma keeps_create: "keeps_active (jsonl_repo_create fs rp rootInput fresh now opts)"
  unfolding jsonl_repo_create_def by (intro keeps) (auto intro!: keeps split: prod.split)

lemma keeps_fork: "keeps_active (jsonl_repo_fork fs rp rootInput fresh now source fopts opts)"
  unfolding jsonl_repo_fork_def Let_def by (intro keeps) (auto intro!: keeps split: prod.split)

section \<open>Names\<close>

text \<open>The characters of a timestamp, and those of an accepted id, never separate path segments.\<close>

definition name_char :: "char \<Rightarrow> bool" where
  "name_char c \<longleftrightarrow> is_id_char c \<or> c = CHR ''+''"

lemma digit_name_char: "list_all is_alphanumeric (show_nat n)"
  using show_nat_digits [of n]
  by (auto simp: list_all_iff is_alphanumeric_def is_digit_def)

lemma padded_name: "list_all is_alphanumeric (padded n i)"
  using digit_name_char [of "nat i"]
  by (auto simp: padded_def list_all_iff Let_def is_alphanumeric_def)

lemma butlast_or_last: "x \<in> set xs \<Longrightarrow> x \<in> set (butlast xs) \<or> x = last xs"
  by (induction xs) auto

lemma pattern_chars: "SESSION_ID_PATTERN i \<Longrightarrow> list_all is_id_char i"
  by (cases i) (auto simp: is_id_char_def list_all_iff dest: butlast_or_last)

lemma pattern_not_empty: "SESSION_ID_PATTERN i \<Longrightarrow> i \<noteq> []"
  by (cases i) auto

definition safe_segment :: "string \<Rightarrow> bool" where
  "safe_segment s \<longleftrightarrow> s \<noteq> [] \<and> s \<noteq> ''.'' \<and> s \<noteq> ''..'' \<and>
     list_all (\<lambda>c. \<not> is_separator c \<and> c \<noteq> CHR '':'' \<and> c \<noteq> CHR 0x00) s"

lemma alphanumeric_safe:
  assumes "is_alphanumeric c \<or> c = CHR ''.'' \<or> c = CHR ''_'' \<or> c = CHR ''-'' \<or> c = CHR ''+''"
  shows "\<not> is_separator c" "c \<noteq> CHR '':''" "c \<noteq> CHR 0x00"
  using assms by (auto simp: is_alphanumeric_def is_separator_def Let_def)

definition stamp_char :: "char \<Rightarrow> bool" where
  "stamp_char c \<longleftrightarrow> is_alphanumeric c \<or> c = CHR ''.'' \<or> c = CHR ''-'' \<or> c = CHR ''+'' \<or> c = CHR '':''"

lemma stamp_chars: "list_all stamp_char (toISOString t)"
proof -
  have padded: "list_all stamp_char (padded n i)" for n i
    using padded_name [of n i] by (auto simp: list_all_iff stamp_char_def)
  have letters: "stamp_char (CHR ''T'')" "stamp_char (CHR ''Z'')" "stamp_char (CHR ''-'')"
    "stamp_char (CHR '':'')" "stamp_char (CHR ''.'')" "stamp_char (CHR ''+'')"
    by (simp_all add: stamp_char_def is_alphanumeric_def)
  show ?thesis
    by (cases "civil_date (t div 86400000)") (simp add: toISOString_def Let_def padded letters)
qed

lemma file_name_safe:
  assumes "SESSION_ID_PATTERN i"
  shows "safe_segment (sessionFileName now i)"
proof -
  have "\<not> is_separator c \<and> c \<noteq> CHR '':'' \<and> c \<noteq> CHR 0x00"
    if c: "c \<in> set (sessionFileName now i)" for c
  proof -
    have "c \<in> set i \<or> c \<in> set ''_.jsonl'' \<or> c = CHR ''-'' \<or> (stamp_char c \<and> c \<noteq> CHR '':'')"
      using c stamp_chars [of now] by (auto simp: sessionFileName_def list_all_iff)
    moreover have "is_id_char c" if "c \<in> set i"
      using pattern_chars [OF assms] that by (simp add: list_all_iff)
    ultimately show ?thesis
      by (auto simp: is_id_char_def stamp_char_def is_separator_def is_alphanumeric_def Let_def)
  qed
  moreover have "length (sessionFileName now i) > 2"
    by (simp add: sessionFileName_def)
  ultimately show ?thesis by (auto simp: safe_segment_def list_all_iff)
qed

lemma directory_name_safe:
  assumes "CHR 0x00 \<notin> set cwd"
  shows "safe_segment (jsonlSessionDirectoryName cwd)"
proof -
  have "\<not> is_separator c \<and> c \<noteq> CHR '':'' \<and> c \<noteq> CHR 0x00"
    if c: "c \<in> set (jsonlSessionDirectoryName cwd)" for c
  proof -
    define rest where "rest = (case cwd of c # cs \<Rightarrow> if is_separator c then cs else cwd | [] \<Rightarrow> [])"
    have sub: "set rest \<subseteq> set cwd" by (auto simp: rest_def split: list.splits if_splits)
    have rest: "jsonlSessionDirectoryName cwd =
        ''--'' @ map (\<lambda>c. if is_separator c \<or> c = CHR '':'' then CHR ''-'' else c) rest @ ''--''"
      by (simp add: jsonlSessionDirectoryName_def Let_def rest_def)
    from c have "c = CHR ''-'' \<or> (c \<in> set cwd \<and> \<not> is_separator c \<and> c \<noteq> CHR '':'')"
      unfolding rest using sub by auto
    then show ?thesis using assms by (auto simp: is_separator_def)
  qed
  moreover have "\<exists>r. jsonlSessionDirectoryName cwd = CHR ''-'' # CHR ''-'' # r"
    by (simp add: jsonlSessionDirectoryName_def Let_def)
  ultimately show ?thesis by (auto simp: safe_segment_def list_all_iff)
qed

lemma split_at_first:
  "x \<notin> set xs \<Longrightarrow> x \<notin> set xs' \<Longrightarrow> xs @ x # ys = xs' @ x # ys' \<Longrightarrow> xs = xs' \<and> ys = ys'"
proof (induction xs arbitrary: xs')
  case Nil
  then show ?case by (cases xs') auto
next
  case (Cons a xs)
  then show ?case by (cases xs') auto
qed

lemma destination_key_inject:
  assumes "SESSION_ID_PATTERN i" "SESSION_ID_PATTERN j"
    and "destination_key (i, c) = destination_key (j, d)"
  shows "i = j \<and> c = d"
proof -
  have no: "CHR 0x00 \<notin> set k" if "SESSION_ID_PATTERN k" for k
    using pattern_chars [OF that] by (auto simp: list_all_iff is_id_char_def is_alphanumeric_def)
  have "rev (c @ CHR 0x00 # i) = rev (d @ CHR 0x00 # j)" using assms(3) by (simp add: destination_key_def)
  then have "rev i @ CHR 0x00 # rev c = rev j @ CHR 0x00 # rev d" by simp
  from split_at_first [OF _ _ this] no assms(1,2) show ?thesis by simp
qed

section \<open>A directory of session files\<close>

text \<open>What the interface documents of the operations on names and directories.\<close>

definition directories ::
  "'w file_system \<Rightarrow> ('w \<Rightarrow> string \<rightharpoonup> string) \<Rightarrow> (string list \<Rightarrow> string) \<Rightarrow> (string \<Rightarrow> string) \<Rightarrow> bool" where
  "directories fs content join absolute \<longleftrightarrow>
     (\<forall>ps w x w'. fs_joinPath fs ps w = (Inr x, w') \<longrightarrow> x = join ps \<and> content w' = content w) \<and>
     (\<forall>p w x w'. fs_absolutePath fs p w = (Inr x, w') \<longrightarrow> x = absolute p \<and> content w' = content w) \<and>
     (\<forall>d n w b w'. fs_exists fs d w = (Inr b, w') \<longrightarrow> content w' = content w \<and>
        (safe_segment n \<and> content w (join [d, n]) \<noteq> None \<longrightarrow> b)) \<and>
     (\<forall>d n w files w'. fs_listDir fs d w = (Inr files, w') \<longrightarrow> content w' = content w \<and>
        (safe_segment n \<and> content w (join [d, n]) \<noteq> None \<longrightarrow>
           (\<exists>f \<in> set files. fi_name f = n \<and> fi_kind f \<noteq> FK_directory)))"

lemma on_world_Inr [io]:
  "on_world m (w, repo) = (Inr x, (w', repo')) \<longleftrightarrow> m w = (Inr x, w') \<and> repo' = repo"
  by (auto simp: on_world_def split: prod.splits)

lemma repo_root_Inr:
  "repo_root fs rootInput (w, repo) = (Inr r, (w', repo')) \<Longrightarrow>
     jr_root repo' = Some (Inr r) \<and> (jr_root repo = None \<or> (jr_root repo = Some (Inr r) \<and> w' = w \<and> repo' = repo))"
  by (auto simp: repo_root_def split: option.splits prod.splits)

text \<open>A taken id: the directory holds a file whose name ends as that of a session with the id.\<close>

lemma taken_id:
  assumes d: "directories fs content join absolute"
    and root: "jr_root repo = Some (Inr r)"
    and there: "safe_segment n" "content w (join [join [r, jsonlSessionDirectoryName cwd], n]) \<noteq> None"
    and suffix: "endsWith n (''_'' @ i @ ''.jsonl'')"
    and run: "sessionIdExists fs rootInput i cwd (w, repo) = (Inr b, w')"
  shows b
proof -
  let ?dir = "join [r, jsonlSessionDirectoryName cwd]"
  obtain dir w1 present w2 where
    j: "fs_joinPath fs [r, jsonlSessionDirectoryName cwd] w = (Inr dir, w1)"
    and e: "fs_exists fs dir w1 = (Inr present, w2)"
    and b: "present \<longrightarrow> (\<exists>files w3. fs_listDir fs dir w2 = (Inr files, w3) \<and>
      b = list_ex (\<lambda>e. fi_kind e \<noteq> FK_directory \<and> endsWith (fi_name e) (''_'' @ i @ ''.jsonl'')) files)"
    using run
    by (auto simp: sessionIdExists_def sessionDirectory_def Let_def io repo_root_def root split: if_splits)
  have dir: "dir = ?dir" "content w1 = content w" using d j by (auto simp: directories_def)
  then have present "content w2 = content w"
    using d e there unfolding directories_def by metis+
  with b obtain files w3 where files: "fs_listDir fs dir w2 = (Inr files, w3)"
    and b: "b = list_ex (\<lambda>e. fi_kind e \<noteq> FK_directory \<and> endsWith (fi_name e) (''_'' @ i @ ''.jsonl'')) files"
    by blast
  have "content w2 (join [dir, n]) \<noteq> None" using there dir \<open>content w2 = content w\<close> by simp
  with d files there(1) obtain f where "f \<in> set files" "fi_name f = n" "fi_kind f \<noteq> FK_directory"
    unfolding directories_def by metis
  with suffix show b unfolding b by (auto simp: list_ex_iff)
qed

lemma sessionDirectory_Inr:
  assumes "directories fs content join absolute"
    and "sessionDirectory fs rootInput cwd (w, repo) = (Inr dir, (w', repo'))"
  shows "\<exists>r. jr_root repo' = Some (Inr r) \<and> dir = join [r, jsonlSessionDirectoryName cwd]"
  using assms by (auto simp: sessionDirectory_def io directories_def dest!: repo_root_Inr)

lemma prepareCreate_Inr:
  assumes d: "directories fs content join absolute"
    and run: "prepareCreate fs rootInput now (i, cwd) opts (w, repo) = (Inr (header, path), (w', repo'))"
  shows "\<exists>r. jr_root repo' = Some (Inr r) \<and>
    path = join [join [r, jsonlSessionDirectoryName cwd], sessionFileName now i]"
proof -
  obtain dir w1 repo1 w2 where dir: "sessionDirectory fs rootInput cwd (w1, repo1) = (Inr dir, (w2, repo'))"
    and path: "\<exists>w3. fs_joinPath fs [dir, sessionFileName now i] w2 = (Inr path, w3)"
    using run by (auto simp: prepareCreate_def io split: if_splits)
  from d path have "path = join [dir, sessionFileName now i]"
    by (auto simp: directories_def)
  with sessionDirectory_Inr [OF d dir] show ?thesis by auto
qed

lemma jsonl_create_Inr:
  assumes d: "disk fs content" and run: "jsonl_create fs rp path header w = (Inr st, w')"
  shows "jm_path (js_metadata st) = path \<and> content w' path \<noteq> None"
proof -
  obtain w1 info where wr: "fs_writeFile fs path (encodeHeader rp header) w = (Inr (), w1)"
    and inf: "fs_fileInfo fs path w1 = (Inr info, w')"
    and st: "st = new_jsonl_storage (metadataFromHeader header path (fi_mtimeMs info))"
    using run by (auto simp: jsonl_create_def io)
  show ?thesis
    using disk_write [OF d wr] disk_info [OF d inf] st
    by (simp add: new_jsonl_storage_def metadataFromHeader_def)
qed

text \<open>A successful create has fixed the root and left a file under the name of its id.\<close>

lemma created_file:
  assumes disk: "disk fs content" and d: "directories fs content join absolute"
    and run: "jsonl_repo_create fs rp rootInput fresh now opts (w, repo) = (Inr st, (w1, repo1))"
    and i: "cr_id opts = Some i"
  obtains r where "SESSION_ID_PATTERN i" "jr_root repo1 = Some (Inr r)"
    "jm_path (js_metadata st) =
       join [join [r, jsonlSessionDirectoryName (absolute (cr_cwd opts))], sessionFileName now i]"
    "content w1 (jm_path (js_metadata st)) \<noteq> None"
proof -
  obtain cwd wa where abs: "fs_absolutePath fs (cr_cwd opts) w = (Inr cwd, wa)"
    and valid: "SESSION_ID_PATTERN i"
    and claim: "claimCreateDestination (i, cwd) (bindIO (prepareCreate fs rootInput now (i, cwd) opts)
          (\<lambda>(header, path). on_world (jsonl_create fs rp path header))) (wa, repo) = (Inr st, (w1, repo1))"
    using run i by (auto simp: jsonl_repo_create_def resolveCreateDestination_def io validateSessionId_def require_def
        split: if_splits)
  have cwd: "cwd = absolute (cr_cwd opts)" using abs d by (auto simp: directories_def)
  obtain repo2 header path wb repo3 where
    prep: "prepareCreate fs rootInput now (i, cwd) opts (wa, repo2) = (Inr (header, path), (wb, repo3))"
    and create: "jsonl_create fs rp path header wb = (Inr st, w1)" and root3: "jr_root repo1 = jr_root repo3"
    using claim by (auto simp: claimCreateDestination_def Let_def io split: if_splits prod.splits)
  from prepareCreate_Inr [OF d prep] jsonl_create_Inr [OF disk create] that valid root3 cwd
  show thesis by metis
qed

text \<open>The directory holds a file that ends as one of the id: nothing is prepared.\<close>

lemma prepare_rejected:
  assumes d: "directories fs content join absolute"
    and root: "jr_root repo = Some (Inr r)"
    and there: "safe_segment n" "content w (join [join [r, jsonlSessionDirectoryName cwd], n]) \<noteq> None"
    and suffix: "endsWith n (''_'' @ i @ ''.jsonl'')"
  shows "\<exists>e w'. prepareCreate fs rootInput now (i, cwd) opts (w, repo) = (Inl e, w')"
proof -
  obtain b w1 where run: "sessionIdExists fs rootInput i cwd (w, repo) = (b, w1)" by (meson surj_pair)
  then have "b = Inr x \<Longrightarrow> x" for x using taken_id [OF d root there suffix] by blast
  with run show ?thesis by (cases b) (auto simp: prepareCreate_def bindIO_def)
qed

lemma create_rejected:
  assumes d: "directories fs content join absolute"
    and root: "jr_root repo = Some (Inr r)"
    and there: "safe_segment n"
      "content w (join [join [r, jsonlSessionDirectoryName (absolute (cr_cwd opts))], n]) \<noteq> None"
    and suffix: "endsWith n (''_'' @ i @ ''.jsonl'')" and i: "cr_id opts = Some i"
  shows "\<exists>e. fst (jsonl_repo_create fs rp rootInput fresh now opts (w, repo)) = Inl e"
proof -
  obtain res wr where Pair: "jsonl_repo_create fs rp rootInput fresh now opts (w, repo) = (res, wr)" by (meson surj_pair)
  show ?thesis
  proof (cases res)
    case (Inr st)
    with Pair obtain cwd wa repo2 header path w3 where
      abs: "fs_absolutePath fs (cr_cwd opts) w = (Inr cwd, wa)"
      and prep: "prepareCreate fs rootInput now (i, cwd) opts (wa, repo2) = (Inr (header, path), w3)"
      and root2: "jr_root repo2 = jr_root repo"
      using i
      by (cases wr) (auto simp: jsonl_repo_create_def resolveCreateDestination_def io claimCreateDestination_def Let_def
        split: if_splits prod.splits)
    from abs d have "cwd = absolute (cr_cwd opts)" "content wa = content w" by (auto simp: directories_def)
    with prepare_rejected [OF d, of repo2 r n wa cwd i rootInput now opts] root root2 there suffix prep
    show ?thesis by auto
  qed (simp add: Pair)
qed

lemma ends_with_id: "endsWith (sessionFileName now i) (''_'' @ i @ ''.jsonl'')"
  by (simp add: endsWith_def sessionFileName_def)

lemma ends_with_id_suffix: "endsWith (sessionFileName now (p @ ''_'' @ i)) (''_'' @ i @ ''.jsonl'')"
  by (simp add: endsWith_def sessionFileName_def)

text \<open>\<open>listing\<close> is what any file system does whose directories list the files that are there.\<close>

lemma taken_by_file:
  assumes disk: "disk fs content" and d: "directories fs content join absolute"
    and run: "jsonl_repo_create fs rp rootInput fresh now opts (w, repo) = (Inr st, (w1, repo1))"
    and i: "cr_id opts = Some i" and kept: "content w2 (jm_path (js_metadata st)) \<noteq> None"
    and same: "jr_root repo2 = jr_root repo1" "absolute (cr_cwd opts2) = absolute (cr_cwd opts)"
    and j: "cr_id opts2 = Some j" "endsWith (sessionFileName now i) (''_'' @ j @ ''.jsonl'')"
  shows "\<exists>e. fst (jsonl_repo_create fs rp rootInput fresh2 now2 opts2 (w2, repo2)) = Inl e"
proof -
  from created_file [OF disk d run i] obtain r where r: "SESSION_ID_PATTERN i" "jr_root repo1 = Some (Inr r)"
    "jm_path (js_metadata st) =
       join [join [r, jsonlSessionDirectoryName (absolute (cr_cwd opts))], sessionFileName now i]"
    by blast
  with create_rejected [OF d _ file_name_safe [OF r(1)] _ j(2,1), of repo2 r w2] kept same
  show ?thesis by simp
qed

section \<open>An example\<close>

text \<open>A disk that lists its files: association list of paths and texts.\<close>

definition demo_join :: "string list \<Rightarrow> string" where
  "demo_join ps = concat (map ((#) (CHR ''/'')) ps)"

definition demo_entries :: "string \<Rightarrow> (string \<times> string) list \<Rightarrow> file_info list" where
  "demo_entries d w =
     (let pre = demo_join [d, []]
      in map (\<lambda>(p, t). \<lparr>fi_name = drop (length pre) p, fi_path = p, fi_kind = FK_file, fi_size = 0, fi_mtimeMs = 7\<rparr>)
           (filter (\<lambda>(p, t). take (length pre) p = pre) w))"

definition folder_fs :: "(string \<times> string) list file_system" where
  "folder_fs =
     \<lparr>fs_absolutePath = (\<lambda>p w. (Inr p, w)),
      fs_joinPath = (\<lambda>ps w. (Inr (demo_join ps), w)),
      fs_readTextFile = (\<lambda>p w. (case map_of w p of None \<Rightarrow> Inl demo_missing | Some t \<Rightarrow> Inr t, w)),
      fs_readTextLines = (\<lambda>p n w. (case map_of w p of None \<Rightarrow> Inl demo_missing | Some t \<Rightarrow> Inr (take n (split_lines t)), w)),
      fs_writeFile = (\<lambda>p s w. (Inr (), AList.update p s w)),
      fs_appendFile = (\<lambda>p s w. (Inr (), AList.update p (appended (map_of w p) s) w)),
      fs_renameFile = (\<lambda>p q w. case map_of w p of None \<Rightarrow> (Inl demo_missing, w)
        | Some t \<Rightarrow> (Inr (), AList.delete p (AList.update q t w))),
      fs_fileInfo = (\<lambda>p w. (Inr \<lparr>fi_name = p, fi_path = p, fi_kind = FK_file, fi_size = 0, fi_mtimeMs = 7\<rparr>, w)),
      fs_listDir = (\<lambda>d w. (Inr (demo_entries d w), w)),
      fs_exists = (\<lambda>d w. (Inr (map_of w d \<noteq> None \<or> demo_entries d w \<noteq> []), w)),
      fs_createDir = (\<lambda>p w. (Inr (), w)),
      fs_remove = (\<lambda>p w. (Inr (), AList.delete p w))\<rparr>"

lemma folder_simps [simp]:
  "fs_absolutePath folder_fs p w = (Inr p, w)"
  "fs_joinPath folder_fs ps w = (Inr (demo_join ps), w)"
  "fs_readTextFile folder_fs p w = ((case map_of w p of None \<Rightarrow> Inl demo_missing | Some t \<Rightarrow> Inr t), w)"
  "fs_writeFile folder_fs p s w = (Inr (), AList.update p s w)"
  "fs_appendFile folder_fs p s w = (Inr (), AList.update p (appended (map_of w p) s) w)"
  "fs_renameFile folder_fs p q w = (case map_of w p of None \<Rightarrow> (Inl demo_missing, w)
        | Some t \<Rightarrow> (Inr (), AList.delete p (AList.update q t w)))"
  "fs_fileInfo folder_fs p w = (Inr \<lparr>fi_name = p, fi_path = p, fi_kind = FK_file, fi_size = 0, fi_mtimeMs = 7\<rparr>, w)"
  "fs_listDir folder_fs d w = (Inr (demo_entries d w), w)"
  "fs_exists folder_fs d w = (Inr (map_of w d \<noteq> None \<or> demo_entries d w \<noteq> []), w)"
  "fs_createDir folder_fs d w = (Inr (), w)"
  "fs_remove folder_fs p w = (Inr (), AList.delete p w)"
  by (simp_all add: folder_fs_def)

lemma folder_healthy: "healthy folder_fs map_of"
  unfolding healthy_def disk_def
  by (intro conjI allI impI) (simp_all add: update_conv' delete_conv' split: option.splits)

lemma demo_listed:
  assumes "map_of w (demo_join [d, n]) \<noteq> None"
  shows "\<exists>f \<in> set (demo_entries d w). fi_name f = n \<and> fi_kind f \<noteq> FK_directory"
proof -
  have pre: "demo_join [d, n] = demo_join [d, []] @ n" by (simp add: demo_join_def)
  from assms obtain t where "(demo_join [d, n], t) \<in> set w" by (auto dest: map_of_SomeD)
  then have "\<lparr>fi_name = n, fi_path = demo_join [d, n], fi_kind = FK_file, fi_size = 0, fi_mtimeMs = 7\<rparr>
      \<in> set (demo_entries d w)"
    unfolding demo_entries_def Let_def set_map pre
    by (intro image_eqI [where x = "(demo_join [d, []] @ n, t)"]) simp_all
  then show ?thesis by (rule rev_bexI) simp
qed

lemma folder_directories: "directories folder_fs map_of demo_join id"
proof -
  have "demo_entries d w \<noteq> []" if "map_of w (demo_join [d, n]) \<noteq> None" for d n w
    using demo_listed [OF that] by auto
  with demo_listed show ?thesis
    unfolding directories_def by (intro conjI allI impI) (simp_all, blast+)
qed

definition demo_create :: "string \<Rightarrow> create_options" where
  "demo_create i = \<lparr>cr_id = Some i, cr_cwd = ''w'', cr_parentSessionId = None, cr_metadata = None\<rparr>"

definition demo_first :: "(session_error + jsonl_storage) \<times> (string \<times> string) list \<times> jsonl_repo" where
  "demo_first = jsonl_repo_create folder_fs demo_rp ''r'' ''f'' 5 (demo_create ''a_b'') ([], new_repo)"

lemma demo_first_runs:
  obtains st w repo where "demo_first = (Inr st, (w, repo))" "map_of w (jm_path (js_metadata st)) \<noteq> None"
proof -
  have "isl (fst demo_first) = False" by code_simp
  moreover obtain r w repo where run: "demo_first = (r, w, repo)" by (rule prod_cases3)
  ultimately have "isl r = False" by (metis fst_conv)
  then obtain st where "r = Inr st" by (cases r) auto
  with run have run: "demo_first = (Inr st, (w, repo))" by simp
  then have "map_of w (jm_path (js_metadata st)) \<noteq> None"
    using created_file [OF healthy_disk [OF folder_healthy] folder_directories run [unfolded demo_first_def]]
    by (metis create_options.select_convs(1) demo_create_def)
  with run that show thesis by blast
qed

lemma claimed_create_refused:
  assumes "SESSION_ID_PATTERN i" and "cr_id opts = Some i"
    and "fs_absolutePath fs (cr_cwd opts) w = (Inr cwd, w')" and "destination_key (i, cwd) \<in> jr_active repo"
  shows "jsonl_repo_create fs rp rootInput fresh now opts (w, repo) =
    (Inl (SessionError SE_already_exists (''Session already exists: '' @ i)), (w', repo))"
proof -
  have "resolveCreateDestination fs fresh opts (w, repo) = (Inr (i, cwd), (w', repo))"
    using assms by (simp add: resolveCreateDestination_def io validateSessionId_def require_def Let_def)
  then show ?thesis
    using assms(4) by (simp add: jsonl_repo_create_def bindIO_def claimCreateDestination_def Let_def)
qed

text \<open>Existing files exist.\<close>

definition truthful :: "'w file_system \<Rightarrow> ('w \<Rightarrow> string \<rightharpoonup> string) \<Rightarrow> bool" where
  "truthful fs content \<longleftrightarrow>
     (\<forall>p w t. content w p = Some t \<longrightarrow> (\<exists>w'. fs_exists fs p w = (Inr True, w') \<and> content w' = content w))"

lemma folder_truthful: "truthful folder_fs map_of"
  by (simp add: truthful_def)

lemma created_holds:
  assumes d: "disk fs content"
    and run: "jsonl_repo_create fs rp rootInput fresh now opts (w, repo) = (Inr st, (w1, repo1))"
    and opts: "cr_id opts = Some i" "safe_nat now" "cr_metadata opts = None"
  shows "\<exists>h. header_ok rp h \<and> jh_id h = i \<and> holds content rp h [] st w1 \<and> js_state st = initial_state \<and>
    md_id (js_metadata st) = i"
proof -
  obtain cwd wa repo2 header path wb repo3 where
    prep: "prepareCreate fs rootInput now (i, cwd) opts (wa, repo2) = (Inr (header, path), (wb, repo3))"
    and create: "jsonl_create fs rp path header wb = (Inr st, w1)"
    using run opts(1)
    by (auto simp: jsonl_repo_create_def resolveCreateDestination_def io claimCreateDestination_def Let_def
        split: if_splits prod.splits)
  have header: "header = \<lparr>jh_id = i, jh_createdAt = now, jh_cwd = cwd, jh_parentSessionId = cr_parentSessionId opts,
      jh_legacyParentSessionPath = None, jh_metadata = None\<rparr>"
    using prep opts(3) by (auto simp: prepareCreate_def io split: if_splits)
  then have ok: "header_ok rp header" using opts(2) by (simp add: header_ok_def)
  have "md_id (js_metadata st) = jh_id header"
    using create by (auto simp: jsonl_create_def io new_jsonl_storage_def metadataFromHeader_def)
  with create_file [OF d ok create] header ok show ?thesis by auto
qed

lemma root_failure_stored:
  assumes "jr_root repo = None" and "isl (fst (fs_absolutePath fs rootInput w))"
  shows "\<exists>e. jr_root (snd (snd (sessionDirectory fs rootInput cwd (w, repo)))) = Some (Inl e)"
proof -
  obtain err w' where "fs_absolutePath fs rootInput w = (Inl err, w')"
    using assms(2) by (cases "fs_absolutePath fs rootInput w") (auto simp: isl_def)
  then show ?thesis
    using assms(1) by (simp add: sessionDirectory_def bindIO_def repo_root_def jsonlSessionsRoot_def fileResult_def)
qed

lemma failed_root_create:
  assumes "jr_root repo = Some (Inl e)"
  shows "isl (fst (jsonl_repo_create fs rp rootInput fresh now opts (w, repo))) \<and>
    jr_root (snd (snd (jsonl_repo_create fs rp rootInput fresh now opts (w, repo)))) = Some (Inl e)"
proof -
  have prep: "prepareCreate fs rootInput now dest opts (w, repo) = (Inl e, (w, repo))"
    if "jr_root repo = Some (Inl e)" for w repo dest
    using that by (cases dest) (simp add: prepareCreate_def bindIO_def sessionIdExists_def sessionDirectory_def repo_root_def Let_def)
  obtain r w1 repo1 where run: "resolveCreateDestination fs fresh opts (w, repo) = (r, w1, repo1)" by (rule prod_cases3)
  then have "repo1 = repo"
    by (auto simp: resolveCreateDestination_def Let_def bindIO_def on_world_def validateSessionId_def require_def
        split: if_splits prod.splits sum.splits)
  with run prep [of "repo\<lparr>jr_active := insert k (jr_active repo)\<rparr>" for k] assms show ?thesis
    by (cases r) (auto simp: jsonl_repo_create_def bindIO_def claimCreateDestination_def Let_def)
qed

section \<open>The properties\<close>

text \<open>
  One session per id and directory: as long as the file of a created session is there, the
  repository creates no second session with its id for the same working directory, whatever the time,
  the metadata and the other files.
\<close>

theorem session_ids_unique:
  assumes "disk fs content" and "directories fs content join absolute"
    and "jsonl_repo_create fs rp rootInput fresh now opts (w, repo) = (Inr st, (w1, repo1))"
    and "cr_id opts = Some i" and "content w2 (jm_path (js_metadata st)) \<noteq> None"
    and "jr_root repo2 = jr_root repo1" and "absolute (cr_cwd opts2) = absolute (cr_cwd opts)"
    and "cr_id opts2 = Some i"
  shows "\<exists>e. fst (jsonl_repo_create fs rp rootInput fresh2 now2 opts2 (w2, repo2)) = Inl e"
  by (rule taken_by_file [OF assms(1-7) assms(8) ends_with_id])

theorem session_ids_unique_witness:
  "\<exists>st w repo e. demo_first = (Inr st, (w, repo)) \<and>
     fst (jsonl_repo_create folder_fs demo_rp ''r'' ''f'' 9 (demo_create ''a_b'') (w, repo)) = Inl e"
proof -
  obtain st w repo where run: "demo_first = (Inr st, (w, repo))" and f: "map_of w (jm_path (js_metadata st)) \<noteq> None"
    by (rule demo_first_runs)
  from session_ids_unique [OF healthy_disk [OF folder_healthy] folder_directories run [unfolded demo_first_def],
      where ?i = "''a_b''" and ?w2.0 = w and ?repo2.0 = repo and ?opts2.0 = "demo_create ''a_b''"
      and ?fresh2.0 = "''f''" and ?now2.0 = 9] f
  have "\<exists>e. fst (jsonl_repo_create folder_fs demo_rp ''r'' ''f'' 9 (demo_create ''a_b'') (w, repo)) = Inl e"
    by (simp add: demo_create_def)
  with run show ?thesis by blast
qed

text \<open>
  The check is on the end of file names, so an id may be taken by another one: while a session
  \<open>p_j\<close> exists, no session \<open>j\<close> can be created for the directory, although there is none.
\<close>

theorem id_suffix_confusion:
  assumes "disk fs content" and "directories fs content join absolute"
    and "jsonl_repo_create fs rp rootInput fresh now opts (w, repo) = (Inr st, (w1, repo1))"
    and "cr_id opts = Some (p @ ''_'' @ j)" and "content w2 (jm_path (js_metadata st)) \<noteq> None"
    and "jr_root repo2 = jr_root repo1" and "absolute (cr_cwd opts2) = absolute (cr_cwd opts)"
    and "cr_id opts2 = Some j"
  shows "\<exists>e. fst (jsonl_repo_create fs rp rootInput fresh2 now2 opts2 (w2, repo2)) = Inl e"
  by (rule taken_by_file [OF assms(1-7) assms(8) ends_with_id_suffix])

theorem id_suffix_confusion_witness:
  "\<exists>st w repo e. demo_first = (Inr st, (w, repo)) \<and>
     fst (jsonl_repo_create folder_fs demo_rp ''r'' ''f'' 9 (demo_create ''b'') (w, repo)) = Inl e"
proof -
  obtain st w repo where run: "demo_first = (Inr st, (w, repo))" and f: "map_of w (jm_path (js_metadata st)) \<noteq> None"
    by (rule demo_first_runs)
  from id_suffix_confusion [OF healthy_disk [OF folder_healthy] folder_directories run [unfolded demo_first_def],
      where ?p = "''a''" and ?j = "''b''" and ?w2.0 = w and ?repo2.0 = repo and ?opts2.0 = "demo_create ''b''"
      and ?fresh2.0 = "''f''" and ?now2.0 = 9] f
  have "\<exists>e. fst (jsonl_repo_create folder_fs demo_rp ''r'' ''f'' 9 (demo_create ''b'') (w, repo)) = Inl e"
    by (simp add: demo_create_def)
  with run show ?thesis by blast
qed

text \<open>
  Every create and fork gives its claim back however it ends, and as long as a claim is held a
  create for the same id and directory is refused without any effect on files.
\<close>

theorem claims_exclude_and_end:
  "jr_active (snd (snd (jsonl_repo_create fs rp rootInput fresh now opts (w, repo)))) = jr_active repo \<and>
   jr_active (snd (snd (jsonl_repo_fork fs rp rootInput fresh now source fopts opts (w, repo)))) = jr_active repo \<and>
   (SESSION_ID_PATTERN i \<and> cr_id opts = Some i \<and> fs_absolutePath fs (cr_cwd opts) w = (Inr cwd, w') \<and>
      destination_key (i, cwd) \<in> jr_active repo \<longrightarrow>
    jsonl_repo_create fs rp rootInput fresh now opts (w, repo) =
      (Inl (SessionError SE_already_exists (''Session already exists: '' @ i)), (w', repo)))"
  using keeps_create [of fs rp rootInput fresh now opts] keeps_fork [of fs rp rootInput fresh now source fopts opts]
    claimed_create_refused [of i opts fs w cwd w' repo rp rootInput fresh now]
  by (auto simp: keeps_active_def)

theorem claims_exclude_and_end_witness:
  "fst (jsonl_repo_create folder_fs demo_rp ''r'' ''f'' 5 (demo_create ''a'')
     ([], \<lparr>jr_root = None, jr_active = {''w'' @ [CHR 0x00] @ ''a''}\<rparr>))
   = Inl (SessionError SE_already_exists ''Session already exists: a'')"
  using claims_exclude_and_end [of folder_fs demo_rp "''r''" "''f''" 5 "demo_create ''a''" "[]"
      "\<lparr>jr_root = None, jr_active = {''w'' @ [CHR 0x00] @ ''a''}\<rparr>" undefined undefined "''a''" "''w''" "[]"]
  by (simp add: demo_create_def destination_key_def is_alphanumeric_def)

text \<open>
  A created session opens: from any state of the disk that still has its file, \<open>open\<close> with the
  metadata of the new session returns the same, still empty, session.
\<close>

theorem created_session_opens:
  assumes "healthy fs content" and "directories fs content join absolute" and "truthful fs content"
    and "jsonl_repo_create fs rp rootInput fresh now opts (w, repo) = (Inr st, (w1, repo1))"
    and "cr_id opts = Some i" and "safe_nat now" and "cr_metadata opts = None"
    and "content w2 (jm_path (js_metadata st)) = content w1 (jm_path (js_metadata st))"
  shows "\<exists>st' w3. jsonl_repo_open fs rp (js_metadata st) (w2, repo2) = (Inr st', (w3, repo2)) \<and>
    md_id (js_metadata st') = i \<and> jm_path (js_metadata st') = jm_path (js_metadata st) \<and>
    js_state st' = initial_state \<and> content w3 = content w2"
proof -
  note d = healthy_disk [OF assms(1)]
  obtain h where h: "header_ok rp h" "jh_id h = i" "holds content rp h [] st w1" "js_state st = initial_state"
    "md_id (js_metadata st) = i"
    using created_holds [OF d assms(4-7)] by metis
  then have held: "holds content rp h [] st w2" using assms(8) by (simp add: holds_def)
  then obtain t where "content w2 (jm_path (js_metadata st)) = Some t" by (auto simp: holds_def)
  with assms(3) obtain w3 where e: "fs_exists fs (jm_path (js_metadata st)) w2 = (Inr True, w3)"
    and w3: "content w3 = content w2"
    unfolding truthful_def by metis
  have "holds content rp h [] st w3" using held w3 by (simp add: holds_def)
  from healthy_load [OF assms(1) this] obtain st' w4 where
    "jsonl_load fs rp (jm_path (js_metadata st)) w3 = (Inr st', w4)" "js_state st' = js_state st"
    "content w4 = content w3" "jm_path (js_metadata st') = jm_path (js_metadata st)" "md_id (js_metadata st') = i"
    using h(2) by auto
  with e w3 h(4,5) show ?thesis
    by (auto simp: jsonl_repo_open_def loadJsonlSessionStorage_def io)
qed

theorem created_session_opens_witness:
  "\<exists>st w repo st' w'. demo_first = (Inr st, (w, repo)) \<and>
     jsonl_repo_open folder_fs demo_rp (js_metadata st) (w, repo) = (Inr st', w') \<and>
     md_id (js_metadata st') = ''a_b'' \<and> js_state st' = initial_state"
proof -
  obtain st w repo where run: "demo_first = (Inr st, (w, repo))" by (rule demo_first_runs)
  from created_session_opens [OF folder_healthy folder_directories folder_truthful run [unfolded demo_first_def],
      of "''a_b''" w repo]
  obtain st' w3 where "jsonl_repo_open folder_fs demo_rp (js_metadata st) (w, repo) = (Inr st', (w3, repo))"
    "md_id (js_metadata st') = ''a_b''" "js_state st' = initial_state"
    by (auto simp: demo_create_def safe_nat_def MAX_SAFE_INTEGER_def)
  with run show ?thesis by metis
qed

text \<open>
  Names stay inside their directory: the file of an accepted id and the directory of a working
  directory are single segments of a path, never empty, never relative, with no separator, colon or NUL.
\<close>

theorem session_names_stay_inside:
  assumes "validateSessionId i = Inr ()" and "CHR 0x00 \<notin> set cwd"
  shows "safe_segment (sessionFileName now i) \<and> safe_segment (jsonlSessionDirectoryName cwd)"
  using assms file_name_safe directory_name_safe
  by (auto simp: validateSessionId_def require_def split: if_splits)

theorem session_names_stay_inside_witness:
  "safe_segment (sessionFileName 5 ''a-1.b'') \<and> safe_segment (jsonlSessionDirectoryName ''/home/../x'')"
  by (rule session_names_stay_inside)
    (simp_all add: validateSessionId_def require_def is_alphanumeric_def is_id_char_def)

text \<open>
  A sessions root that could not be resolved once is never asked for again: the failure is kept, and
  with it every later create fails, whatever has become of the file system.
\<close>

theorem root_failure_is_final:
  "(jr_root repo = None \<and> isl (fst (fs_absolutePath fs rootInput w)) \<longrightarrow>
      (\<exists>e. jr_root (snd (snd (sessionDirectory fs rootInput cwd (w, repo)))) = Some (Inl e))) \<and>
   (jr_root repo = Some (Inl e) \<longrightarrow>
      isl (fst (jsonl_repo_create fs rp rootInput fresh now opts (w, repo))) \<and>
      jr_root (snd (snd (jsonl_repo_create fs rp rootInput fresh now opts (w, repo)))) = Some (Inl e))"
  using root_failure_stored [of repo fs rootInput w cwd]
    failed_root_create [of repo e fs rp rootInput fresh now opts w] by blast

definition rootless_fs :: "(string \<times> string) list file_system" where
  "rootless_fs = folder_fs\<lparr>fs_absolutePath := (\<lambda>p w. (Inl demo_missing, w))\<rparr>"

theorem root_failure_is_final_witness:
  "\<exists>e. jr_root (snd (snd (sessionDirectory rootless_fs ''r'' ''w'' ([], new_repo)))) = Some (Inl e) \<and>
     isl (fst (jsonl_repo_create folder_fs demo_rp ''r'' ''f'' 5 (demo_create ''a'')
       ([], snd (snd (sessionDirectory rootless_fs ''r'' ''w'' ([], new_repo))))))"
proof -
  let ?repo = "snd (snd (sessionDirectory rootless_fs ''r'' ''w'' ([], new_repo)))"
  have "jr_root new_repo = None" "isl (fst (fs_absolutePath rootless_fs ''r'' []))"
    by (simp_all add: new_repo_def rootless_fs_def)
  then obtain e where e: "jr_root ?repo = Some (Inl e)"
    using root_failure_is_final [of new_repo rootless_fs "''r''" "[]" "''w''"] by blast
  then have "isl (fst (jsonl_repo_create folder_fs demo_rp ''r'' ''f'' 5 (demo_create ''a'') ([], ?repo)))"
    using root_failure_is_final [of ?repo folder_fs "''r''" "[]"] by blast
  with e show ?thesis by blast
qed

end
