(* ===== verification/Compaction.thy ===== *)
theory Compaction
  imports Session_Context Json_Text "HOL-Library.Char_ord" "HOL-Library.List_Lexorder"
begin

text \<open>
  Preparing a compaction: \<open>packages/agent/src/harness/compaction/utils.ts\<close>, \<open>prepareCompaction\<close> and what
  it calls in \<open>compaction.ts\<close>, and \<open>prepareBranchEntries\<close> of \<open>branch-summarization.ts\<close>. Strings are
  lists of 8-bit characters and token counts are integers; the text of a fractional number
  (\<open>Number.prototype.toString\<close>) is the parameter \<open>text_of\<close>. A \<open>Set\<close> of paths is the list of its elements
  in insertion order.
\<close>

section \<open>File operations (utils.ts)\<close>

record file_operations =
  fo_read :: "string list"
  fo_written :: "string list"
  fo_edited :: "string list"

definition createFileOps :: file_operations where
  "createFileOps = \<lparr>fo_read = [], fo_written = [], fo_edited = []\<rparr>"

definition set_add :: "string list \<Rightarrow> string \<Rightarrow> string list" where
  "set_add xs x = (if x \<in> set xs then xs else xs @ [x])"

definition path_argument :: "json \<Rightarrow> string option" where
  "path_argument args =
     (case args of
        JObject ps \<Rightarrow> (case map_of ps ''path'' of
                        Some (JString p) \<Rightarrow> (if p = [] then None else Some p)
                      | _ \<Rightarrow> None)
      | _ \<Rightarrow> None)"

definition add_call :: "file_operations \<Rightarrow> tool_call \<Rightarrow> file_operations" where
  "add_call ops call =
     (case path_argument (tc_arguments call) of
        None \<Rightarrow> ops
      | Some p \<Rightarrow>
          if tc_name call = ''read'' then ops\<lparr>fo_read := set_add (fo_read ops) p\<rparr>
          else if tc_name call = ''write'' then ops\<lparr>fo_written := set_add (fo_written ops) p\<rparr>
          else if tc_name call = ''edit'' then ops\<lparr>fo_edited := set_add (fo_edited ops) p\<rparr>
          else ops)"

definition extractFileOpsFromMessage :: "agent_message \<Rightarrow> file_operations \<Rightarrow> file_operations" where
  "extractFileOpsFromMessage m ops =
     (case m of
        Msg (M_assistant a) \<Rightarrow> foldl add_call ops (toolCalls_of (am_content a))
      | _ \<Rightarrow> ops)"

definition computeFileLists :: "file_operations \<Rightarrow> string list \<times> string list" where
  "computeFileLists ops =
     (let modified = foldl set_add [] (fo_edited ops @ fo_written ops)
      in (sort (filter (\<lambda>f. f \<notin> set modified) (fo_read ops)), sort modified))"

text \<open>\<open>xs.join(separator)\<close>.\<close>

fun join_with :: "string \<Rightarrow> string list \<Rightarrow> string" where
  "join_with sep [] = []"
| "join_with sep [x] = x"
| "join_with sep (x # xs) = x @ sep @ join_with sep xs"

definition tagged_section :: "string \<Rightarrow> string list \<Rightarrow> string" where
  "tagged_section tag files =
     ''<'' @ tag @ ''>'' @ [newline] @ join_with [newline] files @ [newline] @ ''</'' @ tag @ ''>''"

definition formatFileOperations :: "string list \<Rightarrow> string list \<Rightarrow> string" where
  "formatFileOperations readFiles modifiedFiles =
     (let sections = (if readFiles \<noteq> [] then [tagged_section ''read-files'' readFiles] else [])
                     @ (if modifiedFiles \<noteq> [] then [tagged_section ''modified-files'' modifiedFiles] else [])
      in if sections = [] then []
         else [newline, newline] @ join_with [newline, newline] sections)"

section \<open>The text of a conversation (utils.ts, ai/src/utils/text.ts)\<close>

fun text_blocks :: "content list \<Rightarrow> string list" where
  "text_blocks [] = []"
| "text_blocks (TextContent t _ # cs) = t # text_blocks cs"
| "text_blocks (_ # cs) = text_blocks cs"

definition contentText :: "string \<Rightarrow> content list \<Rightarrow> string" where
  "contentText sep cs = join_with sep (text_blocks cs)"

fun user_text :: "string \<Rightarrow> user_content \<Rightarrow> string" where
  "user_text sep (UserText t) = t"
| "user_text sep (UserBlocks cs) = contentText sep cs"

definition TOOL_RESULT_MAX_CHARS :: nat where
  "TOOL_RESULT_MAX_CHARS = 2000"

definition truncateForSummary :: "string \<Rightarrow> nat \<Rightarrow> string" where
  "truncateForSummary s maxChars =
     (if length s \<le> maxChars then s
      else take maxChars s @ [newline, newline] @ ''[... '' @ show_nat (length s - maxChars)
             @ '' more characters truncated]'')"

fun thinking_blocks :: "content list \<Rightarrow> string list" where
  "thinking_blocks [] = []"
| "thinking_blocks (ThinkingContent t _ _ # cs) = t # thinking_blocks cs"
| "thinking_blocks (_ # cs) = thinking_blocks cs"

definition has_text :: "content list \<Rightarrow> bool" where
  "has_text cs = list_ex (\<lambda>c. case c of TextContent _ _ \<Rightarrow> True | _ \<Rightarrow> False) cs"

text \<open>
  \<open>Object.entries\<close> of the arguments of a call: of an object its members; arguments are objects by
  their type.
\<close>

definition call_text :: "(js_number \<Rightarrow> string) \<Rightarrow> tool_call \<Rightarrow> string" where
  "call_text text_of call =
     tc_name call @ ''(''
       @ join_with '', '' (case tc_arguments call of
                             JObject ps \<Rightarrow> map (\<lambda>(k, v). k @ ''='' @ stringify text_of v) ps
                           | _ \<Rightarrow> [])
       @ '')''"

definition message_parts :: "(js_number \<Rightarrow> string) \<Rightarrow> message \<Rightarrow> string list" where
  "message_parts text_of m =
     (case m of
        M_user u \<Rightarrow>
          (let t = user_text [] (um_content u) in if t \<noteq> [] then [''[User]: '' @ t] else [])
      | M_assistant a \<Rightarrow>
          (let thinking = thinking_blocks (am_content a); calls = map (call_text text_of) (toolCalls_of (am_content a))
           in (if thinking \<noteq> [] then [''[Assistant thinking]: '' @ join_with [newline] thinking] else [])
              @ (if has_text (am_content a) then [''[Assistant]: '' @ contentText [newline] (am_content a)] else [])
              @ (if calls \<noteq> [] then [''[Assistant tool calls]: '' @ join_with ''; '' calls] else []))
      | M_toolResult r \<Rightarrow>
          (let t = contentText [] (tr_content r)
           in if t \<noteq> [] then [''[Tool result]: '' @ truncateForSummary t TOOL_RESULT_MAX_CHARS] else []))"

definition serializeConversation :: "(js_number \<Rightarrow> string) \<Rightarrow> message list \<Rightarrow> string" where
  "serializeConversation text_of messages =
     join_with [newline, newline] (concat (map (message_parts text_of) messages))"

section \<open>Token estimates (compaction.ts)\<close>

record compaction_settings =
  cp_enabled :: bool
  cp_reserveTokens :: int
  cp_keepRecentTokens :: int

definition DEFAULT_COMPACTION_SETTINGS :: compaction_settings where
  "DEFAULT_COMPACTION_SETTINGS = \<lparr>cp_enabled = True, cp_reserveTokens = 16384, cp_keepRecentTokens = 20000\<rparr>"

definition calculateContextTokens :: "usage \<Rightarrow> int" where
  "calculateContextTokens u =
     (if us_totalTokens u \<noteq> 0 then us_totalTokens u
      else us_input u + us_output u + us_cacheRead u + us_cacheWrite u)"

definition getAssistantUsage :: "agent_message \<Rightarrow> usage option" where
  "getAssistantUsage m =
     (case m of
        Msg (M_assistant a) \<Rightarrow>
          (if am_stopReason a \<noteq> SR_aborted \<and> am_stopReason a \<noteq> SR_error \<and> 0 < calculateContextTokens (am_usage a)
           then Some (am_usage a) else None)
      | _ \<Rightarrow> None)"

text \<open>\<open>scan_usage\<close> is the loop from the last entry to the first.\<close>

fun scan_usage :: "entry list \<Rightarrow> usage option" where
  "scan_usage [] = None"
| "scan_usage (e # older) =
     (case ent_data e of
        E_message m _ \<Rightarrow> (case getAssistantUsage m of Some u \<Rightarrow> Some u | None \<Rightarrow> scan_usage older)
      | _ \<Rightarrow> scan_usage older)"

definition getLastAssistantUsage :: "entry list \<Rightarrow> usage option" where
  "getLastAssistantUsage es = scan_usage (rev es)"

definition ESTIMATED_IMAGE_CHARS :: int where
  "ESTIMATED_IMAGE_CHARS = 4800"

fun block_chars :: "content \<Rightarrow> int" where
  "block_chars (TextContent t _) = int (length t)"
| "block_chars (ImageContent _ _) = ESTIMATED_IMAGE_CHARS"
| "block_chars _ = 0"

fun estimateTextAndImageContentChars :: "user_content \<Rightarrow> int" where
  "estimateTextAndImageContentChars (UserText t) = int (length t)"
| "estimateTextAndImageContentChars (UserBlocks cs) = sum_list (map block_chars cs)"

fun assistant_chars :: "(js_number \<Rightarrow> string) \<Rightarrow> content \<Rightarrow> int" where
  "assistant_chars text_of (TextContent t _) = int (length t)"
| "assistant_chars text_of (ThinkingContent t _ _) = int (length t)"
| "assistant_chars text_of (ToolCallContent c) =
     int (length (tc_name c)) + int (length (stringify text_of (tc_arguments c)))"
| "assistant_chars text_of (ImageContent _ _) = 0"

definition quarter :: "int \<Rightarrow> int" where
  "quarter chars = (chars + 3) div 4"  \<comment> \<open>\<open>Math.ceil(chars / 4)\<close>\<close>

fun estimateTokens :: "(js_number \<Rightarrow> string) \<Rightarrow> agent_message \<Rightarrow> int" where
  "estimateTokens text_of (Msg (M_user u)) = quarter (estimateTextAndImageContentChars (um_content u))"
| "estimateTokens text_of (Msg (M_assistant a)) = quarter (sum_list (map (assistant_chars text_of) (am_content a)))"
| "estimateTokens text_of (Msg (M_toolResult r)) =
     quarter (estimateTextAndImageContentChars (UserBlocks (tr_content r)))"
| "estimateTokens text_of (Custom m) = quarter (estimateTextAndImageContentChars (cm_content m))"
| "estimateTokens text_of (BashExecution m) = quarter (int (length (be_command m)) + int (length (be_output m)))"
| "estimateTokens text_of (BranchSummary m) = quarter (int (length (bs_summary m)))"
| "estimateTokens text_of (CompactionSummary m) = quarter (int (length (cs_summary m)))"

definition tokens_of :: "(js_number \<Rightarrow> string) \<Rightarrow> agent_message list \<Rightarrow> int" where
  "tokens_of text_of ms = sum_list (map (estimateTokens text_of) ms)"

record context_usage =
  cu_tokens :: int
  cu_usageTokens :: int
  cu_trailingTokens :: int
  cu_lastUsageIndex :: "nat option"

text \<open>The loop over the indices from the last down; \<open>n\<close> is the number of messages still to look at.\<close>

fun last_usage_info :: "agent_message list \<Rightarrow> nat \<Rightarrow> (usage \<times> nat) option" where
  "last_usage_info ms 0 = None"
| "last_usage_info ms (Suc n) =
     (case getAssistantUsage (ms ! n) of Some u \<Rightarrow> Some (u, n) | None \<Rightarrow> last_usage_info ms n)"

definition getLastAssistantUsageInfo :: "agent_message list \<Rightarrow> (usage \<times> nat) option" where
  "getLastAssistantUsageInfo ms = last_usage_info ms (length ms)"

definition estimateContextTokens :: "(js_number \<Rightarrow> string) \<Rightarrow> agent_message list \<Rightarrow> context_usage" where
  "estimateContextTokens text_of ms =
     (case getLastAssistantUsageInfo ms of
        None \<Rightarrow> (let estimated = tokens_of text_of ms
                 in \<lparr>cu_tokens = estimated, cu_usageTokens = 0, cu_trailingTokens = estimated, cu_lastUsageIndex = None\<rparr>)
      | Some (u, index) \<Rightarrow>
          (let usageTokens = calculateContextTokens u; trailingTokens = tokens_of text_of (drop (index + 1) ms)
           in \<lparr>cu_tokens = usageTokens + trailingTokens, cu_usageTokens = usageTokens,
               cu_trailingTokens = trailingTokens, cu_lastUsageIndex = Some index\<rparr>))"

definition shouldCompact :: "int \<Rightarrow> int \<Rightarrow> compaction_settings \<Rightarrow> bool" where
  "shouldCompact contextTokens contextWindow settings \<longleftrightarrow>
     cp_enabled settings \<and> contextWindow - cp_reserveTokens settings < contextTokens"

section \<open>Cut points (compaction.ts)\<close>

text \<open>
  Indices into the entries. Reading an entry past the end throws a \<open>TypeError\<close>, the value \<open>None\<close> of
  \<open>findCutPoint\<close>; callers pass bounds inside the list.
\<close>

definition is_cut_entry :: "entry \<Rightarrow> bool" where
  "is_cut_entry e \<longleftrightarrow>
     (case ent_data e of
        E_message m _ \<Rightarrow> (case m of Msg (M_toolResult _) \<Rightarrow> False | _ \<Rightarrow> True)
      | E_branch_summary _ _ _ _ \<Rightarrow> True
      | _ \<Rightarrow> False)"

definition findValidCutPoints :: "entry list \<Rightarrow> nat \<Rightarrow> nat \<Rightarrow> nat list" where
  "findValidCutPoints es startIndex endIndex = filter (\<lambda>i. is_cut_entry (es ! i)) [startIndex..<endIndex]"

definition starts_turn :: "entry \<Rightarrow> bool" where
  "starts_turn e \<longleftrightarrow>
     (case ent_data e of
        E_branch_summary _ _ _ _ \<Rightarrow> True
      | E_message m _ \<Rightarrow> (case m of Msg (M_user _) \<Rightarrow> True | BashExecution _ \<Rightarrow> True | _ \<Rightarrow> False)
      | _ \<Rightarrow> False)"

text \<open>\<open>None\<close> is the result \<open>-1\<close>.\<close>

fun findTurnStartIndex :: "entry list \<Rightarrow> nat \<Rightarrow> nat \<Rightarrow> nat option" where
  "findTurnStartIndex es entryIndex startIndex =
     (if entryIndex < startIndex then None
      else if starts_turn (es ! entryIndex) then Some entryIndex
      else if entryIndex = 0 then None
      else findTurnStartIndex es (entryIndex - 1) startIndex)"

declare findTurnStartIndex.simps [simp del]

record cut_point =
  ct_firstKeptEntryIndex :: nat
  ct_turnStartIndex :: "nat option"
  ct_isSplitTurn :: bool

text \<open>The index at which the tokens from the end reach the budget; \<open>n\<close> is one past the index looked at.\<close>

fun budget_index :: "(js_number \<Rightarrow> string) \<Rightarrow> entry list \<Rightarrow> nat \<Rightarrow> int \<Rightarrow> int \<Rightarrow> nat \<Rightarrow> nat option" where
  "budget_index text_of es startIndex keep acc 0 = None"
| "budget_index text_of es startIndex keep acc (Suc i) =
     (if i < startIndex then None
      else case ent_data (es ! i) of
          E_message m _ \<Rightarrow>
            (let acc' = acc + estimateTokens text_of m
             in if keep \<le> acc' then Some i else budget_index text_of es startIndex keep acc' i)
        | _ \<Rightarrow> budget_index text_of es startIndex keep acc i)"

definition is_message_entry :: "entry \<Rightarrow> bool" where
  "is_message_entry e \<longleftrightarrow> ent_type e = ET_message"

fun widen_cut :: "entry list \<Rightarrow> nat \<Rightarrow> nat \<Rightarrow> nat" where
  "widen_cut es startIndex 0 = 0"
| "widen_cut es startIndex (Suc c) =
     (if startIndex < Suc c \<and> \<not> is_compaction (es ! c) \<and> \<not> is_message_entry (es ! c)
      then widen_cut es startIndex c else Suc c)"

definition is_user_entry :: "entry \<Rightarrow> bool" where
  "is_user_entry e \<longleftrightarrow> (case ent_data e of E_message (Msg (M_user _)) _ \<Rightarrow> True | _ \<Rightarrow> False)"

definition chosen_cut :: "nat list \<Rightarrow> nat option \<Rightarrow> nat" where
  "chosen_cut cutPoints reached =
     (case reached of
        None \<Rightarrow> hd cutPoints
      | Some i \<Rightarrow> (case find (\<lambda>c. i \<le> c) cutPoints of Some c \<Rightarrow> c | None \<Rightarrow> hd cutPoints))"

definition findCutPoint ::
  "(js_number \<Rightarrow> string) \<Rightarrow> entry list \<Rightarrow> nat \<Rightarrow> nat \<Rightarrow> int \<Rightarrow> cut_point option" where
  "findCutPoint text_of es startIndex endIndex keepRecentTokens =
     (if startIndex < endIndex \<and> length es < endIndex then None
      else
        let cutPoints = findValidCutPoints es startIndex endIndex
        in if cutPoints = []
           then Some \<lparr>ct_firstKeptEntryIndex = startIndex, ct_turnStartIndex = None, ct_isSplitTurn = False\<rparr>
           else
             let cutIndex = widen_cut es startIndex
                   (chosen_cut cutPoints (budget_index text_of es startIndex keepRecentTokens 0 endIndex));
                 isUserMessage = is_user_entry (es ! cutIndex);
                 turnStartIndex = (if isUserMessage then None else findTurnStartIndex es cutIndex startIndex)
             in Some \<lparr>ct_firstKeptEntryIndex = cutIndex, ct_turnStartIndex = turnStartIndex,
                      ct_isSplitTurn = (\<not> isUserMessage \<and> turnStartIndex \<noteq> None)\<rparr>)"

section \<open>Preparing a compaction (compaction.ts)\<close>

text \<open>The paths of a \<open>string[]\<close> in the details of an entry, none when it is no array.\<close>

definition detail_paths :: "json option \<Rightarrow> string \<Rightarrow> string list" where
  "detail_paths details k =
     (case details of
        Some (JObject ps) \<Rightarrow>
          (case map_of ps k of
             Some (JArray vs) \<Rightarrow> concat (map (\<lambda>v. case v of JString f \<Rightarrow> [f] | _ \<Rightarrow> []) vs)
           | _ \<Rightarrow> [])
      | _ \<Rightarrow> [])"

definition add_details :: "file_operations \<Rightarrow> json option \<Rightarrow> file_operations" where
  "add_details ops details =
     ops\<lparr>fo_read := foldl set_add (fo_read ops) (detail_paths details ''readFiles''),
         fo_edited := foldl set_add (fo_edited ops) (detail_paths details ''modifiedFiles'')\<rparr>"

fun compaction_details :: "entry_data \<Rightarrow> json option" where
  "compaction_details (E_compaction _ _ _ details _) = details"
| "compaction_details _ = None"

definition extractFileOperations :: "agent_message list \<Rightarrow> entry list \<Rightarrow> nat option \<Rightarrow> file_operations" where
  "extractFileOperations messages es prevCompactionIndex =
     (let ops = (case prevCompactionIndex of
                   None \<Rightarrow> createFileOps
                 | Some i \<Rightarrow> add_details createFileOps (compaction_details (ent_data (es ! i))))
      in foldl (\<lambda>ops m. extractFileOpsFromMessage m ops) ops messages)"

definition getMessageFromEntry :: "entry \<Rightarrow> agent_message option" where
  "getMessageFromEntry e =
     (case ent_data e of
        E_message m _ \<Rightarrow> Some m
      | E_branch_summary fromId summary _ _ \<Rightarrow> Some (createBranchSummaryMessage summary fromId (ent_timestamp e))
      | E_compaction summary _ tokensBefore _ _ \<Rightarrow>
          Some (createCompactionSummaryMessage summary tokensBefore (ent_timestamp e))
      | _ \<Rightarrow> None)"

definition getMessageFromEntryForCompaction :: "entry \<Rightarrow> agent_message option" where
  "getMessageFromEntryForCompaction e = (if ent_type e = ET_compaction then None else getMessageFromEntry e)"

fun message_timestamp :: "agent_message \<Rightarrow> int" where
  "message_timestamp (Msg (M_user u)) = um_timestamp u"
| "message_timestamp (Msg (M_assistant a)) = am_timestamp a"
| "message_timestamp (Msg (M_toolResult r)) = tr_timestamp r"
| "message_timestamp (BashExecution m) = be_timestamp m"
| "message_timestamp (Custom m) = cm_timestamp m"
| "message_timestamp (BranchSummary m) = bs_timestamp m"
| "message_timestamp (CompactionSummary m) = cs_timestamp m"

record compaction_preparation =
  pr_messagesToSummarize :: "agent_message list"
  pr_turnPrefixMessages :: "agent_message list"
  pr_retainedTail :: "agent_message list"
  pr_isSplitTurn :: bool
  pr_tokensBefore :: int
  pr_previousSummary :: "string option"
  pr_fileOps :: file_operations
  pr_settings :: compaction_settings

text \<open>The loop from the last entry down; \<open>n\<close> entries are still to look at.\<close>

fun last_compaction :: "entry list \<Rightarrow> nat \<Rightarrow> nat option" where
  "last_compaction es 0 = None"
| "last_compaction es (Suc n) = (if ent_type (es ! n) = ET_compaction then Some n else last_compaction es n)"

definition retained_id :: "entry \<Rightarrow> nat \<Rightarrow> string" where
  "retained_id c index = ent_id c @ '':retained:'' @ show_nat index"

definition virtual_entry :: "entry \<Rightarrow> nat \<Rightarrow> agent_message \<Rightarrow> entry" where
  "virtual_entry c index m =
     \<lparr>ent_id = retained_id c index, ent_data = E_message m False,
      ent_parentId = Some (if index = 0 then ent_id c else retained_id c (index - 1)),
      ent_seq = ent_seq c, ent_timestamp = message_timestamp m\<rparr>"

definition retained_entries :: "entry \<Rightarrow> entry list" where
  "retained_entries c =
     (case ent_data c of
        E_compaction _ retainedTail _ _ _ \<Rightarrow> map (\<lambda>(index, m). virtual_entry c index m) (enumerate 0 retainedTail)
      | _ \<Rightarrow> [])"

definition compaction_summary :: "entry_data \<Rightarrow> string option" where
  "compaction_summary d = (case d of E_compaction summary _ _ _ _ \<Rightarrow> Some summary | _ \<Rightarrow> None)"

definition compactable_entries :: "entry list \<Rightarrow> entry list" where
  "compactable_entries pathEntries =
     (case last_compaction pathEntries (length pathEntries) of
        None \<Rightarrow> pathEntries
      | Some i \<Rightarrow> retained_entries (pathEntries ! i) @ drop (i + 1) pathEntries)"

text \<open>\<open>Inl ()\<close> is the \<open>TypeError\<close> of \<open>findCutPoint\<close>, \<open>Inr None\<close> the result \<open>undefined\<close>.\<close>

definition prepareCompaction ::
  "(js_number \<Rightarrow> string) \<Rightarrow> entry list \<Rightarrow> compaction_settings \<Rightarrow> unit + compaction_preparation option" where
  "prepareCompaction text_of pathEntries settings =
     (if pathEntries = [] \<or> ent_type (last pathEntries) = ET_compaction then Inr None
      else
        let prevCompactionIndex = last_compaction pathEntries (length pathEntries);
            previousSummary = (case prevCompactionIndex of
                                 None \<Rightarrow> None | Some i \<Rightarrow> compaction_summary (ent_data (pathEntries ! i)));
            compactable = compactable_entries pathEntries;
            tokensBefore = cu_tokens (estimateContextTokens text_of
                             (sc_messages (buildSessionContext pathEntries default_options)))
        in case findCutPoint text_of compactable 0 (length compactable) (cp_keepRecentTokens settings) of
             None \<Rightarrow> Inl ()
           | Some cutPoint \<Rightarrow>
               let firstKept = ct_firstKeptEntryIndex cutPoint;
                   historyEnd = (case ct_turnStartIndex cutPoint of
                                   Some t \<Rightarrow> if ct_isSplitTurn cutPoint then t else firstKept
                                 | None \<Rightarrow> firstKept);
                   messages_of = List.map_filter getMessageFromEntryForCompaction;
                   messagesToSummarize = messages_of (take historyEnd compactable);
                   turnPrefixMessages = (if ct_isSplitTurn cutPoint
                                         then messages_of (drop historyEnd (take firstKept compactable)) else []);
                   retainedTail = messages_of (drop firstKept compactable);
                   fileOps = extractFileOperations messagesToSummarize pathEntries prevCompactionIndex
               in Inr (Some \<lparr>pr_messagesToSummarize = messagesToSummarize,
                             pr_turnPrefixMessages = turnPrefixMessages, pr_retainedTail = retainedTail,
                             pr_isSplitTurn = ct_isSplitTurn cutPoint, pr_tokensBefore = tokensBefore,
                             pr_previousSummary = previousSummary,
                             pr_fileOps = (if ct_isSplitTurn cutPoint
                               then foldl (\<lambda>ops m. extractFileOpsFromMessage m ops) fileOps turnPrefixMessages else fileOps),
                             pr_settings = settings\<rparr>))"

section \<open>Preparing a branch summary (branch-summarization.ts)\<close>

definition branch_message :: "entry \<Rightarrow> agent_message option" where
  "branch_message e =
     (case ent_data e of
        E_message m _ \<Rightarrow> (case m of Msg (M_toolResult _) \<Rightarrow> None | _ \<Rightarrow> Some m)
      | _ \<Rightarrow> getMessageFromEntry e)"

record branch_preparation =
  bp_messages :: "agent_message list"
  bp_fileOps :: file_operations
  bp_totalTokens :: int

fun branch_details :: "entry_data \<Rightarrow> json option" where
  "branch_details (E_branch_summary _ _ details _) = details"
| "branch_details _ = None"

definition is_summary_entry :: "entry \<Rightarrow> bool" where
  "is_summary_entry e \<longleftrightarrow> ent_type e = ET_compaction \<or> ent_type e = ET_branch_summary"

text \<open>
  The loop over the entries from the newest on. \<open>totalTokens < tokenBudget * 0.9\<close> is decided over the
  integers: the product of an integer and the double next to 0.9 rounds to an integer exactly when the
  product with 0.9 is one.
\<close>

fun branch_loop_back ::
  "(js_number \<Rightarrow> string) \<Rightarrow> int \<Rightarrow> entry list \<Rightarrow> branch_preparation \<Rightarrow> branch_preparation" where
  "branch_loop_back text_of tokenBudget [] p = p"
| "branch_loop_back text_of tokenBudget (e # older) p =
     (case branch_message e of
        None \<Rightarrow> branch_loop_back text_of tokenBudget older p
      | Some m \<Rightarrow>
          let ops = extractFileOpsFromMessage m (bp_fileOps p); tokens = estimateTokens text_of m;
              added = \<lparr>bp_messages = m # bp_messages p, bp_fileOps = ops, bp_totalTokens = bp_totalTokens p + tokens\<rparr>
          in if 0 < tokenBudget \<and> tokenBudget < bp_totalTokens p + tokens
             then if is_summary_entry e \<and> 10 * bp_totalTokens p < 9 * tokenBudget then added
                  else p\<lparr>bp_fileOps := ops\<rparr>
             else branch_loop_back text_of tokenBudget older added)"

definition prepareBranchEntries :: "(js_number \<Rightarrow> string) \<Rightarrow> entry list \<Rightarrow> int \<Rightarrow> branch_preparation" where
  "prepareBranchEntries text_of es tokenBudget =
     branch_loop_back text_of tokenBudget (rev es)
       \<lparr>bp_messages = [], bp_fileOps = foldl (\<lambda>ops e. add_details ops (branch_details (ent_data e))) createFileOps es,
        bp_totalTokens = 0\<rparr>"

end
