(* ===== verification/Compaction_Lemmas.thy ===== *)
theory Compaction_Lemmas
  imports Compaction
begin

text \<open>
  Lemmas on the selection of a cut point and on the lists of files: where a cut may lie, how much of
  the conversation it keeps, and that what is summarized and what is kept make up the conversation.
\<close>

section \<open>Cut points\<close>

lemma cut_points_set: "set (findValidCutPoints es s e) = {i. s \<le> i \<and> i < e \<and> is_cut_entry (es ! i)}"
  by (auto simp: findValidCutPoints_def)

lemma cut_points_sorted: "sorted (findValidCutPoints es s e)"
  by (simp add: findValidCutPoints_def sorted_wrt_filter)

lemma widen_cut_bounds:
  "s \<le> c \<Longrightarrow> s \<le> widen_cut es s c \<and> widen_cut es s c \<le> c \<and>
     (\<forall>i. widen_cut es s c \<le> i \<and> i < c \<longrightarrow> \<not> is_message_entry (es ! i) \<and> \<not> is_compaction (es ! i))"
proof (induction c)
  case (Suc c)
  show ?case
  proof (cases "s < Suc c \<and> \<not> is_compaction (es ! c) \<and> \<not> is_message_entry (es ! c)")
    case True
    with Suc.IH show ?thesis by (auto simp: less_Suc_eq)
  qed (use Suc.prems in auto)
qed simp

lemma find_first:
  "sorted xs \<Longrightarrow> find (\<lambda>c. (i::nat) \<le> c) xs = Some c \<Longrightarrow> c \<in> set xs \<and> i \<le> c \<and> (\<forall>d \<in> set xs. i \<le> d \<longrightarrow> c \<le> d)"
  by (induction xs) (auto split: if_splits)

lemma find_none: "find P xs = None \<longleftrightarrow> (\<forall>x \<in> set xs. \<not> P x)"
  by (induction xs) auto

lemma chosen_cut_in:
  assumes "sorted cps" "cps \<noteq> []"
  shows "chosen_cut cps reached \<in> set cps"
proof (cases "\<exists>i c. reached = Some i \<and> find (\<lambda>c. i \<le> c) cps = Some c")
  case True
  then obtain i c where reached: "reached = Some i" and c: "find (\<lambda>c. i \<le> c) cps = Some c" by blast
  then have "chosen_cut cps reached = c" by (simp add: chosen_cut_def)
  with find_first [OF assms(1) c] show ?thesis by simp
next
  case False
  then have "chosen_cut cps reached = hd cps" by (auto simp: chosen_cut_def split: option.splits)
  with assms(2) show ?thesis by simp
qed

lemma turn_start_bounds:
  "findTurnStartIndex es i s = Some t \<Longrightarrow> s \<le> t \<and> t \<le> i \<and> starts_turn (es ! t)"
proof (induction es i s rule: findTurnStartIndex.induct)
  case (1 es i s)
  show ?case
  proof (cases "i < s \<or> starts_turn (es ! i) \<or> i = 0")
    case True
    with "1.prems" findTurnStartIndex.simps [of es i s] show ?thesis by (auto split: if_splits)
  next
    case False
    with "1.prems" have "findTurnStartIndex es (i - 1) s = Some t"
      using findTurnStartIndex.simps [of es i s] by simp
    with "1.IH" False show ?thesis by auto
  qed
qed

text \<open>The result of \<open>findCutPoint\<close> where there is a cut point, by the chosen one.\<close>

lemma cut_point_chosen:
  assumes "findCutPoint text_of es s e keep = Some cp" and "findValidCutPoints es s e \<noteq> []"
  obtains c where "c = chosen_cut (findValidCutPoints es s e) (budget_index text_of es s keep 0 e)"
    "s \<le> c" "c < e" "is_cut_entry (es ! c)" "ct_firstKeptEntryIndex cp = widen_cut es s c"
    "ct_isSplitTurn cp \<longleftrightarrow> ct_turnStartIndex cp \<noteq> None"
    "ct_turnStartIndex cp = None \<or> ct_turnStartIndex cp = findTurnStartIndex es (widen_cut es s c) s"
proof -
  let ?c = "chosen_cut (findValidCutPoints es s e) (budget_index text_of es s keep 0 e)"
  have "?c \<in> {i. s \<le> i \<and> i < e \<and> is_cut_entry (es ! i)}"
    using chosen_cut_in [OF cut_points_sorted assms(2)] unfolding cut_points_set .
  moreover have "cp = \<lparr>ct_firstKeptEntryIndex = widen_cut es s ?c,
      ct_turnStartIndex = (if is_user_entry (es ! widen_cut es s ?c) then None
                           else findTurnStartIndex es (widen_cut es s ?c) s),
      ct_isSplitTurn = (\<not> is_user_entry (es ! widen_cut es s ?c) \<and>
                        findTurnStartIndex es (widen_cut es s ?c) s \<noteq> None)\<rparr>"
    using assms by (simp add: findCutPoint_def Let_def split: if_splits)
  ultimately show thesis by (intro that [OF refl]) (simp_all del: widen_cut.simps)
qed

text \<open>Everything a caller can rely on of a cut point.\<close>

lemma cut_point_bounds:
  assumes cp: "findCutPoint text_of es s e keep = Some cp" and "s \<le> e"
  shows "s \<le> ct_firstKeptEntryIndex cp \<and> ct_firstKeptEntryIndex cp \<le> e \<and>
    (ct_isSplitTurn cp \<longleftrightarrow> ct_turnStartIndex cp \<noteq> None) \<and>
    (\<forall>t. ct_turnStartIndex cp = Some t \<longrightarrow> s \<le> t \<and> t \<le> ct_firstKeptEntryIndex cp)"
proof (cases "findValidCutPoints es s e = []")
  case True
  with assms show ?thesis by (auto simp: findCutPoint_def split: if_splits)
next
  case False
  obtain c where c: "s \<le> c" "c < e"
    and first: "ct_firstKeptEntryIndex cp = widen_cut es s c"
    and split: "ct_isSplitTurn cp \<longleftrightarrow> ct_turnStartIndex cp \<noteq> None"
    and turn: "ct_turnStartIndex cp = None \<or> ct_turnStartIndex cp = findTurnStartIndex es (widen_cut es s c) s"
    by (rule cut_point_chosen [OF cp False])
  have "s \<le> t \<and> t \<le> widen_cut es s c" if "ct_turnStartIndex cp = Some t" for t
    using turn turn_start_bounds [of es "widen_cut es s c" s t] that by auto
  with c first split widen_cut_bounds [of s c es] show ?thesis by auto
qed

lemma findCutPoint_total: "e \<le> length es \<Longrightarrow> findCutPoint text_of es s e keep \<noteq> None"
  by (simp add: findCutPoint_def Let_def)

section \<open>The budget\<close>

definition entry_tokens :: "(js_number \<Rightarrow> string) \<Rightarrow> entry \<Rightarrow> int" where
  "entry_tokens text_of e = (case ent_data e of E_message m _ \<Rightarrow> estimateTokens text_of m | _ \<Rightarrow> 0)"

definition weight :: "(js_number \<Rightarrow> string) \<Rightarrow> entry list \<Rightarrow> int" where
  "weight text_of es = sum_list (map (entry_tokens text_of) es)"

lemma quarter_nonneg: "0 \<le> chars \<Longrightarrow> 0 \<le> quarter chars"
  by (simp add: quarter_def)

lemma chars_nonneg: "0 \<le> block_chars b" "0 \<le> assistant_chars text_of b"
  by (cases b; simp add: ESTIMATED_IMAGE_CHARS_def)+

lemma content_chars_nonneg: "0 \<le> estimateTextAndImageContentChars c"
  by (cases c) (auto intro!: sum_list_nonneg chars_nonneg)

lemma estimateTokens_nonneg: "0 \<le> estimateTokens text_of m"
  by (cases m rule: convertMessageToLlm.cases; (rename_tac k; case_tac k)?)
    (auto intro!: quarter_nonneg content_chars_nonneg sum_list_nonneg chars_nonneg)

lemma weight_nonneg: "0 \<le> weight text_of es"
  by (auto simp: weight_def entry_tokens_def intro!: sum_list_nonneg estimateTokens_nonneg split: entry_data.splits)

lemma weight_append [simp]: "weight text_of (xs @ ys) = weight text_of xs + weight text_of ys"
  by (simp add: weight_def)

lemma weight_Cons [simp]: "weight text_of (e # es) = entry_tokens text_of e + weight text_of es"
  by (simp add: weight_def)

lemma weight_Nil [simp]: "weight text_of [] = 0"
  by (simp add: weight_def)

lemma weight_drop_mono:
  assumes "i \<le> j"
  shows "weight text_of (drop j es) \<le> weight text_of (drop i es)"
proof -
  have "drop i es = take (j - i) (drop i es) @ drop j es"
    using assms by (metis append_take_drop_id drop_drop le_add_diff_inverse2)
  then have "weight text_of (drop i es) = weight text_of (take (j - i) (drop i es)) + weight text_of (drop j es)"
    by (metis weight_append)
  then show ?thesis using weight_nonneg [of text_of "take (j - i) (drop i es)"] by simp
qed

text \<open>One step of the loop: the entry counts if it is a message.\<close>

lemma budget_index_step:
  "budget_index text_of es s keep acc (Suc i) =
     (if i < s then None
      else if is_message_entry (es ! i) \<and> keep \<le> acc + entry_tokens text_of (es ! i) then Some i
      else budget_index text_of es s keep (acc + entry_tokens text_of (es ! i)) i)"
  by (auto simp: is_message_entry_def ent_type_def entry_tokens_def Let_def split: entry_data.splits)

declare budget_index.simps(2) [simp del]

lemma budget_reached:
  "budget_index text_of es s keep acc n = Some i \<Longrightarrow> n \<le> length es \<Longrightarrow>
     s \<le> i \<and> i < n \<and> keep \<le> acc + weight text_of (drop i (take n es)) \<and>
     (acc < keep \<longrightarrow> acc + weight text_of (drop (Suc i) (take n es)) < keep)"
proof (induction n arbitrary: acc)
  case (Suc n)
  let ?t = "entry_tokens text_of (es ! n)"
  have take: "take (Suc n) es = take n es @ [es ! n]"
    using Suc.prems(2) by (simp add: take_Suc_conv_app_nth)
  show ?case
  proof (cases "is_message_entry (es ! n) \<and> keep \<le> acc + ?t")
    case True
    with Suc.prems show ?thesis unfolding take by (auto simp: budget_index_step split: if_splits)
  next
    case False
    with Suc.prems(1) have rest: "budget_index text_of es s keep (acc + ?t) n = Some i"
      by (auto simp: budget_index_step split: if_splits)
    have "acc < keep \<longrightarrow> acc + ?t < keep"
      using False by (auto simp: entry_tokens_def is_message_entry_def ent_type_def split: entry_data.splits)
    with Suc.IH [OF rest] Suc.prems(2) show ?thesis unfolding take by auto
  qed
qed simp

lemma budget_not_reached:
  "budget_index text_of es 0 keep acc n = None \<Longrightarrow> n \<le> length es \<Longrightarrow> acc < keep \<Longrightarrow>
     acc + weight text_of (take n es) < keep"
proof (induction n arbitrary: acc)
  case (Suc n)
  let ?t = "entry_tokens text_of (es ! n)"
  have take: "take (Suc n) es = take n es @ [es ! n]"
    using Suc.prems(2) by (simp add: take_Suc_conv_app_nth)
  have rest: "budget_index text_of es 0 keep (acc + ?t) n = None"
    and "\<not> (is_message_entry (es ! n) \<and> keep \<le> acc + ?t)"
    using Suc.prems(1) by (auto simp: budget_index_step split: if_splits)
  then have "acc + ?t < keep"
    using Suc.prems(3) by (auto simp: entry_tokens_def is_message_entry_def ent_type_def split: entry_data.splits)
  with Suc.IH [OF rest] Suc.prems(2) show ?case unfolding take by simp
qed simp

lemma chosen_cut_find:
  assumes "sorted cps" "cps \<noteq> []" "i \<le> last cps"
  shows "i \<le> chosen_cut cps (Some i)"
proof (cases "find (\<lambda>c. i \<le> c) cps")
  case None
  with assms show ?thesis by (auto simp: find_none)
next
  case (Some c)
  with find_first [OF assms(1) Some] show ?thesis by (simp add: chosen_cut_def)
qed

lemma sorted_le_last: "sorted xs \<Longrightarrow> x \<in> set xs \<Longrightarrow> x \<le> (last xs :: nat)"
  by (induction xs) (auto simp: last_in_set split: if_splits)

lemma cut_within_budget:
  fixes es :: "entry list"
  defines "cps \<equiv> findValidCutPoints es 0 (length es)"
  assumes ne: "cps \<noteq> []" and keep: "0 < keep" and last: "weight text_of (drop (Suc (last cps)) es) < keep"
  shows "weight text_of (drop (Suc (chosen_cut cps (budget_index text_of es 0 keep 0 (length es)))) es) < keep"
proof (cases "budget_index text_of es 0 keep 0 (length es)")
  case None
  from budget_not_reached [OF this] keep have "weight text_of es < keep" by simp
  moreover have "weight text_of (drop (Suc c) es) \<le> weight text_of es" for c
    using weight_drop_mono [of 0 "Suc c" text_of es] by simp
  ultimately show ?thesis by (metis le_less_trans)
next
  case (Some i)
  have sorted: "sorted cps" unfolding cps_def by (rule cut_points_sorted)
  note b = budget_reached [OF Some]
  have "i \<le> last cps"
  proof (rule ccontr)
    assume "\<not> i \<le> last cps"
    then have "weight text_of (drop i es) \<le> weight text_of (drop (Suc (last cps)) es)"
      by (intro weight_drop_mono) simp
    with b last show False by simp
  qed
  then have "i \<le> chosen_cut cps (Some i)" by (rule chosen_cut_find [OF sorted ne])
  then have "weight text_of (drop (Suc (chosen_cut cps (Some i))) es) \<le> weight text_of (drop (Suc i) es)"
    by (intro weight_drop_mono) simp
  with b keep show ?thesis unfolding Some by simp
qed

lemma cut_past_budget:
  fixes es :: "entry list"
  defines "cps \<equiv> findValidCutPoints es 0 (length es)"
  assumes ne: "cps \<noteq> []" and keep: "0 < keep" and last: "keep \<le> weight text_of (drop (Suc (last cps)) es)"
  shows "chosen_cut cps (budget_index text_of es 0 keep 0 (length es)) = hd cps"
proof (cases "budget_index text_of es 0 keep 0 (length es)")
  case None
  then show ?thesis by (simp add: chosen_cut_def)
next
  case (Some i)
  note b = budget_reached [OF Some]
  have "\<not> i \<le> last cps"
  proof
    assume "i \<le> last cps"
    then have "weight text_of (drop (Suc (last cps)) es) \<le> weight text_of (drop (Suc i) es)"
      by (intro weight_drop_mono) simp
    with b keep last show False by simp
  qed
  moreover have "\<forall>c \<in> set cps. c \<le> last cps"
    unfolding cps_def using cut_points_sorted sorted_le_last by blast
  ultimately have "find (\<lambda>c. i \<le> c) cps = None" by (force simp: find_none)
  then show ?thesis unfolding Some by (simp add: chosen_cut_def)
qed

section \<open>The preparation\<close>

abbreviation compaction_messages :: "entry list \<Rightarrow> agent_message list" where
  "compaction_messages \<equiv> List.map_filter getMessageFromEntryForCompaction"

lemma map_filter_append [simp]: "List.map_filter f (xs @ ys) = List.map_filter f xs @ List.map_filter f ys"
  by (induction xs) (auto simp: List.map_filter_simps split: option.splits)

lemma prepare_never_throws: "prepareCompaction text_of es settings \<noteq> Inl ()"
proof -
  let ?cs = "compactable_entries es"
  obtain cp where "findCutPoint text_of ?cs 0 (length ?cs) (cp_keepRecentTokens settings) = Some cp"
    using findCutPoint_total [OF order_refl] by blast
  then show ?thesis by (simp add: prepareCompaction_def Let_def)
qed

lemma prepared_parts:
  assumes "prepareCompaction text_of es settings = Inr (Some p)"
  obtains cp h where
    "findCutPoint text_of (compactable_entries es) 0 (length (compactable_entries es)) (cp_keepRecentTokens settings) = Some cp"
    "h \<le> ct_firstKeptEntryIndex cp" "ct_firstKeptEntryIndex cp \<le> length (compactable_entries es)"
    "pr_messagesToSummarize p = compaction_messages (take h (compactable_entries es))"
    "pr_turnPrefixMessages p =
       compaction_messages (drop h (take (ct_firstKeptEntryIndex cp) (compactable_entries es)))"
    "pr_retainedTail p = compaction_messages (drop (ct_firstKeptEntryIndex cp) (compactable_entries es))"
proof -
  let ?cs = "compactable_entries es"
  obtain cp where cp: "findCutPoint text_of ?cs 0 (length ?cs) (cp_keepRecentTokens settings) = Some cp"
    using assms by (auto simp: prepareCompaction_def Let_def split: option.splits if_splits)
  note bounds = cut_point_bounds [OF cp zero_le]
  show thesis
  proof (cases "ct_isSplitTurn cp")
    case True
    then obtain h where "ct_turnStartIndex cp = Some h" "h \<le> ct_firstKeptEntryIndex cp" using bounds by auto
    with assms cp bounds True that [of cp h] show ?thesis
      by (auto simp: prepareCompaction_def Let_def split: if_splits)
  next
    case False
    then have "ct_turnStartIndex cp = None" using bounds by auto
    with assms cp bounds False that [of cp "ct_firstKeptEntryIndex cp"] show ?thesis
      by (auto simp: prepareCompaction_def Let_def List.map_filter_simps split: if_splits)
  qed
qed

lemma compaction_message_cases:
  "getMessageFromEntryForCompaction e = Some (ToolResultMsg r) \<longleftrightarrow> (\<exists>t. ent_data e = E_message (ToolResultMsg r) t)"
  by (auto simp: getMessageFromEntryForCompaction_def getMessageFromEntry_def ent_type_def
      createBranchSummaryMessage_def createCompactionSummaryMessage_def split: entry_data.splits)

lemma cut_entry_message:
  assumes "is_cut_entry e"
  shows "\<exists>m. getMessageFromEntryForCompaction e = Some m \<and> (\<forall>r. m \<noteq> ToolResultMsg r)"
  using assms
  by (auto simp: is_cut_entry_def getMessageFromEntryForCompaction_def getMessageFromEntry_def ent_type_def
      createBranchSummaryMessage_def split: entry_data.splits agent_message.splits message.splits)

text \<open>Entries that \<open>widen_cut\<close> passes give no tool result, and the chosen one gives a message.\<close>

lemma kept_head:
  assumes "\<forall>e \<in> set skipped. \<not> is_message_entry e" and "is_cut_entry c"
  shows "compaction_messages (skipped @ c # rest) \<noteq> [] \<and>
    (\<forall>r. hd (compaction_messages (skipped @ c # rest)) \<noteq> ToolResultMsg r)"
  using assms
proof (induction skipped)
  case Nil
  with cut_entry_message [of c] show ?case by (auto simp: List.map_filter_simps)
next
  case (Cons e skipped)
  then have "getMessageFromEntryForCompaction e \<noteq> Some (ToolResultMsg r)" for r
    by (auto simp: compaction_message_cases is_message_entry_def ent_type_def)
  with Cons show ?case by (auto simp: List.map_filter_simps split: option.splits)
qed

lemma drop_widened:
  assumes "s \<le> c" "c < length es"
  shows "\<exists>skipped. drop (widen_cut es s c) es = skipped @ es ! c # drop (Suc c) es \<and>
    (\<forall>e \<in> set skipped. \<not> is_message_entry e \<and> \<not> is_compaction e)"
proof -
  let ?k = "widen_cut es s c"
  note w = widen_cut_bounds [OF assms(1), of es]
  have "drop ?k es = take (c - ?k) (drop ?k es) @ drop c es"
    using w by (metis append_take_drop_id drop_drop le_add_diff_inverse2)
  moreover have "drop c es = es ! c # drop (Suc c) es"
    using assms(2) by (rule Cons_nth_drop_Suc [symmetric])
  moreover have "\<not> is_message_entry e \<and> \<not> is_compaction e" if "e \<in> set (take (c - ?k) (drop ?k es))" for e
    using that w assms(2) by (auto simp: in_set_conv_nth)
  ultimately show ?thesis by metis
qed

end
