(* ===== verification/Compaction_Properties.thy ===== *)
theory Compaction_Properties
  imports Compaction_Lemmas
begin

text \<open>
  The properties of a compaction: what is summarized and what is kept is the conversation the model
  saw, the kept part starts with a message of its own and stays within the budget, the next compaction
  and the next context start from it; and two cases in which the code departs from this.
\<close>

section \<open>The context of a compaction\<close>

text \<open>Entries that the context shows as they are: no deferred response and no empty summary.\<close>

definition plain_entry :: "entry \<Rightarrow> bool" where
  "plain_entry e \<longleftrightarrow>
     (case ent_data e of
        E_message (Msg (M_assistant a)) _ \<Rightarrow> am_stopReason a \<noteq> SR_deferred
      | E_branch_summary _ summary _ _ \<Rightarrow> summary \<noteq> []
      | _ \<Rightarrow> True)"

lemma plain_context_message:
  assumes "plain_entry e" and "\<not> is_compaction e"
  shows "sessionEntryToContextMessages e 0 [] default_options =
    (case getMessageFromEntryForCompaction e of None \<Rightarrow> [] | Some m \<Rightarrow> [m])"
  using assms
  by (auto simp: plain_entry_def is_compaction_def sessionEntryToContextMessages_def ent_type_def ent_assistant_def
      getMessageFromEntryForCompaction_def getMessageFromEntry_def default_options_def
      split: entry_data.splits agent_message.splits message.splits)

lemma plain_context:
  assumes "list_all plain_entry es" and "list_all (Not \<circ> is_compaction) es"
  shows "concat (map (\<lambda>e. sessionEntryToContextMessages e 0 [] default_options) es) = compaction_messages es"
  using assms
  by (induction es) (simp_all add: plain_context_message List.map_filter_simps split: option.split)

lemma last_compaction_none: "last_compaction es n = None \<longleftrightarrow> (\<forall>i < n. \<not> is_compaction (es ! i))"
  by (induction n) (auto simp: is_compaction_def less_Suc_eq)

lemma last_compaction_some:
  "last_compaction es n = Some i \<Longrightarrow> i < n \<and> is_compaction (es ! i) \<and> (\<forall>j. i < j \<and> j < n \<longrightarrow> \<not> is_compaction (es ! j))"
  by (induction n) (auto simp: is_compaction_def less_Suc_eq split: if_splits)

lemma compaction_data: "is_compaction e \<longleftrightarrow> (\<exists>s t n d u. ent_data e = E_compaction s t n d u)"
  by (cases "ent_data e") (simp_all add: is_compaction_def ent_type_def)

lemma retained_messages:
  assumes "ent_data c = E_compaction s tail n d u"
  shows "compaction_messages (retained_entries c) = tail"
proof -
  have "compaction_messages (map (\<lambda>(i, m). virtual_entry c i m) (enumerate k ms)) = ms" for k ms
    by (induction ms arbitrary: k)
      (simp_all add: List.map_filter_simps virtual_entry_def getMessageFromEntryForCompaction_def
        getMessageFromEntry_def ent_type_def)
  then show ?thesis by (simp add: retained_entries_def assms)
qed

text \<open>The two shapes of a branch, by its last compaction.\<close>

lemma last_compaction_cases:
  obtains "last_compaction es (length es) = None" "list_all (Not \<circ> is_compaction) es" "compactable_entries es = es"
  | i s tail n d u where "last_compaction es (length es) = Some i" "es = take i es @ es ! i # drop (Suc i) es"
      "ent_data (es ! i) = E_compaction s tail n d u" "list_all (Not \<circ> is_compaction) (drop (Suc i) es)"
      "compaction_messages (compactable_entries es) = tail @ compaction_messages (drop (Suc i) es)"
proof (cases "last_compaction es (length es)")
  case None
  moreover from None have "list_all (Not \<circ> is_compaction) es"
    unfolding last_compaction_none by (simp add: list_all_length)
  ultimately show thesis by (intro that(1)) (simp_all add: compactable_entries_def)
next
  case (Some i)
  note i = last_compaction_some [OF Some]
  then obtain s tail n d u where data: "ent_data (es ! i) = E_compaction s tail n d u"
    by (auto simp: compaction_data)
  have "compaction_messages (compactable_entries es) = tail @ compaction_messages (drop (Suc i) es)"
    by (simp add: compactable_entries_def Some retained_messages [OF data])
  moreover have "list_all (Not \<circ> is_compaction) (drop (Suc i) es)"
    using i by (simp add: list_all_length)
  moreover have "es = take i es @ es ! i # drop (Suc i) es"
    using i by (simp add: id_take_nth_drop)
  ultimately show thesis using Some data by (intro that(2)) simp_all
qed

lemma context_without_compaction:
  assumes "list_all (Not \<circ> is_compaction) es"
  shows "sc_messages (buildSessionContext es default_options) =
    concat (map (\<lambda>e. sessionEntryToContextMessages e 0 [] default_options) es)"
  using transform_no_compaction [OF assms]
  by (simp add: buildSessionContext_def buildContextEntries_def default_options_def
      default_messages_local [unfolded default_options_def])

lemma prepared_partition:
  assumes "prepareCompaction text_of es settings = Inr (Some p)"
  shows "pr_messagesToSummarize p @ pr_turnPrefixMessages p @ pr_retainedTail p =
    compaction_messages (compactable_entries es)"
proof -
  let ?cs = "compactable_entries es"
  obtain cp h where "findCutPoint text_of ?cs 0 (length ?cs) (cp_keepRecentTokens settings) = Some cp"
    and h: "h \<le> ct_firstKeptEntryIndex cp" and "ct_firstKeptEntryIndex cp \<le> length ?cs" and parts:
    "pr_messagesToSummarize p = compaction_messages (take h ?cs)"
    "pr_turnPrefixMessages p = compaction_messages (drop h (take (ct_firstKeptEntryIndex cp) ?cs))"
    "pr_retainedTail p = compaction_messages (drop (ct_firstKeptEntryIndex cp) ?cs)"
    by (rule prepared_parts [OF assms])
  have "take h ?cs @ drop h (take (ct_firstKeptEntryIndex cp) ?cs) @ drop (ct_firstKeptEntryIndex cp) ?cs = ?cs"
    using h by (metis append.assoc append_take_drop_id min.absorb1 take_take)
  then show ?thesis unfolding parts by (metis map_filter_append)
qed

lemma prepared_summary:
  assumes "prepareCompaction text_of es settings = Inr (Some p)"
  shows "pr_previousSummary p = (case last_compaction es (length es) of
    None \<Rightarrow> None | Some i \<Rightarrow> compaction_summary (ent_data (es ! i)))"
  using assms by (auto simp: prepareCompaction_def Let_def split: if_splits option.splits)

lemma last_compaction_append:
  assumes "is_compaction c" and "list_all (Not \<circ> is_compaction) newer"
  shows "last_compaction (es @ c # newer) (length (es @ c # newer)) = Some (length es)"
proof -
  have "last_compaction (es @ c # newer) (Suc (length es) + n) = Some (length es)" if "n \<le> length newer" for n
    using that assms
    by (induction n) (auto simp: nth_append list_all_length is_compaction_def)
  from this [of "length newer"] show ?thesis by simp
qed

section \<open>The examples\<close>

definition demo_says :: "string \<Rightarrow> string \<Rightarrow> entry" where
  "demo_says i t = \<lparr>ent_id = i, ent_data = E_message (UserMsg
     \<lparr>um_content = UserText t, um_timestamp = 1, um_internal = None\<rparr>) False,
     ent_parentId = None, ent_seq = 1, ent_timestamp = 1\<rparr>"

definition demo_usage :: usage where
  "demo_usage = \<lparr>us_input = 0, us_output = 0, us_cacheRead = 0, us_cacheWrite = 0, us_cacheWrite1h = None,
     us_reasoning = None, us_totalTokens = 0, us_cost = \<lparr>uc_input = JInt 0, uc_output = JInt 0,
     uc_cacheRead = JInt 0, uc_cacheWrite = JInt 0, uc_total = JInt 0\<rparr>\<rparr>"

definition demo_answer :: "stop_reason \<Rightarrow> content list \<Rightarrow> assistant_message" where
  "demo_answer stop cs = \<lparr>am_content = cs, am_api = [], am_provider = [], am_model = [], am_responseModel = None,
     am_responseId = None, am_diagnostics = None, am_usage = demo_usage, am_stopReason = stop, am_deferred = None,
     am_errorMessage = None, am_rawStopReason = None, am_endTurn = None, am_timestamp = 2\<rparr>"

definition demo_answers :: "string \<Rightarrow> stop_reason \<Rightarrow> content list \<Rightarrow> entry" where
  "demo_answers i stop cs = \<lparr>ent_id = i, ent_data = E_message (AssistantMsg (demo_answer stop cs)) False,
     ent_parentId = None, ent_seq = 2, ent_timestamp = 2\<rparr>"

definition demo_result :: "string \<Rightarrow> string \<Rightarrow> entry" where
  "demo_result i t = \<lparr>ent_id = i, ent_data = E_message (ToolResultMsg
     \<lparr>tr_toolCallId = ''c'', tr_toolName = ''read'', tr_content = [TextContent t None], tr_details = None,
      tr_usage = None, tr_addedToolNames = None, tr_isError = False, tr_timestamp = 3\<rparr>) False,
     ent_parentId = None, ent_seq = 3, ent_timestamp = 3\<rparr>"

definition demo_read :: content where
  "demo_read = ToolCallContent \<lparr>tc_id = ''c'', tc_name = ''read'', tc_arguments = JObject [(''path'', JString ''f'')],
     tc_thoughtSignature = None, tc_namespace = None\<rparr>"

definition demo_settings :: "int \<Rightarrow> compaction_settings" where
  "demo_settings keep = DEFAULT_COMPACTION_SETTINGS\<lparr>cp_keepRecentTokens := keep\<rparr>"

definition demo_branch :: "entry list" where
  "demo_branch = [demo_says ''a'' ''hello'', demo_answers ''b'' SR_toolUse [demo_read], demo_result ''c'' ''abcdefgh'',
     demo_answers ''d'' SR_stop [TextContent ''done'' None], demo_says ''e'' ''more'']"

definition no_text :: "js_number \<Rightarrow> string" where
  "no_text n = []"

definition the_preparation :: "unit + compaction_preparation option \<Rightarrow> compaction_preparation" where
  "the_preparation r = (case r of Inr (Some p) \<Rightarrow> p | _ \<Rightarrow> undefined)"

section \<open>The properties\<close>


lemma demo_prepares: "isl (prepareCompaction no_text demo_branch (demo_settings 3)) = False \<and>
    projr (prepareCompaction no_text demo_branch (demo_settings 3)) \<noteq> None"
  by code_simp

lemma demo_preparation:
  "prepareCompaction no_text demo_branch (demo_settings 3) =
     Inr (Some (the_preparation (prepareCompaction no_text demo_branch (demo_settings 3))))"
  using demo_prepares
  by (cases "prepareCompaction no_text demo_branch (demo_settings 3)") (auto simp: the_preparation_def)


text \<open>
  C21. What is kept never starts with a tool result, whose call would be gone: if anything is summarized
  the retained tail is not empty and its first message is of another kind.
\<close>

theorem kept_tail_starts_clean:
  assumes "prepareCompaction text_of es settings = Inr (Some p)"
    and "pr_messagesToSummarize p @ pr_turnPrefixMessages p \<noteq> []"
  shows "pr_retainedTail p \<noteq> [] \<and> (\<forall>r. hd (pr_retainedTail p) \<noteq> ToolResultMsg r)"
proof -
  let ?cs = "compactable_entries es"
  obtain cp h where cp: "findCutPoint text_of ?cs 0 (length ?cs) (cp_keepRecentTokens settings) = Some cp"
    and h: "h \<le> ct_firstKeptEntryIndex cp" and "ct_firstKeptEntryIndex cp \<le> length ?cs"
    and cut: "pr_messagesToSummarize p = compaction_messages (take h ?cs)"
      "pr_turnPrefixMessages p = compaction_messages (drop h (take (ct_firstKeptEntryIndex cp) ?cs))"
    and kept: "pr_retainedTail p = compaction_messages (drop (ct_firstKeptEntryIndex cp) ?cs)"
    by (rule prepared_parts [OF assms(1)])
  have "findValidCutPoints ?cs 0 (length ?cs) \<noteq> []"
  proof
    assume "findValidCutPoints ?cs 0 (length ?cs) = []"
    with cp have "ct_firstKeptEntryIndex cp = 0" by (auto simp: findCutPoint_def)
    with h cut assms(2) show False by (simp add: List.map_filter_simps)
  qed
  then obtain c where c: "c < length ?cs" "is_cut_entry (?cs ! c)" "ct_firstKeptEntryIndex cp = widen_cut ?cs 0 c"
    using cut_point_chosen [OF cp] by metis
  obtain skipped where "drop (widen_cut ?cs 0 c) ?cs = skipped @ ?cs ! c # drop (Suc c) ?cs"
    "\<forall>e \<in> set skipped. \<not> is_message_entry e"
    using drop_widened [OF zero_le c(1)] by blast
  with kept_head [of skipped "?cs ! c"] c(2,3) kept show ?thesis by simp
qed

theorem kept_tail_starts_clean_witness:
  "\<exists>p. prepareCompaction no_text demo_branch (demo_settings 3) = Inr (Some p) \<and>
     pr_retainedTail p \<noteq> [] \<and> (\<forall>r. hd (pr_retainedTail p) \<noteq> ToolResultMsg r)"
proof -
  let ?p = "the_preparation (prepareCompaction no_text demo_branch (demo_settings 3))"
  have "pr_messagesToSummarize ?p @ pr_turnPrefixMessages ?p \<noteq> []" by code_simp
  with kept_tail_starts_clean [OF demo_preparation] demo_preparation show ?thesis by blast
qed

text \<open>
  The kept part stays within the budget: unless the tool results behind the last possible cut
  exceed it already, the messages kept after the first one are estimated below \<open>keepRecentTokens\<close>.
\<close>

theorem kept_tail_within_budget:
  fixes es :: "entry list"
  assumes "findCutPoint text_of es 0 (length es) keep = Some cp" and "0 < keep"
    and "findValidCutPoints es 0 (length es) \<noteq> []"
    and "weight text_of (drop (Suc (last (findValidCutPoints es 0 (length es)))) es) < keep"
  shows "\<exists>c. ct_firstKeptEntryIndex cp \<le> c \<and> c < length es \<and> is_cut_entry (es ! c) \<and>
    (\<forall>i. ct_firstKeptEntryIndex cp \<le> i \<and> i < c \<longrightarrow> \<not> is_message_entry (es ! i)) \<and>
    weight text_of (drop (Suc c) es) < keep"
proof -
  obtain c where c: "c = chosen_cut (findValidCutPoints es 0 (length es)) (budget_index text_of es 0 keep 0 (length es))"
    "c < length es" "is_cut_entry (es ! c)" "ct_firstKeptEntryIndex cp = widen_cut es 0 c"
    using cut_point_chosen [OF assms(1,3)] by metis
  have "weight text_of (drop (Suc c) es) < keep"
    unfolding c(1) by (rule cut_within_budget [OF assms(3,2,4)])
  with c widen_cut_bounds [of 0 c es] show ?thesis by auto
qed

lemma demo_cut:
  "findCutPoint no_text demo_branch 0 (length demo_branch) 3 =
     Some (the (findCutPoint no_text demo_branch 0 (length demo_branch) 3))"
  using findCutPoint_total [OF order_refl] by simp

theorem kept_tail_within_budget_witness:
  "\<exists>c. c < length demo_branch \<and> is_cut_entry (demo_branch ! c) \<and> weight no_text (drop (Suc c) demo_branch) < 3"
proof -
  have "findValidCutPoints demo_branch 0 (length demo_branch) \<noteq> []"
    "weight no_text (drop (Suc (last (findValidCutPoints demo_branch 0 (length demo_branch)))) demo_branch) < 3"
    by code_simp+
  with kept_tail_within_budget [OF demo_cut] show ?thesis by auto
qed

text \<open>
  If the tool results behind the last possible cut reach the budget, the cut falls on the first
  entry instead: nothing is summarized and everything is kept, however long the conversation is.
\<close>

theorem oversized_tool_result_keeps_everything:
  assumes "prepareCompaction text_of es settings = Inr (Some p)" and "0 < cp_keepRecentTokens settings"
    and "compactable_entries es = first # rest" and "is_cut_entry first"
    and "cp_keepRecentTokens settings \<le>
      weight text_of (drop (Suc (last (findValidCutPoints (first # rest) 0 (Suc (length rest))))) (first # rest))"
  shows "pr_messagesToSummarize p = [] \<and> pr_turnPrefixMessages p = [] \<and>
    pr_retainedTail p = compaction_messages (compactable_entries es)"
proof -
  let ?cs = "first # rest"
  obtain cp h where cp: "findCutPoint text_of ?cs 0 (length ?cs) (cp_keepRecentTokens settings) = Some cp"
    and h: "h \<le> ct_firstKeptEntryIndex cp" and parts:
      "pr_messagesToSummarize p = compaction_messages (take h ?cs)"
      "pr_turnPrefixMessages p = compaction_messages (drop h (take (ct_firstKeptEntryIndex cp) ?cs))"
      "pr_retainedTail p = compaction_messages (drop (ct_firstKeptEntryIndex cp) ?cs)"
    using prepared_parts [OF assms(1)] unfolding assms(3) by metis
  have cps: "findValidCutPoints ?cs 0 (length ?cs) = 0 # findValidCutPoints ?cs 1 (length ?cs)"
  proof -
    have "[0..<length ?cs] = 0 # [1..<length ?cs]" by (simp add: upt_rec del: upt_Suc)
    with assms(4) show ?thesis by (simp add: findValidCutPoints_def del: upt_Suc)
  qed
  then have ne: "findValidCutPoints ?cs 0 (length ?cs) \<noteq> []" by simp
  have "chosen_cut (findValidCutPoints ?cs 0 (length ?cs))
      (budget_index text_of ?cs 0 (cp_keepRecentTokens settings) 0 (length ?cs)) = 0"
  proof -
    have "hd (findValidCutPoints ?cs 0 (length ?cs)) = 0" unfolding cps by simp
    with cut_past_budget [OF ne assms(2)] assms(5) show ?thesis by simp
  qed
  then have "ct_firstKeptEntryIndex cp = 0"
    using cut_point_chosen [OF cp ne] widen_cut_bounds [of 0 0 ?cs] by (metis le_zero_eq zero_le)
  with h parts show ?thesis by (simp add: assms(3) List.map_filter_simps)
qed

definition demo_oversized :: "entry list" where
  "demo_oversized = demo_branch @ [demo_answers ''f'' SR_toolUse [demo_read], demo_result ''g'' ''abcdefghijklmnop'']"

theorem oversized_tool_result_keeps_everything_witness:
  "\<exists>p. prepareCompaction no_text demo_oversized (demo_settings 3) = Inr (Some p) \<and>
     pr_messagesToSummarize p = [] \<and> length (pr_retainedTail p) = 7"
proof -
  let ?r = "prepareCompaction no_text demo_oversized (demo_settings 3)"
  have "isl ?r = False \<and> projr ?r \<noteq> None" by code_simp
  then obtain p where p: "?r = Inr (Some p)" by (cases ?r) auto
  have cs: "compactable_entries demo_oversized = demo_says ''a'' ''hello'' # tl demo_oversized" by code_simp
  have "0 < cp_keepRecentTokens (demo_settings 3)" "is_cut_entry (demo_says ''a'' ''hello'')"
    "cp_keepRecentTokens (demo_settings 3) \<le> weight no_text (drop (Suc (last (findValidCutPoints
       (demo_says ''a'' ''hello'' # tl demo_oversized) 0 (Suc (length (tl demo_oversized))))))
       (demo_says ''a'' ''hello'' # tl demo_oversized))"
    "length (compaction_messages (compactable_entries demo_oversized)) = 7"
    by code_simp+
  with oversized_tool_result_keeps_everything [OF p _ cs] p show ?thesis by auto
qed

text \<open>
  The compaction entry closes the circle: right behind the branch, the context is the new summary
  and the retained tail, and with further entries the next compaction works on the retained tail and
  the messages of those entries, whatever was summarized before.
\<close>

theorem compaction_entry_continues:
  assumes "ent_data c = E_compaction summary (pr_retainedTail p) tokens details usage"
    and "list_all (Not \<circ> is_compaction) newer"
  shows "sc_messages (buildSessionContext (es @ [c]) default_options) =
      createCompactionSummaryMessage summary tokens (ent_timestamp c) # pr_retainedTail p \<and>
    compaction_messages (compactable_entries (es @ c # newer)) = pr_retainedTail p @ compaction_messages newer \<and>
    (newer \<noteq> [] \<longrightarrow> (\<exists>q. prepareCompaction text_of (es @ c # newer) settings = Inr (Some q) \<and>
       pr_previousSummary q = Some summary \<and>
       pr_messagesToSummarize q @ pr_turnPrefixMessages q @ pr_retainedTail q =
         pr_retainedTail p @ compaction_messages newer))"
proof -
  let ?all = "es @ c # newer"
  have c: "is_compaction c" using assms(1) by (simp add: compaction_data)
  have last: "last_compaction ?all (length ?all) = Some (length es)"
    by (rule last_compaction_append [OF c assms(2)])
  have cs: "compaction_messages (compactable_entries ?all) = pr_retainedTail p @ compaction_messages newer"
    unfolding compactable_entries_def last by (simp add: retained_messages [OF assms(1)])
  have ctx: "sc_messages (buildSessionContext (es @ [c]) default_options) =
      createCompactionSummaryMessage summary tokens (ent_timestamp c) # pr_retainedTail p"
    using compacted_context [OF assms(1), of "[]" es] by simp
  have "\<exists>q. prepareCompaction text_of ?all settings = Inr (Some q)" if "newer \<noteq> []"
  proof -
    have "\<not> is_compaction (last newer)" using assms(2) that by (simp add: list_all_iff)
    then have "\<not> (?all = [] \<or> ent_type (last ?all) = ET_compaction)" using that by (simp add: is_compaction_def)
    then have "prepareCompaction text_of ?all settings \<noteq> Inr None"
      by (simp add: prepareCompaction_def Let_def split: option.splits)
    then show ?thesis
      using prepare_never_throws [of text_of ?all settings]
      by (cases "prepareCompaction text_of ?all settings") auto
  qed
  moreover have "pr_previousSummary q = Some summary \<and>
      pr_messagesToSummarize q @ pr_turnPrefixMessages q @ pr_retainedTail q = pr_retainedTail p @ compaction_messages newer"
    if "prepareCompaction text_of ?all settings = Inr (Some q)" for q
    using prepared_partition [OF that] prepared_summary [OF that] assms(1) unfolding last cs
    by (simp add: compaction_summary_def)
  ultimately show ?thesis using ctx cs by blast
qed

definition demo_record :: "agent_message list \<Rightarrow> entry" where
  "demo_record tail = \<lparr>ent_id = ''k'', ent_data = E_compaction ''sum'' tail 9 None None,
     ent_parentId = None, ent_seq = 9, ent_timestamp = 4\<rparr>"

theorem compaction_entry_continues_witness:
  "\<exists>p q. prepareCompaction no_text demo_branch (demo_settings 3) = Inr (Some p) \<and>
     prepareCompaction no_text (demo_branch @ demo_record (pr_retainedTail p) # [demo_says ''z'' ''next'']) (demo_settings 3) =
       Inr (Some q) \<and> pr_previousSummary q = Some ''sum''"
proof -
  let ?p = "the_preparation (prepareCompaction no_text demo_branch (demo_settings 3))"
  have "ent_data (demo_record (pr_retainedTail ?p)) = E_compaction ''sum'' (pr_retainedTail ?p) 9 None None"
    by (simp add: demo_record_def)
  moreover have "list_all (Not \<circ> is_compaction) [demo_says ''z'' ''next'']" by code_simp
  ultimately show ?thesis
    using compaction_entry_continues [of "demo_record (pr_retainedTail ?p)" "''sum''" ?p 9 None None
        "[demo_says ''z'' ''next'']" demo_branch no_text "demo_settings 3"] demo_preparation
    by blast
qed

text \<open>
  The context leaves out a deferred response, the preparation does not: after a compaction whose
  kept part has one, the model is shown the placeholder that was hidden before.
\<close>

theorem deferred_response_resurfaces:
  "let es = [demo_says ''a'' ''hello'', demo_answers ''b'' SR_deferred [], demo_answers ''d'' SR_stop [TextContent ''done'' None]];
       deferred = AssistantMsg (demo_answer SR_deferred []);
       p = the_preparation (prepareCompaction no_text es (demo_settings 100))
   in prepareCompaction no_text es (demo_settings 100) = Inr (Some p) \<and>
      deferred \<notin> set (sc_messages (buildSessionContext es default_options)) \<and>
      deferred \<in> set (sc_messages (buildSessionContext (es @ [demo_record (pr_retainedTail p)]) default_options))"
  by code_simp

end
