(* ===== verification/Retry.thy ===== *)
theory Retry
  imports Messages
begin

text \<open>
  Retries of a model call (\<open>packages/ai/src/utils/retry.ts\<close>): the classification of errors by the two
  regular expressions of the file, and the loop of \<open>retryAssistantCall\<close>. The call, the sleep and the
  callbacks of the caller act on a world \<open>'w\<close>; a call may be rejected, the others do not throw. The sleep
  tells whether it was aborted, so the \<open>throw error\<close> for any other exception has no counterpart.
\<close>

section \<open>Patterns\<close>

text \<open>
  The patterns use three constructs: a character, a character with \<open>?\<close>, and \<open>.?\<close>. The flag \<open>i\<close> compares
  letters without case, and \<open>.\<close> is no line terminator.
\<close>

datatype pattern_item = PLit char | POpt char | PAnyOpt

fun pattern_items :: "string \<Rightarrow> pattern_item list" where
  "pattern_items (c # q # cs) =
     (if q = CHR ''?'' then (if c = CHR ''.'' then PAnyOpt else POpt c) # pattern_items cs
      else PLit c # pattern_items (q # cs))"
| "pattern_items [c] = [PLit c]"
| "pattern_items [] = []"

definition fold_case :: "char \<Rightarrow> char" where
  "fold_case c = (let n = (of_char c :: nat) in if 65 \<le> n \<and> n \<le> 90 then char_of (n + 32) else c)"

definition same_letter :: "char \<Rightarrow> char \<Rightarrow> bool" where
  "same_letter c d \<longleftrightarrow> fold_case c = fold_case d"

fun matches_here :: "pattern_item list \<Rightarrow> string \<Rightarrow> bool" where
  "matches_here [] s = True"
| "matches_here (PLit c # ps) [] = False"
| "matches_here (PLit c # ps) (d # s) = (same_letter c d \<and> matches_here ps s)"
| "matches_here (POpt c # ps) [] = matches_here ps []"
| "matches_here (POpt c # ps) (d # s) = (same_letter c d \<and> matches_here ps s \<or> matches_here ps (d # s))"
| "matches_here (PAnyOpt # ps) [] = matches_here ps []"
| "matches_here (PAnyOpt # ps) (d # s) =
     (d \<noteq> newline \<and> d \<noteq> CHR 0x0D \<and> matches_here ps s \<or> matches_here ps (d # s))"

fun matches_somewhere :: "pattern_item list \<Rightarrow> string \<Rightarrow> bool" where
  "matches_somewhere ps [] = matches_here ps []"
| "matches_somewhere ps (d # s) = (matches_here ps (d # s) \<or> matches_somewhere ps s)"

definition buildProviderErrorPattern :: "string list \<Rightarrow> string \<Rightarrow> bool" where
  "buildProviderErrorPattern patterns s = list_ex (\<lambda>p. matches_somewhere (pattern_items p) s) patterns"

definition NON_RETRYABLE_PROVIDER_LIMIT_ERROR_PATTERN :: "string \<Rightarrow> bool" where
  "NON_RETRYABLE_PROVIDER_LIMIT_ERROR_PATTERN = buildProviderErrorPattern
     [''GoUsageLimitError'', ''FreeUsageLimitError'', ''Monthly usage limit reached'', ''available balance'',
      ''insufficient_quota'', ''out of budget'', ''quota exceeded'', ''billing'']"

definition RETRYABLE_PROVIDER_ERROR_PATTERN :: "string \<Rightarrow> bool" where
  "RETRYABLE_PROVIDER_ERROR_PATTERN = buildProviderErrorPattern
     [''overloaded'', ''rate.?limit'', ''too many requests'', ''429'', ''500'', ''502'', ''503'', ''504'', ''524'',
      ''service.?unavailable'', ''server.?error'', ''internal.?error'',
      ''provider.?returned.?error'', ''exceeded request buffer limit while retrying upstream'',
      ''network.?error'', ''connection.?error'', ''connection.?refused'', ''connection.?lost'', ''other side closed'',
      ''fetch failed'', ''getaddrinfo'', ''ENOTFOUND'', ''EAI_AGAIN'', ''upstream.?connect'', ''reset before headers'',
      ''socket hang up'', ''socket connection was closed'', ''timed? out'', ''timeout'', ''terminated'',
      ''websocket.?closed'', ''websocket.?error'',
      ''ended without'', ''stream ended before message_stop'', ''stream ended before a terminal response event'',
      ''http2 request did not get a response'',
      ''retry delay'',
      ''you can retry your request'', ''try your request again'', ''please retry your request'',
      ''ResourceExhausted'']"

definition isRetryableAssistantError :: "assistant_message \<Rightarrow> bool" where
  "isRetryableAssistantError m =
     (case am_errorMessage m of
        None \<Rightarrow> False
      | Some e \<Rightarrow> am_stopReason m = SR_error \<and> e \<noteq> [] \<and> \<not> NON_RETRYABLE_PROVIDER_LIMIT_ERROR_PATTERN e \<and>
          RETRYABLE_PROVIDER_ERROR_PATTERN e)"

section \<open>The loop\<close>

record retry_policy =
  po_enabled :: bool
  po_maxRetries :: int
  po_baseDelayMs :: int

record 'w retry_env =
  en_sleep :: "int \<Rightarrow> 'w \<Rightarrow> bool \<times> 'w"                             \<comment> \<open>milliseconds; whether it was aborted\<close>
  en_onRetryScheduled :: "int \<Rightarrow> int \<Rightarrow> int \<Rightarrow> string \<Rightarrow> 'w \<Rightarrow> 'w"    \<comment> \<open>attempt, maxAttempts, delayMs, errorMessage\<close>
  en_onRetryAttemptStart :: "'w \<Rightarrow> 'w"
  en_onRetryFinished :: "bool \<Rightarrow> int \<Rightarrow> string option \<Rightarrow> 'w \<Rightarrow> 'w"  \<comment> \<open>success, attempt, finalError\<close>

type_synonym ('w, 'a) call = "'w \<Rightarrow> (string + 'a) \<times> 'w"

definition report :: "'w retry_env \<Rightarrow> bool \<Rightarrow> int option \<Rightarrow> string option \<Rightarrow> 'w \<Rightarrow> 'w" where
  "report env success lastRetry finalError w =
     (case lastRetry of None \<Rightarrow> w | Some attempt \<Rightarrow> en_onRetryFinished env success attempt finalError w)"

definition retry_message :: "assistant_message \<Rightarrow> string" where
  "retry_message response =
     (case am_errorMessage response of Some e \<Rightarrow> if e = [] then ''Unknown error'' else e | None \<Rightarrow> ''Unknown error'')"

definition backoff :: "int \<Rightarrow> int \<Rightarrow> int" where
  "backoff baseDelayMs attempt = baseDelayMs * 2 ^ nat (attempt - 1)"

text \<open>\<open>for (;;)\<close>, with \<open>attempt\<close> and the attempt of \<open>lastRetry\<close>.\<close>

function retry_loop ::
  "'w retry_env \<Rightarrow> ('w, assistant_message) call \<Rightarrow> int \<Rightarrow> int \<Rightarrow> int \<Rightarrow> int option \<Rightarrow>
   'w \<Rightarrow> (string + assistant_message) \<times> 'w" where
  "retry_loop env produce maxAttempts baseDelayMs attempt lastRetry w =
     (case produce w of
        (Inl e, w1) \<Rightarrow> (Inl e, w1)
      | (Inr response, w1) \<Rightarrow>
          if am_stopReason response = SR_aborted then (Inr response, report env False lastRetry None w1)
          else if am_stopReason response \<noteq> SR_error then (Inr response, report env True lastRetry None w1)
          else if maxAttempts \<le> attempt \<or> \<not> isRetryableAssistantError response
          then (Inr response, report env False lastRetry (am_errorMessage response) w1)
          else
            let attempt = attempt + 1; errorMessage = retry_message response; delayMs = backoff baseDelayMs attempt;
                w2 = en_onRetryScheduled env attempt maxAttempts delayMs errorMessage w1
            in case en_sleep env delayMs w2 of
                 (True, w3) \<Rightarrow>
                   (Inr (response\<lparr>am_stopReason := SR_aborted, am_errorMessage := None\<rparr>),
                    en_onRetryFinished env False attempt (Some errorMessage) w3)
               | (False, w3) \<Rightarrow>
                   retry_loop env produce maxAttempts baseDelayMs attempt (Some attempt) (en_onRetryAttemptStart env w3))"
  by pat_completeness auto
termination
  by (relation "measure (\<lambda>(env, produce, maxAttempts, baseDelayMs, attempt, lastRetry, w). nat (maxAttempts - attempt))") auto

declare retry_loop.simps [simp del]

definition retryAssistantCall ::
  "'w retry_env \<Rightarrow> ('w, assistant_message) call \<Rightarrow> retry_policy option \<Rightarrow> ('w, assistant_message) call" where
  "retryAssistantCall env produce policy w =
     (let maxAttempts = (case policy of Some p \<Rightarrow> if po_enabled p then po_maxRetries p else 0 | None \<Rightarrow> 0);
          baseDelayMs = (case policy of Some p \<Rightarrow> po_baseDelayMs p | None \<Rightarrow> 0)
      in retry_loop env produce maxAttempts baseDelayMs 0 None w)"

section \<open>How often the call is made\<close>

text \<open>A settled response: one after which no retry is made.\<close>

definition settled :: "int \<Rightarrow> int \<Rightarrow> assistant_message \<Rightarrow> bool" where
  "settled maxAttempts attempt m \<longleftrightarrow> maxAttempts \<le> attempt \<or> \<not> isRetryableAssistantError m"

lemma retryable_error: "isRetryableAssistantError m \<Longrightarrow> am_stopReason m = SR_error"
  by (auto simp: isRetryableAssistantError_def split: option.splits)

text \<open>One turn of the loop on a call that returns.\<close>

lemma retry_loop_settled:
  assumes "produce w = (Inr m, w1)" and "settled maxAttempts attempt m"
  shows "\<exists>w'. retry_loop env produce maxAttempts base attempt lastRetry w = (Inr m, w')"
  using assms retryable_error [of m]
  by (subst retry_loop.simps) (auto simp: settled_def)

lemma retry_loop_again:
  assumes "produce w = (Inr m, w1)" and "\<not> settled maxAttempts attempt m"
  shows "retry_loop env produce maxAttempts base attempt lastRetry w =
    (case en_sleep env (backoff base (attempt + 1))
            (en_onRetryScheduled env (attempt + 1) maxAttempts (backoff base (attempt + 1)) (retry_message m) w1) of
       (True, w3) \<Rightarrow> (Inr (m\<lparr>am_stopReason := SR_aborted, am_errorMessage := None\<rparr>),
          en_onRetryFinished env False (attempt + 1) (Some (retry_message m)) w3)
     | (False, w3) \<Rightarrow> retry_loop env produce maxAttempts base (attempt + 1) (Some (attempt + 1)) (en_onRetryAttemptStart env w3))"
  using assms retryable_error [of m]
  by (subst retry_loop.simps) (simp add: settled_def Let_def)

end
