(* ===== verification/Retry_Properties.thy ===== *)
theory Retry_Properties
  imports Retry
begin

text \<open>
  What \<open>retryAssistantCall\<close> does with a sequence of responses: the trace of its callbacks, the number of
  calls and the response it returns.
\<close>

section \<open>A caller that writes down what it is told\<close>

datatype retry_event =
    EV_scheduled int int int string
  | EV_attemptStart
  | EV_finished bool int "string option"

text \<open>The world: how many calls were made, and the events so far. The backoff is not aborted.\<close>

definition tracing_env :: "(nat \<times> retry_event list) retry_env" where
  "tracing_env =
     \<lparr>en_sleep = (\<lambda>ms w. (False, w)),
      en_onRetryScheduled = (\<lambda>attempt maxAttempts delayMs e (n, evs). (n, evs @ [EV_scheduled attempt maxAttempts delayMs e])),
      en_onRetryAttemptStart = (\<lambda>(n, evs). (n, evs @ [EV_attemptStart])),
      en_onRetryFinished = (\<lambda>success attempt e (n, evs). (n, evs @ [EV_finished success attempt e]))\<rparr>"

definition responses :: "(nat \<Rightarrow> assistant_message) \<Rightarrow> (nat \<times> retry_event list, assistant_message) call" where
  "responses rs = (\<lambda>(n, evs). (Inr (rs n), (Suc n, evs)))"

definition retry_budget :: "retry_policy option \<Rightarrow> int" where
  "retry_budget policy = (case policy of Some p \<Rightarrow> if po_enabled p then po_maxRetries p else 0 | None \<Rightarrow> 0)"

definition retry_base :: "retry_policy option \<Rightarrow> int" where
  "retry_base policy = (case policy of Some p \<Rightarrow> po_baseDelayMs p | None \<Rightarrow> 0)"

text \<open>The events of the \<open>j\<close>-th retry, and those at the end.\<close>

definition retry_events :: "int \<Rightarrow> int \<Rightarrow> (nat \<Rightarrow> assistant_message) \<Rightarrow> nat \<Rightarrow> retry_event list" where
  "retry_events maxAttempts base rs j =
     [EV_scheduled (int j + 1) maxAttempts (base * 2 ^ j) (retry_message (rs j)), EV_attemptStart]"

definition final_events :: "nat \<Rightarrow> assistant_message \<Rightarrow> retry_event list" where
  "final_events k m =
     (if k = 0 then []
      else if am_stopReason m = SR_aborted then [EV_finished False (int k) None]
      else if am_stopReason m = SR_error then [EV_finished False (int k) (am_errorMessage m)]
      else [EV_finished True (int k) None])"

lemma tracing_settled:
  assumes "settled maxAttempts (int k) (rs k)"
  shows "retry_loop tracing_env (responses rs) maxAttempts base (int k) (if k = 0 then None else Some (int k)) (k, evs) =
    (Inr (rs k), (Suc k, evs @ final_events k (rs k)))"
  using assms retryable_error [of "rs k"]
  by (subst retry_loop.simps)
    (auto simp: responses_def settled_def tracing_env_def report_def final_events_def)

lemma tracing_again:
  assumes "\<not> settled maxAttempts (int k) (rs k)"
  shows "retry_loop tracing_env (responses rs) maxAttempts base (int k) prev (k, evs) =
    retry_loop tracing_env (responses rs) maxAttempts base (int (Suc k)) (Some (int (Suc k)))
      (Suc k, evs @ retry_events maxAttempts base rs k)"
proof -
  have "responses rs (k, evs) = (Inr (rs k), (Suc k, evs))" by (simp add: responses_def)
  then show ?thesis
    using retry_loop_again [of "responses rs" "(k, evs)" "rs k" "(Suc k, evs)" maxAttempts "int k" tracing_env base prev] assms
    by (simp add: tracing_env_def retry_events_def backoff_def add.commute)
qed

lemma tracing_loop:
  assumes "\<forall>i < k. \<not> settled maxAttempts (int i) (rs i)" and "settled maxAttempts (int k) (rs k)" and "j \<le> k"
  shows "retry_loop tracing_env (responses rs) maxAttempts base (int j) (if j = 0 then None else Some (int j)) (j, evs) =
    (Inr (rs k), (Suc k, evs @ concat (map (retry_events maxAttempts base rs) [j..<k]) @ final_events k (rs k)))"
  using assms(3)
proof (induction "k - j" arbitrary: j evs)
  case 0
  then have "j = k" by simp
  show ?case unfolding \<open>j = k\<close> using tracing_settled [of maxAttempts k rs base evs] assms(2) by simp
next
  case (Suc d)
  then have j: "j < k" "d = k - Suc j" by simp_all
  from Suc.hyps(1) [OF j(2)] j have rest: "retry_loop tracing_env (responses rs) maxAttempts base (int (Suc j)) (Some (int (Suc j)))
      (Suc j, evs @ retry_events maxAttempts base rs j) =
    (Inr (rs k), (Suc k, (evs @ retry_events maxAttempts base rs j) @
       concat (map (retry_events maxAttempts base rs) [Suc j..<k]) @ final_events k (rs k)))"
    by simp
  have "\<not> settled maxAttempts (int j) (rs j)" using assms(1) j by simp
  then show ?case using j rest tracing_again [of maxAttempts j rs base _ evs] by (simp add: upt_conv_Cons)
qed

text \<open>A model that is overloaded at the first call.\<close>

definition no_usage :: usage where
  "no_usage = \<lparr>us_input = 0, us_output = 0, us_cacheRead = 0, us_cacheWrite = 0, us_cacheWrite1h = None,
     us_reasoning = None, us_totalTokens = 0, us_cost = \<lparr>uc_input = JInt 0, uc_output = JInt 0,
     uc_cacheRead = JInt 0, uc_cacheWrite = JInt 0, uc_total = JInt 0\<rparr>\<rparr>"

definition demo_limited :: "nat \<Rightarrow> assistant_message" where
  "demo_limited n =
     \<lparr>am_content = [], am_api = [], am_provider = [], am_model = [], am_responseModel = None, am_responseId = None,
      am_diagnostics = None, am_usage = no_usage, am_stopReason = (if n = 0 then SR_error else SR_stop), am_deferred = None,
      am_errorMessage = Some ''overloaded'', am_rawStopReason = None, am_endTurn = None, am_timestamp = 0\<rparr>"


text \<open>
  An error that names an exhausted quota is never retried, whatever else its text says, and neither is
  an answer or an abort.
\<close>

lemma quota_errors_final:
  assumes "am_errorMessage m = Some e" and "matches_somewhere (pattern_items ''quota exceeded'') e"
  shows "\<not> isRetryableAssistantError m"
  using assms
  by (simp add: isRetryableAssistantError_def NON_RETRYABLE_PROVIDER_LIMIT_ERROR_PATTERN_def buildProviderErrorPattern_def)


end
