(* ===== verification/Summaries.thy ===== *)
theory Summaries
  imports Compaction Retry
begin

text \<open>
  Generating summaries: \<open>compact\<close> and what it calls in
  \<open>packages/agent/src/harness/compaction/compaction.ts\<close>, \<open>collectEntriesForBranchSummary\<close> and
  \<open>generateBranchSummary\<close> of \<open>branch-summarization.ts\<close>. \<open>models.completeSimple\<close> is the argument
  \<open>complete\<close>, the clock and the request's session id are the arguments \<open>now\<close> and \<open>fresh\<close>. A function is
  rejected (outer \<open>Inl\<close>) when a model call is, and returns \<open>err\<close> (inner \<open>Inl\<close>) as the code does.
\<close>

section \<open>Model calls (compaction.ts)\<close>

record summary_model =
  mo_maxTokens :: int
  mo_reasoning :: bool
  mo_contextWindow :: int

record completion_request =
  cq_systemPrompt :: string
  cq_messages :: "message list"
  cq_maxTokens :: int
  cq_reasoning :: "string option"
  cq_cacheRetention :: string
  cq_sessionId :: string

definition returnCall :: "'a \<Rightarrow> ('w, 'a) call" where
  "returnCall x = (\<lambda>w. (Inr x, w))"

definition bindCall :: "('w, 'a) call \<Rightarrow> ('a \<Rightarrow> ('w, 'b) call) \<Rightarrow> ('w, 'b) call" where
  "bindCall m f = (\<lambda>w. case m w of (Inl e, w') \<Rightarrow> (Inl e, w') | (Inr x, w') \<Rightarrow> f x w')"

definition completeSimpleWithRetries ::
  "'w retry_env \<Rightarrow> (completion_request \<Rightarrow> ('w, assistant_message) call) \<Rightarrow> retry_policy option \<Rightarrow> string \<Rightarrow>
   completion_request \<Rightarrow> ('w, assistant_message) call" where
  "completeSimpleWithRetries env complete retry fresh request =
     (let requestOptions = request\<lparr>cq_cacheRetention := ''none'', cq_sessionId := fresh\<rparr>
      in retryAssistantCall env (complete requestOptions) retry)"

text \<open>The sum of two usages; costs are doubles, whose sums stay expressions.\<close>

record summary_usage =
  su_input :: int
  su_output :: int
  su_cacheRead :: int
  su_cacheWrite :: int
  su_cacheWrite1h :: "int option"
  su_reasoning :: "int option"
  su_totalTokens :: int
  su_costs :: "float_expr list"   \<comment> \<open>input, output, cacheRead, cacheWrite, total\<close>

definition usage_costs :: "usage_cost \<Rightarrow> js_number list" where
  "usage_costs c = [uc_input c, uc_output c, uc_cacheRead c, uc_cacheWrite c, uc_total c]"

definition single_usage :: "usage \<Rightarrow> summary_usage" where
  "single_usage u =
     \<lparr>su_input = us_input u, su_output = us_output u, su_cacheRead = us_cacheRead u, su_cacheWrite = us_cacheWrite u,
      su_cacheWrite1h = us_cacheWrite1h u, su_reasoning = us_reasoning u, su_totalTokens = us_totalTokens u,
      su_costs = map FNum (usage_costs (us_cost u))\<rparr>"

definition add_optional :: "int option \<Rightarrow> int option \<Rightarrow> int option" where
  "add_optional a b =
     (if a = None \<and> b = None then None
      else Some ((case a of Some x \<Rightarrow> x | None \<Rightarrow> 0) + (case b of Some x \<Rightarrow> x | None \<Rightarrow> 0)))"

definition combineUsage :: "usage \<Rightarrow> usage \<Rightarrow> summary_usage" where
  "combineUsage first second =
     \<lparr>su_input = us_input first + us_input second, su_output = us_output first + us_output second,
      su_cacheRead = us_cacheRead first + us_cacheRead second,
      su_cacheWrite = us_cacheWrite first + us_cacheWrite second,
      su_cacheWrite1h = add_optional (us_cacheWrite1h first) (us_cacheWrite1h second),
      su_reasoning = add_optional (us_reasoning first) (us_reasoning second),
      su_totalTokens = us_totalTokens first + us_totalTokens second,
      su_costs = map2 (\<lambda>a b. FAdd (FNum a) (FNum b)) (usage_costs (us_cost first)) (usage_costs (us_cost second))\<rparr>"

section \<open>Prompts\<close>

definition text_lines :: "string list \<Rightarrow> string" where
  "text_lines ls = join_with [newline] ls"

definition SUMMARIZATION_SYSTEM_PROMPT :: string where
  "SUMMARIZATION_SYSTEM_PROMPT = text_lines
     [''You are a context summarization assistant. Your task is to read a conversation between a user and an AI assistant, then produce a structured summary following the exact format specified.'',
      [],
      ''Do NOT continue the conversation. Do NOT respond to any questions in the conversation. ONLY output the structured summary.'']"

definition SUMMARIZATION_PROMPT :: string where
  "SUMMARIZATION_PROMPT = text_lines
     [''The messages above are a conversation to summarize. Create a structured context checkpoint summary that another LLM will use to continue the work.'',
      [],
      ''Use this EXACT format:'',
      [],
      ''## Goal'',
      ''[What is the user trying to accomplish? Can be multiple items if the session covers different tasks.]'',
      [],
      ''## Constraints & Preferences'',
      ''- [Any constraints, preferences, or requirements mentioned by user]'',
      ''- [Or '' @ [quote] @ ''(none)'' @ [quote] @ '' if none were mentioned]'',
      [],
      ''## Progress'',
      ''### Done'',
      ''- [x] [Completed tasks/changes]'',
      [],
      ''### In Progress'',
      ''- [ ] [Current work]'',
      [],
      ''### Blocked'',
      ''- [Issues preventing progress, if any]'',
      [],
      ''## Key Decisions'',
      ''- **[Decision]**: [Brief rationale]'',
      [],
      ''## Next Steps'',
      ''1. [Ordered list of what should happen next]'',
      [],
      ''## Critical Context'',
      ''- [Any data, examples, or references needed to continue]'',
      ''- [Or '' @ [quote] @ ''(none)'' @ [quote] @ '' if not applicable]'',
      [],
      ''Keep each section concise. Preserve exact file paths, function names, and error messages.'']"

definition UPDATE_SUMMARIZATION_PROMPT :: string where
  "UPDATE_SUMMARIZATION_PROMPT = text_lines
     [''The messages above are NEW conversation messages to incorporate into the existing summary provided in <previous-summary> tags.'',
      [],
      ''Update the existing structured summary with new information. RULES:'',
      ''- PRESERVE all existing information from the previous summary'',
      ''- ADD new progress, decisions, and context from the new messages'',
      ''- UPDATE the Progress section: move items from '' @ [quote] @ ''In Progress'' @ [quote] @ '' to '' @ [quote] @ ''Done'' @ [quote] @ '' when completed'',
      ''- UPDATE '' @ [quote] @ ''Next Steps'' @ [quote] @ '' based on what was accomplished'',
      ''- PRESERVE exact file paths, function names, and error messages'',
      ''- If something is no longer relevant, you may remove it'',
      [],
      ''Use this EXACT format:'',
      [],
      ''## Goal'',
      ''[Preserve existing goals, add new ones if the task expanded]'',
      [],
      ''## Constraints & Preferences'',
      ''- [Preserve existing, add new ones discovered]'',
      [],
      ''## Progress'',
      ''### Done'',
      ''- [x] [Include previously done items AND newly completed items]'',
      [],
      ''### In Progress'',
      ''- [ ] [Current work - update based on progress]'',
      [],
      ''### Blocked'',
      ''- [Current blockers - remove if resolved]'',
      [],
      ''## Key Decisions'',
      ''- **[Decision]**: [Brief rationale] (preserve all previous, add new)'',
      [],
      ''## Next Steps'',
      ''1. [Update based on current state]'',
      [],
      ''## Critical Context'',
      ''- [Preserve important context, add new if needed]'',
      [],
      ''Keep each section concise. Preserve exact file paths, function names, and error messages.'']"

definition TURN_PREFIX_SUMMARIZATION_PROMPT :: string where
  "TURN_PREFIX_SUMMARIZATION_PROMPT = text_lines
     [''This is the PREFIX of a turn that was too large to keep. The SUFFIX (recent work) is retained.'',
      [],
      ''Summarize the prefix to provide context for the retained suffix:'',
      [],
      ''## Original Request'',
      ''[What did the user ask for in this turn?]'',
      [],
      ''## Early Progress'',
      ''- [Key decisions and work done in the prefix]'',
      [],
      ''## Context for Suffix'',
      ''- [Information needed to understand the retained recent work]'',
      [],
      ''Be concise. Focus on what'' @ [CHR 0x27] @ ''s needed to understand the kept suffix.'']"

definition BRANCH_SUMMARY_PREAMBLE :: string where
  "BRANCH_SUMMARY_PREAMBLE = text_lines
     [''The user explored a different conversation branch before returning here.'',
      ''Summary of that exploration:'',
      [],
      []]"

definition BRANCH_SUMMARY_PROMPT :: string where
  "BRANCH_SUMMARY_PROMPT = text_lines
     [''Create a structured summary of this conversation branch for context when returning later.'',
      [],
      ''Use this EXACT format:'',
      [],
      ''## Goal'',
      ''[What was the user trying to accomplish in this branch?]'',
      [],
      ''## Constraints & Preferences'',
      ''- [Any constraints, preferences, or requirements mentioned]'',
      ''- [Or '' @ [quote] @ ''(none)'' @ [quote] @ '' if none were mentioned]'',
      [],
      ''## Progress'',
      ''### Done'',
      ''- [x] [Completed tasks/changes]'',
      [],
      ''### In Progress'',
      ''- [ ] [Work that was started but not finished]'',
      [],
      ''### Blocked'',
      ''- [Issues preventing progress, if any]'',
      [],
      ''## Key Decisions'',
      ''- **[Decision]**: [Brief rationale]'',
      [],
      ''## Next Steps'',
      ''1. [What should happen next to continue this work]'',
      [],
      ''Keep each section concise. Preserve exact file paths, function names, and error messages.'']"

section \<open>Summaries (compaction.ts)\<close>

datatype compaction_error_code = CE_aborted | CE_summarization_failed

datatype compaction_error = CompactionError (ce_code: compaction_error_code) (ce_message: string)

text \<open>
  \<open>Math.floor(0.8 * reserveTokens)\<close> over the integers: the double product of an integer and the double
  next to 0.8 is an integer exactly when the product with 0.8 is. An unlimited model has no bound.
\<close>

definition capped :: "int \<Rightarrow> summary_model \<Rightarrow> int" where
  "capped limit model = (if 0 < mo_maxTokens model then min limit (mo_maxTokens model) else limit)"

definition summary_request ::
  "summary_model \<Rightarrow> string option \<Rightarrow> int \<Rightarrow> int \<Rightarrow> string \<Rightarrow> completion_request" where
  "summary_request model thinkingLevel maxTokens now promptText =
     \<lparr>cq_systemPrompt = SUMMARIZATION_SYSTEM_PROMPT,
      cq_messages = [user_blocks [TextContent promptText None] now],
      cq_maxTokens = maxTokens,
      cq_reasoning = (case thinkingLevel of
          Some level \<Rightarrow> if mo_reasoning model \<and> level \<noteq> [] \<and> level \<noteq> ''off'' then Some level else None
        | None \<Rightarrow> None),
      cq_cacheRetention = [], cq_sessionId = []\<rparr>"

definition or_else :: "string option \<Rightarrow> string \<Rightarrow> string" where
  "or_else m d = (case m of Some e \<Rightarrow> if e = [] then d else e | None \<Rightarrow> d)"

definition summary_answer :: "string \<Rightarrow> string \<Rightarrow> assistant_message \<Rightarrow> compaction_error + string \<times> usage" where
  "summary_answer aborted failed response =
     (if am_stopReason response = SR_aborted
      then Inl (CompactionError CE_aborted (or_else (am_errorMessage response) aborted))
      else if am_stopReason response = SR_error
      then Inl (CompactionError CE_summarization_failed (failed @ or_else (am_errorMessage response) ''Unknown error''))
      else Inr (contentText [newline] (am_content response), am_usage response))"

definition conversation_block :: "(js_number \<Rightarrow> string) \<Rightarrow> agent_message list \<Rightarrow> string" where
  "conversation_block text_of messages =
     ''<conversation>'' @ [newline] @ serializeConversation text_of (convertToLlm messages) @ [newline]
       @ ''</conversation>'' @ [newline, newline]"

definition truthy :: "string option \<Rightarrow> string option" where
  "truthy s = (case s of Some t \<Rightarrow> if t = [] then None else Some t | None \<Rightarrow> None)"

definition summary_prompt ::
  "(js_number \<Rightarrow> string) \<Rightarrow> agent_message list \<Rightarrow> string option \<Rightarrow> string option \<Rightarrow> string" where
  "summary_prompt text_of messages customInstructions previousSummary =
     conversation_block text_of messages
       @ (case truthy previousSummary of
            Some s \<Rightarrow> ''<previous-summary>'' @ [newline] @ s @ [newline] @ ''</previous-summary>'' @ [newline, newline]
          | None \<Rightarrow> [])
       @ (case truthy previousSummary of Some _ \<Rightarrow> UPDATE_SUMMARIZATION_PROMPT | None \<Rightarrow> SUMMARIZATION_PROMPT)
       @ (case truthy customInstructions of
            Some c \<Rightarrow> [newline, newline] @ ''Additional focus: '' @ c
          | None \<Rightarrow> [])"

text \<open>What the two generating functions are given beside their messages.\<close>

record 'w summarizer =
  sz_env :: "'w retry_env"
  sz_complete :: "completion_request \<Rightarrow> ('w, assistant_message) call"
  sz_model :: summary_model
  sz_thinkingLevel :: "string option"
  sz_retry :: "retry_policy option"
  sz_now :: "'w \<Rightarrow> int \<times> 'w"       \<comment> \<open>\<open>Date.now()\<close>\<close>
  sz_fresh :: "'w \<Rightarrow> string \<times> 'w"  \<comment> \<open>\<open>uuidv7()\<close>\<close>
  sz_text_of :: "js_number \<Rightarrow> string"

definition ask :: "'w summarizer \<Rightarrow> int \<Rightarrow> string \<Rightarrow> ('w, assistant_message) call" where
  "ask z maxTokens promptText w =
     (case sz_now z w of (now, w1) \<Rightarrow>
      case sz_fresh z w1 of (sessionId, w2) \<Rightarrow>
        completeSimpleWithRetries (sz_env z) (sz_complete z) (sz_retry z) sessionId
          (summary_request (sz_model z) (sz_thinkingLevel z) maxTokens now promptText) w2)"

definition generateSummaryWithUsage ::
  "'w summarizer \<Rightarrow> agent_message list \<Rightarrow> int \<Rightarrow> string option \<Rightarrow> string option \<Rightarrow>
   ('w, compaction_error + string \<times> usage) call" where
  "generateSummaryWithUsage z currentMessages reserveTokens customInstructions previousSummary =
     bindCall (ask z (capped (4 * reserveTokens div 5) (sz_model z))
                 (summary_prompt (sz_text_of z) currentMessages customInstructions previousSummary)) (\<lambda>response.
     returnCall (summary_answer ''Summarization aborted'' ''Summarization failed: '' response))"

definition generateSummary ::
  "'w summarizer \<Rightarrow> agent_message list \<Rightarrow> int \<Rightarrow> string option \<Rightarrow> string option \<Rightarrow>
   ('w, compaction_error + string) call" where
  "generateSummary z currentMessages reserveTokens customInstructions previousSummary =
     bindCall (generateSummaryWithUsage z currentMessages reserveTokens customInstructions previousSummary)
       (\<lambda>result. returnCall (map_sum id fst result))"

definition generateTurnPrefixSummary ::
  "'w summarizer \<Rightarrow> agent_message list \<Rightarrow> int \<Rightarrow> ('w, compaction_error + string \<times> usage) call" where
  "generateTurnPrefixSummary z messages reserveTokens =
     bindCall (ask z (capped (reserveTokens div 2) (sz_model z))
                 (conversation_block (sz_text_of z) messages @ TURN_PREFIX_SUMMARIZATION_PROMPT)) (\<lambda>response.
     returnCall (summary_answer ''Turn prefix summarization aborted'' ''Turn prefix summarization failed: '' response))"

record compact_result =
  cx_summary :: string
  cx_tokensBefore :: int
  cx_usage :: summary_usage
  cx_retainedTail :: "agent_message list"
  cx_readFiles :: "string list"
  cx_modifiedFiles :: "string list"

text \<open>\<open>if (!result.ok) return err(result.error)\<close>, and otherwise the rest.\<close>

definition bindOk :: "('w, 'e + 'a) call \<Rightarrow> ('a \<Rightarrow> ('w, 'e + 'b) call) \<Rightarrow> ('w, 'e + 'b) call" where
  "bindOk m f = bindCall m (\<lambda>result. case result of Inl e \<Rightarrow> returnCall (Inl e) | Inr x \<Rightarrow> f x)"

definition split_summary :: "string \<Rightarrow> string \<Rightarrow> string" where
  "split_summary historyText prefixText =
     historyText @ [newline, newline] @ ''---'' @ [newline, newline] @ ''**Turn Context (split turn):**''
       @ [newline, newline] @ prefixText"

definition compact_text ::
  "'w summarizer \<Rightarrow> compaction_preparation \<Rightarrow> string option \<Rightarrow>
   ('w, compaction_error + string \<times> summary_usage) call" where
  "compact_text z p customInstructions =
     (let reserve = cp_reserveTokens (pr_settings p);
          history = generateSummaryWithUsage z (pr_messagesToSummarize p) reserve customInstructions (pr_previousSummary p)
      in if pr_isSplitTurn p \<and> pr_turnPrefixMessages p \<noteq> []
         then bindOk (if pr_messagesToSummarize p \<noteq> []
                      then bindOk history (\<lambda>(t, u). returnCall (Inr (t, Some u)))
                      else returnCall (Inr (''No prior history.'', None))) (\<lambda>(historyText, historyUsage).
              bindOk (generateTurnPrefixSummary z (pr_turnPrefixMessages p) reserve) (\<lambda>(prefixText, prefixUsage).
              returnCall (Inr (split_summary historyText prefixText,
                case historyUsage of Some u \<Rightarrow> combineUsage u prefixUsage | None \<Rightarrow> single_usage prefixUsage))))
         else bindOk history (\<lambda>(t, u). returnCall (Inr (t, single_usage u))))"

definition compact ::
  "'w summarizer \<Rightarrow> compaction_preparation \<Rightarrow> string option \<Rightarrow> ('w, compaction_error + compact_result) call" where
  "compact z p customInstructions =
     bindOk (compact_text z p customInstructions) (\<lambda>(summary, summaryUsage).
     case computeFileLists (pr_fileOps p) of (readFiles, modifiedFiles) \<Rightarrow>
       returnCall (Inr \<lparr>cx_summary = summary @ formatFileOperations readFiles modifiedFiles,
                        cx_tokensBefore = pr_tokensBefore p, cx_usage = summaryUsage,
                        cx_retainedTail = pr_retainedTail p,
                        cx_readFiles = readFiles, cx_modifiedFiles = modifiedFiles\<rparr>))"

section \<open>Branch summaries (branch-summarization.ts)\<close>

record branch_summary_options =
  bo_customInstructions :: "string option"
  bo_replaceInstructions :: bool
  bo_reserveTokens :: "int option"

record branch_summary_result =
  br_summary :: string
  br_usage :: "usage option"
  br_readFiles :: "string list"
  br_modifiedFiles :: "string list"

definition branch_instructions :: "branch_summary_options \<Rightarrow> string" where
  "branch_instructions opts =
     (case truthy (bo_customInstructions opts) of
        Some c \<Rightarrow> if bo_replaceInstructions opts then c
                  else BRANCH_SUMMARY_PROMPT @ [newline, newline] @ ''Additional focus: '' @ c
      | None \<Rightarrow> BRANCH_SUMMARY_PROMPT)"

definition generateBranchSummary ::
  "'w summarizer \<Rightarrow> entry list \<Rightarrow> branch_summary_options \<Rightarrow> ('w, compaction_error + branch_summary_result) call" where
  "generateBranchSummary z es opts =
     (let reserveTokens = (case bo_reserveTokens opts of Some n \<Rightarrow> n | None \<Rightarrow> 16384);
          contextWindow = (if mo_contextWindow (sz_model z) \<noteq> 0 then mo_contextWindow (sz_model z) else 128000);
          prepared = prepareBranchEntries (sz_text_of z) es (contextWindow - reserveTokens)
      in if bp_messages prepared = []
         then returnCall (Inr \<lparr>br_summary = ''No content to summarize'', br_usage = None, br_readFiles = [], br_modifiedFiles = []\<rparr>)
         else bindCall (ask (z\<lparr>sz_thinkingLevel := None\<rparr>) 2048
                          (conversation_block (sz_text_of z) (bp_messages prepared) @ branch_instructions opts)) (\<lambda>response.
              case summary_answer ''Branch summary aborted'' ''Branch summary failed: '' response of
                Inl e \<Rightarrow> returnCall (Inl e)
              | Inr (t, u) \<Rightarrow>
                  (case computeFileLists (bp_fileOps prepared) of (readFiles, modifiedFiles) \<Rightarrow>
                     let summary = BRANCH_SUMMARY_PREAMBLE @ t @ formatFileOperations readFiles modifiedFiles
                     in returnCall (Inr \<lparr>br_summary = (if summary \<noteq> [] then summary else ''No summary generated''),
                                        br_usage = Some u, br_readFiles = readFiles, br_modifiedFiles = modifiedFiles\<rparr>))))"

end
