(* ===== verification/Summary_Properties.thy ===== *)
theory Summary_Properties
  imports Compaction_Properties Retry_Properties Summaries Branch_Entries Facade_Properties Session_Properties
begin

text \<open>
  The properties of generated summaries: what a compaction result keeps of its preparation, that failed
  model calls never make a summary, which entries a branch summary is about and how many of them fit.
\<close>

section \<open>Files\<close>

lemma set_add_elements [simp]: "set (set_add xs x) = insert x (set xs)"
  by (auto simp: set_add_def)

lemma set_add_distinct: "distinct xs \<Longrightarrow> distinct (set_add xs x)"
  by (auto simp: set_add_def)

lemma add_all_elements: "set (foldl set_add xs ys) = set xs \<union> set ys"
  by (induction ys arbitrary: xs) auto

lemma add_all_distinct: "distinct xs \<Longrightarrow> distinct (foldl set_add xs ys)"
  by (induction ys arbitrary: xs) (auto intro: set_add_distinct)

lemma file_lists:
  assumes "computeFileLists ops = (readFiles, modifiedFiles)"
  shows "sorted readFiles \<and> sorted modifiedFiles \<and> distinct modifiedFiles \<and>
    set modifiedFiles = set (fo_edited ops) \<union> set (fo_written ops) \<and>
    set readFiles = set (fo_read ops) - set modifiedFiles"
proof -
  have "distinct (foldl set_add [] (fo_edited ops @ fo_written ops))" by (rule add_all_distinct) simp
  with assms show ?thesis
    by (auto simp: computeFileLists_def Let_def add_all_elements simp del: foldl_append)
qed

section \<open>Calls\<close>

lemma bindCall_Inr: "bindCall m f w = (Inr y, w') \<longleftrightarrow> (\<exists>x w1. m w = (Inr x, w1) \<and> f x w1 = (Inr y, w'))"
  by (auto simp: bindCall_def split: prod.splits sum.splits)

lemma returnCall_eq [simp]: "returnCall x w = (Inr x, w)"
  by (simp add: returnCall_def)

lemma bindOk_Inr:
  "bindOk m f w = (Inr (Inr y), w') \<longleftrightarrow> (\<exists>x w1. m w = (Inr (Inr x), w1) \<and> f x w1 = (Inr (Inr y), w'))"
  by (auto simp: bindOk_def bindCall_Inr split_sum_ex)

text \<open>What the loop returns is a response it was given, or the last one made an abort.\<close>

lemma retry_invariant:
  assumes P: "\<And>w m w'. produce w = (Inr m, w') \<Longrightarrow> P m"
    and aborted: "\<And>m. P m \<Longrightarrow> P (m\<lparr>am_stopReason := SR_aborted, am_errorMessage := None\<rparr>)"
  shows "retry_loop env produce maxAttempts base attempt prev w = (Inr m, w') \<Longrightarrow> P m"
proof (induction "nat (maxAttempts - attempt)" arbitrary: attempt prev w rule: less_induct)
  case less
  obtain r w1 where call: "produce w = (r, w1)" by (meson surj_pair)
  obtain m1 where r: "r = Inr m1"
    using less.prems call by (cases r) (auto simp: retry_loop.simps [of env produce maxAttempts base attempt prev w])
  have m1: "P m1" using P call r by simp
  show ?case
  proof (cases "settled maxAttempts attempt m1")
    case True
    with retry_loop_settled [of produce w m1 w1 maxAttempts attempt env base prev] less.prems call r m1
    show ?thesis by auto
  next
    case False
    let ?a = "attempt + 1"
    obtain b w3 where sleep: "en_sleep env (backoff base ?a)
        (en_onRetryScheduled env ?a maxAttempts (backoff base ?a) (retry_message m1) w1) = (b, w3)"
      by (meson surj_pair)
    note again = retry_loop_again [of produce w m1 w1 maxAttempts attempt env base prev, unfolded sleep]
    have smaller: "nat (maxAttempts - ?a) < nat (maxAttempts - attempt)" using False by (simp add: settled_def)
    show ?thesis
    proof (cases b)
      case True
      with again False less.prems call r aborted [OF m1] show ?thesis by auto
    next
      case b: False
      with again False less.prems call r
      have "retry_loop env produce maxAttempts base ?a (Some ?a) (en_onRetryAttemptStart env w3) = (Inr m, w')"
        by simp
      with less.hyps [OF smaller] show ?thesis by blast
    qed
  qed
qed

text \<open>A summarizer whose model never answers: every response is an error or an abort.\<close>

definition failing :: "'w summarizer \<Rightarrow> bool" where
  "failing z \<longleftrightarrow> (\<forall>request w m w'. sz_complete z request w = (Inr m, w') \<longrightarrow>
     am_stopReason m = SR_error \<or> am_stopReason m = SR_aborted)"

lemma failing_ask:
  assumes "failing z" and "ask z maxTokens prompt w = (Inr m, w')"
  shows "am_stopReason m = SR_error \<or> am_stopReason m = SR_aborted"
proof -
  obtain now w1 sessionId w2 where "sz_now z w = (now, w1)" "sz_fresh z w1 = (sessionId, w2)" by (meson surj_pair)
  with assms(2) obtain request n b where
    "retry_loop (sz_env z) (sz_complete z request) n b 0 None w2 = (Inr m, w')"
    by (auto simp: ask_def completeSimpleWithRetries_def Let_def retryAssistantCall_def)
  then show ?thesis
    by (rule retry_invariant [rotated 2]) (use assms(1) in \<open>auto simp: failing_def\<close>)
qed

lemma failing_answer:
  assumes "am_stopReason m = SR_error \<or> am_stopReason m = SR_aborted"
  shows "summary_answer a f m \<noteq> Inr x"
  using assms by (auto simp: summary_answer_def)

lemma bind_failing:
  assumes "bindCall m f w = (Inr (Inr b), w2)" and "\<And>x w1. m w = (Inr x, w1) \<Longrightarrow> \<exists>e. f x = returnCall (Inl e)"
  shows False
  using assms by (fastforce simp: bindCall_Inr)

lemma failing_summary:
  assumes "failing z"
  shows "generateSummaryWithUsage z ms n c p w \<noteq> (Inr (Inr x), w')"
proof
  assume "generateSummaryWithUsage z ms n c p w = (Inr (Inr x), w')"
  then obtain k prompt m w1 where "ask z k prompt w = (Inr m, w1)"
    and "summary_answer ''Summarization aborted'' ''Summarization failed: '' m = Inr x"
    by (auto simp: generateSummaryWithUsage_def bindCall_Inr)
  with failing_ask [OF assms] failing_answer show False by blast
qed

lemma failing_turn_prefix:
  assumes "failing z"
  shows "generateTurnPrefixSummary z ms n w \<noteq> (Inr (Inr x), w')"
proof
  assume "generateTurnPrefixSummary z ms n w = (Inr (Inr x), w')"
  then obtain k prompt m w1 where "ask z k prompt w = (Inr m, w1)"
    and "summary_answer ''Turn prefix summarization aborted'' ''Turn prefix summarization failed: '' m = Inr x"
    by (auto simp: generateTurnPrefixSummary_def bindCall_Inr)
  with failing_ask [OF assms] failing_answer show False by blast
qed

lemma failing_compact_text:
  assumes "failing z"
  shows "compact_text z p ci w \<noteq> (Inr (Inr x), w')"
  using failing_summary [OF assms] failing_turn_prefix [OF assms]
  by (auto simp: compact_text_def Let_def bindOk_Inr split: if_splits)

section \<open>Branches\<close>

abbreviation branch_messages :: "entry list \<Rightarrow> agent_message list" where
  "branch_messages \<equiv> List.map_filter branch_message"

lemma tokens_of_Cons [simp]: "tokens_of text_of (m # ms) = estimateTokens text_of m + tokens_of text_of ms"
  by (simp add: tokens_of_def)

text \<open>What the loop keeps: the messages of a suffix of the branch, within the budget up to one summary.\<close>

definition within_branch_budget :: "(js_number \<Rightarrow> string) \<Rightarrow> int \<Rightarrow> branch_preparation \<Rightarrow> bool" where
  "within_branch_budget text_of budget p \<longleftrightarrow>
     bp_totalTokens p \<le> budget \<or>
     (\<exists>m ms. bp_messages p = m # ms \<and> 10 * tokens_of text_of ms < 9 * budget \<and>
        (\<exists>e. is_summary_entry e \<and> branch_message e = Some m))"

lemma branch_loop_result:
  assumes "0 < budget" and "bp_totalTokens p = tokens_of text_of (bp_messages p)" and "bp_totalTokens p \<le> budget"
    and "bp_messages p = branch_messages kept"
  shows "\<exists>xs ys. rev older = xs @ ys \<and>
    bp_messages (branch_loop_back text_of budget older p) = branch_messages (ys @ kept) \<and>
    bp_totalTokens (branch_loop_back text_of budget older p) =
      tokens_of text_of (bp_messages (branch_loop_back text_of budget older p)) \<and>
    within_branch_budget text_of budget (branch_loop_back text_of budget older p)"
  using assms(2-)
proof (induction older arbitrary: p kept)
  case Nil
  then show ?case by (simp add: within_branch_budget_def)
next
  case (Cons e older)
  note step = branch_loop_back.simps(2) [of text_of budget e older p]
  show ?case
  proof (cases "branch_message e")
    case None
    have "bp_messages p = branch_messages (e # kept)"
      using Cons.prems(3) None by (simp add: List.map_filter_simps)
    from Cons.IH [OF Cons.prems(1,2) this] obtain xs ys where "rev older = xs @ ys"
      "bp_messages (branch_loop_back text_of budget older p) = branch_messages (ys @ e # kept)"
      "bp_totalTokens (branch_loop_back text_of budget older p) =
        tokens_of text_of (bp_messages (branch_loop_back text_of budget older p))"
      "within_branch_budget text_of budget (branch_loop_back text_of budget older p)"
      by blast
    then show ?thesis unfolding step using None by (intro exI [of _ xs] exI [of _ "ys @ [e]"]) simp
  next
    case (Some m)
    define ops where "ops = extractFileOpsFromMessage m (bp_fileOps p)"
    define added where "added = \<lparr>bp_messages = m # bp_messages p, bp_fileOps = ops,
      bp_totalTokens = bp_totalTokens p + estimateTokens text_of m\<rparr>"
    have kept: "bp_messages added = branch_messages (e # kept)"
      using Cons.prems(3) Some by (simp add: added_def List.map_filter_simps)
    have total: "bp_totalTokens added = tokens_of text_of (bp_messages added)"
      using Cons.prems(1) by (simp add: added_def)
    have step: "branch_loop_back text_of budget (e # older) p =
        (if budget < bp_totalTokens added
         then if is_summary_entry e \<and> 10 * bp_totalTokens p < 9 * budget then added else p\<lparr>bp_fileOps := ops\<rparr>
         else branch_loop_back text_of budget older added)"
      using Some assms(1) by (simp add: step Let_def added_def ops_def)
    consider "budget < bp_totalTokens added" "is_summary_entry e" "10 * bp_totalTokens p < 9 * budget"
      | "budget < bp_totalTokens added" "\<not> (is_summary_entry e \<and> 10 * bp_totalTokens p < 9 * budget)"
      | "bp_totalTokens added \<le> budget" by linarith
    then show ?thesis
    proof cases
      case 1
      then have "within_branch_budget text_of budget added"
        using Cons.prems(1) Some by (auto simp: within_branch_budget_def added_def)
      with 1 kept total show ?thesis unfolding step by (intro exI [of _ "rev older"] exI [of _ "[e]"]) simp
    next
      case 2
      then have same: "branch_loop_back text_of budget (e # older) p = p\<lparr>bp_fileOps := ops\<rparr>"
        unfolding step by (simp only: if_True if_False)
      have "rev (e # older) = rev (e # older) @ []" by simp
      with Cons.prems show ?thesis
        unfolding same within_branch_budget_def by (metis append_Nil branch_preparation.select_convs(1,3)
            branch_preparation.surjective branch_preparation.update_convs(2))
    next
      case 3
      from Cons.IH [OF total 3 kept] obtain xs ys where "rev older = xs @ ys"
        "bp_messages (branch_loop_back text_of budget older added) = branch_messages (ys @ e # kept)"
        "bp_totalTokens (branch_loop_back text_of budget older added) =
          tokens_of text_of (bp_messages (branch_loop_back text_of budget older added))"
        "within_branch_budget text_of budget (branch_loop_back text_of budget older added)"
        by blast
      with 3 show ?thesis unfolding step by (intro exI [of _ xs] exI [of _ "ys @ [e]"]) simp
    qed
  qed
qed

section \<open>The examples\<close>

definition demo_summarizer :: "stop_reason \<Rightarrow> (nat \<times> retry_event list) summarizer" where
  "demo_summarizer stop = \<lparr>sz_env = tracing_env,
     sz_complete = (\<lambda>request. responses (\<lambda>n. demo_answer stop [TextContent ''summary'' None])),
     sz_model = \<lparr>mo_maxTokens = 100, mo_reasoning = False, mo_contextWindow = 20000\<rparr>, sz_thinkingLevel = None,
     sz_retry = None, sz_now = (\<lambda>w. (5, w)), sz_fresh = (\<lambda>w. (''id'', w)), sz_text_of = no_text\<rparr>"

definition demo_prepared :: compaction_preparation where
  "demo_prepared = the_preparation (prepareCompaction no_text demo_branch (demo_settings 3))"

lemma demo_failing_model: "failing (demo_summarizer SR_aborted)"
  by (simp add: failing_def demo_summarizer_def responses_def demo_answer_def)

definition demo_branch_options :: branch_summary_options where
  "demo_branch_options = \<lparr>bo_customInstructions = None, bo_replaceInstructions = False, bo_reserveTokens = None\<rparr>"

section \<open>The properties\<close>

text \<open>
  A compaction result keeps its preparation: the retained tail and the token count are those
  prepared, the summary ends with the lists of files, and those are sorted, the modified files are the
  edited and the written ones and a file read is listed only if it was not modified.
\<close>

theorem compact_keeps_preparation:
  assumes "compact z p customInstructions w = (Inr (Inr r), w')"
  shows "cx_retainedTail r = pr_retainedTail p \<and> cx_tokensBefore r = pr_tokensBefore p \<and>
    (\<exists>t. cx_summary r = t @ formatFileOperations (cx_readFiles r) (cx_modifiedFiles r)) \<and>
    sorted (cx_readFiles r) \<and> sorted (cx_modifiedFiles r) \<and> distinct (cx_modifiedFiles r) \<and>
    set (cx_modifiedFiles r) = set (fo_edited (pr_fileOps p)) \<union> set (fo_written (pr_fileOps p)) \<and>
    set (cx_readFiles r) = set (fo_read (pr_fileOps p)) - set (cx_modifiedFiles r)"
proof -
  obtain readFiles modifiedFiles where files: "computeFileLists (pr_fileOps p) = (readFiles, modifiedFiles)"
    by (meson surj_pair)
  obtain t u where "r = \<lparr>cx_summary = t @ formatFileOperations readFiles modifiedFiles,
      cx_tokensBefore = pr_tokensBefore p, cx_usage = u, cx_retainedTail = pr_retainedTail p,
      cx_readFiles = readFiles, cx_modifiedFiles = modifiedFiles\<rparr>"
    using assms by (auto simp: compact_def bindOk_Inr files)
  with file_lists [OF files] show ?thesis by simp
qed

theorem compact_keeps_preparation_witness:
  "\<exists>r w'. compact (demo_summarizer SR_stop) demo_prepared None (0, []) = (Inr (Inr r), w') \<and>
     cx_retainedTail r = pr_retainedTail demo_prepared \<and> cx_readFiles r = [''f'']"
proof -
  let ?run = "compact (demo_summarizer SR_stop) demo_prepared None (0, [])"
  have "case fst ?run of Inr (Inr r) \<Rightarrow> cx_readFiles r = [''f''] | _ \<Rightarrow> False" by code_simp
  then obtain r w' where run: "?run = (Inr (Inr r), w')" and f: "cx_readFiles r = [''f'']"
    by (cases ?run) (auto split: sum.splits)
  from compact_keeps_preparation [OF run] run f show ?thesis by blast
qed

text \<open>
  A failed model call never makes a summary: with a model whose responses are all errors or aborts,
  retried or not, neither a compaction nor a branch summary returns a result, unless there was
  nothing to summarize.
\<close>

theorem failed_calls_make_no_summary:
  assumes "failing z"
  shows "compact z p customInstructions w \<noteq> (Inr (Inr r), w1) \<and>
    (generateBranchSummary z es opts w = (Inr (Inr b), w2) \<longrightarrow>
       br_summary b = ''No content to summarize'' \<and> br_usage b = None)"
proof
  show "compact z p customInstructions w \<noteq> (Inr (Inr r), w1)"
    using failing_compact_text [OF assms] by (auto simp: compact_def bindOk_Inr)
  have "failing (z\<lparr>sz_thinkingLevel := None\<rparr>)" using assms by (simp add: failing_def)
  note asked = failing_ask [OF this]
  show "generateBranchSummary z es opts w = (Inr (Inr b), w2) \<longrightarrow>
      br_summary b = ''No content to summarize'' \<and> br_usage b = None"
  proof
    let ?budget = "(if mo_contextWindow (sz_model z) \<noteq> 0 then mo_contextWindow (sz_model z) else 128000) -
      (case bo_reserveTokens opts of Some n \<Rightarrow> n | None \<Rightarrow> 16384)"
    assume run: "generateBranchSummary z es opts w = (Inr (Inr b), w2)"
    show "br_summary b = ''No content to summarize'' \<and> br_usage b = None"
    proof (cases "bp_messages (prepareBranchEntries (sz_text_of z) es ?budget) = []")
      case True
      with run show ?thesis by (auto simp: generateBranchSummary_def Let_def)
    next
      case False
      with run have bind: "bindCall (ask (z\<lparr>sz_thinkingLevel := None\<rparr>) 2048
            (conversation_block (sz_text_of z) (bp_messages (prepareBranchEntries (sz_text_of z) es ?budget))
              @ branch_instructions opts))
          (\<lambda>response. case summary_answer ''Branch summary aborted'' ''Branch summary failed: '' response of
              Inl e \<Rightarrow> returnCall (Inl e)
            | Inr (t, u) \<Rightarrow> case computeFileLists (bp_fileOps (prepareBranchEntries (sz_text_of z) es ?budget)) of
                (readFiles, modifiedFiles) \<Rightarrow> returnCall (Inr
                  \<lparr>br_summary = (if BRANCH_SUMMARY_PREAMBLE @ t @ formatFileOperations readFiles modifiedFiles \<noteq> []
                      then BRANCH_SUMMARY_PREAMBLE @ t @ formatFileOperations readFiles modifiedFiles
                      else ''No summary generated''),
                    br_usage = Some u, br_readFiles = readFiles, br_modifiedFiles = modifiedFiles\<rparr>)) w = (Inr (Inr b), w2)"
        unfolding generateBranchSummary_def Let_def by (simp only: if_False)
      then show ?thesis
      proof (rule bind_failing [THEN FalseE], goal_cases)
        case (1 m w3)
        with asked failing_answer obtain e where
          "summary_answer ''Branch summary aborted'' ''Branch summary failed: '' m = Inl e"
          by (metis sum.exhaust)
        then show ?case by auto
      qed
    qed
  qed
qed

theorem failed_calls_make_no_summary_witness:
  "\<forall>r w1. compact (demo_summarizer SR_aborted) demo_prepared None (0, []) \<noteq> (Inr (Inr r), w1) \<and>
   \<not> isl (fst (generateBranchSummary (demo_summarizer SR_aborted) [] demo_branch_options (0, [])))"
proof -
  have "\<not> isl (fst (generateBranchSummary (demo_summarizer SR_aborted) [] demo_branch_options (0, [])))" by code_simp
  with failed_calls_make_no_summary [OF demo_failing_model] show ?thesis by blast
qed

text \<open>
  A branch summary fits its budget: the messages are those of the newest entries of the branch, and
  their estimates stay within the budget, except that one more compaction or branch summary may start
  them if the rest leaves a tenth of the budget.
\<close>

theorem branch_messages_within_budget:
  assumes "0 < budget"
  shows "\<exists>xs ys. es = xs @ ys \<and> bp_messages (prepareBranchEntries text_of es budget) = branch_messages ys \<and>
    within_branch_budget text_of budget (prepareBranchEntries text_of es budget) \<and>
    bp_totalTokens (prepareBranchEntries text_of es budget) =
      tokens_of text_of (bp_messages (prepareBranchEntries text_of es budget))"
proof -
  define p where "p = \<lparr>bp_messages = [], bp_fileOps = foldl (\<lambda>ops e. add_details ops (branch_details (ent_data e))) createFileOps es,
    bp_totalTokens = 0\<rparr>"
  have "bp_totalTokens p = tokens_of text_of (bp_messages p)" "bp_totalTokens p \<le> budget"
    "bp_messages p = branch_messages []"
    using assms by (simp_all add: p_def tokens_of_def List.map_filter_simps)
  from branch_loop_result [OF assms this, of "rev es"] show ?thesis
    by (auto simp: prepareBranchEntries_def p_def)
qed

theorem branch_messages_within_budget_witness:
  "\<exists>xs ys. demo_branch = xs @ ys \<and> bp_messages (prepareBranchEntries no_text demo_branch 3) = branch_messages ys \<and>
     bp_messages (prepareBranchEntries no_text demo_branch 3) \<noteq> []"
proof -
  have "bp_messages (prepareBranchEntries no_text demo_branch 3) \<noteq> []" by code_simp
  with branch_messages_within_budget [of 3 demo_branch no_text] show ?thesis by auto
qed

text \<open>
  The entries a branch summary is about, over both storages: from the old leaf the entries up to the
  first that is on the branch of the target, oldest first, and the common ancestor is the newest entry
  of the target's branch that the old branch has too. The walk always ends.
\<close>

theorem branch_summary_entries:
  assumes "reachable_state (ms_state m)" and "\<forall>e \<in> set (entries (ms_state m)). ent_id e \<noteq> []"
    and "js_state (fst j) = ms_state m"
    and "getEntry (ms_state m) old \<noteq> None" and "getEntry (ms_state m) target \<noteq> None"
  shows "\<exists>op tp r. is_branch (ms_state m) old op \<and> is_branch (ms_state m) target tp \<and>
    collectEntriesForBranchSummary memory_api m lane (Some old) target = Some (Inr r) \<and>
    collectEntriesForBranchSummary (jsonl_api fs rp) j lane (Some old) target = Some (Inr r) \<and>
    cl_entries r = rev (takeWhile (\<lambda>e. e \<notin> set tp) op) \<and>
    cl_commonAncestorId r = map_option ent_id (find (\<lambda>e. ent_id e \<in> ent_id ` set op) tp)"
proof -
  have wf: "wf_state (ms_state m)" using assms(1) by (rule reachable_wf)
  note memory = memory_facade.collected_branch [OF wf assms(2,4,5), of lane]
  have "wf_state ((js_state \<circ> fst) j)" "\<forall>e \<in> set (entries ((js_state \<circ> fst) j)). ent_id e \<noteq> []"
    "getEntry ((js_state \<circ> fst) j) old \<noteq> None" "getEntry ((js_state \<circ> fst) j) target \<noteq> None"
    using wf assms by simp_all
  note jsonl = jsonl_facade.collected_branch [OF this, of fs rp lane]
  from memory jsonl show ?thesis by (auto simp: assms(3))
qed

definition demo_memory :: memory_storage where
  "demo_memory = in_memory (demo_storage\<lparr>js_state := demo_session\<rparr>)"

theorem branch_summary_entries_witness:
  "\<exists>op tp r. is_branch demo_session ''b'' op \<and> is_branch demo_session ''a'' tp \<and>
     collectEntriesForBranchSummary memory_api demo_memory ''main'' (Some ''b'') ''a'' = Some (Inr r) \<and>
     cl_entries r = rev (takeWhile (\<lambda>e. e \<notin> set tp) op)"
proof -
  have st: "ms_state demo_memory = demo_session" by (simp add: demo_memory_def in_memory_def)
  have prem: "reachable_state (ms_state demo_memory)" "\<forall>e \<in> set (entries (ms_state demo_memory)). ent_id e \<noteq> []"
    "js_state (fst (demo_storage\<lparr>js_state := demo_session\<rparr>, ())) = ms_state demo_memory"
    "getEntry (ms_state demo_memory) ''b'' \<noteq> None" "getEntry (ms_state demo_memory) ''a'' \<noteq> None"
    unfolding st by (simp_all add: demo_reachable) (simp_all add: demo_session_def demo_entry_def getEntry_def)
  from branch_summary_entries [OF prem] show ?thesis unfolding st by metis
qed

end
