(* ===== verification/Truncation.thy ===== *)
theory Truncation
  imports Text_Encoding
begin

text \<open>
  The truncation of tool output, \<open>packages/agent/src/harness/utils/truncate.ts\<close>. Strings are lists of
  UTF-16 code units, because bytes are counted and a cut may fall beside a surrogate pair. \<open>buffer\<close> says
  whether the runtime has \<open>Buffer\<close>, whose \<open>byteLength\<close> is the length of the UTF-8 encoding.
\<close>

section \<open>Lines\<close>

definition js :: "string \<Rightarrow> js_string" where
  "js s = map (\<lambda>c. word_of_nat (of_char c)) s"

abbreviation LF :: "16 word" where
  "LF \<equiv> 0x0A"

abbreviation CR :: "16 word" where
  "CR \<equiv> 0x0D"

text \<open>\<open>content.split(LF)\<close> and \<open>lines.join(separator)\<close>.\<close>

fun js_lines :: "js_string \<Rightarrow> js_string list" where
  "js_lines [] = [[]]"
| "js_lines (u # us) =
     (if u = LF then [] # js_lines us
      else case js_lines us of [] \<Rightarrow> [[u]] | l # ls \<Rightarrow> (u # l) # ls)"

fun js_join :: "js_string \<Rightarrow> js_string list \<Rightarrow> js_string" where
  "js_join sep [] = []"
| "js_join sep [l] = l"
| "js_join sep (l # ls) = l @ sep @ js_join sep ls"

definition splitLinesForCounting :: "js_string \<Rightarrow> js_string list" where
  "splitLinesForCounting content =
     (if content = [] then []
      else let lines = js_lines content in if last content = LF then butlast lines else lines)"

section \<open>Bytes\<close>

definition is_ascii :: "16 word \<Rightarrow> bool" where
  "is_ascii u \<longleftrightarrow> unat u \<le> 0x7F"

fun byte_loop :: "js_string \<Rightarrow> nat" where
  "byte_loop [] = 0"
| "byte_loop (u # us) =
     (if unat u \<le> 0x7F then 1 + byte_loop us
      else if unat u \<le> 0x7FF then 2 + byte_loop us
      else if is_high u
      then (case us of
              [] \<Rightarrow> 3
            | v # rest \<Rightarrow> if is_low v then 4 + byte_loop rest else 3 + byte_loop us)
      else 3 + byte_loop us)"

definition utf8ByteLength :: "bool \<Rightarrow> js_string \<Rightarrow> nat" where
  "utf8ByteLength buffer content =
     (if buffer then length (utf8_encode content)
      else let firstNonAscii = length (takeWhile is_ascii content)
           in if firstNonAscii = length content then length content
              else firstNonAscii + byte_loop (drop firstNonAscii content))"

fun replaceUnpairedSurrogates :: "js_string \<Rightarrow> js_string" where
  "replaceUnpairedSurrogates [] = []"
| "replaceUnpairedSurrogates (u # us) =
     (if is_high u
      then (case us of
              [] \<Rightarrow> [0xFFFD]
            | v # rest \<Rightarrow> if is_low v then u # v # replaceUnpairedSurrogates rest
                          else 0xFFFD # replaceUnpairedSurrogates us)
      else if is_low u then 0xFFFD # replaceUnpairedSurrogates us
      else u # replaceUnpairedSurrogates us)"

text \<open>
  \<open>(bytes / unit).toFixed(1)\<close> for a power of two: the quotient is exact, and of two nearest tenths the
  larger one is taken.
\<close>

definition toFixed1 :: "int \<Rightarrow> int \<Rightarrow> string" where
  "toFixed1 bytes unit =
     (let tenths = (20 * bytes + unit) div (2 * unit)
      in show_nat (nat (tenths div 10)) @ ''.'' @ show_nat (nat (tenths mod 10)))"

definition formatSize :: "int \<Rightarrow> string" where
  "formatSize bytes =
     (if bytes < 1024 then show_int bytes @ ''B''
      else if bytes < 1024 * 1024 then toFixed1 bytes 1024 @ ''KB''
      else toFixed1 bytes (1024 * 1024) @ ''MB'')"

section \<open>Results\<close>

datatype truncated_by = By_lines | By_bytes

record truncation_result =
  tn_content :: js_string
  tn_truncated :: bool
  tn_truncatedBy :: "truncated_by option"
  tn_totalLines :: nat
  tn_totalBytes :: nat
  tn_outputLines :: nat
  tn_outputBytes :: nat
  tn_lastLinePartial :: bool
  tn_firstLineExceedsLimit :: bool
  tn_maxLines :: int
  tn_maxBytes :: int

definition DEFAULT_MAX_LINES :: int where
  "DEFAULT_MAX_LINES = 2000"

definition DEFAULT_MAX_BYTES :: int where
  "DEFAULT_MAX_BYTES = 50 * 1024"

definition GREP_MAX_LINE_LENGTH :: nat where
  "GREP_MAX_LINE_LENGTH = 500"

definition default_to :: "int \<Rightarrow> int option \<Rightarrow> int" where
  "default_to d v = (case v of Some n \<Rightarrow> n | None \<Rightarrow> d)"

definition untruncated :: "js_string \<Rightarrow> nat \<Rightarrow> nat \<Rightarrow> int \<Rightarrow> int \<Rightarrow> truncation_result" where
  "untruncated content totalLines totalBytes maxLines maxBytes =
     \<lparr>tn_content = content, tn_truncated = False, tn_truncatedBy = None, tn_totalLines = totalLines,
      tn_totalBytes = totalBytes, tn_outputLines = totalLines, tn_outputBytes = totalBytes,
      tn_lastLinePartial = False, tn_firstLineExceedsLimit = False, tn_maxLines = maxLines, tn_maxBytes = maxBytes\<rparr>"

section \<open>The head\<close>

text \<open>The loop over the lines not yet looked at, with the lines and bytes collected so far.\<close>

fun head_loop :: "bool \<Rightarrow> int \<Rightarrow> int \<Rightarrow> js_string list \<Rightarrow> js_string list \<Rightarrow> nat \<Rightarrow> js_string list \<times> nat \<times> truncated_by" where
  "head_loop buffer maxLines maxBytes [] out n = (out, n, By_lines)"
| "head_loop buffer maxLines maxBytes (line # lines) out n =
     (if int (length out) < maxLines
      then let lineBytes = utf8ByteLength buffer line + (if out \<noteq> [] then 1 else 0)
           in if maxBytes < int (n + lineBytes) then (out, n, By_bytes)
              else head_loop buffer maxLines maxBytes lines (out @ [line]) (n + lineBytes)
      else (out, n, By_lines))"

text \<open>\<open>None\<close> is the \<open>TypeError\<close> of measuring \<open>lines[0]\<close> of a text that has no line.\<close>

definition truncateHead :: "bool \<Rightarrow> js_string \<Rightarrow> int option \<Rightarrow> int option \<Rightarrow> truncation_result option" where
  "truncateHead buffer content opt_maxLines opt_maxBytes =
     (let maxLines = default_to DEFAULT_MAX_LINES opt_maxLines; maxBytes = default_to DEFAULT_MAX_BYTES opt_maxBytes;
          totalBytes = utf8ByteLength buffer content; lines = splitLinesForCounting content; totalLines = length lines
      in if int totalLines \<le> maxLines \<and> int totalBytes \<le> maxBytes
         then Some (untruncated content totalLines totalBytes maxLines maxBytes)
         else case lines of
             [] \<Rightarrow> None
           | first # _ \<Rightarrow>
               if maxBytes < int (utf8ByteLength buffer first)
               then Some \<lparr>tn_content = [], tn_truncated = True, tn_truncatedBy = Some By_bytes,
                          tn_totalLines = totalLines, tn_totalBytes = totalBytes, tn_outputLines = 0, tn_outputBytes = 0,
                          tn_lastLinePartial = False, tn_firstLineExceedsLimit = True,
                          tn_maxLines = maxLines, tn_maxBytes = maxBytes\<rparr>
               else case head_loop buffer maxLines maxBytes lines [] 0 of (out, n, by) \<Rightarrow>
                 let truncatedBy = (if maxLines \<le> int (length out) \<and> int n \<le> maxBytes then By_lines else by);
                     outputContent = js_join [LF] out
                 in Some \<lparr>tn_content = outputContent, tn_truncated = True, tn_truncatedBy = Some truncatedBy,
                          tn_totalLines = totalLines, tn_totalBytes = totalBytes, tn_outputLines = length out,
                          tn_outputBytes = utf8ByteLength buffer outputContent,
                          tn_lastLinePartial = False, tn_firstLineExceedsLimit = False,
                          tn_maxLines = maxLines, tn_maxBytes = maxBytes\<rparr>)"

section \<open>The tail\<close>

text \<open>The character that ends before position \<open>i\<close>: its start, its bytes, and whether it is an unpaired surrogate.\<close>

definition character_before :: "js_string \<Rightarrow> nat \<Rightarrow> nat \<times> nat \<times> bool" where
  "character_before str i =
     (let code = str ! (i - 1)
      in if is_low code \<and> 0 < i - 1
         then if is_high (str ! (i - 2)) then (i - 2, 4, False) else (i - 1, 3, True)
         else if is_high code \<or> is_low code then (i - 1, 3, True)
         else (i - 1, if unat code \<le> 0x7F then 1 else if unat code \<le> 0x7FF then 2 else 3, False))"

lemma character_before_less: "character_before str i = (k, n, b) \<Longrightarrow> 0 < i \<Longrightarrow> k < i"
  by (auto simp: character_before_def Let_def split: if_splits)

function byte_cut :: "js_string \<Rightarrow> int \<Rightarrow> nat \<Rightarrow> nat \<Rightarrow> bool \<Rightarrow> nat \<times> bool" where
  "byte_cut str maxBytes i outputBytes needsReplacement =
     (if i = 0 then (0, needsReplacement)
      else case character_before str i of (characterStart, characterBytes, unpairedSurrogate) \<Rightarrow>
        if maxBytes < int (outputBytes + characterBytes) then (i, needsReplacement)
        else byte_cut str maxBytes characterStart (outputBytes + characterBytes) (needsReplacement \<or> unpairedSurrogate))"
  by pat_completeness auto
termination
  by (relation "measure (\<lambda>(str, maxBytes, i, _). i)") (auto dest: character_before_less [OF sym])

declare byte_cut.simps [simp del]

definition truncateStringToBytesFromEnd :: "js_string \<Rightarrow> int \<Rightarrow> js_string" where
  "truncateStringToBytesFromEnd str maxBytes =
     (if maxBytes \<le> 0 then []
      else case byte_cut str maxBytes (length str) 0 False of (start, needsReplacement) \<Rightarrow>
        if needsReplacement then replaceUnpairedSurrogates (drop start str) else drop start str)"

text \<open>The loop over the lines from the last to the first.\<close>

fun tail_loop ::
  "bool \<Rightarrow> int \<Rightarrow> int \<Rightarrow> js_string list \<Rightarrow> js_string list \<Rightarrow> nat \<Rightarrow> js_string list \<times> nat \<times> truncated_by \<times> bool" where
  "tail_loop buffer maxLines maxBytes [] out n = (out, n, By_lines, False)"
| "tail_loop buffer maxLines maxBytes (line # older) out n =
     (if int (length out) < maxLines
      then let lineBytes = utf8ByteLength buffer line + (if out \<noteq> [] then 1 else 0)
           in if maxBytes < int (n + lineBytes)
              then if out = []
                   then let truncatedLine = truncateStringToBytesFromEnd line maxBytes
                        in ([truncatedLine], utf8ByteLength buffer truncatedLine, By_bytes, True)
                   else (out, n, By_bytes, False)
              else tail_loop buffer maxLines maxBytes older (line # out) (n + lineBytes)
      else (out, n, By_lines, False))"

definition truncateTail :: "bool \<Rightarrow> js_string \<Rightarrow> int option \<Rightarrow> int option \<Rightarrow> truncation_result" where
  "truncateTail buffer content opt_maxLines opt_maxBytes =
     (let maxLines = default_to DEFAULT_MAX_LINES opt_maxLines; maxBytes = default_to DEFAULT_MAX_BYTES opt_maxBytes;
          totalBytes = utf8ByteLength buffer content; lines = splitLinesForCounting content; totalLines = length lines
      in if int totalLines \<le> maxLines \<and> int totalBytes \<le> maxBytes
         then untruncated content totalLines totalBytes maxLines maxBytes
         else case tail_loop buffer maxLines maxBytes (rev lines) [] 0 of (out, n, by, lastLinePartial) \<Rightarrow>
           let truncatedBy = (if maxLines \<le> int (length out) \<and> int n \<le> maxBytes then By_lines else by);
               outputContent = js_join [LF] out
           in \<lparr>tn_content = outputContent, tn_truncated = True, tn_truncatedBy = Some truncatedBy,
               tn_totalLines = totalLines, tn_totalBytes = totalBytes, tn_outputLines = length out,
               tn_outputBytes = utf8ByteLength buffer outputContent,
               tn_lastLinePartial = lastLinePartial, tn_firstLineExceedsLimit = False,
               tn_maxLines = maxLines, tn_maxBytes = maxBytes\<rparr>)"

definition truncateLine :: "js_string \<Rightarrow> nat \<Rightarrow> js_string \<times> bool" where
  "truncateLine line maxChars =
     (if length line \<le> maxChars then (line, False)
      else (take maxChars line @ js ''... [truncated]'', True))"

end
