(* ===== verification/Text_Edits.thy ===== *)
theory Text_Edits
  imports Truncation "HOL-Library.Sublist"
begin

text \<open>
  The text replacement behind the edit tool, \<open>packages/agent/src/harness/tools/edit-diff.ts\<close>, over strings of
  UTF-16 code units. \<open>String.prototype.normalize("NFKC")\<close> depends on the Unicode tables and is the parameter
  \<open>nfkc\<close>; a thrown \<open>Error\<close> is its message, on the left of a sum. The package \<open>diff\<close> is a parameter too.
\<close>

section \<open>Strings\<close>

text \<open>\<open>text.indexOf(pattern)\<close>, \<open>None\<close> for \<open>-1\<close>.\<close>

fun index_of :: "'a list \<Rightarrow> 'a list \<Rightarrow> nat option" where
  "index_of pat [] = (if pat = [] then Some 0 else None)"
| "index_of pat (u # us) = (if prefix pat (u # us) then Some 0 else map_option Suc (index_of pat us))"

text \<open>\<open>text.substring(from)\<close> and \<open>text.substring(0, to)\<close>: negative positions count as 0.\<close>

definition substring_from :: "js_string \<Rightarrow> int \<Rightarrow> js_string" where
  "substring_from s i = drop (nat i) s"

definition substring_to :: "js_string \<Rightarrow> int \<Rightarrow> js_string" where
  "substring_to s i = take (nat i) s"

lemma index_of_bound: "index_of pat s = Some i \<Longrightarrow> i + length pat \<le> length s"
  by (induction s arbitrary: i) (auto split: if_splits dest: prefix_length_le)

text \<open>\<open>text.split(separator).length - 1\<close>; the empty separator splits into code units.\<close>

function occurrences :: "js_string \<Rightarrow> js_string \<Rightarrow> nat" where
  "occurrences pat s =
     (if pat = [] then 0
      else case index_of pat s of
          None \<Rightarrow> 0
        | Some i \<Rightarrow> Suc (occurrences pat (drop (i + length pat) s)))"
  by pat_completeness auto

termination
proof (relation "measure (length \<circ> snd)", simp, goal_cases)
  case (1 pat s i)
  then show ?case using index_of_bound [of pat s i] by (cases pat) auto
qed

declare occurrences.simps [simp del]

definition split_count :: "js_string \<Rightarrow> js_string \<Rightarrow> int" where
  "split_count s separator = (if separator = [] then int (length s) - 1 else int (occurrences separator s))"

section \<open>Line endings\<close>

definition CRLF :: js_string where
  "CRLF = [CR, LF]"

definition detectLineEnding :: "js_string \<Rightarrow> js_string" where
  "detectLineEnding content =
     (case index_of [LF] content of
        None \<Rightarrow> [LF]
      | Some lfIdx \<Rightarrow>
          (case index_of CRLF content of
             None \<Rightarrow> [LF]
           | Some crlfIdx \<Rightarrow> if crlfIdx < lfIdx then CRLF else [LF]))"

fun crlf_to_lf :: "js_string \<Rightarrow> js_string" where
  "crlf_to_lf (u # v # us) = (if u = CR \<and> v = LF then LF # crlf_to_lf us else u # crlf_to_lf (v # us))"
| "crlf_to_lf us = us"

definition normalizeToLF :: "js_string \<Rightarrow> js_string" where
  "normalizeToLF text_of = map (\<lambda>u. if u = CR then LF else u) (crlf_to_lf text_of)"

definition restoreLineEndings :: "js_string \<Rightarrow> js_string \<Rightarrow> js_string" where
  "restoreLineEndings text_of ending =
     (if ending = CRLF then concat (map (\<lambda>u. if u = LF then CRLF else [u]) text_of) else text_of)"

section \<open>Normalization\<close>

text \<open>White space and line terminators, as \<open>trimEnd\<close> removes them.\<close>

definition is_space :: "16 word \<Rightarrow> bool" where
  "is_space u \<longleftrightarrow> (let n = unat u in
     (9 \<le> n \<and> n \<le> 13) \<or> n = 0x20 \<or> n = 0xA0 \<or> n = 0x1680 \<or> (0x2000 \<le> n \<and> n \<le> 0x200A) \<or>
     n = 0x2028 \<or> n = 0x2029 \<or> n = 0x202F \<or> n = 0x205F \<or> n = 0x3000 \<or> n = 0xFEFF)"

definition trimEnd :: "js_string \<Rightarrow> js_string" where
  "trimEnd s = rev (dropWhile is_space (rev s))"

definition normalize_unit :: "16 word \<Rightarrow> 16 word" where
  "normalize_unit u =
     (let n = unat u
      in if 0x2018 \<le> n \<and> n \<le> 0x201B then 0x27
         else if 0x201C \<le> n \<and> n \<le> 0x201F then 0x22
         else if (0x2010 \<le> n \<and> n \<le> 0x2015) \<or> n = 0x2212 then 0x2D
         else if n = 0xA0 \<or> (0x2002 \<le> n \<and> n \<le> 0x200A) \<or> n = 0x202F \<or> n = 0x205F \<or> n = 0x3000 then 0x20
         else u)"

definition normalizeForFuzzyMatch :: "(js_string \<Rightarrow> js_string) \<Rightarrow> js_string \<Rightarrow> js_string" where
  "normalizeForFuzzyMatch nfkc text_of =
     map normalize_unit (js_join [LF] (map trimEnd (js_lines (nfkc text_of))))"

section \<open>Lines and replacements\<close>

text \<open>\<open>content.match\<close> with the pattern of a line with its newline or a last line without.\<close>

fun splitLinesWithEndings :: "js_string \<Rightarrow> js_string list" where
  "splitLinesWithEndings [] = []"
| "splitLinesWithEndings (u # us) =
     (if u = LF then [u] # splitLinesWithEndings us
      else case us of
          [] \<Rightarrow> [[u]]
        | _ \<Rightarrow> (case splitLinesWithEndings us of [] \<Rightarrow> [[u]] | l # ls \<Rightarrow> (u # l) # ls))"

record line_span =
  sp_start :: nat
  sp_end :: nat

record text_replacement =
  rp_matchIndex :: nat
  rp_matchLength :: nat
  rp_newText :: js_string

record matched_edit = text_replacement +
  rp_editIndex :: nat

fun spans_from :: "nat \<Rightarrow> js_string list \<Rightarrow> line_span list" where
  "spans_from offset [] = []"
| "spans_from offset (l # ls) =
     \<lparr>sp_start = offset, sp_end = offset + length l\<rparr> # spans_from (offset + length l) ls"

definition getLineSpans :: "js_string \<Rightarrow> line_span list" where
  "getLineSpans content = spans_from 0 (splitLinesWithEndings content)"

text \<open>The index of the first line with a property, \<open>None\<close> when there is none.\<close>

fun find_line :: "(line_span \<Rightarrow> bool) \<Rightarrow> line_span list \<Rightarrow> nat option" where
  "find_line P [] = None"
| "find_line P (l # ls) = (if P l then Some 0 else map_option Suc (find_line P ls))"

definition getReplacementLineRange :: "line_span list \<Rightarrow> 'a text_replacement_scheme \<Rightarrow> js_string + nat \<times> nat" where
  "getReplacementLineRange lines r =
     (let replacementStart = rp_matchIndex r; replacementEnd = rp_matchIndex r + rp_matchLength r;
          outside = js ''Replacement range is outside the base content.''
      in case find_line (\<lambda>l. sp_start l \<le> replacementStart \<and> replacementStart < sp_end l) lines of
           None \<Rightarrow> Inl outside
         | Some startLine \<Rightarrow>
             (case find_line (\<lambda>l. \<not> sp_end l < replacementEnd) (drop startLine lines) of
                None \<Rightarrow> Inl outside
              | Some further \<Rightarrow> Inr (startLine, startLine + further + 1)))"

text \<open>The replacements from the last to the first.\<close>

definition replace_one :: "int \<Rightarrow> 'a text_replacement_scheme \<Rightarrow> js_string \<Rightarrow> js_string" where
  "replace_one offset r result =
     (let matchIndex = int (rp_matchIndex r) - offset
      in substring_to result matchIndex @ rp_newText r @ substring_from result (matchIndex + int (rp_matchLength r)))"

definition applyReplacements :: "js_string \<Rightarrow> 'a text_replacement_scheme list \<Rightarrow> int \<Rightarrow> js_string" where
  "applyReplacements content replacements offset = foldr (replace_one offset) replacements content"

record 'a replacement_group =
  gr_startLine :: nat
  gr_endLine :: nat
  gr_replacements :: "'a list"

text \<open>The loop that groups sorted replacements by the lines they touch; groups are listed in order.\<close>

definition add_to_groups ::
  "nat \<times> nat \<Rightarrow> 'r \<Rightarrow> 'r replacement_group list \<Rightarrow> 'r replacement_group list" where
  "add_to_groups touched r groups =
     (if groups \<noteq> [] \<and> fst touched < gr_endLine (last groups)
      then butlast groups @ [(last groups)\<lparr>gr_endLine := max (gr_endLine (last groups)) (snd touched),
                                           gr_replacements := gr_replacements (last groups) @ [r]\<rparr>]
      else groups @ [\<lparr>gr_startLine = fst touched, gr_endLine = snd touched, gr_replacements = [r]\<rparr>])"

fun group_loop ::
  "line_span list \<Rightarrow> 'a text_replacement_scheme list \<Rightarrow> 'a text_replacement_scheme replacement_group list \<Rightarrow>
   js_string + 'a text_replacement_scheme replacement_group list" where
  "group_loop baseLines [] groups = Inr groups"
| "group_loop baseLines (r # rs) groups =
     (case getReplacementLineRange baseLines r of
        Inl e \<Rightarrow> Inl e
      | Inr touched \<Rightarrow> group_loop baseLines rs (add_to_groups touched r groups))"

text \<open>\<open>lines.slice(from, to)\<close>.\<close>

definition line_slice :: "'a list \<Rightarrow> nat \<Rightarrow> nat \<Rightarrow> 'a list" where
  "line_slice ls i k = drop i (take k ls)"

fun overlay ::
  "js_string list \<Rightarrow> js_string \<Rightarrow> line_span list \<Rightarrow> nat \<Rightarrow> 'a text_replacement_scheme replacement_group list \<Rightarrow> js_string" where
  "overlay originalLines baseContent baseLines originalLineIndex [] = concat (drop originalLineIndex originalLines)"
| "overlay originalLines baseContent baseLines originalLineIndex (g # gs) =
     (let groupStartOffset = sp_start (baseLines ! gr_startLine g);
          groupEndOffset = sp_end (baseLines ! (gr_endLine g - 1))
      in concat (line_slice originalLines originalLineIndex (gr_startLine g))
         @ applyReplacements (line_slice baseContent groupStartOffset groupEndOffset) (gr_replacements g) (int groupStartOffset)
         @ overlay originalLines baseContent baseLines (gr_endLine g) gs)"

definition applyReplacementsPreservingUnchangedLines ::
  "js_string \<Rightarrow> js_string \<Rightarrow> 'a text_replacement_scheme list \<Rightarrow> js_string + js_string" where
  "applyReplacementsPreservingUnchangedLines originalContent baseContent replacements =
     (let originalLines = splitLinesWithEndings originalContent; baseLines = getLineSpans baseContent
      in if length originalLines \<noteq> length baseLines
         then Inl (js ''Cannot preserve unchanged lines because the base content has a different line count.'')
         else case group_loop baseLines (sort_key rp_matchIndex replacements) [] of
             Inl e \<Rightarrow> Inl e
           | Inr groups \<Rightarrow> Inr (overlay originalLines baseContent baseLines 0 groups))"

section \<open>Matching\<close>

record fuzzy_match_result =
  fm_found :: bool
  fm_index :: nat            \<comment> \<open>meaningful when found\<close>
  fm_matchLength :: nat
  fm_usedFuzzyMatch :: bool
  fm_contentForReplacement :: js_string

record edit_text =
  ed_oldText :: js_string
  ed_newText :: js_string

record applied_edits =
  ae_baseContent :: js_string
  ae_newContent :: js_string

definition fuzzyFindText :: "(js_string \<Rightarrow> js_string) \<Rightarrow> js_string \<Rightarrow> js_string \<Rightarrow> fuzzy_match_result" where
  "fuzzyFindText nfkc content oldText =
     (case index_of oldText content of
        Some exactIndex \<Rightarrow>
          \<lparr>fm_found = True, fm_index = exactIndex, fm_matchLength = length oldText, fm_usedFuzzyMatch = False,
           fm_contentForReplacement = content\<rparr>
      | None \<Rightarrow>
          (let fuzzyContent = normalizeForFuzzyMatch nfkc content; fuzzyOldText = normalizeForFuzzyMatch nfkc oldText
           in case index_of fuzzyOldText fuzzyContent of
                None \<Rightarrow> \<lparr>fm_found = False, fm_index = 0, fm_matchLength = 0, fm_usedFuzzyMatch = False,
                         fm_contentForReplacement = content\<rparr>
              | Some fuzzyIndex \<Rightarrow>
                  \<lparr>fm_found = True, fm_index = fuzzyIndex, fm_matchLength = length fuzzyOldText, fm_usedFuzzyMatch = True,
                   fm_contentForReplacement = fuzzyContent\<rparr>))"

definition BOM :: "16 word" where
  "BOM = 0xFEFF"

definition stripBom :: "js_string \<Rightarrow> js_string \<times> js_string" where
  "stripBom content = (if prefix [BOM] content then ([BOM], drop 1 content) else ([], content))"

definition countOccurrences :: "(js_string \<Rightarrow> js_string) \<Rightarrow> js_string \<Rightarrow> js_string \<Rightarrow> int" where
  "countOccurrences nfkc content oldText =
     split_count (normalizeForFuzzyMatch nfkc content) (normalizeForFuzzyMatch nfkc oldText)"

section \<open>Errors\<close>

definition js_int :: "int \<Rightarrow> js_string" where
  "js_int n = js (show_int n)"

definition getNotFoundError :: "js_string \<Rightarrow> nat \<Rightarrow> nat \<Rightarrow> js_string" where
  "getNotFoundError path editIndex totalEdits =
     (if totalEdits = 1
      then js ''Could not find the exact text in '' @ path
             @ js ''. The old text must match exactly including all whitespace and newlines.''
      else js ''Could not find edits['' @ js_int (int editIndex) @ js ''] in '' @ path
             @ js ''. The oldText must match exactly including all whitespace and newlines.'')"

definition getDuplicateError :: "js_string \<Rightarrow> nat \<Rightarrow> nat \<Rightarrow> int \<Rightarrow> js_string" where
  "getDuplicateError path editIndex totalEdits found =
     (if totalEdits = 1
      then js ''Found '' @ js_int found @ js '' occurrences of the text in '' @ path
             @ js ''. The text must be unique. Please provide more context to make it unique.''
      else js ''Found '' @ js_int found @ js '' occurrences of edits['' @ js_int (int editIndex) @ js ''] in '' @ path
             @ js ''. Each oldText must be unique. Please provide more context to make it unique.'')"

definition getEmptyOldTextError :: "js_string \<Rightarrow> nat \<Rightarrow> nat \<Rightarrow> js_string" where
  "getEmptyOldTextError path editIndex totalEdits =
     (if totalEdits = 1 then js ''oldText must not be empty in '' @ path @ js ''.''
      else js ''edits['' @ js_int (int editIndex) @ js ''].oldText must not be empty in '' @ path @ js ''.'')"

definition getNoChangeError :: "js_string \<Rightarrow> nat \<Rightarrow> js_string" where
  "getNoChangeError path totalEdits =
     (if totalEdits = 1
      then js ''No changes made to '' @ path @ js ''. The replacement produced identical content. This might indicate an issue with special characters or the text not existing as expected.''
      else js ''No changes made to '' @ path @ js ''. The replacements produced identical content.'')"

definition overlap_error :: "js_string \<Rightarrow> nat \<Rightarrow> nat \<Rightarrow> js_string" where
  "overlap_error path previous current =
     js ''edits['' @ js_int (int previous) @ js ''] and edits['' @ js_int (int current) @ js ''] overlap in '' @ path
       @ js ''. Merge them into one edit or target disjoint regions.''"

section \<open>Applying edits\<close>

definition normalize_edit :: "edit_text \<Rightarrow> edit_text" where
  "normalize_edit e = \<lparr>ed_oldText = normalizeToLF (ed_oldText e), ed_newText = normalizeToLF (ed_newText e)\<rparr>"

fun check_old_texts :: "js_string \<Rightarrow> nat \<Rightarrow> nat \<Rightarrow> edit_text list \<Rightarrow> js_string + unit" where
  "check_old_texts path editCount i [] = Inr ()"
| "check_old_texts path editCount i (e # es) =
     (if length (ed_oldText e) = 0 then Inl (getEmptyOldTextError path i editCount)
      else check_old_texts path editCount (Suc i) es)"

fun match_edits ::
  "(js_string \<Rightarrow> js_string) \<Rightarrow> js_string \<Rightarrow> js_string \<Rightarrow> nat \<Rightarrow> nat \<Rightarrow> edit_text list \<Rightarrow> js_string + matched_edit list" where
  "match_edits nfkc base path editCount i [] = Inr []"
| "match_edits nfkc base path editCount i (e # es) =
     (let matchResult = fuzzyFindText nfkc base (ed_oldText e)
      in if \<not> fm_found matchResult then Inl (getNotFoundError path i editCount)
         else let found = countOccurrences nfkc base (ed_oldText e)
              in if 1 < found then Inl (getDuplicateError path i editCount found)
                 else case match_edits nfkc base path editCount (Suc i) es of
                     Inl err \<Rightarrow> Inl err
                   | Inr ms \<Rightarrow> Inr (\<lparr>rp_matchIndex = fm_index matchResult, rp_matchLength = fm_matchLength matchResult,
                                     rp_newText = ed_newText e, rp_editIndex = i\<rparr> # ms))"

fun check_overlaps :: "js_string \<Rightarrow> matched_edit list \<Rightarrow> js_string + unit" where
  "check_overlaps path (previous # current # ms) =
     (if rp_matchIndex current < rp_matchIndex previous + rp_matchLength previous
      then Inl (overlap_error path (rp_editIndex previous) (rp_editIndex current))
      else check_overlaps path (current # ms))"
| "check_overlaps path ms = Inr ()"

definition uses_fuzzy_match :: "(js_string \<Rightarrow> js_string) \<Rightarrow> js_string \<Rightarrow> edit_text list \<Rightarrow> bool" where
  "uses_fuzzy_match nfkc content es = list_ex (\<lambda>e. fm_usedFuzzyMatch (fuzzyFindText nfkc content (ed_oldText e))) es"

definition applyEditsToNormalizedContent ::
  "(js_string \<Rightarrow> js_string) \<Rightarrow> js_string \<Rightarrow> edit_text list \<Rightarrow> js_string \<Rightarrow> js_string + applied_edits" where
  "applyEditsToNormalizedContent nfkc normalizedContent edits path =
     (let normalizedEdits = map normalize_edit edits; editCount = length normalizedEdits
      in andThen (check_old_texts path editCount 0 normalizedEdits) (\<lambda>_.
         let usedFuzzyMatch = uses_fuzzy_match nfkc normalizedContent normalizedEdits;
             replacementBaseContent = (if usedFuzzyMatch then normalizeForFuzzyMatch nfkc normalizedContent else normalizedContent)
         in andThen (match_edits nfkc replacementBaseContent path editCount 0 normalizedEdits) (\<lambda>matched.
            let matchedEdits = sort_key rp_matchIndex matched
            in andThen (check_overlaps path matchedEdits) (\<lambda>_.
               andThen (if usedFuzzyMatch
                        then applyReplacementsPreservingUnchangedLines normalizedContent replacementBaseContent matchedEdits
                        else Inr (applyReplacements replacementBaseContent matchedEdits 0)) (\<lambda>newContent.
               if normalizedContent = newContent then Inl (getNoChangeError path editCount)
               else Inr \<lparr>ae_baseContent = normalizedContent, ae_newContent = newContent\<rparr>)))))"

end
