(* ===== verification/Image_Bytes.thy ===== *)
theory Image_Bytes
  imports Text_Encoding
begin

text \<open>
  The detection of image files and their base64 text, \<open>packages/agent/src/harness/tools/image.ts\<close>, over
  lists of bytes. A byte past the end reads as 0, as \<open>buffer[offset] ?? 0\<close> does.
\<close>

unbundle bit_operations_syntax

section \<open>Definitions\<close>

definition byte_at :: "bytes \<Rightarrow> nat \<Rightarrow> nat" where
  "byte_at buffer i = (if i < length buffer then unat (buffer ! i) else 0)"

definition PNG_SIGNATURE :: "nat list" where
  "PNG_SIGNATURE = [0x89, 0x50, 0x4E, 0x47, 0x0D, 0x0A, 0x1A, 0x0A]"

definition startsWith :: "bytes \<Rightarrow> nat list \<Rightarrow> bool" where
  "startsWith buffer bs \<longleftrightarrow> length bs \<le> length buffer \<and> map unat (take (length bs) buffer) = bs"

definition startsWithAscii :: "bytes \<Rightarrow> nat \<Rightarrow> string \<Rightarrow> bool" where
  "startsWithAscii buffer offset s \<longleftrightarrow>
     offset + length s \<le> length buffer \<and> map unat (take (length s) (drop offset buffer)) = map of_char s"

definition readUint16LE :: "bytes \<Rightarrow> nat \<Rightarrow> nat" where
  "readUint16LE buffer offset = byte_at buffer offset + byte_at buffer (offset + 1) * 0x100"

definition readUint32BE :: "bytes \<Rightarrow> nat \<Rightarrow> nat" where
  "readUint32BE buffer offset =
     byte_at buffer offset * 0x1000000 + byte_at buffer (offset + 1) * 0x10000
       + byte_at buffer (offset + 2) * 0x100 + byte_at buffer (offset + 3)"

definition readUint32LE :: "bytes \<Rightarrow> nat \<Rightarrow> nat" where
  "readUint32LE buffer offset =
     byte_at buffer offset + byte_at buffer (offset + 1) * 0x100
       + byte_at buffer (offset + 2) * 0x10000 + byte_at buffer (offset + 3) * 0x1000000"

definition isPng :: "bytes \<Rightarrow> bool" where
  "isPng buffer \<longleftrightarrow>
     16 \<le> length buffer \<and> readUint32BE buffer (length PNG_SIGNATURE) = 13 \<and> startsWithAscii buffer 12 ''IHDR''"

text \<open>The walk over the chunks; \<open>nextOffset\<close> always exceeds \<open>offset\<close>.\<close>

function animated_from :: "bytes \<Rightarrow> nat \<Rightarrow> bool" where
  "animated_from buffer offset =
     (if offset + 8 \<le> length buffer
      then if startsWithAscii buffer (offset + 4) ''acTL'' then True
           else if startsWithAscii buffer (offset + 4) ''IDAT'' then False
           else let nextOffset = offset + 8 + readUint32BE buffer offset + 4
                in if nextOffset \<le> offset \<or> length buffer < nextOffset then False
                   else animated_from buffer nextOffset
      else False)"
  by pat_completeness auto
termination
  by (relation "measure (\<lambda>(buffer, offset). length buffer - offset)") auto

declare animated_from.simps [simp del]

definition isAnimatedPng :: "bytes \<Rightarrow> bool" where
  "isAnimatedPng buffer = animated_from buffer (length PNG_SIGNATURE)"

definition isBmp :: "bytes \<Rightarrow> bool" where
  "isBmp buffer \<longleftrightarrow>
     26 \<le> length buffer \<and>
     (let declaredFileSize = readUint32LE buffer 2; pixelDataOffset = readUint32LE buffer 10;
          dibHeaderSize = readUint32LE buffer 14
      in \<not> (declaredFileSize \<noteq> 0 \<and> declaredFileSize < 26) \<and> \<not> pixelDataOffset < 14 + dibHeaderSize \<and>
         \<not> (declaredFileSize \<noteq> 0 \<and> declaredFileSize \<le> pixelDataOffset) \<and>
         (if dibHeaderSize = 12
          then readUint16LE buffer 22 = 1 \<and> readUint16LE buffer 24 \<in> set [1, 4, 8, 16, 24, 32]
          else 40 \<le> dibHeaderSize \<and> dibHeaderSize \<le> 124 \<and> 30 \<le> length buffer \<and>
               readUint16LE buffer 26 = 1 \<and> readUint16LE buffer 28 \<in> set [1, 4, 8, 16, 24, 32]))"

definition detectSupportedImageMimeType :: "bytes \<Rightarrow> string option" where
  "detectSupportedImageMimeType buffer =
     (if startsWith buffer [0xFF, 0xD8, 0xFF]
      then if 3 < length buffer \<and> buffer ! 3 = 0xF7 then None else Some ''image/jpeg''
      else if startsWith buffer PNG_SIGNATURE
      then if isPng buffer \<and> \<not> isAnimatedPng buffer then Some ''image/png'' else None
      else if startsWithAscii buffer 0 ''GIF'' then Some ''image/gif''
      else if startsWithAscii buffer 0 ''RIFF'' \<and> startsWithAscii buffer 8 ''WEBP'' then Some ''image/webp''
      else if startsWithAscii buffer 0 ''BM'' \<and> isBmp buffer then Some ''image/bmp''
      else None)"

definition base64_alphabet :: string where
  "base64_alphabet = ''ABCDEFGHIJKLMNOPQRSTUVWXYZabcdefghijklmnopqrstuvwxyz0123456789+/''"

definition base64_char :: "8 word \<Rightarrow> char" where
  "base64_char w = base64_alphabet ! unat w"

definition base64_first :: "8 word \<Rightarrow> char" where
  "base64_first a = base64_char (drop_bit 2 a)"

definition base64_second :: "8 word \<Rightarrow> 8 word \<Rightarrow> char" where
  "base64_second a b = base64_char (push_bit 4 (a AND 0x03) OR drop_bit 4 b)"

definition base64_third :: "8 word \<Rightarrow> 8 word \<Rightarrow> char" where
  "base64_third b c = base64_char (push_bit 2 (b AND 0x0F) OR drop_bit 6 c)"

definition base64_fourth :: "8 word \<Rightarrow> char" where
  "base64_fourth c = base64_char (c AND 0x3F)"

fun encodeBase64 :: "bytes \<Rightarrow> string" where
  "encodeBase64 [] = []"
| "encodeBase64 [a] = [base64_first a, base64_second a 0, CHR ''='', CHR ''='']"
| "encodeBase64 [a, b] = [base64_first a, base64_second a b, base64_third b 0, CHR ''='']"
| "encodeBase64 (a # b # c # bs) =
     base64_first a # base64_second a b # base64_third b c # base64_fourth c # encodeBase64 bs"

end
