(* ===== verification/File_Tools.thy ===== *)
theory File_Tools
  imports Text_Edits Image_Bytes File_System
begin

text \<open>
  The tools that read and change files, \<open>packages/agent/src/harness/tools\<close>: \<open>path-utils.ts\<close>, \<open>read.ts\<close>,
  \<open>write.ts\<close> and \<open>edit.ts\<close>. The execution environment is a record of operations on a world \<open>'w\<close>; texts
  are lists of UTF-16 code units. \<open>normalize("NFD")\<close>, the decoding of bytes to text and the package \<open>diff\<close> are parameters.
  The queue that serializes changes of one file is \<open>Mutation_Queue\<close>; here a change runs by itself, after
  the key of the queue was computed.
\<close>

section \<open>The environment\<close>

datatype tool_error = ToolError js_string | ToolFileError file_error

record 'w tool_env =
  te_absolutePath :: "js_string \<Rightarrow> 'w \<Rightarrow> (file_error + js_string) \<times> 'w"
  te_canonicalPath :: "js_string \<Rightarrow> 'w \<Rightarrow> (file_error + js_string) \<times> 'w"
  te_exists :: "js_string \<Rightarrow> 'w \<Rightarrow> (file_error + bool) \<times> 'w"
  te_fileKind :: "js_string \<Rightarrow> 'w \<Rightarrow> (file_error + file_kind) \<times> 'w"   \<comment> \<open>the kind in \<open>fileInfo\<close>\<close>
  te_readTextFile :: "js_string \<Rightarrow> 'w \<Rightarrow> (file_error + js_string) \<times> 'w"
  te_readBinaryFile :: "js_string \<Rightarrow> 'w \<Rightarrow> (file_error + bytes) \<times> 'w"
  te_writeFile :: "js_string \<Rightarrow> js_string \<Rightarrow> 'w \<Rightarrow> (file_error + unit) \<times> 'w"
  te_aborted :: "'w \<Rightarrow> bool"                                          \<comment> \<open>\<open>signal?.aborted\<close>\<close>

type_synonym ('w, 'a) tool_run = "'w \<Rightarrow> (tool_error + 'a) \<times> 'w"

definition returnTool :: "'a \<Rightarrow> ('w, 'a) tool_run" where
  "returnTool x = (\<lambda>w. (Inr x, w))"

definition throwTool :: "tool_error \<Rightarrow> ('w, 'a) tool_run" where
  "throwTool e = (\<lambda>w. (Inl e, w))"

definition bindTool :: "('w, 'a) tool_run \<Rightarrow> ('a \<Rightarrow> ('w, 'b) tool_run) \<Rightarrow> ('w, 'b) tool_run" where
  "bindTool m f = (\<lambda>w. case m w of (Inl e, w') \<Rightarrow> (Inl e, w') | (Inr x, w') \<Rightarrow> f x w')"

definition getOrThrow :: "('w \<Rightarrow> (file_error + 'a) \<times> 'w) \<Rightarrow> ('w, 'a) tool_run" where
  "getOrThrow op = (\<lambda>w. case op w of (Inl e, w') \<Rightarrow> (Inl (ToolFileError e), w') | (Inr x, w') \<Rightarrow> (Inr x, w'))"

text \<open>\<open>if (signal?.aborted) throw new Error("Operation aborted")\<close>.\<close>

definition throw_if_aborted :: "'w tool_env \<Rightarrow> ('w, unit) tool_run" where
  "throw_if_aborted env = (\<lambda>w. if te_aborted env w then (Inl (ToolError (js ''Operation aborted'')), w) else (Inr (), w))"

text \<open>The properties of what a tool returns.\<close>

datatype tool_block = TextBlock js_string | ImageBlock string string   \<comment> \<open>data and MIME type\<close>

section \<open>Paths\<close>

definition is_unicode_space :: "16 word \<Rightarrow> bool" where
  "is_unicode_space u \<longleftrightarrow>
     (let n = unat u in n = 0xA0 \<or> (0x2000 \<le> n \<and> n \<le> 0x200A) \<or> n = 0x202F \<or> n = 0x205F \<or> n = 0x3000)"

definition NARROW_NO_BREAK_SPACE :: "16 word" where
  "NARROW_NO_BREAK_SPACE = 0x202F"

definition normalizeToolPath :: "js_string \<Rightarrow> js_string" where
  "normalizeToolPath path =
     (let normalized = map (\<lambda>u. if is_unicode_space u then 0x20 else u) path
      in if prefix [0x40] normalized then drop 1 normalized else normalized)"

definition resolveToolPath :: "'w tool_env \<Rightarrow> js_string \<Rightarrow> ('w, js_string) tool_run" where
  "resolveToolPath env path = getOrThrow (te_absolutePath env (normalizeToolPath path))"

text \<open>The replacement of \<open>/ (AM|PM)\./gi\<close> by a narrow space and the same letters.\<close>

definition is_am_pm :: "16 word \<Rightarrow> 16 word \<Rightarrow> bool" where
  "is_am_pm a m \<longleftrightarrow> (a = 0x41 \<or> a = 0x61 \<or> a = 0x50 \<or> a = 0x70) \<and> (m = 0x4D \<or> m = 0x6D)"

fun narrow_am_pm :: "js_string \<Rightarrow> js_string" where
  "narrow_am_pm (s # a # m # d # us) =
     (if s = 0x20 \<and> is_am_pm a m \<and> d = 0x2E then NARROW_NO_BREAK_SPACE # a # m # d # narrow_am_pm us
      else s # narrow_am_pm (a # m # d # us))"
| "narrow_am_pm us = us"

definition curly_quotes :: "js_string \<Rightarrow> js_string" where
  "curly_quotes path = map (\<lambda>u. if u = 0x27 then 0x2019 else u) path"

definition path_variants :: "(js_string \<Rightarrow> js_string) \<Rightarrow> js_string \<Rightarrow> js_string list" where
  "path_variants nfd resolved =
     [resolved, narrow_am_pm resolved, nfd resolved, curly_quotes resolved, curly_quotes (nfd resolved)]"

text \<open>The elements of \<open>new Set(xs)\<close> in order.\<close>

definition js_set :: "'a list \<Rightarrow> 'a list" where
  "js_set xs = foldl (\<lambda>seen x. if x \<in> set seen then seen else seen @ [x]) [] xs"

fun first_existing :: "'w tool_env \<Rightarrow> js_string \<Rightarrow> js_string list \<Rightarrow> ('w, js_string) tool_run" where
  "first_existing env resolved [] = returnTool resolved"
| "first_existing env resolved (v # vs) =
     bindTool (getOrThrow (te_exists env v)) (\<lambda>found.
       if found then returnTool v else first_existing env resolved vs)"

definition resolveReadToolPath :: "(js_string \<Rightarrow> js_string) \<Rightarrow> 'w tool_env \<Rightarrow> js_string \<Rightarrow> ('w, js_string) tool_run" where
  "resolveReadToolPath nfd env path =
     bindTool (resolveToolPath env path) (\<lambda>resolved. first_existing env resolved (js_set (path_variants nfd resolved)))"

section \<open>The read tool\<close>

text \<open>
  The text branch of \<open>execute\<close> from the decoded text on. \<open>offset\<close> and \<open>limit\<close> are integers; \<open>lines.slice(from, to)\<close>
  counts a negative end from the end of the list.
\<close>

definition slice_end :: "nat \<Rightarrow> int \<Rightarrow> nat" where
  "slice_end n k = (if k < 0 then nat (int n + k) else nat k)"

definition js_nat :: "nat \<Rightarrow> js_string" where
  "js_nat n = js_int (int n)"

definition js_size :: "int \<Rightarrow> js_string" where
  "js_size n = js (formatSize n)"

record read_result =
  rd_text :: js_string
  rd_truncation :: "truncation_result option"

definition start_line :: "int option \<Rightarrow> nat" where
  "start_line offset = (case offset of Some k \<Rightarrow> if k \<noteq> 0 then nat (k - 1) else 0 | None \<Rightarrow> 0)"

definition read_notice :: "js_string list \<Rightarrow> nat \<Rightarrow> truncation_result \<Rightarrow> js_string" where
  "read_notice allLines startLine tn =
     (let startLineDisplay = startLine + 1; endLineDisplay = startLineDisplay + tn_outputLines tn - 1;
          nextOffset = endLineDisplay + 1
      in [LF, LF] @ js ''[Showing lines '' @ js_nat startLineDisplay @ js ''-'' @ js_nat endLineDisplay @ js '' of ''
         @ js_nat (length allLines)
         @ (if tn_truncatedBy tn = Some By_lines then js ''''
            else js '' ('' @ js_size DEFAULT_MAX_BYTES @ js '' limit)'')
         @ js ''. Use offset='' @ js_nat nextOffset @ js '' to continue.]'')"

definition read_text :: "bool \<Rightarrow> js_string \<Rightarrow> js_string \<Rightarrow> int option \<Rightarrow> int option \<Rightarrow> tool_error + read_result" where
  "read_text buffer path textContent offset limit =
     (let allLines = js_lines textContent; totalFileLines = length allLines; startLine = start_line offset
      in if totalFileLines \<le> startLine
         then Inl (ToolError (js ''Offset '' @ js_int (case offset of Some k \<Rightarrow> k | None \<Rightarrow> 0)
                    @ js '' is beyond end of file ('' @ js_nat totalFileLines @ js '' lines total)''))
         else
           let endLine = (case limit of Some n \<Rightarrow> min (int startLine + n) (int totalFileLines) | None \<Rightarrow> int totalFileLines);
               selectedContent = js_join [LF] (line_slice allLines startLine (slice_end totalFileLines endLine));
               userLimitedLines = (case limit of Some n \<Rightarrow> Some (endLine - int startLine) | None \<Rightarrow> None)
           in case truncateHead buffer selectedContent None None of
                None \<Rightarrow> Inl (ToolError (js ''TypeError''))
              | Some truncation \<Rightarrow>
                  if tn_firstLineExceedsLimit truncation
                  then Inr \<lparr>rd_text = js ''[Line '' @ js_nat (startLine + 1) @ js '' is ''
                              @ js_size (int (length (utf8_encode (allLines ! startLine)))) @ js '', exceeds ''
                              @ js_size DEFAULT_MAX_BYTES @ js '' limit. Use bash: sed -n '' @ [0x27] @ js_nat (startLine + 1)
                              @ js ''p'' @ [0x27, 0x20] @ path @ js '' | head -c '' @ js_int DEFAULT_MAX_BYTES @ js '']'',
                            rd_truncation = Some truncation\<rparr>
                  else if tn_truncated truncation
                  then Inr \<lparr>rd_text = tn_content truncation @ read_notice allLines startLine truncation,
                            rd_truncation = Some truncation\<rparr>
                  else case userLimitedLines of
                      Some n \<Rightarrow>
                        if int startLine + n < int totalFileLines
                        then Inr \<lparr>rd_text = tn_content truncation @ [LF, LF] @ js ''[''
                                    @ js_int (int totalFileLines - (int startLine + n)) @ js '' more lines in file. Use offset=''
                                    @ js_int (int startLine + n + 1) @ js '' to continue.]'', rd_truncation = None\<rparr>
                        else Inr \<lparr>rd_text = tn_content truncation, rd_truncation = None\<rparr>
                    | None \<Rightarrow> Inr \<lparr>rd_text = tn_content truncation, rd_truncation = None\<rparr>)"

datatype image_result = ImageOk string string "js_string list" | ImageFailed js_string  \<comment> \<open>data, MIME type, hints\<close>

text \<open>\<open>processor\<close> is the optional \<open>imageProcessor\<close>, given bytes and MIME type.\<close>

definition read_image :: "(bytes \<Rightarrow> string \<Rightarrow> image_result) option \<Rightarrow> bytes \<Rightarrow> string \<Rightarrow> tool_block list" where
  "read_image processor content mimeType =
     (case processor of
        Some process \<Rightarrow>
          (case process content mimeType of
             ImageFailed problem \<Rightarrow> [TextBlock (js ''Read image file ['' @ js mimeType @ js '']'' @ [LF] @ problem)]
           | ImageOk data mime hints \<Rightarrow>
               [TextBlock (js ''Read image file ['' @ js mime @ js '']''
                  @ (if hints \<noteq> [] then [LF] @ js_join [LF] hints else [])),
                ImageBlock data mime])
      | None \<Rightarrow>
          if mimeType = ''image/bmp''
          then [TextBlock (js ''Read image file [image/bmp]'' @ [LF]
                  @ js ''[Image omitted: configure an imageProcessor to convert BMP images.]'')]
          else [TextBlock (js ''Read image file ['' @ js mimeType @ js '']''), ImageBlock (encodeBase64 content) mimeType])"

record read_env =
  re_buffer :: bool
  re_nfd :: "js_string \<Rightarrow> js_string"
  re_decode :: "bytes \<Rightarrow> js_string"   \<comment> \<open>\<open>new TextDecoder().decode\<close>\<close>
  re_processor :: "(bytes \<Rightarrow> string \<Rightarrow> image_result) option"

definition read_execute ::
  "read_env \<Rightarrow> 'w tool_env \<Rightarrow> js_string \<Rightarrow> int option \<Rightarrow> int option \<Rightarrow>
   ('w, tool_block list \<times> truncation_result option) tool_run" where
  "read_execute renv env path offset limit =
     bindTool (resolveReadToolPath (re_nfd renv) env path) (\<lambda>absolutePath.
     bindTool (getOrThrow (te_readBinaryFile env absolutePath)) (\<lambda>content.
     case detectSupportedImageMimeType content of
       Some mimeType \<Rightarrow> returnTool (read_image (re_processor renv) content mimeType, None)
     | None \<Rightarrow>
         (case read_text (re_buffer renv) path (re_decode renv content) offset limit of
            Inl e \<Rightarrow> throwTool e
          | Inr r \<Rightarrow> returnTool ([TextBlock (rd_text r)], rd_truncation r))))"

section \<open>Changing files\<close>

definition getMutationQueueKey :: "'w tool_env \<Rightarrow> js_string \<Rightarrow> ('w, js_string) tool_run" where
  "getMutationQueueKey env path =
     bindTool (getOrThrow (te_absolutePath env path)) (\<lambda>absolutePath w.
       case te_canonicalPath env absolutePath w of
         (Inr canonical, w') \<Rightarrow> (Inr canonical, w')
       | (Inl e, w') \<Rightarrow>
           if fe_code e = FE_not_found \<or> fe_code e = FE_not_supported then (Inr absolutePath, w')
           else (Inl (ToolFileError e), w'))"

text \<open>A change of a file when its turn in the queue has come.\<close>

definition withFileMutationQueue :: "'w tool_env \<Rightarrow> js_string \<Rightarrow> ('w, 'a) tool_run \<Rightarrow> ('w, 'a) tool_run" where
  "withFileMutationQueue env path fn = bindTool (getMutationQueueKey env path) (\<lambda>_. fn)"

definition write_execute :: "'w tool_env \<Rightarrow> js_string \<Rightarrow> js_string \<Rightarrow> ('w, tool_block list) tool_run" where
  "write_execute env path content =
     bindTool (resolveToolPath env path) (\<lambda>absolutePath.
     withFileMutationQueue env absolutePath
       (bindTool (throw_if_aborted env) (\<lambda>_.
        bindTool (getOrThrow (te_writeFile env absolutePath content)) (\<lambda>_.
        bindTool (throw_if_aborted env) (\<lambda>_.
        returnTool [TextBlock (js ''Successfully wrote '' @ js_nat (length content) @ js '' bytes to '' @ path)])))))"

section \<open>The edit tool\<close>

fun file_error_text :: "file_error_code \<Rightarrow> string" where
  "file_error_text FE_aborted = ''aborted''"
| "file_error_text FE_not_found = ''not_found''"
| "file_error_text FE_permission_denied = ''permission_denied''"
| "file_error_text FE_not_directory = ''not_directory''"
| "file_error_text FE_is_directory = ''is_directory''"
| "file_error_text FE_invalid = ''invalid''"
| "file_error_text FE_not_supported = ''not_supported''"
| "file_error_text FE_unknown = ''unknown''"

definition editAccessError :: "js_string \<Rightarrow> file_error \<Rightarrow> tool_error" where
  "editAccessError path e =
     ToolError (js ''Could not edit file: '' @ path @ js ''. Error code: '' @ js (file_error_text (fe_code e)) @ js ''.'')"

definition orAccessError :: "js_string \<Rightarrow> ('w \<Rightarrow> (file_error + 'a) \<times> 'w) \<Rightarrow> ('w, 'a) tool_run" where
  "orAccessError path op = (\<lambda>w. case op w of (Inl e, w') \<Rightarrow> (Inl (editAccessError path e), w') | (Inr x, w') \<Rightarrow> (Inr x, w'))"

definition validateEditInput :: "edit_text list \<Rightarrow> ('w, unit) tool_run" where
  "validateEditInput edits =
     (if edits = [] then throwTool (ToolError (js ''Edit tool input is invalid. edits must contain at least one replacement.''))
      else returnTool ())"

record edit_details =
  dt_baseContent :: js_string   \<comment> \<open>what \<open>generateDiffString\<close> and \<open>generateUnifiedPatch\<close> are given\<close>
  dt_newContent :: js_string

definition edit_body ::
  "(js_string \<Rightarrow> js_string) \<Rightarrow> 'w tool_env \<Rightarrow> js_string \<Rightarrow> js_string \<Rightarrow> edit_text list \<Rightarrow>
   ('w, tool_block list \<times> edit_details) tool_run" where
  "edit_body nfkc env path absolutePath edits =
     bindTool (throw_if_aborted env) (\<lambda>_.
     bindTool (orAccessError path (te_fileKind env absolutePath)) (\<lambda>kind.
     if kind \<noteq> FK_file \<and> kind \<noteq> FK_symlink
     then throwTool (ToolError (js ''Could not edit file: '' @ path @ js ''. Path is not a file.''))
     else
     bindTool (orAccessError path (te_readTextFile env absolutePath)) (\<lambda>raw.
     bindTool (throw_if_aborted env) (\<lambda>_.
     case stripBom raw of (bom, content) \<Rightarrow>
     case applyEditsToNormalizedContent nfkc (normalizeToLF content) edits path of
       Inl problem \<Rightarrow> throwTool (ToolError problem)
     | Inr applied \<Rightarrow>
         bindTool (throw_if_aborted env) (\<lambda>_.
         bindTool (orAccessError path (te_writeFile env absolutePath
             (bom @ restoreLineEndings (ae_newContent applied) (detectLineEnding content)))) (\<lambda>_.
         bindTool (throw_if_aborted env) (\<lambda>_.
         returnTool ([TextBlock (js ''Successfully replaced '' @ js_nat (length edits) @ js '' block(s) in '' @ path @ js ''.'')],
           \<lparr>dt_baseContent = ae_baseContent applied, dt_newContent = ae_newContent applied\<rparr>))))))))"

definition edit_execute ::
  "(js_string \<Rightarrow> js_string) \<Rightarrow> 'w tool_env \<Rightarrow> js_string \<Rightarrow> edit_text list \<Rightarrow> ('w, tool_block list \<times> edit_details) tool_run" where
  "edit_execute nfkc env path edits =
     bindTool (validateEditInput edits) (\<lambda>_.
     bindTool (resolveToolPath env path) (\<lambda>absolutePath.
     withFileMutationQueue env absolutePath (edit_body nfkc env path absolutePath edits)))"

end
