(* ===== verification/Truncation_Properties.thy ===== *)
theory Truncation_Properties
  imports Truncation
begin

text \<open>
  The properties of truncated output: bytes are those of the UTF-8 encoding, the head and the tail are
  the longest runs of whole lines within both limits, and a cut line loses no whole character.
\<close>

section \<open>Bytes\<close>

lemma utf8_length: "length (utf8_encode s) = sum_list (map (length \<circ> utf8_of) (scalar_values s))"
  by (simp add: utf8_encode_def length_concat comp_def)

lemma surrogate_bytes: "is_high u \<Longrightarrow> \<not> is_low u" "is_high u \<or> is_low u \<Longrightarrow> 0x7FF < unat u"
  by (auto simp: is_high_def is_low_def)

lemma single_bytes:
  "length (utf8_of (single_scalar u)) = (if unat u \<le> 0x7F then 1 else if unat u \<le> 0x7FF then 2 else 3)"
  using unat_16 [of u] surrogate_bytes(2) [of u] by (auto simp: single_scalar_def utf8_of_def)

lemma byte_loop_encode: "byte_loop s = length (utf8_encode s)"
proof (induction s rule: scalar_values.induct)
  case (2 u)
  then show ?case by (simp add: utf8_length single_bytes)
next
  case (3 h l us)
  have "length (utf8_of (0x10000 + (unat h - 0xD800) * 0x400 + (unat l - 0xDC00))) = 4"
    by (simp add: utf8_of_def)
  with 3 surrogate_bytes(2) [of h] show ?case by (auto simp: utf8_length single_bytes)
qed (simp add: utf8_length)

lemma byte_loop_ascii: "\<forall>u \<in> set a. is_ascii u \<Longrightarrow> byte_loop (a @ s) = length a + byte_loop s"
  by (induction a) (simp_all add: is_ascii_def)

lemma utf8ByteLength_encode: "utf8ByteLength buffer s = length (utf8_encode s)"
proof -
  have split: "takeWhile is_ascii s @ drop (length (takeWhile is_ascii s)) s = s"
    by (simp add: dropWhile_eq_drop [symmetric])
  have "byte_loop s = length (takeWhile is_ascii s) + byte_loop (drop (length (takeWhile is_ascii s)) s)"
    using byte_loop_ascii [of "takeWhile is_ascii s" "drop (length (takeWhile is_ascii s)) s"]
    by (auto simp: split dest: set_takeWhileD)
  then show ?thesis
    by (auto simp: utf8ByteLength_def Let_def byte_loop_encode [symmetric])
qed

lemma byte_length [simp]: "utf8ByteLength buffer s = byte_loop s"
  by (simp add: utf8ByteLength_encode byte_loop_encode)

lemma LF_plain: "unat LF \<le> 0x7F" "\<not> is_low LF"
  by (simp_all add: is_low_def)

lemma byte_loop_line: "byte_loop (a @ LF # b) = byte_loop a + 1 + byte_loop b"
proof (induction a rule: byte_loop.induct)
  case (2 u us)
  then show ?case by (cases us) (auto simp: LF_plain)
qed (simp add: LF_plain)

fun lines_bytes :: "js_string list \<Rightarrow> nat" where
  "lines_bytes [] = 0"
| "lines_bytes [l] = byte_loop l"
| "lines_bytes (l # ls) = byte_loop l + 1 + lines_bytes ls"

lemma join_bytes: "byte_loop (js_join [LF] ls) = lines_bytes ls"
  by (induction ls rule: lines_bytes.induct) (simp_all add: byte_loop_line)

lemma lines_bytes_snoc:
  "lines_bytes (ls @ [l]) = lines_bytes ls + (byte_loop l + (if ls \<noteq> [] then 1 else 0))"
  by (induction ls rule: lines_bytes.induct) auto

lemma lines_bytes_Cons:
  "lines_bytes (l # ls) = lines_bytes ls + (byte_loop l + (if ls \<noteq> [] then 1 else 0))"
  by (cases ls) auto

lemma lines_bytes_take: "lines_bytes (take i ls) \<le> lines_bytes (take (Suc i) ls)"
  by (cases "i < length ls") (simp_all add: take_Suc_conv_app_nth lines_bytes_snoc)

section \<open>Lines\<close>

lemma js_lines_not_Nil [simp]: "js_lines s \<noteq> []"
  by (cases s) (auto split: list.splits)

lemma js_join_lines: "js_join [LF] (js_lines s) = s"
proof (induction s)
  case (Cons u us)
  obtain l ls where l: "js_lines us = l # ls" by (cases "js_lines us") auto
  with Cons show ?case by (cases ls) auto
qed simp

lemma js_lines_plain: "l \<in> set (js_lines s) \<Longrightarrow> LF \<notin> set l"
  by (induction s arbitrary: l) (force split: if_splits list.splits)+

lemma js_lines_append: "js_lines (s @ [LF]) = js_lines s @ [[]]"
proof (induction s)
  case (Cons u us)
  then show ?case by (cases "js_lines us") auto
qed simp

text \<open>The lines counted are those of the text less one newline at its end.\<close>

lemma counted_lines:
  "content \<noteq> [] \<Longrightarrow> content = js_join [LF] (splitLinesForCounting content) @ (if last content = LF then [LF] else [])"
proof -
  assume "content \<noteq> []"
  then obtain s u where "content = s @ [u]" by (metis append_butlast_last_id)
  then show ?thesis
    using js_join_lines [of s] js_join_lines [of content] by (simp add: splitLinesForCounting_def Let_def js_lines_append)
qed

lemma counted_lines_not_Nil: "content \<noteq> [] \<Longrightarrow> splitLinesForCounting content \<noteq> []"
proof -
  assume "content \<noteq> []"
  then obtain s u where "content = s @ [u]" by (metis append_butlast_last_id)
  then show ?thesis by (simp add: splitLinesForCounting_def Let_def js_lines_append)
qed

lemma counted_bytes:
  "byte_loop content = lines_bytes (splitLinesForCounting content) + (if content \<noteq> [] \<and> last content = LF then 1 else 0)"
proof (cases "content = []")
  case False
  let ?j = "js_join [LF] (splitLinesForCounting content)"
  have c: "content = ?j @ (if last content = LF then LF # [] else [])" using counted_lines [OF False] by simp
  have "byte_loop (?j @ LF # []) = byte_loop ?j + 1" by (subst byte_loop_line) simp
  with c False show ?thesis
    by (cases "last content = LF") (simp_all add: join_bytes [symmetric] del: byte_loop.simps)
qed (simp add: splitLinesForCounting_def)

section \<open>The loop of the head\<close>

lemma head_loop_result:
  assumes "head_loop buffer m b (drop j ls) (take j ls) (lines_bytes (take j ls)) = (res, n', by)"
    and "int j \<le> m" and "int (lines_bytes (take j ls)) \<le> b" and "j \<le> length ls"
  shows "\<exists>k \<le> length ls. res = take k ls \<and> n' = lines_bytes res \<and> int k \<le> m \<and> int n' \<le> b \<and>
    (by = By_bytes \<longleftrightarrow> k < length ls \<and> int k < m) \<and>
    (k < length ls \<longrightarrow> int k = m \<or> b < int (lines_bytes (take (Suc k) ls)))"
  using assms
proof (induction "length ls - j" arbitrary: j)
  case 0
  then show ?case by (intro exI [of _ "length ls"]) auto
next
  case (Suc d)
  then have less: "j < length ls" by simp
  then have drop: "drop j ls = ls ! j # drop (Suc j) ls" by (simp add: Cons_nth_drop_Suc)
  have take: "take (Suc j) ls = take j ls @ [ls ! j]" using less by (simp add: take_Suc_conv_app_nth)
  have bytes: "lines_bytes (take (Suc j) ls) = lines_bytes (take j ls) + (byte_loop (ls ! j) + (if take j ls \<noteq> [] then 1 else 0))"
    by (simp only: take lines_bytes_snoc)
  have len: "length (take j ls) = j" using less by simp
  have step: "head_loop buffer m b (drop j ls) (take j ls) (lines_bytes (take j ls)) =
      (if int j < m
       then if b < int (lines_bytes (take (Suc j) ls)) then (take j ls, lines_bytes (take j ls), By_bytes)
            else head_loop buffer m b (drop (Suc j) ls) (take (Suc j) ls) (lines_bytes (take (Suc j) ls))
       else (take j ls, lines_bytes (take j ls), By_lines))"
    unfolding drop head_loop.simps len Let_def byte_length bytes [symmetric] take [symmetric] ..
  consider (limit) "int j = m" | (bytes) "int j < m" "b < int (lines_bytes (take (Suc j) ls))"
    | (more) "int j < m" "int (lines_bytes (take (Suc j) ls)) \<le> b"
    using Suc.prems(2) by linarith
  then show ?case
  proof cases
    case more
    then have "head_loop buffer m b (drop (Suc j) ls) (take (Suc j) ls) (lines_bytes (take (Suc j) ls)) = (res, n', by)"
      using Suc.prems(1) step by simp
    from Suc.hyps(1) [OF _ this] Suc.hyps(2) more less show ?thesis by simp
  qed (use Suc.prems step less in \<open>auto intro!: exI [of _ j]\<close>)
qed

section \<open>Cutting a line\<close>

lemma to_well_formed_bytes: "byte_loop (to_well_formed s) = byte_loop s"
  by (simp add: byte_loop_encode utf8_length to_well_formed_def scalar_values_concat scalar_values_scalar)

lemma utf16_lone: "is_high u \<or> is_low u \<Longrightarrow> utf16_of (single_scalar u) = [0xFFFD]"
  by (simp add: single_scalar_def utf16_of_def)

lemma replaceUnpairedSurrogates_well_formed: "replaceUnpairedSurrogates s = to_well_formed s"
proof (induction s rule: scalar_values.induct)
  case (2 u)
  then show ?case using utf16_lone [of u] utf16_of_single [of u] by (auto simp: to_well_formed_def)
next
  case (3 h l us)
  show ?case
  proof (cases "is_high h \<and> is_low l")
    case True
    with 3(1) show ?thesis by (simp add: to_well_formed_def utf16_of_pair)
  next
    case False
    with 3(2) have "replaceUnpairedSurrogates (l # us) = to_well_formed (l # us)" by simp
    with False utf16_lone [of h] utf16_of_single [of h] show ?thesis by (auto simp: to_well_formed_def)
  qed
qed (simp add: to_well_formed_def)

text \<open>A position that does not split a surrogate pair.\<close>

definition char_boundary :: "js_string \<Rightarrow> nat \<Rightarrow> bool" where
  "char_boundary s i \<longleftrightarrow> i \<le> length s \<and> \<not> (0 < i \<and> i < length s \<and> is_high (s ! (i - 1)) \<and> is_low (s ! i))"

lemma well_formed_single:
  "us = [] \<or> \<not> (is_high u \<and> is_low (hd us)) \<Longrightarrow> well_formed (u # us) \<longleftrightarrow> \<not> is_high u \<and> \<not> is_low u \<and> well_formed us"
  by (cases us) auto

lemma byte_loop_single:
  "us = [] \<or> \<not> (is_high u \<and> is_low (hd us)) \<Longrightarrow>
     byte_loop (u # us) = (if unat u \<le> 0x7F then 1 else if unat u \<le> 0x7FF then 2 else 3) + byte_loop us"
  by (cases us) auto

text \<open>One step back from a boundary.\<close>

lemma character_before:
  assumes "char_boundary s i" and "0 < i" and "character_before s i = (k, n, lone)"
  shows "k < i \<and> char_boundary s k \<and> byte_loop (drop k s) = n + byte_loop (drop i s) \<and>
    (well_formed (drop k s) \<longleftrightarrow> \<not> lone \<and> well_formed (drop i s))"
proof -
  have i: "i \<le> length s" "i < length s \<Longrightarrow> is_high (s ! (i - 1)) \<Longrightarrow> \<not> is_low (s ! i)"
    using assms(1,2) by (auto simp: char_boundary_def)
  have one: "drop (i - 1) s = s ! (i - 1) # drop i s"
    using Cons_nth_drop_Suc [of "i - 1" s] i assms(2) by simp
  have apart: "drop i s = [] \<or> \<not> (is_high (s ! (i - 1)) \<and> is_low (hd (drop i s)))"
    using i by (cases "i < length s") (auto simp: hd_drop_conv_nth)
  consider (pair) "is_low (s ! (i - 1))" "1 < i" "is_high (s ! (i - 2))"
    | (low) "is_low (s ! (i - 1))" "1 < i \<Longrightarrow> \<not> is_high (s ! (i - 2))"
    | (high) "is_high (s ! (i - 1))" | (plain) "\<not> is_low (s ! (i - 1))" "\<not> is_high (s ! (i - 1))"
    by blast
  then show ?thesis
  proof cases
    case pair
    then have "(k, n, lone) = (i - 2, 4, False)" using assms(3) by (simp add: character_before_def)
    moreover have "drop (i - 2) s = s ! (i - 2) # s ! (i - 1) # drop i s"
      using Cons_nth_drop_Suc [of "i - 2" s] one i pair(2) by (simp add: numeral_2_eq_2 Suc_diff_Suc)
    ultimately show ?thesis
      using pair i surrogate_bytes(1) [of "s ! (i - 2)"] surrogate_bytes(2) [of "s ! (i - 2)"]
      by (auto simp: char_boundary_def)
  next
    case low
    then have "(k, n, lone) = (i - 1, 3, True)"
      using assms(3) surrogate_bytes(1) [of "s ! (i - 1)"] by (auto simp: character_before_def Let_def split: if_splits)
    with low show ?thesis
      using one apart i assms(2) surrogate_bytes(2) [of "s ! (i - 1)"] well_formed_single [OF apart] byte_loop_single [OF apart]
      by (auto simp: char_boundary_def numeral_2_eq_2)
  next
    case high
    then have "(k, n, lone) = (i - 1, 3, True)"
      using assms(3) surrogate_bytes(1) [of "s ! (i - 1)"] by (auto simp: character_before_def)
    with high show ?thesis
      using one apart i assms(2) surrogate_bytes [of "s ! (i - 1)"] well_formed_single [OF apart] byte_loop_single [OF apart]
      by (auto simp: char_boundary_def)
  next
    case plain
    then have "(k, n, lone) = (i - 1, if unat (s ! (i - 1)) \<le> 0x7F then 1 else if unat (s ! (i - 1)) \<le> 0x7FF then 2 else 3, False)"
      using assms(3) by (auto simp: character_before_def Let_def)
    with plain show ?thesis
      using one apart i assms(2) well_formed_single [OF apart] byte_loop_single [OF apart]
      by (auto simp: char_boundary_def)
  qed
qed

lemma boundary_step:
  assumes "char_boundary s j" and "j < i" and "char_boundary s i" and "character_before s i = (k, n, lone)"
  shows "j \<le> k"
proof -
  from assms(4) have "k = i - 1 \<or> k = i - 2 \<and> is_low (s ! (i - 1)) \<and> is_high (s ! (i - 2))"
    by (auto simp: character_before_def Let_def split: if_splits)
  then show ?thesis
  proof
    assume k: "k = i - 2 \<and> is_low (s ! (i - 1)) \<and> is_high (s ! (i - 2))"
    have "j \<noteq> i - 1 \<or> i = 1" using assms(1,2,3) k
      by (cases "i = 1") (auto simp: char_boundary_def numeral_2_eq_2)
    with k assms(2) show ?thesis by auto
  qed (use assms(2) in auto)
qed

lemma boundary_bytes_mono:
  "char_boundary s i \<Longrightarrow> char_boundary s j \<Longrightarrow> j \<le> i \<Longrightarrow> byte_loop (drop i s) \<le> byte_loop (drop j s)"
proof (induction i rule: less_induct)
  case (less i)
  obtain k n lone where k: "character_before s i = (k, n, lone)" by (metis prod_cases3)
  show ?case
  proof (cases "j = i")
    case False
    with less.prems have i: "0 < i" "j < i" by auto
    note before = character_before [OF less.prems(1) i(1) k]
    have "byte_loop (drop k s) \<le> byte_loop (drop j s)"
      using less.IH [of k] before less.prems(2) boundary_step [OF less.prems(2) i(2) less.prems(1) k] by blast
    with before show ?thesis by simp
  qed simp
qed

text \<open>The cut starts at the first boundary from which the rest fits.\<close>

definition longest_suffix :: "js_string \<Rightarrow> int \<Rightarrow> nat \<Rightarrow> bool" where
  "longest_suffix s maxBytes start \<longleftrightarrow>
     char_boundary s start \<and> int (byte_loop (drop start s)) \<le> maxBytes \<and>
     (\<forall>j < start. char_boundary s j \<longrightarrow> maxBytes < int (byte_loop (drop j s)))"

lemma byte_cut_result:
  assumes "byte_cut s b i (byte_loop (drop i s)) (\<not> well_formed (drop i s)) = (start, needs)"
    and "char_boundary s i" and "int (byte_loop (drop i s)) \<le> b"
  shows "longest_suffix s b start \<and> needs = (\<not> well_formed (drop start s))"
  using assms
proof (induction i rule: less_induct)
  case (less i)
  show ?case
  proof (cases "i = 0")
    case True
    with less.prems show ?thesis by (simp add: byte_cut.simps [of s b 0] longest_suffix_def)
  next
    case False
    obtain k n lone where k: "character_before s i = (k, n, lone)" by (metis prod_cases3)
    note before = character_before [OF less.prems(2) _ k]
    show ?thesis
    proof (cases "b < int (byte_loop (drop i s) + n)")
      case True
      with less.prems(1) k False have "start = i" "needs = (\<not> well_formed (drop i s))"
        by (auto simp: byte_cut.simps [of s b i])
      moreover have "b < int (byte_loop (drop j s))" if "j < i" "char_boundary s j" for j
        using boundary_bytes_mono [of s k j] boundary_step [OF that(2,1) less.prems(2) k] before False that True by auto
      ultimately show ?thesis using less.prems by (simp add: longest_suffix_def)
    next
      case fits: False
      then have "byte_cut s b k (byte_loop (drop k s)) (\<not> well_formed (drop k s)) = (start, needs)"
        using less.prems(1) k False before by (simp add: byte_cut.simps [of s b i] add.commute disj_commute)
      with less.IH [of k] before False fits show ?thesis by (simp add: add.commute)
    qed
  qed
qed

lemma boundary_end: "char_boundary s (length s)"
  by (simp add: char_boundary_def)

lemma byte_loop_pos: "s \<noteq> [] \<Longrightarrow> 0 < byte_loop s"
  by (cases s) (auto split: list.splits)

lemma truncated_string:
  assumes "0 \<le> b"
  shows "\<exists>start. truncateStringToBytesFromEnd s b = to_well_formed (drop start s) \<and> longest_suffix s b start"
proof (cases "b = 0")
  case True
  have "longest_suffix s b (length s)"
    using True byte_loop_pos by (force simp: longest_suffix_def boundary_end)
  then show ?thesis
    using True by (intro exI [of _ "length s"]) (simp add: truncateStringToBytesFromEnd_def to_well_formed_def)
next
  case False
  obtain start needs where cut: "byte_cut s b (length s) 0 False = (start, needs)" by (metis surj_pair)
  then have "longest_suffix s b start \<and> needs = (\<not> well_formed (drop start s))"
    using byte_cut_result [of s b "length s" start needs] assms boundary_end by simp
  moreover from this have "truncateStringToBytesFromEnd s b = to_well_formed (drop start s)"
    using False assms cut to_well_formed_id [of "drop start s", THEN iffD2, symmetric]
    by (cases "well_formed (drop start s)") (simp_all add: truncateStringToBytesFromEnd_def replaceUnpairedSurrogates_well_formed)
  ultimately show ?thesis by blast
qed

section \<open>The loop of the tail\<close>

lemma tail_loop_result:
  assumes "tail_loop buffer m b (rev (take i ls)) (drop i ls) (lines_bytes (drop i ls)) = (res, n', by, part)"
    and "int (length ls - i) \<le> m" and "int (lines_bytes (drop i ls)) \<le> b" and "i \<le> length ls" and "0 \<le> b"
  shows "n' = lines_bytes res \<and> int (length res) \<le> m \<and> int n' \<le> b \<and>
    (if part then 0 < m \<and> ls \<noteq> [] \<and> by = By_bytes \<and> b < int (byte_loop (last ls)) \<and> res = [truncateStringToBytesFromEnd (last ls) b]
     else \<exists>k \<le> length ls. res = drop k ls \<and> (by = By_bytes \<longleftrightarrow> 0 < k \<and> int (length res) < m) \<and>
       (0 < k \<longrightarrow> int (length res) = m \<or> b < int (lines_bytes (drop (k - 1) ls))))"
  using assms(1-4)
proof (induction i)
  case 0
  then show ?case by auto
next
  case (Suc i)
  let ?l = "ls ! i" and ?out = "drop (Suc i) ls"
  have i: "i < length ls" using Suc.prems by simp
  then have take: "rev (take (Suc i) ls) = ?l # rev (take i ls)" by (simp add: take_Suc_conv_app_nth)
  have drop: "drop i ls = ?l # ?out" using i by (simp add: Cons_nth_drop_Suc)
  have bytes: "lines_bytes (drop i ls) = lines_bytes ?out + (byte_loop ?l + (if ?out \<noteq> [] then 1 else 0))"
    unfolding drop by (rule lines_bytes_Cons)
  have len: "length ?out = length ls - Suc i" by simp
  have step: "tail_loop buffer m b (rev (take (Suc i) ls)) ?out (lines_bytes ?out) =
      (if int (length ?out) < m
       then if b < int (lines_bytes (drop i ls))
            then if ?out = [] then ([truncateStringToBytesFromEnd ?l b], byte_loop (truncateStringToBytesFromEnd ?l b), By_bytes, True)
                 else (?out, lines_bytes ?out, By_bytes, False)
            else tail_loop buffer m b (rev (take i ls)) (drop i ls) (lines_bytes (drop i ls))
       else (?out, lines_bytes ?out, By_lines, False))"
    unfolding take tail_loop.simps Let_def byte_length bytes [symmetric] drop [symmetric] ..
  consider (limit) "int (length ?out) = m" | (cut) "int (length ?out) < m" "b < int (lines_bytes (drop i ls))" "?out = []"
    | (bytes) "int (length ?out) < m" "b < int (lines_bytes (drop i ls))" "?out \<noteq> []"
    | (more) "int (length ?out) < m" "int (lines_bytes (drop i ls)) \<le> b"
    using Suc.prems(2) len by linarith
  then show ?case
  proof cases
    case limit
    with Suc.prems step i show ?thesis by (auto intro!: exI [of _ "Suc i"])
  next
    case cut
    then have "i = length ls - 1" using i by simp
    then have "last ls = ?l" using i by (metis last_conv_nth list.size(3) not_less0)
    moreover have "int (byte_loop (truncateStringToBytesFromEnd ?l b)) \<le> b"
      using truncated_string [OF assms(5), of ?l] by (auto simp: longest_suffix_def to_well_formed_bytes)
    ultimately show ?thesis using cut Suc.prems(1) step i bytes by auto
  next
    case bytes': bytes
    with Suc.prems step i show ?thesis by (auto intro!: exI [of _ "Suc i"])
  next
    case more
    with Suc.prems step i show ?thesis by (intro Suc.IH) auto
  qed
qed

text \<open>Evaluation on concrete texts.\<close>

lemmas demo_eval = truncateHead_def truncateTail_def splitLinesForCounting_def js_def default_to_def
  DEFAULT_MAX_LINES_def DEFAULT_MAX_BYTES_def untruncated_def truncateStringToBytesFromEnd_def byte_cut.simps
  character_before_def is_high_def is_low_def Let_def of_char_def

section \<open>The properties\<close>

text \<open>The limits in force.\<close>

definition line_limit :: "int option \<Rightarrow> int" where
  "line_limit = default_to DEFAULT_MAX_LINES"

definition byte_limit :: "int option \<Rightarrow> int" where
  "byte_limit = default_to DEFAULT_MAX_BYTES"

definition within_limits :: "truncation_result \<Rightarrow> int \<Rightarrow> int \<Rightarrow> bool" where
  "within_limits r m b \<longleftrightarrow> int (tn_outputLines r) \<le> m \<and> int (tn_outputBytes r) \<le> b \<and>
     tn_outputBytes r = length (utf8_encode (tn_content r))"

lemma head_longest_run:
  assumes "truncateHead buffer content om ob = Some r" and "0 \<le> line_limit om" and "0 \<le> byte_limit ob"
  shows "within_limits r (line_limit om) (byte_limit ob) \<and> \<not> tn_lastLinePartial r \<and>
    (tn_firstLineExceedsLimit r \<longleftrightarrow>
       (\<exists>l ls. splitLinesForCounting content = l # ls \<and> byte_limit ob < int (length (utf8_encode l)))) \<and>
    (if tn_truncated r
     then \<exists>k \<le> length (splitLinesForCounting content).
       tn_outputLines r = k \<and> tn_content r = js_join [LF] (take k (splitLinesForCounting content)) \<and>
       (k < length (splitLinesForCounting content) \<longrightarrow> int k = line_limit om \<or>
          byte_limit ob < int (length (utf8_encode (js_join [LF] (take (Suc k) (splitLinesForCounting content))))))
     else tn_content r = content)"
proof -
  let ?ls = "splitLinesForCounting content" and ?m = "line_limit om" and ?b = "byte_limit ob"
  note lim = line_limit_def [symmetric] byte_limit_def [symmetric]
  show ?thesis
  proof (cases "int (length ?ls) \<le> ?m \<and> int (byte_loop content) \<le> ?b")
    case True
    then have r: "r = untruncated content (length ?ls) (byte_loop content) ?m ?b"
      using assms(1) by (simp add: truncateHead_def Let_def lim)
    have "int (byte_loop l) \<le> ?b" if "?ls = l # ls" for l ls
      using counted_bytes [of content] True that by (cases ls) (auto split: if_splits)
    with True show ?thesis by (auto simp: r untruncated_def within_limits_def byte_loop_encode [symmetric])
  next
    case False
    then obtain l ls where ls: "?ls = l # ls" using assms(1) by (auto simp: truncateHead_def Let_def lim split: list.splits)
    show ?thesis
    proof (cases "?b < int (byte_loop l)")
      case True
      with assms(1) False ls have "tn_content r = [] \<and> tn_truncated r \<and> tn_outputLines r = 0 \<and> tn_outputBytes r = 0 \<and>
          \<not> tn_lastLinePartial r \<and> tn_firstLineExceedsLimit r"
        by (auto simp: truncateHead_def Let_def lim)
      with True assms(2,3) ls show ?thesis
        by (auto simp: within_limits_def byte_loop_encode [symmetric])
    next
      case first: False
      obtain res n by' where loop: "head_loop buffer ?m ?b ?ls [] 0 = (res, n, by')" by (metis prod_cases3)
      then have r: "tn_content r = js_join [LF] res \<and> tn_truncated r \<and> tn_outputLines r = length res \<and>
          tn_outputBytes r = byte_loop (js_join [LF] res) \<and> \<not> tn_lastLinePartial r \<and> \<not> tn_firstLineExceedsLimit r"
        using assms(1) False first ls by (auto simp: truncateHead_def Let_def lim)
      have "head_loop buffer ?m ?b (drop 0 ?ls) (take 0 ?ls) (lines_bytes (take 0 ?ls)) = (res, n, by')"
        using loop by simp
      from head_loop_result [OF this] assms(2,3) obtain k where
        k: "k \<le> length ?ls" "res = take k ?ls" "n = lines_bytes res" "int k \<le> ?m" "int n \<le> ?b"
          "k < length ?ls \<longrightarrow> int k = ?m \<or> ?b < int (lines_bytes (take (Suc k) ?ls))"
        by auto
      then have "within_limits r ?m ?b"
        using r by (simp add: within_limits_def join_bytes byte_loop_encode [symmetric])
      moreover have "\<exists>k \<le> length ?ls. tn_outputLines r = k \<and> tn_content r = js_join [LF] (take k ?ls) \<and>
          (k < length ?ls \<longrightarrow> int k = ?m \<or> ?b < int (length (utf8_encode (js_join [LF] (take (Suc k) ?ls)))))"
        using k r by (intro exI [of _ k]) (simp add: byte_loop_encode [symmetric] join_bytes)
      ultimately show ?thesis
        using r first ls by (auto simp: byte_loop_encode [symmetric])
    qed
  qed
qed

text \<open>
  C26. The head of a text: within both limits and whole lines only, it is the longest run of first lines
  that fits, the whole text unchanged if that fits, and nothing exactly when the first line alone is too
  long. Bytes are those of the UTF-8 encoding whatever the runtime.
\<close>

theorem head_is_longest:
  assumes "truncateHead buffer content om ob = Some r" and "0 \<le> line_limit om" and "0 \<le> byte_limit ob"
  shows "within_limits r (line_limit om) (byte_limit ob) \<and> \<not> tn_lastLinePartial r \<and>
    (tn_firstLineExceedsLimit r \<longleftrightarrow>
       (\<exists>l ls. splitLinesForCounting content = l # ls \<and> byte_limit ob < int (length (utf8_encode l)))) \<and>
    (if tn_truncated r
     then \<exists>k \<le> length (splitLinesForCounting content).
       tn_outputLines r = k \<and> tn_content r = js_join [LF] (take k (splitLinesForCounting content)) \<and>
       (k < length (splitLinesForCounting content) \<longrightarrow> int k = line_limit om \<or>
          byte_limit ob < int (length (utf8_encode (js_join [LF] (take (Suc k) (splitLinesForCounting content))))))
     else tn_content r = content)"
  by (rule head_longest_run [OF assms])

theorem head_is_longest_witness:
  "\<exists>r. truncateHead False (js ''ab'' @ [LF] @ js ''cd'' @ [LF] @ js ''ef'') (Some 9) (Some 5) = Some r \<and>
     tn_content r = js ''ab'' @ [LF] @ js ''cd'' \<and> within_limits r 9 5"
proof -
  have run: "map_option tn_content (truncateHead False (js ''ab'' @ [LF] @ js ''cd'' @ [LF] @ js ''ef'') (Some 9) (Some 5)) =
      Some (js ''ab'' @ [LF] @ js ''cd'')"
    by code_simp
  then obtain r where r: "truncateHead False (js ''ab'' @ [LF] @ js ''cd'' @ [LF] @ js ''ef'') (Some 9) (Some 5) = Some r"
    and "tn_content r = js ''ab'' @ [LF] @ js ''cd''"
    by auto
  with head_is_longest [OF r] show ?thesis by (simp add: line_limit_def byte_limit_def default_to_def)
qed

text \<open>
  C27. The tail of a text: within both limits, it is the longest run of last lines that fits, the whole
  text unchanged if that fits; only a last line that is too long by itself is cut, and then at the
  first character from which it fits, so that no character is split.
\<close>

theorem tail_is_longest:
  assumes "truncateTail buffer content om ob = r" and "0 \<le> line_limit om" and "0 \<le> byte_limit ob"
  shows "within_limits r (line_limit om) (byte_limit ob) \<and> \<not> tn_firstLineExceedsLimit r \<and>
    (if tn_lastLinePartial r
     then tn_truncated r \<and> tn_outputLines r = 1 \<and> splitLinesForCounting content \<noteq> [] \<and>
       (\<exists>start. tn_content r = to_well_formed (drop start (last (splitLinesForCounting content))) \<and> 0 < start \<and>
          longest_suffix (last (splitLinesForCounting content)) (byte_limit ob) start)
     else if tn_truncated r
     then \<exists>k \<le> length (splitLinesForCounting content).
       tn_outputLines r = length (splitLinesForCounting content) - k \<and>
       tn_content r = js_join [LF] (drop k (splitLinesForCounting content)) \<and>
       (0 < k \<longrightarrow> int (tn_outputLines r) = line_limit om \<or>
          byte_limit ob < int (length (utf8_encode (js_join [LF] (drop (k - 1) (splitLinesForCounting content))))))
     else tn_content r = content)"
proof -
  let ?ls = "splitLinesForCounting content" and ?m = "line_limit om" and ?b = "byte_limit ob"
  note lim = line_limit_def [symmetric] byte_limit_def [symmetric]
  show ?thesis
  proof (cases "int (length ?ls) \<le> ?m \<and> int (byte_loop content) \<le> ?b")
    case True
    then have "r = untruncated content (length ?ls) (byte_loop content) ?m ?b"
      using assms(1) by (simp add: truncateTail_def Let_def lim)
    with True show ?thesis by (simp add: untruncated_def within_limits_def byte_loop_encode [symmetric])
  next
    case False
    obtain res n by' part where loop: "tail_loop buffer ?m ?b (rev ?ls) [] 0 = (res, n, by', part)" by (metis prod_cases4)
    then have r: "tn_content r = js_join [LF] res \<and> tn_truncated r \<and> tn_outputLines r = length res \<and>
        tn_outputBytes r = byte_loop (js_join [LF] res) \<and> tn_lastLinePartial r = part \<and> \<not> tn_firstLineExceedsLimit r"
      using assms(1) False by (auto simp: truncateTail_def Let_def lim)
    have "tail_loop buffer ?m ?b (rev (take (length ?ls) ?ls)) (drop (length ?ls) ?ls) (lines_bytes (drop (length ?ls) ?ls)) =
        (res, n, by', part)"
      using loop by simp
    note result = tail_loop_result [OF this _ _ _ assms(3)]
    have within: "within_limits r ?m ?b"
      using result r assms(2,3) by (simp add: within_limits_def join_bytes byte_loop_encode [symmetric])
    show ?thesis
    proof (cases part)
      case True
      with result assms(2,3) have part: "?ls \<noteq> []" "?b < int (byte_loop (last ?ls))" "res = [truncateStringToBytesFromEnd (last ?ls) ?b]"
        by auto
      obtain start where start: "truncateStringToBytesFromEnd (last ?ls) ?b = to_well_formed (drop start (last ?ls))"
        "longest_suffix (last ?ls) ?b start"
        using truncated_string [OF assms(3)] by blast
      with part(2) have "0 < start" by (cases start) (auto simp: longest_suffix_def)
      with start part True r within show ?thesis by auto
    next
      case part: False
      with result assms(2,3) obtain k where "k \<le> length ?ls" "res = drop k ?ls"
        "0 < k \<longrightarrow> int (length res) = ?m \<or> ?b < int (lines_bytes (drop (k - 1) ?ls))"
        by fastforce
      with part r within show ?thesis by (auto simp: byte_loop_encode [symmetric] join_bytes intro!: exI [of _ k])
    qed
  qed
qed

theorem tail_is_longest_witness:
  "tn_content (truncateTail True (js ''abc'' @ [0xD83D, 0xDE00, 0x62]) (Some 9) (Some 4)) = js ''b'' \<and>
   tn_lastLinePartial (truncateTail True (js ''abc'' @ [0xD83D, 0xDE00, 0x62]) (Some 9) (Some 4)) \<and>
   within_limits (truncateTail True (js ''abc'' @ [0xD83D, 0xDE00, 0x62]) (Some 9) (Some 4)) 9 4"
proof -
  have "tn_content (truncateTail True (js ''abc'' @ [0xD83D, 0xDE00, 0x62]) (Some 9) (Some 4)) = js ''b'' \<and>
      tn_lastLinePartial (truncateTail True (js ''abc'' @ [0xD83D, 0xDE00, 0x62]) (Some 9) (Some 4))"
    by (simp add: demo_eval)
  with tail_is_longest [OF refl, of "Some 9" "Some 4" True "js ''abc'' @ [0xD83D, 0xDE00, 0x62]"] show ?thesis
    by (simp add: line_limit_def byte_limit_def default_to_def)
qed

text \<open>
  The field \<open>truncatedBy\<close> names the line limit although only the byte limit was hit: when no line but the
  final newline is lost, and when a single line is all that is wanted and is cut.
\<close>

lemma truncated_by_lines:
  "map_option tn_truncatedBy (truncateHead buffer (js ''abc'' @ [LF]) None (Some 3)) = Some (Some By_lines)"
  "tn_truncatedBy (truncateTail buffer (js ''abcd'') (Some 1) (Some 3)) = Some By_lines"
  by (simp_all add: demo_eval)

end
