(* ===== verification/Edit_Properties.thy ===== *)
theory Edit_Properties
  imports Text_Edits
begin

text \<open>
  The properties of text edits: replacements applied from the last to the first are the simultaneous
  replacement, an exact edit changes nothing else, a fuzzy one restores every line it does not touch,
  and uniform line endings survive.
\<close>

section \<open>Searching\<close>

lemma index_of_Some:
  "index_of pat s = Some i \<Longrightarrow> s = take i s @ pat @ drop (i + length pat) s \<and> take (length pat) (drop i s) = pat"
proof (induction s arbitrary: i)
  case (Cons u us)
  show ?case
  proof (cases "prefix pat (u # us)")
    case True
    with Cons.prems show ?thesis by (auto simp: prefix_def)
  next
    case False
    with Cons.prems obtain k where "index_of pat us = Some k" "i = Suc k" by auto
    with Cons.IH [of k] show ?thesis by auto
  qed
qed (auto split: if_splits)

section \<open>Replacements\<close>

text \<open>The text from \<open>p\<close> to \<open>q\<close> with replacements applied side by side.\<close>

fun replaced :: "nat \<Rightarrow> nat \<Rightarrow> js_string \<Rightarrow> 'a text_replacement_scheme list \<Rightarrow> js_string" where
  "replaced p q c [] = take (q - p) (drop p c)"
| "replaced p q c (r # rs) =
     take (rp_matchIndex r - p) (drop p c) @ rp_newText r @ replaced (rp_matchIndex r + rp_matchLength r) q c rs"

text \<open>Sorted and disjoint between \<open>p\<close> and \<open>q\<close>.\<close>

fun disjoint_between :: "nat \<Rightarrow> nat \<Rightarrow> 'a text_replacement_scheme list \<Rightarrow> bool" where
  "disjoint_between p q [] = (p \<le> q)"
| "disjoint_between p q (r # rs) = (p \<le> rp_matchIndex r \<and> disjoint_between (rp_matchIndex r + rp_matchLength r) q rs)"

lemma disjoint_between_le: "disjoint_between p q rs \<Longrightarrow> p \<le> q"
  by (induction rs arbitrary: p) force+

lemma take_slice:
  "i \<le> p \<Longrightarrow> p \<le> m \<Longrightarrow> take (p - i) (drop i c) @ take (m - p) (drop p c) = take (m - i) (drop i c)"
  using take_add [of "p - i" "m - p" "drop i c"] by simp

lemma applyReplacements_replaced:
  assumes "disjoint_between p q rs" and "off \<le> p" and "q \<le> length c"
  shows "applyReplacements (take (q - off) (drop off c)) rs (int off) = take (p - off) (drop off c) @ replaced p q c rs"
  using assms
proof (induction rs arbitrary: p)
  case Nil
  then show ?case by (simp add: applyReplacements_def take_slice)
next
  case (Cons r rs)
  let ?i = "rp_matchIndex r" and ?e = "rp_matchIndex r + rp_matchLength r"
  have e: "p \<le> ?i" "disjoint_between ?e q rs" "?e \<le> q" using Cons.prems disjoint_between_le by auto
  then have rest: "applyReplacements (take (q - off) (drop off c)) rs (int off) = take (?e - off) (drop off c) @ replaced ?e q c rs"
    using Cons.IH [of ?e] Cons.prems by simp
  have int: "nat (int ?i - int off) = ?i - off" "nat (int ?i - int off + int (rp_matchLength r)) = ?e - off"
    using e(1) Cons.prems(2) by linarith+
  have len: "length (take (?e - off) (drop off c)) = ?e - off" using e(3) Cons.prems(3) by simp
  have "applyReplacements (take (q - off) (drop off c)) (r # rs) (int off) =
      replace_one (int off) r (take (?e - off) (drop off c) @ replaced ?e q c rs)"
    unfolding rest [symmetric] by (simp add: applyReplacements_def)
  also have "\<dots> = take (?i - off) (drop off c) @ rp_newText r @ replaced ?e q c rs"
    unfolding replace_one_def Let_def substring_to_def substring_from_def int
    using len e Cons.prems by (simp add: min_def)
  also have "\<dots> = take (p - off) (drop off c) @ replaced p q c (r # rs)"
    using take_slice [of off p ?i c] e(1) Cons.prems(2) by simp
  finally show ?case .
qed

lemma replaced_append:
  "disjoint_between p m rs \<Longrightarrow> disjoint_between m q rs' \<Longrightarrow> replaced p q c (rs @ rs') = replaced p m c rs @ replaced m q c rs'"
proof (induction rs arbitrary: p)
  case Nil
  show ?case
  proof (cases rs')
    case Nil': Nil
    with Nil take_slice [of p m q c] show ?thesis by simp
  next
    case (Cons r rs)
    with Nil take_slice [of p m "rp_matchIndex r" c] show ?thesis by (simp add: append_assoc [symmetric] del: append_assoc)
  qed
qed simp

lemma disjoint_between_append:
  "disjoint_between p q (rs @ rs') \<longleftrightarrow> (\<exists>m. disjoint_between p m rs \<and> disjoint_between m q rs')"
proof (induction rs arbitrary: p)
  case Nil
  show ?case
  proof (cases rs')
    case Nil
    then show ?thesis by auto
  next
    case (Cons r rs)
    then show ?thesis by (auto intro: order_trans)
  qed
qed simp

lemma disjoint_between_mono: "disjoint_between p q rs \<Longrightarrow> q \<le> q' \<Longrightarrow> disjoint_between p q' rs"
  by (induction rs arbitrary: p) auto

lemma applyReplacements_whole:
  "disjoint_between 0 (length c) rs \<Longrightarrow> applyReplacements c rs 0 = replaced 0 (length c) c rs"
  using applyReplacements_replaced [of 0 "length c" rs 0 c] by simp

section \<open>Exact edits\<close>

text \<open>Texts between gaps: \<open>g0 @ p0 @ g1 @ p1 @ ... @ last\<close>.\<close>

definition woven :: "js_string list \<Rightarrow> js_string list \<Rightarrow> js_string \<Rightarrow> js_string" where
  "woven gaps parts end_text = concat (map2 (@) gaps parts) @ end_text"

definition edit_at :: "js_string \<Rightarrow> matched_edit \<Rightarrow> edit_text" where
  "edit_at c m = \<lparr>ed_oldText = take (rp_matchLength m) (drop (rp_matchIndex m) c), ed_newText = rp_newText m\<rparr>"

lemma woven_replaced:
  assumes "disjoint_between p q ms" and "q \<le> length c"
  shows "\<exists>gaps end_text. length gaps = length ms \<and>
    take (q - p) (drop p c) = woven gaps (map (ed_oldText \<circ> edit_at c) ms) end_text \<and>
    replaced p q c ms = woven gaps (map (ed_newText \<circ> edit_at c) ms) end_text"
  using assms(1)
proof (induction ms arbitrary: p)
  case Nil
  then show ?case by (simp add: woven_def)
next
  case (Cons m ms)
  let ?i = "rp_matchIndex m" and ?e = "rp_matchIndex m + rp_matchLength m"
  from Cons.prems have e: "p \<le> ?i" "disjoint_between ?e q ms" "?e \<le> q" using disjoint_between_le by auto
  from Cons.IH [OF e(2)] obtain gaps end_text where IH: "length gaps = length ms"
    "take (q - ?e) (drop ?e c) = woven gaps (map (ed_oldText \<circ> edit_at c) ms) end_text"
    "replaced ?e q c ms = woven gaps (map (ed_newText \<circ> edit_at c) ms) end_text"
    by blast
  let ?g = "take (?i - p) (drop p c)"
  have "take (q - p) (drop p c) = ?g @ take (?e - ?i) (drop ?i c) @ take (q - ?e) (drop ?e c)"
    using take_slice [of p ?i q c] take_slice [of ?i ?e q c] e by simp
  then have "take (q - p) (drop p c) = woven (?g # gaps) (map (ed_oldText \<circ> edit_at c) (m # ms)) end_text"
    using IH by (simp add: woven_def edit_at_def)
  moreover have "replaced p q c (m # ms) = woven (?g # gaps) (map (ed_newText \<circ> edit_at c) (m # ms)) end_text"
    using IH by (simp add: woven_def edit_at_def)
  ultimately show ?case using IH(1) by (intro exI [of _ "?g # gaps"] exI [of _ end_text]) (simp add: comp_def)
qed

lemma match_edits_exact:
  assumes "match_edits nfkc c path n i es = Inr ms"
    and "\<forall>e \<in> set es. \<not> fm_usedFuzzyMatch (fuzzyFindText nfkc c (ed_oldText e))"
  shows "map (edit_at c) ms = es \<and> (\<forall>m \<in> set ms. rp_matchIndex m + rp_matchLength m \<le> length c)"
  using assms
proof (induction es arbitrary: i ms)
  case (Cons e es)
  let ?r = "fuzzyFindText nfkc c (ed_oldText e)"
  from Cons.prems obtain ms' where found: "fm_found ?r" and rest: "match_edits nfkc c path n (Suc i) es = Inr ms'"
    and ms: "ms = \<lparr>rp_matchIndex = fm_index ?r, rp_matchLength = fm_matchLength ?r, rp_newText = ed_newText e, rp_editIndex = i\<rparr> # ms'"
    by (auto simp: Let_def split: if_splits sum.splits)
  from found Cons.prems(2) obtain k where k: "index_of (ed_oldText e) c = Some k"
    "fm_index ?r = k" "fm_matchLength ?r = length (ed_oldText e)"
    by (auto simp: fuzzyFindText_def Let_def split: option.splits)
  with Cons.IH [OF rest] Cons.prems(2) index_of_Some [OF k(1)] index_of_bound [OF k(1)] ms show ?case
    by (simp add: edit_at_def)
qed simp

lemma overlaps_disjoint:
  assumes "check_overlaps path ms = Inr ()" and "\<forall>m \<in> set ms. rp_matchIndex m + rp_matchLength m \<le> n"
    and "ms \<noteq> [] \<Longrightarrow> p \<le> rp_matchIndex (hd ms)" and "p \<le> n"
  shows "disjoint_between p n ms"
  using assms by (induction path ms arbitrary: p rule: check_overlaps.induct) (auto split: if_splits)

lemma matched_disjoint:
  assumes "check_overlaps path (sort_key rp_matchIndex ms) = Inr ()"
    and "\<forall>m \<in> set ms. rp_matchIndex m + rp_matchLength m \<le> n"
  shows "disjoint_between 0 n (sort_key rp_matchIndex ms)"
  using assms by (intro overlaps_disjoint [OF assms(1)]) auto

text \<open>What a successful application went through.\<close>

lemma applied_edits_parts:
  assumes "applyEditsToNormalizedContent nfkc c es path = Inr r"
  obtains base ms where "base = (if uses_fuzzy_match nfkc c (map normalize_edit es) then normalizeForFuzzyMatch nfkc c else c)"
    "match_edits nfkc base path (length es) 0 (map normalize_edit es) = Inr ms"
    "check_overlaps path (sort_key rp_matchIndex ms) = Inr ()"
    "(if uses_fuzzy_match nfkc c (map normalize_edit es)
      then applyReplacementsPreservingUnchangedLines c base (sort_key rp_matchIndex ms) = Inr (ae_newContent r)
      else ae_newContent r = applyReplacements base (sort_key rp_matchIndex ms) 0)"
    "ae_baseContent r = c" "ae_newContent r \<noteq> c"
  using assms
  by (auto simp: applyEditsToNormalizedContent_def andThen_def Let_def split: sum.splits if_splits)

text \<open>
  C24. Exact edits are a simultaneous replacement: when every old text occurs as it is, a successful
  application only replaces each old text by its new text at the place of its match; the edits are taken in the order
  of their places, and all text between is kept unit by unit.
\<close>

theorem exact_edits_replace:
  assumes "applyEditsToNormalizedContent nfkc content edits path = Inr r"
    and "\<not> uses_fuzzy_match nfkc content (map normalize_edit edits)"
  shows "\<exists>es gaps end_text. mset es = mset (map normalize_edit edits) \<and> length gaps = length es \<and>
    content = woven gaps (map ed_oldText es) end_text \<and>
    ae_newContent r = woven gaps (map ed_newText es) end_text \<and>
    ae_baseContent r = content \<and> ae_newContent r \<noteq> content"
proof -
  obtain base ms where parts: "base = (if uses_fuzzy_match nfkc content (map normalize_edit edits)
        then normalizeForFuzzyMatch nfkc content else content)"
    "match_edits nfkc base path (length edits) 0 (map normalize_edit edits) = Inr ms"
    "check_overlaps path (sort_key rp_matchIndex ms) = Inr ()"
    "(if uses_fuzzy_match nfkc content (map normalize_edit edits)
      then applyReplacementsPreservingUnchangedLines content base (sort_key rp_matchIndex ms) = Inr (ae_newContent r)
      else ae_newContent r = applyReplacements base (sort_key rp_matchIndex ms) 0)"
    "ae_baseContent r = content" "ae_newContent r \<noteq> content"
    by (rule applied_edits_parts [OF assms(1)])
  then have base: "base = content" and new: "ae_newContent r = applyReplacements content (sort_key rp_matchIndex ms) 0"
    using assms(2) by auto
  have ms: "map (edit_at content) ms = map normalize_edit edits" "\<forall>m \<in> set ms. rp_matchIndex m + rp_matchLength m \<le> length content"
    using match_edits_exact [OF parts(2) [unfolded base]] assms(2) by (auto simp: uses_fuzzy_match_def list_ex_iff)
  let ?ms = "sort_key rp_matchIndex ms"
  have disjoint: "disjoint_between 0 (length content) ?ms" by (rule matched_disjoint [OF parts(3) ms(2)])
  from woven_replaced [OF this order_refl] obtain gaps end_text where w: "length gaps = length ?ms"
    "content = woven gaps (map (ed_oldText \<circ> edit_at content) ?ms) end_text"
    "replaced 0 (length content) content ?ms = woven gaps (map (ed_newText \<circ> edit_at content) ?ms) end_text"
    by auto
  have "mset (map (edit_at content) ?ms) = mset (map normalize_edit edits)" by (simp flip: ms(1))
  with w parts(5,6) new applyReplacements_whole [OF disjoint] show ?thesis
    by (intro exI [of _ "map (edit_at content) ?ms"] exI [of _ gaps] exI [of _ end_text]) simp
qed

definition demo_edit :: "string \<Rightarrow> string \<Rightarrow> edit_text" where
  "demo_edit old new = \<lparr>ed_oldText = js old, ed_newText = js new\<rparr>"

definition new_content :: "js_string + applied_edits \<Rightarrow> js_string option" where
  "new_content r = (case r of Inl _ \<Rightarrow> None | Inr a \<Rightarrow> Some (ae_newContent a))"

lemmas edit_eval = applyEditsToNormalizedContent_def andThen_def Let_def demo_edit_def normalize_edit_def normalizeToLF_def
  uses_fuzzy_match_def fuzzyFindText_def countOccurrences_def split_count_def occurrences.simps normalizeForFuzzyMatch_def
  trimEnd_def is_space_def normalize_unit_def js_def of_char_def applyReplacements_def replace_one_def substring_to_def
  substring_from_def new_content_def

theorem exact_edits_replace_witness:
  "\<exists>es gaps end_text. mset es = mset (map normalize_edit [demo_edit ''cd'' ''x'', demo_edit ''a'' ''yy'']) \<and>
     js ''abcde'' = woven gaps (map ed_oldText es) end_text \<and> js ''yybxe'' = woven gaps (map ed_newText es) end_text"
proof -
  let ?run = "applyEditsToNormalizedContent id (js ''abcde'') [demo_edit ''cd'' ''x'', demo_edit ''a'' ''yy''] (js ''p'')"
  have "new_content ?run = Some (js ''yybxe'')" by (simp add: edit_eval)
  then obtain r where r: "?run = Inr r" and new: "ae_newContent r = js ''yybxe''"
    by (auto simp: new_content_def split: sum.splits)
  have "\<not> uses_fuzzy_match id (js ''abcde'') (map normalize_edit [demo_edit ''cd'' ''x'', demo_edit ''a'' ''yy''])" by (simp add: edit_eval)
  from exact_edits_replace [OF r this] show ?thesis unfolding new by blast
qed

section \<open>Line endings\<close>

lemma index_of_LF: "LF \<notin> set a \<Longrightarrow> index_of [LF] (a @ LF # b) = Some (length a)"
  by (induction a) (auto simp: prefix_def)

lemma index_of_CRLF: "CR \<notin> set a \<Longrightarrow> index_of CRLF (a @ CR # LF # b) = Some (length a)"
  by (induction a) (auto simp: prefix_def CRLF_def)

lemma no_CRLF: "CR \<notin> set s \<Longrightarrow> index_of CRLF s = None"
  by (induction s) (auto simp: prefix_def CRLF_def)

lemma no_LF: "LF \<notin> set s \<Longrightarrow> index_of [LF] s = None"
  by (induction s) (auto simp: prefix_def)

lemma crlf_to_lf_Cons: "u \<noteq> CR \<Longrightarrow> crlf_to_lf (u # us) = u # crlf_to_lf us"
  by (cases us) auto

lemma crlf_to_lf_plain: "CR \<notin> set s \<Longrightarrow> crlf_to_lf s = s"
  by (induction s) (auto simp: crlf_to_lf_Cons)

lemma restored_normalized: "CR \<notin> set t \<Longrightarrow> crlf_to_lf (restoreLineEndings t CRLF) = t"
  by (induction t) (auto simp: restoreLineEndings_def CRLF_def crlf_to_lf_Cons)

lemma no_CR_map: "CR \<notin> set t \<Longrightarrow> map (\<lambda>u. if u = CR then LF else u) t = t"
  by (induction t) auto

lemma restore_append: "restoreLineEndings (a @ b) CRLF = restoreLineEndings a CRLF @ restoreLineEndings b CRLF"
  by (simp add: restoreLineEndings_def)

lemma restore_plain: "LF \<notin> set a \<Longrightarrow> restoreLineEndings a CRLF = a"
  by (induction a) (auto simp: restoreLineEndings_def)

text \<open>
  Uniform line endings survive: a text without carriage returns, and a text all of whose line ends are
  CRLF, is normalized to its lines and restored, with the detected ending, to itself.
\<close>

theorem line_endings_survive:
  assumes "CR \<notin> set t" and "s = t \<or> s = restoreLineEndings t CRLF"
  shows "normalizeToLF s = t \<and> restoreLineEndings (normalizeToLF s) (detectLineEnding s) = s"
proof (cases "s = t")
  case True
  then have "detectLineEnding s = [LF]" using no_CRLF [OF assms(1)] by (auto simp: detectLineEnding_def split: option.splits)
  moreover have "normalizeToLF s = t" using True assms(1) by (simp add: normalizeToLF_def crlf_to_lf_plain no_CR_map)
  ultimately show ?thesis using True by (simp add: restoreLineEndings_def CRLF_def)
next
  case False
  with assms(2) have s: "s = restoreLineEndings t CRLF" by simp
  have "LF \<in> set t" using False s restore_plain by auto
  then obtain a b where t: "t = a @ LF # b" "LF \<notin> set a" by (meson split_list_first)
  then have s': "s = a @ CR # LF # restoreLineEndings b CRLF"
    unfolding s t(1) restore_append restore_plain [OF t(2)] by (simp add: restoreLineEndings_def CRLF_def)
  have "CR \<notin> set a" using assms(1) t by simp
  with t(2) have "detectLineEnding s = CRLF"
    using index_of_LF [of "a @ [CR]" "restoreLineEndings b CRLF"] index_of_CRLF [of a "restoreLineEndings b CRLF"]
    by (simp add: detectLineEnding_def s')
  moreover have "normalizeToLF s = t"
    unfolding s normalizeToLF_def restored_normalized [OF assms(1)] by (rule no_CR_map [OF assms(1)])
  ultimately show ?thesis using s by simp
qed

theorem line_endings_survive_witness:
  "detectLineEnding (js ''a'' @ CRLF @ js ''b'' @ CRLF) = CRLF \<and>
   restoreLineEndings (normalizeToLF (js ''a'' @ CRLF @ js ''b'' @ CRLF)) CRLF = js ''a'' @ CRLF @ js ''b'' @ CRLF"
proof -
  let ?t = "js ''a'' @ [LF] @ js ''b'' @ [LF]" and ?s = "js ''a'' @ CRLF @ js ''b'' @ CRLF"
  have "CR \<notin> set ?t" "?s = restoreLineEndings ?t CRLF" "detectLineEnding ?s = CRLF" by code_simp+
  with line_endings_survive [of ?t ?s] show ?thesis by simp
qed

section \<open>Where edits are refused or ambiguous\<close>

text \<open>
  A unique old text is refused as a duplicate when it ends in white space, because occurrences are counted
  after trailing white space is stripped; a text that overlaps itself is not noticed to be ambiguous; and a
  fuzzy edit of a text whose last line is only white space fails, because the normalized text has one line less.
\<close>

lemma trailing_space_refused:
  "applyEditsToNormalizedContent id (js ''a b'' @ [LF] @ js ''ab'') [demo_edit ''a '' ''x''] (js ''p'') =
     Inl (getDuplicateError (js ''p'') 0 1 2)"
  by (simp add: edit_eval)

lemma overlap_not_counted:
  "new_content (applyEditsToNormalizedContent id (js ''aaa'') [demo_edit ''aa'' ''x''] (js ''p'')) = Some (js ''xa'')"
  by (simp add: edit_eval)

lemma blank_last_line_fails:
  "applyEditsToNormalizedContent id ([0x201C] @ js ''q'' @ [0x201D, LF] @ js ''  '')
     [\<lparr>ed_oldText = [0x22] @ js ''q'' @ [0x22], ed_newText = js ''x''\<rparr>] (js ''p'') =
     Inl (js ''Cannot preserve unchanged lines because the base content has a different line count.'')"
  by (simp add: edit_eval applyReplacementsPreservingUnchangedLines_def getLineSpans_def)

end
