(* ===== verification/Edit_Lines.thy ===== *)
theory Edit_Lines
  imports Edit_Properties
begin

text \<open>
  Edits over a normalized view of a text: the groups of lines that replacements touch, and the theorem
  that every other line keeps its original units.
\<close>

section \<open>Lines and their offsets\<close>

lemma split_lines_Cons:
  "splitLinesWithEndings (u # us) =
     (if u = LF then [u] # splitLinesWithEndings us
      else case splitLinesWithEndings us of [] \<Rightarrow> [[u]] | l # ls \<Rightarrow> (u # l) # ls)"
  by (cases us) simp_all

declare splitLinesWithEndings.simps(2) [simp del]

lemma concat_split_lines: "concat (splitLinesWithEndings s) = s"
  by (induction s) (auto simp: split_lines_Cons split: list.splits)

lemma split_lines_not_empty: "l \<in> set (splitLinesWithEndings s) \<Longrightarrow> l \<noteq> []"
  by (induction s arbitrary: l) (auto simp: split_lines_Cons split: if_splits list.splits)

definition line_start :: "js_string list \<Rightarrow> nat \<Rightarrow> nat" where
  "line_start ls i = length (concat (take i ls))"

lemma line_start_0 [simp]: "line_start ls 0 = 0"
  by (simp add: line_start_def)

lemma line_start_Suc: "i < length ls \<Longrightarrow> line_start ls (Suc i) = line_start ls i + length (ls ! i)"
  by (simp add: line_start_def take_Suc_conv_app_nth)

lemma line_start_mono: "i \<le> j \<Longrightarrow> line_start ls i \<le> line_start ls j"
proof -
  assume "i \<le> j"
  then have "take j ls = take i ls @ drop i (take j ls)" by (metis append_take_drop_id min.absorb1 take_take)
  then show ?thesis by (metis concat_append le_add1 length_append line_start_def)
qed

lemma line_start_end: "line_start ls (length ls) = length (concat ls)"
  by (simp add: line_start_def)

lemma drop_line_start: "drop (line_start ls i) (concat ls) = concat (drop i ls)"
  by (metis append_eq_conv_conj append_take_drop_id concat_append line_start_def)

lemma lines_between:
  assumes "i \<le> j"
  shows "take (line_start ls j - line_start ls i) (drop (line_start ls i) (concat ls)) = concat (line_slice ls i j)"
proof -
  have "take (line_start ls j) (concat ls) = concat (take j ls)"
    by (metis append_eq_conv_conj append_take_drop_id concat_append line_start_def)
  moreover have "line_start ls i = line_start (take j ls) i" using assms by (simp add: line_start_def min_def)
  then have "drop (line_start ls i) (concat (take j ls)) = concat (line_slice ls i j)"
    by (simp only: drop_line_start line_slice_def)
  ultimately show ?thesis by (simp add: drop_take [symmetric])
qed

lemma spans_from_length [simp]: "length (spans_from offset ls) = length ls"
  by (induction offset ls rule: spans_from.induct) simp_all

lemma spans_from_nth:
  "i < length ls \<Longrightarrow>
     spans_from offset ls ! i = \<lparr>sp_start = offset + line_start ls i, sp_end = offset + line_start ls (Suc i)\<rparr>"
proof (induction offset ls arbitrary: i rule: spans_from.induct)
  case (2 offset l ls)
  then show ?case by (cases i) (simp_all add: line_start_def)
qed simp

lemma find_line_Some: "find_line P ls = Some k \<Longrightarrow> k < length ls \<and> P (ls ! k) \<and> (\<forall>j < k. \<not> P (ls ! j))"
proof (induction ls arbitrary: k)
  case (Cons l ls)
  show ?case
  proof (cases "P l")
    case False
    with Cons.prems obtain k' where k': "find_line P ls = Some k'" "k = Suc k'" by auto
    have "\<not> P ((l # ls) ! j)" if "j < k" for j
      using Cons.IH [OF k'(1)] False that k'(2) by (cases j) auto
    with Cons.IH [OF k'(1)] k'(2) show ?thesis by simp
  qed (use Cons in auto)
qed simp

lemma line_range:
  assumes "getReplacementLineRange (spans_from 0 ls) r = Inr (a, b)"
  shows "a < b \<and> b \<le> length ls \<and> line_start ls a \<le> rp_matchIndex r \<and> rp_matchIndex r < line_start ls (Suc a) \<and>
    rp_matchIndex r + rp_matchLength r \<le> line_start ls b \<and>
    (\<forall>j. a \<le> j \<and> Suc j < b \<longrightarrow> line_start ls (Suc j) < rp_matchIndex r + rp_matchLength r)"
proof -
  let ?e = "rp_matchIndex r + rp_matchLength r"
  from assms obtain k where a: "find_line (\<lambda>l. sp_start l \<le> rp_matchIndex r \<and> rp_matchIndex r < sp_end l) (spans_from 0 ls) = Some a"
    and k: "find_line (\<lambda>l. \<not> sp_end l < ?e) (drop a (spans_from 0 ls)) = Some k" and b: "b = a + k + 1"
    by (auto simp: getReplacementLineRange_def Let_def split: option.splits)
  note a' = find_line_Some [OF a] and k' = find_line_Some [OF k]
  have "a < length ls" "a + k < length ls" using a' k' by auto
  moreover have "line_start ls (Suc j) < ?e" if "a \<le> j" "Suc j < b" for j
  proof -
    have "j - a < k" "j < length ls" using that b \<open>a + k < length ls\<close> by auto
    with k' that(1) show ?thesis by (auto simp: spans_from_nth dest!: spec [of _ "j - a"])
  qed
  ultimately show ?thesis using a' k' b by (auto simp: spans_from_nth not_less)
qed

section \<open>Groups\<close>

definition touches :: "js_string list \<Rightarrow> nat \<Rightarrow> 'a text_replacement_scheme \<Rightarrow> bool" where
  "touches ls i r \<longleftrightarrow> line_start ls i < rp_matchIndex r + rp_matchLength r \<and> rp_matchIndex r < line_start ls (Suc i)"

lemma range_touched:
  assumes "getReplacementLineRange (spans_from 0 ls) r = Inr (a, b)" and "0 < rp_matchLength r" and "a \<le> i" and "i < b"
  shows "touches ls i r"
proof -
  note range = line_range [OF assms(1)]
  have "line_start ls i < rp_matchIndex r + rp_matchLength r"
  proof (cases "i = a")
    case True
    with range have "line_start ls i \<le> rp_matchIndex r" by simp
    with assms(2) show ?thesis by linarith
  next
    case False
    with assms(3,4) have "a \<le> i - 1" "Suc (i - 1) < b" "Suc (i - 1) = i" by auto
    with range show ?thesis by metis
  qed
  moreover have "rp_matchIndex r < line_start ls (Suc i)"
    using range line_start_mono [of "Suc a" "Suc i" ls] assms(3) by linarith
  ultimately show ?thesis by (simp add: touches_def)
qed

text \<open>A group: its replacements lie in its lines up to \<open>e\<close>, and each of its lines is touched.\<close>

definition group_ok :: "js_string list \<Rightarrow> nat \<Rightarrow> 'a text_replacement_scheme replacement_group \<Rightarrow> bool" where
  "group_ok ls e g \<longleftrightarrow> gr_startLine g < gr_endLine g \<and> gr_endLine g \<le> length ls \<and> e \<le> line_start ls (gr_endLine g) \<and>
     disjoint_between (line_start ls (gr_startLine g)) e (gr_replacements g) \<and>
     (\<forall>i. gr_startLine g \<le> i \<and> i < gr_endLine g \<longrightarrow> (\<exists>r \<in> set (gr_replacements g). touches ls i r))"

fun groups_ok :: "js_string list \<Rightarrow> nat \<Rightarrow> 'a text_replacement_scheme replacement_group list \<Rightarrow> bool" where
  "groups_ok ls i [] = (i \<le> length ls)"
| "groups_ok ls i (g # gs) =
     (i \<le> gr_startLine g \<and> group_ok ls (line_start ls (gr_endLine g)) g \<and> groups_ok ls (gr_endLine g) gs)"

lemma group_ok_end: "group_ok ls e g \<Longrightarrow> group_ok ls (line_start ls (gr_endLine g)) g"
  by (auto simp: group_ok_def intro: disjoint_between_mono)

lemma group_loop_front:
  "group_loop bl rs (gs @ [g]) = map_sum id (\<lambda>x. gs @ x) (group_loop bl rs [g])"
proof (induction rs arbitrary: gs g)
  case (Cons r rs)
  show ?case
  proof (cases "getReplacementLineRange bl r")
    case (Inr range)
    show ?thesis
    proof (cases "fst range < gr_endLine g")
      case True
      with Inr Cons show ?thesis by (simp add: add_to_groups_def)
    next
      case False
      let ?new = "\<lparr>gr_startLine = fst range, gr_endLine = snd range, gr_replacements = [r]\<rparr>"
      have "group_loop bl rs ((gs @ [g]) @ [?new]) = map_sum id (\<lambda>x. (gs @ [g]) @ x) (group_loop bl rs [?new])"
        "group_loop bl rs ([g] @ [?new]) = map_sum id (\<lambda>x. [g] @ x) (group_loop bl rs [?new])"
        by (rule Cons)+
      with Inr False show ?thesis
        by (cases "group_loop bl rs [?new]") (simp_all add: add_to_groups_def)
    qed
  qed simp
qed simp

lemma disjoint_snoc:
  "disjoint_between p e rs \<Longrightarrow> e \<le> rp_matchIndex r \<Longrightarrow> disjoint_between p (rp_matchIndex r + rp_matchLength r) (rs @ [r])"
  by (auto simp: disjoint_between_append)

lemma extend_group:
  assumes ok: "group_ok ls e g" and range: "getReplacementLineRange (spans_from 0 ls) r = Inr (a, b)"
    and r: "e \<le> rp_matchIndex r" "0 < rp_matchLength r" and a: "a < gr_endLine g"
  shows "group_ok ls (rp_matchIndex r + rp_matchLength r)
    (g\<lparr>gr_endLine := max (gr_endLine g) b, gr_replacements := gr_replacements g @ [r]\<rparr>)"
proof -
  note range' = line_range [OF range]
  have "rp_matchIndex r + rp_matchLength r \<le> line_start ls (max (gr_endLine g) b)"
    using range' line_start_mono [of b "max (gr_endLine g) b" ls] by simp
  moreover have "\<exists>q \<in> set (gr_replacements g @ [r]). touches ls i q"
    if "gr_startLine g \<le> i" "i < max (gr_endLine g) b" for i
  proof (cases "i < gr_endLine g")
    case True
    with ok that show ?thesis by (auto simp: group_ok_def)
  next
    case False
    with range_touched [OF range r(2), of i] that a show ?thesis by auto
  qed
  ultimately show ?thesis
    using ok range' disjoint_snoc [of "line_start ls (gr_startLine g)" e "gr_replacements g" r] r(1)
    by (auto simp: group_ok_def)
qed

lemma new_group:
  assumes "getReplacementLineRange (spans_from 0 ls) r = Inr (a, b)" and "0 < rp_matchLength r"
  shows "group_ok ls (rp_matchIndex r + rp_matchLength r) \<lparr>gr_startLine = a, gr_endLine = b, gr_replacements = [r]\<rparr>"
  using line_range [OF assms(1)] range_touched [OF assms] by (auto simp: group_ok_def)

lemma group_loop_ok:
  assumes "group_loop (spans_from 0 ls) rs [g] = Inr gs" and "group_ok ls e g" and "disjoint_between e n rs"
    and "\<forall>r \<in> set rs. 0 < rp_matchLength r"
  shows "groups_ok ls (gr_startLine g) gs \<and> concat (map gr_replacements gs) = gr_replacements g @ rs"
  using assms
proof (induction rs arbitrary: g e gs)
  case Nil
  then have "gs = [g]" by simp
  with group_ok_end [OF Nil.prems(2)] Nil.prems(2) show ?case by (simp add: group_ok_def)
next
  case (Cons r rs)
  from Cons.prems(1) obtain a b where range: "getReplacementLineRange (spans_from 0 ls) r = Inr (a, b)"
    and loop: "group_loop (spans_from 0 ls) rs (add_to_groups (a, b) r [g]) = Inr gs"
    by (auto split: sum.splits)
  have r: "e \<le> rp_matchIndex r" "0 < rp_matchLength r" "disjoint_between (rp_matchIndex r + rp_matchLength r) n rs"
    using Cons.prems by auto
  show ?case
  proof (cases "a < gr_endLine g")
    case True
    let ?g = "g\<lparr>gr_endLine := max (gr_endLine g) b, gr_replacements := gr_replacements g @ [r]\<rparr>"
    have "group_loop (spans_from 0 ls) rs [?g] = Inr gs" using loop True by (simp add: add_to_groups_def)
    from Cons.IH [OF this extend_group [OF Cons.prems(2) range r(1,2) True] r(3)] Cons.prems(4) show ?thesis by simp
  next
    case False
    let ?g = "\<lparr>gr_startLine = a, gr_endLine = b, gr_replacements = [r]\<rparr>"
    have "group_loop (spans_from 0 ls) rs ([g] @ [?g]) = Inr gs" using loop False by (simp add: add_to_groups_def)
    then obtain gs' where gs': "group_loop (spans_from 0 ls) rs [?g] = Inr gs'" "gs = g # gs'"
      unfolding group_loop_front by (cases "group_loop (spans_from 0 ls) rs [?g]") auto
    from Cons.IH [OF gs'(1) new_group [OF range r(2)] r(3)] Cons.prems(4)
    have rest: "groups_ok ls a gs'" "concat (map gr_replacements gs') = r # rs" by auto
    have "groups_ok ls (gr_endLine g) gs'"
      using rest(1) False by (cases gs') auto
    with rest(2) gs'(2) group_ok_end [OF Cons.prems(2)] show ?thesis by simp
  qed
qed

section \<open>The overlay\<close>

text \<open>
  A text made of lines that are kept, given by their numbers, and of rewritten parts.
\<close>

datatype segment = Kept nat | Rewritten js_string

fun segment_text :: "js_string list \<Rightarrow> segment \<Rightarrow> js_string" where
  "segment_text ls (Kept i) = ls ! i"
| "segment_text ls (Rewritten t) = t"

definition kept_lines :: "segment list \<Rightarrow> nat list" where
  "kept_lines segs = List.map_filter (\<lambda>s. case s of Kept i \<Rightarrow> Some i | Rewritten _ \<Rightarrow> None) segs"

lemma kept_lines_simps [simp]:
  "kept_lines [] = []" "kept_lines (a @ b) = kept_lines a @ kept_lines b" "kept_lines (Rewritten t # segs) = kept_lines segs"
  "kept_lines (map Kept is) = is"
  by (induction "is") (simp_all add: kept_lines_def List.map_filter_def)

fun segments :: "js_string list \<Rightarrow> nat \<Rightarrow> 'a text_replacement_scheme replacement_group list \<Rightarrow> segment list" where
  "segments ls i [] = map Kept [i..<length ls]"
| "segments ls i (g # gs) =
     map Kept [i..<gr_startLine g]
     @ Rewritten (replaced (line_start ls (gr_startLine g)) (line_start ls (gr_endLine g)) (concat ls) (gr_replacements g))
     # segments ls (gr_endLine g) gs"

lemma kept_texts: "b \<le> length ls \<Longrightarrow> concat (map (segment_text ls) (map Kept [a..<b])) = concat (line_slice ls a b)"
proof -
  assume "b \<le> length ls"
  then have "map (\<lambda>i. ls ! i) [a..<b] = drop a (take b ls)" by (intro nth_equalityI) auto
  then show ?thesis by (simp add: line_slice_def comp_def)
qed

lemma group_slice:
  "group_ok ls (line_start ls (gr_endLine g)) g \<Longrightarrow>
     applyReplacements (line_slice (concat ls) (line_start ls (gr_startLine g)) (line_start ls (gr_endLine g))) (gr_replacements g)
       (int (line_start ls (gr_startLine g))) =
     replaced (line_start ls (gr_startLine g)) (line_start ls (gr_endLine g)) (concat ls) (gr_replacements g)"
  using applyReplacements_replaced [of "line_start ls (gr_startLine g)" "line_start ls (gr_endLine g)" "gr_replacements g"
      "line_start ls (gr_startLine g)" "concat ls"] line_start_mono [of "gr_endLine g" "length ls" ls]
  by (simp add: group_ok_def line_slice_def drop_take line_start_end)

lemma overlay_segments:
  assumes "groups_ok ls i gs" and "length originals = length ls"
  shows "overlay originals (concat ls) (spans_from 0 ls) i gs = concat (map (segment_text originals) (segments ls i gs))"
  using assms(1)
proof (induction gs arbitrary: i)
  case Nil
  then show ?case using kept_texts [of "length originals" originals i] assms(2) by (simp add: line_slice_def comp_def)
next
  case (Cons g gs)
  then have g: "group_ok ls (line_start ls (gr_endLine g)) g" "groups_ok ls (gr_endLine g) gs" by simp_all
  then have lines: "gr_startLine g < gr_endLine g" "gr_endLine g \<le> length ls" by (auto simp: group_ok_def)
  then have "Suc (gr_endLine g - 1) = gr_endLine g" by simp
  with lines have "sp_start (spans_from 0 ls ! gr_startLine g) = line_start ls (gr_startLine g)"
    "sp_end (spans_from 0 ls ! (gr_endLine g - 1)) = line_start ls (gr_endLine g)"
    by (simp_all add: spans_from_nth)
  with Cons.IH [OF g(2)] group_slice [OF g(1)] kept_texts [of "gr_startLine g" originals i] lines assms(2) show ?case
    by (simp add: Let_def comp_def)
qed

lemma group_disjoint: "groups_ok ls i gs \<Longrightarrow> i \<le> length ls \<and>
    disjoint_between (line_start ls i) (length (concat ls)) (concat (map gr_replacements gs))"
proof (induction gs arbitrary: i)
  case Nil
  then show ?case using line_start_mono [of i "length ls" ls] by (simp add: line_start_end)
next
  case (Cons g gs)
  then have g: "group_ok ls (line_start ls (gr_endLine g)) g" "i \<le> gr_startLine g" by simp_all
  have "disjoint_between (line_start ls i) (line_start ls (gr_endLine g)) (gr_replacements g)"
    using g line_start_mono [OF g(2), of ls] by (cases "gr_replacements g") (auto simp: group_ok_def)
  with Cons g show ?case by (auto simp: disjoint_between_append group_ok_def)
qed

lemma replaced_segments:
  assumes "groups_ok ls i gs"
  shows "replaced (line_start ls i) (length (concat ls)) (concat ls) (concat (map gr_replacements gs)) =
    concat (map (segment_text ls) (segments ls i gs))"
  using assms
proof (induction gs arbitrary: i)
  case Nil
  have "replaced (line_start ls i) (length (concat ls)) (concat ls) (concat (map gr_replacements [])) =
      take (line_start ls (length ls) - line_start ls i) (drop (line_start ls i) (concat ls))"
    by (simp only: list.map concat.simps replaced.simps line_start_end)
  also have "\<dots> = concat (line_slice ls i (length ls))" by (rule lines_between) (use Nil in simp)
  also have "\<dots> = concat (map (segment_text ls) (segments ls i []))" using kept_texts [of "length ls" ls i] by simp
  finally show ?case .
next
  case (Cons g gs)
  then have g: "group_ok ls (line_start ls (gr_endLine g)) g" "groups_ok ls (gr_endLine g) gs" "i \<le> gr_startLine g" by simp_all
  let ?s = "line_start ls (gr_startLine g)" and ?e = "line_start ls (gr_endLine g)" and ?n = "length (concat ls)"
  have group: "disjoint_between ?s ?e (gr_replacements g)" "gr_startLine g < length ls" using g(1) by (auto simp: group_ok_def)
  note rest = group_disjoint [OF g(2), THEN conjunct2]
  have "replaced (line_start ls i) ?n (concat ls) (concat (map gr_replacements (g # gs))) =
      replaced (line_start ls i) ?s (concat ls) [] @ replaced ?s ?n (concat ls) (gr_replacements g @ concat (map gr_replacements gs))"
    using replaced_append [of "line_start ls i" ?s "[]" ?n "gr_replacements g @ concat (map gr_replacements gs)" "concat ls"]
      line_start_mono [OF g(3), of ls] group rest by (auto simp: disjoint_between_append)
  also have "replaced ?s ?n (concat ls) (gr_replacements g @ concat (map gr_replacements gs)) =
      replaced ?s ?e (concat ls) (gr_replacements g) @ replaced ?e ?n (concat ls) (concat (map gr_replacements gs))"
    by (rule replaced_append [OF group(1) rest])
  finally show ?case
    using Cons.IH [OF g(2)] lines_between [OF g(3), of ls] kept_texts [of "gr_startLine g" ls i] group(2) by simp
qed

lemma disjoint_between_bounds:
  "disjoint_between p q rs \<Longrightarrow> r \<in> set rs \<Longrightarrow> p \<le> rp_matchIndex r \<and> rp_matchIndex r + rp_matchLength r \<le> q"
  by (induction rs arbitrary: p) (auto dest: disjoint_between_le, fastforce)

lemma kept_untouched:
  assumes "groups_ok ls i gs"
  shows "kept_lines (segments ls i gs) =
    filter (\<lambda>j. \<forall>r \<in> set (concat (map gr_replacements gs)). \<not> touches ls j r) [i..<length ls]"
  using assms
proof (induction gs arbitrary: i)
  case (Cons g gs)
  then have g: "group_ok ls (line_start ls (gr_endLine g)) g" "groups_ok ls (gr_endLine g) gs" "i \<le> gr_startLine g" by simp_all
  let ?a = "gr_startLine g" and ?b = "gr_endLine g" and ?rest = "concat (map gr_replacements gs)"
  let ?P = "\<lambda>rs j. \<forall>r \<in> set rs. \<not> touches ls j r"
  have lines: "?a < ?b" "?b \<le> length ls" using g(1) by (auto simp: group_ok_def)
  have own: "\<And>r. r \<in> set (gr_replacements g) \<Longrightarrow> line_start ls ?a \<le> rp_matchIndex r \<and>
      rp_matchIndex r + rp_matchLength r \<le> line_start ls ?b"
    using g(1) disjoint_between_bounds by (auto simp: group_ok_def)
  have later: "\<And>r. r \<in> set ?rest \<Longrightarrow> line_start ls ?b \<le> rp_matchIndex r"
    using group_disjoint [OF g(2)] disjoint_between_bounds by blast
  have "?P (gr_replacements g @ ?rest) j" if "j < ?a" for j
  proof
    fix r assume "r \<in> set (gr_replacements g @ ?rest)"
    with own later have "line_start ls ?a \<le> rp_matchIndex r"
      using line_start_mono [of ?a ?b ls] lines by fastforce
    with line_start_mono [of "Suc j" ?a ls] that show "\<not> touches ls j r" by (auto simp: touches_def)
  qed
  then have before: "filter (?P (gr_replacements g @ ?rest)) [i..<?a] = [i..<?a]" by (simp add: filter_id_conv)
  have "\<not> ?P (gr_replacements g @ ?rest) j" if "?a \<le> j" "j < ?b" for j
    using g(1) that by (auto simp: group_ok_def)
  then have inside: "filter (?P (gr_replacements g @ ?rest)) [?a..<?b] = []" by (simp add: filter_empty_conv)
  have "\<not> touches ls j r" if "?b \<le> j" "r \<in> set (gr_replacements g)" for j r
    using own [OF that(2)] line_start_mono [OF that(1), of ls] by (auto simp: touches_def)
  then have after: "filter (?P (gr_replacements g @ ?rest)) [?b..<length ls] = filter (?P ?rest) [?b..<length ls]"
    by (intro filter_cong) auto
  have "[i..<length ls] = [i..<?a] @ [?a..<?b] @ [?b..<length ls]"
    using upt_add_eq_append [of i ?a "length ls - ?a"] upt_add_eq_append [of ?a ?b "length ls - ?b"] g(3) lines by simp
  then have "filter (?P (gr_replacements g @ ?rest)) [i..<length ls] = [i..<?a] @ filter (?P ?rest) [?b..<length ls]"
    using before inside after by (simp del: set_append)
  with Cons.IH [OF g(2)] show ?case by simp
qed simp

section \<open>The properties\<close>

lemma grouped_reps:
  assumes "group_loop (spans_from 0 ls) rs [] = Inr gs" and "disjoint_between 0 n rs" and "\<forall>r \<in> set rs. 0 < rp_matchLength r"
  shows "groups_ok ls 0 gs \<and> concat (map gr_replacements gs) = rs"
proof (cases rs)
  case Nil
  with assms(1) show ?thesis by simp
next
  case (Cons r rest)
  from assms(1) Cons obtain a b where range: "getReplacementLineRange (spans_from 0 ls) r = Inr (a, b)"
    and loop: "group_loop (spans_from 0 ls) rest [\<lparr>gr_startLine = a, gr_endLine = b, gr_replacements = [r]\<rparr>] = Inr gs"
    by (auto simp: add_to_groups_def split: sum.splits)
  have "0 < rp_matchLength r" "disjoint_between (rp_matchIndex r + rp_matchLength r) n rest" using assms(2,3) Cons by auto
  with group_loop_ok [OF loop new_group [OF range]] assms(3) Cons have
    "groups_ok ls a gs \<and> concat (map gr_replacements gs) = r # rest" by simp
  then show ?thesis using Cons by (cases gs) auto
qed

text \<open>
  C25. Restoring lines: replacements that are disjoint in a normalized view of a text give, when they are applied line by
  line to the text, what they give in the view, except that every line that no replacement touches is
  the original line; the lines kept are exactly these, in order.
\<close>

theorem untouched_lines_restored:
  assumes "applyReplacementsPreservingUnchangedLines original base rs = Inr result"
    and "disjoint_between 0 (length base) (sort_key rp_matchIndex rs)" and "\<forall>r \<in> set rs. 0 < rp_matchLength r"
  shows "\<exists>segs. result = concat (map (segment_text (splitLinesWithEndings original)) segs) \<and>
    applyReplacements base (sort_key rp_matchIndex rs) 0 = concat (map (segment_text (splitLinesWithEndings base)) segs) \<and>
    kept_lines segs = filter (\<lambda>i. \<forall>r \<in> set rs. \<not> touches (splitLinesWithEndings base) i r)
      [0..<length (splitLinesWithEndings original)]"
proof -
  let ?ls = "splitLinesWithEndings base" and ?os = "splitLinesWithEndings original" and ?rs = "sort_key rp_matchIndex rs"
  have base: "concat ?ls = base" by (rule concat_split_lines)
  from assms(1) obtain gs where len: "length ?os = length ?ls" and loop: "group_loop (spans_from 0 ?ls) ?rs [] = Inr gs"
    and result: "result = overlay ?os base (spans_from 0 ?ls) 0 gs"
    by (auto simp: applyReplacementsPreservingUnchangedLines_def getLineSpans_def Let_def split: if_splits sum.splits)
  from grouped_reps [OF loop assms(2)] assms(3) have gs: "groups_ok ?ls 0 gs" "concat (map gr_replacements gs) = ?rs" by auto
  have "result = concat (map (segment_text ?os) (segments ?ls 0 gs))"
    using overlay_segments [OF gs(1) len] result base by simp
  moreover have "applyReplacements base ?rs 0 = concat (map (segment_text ?ls) (segments ?ls 0 gs))"
    using replaced_segments [OF gs(1)] gs(2) base applyReplacements_whole [OF assms(2)] by simp
  moreover have "kept_lines (segments ?ls 0 gs) = filter (\<lambda>i. \<forall>r \<in> set rs. \<not> touches ?ls i r) [0..<length ?os]"
    using kept_untouched [OF gs(1)] gs(2) len by simp
  ultimately show ?thesis by blast
qed

definition demo_original :: js_string where
  "demo_original = js ''a '' @ [LF] @ js ''b '' @ [LF] @ js ''c ''"

definition demo_base :: js_string where
  "demo_base = js ''a'' @ [LF] @ js ''b'' @ [LF] @ js ''c''"

definition demo_replacement :: text_replacement where
  "demo_replacement = \<lparr>rp_matchIndex = 2, rp_matchLength = 1, rp_newText = js ''x''\<rparr>"

theorem untouched_lines_restored_witness:
  "\<exists>segs. js ''a '' @ [LF] @ js ''x'' @ [LF] @ js ''c '' = concat (map (segment_text (splitLinesWithEndings demo_original)) segs) \<and>
     kept_lines segs = [0, 2]"
proof -
  have run: "applyReplacementsPreservingUnchangedLines demo_original demo_base [demo_replacement] =
      Inr (js ''a '' @ [LF] @ js ''x'' @ [LF] @ js ''c '')"
    by code_simp
  have "disjoint_between 0 (length demo_base) (sort_key rp_matchIndex [demo_replacement])"
    "\<forall>r \<in> set [demo_replacement]. 0 < rp_matchLength r"
    by (simp_all add: demo_base_def demo_replacement_def js_def)
  from untouched_lines_restored [OF run this] obtain segs where
    "js ''a '' @ [LF] @ js ''x'' @ [LF] @ js ''c '' = concat (map (segment_text (splitLinesWithEndings demo_original)) segs)"
    "kept_lines segs = filter (\<lambda>i. \<forall>r \<in> set [demo_replacement]. \<not> touches (splitLinesWithEndings demo_base) i r)
      [0..<length (splitLinesWithEndings demo_original)]"
    by blast
  moreover have "filter (\<lambda>i. \<forall>r \<in> set [demo_replacement]. \<not> touches (splitLinesWithEndings demo_base) i r)
      [0..<length (splitLinesWithEndings demo_original)] = [0, 2]"
    by code_simp
  ultimately show ?thesis by auto
qed

end
