(* ===== verification/File_Tool_Properties.thy ===== *)
theory File_Tool_Properties
  imports File_Tools Truncation_Properties Edit_Lines
begin

text \<open>
  The properties of the file tools: base64 texts decode to the bytes, the pages of the read tool join to the
  file, and the edit tool changes a file as a whole or not at all.
\<close>

section \<open>Base64\<close>

text \<open>A reference decoder.\<close>

definition base64_digit :: "char \<Rightarrow> 8 word option" where
  "base64_digit c = map_option word_of_nat (index_of [c] base64_alphabet)"

fun decodeBase64 :: "string \<Rightarrow> bytes option" where
  "decodeBase64 [] = Some []"
| "decodeBase64 (p # q # r # s # cs) =
     (case (base64_digit p, base64_digit q) of
        (Some x, Some y) \<Rightarrow>
          (let a = push_bit 2 x OR drop_bit 4 y
           in if r = CHR ''='' \<and> s = CHR ''='' \<and> cs = [] then Some [a]
              else case base64_digit r of
                  None \<Rightarrow> None
                | Some z \<Rightarrow>
                    (let b = push_bit 4 y OR drop_bit 2 z
                     in if s = CHR ''='' \<and> cs = [] then Some [a, b]
                        else case base64_digit s of
                            None \<Rightarrow> None
                          | Some w \<Rightarrow> map_option (\<lambda>bs. a # b # (push_bit 6 z OR w) # bs) (decodeBase64 cs)))
      | _ \<Rightarrow> None)"
| "decodeBase64 _ = None"

lemma base64_digits: "\<forall>i \<in> set [0..<64]. index_of [base64_alphabet ! i] base64_alphabet = Some i \<and> base64_alphabet ! i \<noteq> CHR ''=''"
  by (simp add: base64_alphabet_def upt_rec prefix_def)

lemma base64_digit_char:
  assumes "unat w < 64"
  shows "base64_digit (base64_char w) = Some w \<and> base64_char w \<noteq> CHR ''=''"
  using base64_digits assms by (auto simp: base64_digit_def base64_char_def)

lemma byte_masks: "(0x03 :: 8 word) = mask 2" "(0x0F :: 8 word) = mask 4" "(0x3F :: 8 word) = mask 6"
  by (simp_all add: mask_eq_exp_minus_1)

lemma six_bits: "take_bit 6 w = w \<Longrightarrow> unat (w :: 8 word) < 64"
proof -
  assume "take_bit 6 w = w"
  then have "unat w = take_bit 6 (unat w)" by (metis unsigned_take_bit_eq)
  then show ?thesis using take_bit_nat_less_exp [of 6 "unat w"] by simp
qed

lemma byte_eqI:
  assumes "\<And>n. n \<in> set [0, 1, 2, 3, 4, 5, 6, 7] \<Longrightarrow> bit a n = bit b n"
  shows "a = (b :: 8 word)"
proof (rule bit_word_eqI)
  fix n assume "n < LENGTH(8)"
  then have "n \<in> set [0, 1, 2, 3, 4, 5, 6, 7]" by auto
  then show "bit a n = bit b n" by (rule assms)
qed

lemma sextet_bounds:
  "unat (drop_bit 2 a :: 8 word) < 64"
  "unat (push_bit 4 (a AND 0x03) OR drop_bit 4 b :: 8 word) < 64"
  "unat (push_bit 2 (b AND 0x0F) OR drop_bit 6 c :: 8 word) < 64"
  "unat (c AND 0x3F :: 8 word) < 64"
  unfolding byte_masks
  by (rule six_bits, rule bit_word_eqI, auto simp: bit_simps dest: bit_imp_le_length)+

lemma sextets_join:
  "push_bit 2 (drop_bit 2 a) OR drop_bit 4 (push_bit 4 (a AND 0x03) OR drop_bit 4 b) = (a :: 8 word)"
  "push_bit 4 (push_bit 4 (a AND 0x03) OR drop_bit 4 b) OR drop_bit 2 (push_bit 2 (b AND 0x0F) OR drop_bit 6 c) = (b :: 8 word)"
  "push_bit 6 (push_bit 2 (b AND 0x0F) OR drop_bit 6 c) OR (c AND 0x3F) = (c :: 8 word)"
  unfolding byte_masks
  by (rule byte_eqI; auto simp: bit_simps simp flip: numeral_2_eq_2)+

text \<open>The base64 text of an image decodes to its bytes, for every length.\<close>

theorem base64_roundtrip:
  "decodeBase64 (encodeBase64 bs) = Some bs \<and> length (encodeBase64 bs) = 4 * ((length bs + 2) div 3)"
proof (induction bs rule: encodeBase64.induct)
  case (2 a)
  show ?case
    using base64_digit_char [OF sextet_bounds(1) [of a]] base64_digit_char [OF sextet_bounds(2) [of a 0]] sextets_join(1) [of a 0]
    by (simp add: base64_first_def base64_second_def Let_def)
next
  case (3 a b)
  show ?case
    using base64_digit_char [OF sextet_bounds(1) [of a]] base64_digit_char [OF sextet_bounds(2) [of a b]]
      base64_digit_char [OF sextet_bounds(3) [of b 0]] sextets_join(1) [of a b] sextets_join(2) [of a b 0]
    by (simp add: base64_first_def base64_second_def base64_third_def Let_def)
next
  case (4 a b c bs)
  have "length (encodeBase64 (a # b # c # bs)) = 4 * ((length (a # b # c # bs) + 2) div 3)"
    using 4 div_add_self2 [of 3 "length bs + 2"] by (simp add: add.commute)
  with 4 show ?case
    using base64_digit_char [OF sextet_bounds(1) [of a]] base64_digit_char [OF sextet_bounds(2) [of a b]]
      base64_digit_char [OF sextet_bounds(3) [of b c]] base64_digit_char [OF sextet_bounds(4) [of c]]
      sextets_join(1) [of a b] sextets_join(2) [of a b c] sextets_join(3) [of b c]
    by (simp add: base64_first_def base64_second_def base64_third_def base64_fourth_def Let_def)
qed simp

section \<open>Pages of the read tool\<close>

lemma js_lines_plain_end: "LF \<notin> set l \<Longrightarrow> js_lines l = [l]"
  by (induction l) auto

lemma js_lines_cons_line: "LF \<notin> set l \<Longrightarrow> js_lines (l @ LF # s) = l # js_lines s"
  by (induction l) auto

lemma js_lines_join: "ls \<noteq> [] \<Longrightarrow> \<forall>l \<in> set ls. LF \<notin> set l \<Longrightarrow> js_lines (js_join [LF] ls) = ls"
  by (induction ls rule: lines_bytes.induct) (simp_all add: js_lines_plain_end js_lines_cons_line)

text \<open>The lines counted in a selection of lines.\<close>

lemma counted_selection:
  assumes "ls \<noteq> []" and "\<forall>l \<in> set ls. LF \<notin> set l"
  shows "splitLinesForCounting (js_join [LF] ls) = ls \<and> ls \<noteq> [[]] \<and> last (js_join [LF] ls) \<noteq> LF \<or>
    splitLinesForCounting (js_join [LF] ls) = butlast ls \<and> last ls = []"
proof (cases "js_join [LF] ls = []")
  case True
  with js_lines_join [OF assms] have "ls = [[]]" by simp
  with True show ?thesis by (simp add: splitLinesForCounting_def)
next
  case False
  let ?t = "js_join [LF] ls"
  note lines = js_lines_join [OF assms]
  show ?thesis
  proof (cases "last ?t = LF")
    case True
    then obtain s where "?t = s @ [LF]" using False by (metis append_butlast_last_id)
    then have "ls = js_lines s @ [[]]" using lines js_lines_append [of s] by simp
    then have "last ls = []" by simp
    with True False lines show ?thesis by (simp add: splitLinesForCounting_def)
  next
    case False': False
    with False lines show ?thesis by (auto simp: splitLinesForCounting_def)
  qed
qed

lemma head_truncates:
  "truncateHead buffer content om ob = Some r \<Longrightarrow> tn_truncated r \<longleftrightarrow>
     \<not> (int (length (splitLinesForCounting content)) \<le> line_limit om \<and> int (length (utf8_encode content)) \<le> byte_limit ob)"
  by (auto simp: truncateHead_def Let_def line_limit_def [symmetric] byte_limit_def [symmetric] untruncated_def
      byte_loop_encode [symmetric] split: if_splits list.splits prod.splits)

lemma head_default: "truncateHead buffer content None None \<noteq> None"
proof (cases "content = []")
  case True
  then show ?thesis by (simp add: demo_eval)
next
  case False
  then show ?thesis
    using counted_lines_not_Nil by (auto simp: truncateHead_def Let_def split: list.splits prod.splits)
qed

lemma read_selection:
  "start_line offset < length ls \<Longrightarrow> line_slice ls (start_line offset) (slice_end (length ls) (int (length ls))) = drop (start_line offset) ls"
  by (simp add: line_slice_def slice_end_def)


text \<open>A file of 2001 short lines.\<close>

definition demo_long :: js_string where
  "demo_long = js_join [LF] (replicate 2001 [0x61])"


section \<open>The edit tool\<close>

lemma bindTool_cases:
  "bindTool m f w = (r, w2) \<longleftrightarrow>
     (\<exists>e. m w = (Inl e, w2) \<and> r = Inl e) \<or> (\<exists>x w1. m w = (Inr x, w1) \<and> f x w1 = (r, w2))"
  by (auto simp: bindTool_def split: prod.splits sum.splits)

text \<open>
  A disk: only writing changes a file, reading returns its text, and writing replaces it; a failed write leaves
  the other files alone.
\<close>

definition tool_disk :: "'w tool_env \<Rightarrow> ('w \<Rightarrow> js_string \<Rightarrow> js_string option) \<Rightarrow> bool" where
  "tool_disk env files \<longleftrightarrow>
     (\<forall>p w. files (snd (te_absolutePath env p w)) = files w \<and> files (snd (te_canonicalPath env p w)) = files w \<and>
        files (snd (te_fileKind env p w)) = files w \<and> files (snd (te_readTextFile env p w)) = files w) \<and>
     (\<forall>p t w w'. te_readTextFile env p w = (Inr t, w') \<longrightarrow> files w p = Some t) \<and>
     (\<forall>p t w w'. te_writeFile env p t w = (Inr (), w') \<longrightarrow> files w' = (files w)(p \<mapsto> t)) \<and>
     (\<forall>p t w e w'. te_writeFile env p t w = (Inl e, w') \<longrightarrow> (\<forall>q. q \<noteq> p \<longrightarrow> files w' q = files w q))"

text \<open>The file \<open>p\<close> was edited: between its byte order mark and its line endings the edits were applied.\<close>

definition edited ::
  "(js_string \<Rightarrow> js_string) \<Rightarrow> js_string \<Rightarrow> edit_text list \<Rightarrow> js_string \<Rightarrow>
   (js_string \<Rightarrow> js_string option) \<Rightarrow> (js_string \<Rightarrow> js_string option) \<Rightarrow> applied_edits \<Rightarrow> bool" where
  "edited nfkc path edits p before after applied \<longleftrightarrow>
     (\<exists>raw bom content. before p = Some raw \<and> stripBom raw = (bom, content) \<and>
        applyEditsToNormalizedContent nfkc (normalizeToLF content) edits path = Inr applied \<and>
        after = before(p \<mapsto> bom @ restoreLineEndings (ae_newContent applied) (detectLineEnding content)))"

lemma throw_if_aborted_cases:
  "throw_if_aborted env w = (r, w') \<Longrightarrow> w' = w \<and> (r = Inr () \<or> r = Inl (ToolError (js ''Operation aborted'')))"
  by (auto simp: throw_if_aborted_def split: if_splits)

lemma orAccessError_cases:
  "orAccessError path op w = (r, w') \<longleftrightarrow>
     (\<exists>e. op w = (Inl e, w') \<and> r = Inl (editAccessError path e)) \<or> (\<exists>x. op w = (Inr x, w') \<and> r = Inr x)"
  by (auto simp: orAccessError_def split: prod.splits sum.splits)

lemma reading_keeps:
  assumes "tool_disk env files"
  shows "te_absolutePath env p w = (r1, w1) \<Longrightarrow> files w1 = files w"
    "te_canonicalPath env p w = (r2, w1) \<Longrightarrow> files w1 = files w"
    "te_fileKind env p w = (r3, w1) \<Longrightarrow> files w1 = files w"
    "te_readTextFile env p w = (r4, w1) \<Longrightarrow> files w1 = files w"
  using assms unfolding tool_disk_def by (metis snd_conv)+

lemma getOrThrow_world: "getOrThrow op w = (r, w') \<Longrightarrow> snd (op w) = w'"
  by (auto simp: getOrThrow_def split: prod.splits sum.splits)

lemma resolve_keeps:
  "tool_disk env files \<Longrightarrow> resolveToolPath env path w = (r, w') \<Longrightarrow> files w' = files w"
  unfolding resolveToolPath_def tool_disk_def by (metis getOrThrow_world)

lemma key_keeps:
  assumes "tool_disk env files" and "getMutationQueueKey env path w = (r, w')"
  shows "files w' = files w"
proof -
  have abs: "files w1 = files w" if "getOrThrow (te_absolutePath env path) w = (q, w1)" for q w1
    using assms(1) getOrThrow_world [OF that] by (metis tool_disk_def)
  show ?thesis
  proof (cases "getOrThrow (te_absolutePath env path) w")
    case (Pair q w1)
    then show ?thesis
    proof (cases q)
      case (Inl e)
      with Pair assms(2) have "w1 = w'" by (simp add: getMutationQueueKey_def bindTool_def)
      with abs [OF Pair] show ?thesis by simp
    next
      case (Inr p)
      with Pair assms(2) have "w' = snd (te_canonicalPath env p w1)"
        by (auto simp: getMutationQueueKey_def bindTool_def split: prod.splits sum.splits if_splits)
      with abs [OF Pair] assms(1) show ?thesis by (simp add: tool_disk_def)
    qed
  qed
qed

definition edit_outcome ::
  "(js_string \<Rightarrow> js_string) \<Rightarrow> js_string \<Rightarrow> edit_text list \<Rightarrow> (js_string \<Rightarrow> js_string option) \<Rightarrow>
   (js_string \<Rightarrow> js_string option) \<Rightarrow> tool_error + tool_block list \<times> edit_details \<Rightarrow> bool" where
  "edit_outcome nfkc path edits before after r \<longleftrightarrow>
     (case r of
        Inr (blocks, d) \<Rightarrow> (\<exists>p applied. edited nfkc path edits p before after applied \<and>
          d = \<lparr>dt_baseContent = ae_baseContent applied, dt_newContent = ae_newContent applied\<rparr>)
      | Inl e \<Rightarrow> after = before \<or>
          e = ToolError (js ''Operation aborted'') \<and> (\<exists>p applied. edited nfkc path edits p before after applied) \<or>
          (\<exists>p err. e = editAccessError path err \<and> before p \<noteq> None \<and> (\<forall>q. q \<noteq> p \<longrightarrow> after q = before q)))"

lemma outcome_bind:
  assumes "bindTool m f w = (r, w')" and "\<And>q w1. m w = (q, w1) \<Longrightarrow> files w1 = before"
    and "\<And>x w1. m w = (Inr x, w1) \<Longrightarrow> files w1 = before \<Longrightarrow> f x w1 = (r, w') \<Longrightarrow>
      edit_outcome nfkc path edits before (files w') r"
  shows "edit_outcome nfkc path edits before (files w') r"
  using assms by (auto simp: bindTool_cases edit_outcome_def)

lemma outcome_error: "throwTool e w = (r, w') \<Longrightarrow> files w = before \<Longrightarrow> edit_outcome nfkc path edits before (files w') r"
  by (auto simp: throwTool_def edit_outcome_def)

text \<open>The last part of the body: the write and what follows it.\<close>

lemma write_outcome:
  assumes disk: "tool_disk env files" and before: "files w = before" "before p = Some raw"
    and "stripBom raw = (bom, content)"
    and "applyEditsToNormalizedContent nfkc (normalizeToLF content) edits path = Inr applied"
    and run: "bindTool (orAccessError path (te_writeFile env p
             (bom @ restoreLineEndings (ae_newContent applied) (detectLineEnding content)))) (\<lambda>_.
         bindTool (throw_if_aborted env) (\<lambda>_.
         returnTool (blocks, \<lparr>dt_baseContent = ae_baseContent applied, dt_newContent = ae_newContent applied\<rparr>))) w = (r, w')"
  shows "edit_outcome nfkc path edits before (files w') r"
proof -
  let ?t = "bom @ restoreLineEndings (ae_newContent applied) (detectLineEnding content)"
  consider (failed) e where "te_writeFile env p ?t w = (Inl e, w')" "r = Inl (editAccessError path e)"
    | (written) w1 where "te_writeFile env p ?t w = (Inr (), w1)"
      "bindTool (throw_if_aborted env) (\<lambda>_. returnTool (blocks,
         \<lparr>dt_baseContent = ae_baseContent applied, dt_newContent = ae_newContent applied\<rparr>)) w1 = (r, w')"
    using run by (auto simp: bindTool_cases [of "orAccessError path (te_writeFile env p ?t)"] orAccessError_cases)
  then show ?thesis
  proof cases
    case failed
    then have "\<forall>q. q \<noteq> p \<longrightarrow> files w' q = before q"
      using disk before unfolding tool_disk_def by metis
    with failed before show ?thesis by (auto simp: edit_outcome_def)
  next
    case written
    have "files w1 = before(p \<mapsto> ?t)" using disk before(1) written(1) by (auto simp: tool_disk_def)
    then have "edited nfkc path edits p before (files w1) applied"
      using assms(3-5) by (auto simp: edited_def)
    with written(2) show ?thesis
      by (auto simp: bindTool_cases returnTool_def edit_outcome_def dest!: throw_if_aborted_cases) blast
  qed
qed

lemma edit_body_outcome:
  assumes disk: "tool_disk env files" and run: "edit_body nfkc env path p edits w = (r, w')"
  shows "edit_outcome nfkc path edits (files w) (files w') r"
  using run unfolding edit_body_def
proof (rule outcome_bind, goal_cases)
  case (1 q w1)
  then show ?case by (auto dest: throw_if_aborted_cases)
next
  case (2 u w1)
  from 2(3) show ?case
  proof (rule outcome_bind, goal_cases)
    case (1 q w2)
    with 2(2) reading_keeps(3) [OF disk] show ?case by (auto simp: orAccessError_cases)
  next
    case kind: (2 kind w2)
    show ?case
    proof (cases "kind \<noteq> FK_file \<and> kind \<noteq> FK_symlink")
      case True
      with kind outcome_error [of _ w2 r w' files "files w"] show ?thesis by auto
    next
      case False
      from kind(3) [unfolded if_not_P [OF False]] show ?thesis
      proof (rule outcome_bind, goal_cases)
        case (1 q w3)
        with kind(2) reading_keeps(4) [OF disk] show ?case by (auto simp: orAccessError_cases)
      next
        case read: (2 raw w3)
        have "te_readTextFile env p w2 = (Inr raw, w3)" using read(1) by (simp add: orAccessError_cases)
        then have "files w2 p = Some raw" using disk unfolding tool_disk_def by blast
        with kind(2) have before: "files w p = Some raw" by simp
        from read(3) show ?case
        proof (rule outcome_bind, goal_cases)
          case (1 q w4)
          with read(2) show ?case by (auto dest: throw_if_aborted_cases)
        next
          case body: (2 u w4)
          obtain bom content where bom: "stripBom raw = (bom, content)" by (meson surj_pair)
          show ?case
          proof (cases "applyEditsToNormalizedContent nfkc (normalizeToLF content) edits path")
            case (Inl e)
            with body bom outcome_error [of _ w4 r w' files "files w"] show ?thesis by auto
          next
            case (Inr applied)
            with body(3) bom have "bindTool (throw_if_aborted env) (\<lambda>_.
                bindTool (orAccessError path (te_writeFile env p
                    (bom @ restoreLineEndings (ae_newContent applied) (detectLineEnding content)))) (\<lambda>_.
                bindTool (throw_if_aborted env) (\<lambda>_.
                returnTool ([TextBlock (js ''Successfully replaced '' @ js_nat (length edits) @ js '' block(s) in '' @ path @ js ''.'')],
                  \<lparr>dt_baseContent = ae_baseContent applied, dt_newContent = ae_newContent applied\<rparr>)))) w4 = (r, w')"
              by simp
            then show ?thesis
            proof (rule outcome_bind, goal_cases)
              case (1 q w5)
              with body(2) show ?case by (auto dest: throw_if_aborted_cases)
            next
              case (2 u w5)
              from write_outcome [OF disk 2(2) before bom Inr 2(3)] show ?case .
            qed
          qed
        qed
      qed
    qed
  qed
qed

text \<open>
  C23. An edit changes a file as a whole or not at all: if the tool succeeds, exactly one file changed, by the
  edits applied between its byte order mark and its line endings, and the details are of this change; if
  it fails, nothing changed, or the signal was aborted after the complete edit was written, or the write
  failed, and then no other file changed.
\<close>

theorem edit_is_atomic:
  assumes "tool_disk env files" and "edit_execute nfkc env path edits w = (r, w')"
  shows "edit_outcome nfkc path edits (files w) (files w') r"
  using assms(2) unfolding edit_execute_def
proof (rule outcome_bind, goal_cases)
  case (1 q w1)
  then show ?case by (auto simp: validateEditInput_def throwTool_def returnTool_def split: if_splits)
next
  case (2 u w1)
  from 2(3) show ?case
  proof (rule outcome_bind, goal_cases)
    case (1 q w2)
    with resolve_keeps [OF assms(1) 1] 2(2) show ?case by simp
  next
    case (2 p w2)
    from 2(3) show ?case unfolding withFileMutationQueue_def
    proof (rule outcome_bind, goal_cases)
      case (1 q w3)
      with key_keeps [OF assms(1) 1] 2(2) show ?case by simp
    next
      case (2 k w3)
      from edit_body_outcome [OF assms(1) 2(3)] 2(2) show ?case by simp
    qed
  qed
qed

text \<open>A world that is the files themselves, and an edit of one of them.\<close>

definition map_env :: "(js_string \<Rightarrow> js_string option) tool_env" where
  "map_env = \<lparr>te_absolutePath = (\<lambda>p w. (Inr p, w)), te_canonicalPath = (\<lambda>p w. (Inr p, w)),
     te_exists = (\<lambda>p w. (Inr (w p \<noteq> None), w)), te_fileKind = (\<lambda>p w. (Inr FK_file, w)),
     te_readTextFile = (\<lambda>p w. (case w p of None \<Rightarrow> Inl \<lparr>fe_code = FE_not_found, fe_message = []\<rparr> | Some t \<Rightarrow> Inr t, w)),
     te_readBinaryFile = (\<lambda>p w. (Inr [], w)), te_writeFile = (\<lambda>p t w. (Inr (), w(p \<mapsto> t))), te_aborted = (\<lambda>w. False)\<rparr>"

lemma map_env_disk: "tool_disk map_env (\<lambda>w. w)"
  by (auto simp: tool_disk_def map_env_def split: option.splits)

theorem edit_is_atomic_witness:
  "\<exists>d w'. edit_execute id map_env (js ''f'') [demo_edit ''b'' ''x''] [js ''f'' \<mapsto> js ''ab'', js ''g'' \<mapsto> js ''c''] = (Inr d, w') \<and>
     (\<exists>p applied. edited id (js ''f'') [demo_edit ''b'' ''x''] p [js ''f'' \<mapsto> js ''ab'', js ''g'' \<mapsto> js ''c''] w' applied)"
proof -
  have "isl (fst (edit_execute id map_env (js ''f'') [demo_edit ''b'' ''x''] [js ''f'' \<mapsto> js ''ab'', js ''g'' \<mapsto> js ''c''])) = False"
    by (simp add: edit_execute_def validateEditInput_def bindTool_def returnTool_def resolveToolPath_def getOrThrow_def
        map_env_def normalizeToolPath_def is_unicode_space_def withFileMutationQueue_def getMutationQueueKey_def edit_body_def
        throw_if_aborted_def orAccessError_def stripBom_def BOM_def edit_eval)
  then obtain d w' where run: "edit_execute id map_env (js ''f'') [demo_edit ''b'' ''x'']
      [js ''f'' \<mapsto> js ''ab'', js ''g'' \<mapsto> js ''c''] = (Inr d, w')"
    by (metis isl_def old.sum.exhaust surj_pair fst_conv)
  from edit_is_atomic [OF map_env_disk run] run show ?thesis
    by (auto simp: edit_outcome_def split: prod.splits)
qed

end
