(* ===== verification/Agent_Facade.thy ===== *)
theory Agent_Facade
  imports Agent_Loop
begin

text \<open>
  The class \<open>Agent\<close>, \<open>packages/agent/src/agent.ts\<close>: the transcript, the queues of steering and follow-up
  messages, and the life of a run around the agent loop. The state of the object is part of the world of the loop,
  so that tools, hooks and listeners can call the agent while it runs. The hooks, the tools and the
  listeners of an agent are fixed while it runs; listeners do not throw. Options that the agent only hands on to the
  provider (transport, session id, budgets) are not modelled.
\<close>

section \<open>The queue of pending messages\<close>

datatype queue_mode = QM_all | QM_one_at_a_time

record 'm pending_queue =
  pq_messages :: "'m list"
  pq_mode :: queue_mode

definition new_queue :: "queue_mode \<Rightarrow> 'm pending_queue" where
  "new_queue mode = \<lparr>pq_messages = [], pq_mode = mode\<rparr>"

definition enqueue :: "'m \<Rightarrow> 'm pending_queue \<Rightarrow> 'm pending_queue" where
  "enqueue m q = q\<lparr>pq_messages := pq_messages q @ [m]\<rparr>"

definition hasItems :: "'m pending_queue \<Rightarrow> bool" where
  "hasItems q \<longleftrightarrow> length (pq_messages q) > 0"

definition drain :: "'m pending_queue \<Rightarrow> 'm list \<times> 'm pending_queue" where
  "drain q =
     (if pq_mode q = QM_all then (pq_messages q, q\<lparr>pq_messages := []\<rparr>)
      else case pq_messages q of
          [] \<Rightarrow> ([], q)
        | m # ms \<Rightarrow> ([m], q\<lparr>pq_messages := ms\<rparr>))"

definition clear :: "'m pending_queue \<Rightarrow> 'm pending_queue" where
  "clear q = q\<lparr>pq_messages := []\<rparr>"

section \<open>State\<close>

record agent_model = session_model +
  md_api :: string

definition DEFAULT_MODEL :: agent_model where
  "DEFAULT_MODEL = \<lparr>sm_provider = ''unknown'', sm_modelId = ''unknown'', md_api = ''unknown''\<rparr>"

text \<open>\<open>activeRun\<close> is whether its signal is aborted, \<open>None\<close> between runs.\<close>

record agent_state =
  st_systemPrompt :: string
  st_model :: agent_model
  st_thinkingLevel :: string
  st_messages :: "agent_message list"
  st_isStreaming :: bool
  st_streamingMessage :: "agent_message option"
  st_pendingToolCalls :: "string set"
  st_errorMessage :: "string option"
  st_steeringQueue :: "agent_message pending_queue"
  st_followUpQueue :: "agent_message pending_queue"
  st_activeRun :: "bool option"

text \<open>The world of the loop: the agent, \<open>skipInitialSteeringPoll\<close> of the current run, and the rest.\<close>

record 'o agent_world =
  aw_state :: agent_state
  aw_skip :: bool
  aw_outer :: 'o

type_synonym 'o listener = "agent_event \<Rightarrow> 'o agent_world \<Rightarrow> 'o agent_world"

record 'o agent =
  og_tools :: "'o agent_world agent_tool list"
  og_listeners :: "(nat \<times> 'o listener) list"                    \<comment> \<open>in the order of subscription\<close>
  og_convertToLlm :: "agent_message list \<Rightarrow> 'o agent_world \<Rightarrow> message list \<times> 'o agent_world"
  og_transformContext :: "(agent_message list \<Rightarrow> 'o agent_world \<Rightarrow> agent_message list \<times> 'o agent_world) option"
  og_streamFunction :: "session_model \<Rightarrow> 'o agent_world llm_context \<Rightarrow> string option \<Rightarrow> string option \<Rightarrow>
    'o agent_world \<Rightarrow> (assistant_message_event list \<times> assistant_message) \<times> 'o agent_world"
  og_getApiKey :: "(string \<Rightarrow> 'o agent_world \<Rightarrow> string option \<times> 'o agent_world) option"
  og_beforeToolCall :: "('o agent_world tool_call_context \<Rightarrow> 'o agent_world \<Rightarrow>
    (string + before_result option) \<times> 'o agent_world) option"
  og_afterToolCall :: "('o agent_world tool_call_context \<Rightarrow> tool_result \<Rightarrow> bool \<Rightarrow> 'o agent_world \<Rightarrow>
    (string + after_result option) \<times> 'o agent_world) option"
  og_shouldStopAfterTurn :: "('o agent_world turn_context \<Rightarrow> 'o agent_world \<Rightarrow> bool \<times> 'o agent_world) option"
  og_prepareNextTurn :: "('o agent_world \<Rightarrow> (string + 'o agent_world turn_update option) \<times> 'o agent_world) option"
  og_prepareNextTurnWithContext :: "('o agent_world turn_context \<Rightarrow> 'o agent_world \<Rightarrow>
    (string + 'o agent_world turn_update option) \<times> 'o agent_world) option"
  og_toolExecution :: execution_mode
  og_now :: "'o agent_world \<Rightarrow> int"
  og_schedule :: "nat \<Rightarrow> 'o agent_world \<Rightarrow> nat \<times> 'o agent_world"
  og_validate :: "'o agent_world agent_tool \<Rightarrow> tool_call \<Rightarrow> string + json"

definition defaultConvertToLlm :: "agent_message list \<Rightarrow> message list" where
  "defaultConvertToLlm ms = List.map_filter (\<lambda>m. case m of Msg x \<Rightarrow> Some x | _ \<Rightarrow> None) ms"

text \<open>The constructor: the state from the initial state and the modes, each with its default.\<close>

record agent_initial_state =
  in_systemPrompt :: "string option"
  in_model :: "agent_model option"
  in_thinkingLevel :: "string option"
  in_messages :: "agent_message list option"

definition or_default :: "'a option \<Rightarrow> 'a \<Rightarrow> 'a" where
  "or_default x d = (case x of None \<Rightarrow> d | Some y \<Rightarrow> y)"

definition createMutableAgentState :: "agent_initial_state \<Rightarrow> queue_mode option \<Rightarrow> queue_mode option \<Rightarrow> agent_state" where
  "createMutableAgentState i steeringMode followUpMode =
     \<lparr>st_systemPrompt = or_default (in_systemPrompt i) [], st_model = or_default (in_model i) DEFAULT_MODEL,
      st_thinkingLevel = or_default (in_thinkingLevel i) ''off'', st_messages = or_default (in_messages i) [],
      st_isStreaming = False, st_streamingMessage = None, st_pendingToolCalls = {}, st_errorMessage = None,
      st_steeringQueue = new_queue (or_default steeringMode QM_one_at_a_time),
      st_followUpQueue = new_queue (or_default followUpMode QM_one_at_a_time), st_activeRun = None\<rparr>"

section \<open>Public operations on the state\<close>

definition steer :: "agent_message \<Rightarrow> agent_state \<Rightarrow> agent_state" where
  "steer m s = s\<lparr>st_steeringQueue := enqueue m (st_steeringQueue s)\<rparr>"

definition followUp :: "agent_message \<Rightarrow> agent_state \<Rightarrow> agent_state" where
  "followUp m s = s\<lparr>st_followUpQueue := enqueue m (st_followUpQueue s)\<rparr>"

definition clearSteeringQueue :: "agent_state \<Rightarrow> agent_state" where
  "clearSteeringQueue s = s\<lparr>st_steeringQueue := clear (st_steeringQueue s)\<rparr>"

definition clearFollowUpQueue :: "agent_state \<Rightarrow> agent_state" where
  "clearFollowUpQueue s = s\<lparr>st_followUpQueue := clear (st_followUpQueue s)\<rparr>"

definition clearAllQueues :: "agent_state \<Rightarrow> agent_state" where
  "clearAllQueues s = clearFollowUpQueue (clearSteeringQueue s)"

definition hasQueuedMessages :: "agent_state \<Rightarrow> bool" where
  "hasQueuedMessages s \<longleftrightarrow> hasItems (st_steeringQueue s) \<or> hasItems (st_followUpQueue s)"

definition set_steeringMode :: "queue_mode \<Rightarrow> agent_state \<Rightarrow> agent_state" where
  "set_steeringMode mode s = s\<lparr>st_steeringQueue := (st_steeringQueue s)\<lparr>pq_mode := mode\<rparr>\<rparr>"

definition set_followUpMode :: "queue_mode \<Rightarrow> agent_state \<Rightarrow> agent_state" where
  "set_followUpMode mode s = s\<lparr>st_followUpQueue := (st_followUpQueue s)\<lparr>pq_mode := mode\<rparr>\<rparr>"

definition abort :: "agent_state \<Rightarrow> agent_state" where
  "abort s = s\<lparr>st_activeRun := map_option (\<lambda>_. True) (st_activeRun s)\<rparr>"

definition reset :: "agent_state \<Rightarrow> string + agent_state" where
  "reset s =
     (if st_activeRun s \<noteq> None
      then Inl ''Agent is already processing. Wait for completion before resetting.''
      else Inr (clearSteeringQueue (clearFollowUpQueue
             (s\<lparr>st_messages := [], st_isStreaming := False, st_streamingMessage := None, st_pendingToolCalls := {},
                st_errorMessage := None\<rparr>))))"

definition subscribe :: "nat \<Rightarrow> 'o listener \<Rightarrow> 'o agent \<Rightarrow> 'o agent" where
  "subscribe i l ag =
     (if i \<in> fst ` set (og_listeners ag) then ag else ag\<lparr>og_listeners := og_listeners ag @ [(i, l)]\<rparr>)"

definition unsubscribe :: "nat \<Rightarrow> 'o agent \<Rightarrow> 'o agent" where
  "unsubscribe i ag = ag\<lparr>og_listeners := filter (\<lambda>(j, _). j \<noteq> i) (og_listeners ag)\<rparr>"

section \<open>Events\<close>

definition reduce_event :: "agent_event \<Rightarrow> agent_state \<Rightarrow> agent_state" where
  "reduce_event e s =
     (case e of
        EV_message_start m \<Rightarrow> s\<lparr>st_streamingMessage := Some m\<rparr>
      | EV_message_update m _ \<Rightarrow> s\<lparr>st_streamingMessage := Some m\<rparr>
      | EV_message_end m \<Rightarrow> s\<lparr>st_streamingMessage := None, st_messages := st_messages s @ [m]\<rparr>
      | EV_tool_start i _ _ \<Rightarrow> s\<lparr>st_pendingToolCalls := insert i (st_pendingToolCalls s)\<rparr>
      | EV_tool_end i _ _ _ \<Rightarrow> s\<lparr>st_pendingToolCalls := st_pendingToolCalls s - {i}\<rparr>
      | EV_turn_end am _ \<Rightarrow>
          (case am_errorMessage am of
             None \<Rightarrow> s
           | Some msg \<Rightarrow> if msg = [] then s else s\<lparr>st_errorMessage := Some msg\<rparr>)
      | EV_agent_end _ \<Rightarrow> s\<lparr>st_streamingMessage := None\<rparr>
      | _ \<Rightarrow> s)"

definition on_state :: "(agent_state \<Rightarrow> agent_state) \<Rightarrow> 'o agent_world \<Rightarrow> 'o agent_world" where
  "on_state f w = w\<lparr>aw_state := f (aw_state w)\<rparr>"

definition processEvents :: "'o agent \<Rightarrow> agent_event \<Rightarrow> 'o agent_world \<Rightarrow> (string + unit) \<times> 'o agent_world" where
  "processEvents ag e w =
     (let w = on_state (reduce_event e) w
      in if st_activeRun (aw_state w) = None then (Inl ''Agent listener invoked outside active run'', w)
         else (Inr (), fold (\<lambda>(_, l). l e) (og_listeners ag) w))"

section \<open>The configuration of a run\<close>

definition createContextSnapshot :: "'o agent \<Rightarrow> 'o agent_world \<Rightarrow> 'o agent_world agent_context" where
  "createContextSnapshot ag w =
     \<lparr>ac_systemPrompt = st_systemPrompt (aw_state w), ac_messages = st_messages (aw_state w), ac_tools = Some (og_tools ag)\<rparr>"

definition poll_steering :: "'o agent_world \<Rightarrow> agent_message list \<times> 'o agent_world" where
  "poll_steering w =
     (if aw_skip w then ([], w\<lparr>aw_skip := False\<rparr>)
      else case drain (st_steeringQueue (aw_state w)) of
          (ms, q) \<Rightarrow> (ms, on_state (\<lambda>s. s\<lparr>st_steeringQueue := q\<rparr>) w))"

definition poll_followUp :: "'o agent_world \<Rightarrow> agent_message list \<times> 'o agent_world" where
  "poll_followUp w =
     (case drain (st_followUpQueue (aw_state w)) of
        (ms, q) \<Rightarrow> (ms, on_state (\<lambda>s. s\<lparr>st_followUpQueue := q\<rparr>) w))"

definition next_turn_hook :: "'o agent \<Rightarrow> ('o agent_world turn_context \<Rightarrow> 'o agent_world \<Rightarrow>
    (string + 'o agent_world turn_update option) \<times> 'o agent_world) option" where
  "next_turn_hook ag =
     (case og_prepareNextTurnWithContext ag of
        Some f \<Rightarrow> Some f
      | None \<Rightarrow> map_option (\<lambda>f _. f) (og_prepareNextTurn ag))"

definition loop_environment :: "'o agent \<Rightarrow> 'o agent_world environment" where
  "loop_environment ag =
     \<lparr>env_emit = (\<lambda>e w. snd (processEvents ag e w)), env_aborted = (\<lambda>w. st_activeRun (aw_state w) = Some True),
      env_now = og_now ag, env_schedule = og_schedule ag, validateToolArguments = og_validate ag,
      streamFunction = og_streamFunction ag, cf_convertToLlm = og_convertToLlm ag,
      cf_transformContext = og_transformContext ag, cf_getApiKey = og_getApiKey ag, cf_apiKey = None,
      cf_toolExecution = Some (og_toolExecution ag), cf_getSteeringMessages = Some poll_steering,
      cf_getFollowUpMessages = Some poll_followUp, cf_prepareNextTurn = next_turn_hook ag,
      cf_shouldStopAfterTurn = og_shouldStopAfterTurn ag, cf_beforeToolCall = og_beforeToolCall ag,
      cf_afterToolCall = og_afterToolCall ag\<rparr>"

definition createLoopConfig :: "agent_state \<Rightarrow> loop_config" where
  "createLoopConfig s =
     \<lparr>cf_model = session_model.truncate (st_model s),
      cf_reasoning = (if st_thinkingLevel s = ''off'' then None else Some (st_thinkingLevel s))\<rparr>"

section \<open>Runs\<close>

definition finishRun :: "agent_state \<Rightarrow> agent_state" where
  "finishRun s =
     s\<lparr>st_isStreaming := False, st_streamingMessage := None, st_pendingToolCalls := {}, st_activeRun := None\<rparr>"

definition EMPTY_USAGE :: usage where
  "EMPTY_USAGE =
     \<lparr>us_input = 0, us_output = 0, us_cacheRead = 0, us_cacheWrite = 0, us_cacheWrite1h = None, us_reasoning = None,
      us_totalTokens = 0, us_cost = \<lparr>uc_input = JInt 0, uc_output = JInt 0, uc_cacheRead = JInt 0,
        uc_cacheWrite = JInt 0, uc_total = JInt 0\<rparr>\<rparr>"

definition failure_message :: "'o agent \<Rightarrow> string \<Rightarrow> bool \<Rightarrow> 'o agent_world \<Rightarrow> assistant_message" where
  "failure_message ag err wasAborted w =
     \<lparr>am_content = [TextContent [] None], am_api = md_api (st_model (aw_state w)),
      am_provider = sm_provider (st_model (aw_state w)), am_model = sm_modelId (st_model (aw_state w)),
      am_responseModel = None, am_responseId = None, am_diagnostics = None, am_usage = EMPTY_USAGE,
      am_stopReason = (if wasAborted then SR_aborted else SR_error), am_deferred = None, am_errorMessage = Some err,
      am_rawStopReason = None, am_endTurn = None, am_timestamp = og_now ag w\<rparr>"

fun process_all :: "'o agent \<Rightarrow> agent_event list \<Rightarrow> 'o agent_world \<Rightarrow> (string + unit) \<times> 'o agent_world" where
  "process_all ag [] w = (Inr (), w)"
| "process_all ag (e # es) w =
     (case processEvents ag e w of (Inl err, w) \<Rightarrow> (Inl err, w) | (Inr _, w) \<Rightarrow> process_all ag es w)"

definition handleRunFailure :: "'o agent \<Rightarrow> string \<Rightarrow> bool \<Rightarrow> 'o agent_world \<Rightarrow> (string + unit) \<times> 'o agent_world" where
  "handleRunFailure ag err wasAborted w =
     (let am = failure_message ag err wasAborted w
      in process_all ag [EV_message_start (AssistantMsg am), EV_message_end (AssistantMsg am), EV_turn_end am [],
           EV_agent_end [AssistantMsg am]] w)"

text \<open>A run that never returns is \<open>None\<close>.\<close>

type_synonym 'o operation = "'o agent_world \<Rightarrow> ((string + unit) \<times> 'o agent_world) option"

definition begin_run :: "agent_state \<Rightarrow> agent_state" where
  "begin_run s = s\<lparr>st_activeRun := Some False, st_isStreaming := True, st_streamingMessage := None, st_errorMessage := None\<rparr>"

definition runWithLifecycle :: "'o agent \<Rightarrow> 'o operation \<Rightarrow> 'o operation" where
  "runWithLifecycle ag executor w =
     (if st_activeRun (aw_state w) \<noteq> None then Some (Inl ''Agent is already processing.'', w)
      else case executor (on_state begin_run w) of
          None \<Rightarrow> None
        | Some (Inr _, w) \<Rightarrow> Some (Inr (), on_state finishRun w)
        | Some (Inl err, w) \<Rightarrow>
            (case handleRunFailure ag err (st_activeRun (aw_state w) = Some True) w of
               (r, w) \<Rightarrow> Some (r, on_state finishRun w)))"

definition run_outcome :: "((string + agent_message list) \<times> 'o agent_world ctl) option \<Rightarrow>
    ((string + unit) \<times> 'o agent_world) option" where
  "run_outcome res =
     (case res of
        None \<Rightarrow> None
      | Some (Inl err, c) \<Rightarrow> Some (Inl err, ctl_world c)
      | Some (Inr _, c) \<Rightarrow> Some (Inr (), ctl_world c))"

definition started :: "bool \<Rightarrow> 'o agent_world \<Rightarrow> 'o agent_world ctl" where
  "started skip w = \<lparr>ctl_world = w\<lparr>aw_skip := skip\<rparr>, ctl_events = []\<rparr>"

definition runPromptMessages :: "'o agent \<Rightarrow> agent_message list \<Rightarrow> bool \<Rightarrow> 'o operation" where
  "runPromptMessages ag messages skipInitialSteeringPoll =
     runWithLifecycle ag (\<lambda>w.
       run_outcome (runAgentLoop (loop_environment ag) messages (createContextSnapshot ag w)
         (createLoopConfig (aw_state w)) (started skipInitialSteeringPoll w)))"

definition runContinuation :: "'o agent \<Rightarrow> 'o operation" where
  "runContinuation ag =
     runWithLifecycle ag (\<lambda>w.
       run_outcome (runAgentLoopContinue (loop_environment ag) (createContextSnapshot ag w)
         (createLoopConfig (aw_state w)) (started False w)))"

datatype prompt_input =
    PI_messages "agent_message list"
  | PI_message agent_message
  | PI_text string "content list option"   \<comment> \<open>text and images\<close>

definition normalizePromptInput :: "prompt_input \<Rightarrow> int \<Rightarrow> agent_message list" where
  "normalizePromptInput input now =
     (case input of
        PI_messages ms \<Rightarrow> ms
      | PI_message m \<Rightarrow> [m]
      | PI_text txt images \<Rightarrow>
          [UserMsg \<lparr>um_content = UserBlocks (TextContent txt None # or_default images []), um_timestamp = now,
                    um_internal = None\<rparr>])"

definition prompt :: "'o agent \<Rightarrow> prompt_input \<Rightarrow> 'o operation" where
  "prompt ag input w =
     (if st_activeRun (aw_state w) \<noteq> None
      then Some (Inl ''Agent is already processing a prompt. Use steer() or followUp() to queue messages, or wait for completion.'', w)
      else runPromptMessages ag (normalizePromptInput input (og_now ag w)) False w)"

definition continue_run :: "'o agent \<Rightarrow> 'o operation" where
  "continue_run ag w =
     (if st_activeRun (aw_state w) \<noteq> None
      then Some (Inl ''Agent is already processing. Wait for completion before continuing.'', w)
      else if st_messages (aw_state w) = [] then Some (Inl ''No messages to continue from'', w)
      else if is_assistant (last (st_messages (aw_state w)))
      then (case drain (st_steeringQueue (aw_state w)) of (queuedSteering, q) \<Rightarrow>
            let w = on_state (\<lambda>s. s\<lparr>st_steeringQueue := q\<rparr>) w
            in if queuedSteering \<noteq> [] then runPromptMessages ag queuedSteering True w
               else (case drain (st_followUpQueue (aw_state w)) of (queuedFollowUps, q) \<Rightarrow>
                     let w = on_state (\<lambda>s. s\<lparr>st_followUpQueue := q\<rparr>) w
                     in if queuedFollowUps \<noteq> [] then runPromptMessages ag queuedFollowUps False w
                        else Some (Inl ''Cannot continue from message role: assistant'', w)))
      else runContinuation ag w)"

end
