(* ===== verification/Agent_Invariants.thy ===== *)
theory Agent_Invariants
  imports Agent_Loop Agent_Events
begin

text \<open>
  What a whole run does to the world. \<open>run_invariant\<close> is the interface between the loop and those who give it
  callbacks: a predicate of the world and the events so far that every emission and every callback keeps is kept
  by a run, however it ends. The predicate also sees the messages that were polled from a queue and are
  not announced yet: a poll adds what it returns, and announcing the first of them removes it.
\<close>

definition tools_of :: "'w agent_context \<Rightarrow> 'w agent_tool set" where
  "tools_of context = (case ac_tools context of None \<Rightarrow> {} | Some ts \<Rightarrow> set ts)"

text \<open>A callback takes the world only along \<open>R\<close>, a poll along \<open>P\<close>, which also sees the messages it returns.\<close>

definition within :: "('w \<Rightarrow> 'w \<Rightarrow> bool) \<Rightarrow> ('w \<Rightarrow> 'a \<times> 'w) \<Rightarrow> bool" where
  "within R f \<longleftrightarrow> (\<forall>w. R w (snd (f w)))"

definition polls :: "('w \<Rightarrow> agent_message list \<Rightarrow> 'w \<Rightarrow> bool) \<Rightarrow> ('w \<Rightarrow> agent_message list \<times> 'w) \<Rightarrow> bool" where
  "polls P f \<longleftrightarrow> (\<forall>w. P w (fst (f w)) (snd (f w)))"

definition tools_within :: "('w \<Rightarrow> 'w \<Rightarrow> bool) \<Rightarrow> 'w agent_context \<Rightarrow> bool" where
  "tools_within R context \<longleftrightarrow> (\<forall>t \<in> tools_of context. \<forall>i args. within R (at_execute t i args))"

text \<open>The callbacks of an environment, and what a replaced context may bring.\<close>

definition callbacks_within ::
  "('w \<Rightarrow> 'w \<Rightarrow> bool) \<Rightarrow> ('w \<Rightarrow> agent_message list \<Rightarrow> 'w \<Rightarrow> bool) \<Rightarrow> 'w environment \<Rightarrow> bool" where
  "callbacks_within R P env \<longleftrightarrow>
     (\<forall>n. within R (env_schedule env n)) \<and> (\<forall>m x r k. within R (streamFunction env m x r k)) \<and>
     (\<forall>ms. within R (cf_convertToLlm env ms)) \<and>
     (\<forall>f ms. cf_transformContext env = Some f \<longrightarrow> within R (f ms)) \<and>
     (\<forall>f p. cf_getApiKey env = Some f \<longrightarrow> within R (f p)) \<and>
     (\<forall>f t. cf_prepareNextTurn env = Some f \<longrightarrow> within R (f t) \<and>
        (\<forall>w u w' x. f t w = (Inr (Some u), w') \<and> tu_context u = Some x \<longrightarrow> tools_within R x)) \<and>
     (\<forall>f t. cf_shouldStopAfterTurn env = Some f \<longrightarrow> within R (f t)) \<and>
     (\<forall>f t. cf_beforeToolCall env = Some f \<longrightarrow> within R (f t)) \<and>
     (\<forall>f t r b. cf_afterToolCall env = Some f \<longrightarrow> within R (f t r b)) \<and>
     (\<forall>f. cf_getSteeringMessages env = Some f \<longrightarrow> polls P f) \<and>
     (\<forall>f. cf_getFollowUpMessages env = Some f \<longrightarrow> polls P f)"

lemma callbacks_withinD:
  assumes "callbacks_within R P env"
  shows "within R (env_schedule env n)" "within R (streamFunction env m x r k)" "within R (cf_convertToLlm env ms)"
    "cf_transformContext env = Some f1 \<Longrightarrow> within R (f1 ms)" "cf_getApiKey env = Some f2 \<Longrightarrow> within R (f2 s)"
    "cf_prepareNextTurn env = Some f3 \<Longrightarrow> within R (f3 t)"
    "cf_shouldStopAfterTurn env = Some f4 \<Longrightarrow> within R (f4 t)" "cf_beforeToolCall env = Some f5 \<Longrightarrow> within R (f5 t')"
    "cf_afterToolCall env = Some f6 \<Longrightarrow> within R (f6 t' res b)"
    "cf_getSteeringMessages env = Some f7 \<Longrightarrow> polls P f7" "cf_getFollowUpMessages env = Some f8 \<Longrightarrow> polls P f8"
  using assms unfolding callbacks_within_def by auto

lemma callbacks_within_context:
  assumes "callbacks_within R P env" and "cf_prepareNextTurn env = Some f"
    and "f t w = (Inr (Some u), w')" and "tu_context u = Some x"
  shows "tools_within R x"
  using assms unfolding callbacks_within_def by metis

definition is_message_end :: "agent_event \<Rightarrow> bool" where
  "is_message_end e \<longleftrightarrow> (case e of EV_message_end _ \<Rightarrow> True | _ \<Rightarrow> False)"

lemma is_message_end_simps [simp]:
  "is_message_end (EV_message_end m)" "\<not> is_message_end EV_agent_start" "\<not> is_message_end (EV_agent_end ms)"
  "\<not> is_message_end EV_turn_start" "\<not> is_message_end (EV_turn_end am rs)" "\<not> is_message_end (EV_message_start m)"
  "\<not> is_message_end (EV_message_update m u)" "\<not> is_message_end (EV_tool_start i n a)"
  "\<not> is_message_end (EV_tool_update i n a r)" "\<not> is_message_end (EV_tool_end i n r b)"
  "\<not> is_message_end (tool_start_event call)" "\<not> is_message_end (tool_update_event call r)"
  by (simp_all add: is_message_end_def tool_start_event_def tool_update_event_def)

locale run_invariant =
  fixes env :: "'w environment"
    and J :: "agent_message list \<Rightarrow> 'w ctl \<Rightarrow> bool"
    and R :: "'w \<Rightarrow> 'w \<Rightarrow> bool"
    and P :: "'w \<Rightarrow> agent_message list \<Rightarrow> 'w \<Rightarrow> bool"
  assumes callbacks: "callbacks_within R P env"
    and called_back: "J p c \<Longrightarrow> R (ctl_world c) w \<Longrightarrow> J p (c\<lparr>ctl_world := w\<rparr>)"
    and polled: "J [] c \<Longrightarrow> P (ctl_world c) ms w \<Longrightarrow> J ms (c\<lparr>ctl_world := w\<rparr>)"
    and emit_other: "J p c \<Longrightarrow> \<not> is_message_end e \<Longrightarrow> J p (emit env e c)"
    and emit_end: "J [] c \<Longrightarrow> J [] (emit env (EV_message_end m) c)"
    and emit_polled: "J (m # p) c \<Longrightarrow> J p (emit env (EV_message_end m) c)"
begin

lemmas called = callbacks_withinD [OF callbacks]

lemma keepsD: "within R f \<Longrightarrow> ask f c = (x, c') \<Longrightarrow> J p c \<Longrightarrow> J p c'"
  by (auto simp: within_def ask_def split: prod.splits intro!: called_back dest!: spec [of _ "ctl_world c"])

lemma pollsD: "polls P f \<Longrightarrow> ask f c = (ms, c') \<Longrightarrow> J [] c \<Longrightarrow> J ms c'"
  by (auto simp: polls_def ask_def split: prod.splits intro!: polled dest!: spec [of _ "ctl_world c"])

lemma keeps_option:
  assumes "ask_option (map_option g hook) d c = (x, c')" and "\<And>f. hook = Some f \<Longrightarrow> within R (g f)" and "J p c"
  shows "J p c'"
  using assms by (cases hook) (auto simp: ask_option_def dest: keepsD)

lemma message_kept: "J [] c \<Longrightarrow> J [] (emit_message env m c)"
  by (simp add: emit_message_def emits_def emit_other emit_end)

lemma polled_kept: "J p c \<Longrightarrow> J [] (emit_messages env p c)"
proof (induction p arbitrary: c)
  case (Cons m p)
  have "J p (emit_message env m c)" using Cons.prems by (simp add: emit_message_def emits_def emit_other emit_polled)
  with Cons.IH show ?case by simp
qed simp

lemma messages_kept: "J [] c \<Longrightarrow> J [] (emit_messages env ms c)"
  by (induction ms arbitrary: c) (simp_all add: message_kept)

lemma others_kept: "J p c \<Longrightarrow> \<forall>e \<in> set es. \<not> is_message_end e \<Longrightarrow> J p (emits env es c)"
  by (induction es arbitrary: c) (simp_all add: emits_def emit_other)

lemma finish_kept: "finish_response env final added ms c = (ms', c') \<Longrightarrow> J [] c \<Longrightarrow> J [] c'"
  by (auto simp: finish_response_def emit_end message_kept split: if_splits)

lemma stream_kept: "stream_loop env evs final added ms c = (ms', c') \<Longrightarrow> J [] c \<Longrightarrow> J [] c'"
proof (induction evs arbitrary: added ms c)
  case (Cons e evs)
  have emitted: "J [] (emit env (EV_message_update m u) c)" "J [] (emit env (EV_message_start m) c)" for m u
    using emit_other [OF Cons.prems(2)] by simp_all
  from Cons show ?case
    by (cases e; cases added) (auto simp: emitted intro: finish_kept)
qed (auto dest: finish_kept)

lemma response_kept:
  assumes "streamAssistantResponse env context config c = (am, context', c')" and "J [] c"
  shows "J [] c' \<and> tools_of context' = tools_of context"
proof -
  obtain messages c1 where 1: "ask_option (map_option (\<lambda>f. f (ac_messages context)) (cf_transformContext env)) (ac_messages context) c
      = (messages, c1)" by fastforce
  obtain llm c2 where 2: "ask (cf_convertToLlm env messages) c1 = (llm, c2)" by fastforce
  obtain key c3 where 3: "ask_option (map_option (\<lambda>f. f (sm_provider (cf_model config))) (cf_getApiKey env)) None c2 = (key, c3)"
    by fastforce
  have "J [] c1" using 1 by (rule keeps_option) (use called(4) assms(2) in auto)
  with keepsD [OF called(3) 2] have J2: "J [] c2" by blast
  have J3: "J [] c3" using 3 by (rule keeps_option) (use called(5) J2 in auto)
  define k where "k = (case key of Some k \<Rightarrow> if k = '''' then cf_apiKey env else Some k | None \<Rightarrow> cf_apiKey env)"
  define lc where "lc = \<lparr>lc_systemPrompt = ac_systemPrompt context, lc_messages = llm, lc_tools = ac_tools context\<rparr>"
  obtain evs final c4 where 4: "ask (streamFunction env (cf_model config) lc (cf_reasoning config) k) c3 = ((evs, final), c4)"
    by (metis prod.exhaust)
  obtain ms c5 where 5: "stream_loop env evs final False (ac_messages context) c4 = (ms, c5)" by fastforce
  from keepsD [OF called(2) 4 J3] stream_kept [OF 5] have "J [] c5" by blast
  moreover have "c' = c5" "context' = context\<lparr>ac_messages := ms\<rparr>"
    using assms(1) 1 2 3 4 5 by (auto simp: streamAssistantResponse_def k_def lc_def Let_def)
  ultimately show ?thesis by (simp add: tools_of_def)
qed

section \<open>Tool calls\<close>

lemma result_message_kept: "result_message env fc c = (m, c') \<Longrightarrow> J [] c \<Longrightarrow> J [] c'"
  by (auto simp: result_message_def Let_def message_kept)

lemma tool_end_kept: "J p c \<Longrightarrow> J p (emitToolExecutionEnd env fc c)"
  by (simp add: emitToolExecutionEnd_def emit_other)

lemma found_tool_keeps: "tools_within R context \<Longrightarrow> find_tool context n = Some t \<Longrightarrow> within R (at_execute t i args)"
  by (auto simp: find_tool_def tools_within_def tools_of_def find_Some_iff split: option.splits)

definition call_keeps :: "'w prepared_call \<Rightarrow> bool" where
  "call_keeps q \<longleftrightarrow> (\<forall>i args. within R (at_execute (pc_tool q) i args))"

lemma unless_aborted_kept:
  assumes "prepared_unless_aborted env call tool args c = (res, c')"
  shows "c' = c" and "res = Inr q \<Longrightarrow> pc_tool q = tool"
  using assms by (auto simp: prepared_unless_aborted_def immediate_def split: if_splits)

lemma prepare_kept:
  assumes "prepareToolCall env context am call c = (res, c')" and "J p c" and "tools_within R context"
  shows "J p c' \<and> (\<forall>q. res = Inr q \<longrightarrow> call_keeps q)"
proof (cases "find_tool context (tc_name call)")
  case None
  with assms show ?thesis by (auto simp: prepareToolCall_def immediate_def)
next
  case tool: (Some tool)
  have keeps: "call_keeps q" if "pc_tool q = tool" for q
    using found_tool_keeps [OF assms(3) tool] that by (simp add: call_keeps_def)
  show ?thesis
  proof (cases "andThen (prepareToolCallArguments tool call) (validateToolArguments env tool)")
    case (Inl msg)
    with assms tool show ?thesis by (auto simp: prepareToolCall_def immediate_def)
  next
    case (Inr args)
    show ?thesis
    proof (cases "cf_beforeToolCall env")
      case None
      with assms(1) tool Inr have "prepared_unless_aborted env call tool args c = (res, c')" by (simp add: prepareToolCall_def)
      from unless_aborted_kept [OF this] assms(2) keeps show ?thesis by blast
    next
      case (Some hook)
      define tx where "tx = \<lparr>tx_assistantMessage = am, tx_toolCall = call, tx_args = args, tx_context = context\<rparr>"
      obtain ans c1 where ans: "ask (hook tx) c = (ans, c1)" by fastforce
      from keepsD [OF called(8) [OF Some] ans assms(2)] have J1: "J p c1" .
      show ?thesis
      proof (cases ans)
        case (Inl msg)
        with assms(1) tool Inr Some ans have "res = immediate msg \<and> c' = c1" by (simp add: prepareToolCall_def tx_def)
        with J1 show ?thesis by (auto simp: immediate_def)
      next
        case before: (Inr before)
        have run: "(if aborted env c1 then (immediate ''Operation aborted'', c1)
            else (case blocked_call before of Some result \<Rightarrow> (Inl (result, True), c1)
                  | None \<Rightarrow> prepared_unless_aborted env call tool args c1)) = (res, c')"
          using assms(1) tool Inr Some ans before by (simp add: prepareToolCall_def tx_def)
        show ?thesis
        proof (cases "\<not> aborted env c1 \<and> blocked_call before = None")
          case True
          with run have "prepared_unless_aborted env call tool args c1 = (res, c')" by simp
          from unless_aborted_kept [OF this] J1 keeps show ?thesis by blast
        next
          case False
          with run J1 show ?thesis by (auto simp: immediate_def split: if_splits option.splits)
        qed
      qed
    qed
  qed
qed

lemma start_kept: "start_execution q c = (x, c') \<Longrightarrow> call_keeps q \<Longrightarrow> J p c \<Longrightarrow> J p c'"
  by (auto simp: start_execution_def call_keeps_def dest: keepsD)

lemma updates_kept: "J p c \<Longrightarrow> J p (emits env (map (tool_update_event call) rs) c)"
  by (rule others_kept) auto

lemma execute_kept: "executePreparedToolCall env q c = (x, c') \<Longrightarrow> call_keeps q \<Longrightarrow> J p c \<Longrightarrow> J p c'"
  by (auto simp: executePreparedToolCall_def intro: updates_kept dest: start_kept split: prod.splits)

lemma finalize_kept:
  assumes "finalizeExecutedToolCall env context am q executed c = (fc, c')" and "J p c"
  shows "J p c'"
proof (cases "cf_afterToolCall env")
  case (Some hook)
  define tx where "tx = \<lparr>tx_assistantMessage = am, tx_toolCall = pc_toolCall q, tx_args = pc_args q, tx_context = context\<rparr>"
  obtain ans c1 where ans: "ask (hook tx (fst executed) (snd executed)) c = (ans, c1)" by fastforce
  have "c' = c1"
    using assms(1) Some ans by (auto simp: finalizeExecutedToolCall_def tx_def Let_def split: sum.splits option.splits)
  with keepsD [OF called(9) [OF Some] ans assms(2)] show ?thesis by simp
qed (use assms in \<open>auto simp: finalizeExecutedToolCall_def Let_def\<close>)

lemma fail_calls_kept: "fail_calls env calls c = (ms, c') \<Longrightarrow> J [] c \<Longrightarrow> J [] c'"
proof (induction calls arbitrary: c ms c')
  case (Cons call calls)
  define fc where "fc = \<lparr>fc_toolCall = call, fc_result = createErrorToolResult (truncation_message call), fc_isError = True\<rparr>"
  obtain m c1 where 1: "result_message env fc (emitToolExecutionEnd env fc (emit env (tool_start_event call) c)) = (m, c1)" by fastforce
  obtain ms' c2 where 2: "fail_calls env calls c1 = (ms', c2)" by fastforce
  from result_message_kept [OF 1 tool_end_kept [OF emit_other [OF Cons.prems(2)]]] have "J [] c1" by simp
  with Cons.IH [OF 2] Cons.prems(1) 1 2 show ?case by (simp add: fc_def Let_def)
qed simp

lemma sequential_call_kept:
  assumes "sequential_call env context am call c = (fc, c')" and "J [] c" and "tools_within R context"
  shows "J [] c'"
proof -
  obtain res c1 where prep: "prepareToolCall env context am call (emit env (tool_start_event call) c) = (res, c1)" by fastforce
  have J1: "J [] c1" and q: "\<And>q. res = Inr q \<Longrightarrow> call_keeps q"
    using prepare_kept [OF prep emit_other [OF assms(2)] assms(3)] by auto
  show ?thesis
  proof (cases res)
    case (Inl im)
    with assms(1) prep show ?thesis by (cases im) (auto simp: sequential_call_def Let_def intro: tool_end_kept J1)
  next
    case (Inr q')
    obtain ex c2 where ex: "executePreparedToolCall env q' c1 = (ex, c2)" by fastforce
    obtain fc' c3 where fin: "finalizeExecutedToolCall env context am q' ex c2 = (fc', c3)" by fastforce
    from finalize_kept [OF fin execute_kept [OF ex q [OF Inr] J1]] have "J [] c3" .
    moreover have "c' = emitToolExecutionEnd env fc' c3" using assms(1) prep Inr ex fin by (auto simp: sequential_call_def)
    ultimately show ?thesis by (simp add: tool_end_kept)
  qed
qed

lemma sequential_loop_kept:
  "sequential_loop env context am calls c = (x, c') \<Longrightarrow> J [] c \<Longrightarrow> tools_within R context \<Longrightarrow> J [] c'"
proof (induction calls arbitrary: c x c')
  case (Cons call calls)
  obtain fc c1 where 1: "sequential_call env context am call c = (fc, c1)" by fastforce
  obtain m c2 where 2: "result_message env fc c1 = (m, c2)" by fastforce
  obtain y c3 where 3: "sequential_loop env context am calls c2 = (y, c3)" by fastforce
  from result_message_kept [OF 2 sequential_call_kept [OF 1 Cons.prems(2,3)]] have J2: "J [] c2" .
  with Cons.IH [OF 3] Cons.prems(3) have "J [] c3" by simp
  with J2 Cons.prems(1) 1 2 3 show ?case by (auto split: if_splits prod.splits)
qed simp

lemma preflight_kept:
  "preflight env context am calls c = (es, c') \<Longrightarrow> J [] c \<Longrightarrow> tools_within R context \<Longrightarrow>
   J [] c' \<and> (\<forall>q. CE_function q \<in> set es \<longrightarrow> call_keeps q)"
proof (induction calls arbitrary: c es c')
  case (Cons call calls)
  obtain res c1 where prep: "prepareToolCall env context am call (emit env (tool_start_event call) c) = (res, c1)" by fastforce
  have J1: "J [] c1" and q: "\<And>q. res = Inr q \<Longrightarrow> call_keeps q"
    using prepare_kept [OF prep emit_other [OF Cons.prems(2)] Cons.prems(3)] by auto
  define e where "e = (case res of Inl (r, err) \<Rightarrow> CE_finalized \<lparr>fc_toolCall = call, fc_result = r, fc_isError = err\<rparr>
    | Inr p \<Rightarrow> CE_function p)"
  define c2 where "c2 = (case res of
      Inl (r, err) \<Rightarrow> emitToolExecutionEnd env \<lparr>fc_toolCall = call, fc_result = r, fc_isError = err\<rparr> c1
    | Inr p \<Rightarrow> c1)"
  have J2: "J [] c2" using J1 by (auto simp: c2_def intro: tool_end_kept split: sum.splits)
  have e: "\<And>q. e = CE_function q \<Longrightarrow> call_keeps q" using q by (auto simp: e_def split: sum.splits prod.splits)
  obtain es' c3 where rest: "preflight env context am calls c2 = (es', c3)" by fastforce
  have "(es, c') = (if aborted env c2 then ([e], c2) else (e # es', c3))"
    using Cons.prems(1) prep rest by (auto simp: e_def c2_def Let_def split: sum.splits prod.splits if_splits)
  with Cons.IH [OF rest J2 Cons.prems(3)] J2 e show ?case by (auto split: if_splits)
qed simp

lemma start_tasks_kept:
  "start_tasks es c = (ts, c') \<Longrightarrow> J [] c \<Longrightarrow> \<forall>q. CE_function q \<in> set es \<longrightarrow> call_keeps q \<Longrightarrow> J [] c'"
proof (induction es c arbitrary: ts c' rule: start_tasks.induct)
  case (3 q es c)
  obtain partials out c1 where 1: "start_execution q c = ((partials, out), c1)" by (metis prod.exhaust)
  obtain ts' c2 where 2: "start_tasks es c1 = (ts', c2)" by fastforce
  from "3.prems" have "J [] c1" using start_kept [OF 1] by simp
  with "3.IH" [OF 1 [symmetric] refl 2] "3.prems" 1 2 show ?case by simp
qed (auto split: prod.splits)

lemma task_step_kept: "task_step env context am t c = (t', c') \<Longrightarrow> J [] c \<Longrightarrow> J [] c'"
  by (cases "(env, context, am, t, c)" rule: task_step.cases)
    (auto intro: emit_other tool_end_kept dest: finalize_kept split: prod.splits)

lemma run_tasks_kept: "run_tasks env context am ts c = (ts', c') \<Longrightarrow> J [] c \<Longrightarrow> J [] c'"
proof (induction "sum_list (map task_weight ts)" arbitrary: ts c rule: less_induct)
  case less
  show ?case
  proof (cases "unfinished_tasks ts = []")
    case True
    with less.prems show ?thesis by (simp add: run_tasks.simps [of env "context" am ts c])
  next
    case False
    obtain k c1 where k: "ask (env_schedule env (length (unfinished_tasks ts))) c = (k, c1)" by fastforce
    define i where "i = scheduled (unfinished_tasks ts) k"
    obtain t c2 where t: "task_step env context am (ts ! i) c1 = (t, c2)" by fastforce
    have i: "i < length ts" "finished_call (ts ! i) = None" using scheduled_unfinished [OF False] by (simp_all add: i_def)
    from task_step_kept [OF t keepsD [OF called(1) k less.prems(2)]] have J2: "J [] c2" .
    have "run_tasks env context am (ts[i := t]) c2 = (ts', c')"
      using less.prems(1) False k t by (simp add: run_tasks.simps [of env "context" am ts c] i_def Let_def)
    moreover have "sum_list (map task_weight (ts[i := t])) < sum_list (map task_weight ts)"
      using sum_list_update_less [OF i(1) task_step_weight [OF i(2) t]] .
    ultimately show ?thesis using less.hyps J2 by blast
  qed
qed

lemma result_messages_kept: "result_messages env fcs c = (ms, c') \<Longrightarrow> J [] c \<Longrightarrow> J [] c'"
proof (induction fcs arbitrary: c ms c')
  case (Cons fc fcs)
  obtain m c1 where 1: "result_message env fc c = (m, c1)" by fastforce
  obtain ms' c2 where 2: "result_messages env fcs c1 = (ms', c2)" by fastforce
  from Cons.IH [OF 2 result_message_kept [OF 1 Cons.prems(2)]] Cons.prems(1) 1 2 show ?case by simp
qed simp

lemma batch_kept:
  assumes "executeToolCalls env context am c = (b, c')" and "J [] c" and "tools_within R context"
  shows "J [] c'"
proof -
  let ?calls = "toolCalls_of (am_content am)"
  have seq: "J [] c'" if "executeToolCallsSequential env context am ?calls c = (b, c')"
    using that assms(2,3) by (auto simp: executeToolCallsSequential_def dest: sequential_loop_kept split: prod.splits)
  have par: "J [] c'" if run: "executeToolCallsParallel env context am ?calls c = (b, c')"
  proof -
    obtain es c1 where 1: "preflight env context am ?calls c = (es, c1)" by fastforce
    obtain ts c2 where 2: "start_tasks es c1 = (ts, c2)" by fastforce
    obtain ts' c3 where 3: "run_tasks env context am ts c2 = (ts', c3)" by fastforce
    obtain ms c4 where 4: "result_messages env (List.map_filter finished_call ts') c3 = (ms, c4)" by fastforce
    from preflight_kept [OF 1 assms(2,3)] start_tasks_kept [OF 2] run_tasks_kept [OF 3] result_messages_kept [OF 4]
    have "J [] c4" by blast
    with run 1 2 3 4 show ?thesis by (simp add: executeToolCallsParallel_def Let_def)
  qed
  from assms(1) seq par show ?thesis by (auto simp: executeToolCalls_def Let_def split: if_splits)
qed

lemma run_batch_kept:
  assumes "run_batch env context am c = (x, c')" and "J [] c" and "tools_within R context"
  shows "J [] c'"
  using assms
  by (auto simp: run_batch_def Let_def failToolCallsFromTruncatedMessage_def dest: fail_calls_kept batch_kept
      split: if_splits prod.splits)

section \<open>Turns and runs\<close>

definition turn_kept :: "'w turn_result \<Rightarrow> 'w ctl \<Rightarrow> bool" where
  "turn_kept r c \<longleftrightarrow> (case r of TR_next s \<Rightarrow> J (ls_pending s) c \<and> tools_within R (ls_context s) | _ \<Rightarrow> J [] c)"

lemma apply_update_tools:
  assumes "cf_prepareNextTurn env = Some f" and "f t w = (Inr upd, w')" and "tools_within R (ls_context s)"
  shows "tools_within R (ls_context (apply_update upd s))"
  using assms callbacks_within_context [OF callbacks] by (auto simp: apply_update_def split: option.splits)

lemma end_turn_kept:
  assumes "end_turn env am results s c = (r, c')" and "J [] c" and "tools_within R (ls_context s)"
  shows "turn_kept r c'"
proof -
  let ?t = "\<lambda>s. \<lparr>tn_message = am, tn_toolResults = results, tn_context = ls_context s, tn_newMessages = ls_newMessages s\<rparr>"
  obtain ans c1 where 1: "ask_option (map_option (\<lambda>f. f (?t s)) (cf_prepareNextTurn env)) (Inr None) c = (ans, c1)" by fastforce
  have J1: "J [] c1" using 1 by (rule keeps_option) (use called(6) assms(2) in auto)
  show ?thesis
  proof (cases ans)
    case (Inl err)
    with assms(1) 1 J1 show ?thesis by (auto simp: end_turn_def turn_kept_def)
  next
    case (Inr upd)
    define s1 where "s1 = apply_update upd s"
    have tools: "tools_within R (ls_context s1)"
    proof (cases "cf_prepareNextTurn env")
      case None
      with 1 Inr have "upd = None" by (simp add: ask_option_def)
      with assms(3) show ?thesis by (simp add: s1_def apply_update_def)
    next
      case (Some f)
      with 1 Inr obtain w' where "f (?t s) (ctl_world c) = (Inr upd, w')"
        by (auto simp: ask_option_def ask_def split: prod.splits)
      from apply_update_tools [OF Some this assms(3)] show ?thesis by (simp add: s1_def)
    qed
    obtain stop c2 where 2: "ask_option (map_option (\<lambda>f. f (?t s1)) (cf_shouldStopAfterTurn env)) False c1 = (stop, c2)" by fastforce
    have J2: "J [] c2" using 2 by (rule keeps_option) (use called(7) J1 in auto)
    obtain pending c3 where 3: "ask_option (cf_getSteeringMessages env) [] c2 = (pending, c3)" by fastforce
    have J3: "J pending c3"
      using 3 J2 by (cases "cf_getSteeringMessages env") (auto simp: ask_option_def dest: called(10) intro: pollsD)
    show ?thesis
      using assms(1) 1 Inr 2 3 J2 J3 tools
      by (auto simp: end_turn_def turn_kept_def Let_def s1_def emit_other split: if_splits)
  qed
qed

lemma begin_turn_kept:
  assumes "begin_turn env s c = (s', c')" and "J (ls_pending s) c"
  shows "J [] c' \<and> tools_of (ls_context s') = tools_of (ls_context s)"
  using assms
  by (auto simp: begin_turn_def Let_def push_both_def tools_of_def intro!: polled_kept emit_other)

lemma turn_keeps:
  assumes "turn env s c = (r, c')" and "J (ls_pending s) c" and "tools_within R (ls_context s)"
  shows "turn_kept r c'"
proof -
  obtain s1 c1 where 1: "begin_turn env s c = (s1, c1)" by fastforce
  from begin_turn_kept [OF 1 assms(2)] assms(3) have J1: "J [] c1" and t1: "tools_within R (ls_context s1)"
    by (auto simp: tools_within_def)
  obtain am ctx c2 where 2: "streamAssistantResponse env (ls_context s1) (ls_config s1) c1 = (am, ctx, c2)" by (metis prod.exhaust)
  from response_kept [OF 2 J1] t1 have J2: "J [] c2" and t2: "tools_within R ctx" by (auto simp: tools_within_def)
  define s2 where "s2 = s1\<lparr>ls_context := ctx, ls_newMessages := ls_newMessages s1 @ [AssistantMsg am]\<rparr>"
  show ?thesis
  proof (cases "am_stopReason am = SR_error \<or> am_stopReason am = SR_aborted")
    case True
    with assms(1) 1 2 J2 show ?thesis
      by (auto simp: turn_def turn_kept_def Let_def intro!: others_kept)
  next
    case False
    obtain results goOn c3 where 3: "run_batch env ctx am c2 = ((results, goOn), c3)" by (metis prod.exhaust)
    from run_batch_kept [OF 3 J2 t2] have J3: "J [] c3" .
    define s3 where "s3 = (push_both (map ToolResultMsg results) s2)\<lparr>ls_more := goOn\<rparr>"
    have "end_turn env am results s3 (emit env (EV_turn_end am results) c3) = (r, c')"
      using assms(1) 1 2 3 False by (simp add: turn_def Let_def s2_def s3_def)
    moreover have "tools_within R (ls_context s3)" using t2 by (simp add: s3_def s2_def push_both_def tools_within_def tools_of_def)
    ultimately show ?thesis using end_turn_kept emit_other [OF J3] by simp
  qed
qed

lemma run_step_kept:
  assumes "(if ls_more s \<or> ls_pending s \<noteq> []
      then (case turn env s c of
              (TR_next s', c') \<Rightarrow> run s' c'
            | (TR_return ms, c') \<Rightarrow> Some (Inr ms, c')
            | (TR_throw e, c') \<Rightarrow> Some (Inl e, c'))
      else (case ask_option (cf_getFollowUpMessages env) [] c of
              (followUps, c') \<Rightarrow>
                if followUps \<noteq> [] then run (s\<lparr>ls_pending := followUps, ls_more := True\<rparr>) c'
                else Some (Inr (ls_newMessages s), emit env (EV_agent_end (ls_newMessages s)) c'))) = Some y"
    and "J (ls_pending s) c" and "tools_within R (ls_context s)"
    and IH: "\<And>s c y. run s c = Some y \<Longrightarrow> J (ls_pending s) c \<Longrightarrow> tools_within R (ls_context s) \<Longrightarrow> J [] (snd y)"
  shows "J [] (snd y)"
proof (cases "ls_more s \<or> ls_pending s \<noteq> []")
  case True
  obtain r c1 where t: "turn env s c = (r, c1)" by fastforce
  with assms(1) True turn_keeps [OF t assms(2,3)] IH show ?thesis
    by (cases r) (auto simp: turn_kept_def)
next
  case False
  obtain ms c1 where f: "ask_option (cf_getFollowUpMessages env) [] c = (ms, c1)" by fastforce
  have "J ms c1"
    using f assms(2) False by (cases "cf_getFollowUpMessages env") (auto simp: ask_option_def dest: called(11) intro: pollsD)
  with assms(1,3) IH [of "s\<lparr>ls_pending := ms, ls_more := True\<rparr>" c1 y] f False show ?thesis by (auto simp: emit_other split: if_splits)
qed

lemma run_loop_kept:
  assumes "run_loop env s c = Some y" and "J (ls_pending s) c" and "tools_within R (ls_context s)"
  shows "J [] (snd y)"
proof -
  have "env = env \<longrightarrow> J (ls_pending s) c \<longrightarrow> tools_within R (ls_context s) \<longrightarrow> J [] (snd y)"
    by (rule run_loop.raw_induct [of "\<lambda>e s c y. e = env \<longrightarrow> J (ls_pending s) c \<longrightarrow> tools_within R (ls_context s) \<longrightarrow> J [] (snd y)",
          OF _ assms(1)]) (blast intro: run_step_kept)
  with assms(2,3) show ?thesis by blast
qed

lemma runLoop_kept:
  assumes "runLoop env context new config c = Some y" and "J [] c" and "tools_within R context"
  shows "J [] (snd y)"
proof -
  obtain pending c1 where p: "ask_option (cf_getSteeringMessages env) [] c = (pending, c1)" by fastforce
  have "J pending c1"
    using p assms(2) by (cases "cf_getSteeringMessages env") (auto simp: ask_option_def dest: called(10) intro: pollsD)
  with assms(1,3) p show ?thesis by (auto simp: runLoop_def dest!: run_loop_kept)
qed

lemma runAgentLoop_kept:
  assumes "runAgentLoop env prompts context config c = Some y" and "J [] c" and "tools_within R context"
  shows "J [] (snd y)"
proof -
  have "J [] (emit_messages env prompts (emits env [EV_agent_start, EV_turn_start] c))"
    using assms(2) by (intro messages_kept others_kept) auto
  moreover have "tools_within R (context\<lparr>ac_messages := ac_messages context @ prompts\<rparr>)"
    using assms(3) by (simp add: tools_within_def tools_of_def)
  ultimately show ?thesis using assms(1) runLoop_kept by (fastforce simp: runAgentLoop_def Let_def)
qed

lemma runAgentLoopContinue_kept:
  assumes "runAgentLoopContinue env context config c = Some y" and "J [] c" and "tools_within R context"
  shows "J [] (snd y)"
proof -
  have "J [] (emits env [EV_agent_start, EV_turn_start] c)" using assms(2) by (intro others_kept) auto
  with assms show ?thesis by (auto simp: runAgentLoopContinue_def dest: runLoop_kept split: if_splits)
qed

end

end
