(* ===== verification/Agent_Facade_Properties.thy ===== *)
theory Agent_Facade_Properties
  imports Agent_Facade Agent_Invariants Agent_Properties "HOL-Library.Sublist"
begin

text \<open>
  The properties of the class \<open>Agent\<close>, composed with those of the loop: what a run does to the transcript and the
  state of the agent, what the queues promise, and that no polled message is lost by the loop.
\<close>

section \<open>The queues\<close>

text \<open>A history of a queue: what was put in, taken out, and whether the rest was thrown away.\<close>

datatype 'm queue_op = Q_enqueue 'm | Q_drain | Q_clear | Q_mode queue_mode

fun perform :: "'m queue_op \<Rightarrow> 'm pending_queue \<Rightarrow> 'm list \<times> 'm pending_queue" where
  "perform (Q_enqueue m) q = ([], enqueue m q)"
| "perform Q_drain q = drain q"
| "perform Q_clear q = ([], clear q)"
| "perform (Q_mode mode) q = ([], q\<lparr>pq_mode := mode\<rparr>)"

fun queue_ops :: "'m queue_op list \<Rightarrow> 'm pending_queue \<Rightarrow> 'm list list \<times> 'm pending_queue" where
  "queue_ops [] q = ([], q)"
| "queue_ops (x # xs) q =
     (case perform x q of (out, q) \<Rightarrow> case queue_ops xs q of (outs, q) \<Rightarrow> (out # outs, q))"

fun enqueued :: "'m queue_op list \<Rightarrow> 'm list" where
  "enqueued [] = []"
| "enqueued (Q_enqueue m # xs) = m # enqueued xs"
| "enqueued (_ # xs) = enqueued xs"

lemma drain_parts: "drain q = (out, q') \<Longrightarrow> out @ pq_messages q' = pq_messages q \<and> pq_mode q' = pq_mode q"
  by (auto simp: drain_def split: if_splits list.splits)

lemma drain_all: "fst (drain q) = [] \<longleftrightarrow> pq_messages q = []"
  by (auto simp: drain_def split: list.splits)

text \<open>
  Without a clear, what was drained followed by what is still queued is what was put in, in that order: nothing is
  lost, doubled or reordered, whatever the mode and however it changes; in the mode \<open>one-at-a-time\<close> a drain
  gives the oldest message alone.
\<close>

theorem queue_keeps_order:
  assumes "queue_ops xs q = (outs, q')" and "Q_clear \<notin> set xs"
  shows "concat outs @ pq_messages q' = pq_messages q @ enqueued xs \<and>
    fst (drain q') = (if pq_mode q' = QM_all then pq_messages q' else take 1 (pq_messages q'))"
proof -
  have "concat outs @ pq_messages q' = pq_messages q @ enqueued xs"
    using assms
  proof (induction xs arbitrary: q outs)
    case (Cons x xs)
    obtain out q1 where 1: "perform x q = (out, q1)" by fastforce
    obtain outs' where 2: "queue_ops xs q1 = (outs', q')" and outs: "outs = out # outs'"
      using Cons.prems(1) 1 by (auto split: prod.splits)
    from Cons.IH [OF 2] Cons.prems(2) have "concat outs' @ pq_messages q' = pq_messages q1 @ enqueued xs" by simp
    with 1 outs Cons.prems(2) show ?case by (cases x) (auto simp: enqueue_def dest: drain_parts)
  qed simp
  then show ?thesis by (cases "pq_messages q'") (auto simp: drain_def)
qed

theorem queue_keeps_order_witness:
  "\<exists>outs q'. queue_ops [Q_enqueue (1 :: nat), Q_enqueue 2, Q_drain, Q_mode QM_all, Q_enqueue 3, Q_drain]
       (new_queue QM_one_at_a_time) = (outs, q') \<and> concat outs @ pq_messages q' = [1, 2, 3] \<and> pq_messages q' = []"
proof -
  let ?xs = "[Q_enqueue (1 :: nat), Q_enqueue 2, Q_drain, Q_mode QM_all, Q_enqueue 3, Q_drain]"
  obtain outs q' where r: "queue_ops ?xs (new_queue QM_one_at_a_time) = (outs, q')" by fastforce
  from queue_keeps_order [OF r] have "concat outs @ pq_messages q' = [1, 2, 3]" by (simp add: new_queue_def)
  moreover from r have "pq_messages q' = []" by (auto simp: new_queue_def enqueue_def drain_def)
  ultimately show ?thesis using r by blast
qed

section \<open>What callbacks may do to a running agent\<close>

text \<open>The public operations that change an agent while it runs, other than an assignment of the transcript.\<close>

inductive public_call :: "agent_state \<Rightarrow> agent_state \<Rightarrow> bool" where
  "public_call s (steer m s)"
| "public_call s (followUp m s)"
| "public_call s (clearSteeringQueue s)"
| "public_call s (clearFollowUpQueue s)"
| "public_call s (set_steeringMode mode s)"
| "public_call s (set_followUpMode mode s)"
| "public_call s (abort s)"
| "public_call s (s\<lparr>st_systemPrompt := p\<rparr>)"
| "public_call s (s\<lparr>st_model := m\<rparr>)"
| "public_call s (s\<lparr>st_thinkingLevel := l\<rparr>)"

definition calls_only :: "'o agent_world \<Rightarrow> 'o agent_world \<Rightarrow> bool" where
  "calls_only w w' \<longleftrightarrow> public_call\<^sup>*\<^sup>* (aw_state w) (aw_state w') \<and> aw_skip w' = aw_skip w"

definition agent_polls :: "'o agent_world \<Rightarrow> agent_message list \<Rightarrow> 'o agent_world \<Rightarrow> bool" where
  "agent_polls w ms w' \<longleftrightarrow> (ms, w') \<in> {poll_steering w, poll_followUp w}"

text \<open>Tools, hooks, provider and listeners change the agent by its public operations alone.\<close>

definition clients_ok :: "'o agent \<Rightarrow> bool" where
  "clients_ok ag \<longleftrightarrow>
     callbacks_within calls_only agent_polls (loop_environment ag) \<and>
     (\<forall>t \<in> set (og_tools ag). \<forall>i args. within calls_only (at_execute t i args)) \<and>
     (\<forall>(i, l) \<in> set (og_listeners ag). \<forall>e w. calls_only w (l e w))"

definition run_fields :: "agent_state \<Rightarrow> agent_message list \<times> bool \<times> agent_message option \<times> string set \<times> bool" where
  "run_fields s = (st_messages s, st_isStreaming s, st_streamingMessage s, st_pendingToolCalls s, st_activeRun s = None)"

lemma public_call_fields: "public_call\<^sup>*\<^sup>* s s' \<Longrightarrow> run_fields s' = run_fields s"
proof (induction rule: rtranclp_induct)
  case (step s1 s2)
  from step.hyps(2) have "run_fields s2 = run_fields s1"
    by cases (auto simp: run_fields_def steer_def followUp_def clearSteeringQueue_def clearFollowUpQueue_def
        set_steeringMode_def set_followUpMode_def abort_def)
  with step.IH show ?case by simp
qed simp

lemma calls_only_fields: "calls_only w w' \<Longrightarrow> run_fields (aw_state w') = run_fields (aw_state w)"
  by (simp add: calls_only_def public_call_fields)

lemma polls_fields: "agent_polls w ms w' \<Longrightarrow> run_fields (aw_state w') = run_fields (aw_state w)"
  by (auto simp: agent_polls_def poll_steering_def poll_followUp_def on_state_def run_fields_def split: if_splits prod.splits)

lemma listeners_fields:
  assumes "clients_ok ag"
  shows "run_fields (aw_state (fold (\<lambda>(_, l). l e) (og_listeners ag) w)) = run_fields (aw_state w)"
proof -
  have "\<forall>(i, l) \<in> set ls. \<forall>e w. calls_only w (l e w) \<Longrightarrow>
      run_fields (aw_state (fold (\<lambda>(_, l). l e) ls w)) = run_fields (aw_state w)" for ls :: "(nat \<times> 'a listener) list"
    by (induction ls arbitrary: w) (auto dest: calls_only_fields)
  with assms show ?thesis by (simp add: clients_ok_def)
qed

text \<open>An event is processed without an error while a run is active, and its message is appended.\<close>

lemma process_running:
  assumes "clients_ok ag" and "processEvents ag e w = (r, w')" and "st_activeRun (aw_state w) \<noteq> None"
  shows "r = Inr () \<and> st_activeRun (aw_state w') \<noteq> None \<and>
    st_messages (aw_state w') = st_messages (aw_state w) @ ended [e]"
proof -
  let ?w = "on_state (reduce_event e) w"
  have active: "st_activeRun (aw_state ?w) \<noteq> None"
    using assms(3) by (auto simp: on_state_def reduce_event_def split: agent_event.splits option.splits)
  then have r: "r = Inr ()" and w': "w' = fold (\<lambda>(_, l). l e) (og_listeners ag) ?w"
    using assms(2) by (auto simp: processEvents_def Let_def)
  have fields: "run_fields (aw_state w') = run_fields (aw_state ?w)" unfolding w' by (rule listeners_fields [OF assms(1)])
  have "st_messages (aw_state ?w) = st_messages (aw_state w) @ ended [e]"
    by (cases e) (auto simp: on_state_def reduce_event_def split: option.splits)
  with r active fields show ?thesis by (auto simp: run_fields_def)
qed

section \<open>The transcript of a run\<close>

text \<open>The invariant of a run that started with the transcript \<open>old\<close> and whose events begin with \<open>es\<close>.\<close>

definition mirrors :: "agent_message list \<Rightarrow> agent_event list \<Rightarrow> agent_message list \<Rightarrow> 'o agent_world ctl \<Rightarrow> bool" where
  "mirrors old es polled c \<longleftrightarrow>
     st_activeRun (aw_state (ctl_world c)) \<noteq> None \<and>
     (\<exists>fs. ctl_events c = es @ fs) \<and> st_messages (aw_state (ctl_world c)) = old @ ended (ctl_events c)"

lemma emit_mirrors:
  assumes "clients_ok ag" and "mirrors old es p c"
  shows "mirrors old es q (emit (loop_environment ag) e c)"
proof -
  obtain r w' where r: "processEvents ag e (ctl_world c) = (r, w')" by fastforce
  from process_running [OF assms(1) r] assms(2) r show ?thesis
    by (auto simp: mirrors_def emit_def loop_environment_def ended_append)
qed

text \<open>An agent with well-behaved clients: what a run of its loop keeps, for every transcript and beginning of events.\<close>

locale agent_clients =
  fixes ag :: "'o agent"
  assumes clients: "clients_ok ag"

sublocale agent_clients \<subseteq> transcript: run_invariant "loop_environment ag" "mirrors old es" calls_only agent_polls
  for old es
proof unfold_locales
  show "callbacks_within calls_only agent_polls (loop_environment ag)" using clients by (simp add: clients_ok_def)
next
  fix p :: "agent_message list" and c :: "'a agent_world ctl" and w
  assume "mirrors old es p c" "calls_only (ctl_world c) w"
  then show "mirrors old es p (c\<lparr>ctl_world := w\<rparr>)"
    by (auto simp: mirrors_def run_fields_def dest!: calls_only_fields)
next
  fix ms and c :: "'a agent_world ctl" and w
  assume "mirrors old es [] c" "agent_polls (ctl_world c) ms w"
  then show "mirrors old es ms (c\<lparr>ctl_world := w\<rparr>)"
    by (auto simp: mirrors_def run_fields_def dest!: polls_fields)
qed (rule emit_mirrors [OF clients], assumption)+

definition settled :: "agent_state \<Rightarrow> bool" where
  "settled s \<longleftrightarrow> st_activeRun s = None \<and> \<not> st_isStreaming s \<and> st_streamingMessage s = None \<and> st_pendingToolCalls s = {}"

lemma settled_finishRun: "settled (finishRun s)" "st_messages (finishRun s) = st_messages s"
  by (simp_all add: settled_def finishRun_def)

context agent_clients
begin

lemma failure_handled:
  assumes "handleRunFailure ag err b w = (r, w')" and "st_activeRun (aw_state w) \<noteq> None"
  shows "r = Inr () \<and> st_messages (aw_state w') =
    st_messages (aw_state w) @ [AssistantMsg (failure_message ag err b w)]"
proof -
  have all: "process_all ag es w = (r, w') \<Longrightarrow> st_activeRun (aw_state w) \<noteq> None \<Longrightarrow>
      r = Inr () \<and> st_messages (aw_state w') = st_messages (aw_state w) @ ended es" for es w r w'
  proof (induction es arbitrary: w)
    case (Cons e es)
    obtain q w1 where 1: "processEvents ag e w = (q, w1)" by fastforce
    from process_running [OF clients 1 Cons.prems(2)] have q: "q = Inr ()" "st_activeRun (aw_state w1) \<noteq> None"
      "st_messages (aw_state w1) = st_messages (aw_state w) @ ended [e]" by auto
    with Cons.prems(1) 1 have "process_all ag es w1 = (r, w')" by simp
    from Cons.IH [OF this q(2)] q(3) ended_append [of "[e]" es] show ?case by simp
  qed simp
  from all [OF assms(1) [unfolded handleRunFailure_def Let_def] assms(2)] show ?thesis by simp
qed

lemma lifecycle_transcript:
  assumes "runWithLifecycle ag executor w = Some (r, w')" and idle: "st_activeRun (aw_state w) = None"
    and e: "executor (on_state begin_run w) = Some (q, w1)"
    and "st_activeRun (aw_state w1) \<noteq> None" and "st_messages (aw_state w1) = st_messages (aw_state w) @ said"
  shows "r = Inr () \<and> settled (aw_state w') \<and>
    st_messages (aw_state w') = st_messages (aw_state w) @ said @
      (case q of Inr _ \<Rightarrow> [] | Inl err \<Rightarrow> [AssistantMsg (failure_message ag err (st_activeRun (aw_state w1) = Some True) w1)])"
proof (cases q)
  case (Inr u)
  with assms have "(r, w') = (Inr (), on_state finishRun w1)" by (simp add: runWithLifecycle_def)
  with assms(5) Inr show ?thesis by (simp add: on_state_def settled_finishRun)
next
  case (Inl err)
  obtain r2 w2 where h: "handleRunFailure ag err (st_activeRun (aw_state w1) = Some True) w1 = (r2, w2)" by fastforce
  from assms(1) idle e Inl h have "(r, w') = (r2, on_state finishRun w2)" by (simp add: runWithLifecycle_def)
  with failure_handled [OF h assms(4)] assms(5) Inl show ?thesis by (simp add: on_state_def settled_finishRun)
qed

text \<open>A run of the loop from given prompts, and the events it starts with.\<close>

lemma loop_mirrors:
  assumes run: "runAgentLoop (loop_environment ag) prompts (createContextSnapshot ag w) config (started skip w) = Some y"
    and active: "st_activeRun (aw_state w) \<noteq> None"
  shows "\<exists>fs. st_activeRun (aw_state (ctl_world (snd y))) \<noteq> None \<and>
    st_messages (aw_state (ctl_world (snd y))) = st_messages (aw_state w) @ prompts @ ended fs \<and>
    ctl_events (snd y) = EV_agent_start # EV_turn_start # concat (map (\<lambda>m. [EV_message_start m, EV_message_end m]) prompts) @ fs"
proof -
  let ?env = "loop_environment ag" and ?old = "st_messages (aw_state w)"
  let ?c = "emit_messages ?env prompts (emits ?env [EV_agent_start, EV_turn_start] (started skip w))"
  have start: "mirrors ?old [] [] (started skip w)" using active by (simp add: mirrors_def started_def)
  have c: "mirrors ?old [] [] ?c"
    by (intro transcript.messages_kept transcript.others_kept start) auto
  have events: "ctl_events (emit_messages ?env ms d) = ctl_events d @ concat (map (\<lambda>m. [EV_message_start m, EV_message_end m]) ms)"
    for ms d by (induction ms arbitrary: d) (simp_all add: emit_message_def emits_def emit_def)
  have es: "ctl_events ?c = EV_agent_start # EV_turn_start # concat (map (\<lambda>m. [EV_message_start m, EV_message_end m]) prompts)"
    unfolding events by (simp add: emits_def emit_def started_def)
  from c have c': "mirrors ?old (ctl_events ?c) [] ?c" by (auto simp: mirrors_def)
  have tools: "tools_within calls_only ((createContextSnapshot ag w)\<lparr>ac_messages := ms\<rparr>)" for ms
    using clients by (auto simp: clients_ok_def tools_within_def tools_of_def createContextSnapshot_def)
  from run have "runLoop ?env ((createContextSnapshot ag w)\<lparr>ac_messages := ac_messages (createContextSnapshot ag w) @ prompts\<rparr>)
      prompts config ?c = Some y" by (simp add: runAgentLoop_def Let_def)
  from transcript.runLoop_kept [OF this c' tools] obtain fs where
    fs: "ctl_events (snd y) = ctl_events ?c @ fs" and "st_activeRun (aw_state (ctl_world (snd y))) \<noteq> None"
    "st_messages (aw_state (ctl_world (snd y))) = ?old @ ended (ctl_events (snd y))" by (auto simp: mirrors_def)
  moreover have "ended (concat (map (\<lambda>m. [EV_message_start m, EV_message_end m]) ms)) = ms" for ms by (induction ms) auto
  ultimately show ?thesis unfolding es by (auto simp: ended_append)
qed

end

text \<open>What a run from prompts comes to, seen from the agent.\<close>

definition prompt_run :: "'o agent \<Rightarrow> agent_message list \<Rightarrow> bool \<Rightarrow> 'o agent_world \<Rightarrow>
    ((string + agent_message list) \<times> 'o agent_world ctl) option" where
  "prompt_run ag prompts skip w =
     runAgentLoop (loop_environment ag) prompts (createContextSnapshot ag (on_state begin_run w))
       (createLoopConfig (begin_run (aw_state w))) (started skip (on_state begin_run w))"

definition extends_by :: "'o agent \<Rightarrow> agent_message list \<Rightarrow> 'o agent_world \<Rightarrow> 'o agent_world \<Rightarrow>
    string + agent_message list \<Rightarrow> bool" where
  "extends_by ag prompts w w' outcome \<longleftrightarrow>
     (case outcome of
        Inr msgs \<Rightarrow> st_messages (aw_state w') = st_messages (aw_state w) @ msgs \<and> (\<exists>ms. msgs = prompts @ ms)
      | Inl err \<Rightarrow> (\<exists>ms am. st_messages (aw_state w') = st_messages (aw_state w) @ prompts @ ms @ [AssistantMsg am] \<and>
          am_errorMessage am = Some err \<and> am_stopReason am \<in> {SR_error, SR_aborted}))"

lemma extended_by_prompts:
  assumes "extends_by ag prompts w w' out"
  shows "\<exists>ms. st_messages (aw_state w') = st_messages (aw_state w) @ prompts @ ms"
  using assms by (cases out) (auto simp: extends_by_def)

context agent_clients
begin

lemma prompts_outcome:
  assumes run: "runPromptMessages ag prompts skip w = Some (r, w')" and idle: "st_activeRun (aw_state w) = None"
    and provider: "provider_ok (loop_environment ag)"
  shows "r = Inr () \<and> settled (aw_state w') \<and>
    (\<exists>y. prompt_run ag prompts skip w = Some y \<and> extends_by ag prompts w w' (fst y))"
proof -
  let ?w = "on_state begin_run w"
  have active: "st_activeRun (aw_state ?w) \<noteq> None" and same: "st_messages (aw_state ?w) = st_messages (aw_state w)"
    by (simp_all add: on_state_def begin_run_def)
  obtain y where y: "prompt_run ag prompts skip w = Some y"
    using run idle by (cases "prompt_run ag prompts skip w")
      (auto simp: runPromptMessages_def runWithLifecycle_def run_outcome_def prompt_run_def on_state_def)
  from loop_mirrors [OF y [unfolded prompt_run_def] active] obtain fs where
    m: "st_activeRun (aw_state (ctl_world (snd y))) \<noteq> None"
       "st_messages (aw_state (ctl_world (snd y))) = st_messages (aw_state w) @ prompts @ ended fs" and
    events: "ctl_events (snd y) = EV_agent_start # EV_turn_start # concat (map (\<lambda>m. [EV_message_start m, EV_message_end m]) prompts) @ fs"
    unfolding same by auto
  define q where "q = (case fst y of Inl err \<Rightarrow> Inl err | Inr msgs \<Rightarrow> Inr ())"
  have exec: "run_outcome (prompt_run ag prompts skip w) = Some (q, ctl_world (snd y))"
    using y by (cases y; cases "fst y") (auto simp: run_outcome_def q_def)
  have life: "runWithLifecycle ag (\<lambda>w. run_outcome (runAgentLoop (loop_environment ag) prompts (createContextSnapshot ag w)
      (createLoopConfig (aw_state w)) (started skip w))) w = Some (r, w')" using run by (simp add: runPromptMessages_def)
  have exec': "run_outcome (runAgentLoop (loop_environment ag) prompts (createContextSnapshot ag ?w)
      (createLoopConfig (aw_state ?w)) (started skip ?w)) = Some (q, ctl_world (snd y))"
    using exec by (simp add: prompt_run_def on_state_def)
  from lifecycle_transcript [OF life idle exec' m]
  have end_state: "r = Inr ()" "settled (aw_state w')" "st_messages (aw_state w') = st_messages (aw_state w) @ prompts @ ended fs @
      (case q of Inr _ \<Rightarrow> [] | Inl err \<Rightarrow> [AssistantMsg (failure_message ag err
         (st_activeRun (aw_state (ctl_world (snd y))) = Some True) (ctl_world (snd y)))])" by auto
  have "extends_by ag prompts w w' (fst y)"
  proof (cases "fst y")
    case (Inl err)
    with end_state(3) show ?thesis by (auto simp: extends_by_def q_def failure_message_def)
  next
    case (Inr msgs)
    then have "runAgentLoop (loop_environment ag) prompts (createContextSnapshot ag ?w)
        (createLoopConfig (begin_run (aw_state w))) (started skip ?w) = Some (Inr msgs, snd y)"
      using y by (cases y) (simp add: prompt_run_def)
    from runAgentLoop_result [OF this provider] obtain es ms where
      es: "ctl_events (snd y) = es @ [EV_agent_end msgs]" "ended es = msgs" "msgs = prompts @ ms"
      by (auto simp: started_def)
    have "ended (concat (map (\<lambda>m. [EV_message_start m, EV_message_end m]) ps)) = ps" for ps by (induction ps) auto
    then have "prompts @ ended fs = msgs" using es(1,2) arg_cong [OF events, of ended] by (simp add: ended_append)
    with Inr end_state(3) es(3) show ?thesis by (auto simp: extends_by_def q_def)
  qed
  with end_state(1,2) y show ?thesis by blast
qed

end

text \<open>Agents whose provider works on the outer world alone, without tools and
  listeners, which stop after \<open>n\<close> messages.\<close>

definition outer_agent :: "nat \<Rightarrow> (message list \<Rightarrow> 'o \<Rightarrow> (assistant_message_event list \<times> assistant_message) \<times> 'o) \<Rightarrow> 'o agent" where
  "outer_agent n stream =
     \<lparr>og_tools = [], og_listeners = [], og_convertToLlm = (\<lambda>ms w. (defaultConvertToLlm ms, w)), og_transformContext = None,
      og_streamFunction = (\<lambda>m ctx r k w. case stream (lc_messages ctx) (aw_outer w) of (x, out) \<Rightarrow> (x, w\<lparr>aw_outer := out\<rparr>)),
      og_getApiKey = None, og_beforeToolCall = None, og_afterToolCall = None,
      og_shouldStopAfterTurn = Some (\<lambda>t w. (n \<le> length (tn_newMessages t), w)),
      og_prepareNextTurn = None, og_prepareNextTurnWithContext = None, og_toolExecution = EM_parallel, og_now = (\<lambda>w. 0),
      og_schedule = (\<lambda>n w. (0, w)), og_validate = (\<lambda>t call. Inr (tc_arguments call))\<rparr>"

lemma outer_agent_clients: "clients_ok (outer_agent n stream)"
  by (auto simp: clients_ok_def callbacks_within_def within_def polls_def agent_polls_def calls_only_def outer_agent_def
      loop_environment_def next_turn_hook_def split: prod.splits)

interpretation outer: agent_clients "outer_agent n stream" for n stream
  by unfold_locales (rule outer_agent_clients)

text \<open>With a stop hook every prompt settles.\<close>

lemma prompts_return:
  assumes "stops_after n (loop_environment ag)" and "st_activeRun (aw_state w) = None"
  shows "\<exists>r w'. runPromptMessages ag prompts skip w = Some (r, w')"
proof -
  obtain y where "prompt_run ag prompts skip w = Some y"
    using runAgentLoop_returns [OF assms(1)] unfolding prompt_run_def by blast
  then show ?thesis
    using assms(2) by (auto simp: prompt_run_def runPromptMessages_def runWithLifecycle_def run_outcome_def on_state_def
        split: sum.splits prod.splits)
qed

lemma prompt_returns:
  assumes "stops_after n (loop_environment ag)" and "st_activeRun (aw_state w) = None"
  shows "\<exists>r w'. prompt ag input w = Some (r, w')"
  using prompts_return [OF assms] assms(2) by (simp add: prompt_def)

lemma outer_agent_stops: "stops_after n (loop_environment (outer_agent n stream))"
  by (simp add: stops_after_def loop_environment_def outer_agent_def)

section \<open>The main properties\<close>


text \<open>
  Continuing an idle agent whose transcript ends with an assistant message takes the steering messages a drain gives,
  or else the follow-up messages, and runs with them as prompts; if nothing is queued it throws and changes nothing.
\<close>

theorem continue_takes_queued:
  assumes "clients_ok ag" and "provider_ok (loop_environment ag)" and "st_activeRun (aw_state w) = None"
    and "st_messages (aw_state w) \<noteq> []" and "is_assistant (last (st_messages (aw_state w)))"
    and "continue_run ag w = Some (r, w')"
  shows "if pq_messages (st_steeringQueue (aw_state w)) = [] \<and> pq_messages (st_followUpQueue (aw_state w)) = []
    then r = Inl ''Cannot continue from message role: assistant'' \<and> w' = w
    else r = Inr () \<and> settled (aw_state w') \<and>
      (\<exists>ms. st_messages (aw_state w') = st_messages (aw_state w) @
         fst (drain (if pq_messages (st_steeringQueue (aw_state w)) \<noteq> [] then st_steeringQueue (aw_state w)
                     else st_followUpQueue (aw_state w))) @ ms)"
proof -
  let ?s = "aw_state w"
  note outcome = agent_clients.prompts_outcome [OF agent_clients.intro [OF assms(1)] _ _ assms(2)]
  have same: "on_state (\<lambda>s. s\<lparr>st_steeringQueue := snd (drain (st_steeringQueue ?s))\<rparr>) w = w"
    if "pq_messages (st_steeringQueue ?s) = []" using that by (simp add: on_state_def drain_def)
  have same2: "on_state (\<lambda>s. s\<lparr>st_followUpQueue := snd (drain (st_followUpQueue ?s))\<rparr>) w = w"
    if "pq_messages (st_followUpQueue ?s) = []" using that by (simp add: on_state_def drain_def)
  have grown: "r = Inr () \<and> settled (aw_state w') \<and> (\<exists>ms. st_messages (aw_state w') = st_messages ?s @ ps @ ms)"
    if "runPromptMessages ag ps skip v = Some (r, w')" and "st_activeRun (aw_state v) = None"
      and "st_messages (aw_state v) = st_messages ?s" for ps skip v
    using outcome [OF that(1,2)] that(3) by (auto dest: extended_by_prompts)
  show ?thesis
  proof (cases "pq_messages (st_steeringQueue ?s) = []")
    case False
    then have "fst (drain (st_steeringQueue ?s)) \<noteq> []" using drain_all by blast
    with assms(3-6) have "runPromptMessages ag (fst (drain (st_steeringQueue ?s))) True
        (on_state (\<lambda>s. s\<lparr>st_steeringQueue := snd (drain (st_steeringQueue ?s))\<rparr>) w) = Some (r, w')"
      by (simp add: continue_run_def Let_def split: prod.splits)
    from grown [OF this] assms(3) False show ?thesis by (simp add: on_state_def)
  next
    case True
    then have none: "fst (drain (st_steeringQueue ?s)) = []" using drain_all by blast
    have step: "(if fst (drain (st_followUpQueue ?s)) \<noteq> []
        then runPromptMessages ag (fst (drain (st_followUpQueue ?s))) False
               (on_state (\<lambda>s. s\<lparr>st_followUpQueue := snd (drain (st_followUpQueue ?s))\<rparr>) w)
        else Some (Inl ''Cannot continue from message role: assistant'',
               on_state (\<lambda>s. s\<lparr>st_followUpQueue := snd (drain (st_followUpQueue ?s))\<rparr>) w)) = Some (r, w')"
      using assms(3-6) by (simp add: continue_run_def Let_def case_prod_beta none same [OF True] cong: if_cong)
    show ?thesis
    proof (cases "pq_messages (st_followUpQueue ?s) = []")
      case True2: True
      then have "fst (drain (st_followUpQueue ?s)) = []" using drain_all by blast
      with step same2 [OF True2] True True2 show ?thesis by simp
    next
      case False
      then have "fst (drain (st_followUpQueue ?s)) \<noteq> []" using drain_all by blast
      with step have "runPromptMessages ag (fst (drain (st_followUpQueue ?s))) False
          (on_state (\<lambda>s. s\<lparr>st_followUpQueue := snd (drain (st_followUpQueue ?s))\<rparr>) w) = Some (r, w')"
        by simp
      from grown [OF this] assms(3) True False show ?thesis by (simp add: on_state_def)
    qed
  qed
qed

lemma busy_agent_refuses:
  assumes "st_activeRun (aw_state w) \<noteq> None"
  shows "\<exists>e1 e2 e3. prompt ag input w = Some (Inl e1, w) \<and> continue_run ag w = Some (Inl e2, w) \<and> reset (aw_state w) = Inl e3"
  using assms by (simp add: prompt_def continue_run_def reset_def)

text \<open>
  A run only throws between turns, after a \<open>turn_end\<close>; the events of \<open>handleRunFailure\<close> then announce a message and end a turn
  that was never started.
\<close>

lemma failure_outside_turn:
  assumes "runAgentLoop env prompts ctx config c = Some (Inl err, c')" and "provider_ok env"
  shows "\<exists>es. ctl_events c' = ctl_events c @ es \<and> accepts Ph_new es = Some Ph_between \<and>
    accepts Ph_new (es @ [EV_message_start (AssistantMsg am), EV_message_end (AssistantMsg am), EV_turn_end am [],
      EV_agent_end [AssistantMsg am]]) = None"
proof -
  from runAgentLoop_ok [OF assms] obtain ms where "goes Ph_new c c' Ph_between ms" by (auto simp: as_outcome_def)
  then obtain es where "ctl_events c' = ctl_events c @ es" "accepts Ph_new es = Some Ph_between"
    by (auto simp: goes_def)
  then show ?thesis by (auto simp: accepts_append)
qed


section \<open>Witnesses\<close>

definition demo_stream :: "message list \<Rightarrow> nat \<Rightarrow> (assistant_message_event list \<times> assistant_message) \<times> nat" where
  "demo_stream ms n = (([AE_done], demo_answer), n + 1)"

definition demo_world :: "agent_message list \<Rightarrow> agent_message list \<Rightarrow> nat agent_world" where
  "demo_world transcript queued =
     \<lparr>aw_state = (createMutableAgentState \<lparr>in_systemPrompt = None, in_model = None, in_thinkingLevel = None,
        in_messages = Some transcript\<rparr> None None)\<lparr>st_steeringQueue := \<lparr>pq_messages = queued, pq_mode = QM_one_at_a_time\<rparr>\<rparr>,
      aw_skip = False, aw_outer = 0\<rparr>"

lemma demo_world_simps:
  "st_activeRun (aw_state (demo_world t q)) = None" "st_messages (aw_state (demo_world t q)) = t"
  "pq_messages (st_steeringQueue (aw_state (demo_world t q))) = q"
  "st_steeringQueue (aw_state (demo_world t q)) = \<lparr>pq_messages = q, pq_mode = QM_one_at_a_time\<rparr>"
  by (simp_all add: demo_world_def createMutableAgentState_def or_default_def)

lemma demo_stream_provider: "provider_ok (loop_environment (outer_agent 2 demo_stream))"
  by (simp add: provider_ok_def loop_environment_def outer_agent_def demo_stream_def started_once_def split: prod.splits)


theorem continue_takes_queued_witness:
  "\<exists>w' ms. continue_run (outer_agent 2 demo_stream) (demo_world [AssistantMsg demo_answer] [demo_message, demo_message]) = Some (Inr (), w') \<and>
     st_messages (aw_state w') = AssistantMsg demo_answer # demo_message # ms"
proof -
  let ?w = "demo_world [AssistantMsg demo_answer] [demo_message, demo_message]"
  obtain r w' where run: "continue_run (outer_agent 2 demo_stream) ?w = Some (r, w')"
  proof -
    let ?v = "on_state (\<lambda>s. s\<lparr>st_steeringQueue := \<lparr>pq_messages = [demo_message], pq_mode = QM_one_at_a_time\<rparr>\<rparr>) ?w"
    have "continue_run (outer_agent 2 demo_stream) ?w = runPromptMessages (outer_agent 2 demo_stream) [demo_message] True ?v"
      by (simp add: continue_run_def demo_world_simps drain_def Let_def)
    moreover have "st_activeRun (aw_state ?v) = None" by (simp add: on_state_def demo_world_simps)
    ultimately show ?thesis using prompts_return [OF outer_agent_stops] that by metis
  qed
  from continue_takes_queued [OF outer_agent_clients demo_stream_provider _ _ _ run] demo_world_simps
  have "r = Inr ()" "\<exists>ms. st_messages (aw_state w') = AssistantMsg demo_answer # demo_message # ms"
    by (auto simp: drain_def split: if_splits)
  with run show ?thesis by blast
qed

text \<open>A world that logs its polls: the steering queue gives one message once.\<close>

definition logging_env :: "(nat \<times> agent_message list) environment" where
  "logging_env = \<lparr>env_emit = (\<lambda>e w. w), env_aborted = (\<lambda>w. False), env_now = (\<lambda>w. 0), env_schedule = (\<lambda>n w. (n - 1, w)),
     validateToolArguments = (\<lambda>t call. Inr (tc_arguments call)),
     streamFunction = (\<lambda>m ctx r k w. (([AE_done], demo_answer), w)),
     cf_convertToLlm = (\<lambda>ms w. ([], w)), cf_transformContext = None, cf_getApiKey = None,
     cf_apiKey = None, cf_toolExecution = None,
     cf_getSteeringMessages = Some (\<lambda>(n, told). if n = 0 then ([demo_message], (1, told @ [demo_message])) else ([], (n, told))),
     cf_getFollowUpMessages = None, cf_prepareNextTurn = None, cf_shouldStopAfterTurn = None,
     cf_beforeToolCall = None, cf_afterToolCall = None\<rparr>"

definition logged :: "((string + agent_message list) \<times> (nat \<times> agent_message list) ctl) option \<Rightarrow> bool" where
  "logged res \<longleftrightarrow> (case res of None \<Rightarrow> False | Some (_, c) \<Rightarrow> length (snd (ctl_world c)) = 1)"


end
