(* ===== verification/Mutation_Queue.thy ===== *)
theory Mutation_Queue
  imports Text_Encoding
begin

text \<open>
  The queue that serializes changes of one file,
  \<open>packages/agent/src/harness/tools/file-mutation-queue.ts\<close>, as a step relation over all interleavings of
  concurrent calls of \<open>withFileMutationQueue\<close> for one environment. A call is its number in the order of calls; its
  registration is chained to that of the call before, so registrations end in this order. A call that is
  registered waits for \<open>currentQueue\<close>, the \<open>chainedQueue\<close> of the call before it under its key, which resolves
  when that call has released it: a call only runs after its own \<open>currentQueue\<close>, so that is when it has finished.
\<close>

section \<open>Definitions\<close>

type_synonym queue_key = js_string

datatype task_state =
    Registering                                  \<comment> \<open>\<open>registration\<close> is pending\<close>
  | Unregistered                                 \<comment> \<open>\<open>getMutationQueueKey\<close> threw, and so did the call\<close>
  | Awaiting queue_key "nat option"              \<comment> \<open>the call whose \<open>chainedQueue\<close> is awaited, if any\<close>
  | Running queue_key                            \<comment> \<open>inside \<open>fn\<close>\<close>
  | Released queue_key                           \<comment> \<open>after \<open>finally\<close>, however \<open>fn\<close> ended\<close>

record mutation_queue =
  mq_tasks :: "task_state list"
  mq_registered :: nat
  mq_queues :: "queue_key \<Rightarrow> nat option"

definition idle_queue :: mutation_queue where
  "idle_queue = \<lparr>mq_tasks = [], mq_registered = 0, mq_queues = Map.empty\<rparr>"

fun is_released :: "task_state \<Rightarrow> bool" where
  "is_released (Released _) = True"
| "is_released _ = False"

definition awaited_resolved :: "mutation_queue \<Rightarrow> nat option \<Rightarrow> bool" where
  "awaited_resolved s prev \<longleftrightarrow> (case prev of None \<Rightarrow> True | Some p \<Rightarrow> is_released (mq_tasks s ! p))"

definition register :: "queue_key \<Rightarrow> mutation_queue \<Rightarrow> mutation_queue" where
  "register key s =
     (let n = mq_registered s
      in s\<lparr>mq_tasks := (mq_tasks s)[n := Awaiting key (mq_queues s key)], mq_registered := n + 1,
           mq_queues := (mq_queues s)(key \<mapsto> n)\<rparr>)"

definition release :: "nat \<Rightarrow> queue_key \<Rightarrow> mutation_queue \<Rightarrow> mutation_queue" where
  "release n key s =
     s\<lparr>mq_tasks := (mq_tasks s)[n := Released key],
       mq_queues := (if mq_queues s key = Some n then (mq_queues s)(key := None) else mq_queues s)\<rparr>"

text \<open>\<open>own_step\<close> are the steps of the calls made so far, \<open>queue_step\<close> adds new calls.\<close>

inductive own_step :: "mutation_queue \<Rightarrow> mutation_queue \<Rightarrow> bool" where
  key_found: "mq_registered s < length (mq_tasks s) \<Longrightarrow> own_step s (register key s)"
| key_failed: "mq_registered s < length (mq_tasks s) \<Longrightarrow>
    own_step s (s\<lparr>mq_tasks := (mq_tasks s)[mq_registered s := Unregistered], mq_registered := mq_registered s + 1\<rparr>)"
| turn: "n < length (mq_tasks s) \<Longrightarrow> mq_tasks s ! n = Awaiting key prev \<Longrightarrow> awaited_resolved s prev \<Longrightarrow>
    own_step s (s\<lparr>mq_tasks := (mq_tasks s)[n := Running key]\<rparr>)"
| finished: "n < length (mq_tasks s) \<Longrightarrow> mq_tasks s ! n = Running key \<Longrightarrow> own_step s (release n key s)"

inductive queue_step :: "mutation_queue \<Rightarrow> mutation_queue \<Rightarrow> bool" where
  called: "queue_step s (s\<lparr>mq_tasks := mq_tasks s @ [Registering]\<rparr>)"
| own: "own_step s s' \<Longrightarrow> queue_step s s'"

inductive queue_reachable :: "mutation_queue \<Rightarrow> bool" where
  start: "queue_reachable idle_queue"
| step: "queue_reachable s \<Longrightarrow> queue_step s s' \<Longrightarrow> queue_reachable s'"

section \<open>The invariant\<close>

fun key_of :: "task_state \<Rightarrow> queue_key option" where
  "key_of (Awaiting k _) = Some k"
| "key_of (Running k) = Some k"
| "key_of (Released k) = Some k"
| "key_of _ = None"

definition under :: "mutation_queue \<Rightarrow> queue_key \<Rightarrow> nat \<Rightarrow> bool" where
  "under s k n \<longleftrightarrow> n < length (mq_tasks s) \<and> key_of (mq_tasks s ! n) = Some k"

definition ended :: "mutation_queue \<Rightarrow> nat \<Rightarrow> bool" where
  "ended s n \<longleftrightarrow> is_released (mq_tasks s ! n)"

definition all_released :: "mutation_queue \<Rightarrow> queue_key \<Rightarrow> nat \<Rightarrow> bool" where
  "all_released s k n \<longleftrightarrow> (\<forall>i < n. under s k i \<longrightarrow> ended s i)"

definition registration_order :: "mutation_queue \<Rightarrow> bool" where
  "registration_order s \<longleftrightarrow> mq_registered s \<le> length (mq_tasks s) \<and>
     (\<forall>n < length (mq_tasks s). mq_tasks s ! n = Registering \<longleftrightarrow> mq_registered s \<le> n)"

definition queue_heads :: "mutation_queue \<Rightarrow> bool" where
  "queue_heads s \<longleftrightarrow>
     (\<forall>k. case mq_queues s k of
        None \<Rightarrow> all_released s k (length (mq_tasks s))
      | Some p \<Rightarrow> under s k p \<and> \<not> ended s p \<and> (\<forall>i. under s k i \<longrightarrow> i \<le> p))"

definition links_ok :: "mutation_queue \<Rightarrow> bool" where
  "links_ok s \<longleftrightarrow>
     (\<forall>n k prev. n < length (mq_tasks s) \<and> mq_tasks s ! n = Awaiting k prev \<longrightarrow>
        (case prev of None \<Rightarrow> all_released s k n
         | Some p \<Rightarrow> p < n \<and> under s k p \<and> (\<forall>i. p < i \<and> i < n \<longrightarrow> \<not> under s k i)))"

text \<open>Under one key, a call that runs or has ended has only ended calls before it.\<close>

definition in_turn :: "mutation_queue \<Rightarrow> bool" where
  "in_turn s \<longleftrightarrow>
     (\<forall>n k. n < length (mq_tasks s) \<and> (mq_tasks s ! n = Running k \<or> mq_tasks s ! n = Released k) \<longrightarrow> all_released s k n)"

definition queue_invariant :: "mutation_queue \<Rightarrow> bool" where
  "queue_invariant s \<longleftrightarrow> registration_order s \<and> queue_heads s \<and> links_ok s \<and> in_turn s"

lemmas queue_defs = registration_order_def queue_heads_def links_ok_def in_turn_def under_def ended_def all_released_def

lemma under_length: "under s k n \<Longrightarrow> n < length (mq_tasks s)"
  by (simp add: under_def)

lemma all_released_all: "all_released s k (length (mq_tasks s)) \<longleftrightarrow> (\<forall>i. under s k i \<longrightarrow> ended s i)"
  by (auto simp: all_released_def under_def)

lemma invariant_parts:
  assumes "queue_invariant s"
  shows "mq_registered s \<le> length (mq_tasks s)"
    "n < length (mq_tasks s) \<Longrightarrow> mq_tasks s ! n = Registering \<longleftrightarrow> mq_registered s \<le> n"
    "mq_queues s k = None \<Longrightarrow> under s k i \<Longrightarrow> ended s i"
    "mq_queues s k = Some p \<Longrightarrow> under s k p \<and> \<not> ended s p \<and> (\<forall>i. under s k i \<longrightarrow> i \<le> p)"
    "n < length (mq_tasks s) \<Longrightarrow> mq_tasks s ! n = Awaiting k None \<Longrightarrow> all_released s k n"
    "n < length (mq_tasks s) \<Longrightarrow> mq_tasks s ! n = Awaiting k (Some p) \<Longrightarrow>
       p < n \<and> under s k p \<and> (\<forall>i. p < i \<and> i < n \<longrightarrow> \<not> under s k i)"
    "n < length (mq_tasks s) \<Longrightarrow> mq_tasks s ! n = Running k \<or> mq_tasks s ! n = Released k \<Longrightarrow> all_released s k n"
  using assms
  by (auto simp: queue_invariant_def registration_order_def queue_heads_def links_ok_def in_turn_def all_released_all
      dest!: spec [of _ k] split: option.splits)

text \<open>The invariant from what a step does to keys and ends of calls.\<close>

lemma invariant_intro:
  assumes "registration_order s"
    and "\<And>k i. mq_queues s k = None \<Longrightarrow> under s k i \<Longrightarrow> ended s i"
    and "\<And>k p. mq_queues s k = Some p \<Longrightarrow> under s k p \<and> \<not> ended s p \<and> (\<forall>i. under s k i \<longrightarrow> i \<le> p)"
    and "\<And>n k. n < length (mq_tasks s) \<Longrightarrow> mq_tasks s ! n = Awaiting k None \<Longrightarrow> all_released s k n"
    and "\<And>n k p. n < length (mq_tasks s) \<Longrightarrow> mq_tasks s ! n = Awaiting k (Some p) \<Longrightarrow>
       p < n \<and> under s k p \<and> (\<forall>i. p < i \<and> i < n \<longrightarrow> \<not> under s k i)"
    and "\<And>n k. n < length (mq_tasks s) \<Longrightarrow> mq_tasks s ! n = Running k \<or> mq_tasks s ! n = Released k \<Longrightarrow> all_released s k n"
  shows "queue_invariant s"
  using assms
  by (auto simp: queue_invariant_def queue_heads_def links_ok_def in_turn_def all_released_all split: option.splits)

text \<open>Steps of one call that keep its key: only its own state changes.\<close>

lemma same_key_under:
  assumes "n < length (mq_tasks s)" and "key_of t = key_of (mq_tasks s ! n)"
  shows "under (s\<lparr>mq_tasks := (mq_tasks s)[n := t], mq_registered := r, mq_queues := q\<rparr>) k i \<longleftrightarrow> under s k i"
  using assms by (cases "i = n") (auto simp: under_def)

lemma invariant_called:
  assumes inv: "queue_invariant s"
  shows "queue_invariant (s\<lparr>mq_tasks := mq_tasks s @ [Registering]\<rparr>)" (is "queue_invariant ?s")
proof -
  note parts = invariant_parts [OF inv]
  have under: "under ?s k i \<longleftrightarrow> under s k i" for k i by (auto simp: under_def nth_append)
  have ended: "under s k i \<Longrightarrow> ended ?s i \<longleftrightarrow> ended s i" for k i by (auto simp: ended_def under_def nth_append)
  have all: "all_released ?s k n \<longleftrightarrow> all_released s k n" for k n using ended by (auto simp: all_released_def under)
  have task: "n < length (mq_tasks s) \<and> mq_tasks s ! n = t" if "n < length (mq_tasks ?s)" "mq_tasks ?s ! n = t" "t \<noteq> Registering" for n t
    using that by (auto simp: nth_append less_Suc_eq split: if_splits)
  show ?thesis
  proof (rule invariant_intro, goal_cases)
    case 1
    then show ?case using parts(1,2) by (auto simp: registration_order_def nth_append less_Suc_eq)
  next
    case (2 k i)
    then show ?case using parts(3) [of k i] ended by (simp add: under)
  next
    case (3 k p)
    then show ?case using parts(4) [of k p] ended [of k p] by (auto simp: under)
  next
    case (4 n k)
    then show ?case using task [OF 4] parts(5) [of n k] by (simp add: all)
  next
    case (5 n k p)
    then show ?case using task [OF 5] parts(6) [of n k p] by (simp add: under)
  next
    case (6 n k)
    then show ?case using task [OF 6(1) refl] parts(7) [of n k] by (auto simp: all)
  qed
qed

lemma invariant_register:
  assumes inv: "queue_invariant s" and "mq_registered s < length (mq_tasks s)"
  shows "queue_invariant (register key s)"
proof -
  let ?n = "mq_registered s" and ?s = "register key s"
  note parts = invariant_parts [OF inv]
  have fresh: "mq_tasks s ! ?n = Registering" using parts(2) assms(2) by simp
  have later: "\<not> under s k i" if "?n \<le> i" for k i using parts(2) [of i] that by (auto simp: under_def)
  have under: "under ?s k i \<longleftrightarrow> under s k i \<or> k = key \<and> i = ?n" for k i
    using later [of ?n k] assms(2) by (auto simp: under_def register_def Let_def nth_list_update)
  have ended: "ended ?s i \<longleftrightarrow> i \<noteq> ?n \<and> ended s i" for i
    using assms(2) fresh by (cases "i = ?n") (auto simp: ended_def register_def Let_def)
  have all: "all_released ?s k n \<longleftrightarrow> all_released s k n" if "n \<le> ?n" for k n
    using that by (auto simp: all_released_def under ended)
  have task: "n < ?n \<or> n = ?n" if "n < length (mq_tasks ?s)" "mq_tasks ?s ! n \<noteq> Registering" for n
    using that parts(2) [of n] by (auto simp: register_def Let_def nth_list_update split: if_splits)
  have old: "mq_tasks ?s ! n = mq_tasks s ! n" if "n < ?n" for n using that by (simp add: register_def Let_def)
  have new: "mq_tasks ?s ! ?n = Awaiting key (mq_queues s key)" using assms(2) by (simp add: register_def Let_def)
  have queues: "mq_queues ?s = (mq_queues s)(key \<mapsto> ?n)" and len: "length (mq_tasks ?s) = length (mq_tasks s)"
    by (simp_all add: register_def Let_def)
  show ?thesis
  proof (rule invariant_intro)
    show "registration_order ?s"
      using parts(1,2) assms(2) by (auto simp: registration_order_def register_def Let_def nth_list_update less_Suc_eq Suc_le_eq)
  next
    fix k i assume "mq_queues ?s k = None" "under ?s k i"
    with parts(3) [of k i] later show "ended ?s i" by (auto simp: queues under ended split: if_splits)
  next
    fix k p assume p: "mq_queues ?s k = Some p"
    show "under ?s k p \<and> \<not> ended ?s p \<and> (\<forall>i. under ?s k i \<longrightarrow> i \<le> p)"
    proof (cases "k = key")
      case True
      with p have [simp]: "p = ?n" by (simp add: queues)
      have "i \<le> ?n" if "under s key i" for i using later [of i key] that by (cases "?n \<le> i") auto
      with True show ?thesis by (auto simp: under ended)
    next
      case False
      with p parts(4) [of k p] have *: "under s k p" "\<not> ended s p" "\<forall>i. under s k i \<longrightarrow> i \<le> p" by (auto simp: queues)
      with False show ?thesis by (simp add: under ended)
    qed
  next
    fix n k assume n: "n < length (mq_tasks ?s)" "mq_tasks ?s ! n = Awaiting k None"
    then consider "n < ?n" | "n = ?n" using task [of n] by auto
    then show "all_released ?s k n"
    proof cases
      case 1
      with n parts(5) [of n k] old [of n] len have "all_released s k n" by simp
      with all [of n k] 1 show ?thesis by simp
    next
      case 2
      with n new have "k = key" "mq_queues s key = None" by auto
      with parts(3) [of key] have "all_released s k ?n" by (simp add: all_released_def)
      with all [of ?n k] 2 show ?thesis by simp
    qed
  next
    fix n k p assume n: "n < length (mq_tasks ?s)" "mq_tasks ?s ! n = Awaiting k (Some p)"
    then consider "n < ?n" | "n = ?n" using task [of n] by auto
    then show "p < n \<and> under ?s k p \<and> (\<forall>i. p < i \<and> i < n \<longrightarrow> \<not> under ?s k i)"
    proof cases
      case 1
      with n parts(6) [of n k p] old [of n] len show ?thesis by (auto simp: under)
    next
      case 2
      with n new have k: "k = key" and "mq_queues s key = Some p" by auto
      with parts(4) [of key p] have *: "under s key p" "\<forall>i. under s key i \<longrightarrow> i \<le> p" by auto
      with later [of p key] have "p < ?n" by (cases "?n \<le> p") auto
      with * 2 k show ?thesis by (auto simp: under)
    qed
  next
    fix n k assume n: "n < length (mq_tasks ?s)" "mq_tasks ?s ! n = Running k \<or> mq_tasks ?s ! n = Released k"
    with task [of n] new have "n < ?n" by auto
    with n parts(7) [of n k] old [of n] len show "all_released ?s k n" by (simp add: all)
  qed
qed

lemma invariant_key_failed:
  assumes inv: "queue_invariant s" and "mq_registered s < length (mq_tasks s)"
  shows "queue_invariant (s\<lparr>mq_tasks := (mq_tasks s)[mq_registered s := Unregistered], mq_registered := Suc (mq_registered s)\<rparr>)"
    (is "queue_invariant ?s")
proof -
  let ?n = "mq_registered s"
  note parts = invariant_parts [OF inv]
  have fresh: "mq_tasks s ! ?n = Registering" using parts(2) assms(2) by simp
  have under: "under ?s k i \<longleftrightarrow> under s k i" for k i using fresh assms(2) by (cases "i = ?n") (auto simp: under_def)
  have ended: "ended ?s i \<longleftrightarrow> ended s i" for i using fresh assms(2) by (cases "i = ?n") (auto simp: ended_def)
  have all: "all_released ?s k n \<longleftrightarrow> all_released s k n" for k n by (simp only: all_released_def under ended)
  have task: "n < length (mq_tasks s) \<and> mq_tasks s ! n = t" if "n < length (mq_tasks ?s)" "mq_tasks ?s ! n = t" "t \<noteq> Unregistered" for n t
    using that assms(2) by (cases "n = ?n") auto
  show ?thesis
  proof (rule invariant_intro, goal_cases)
    case 1
    then show ?case
      using parts(1,2) assms(2) by (auto simp: registration_order_def nth_list_update less_Suc_eq Suc_le_eq)
  next
    case (2 k i)
    then show ?case using parts(3) [of k i] by (simp add: under ended)
  next
    case (3 k p)
    then show ?case using parts(4) [of k p] by (simp add: under ended)
  next
    case (4 n k)
    then show ?case using task [OF 4] parts(5) [of n k] by (simp add: all)
  next
    case (5 n k p)
    then show ?case using task [OF 5] parts(6) [of n k p] by (simp add: under)
  next
    case (6 n k)
    then show ?case using task [OF 6(1) refl] parts(7) [of n k] by (auto simp: all)
  qed
qed

lemma turn_has_come:
  assumes inv: "queue_invariant s" and n: "n < length (mq_tasks s)" "mq_tasks s ! n = Awaiting key prev"
    and resolved: "awaited_resolved s prev"
  shows "all_released s key n"
proof (cases prev)
  case None
  with invariant_parts(5) [OF inv n(1)] n(2) show ?thesis by simp
next
  case (Some p)
  with invariant_parts(6) [OF inv n(1)] n(2) have p: "p < n" "under s key p" "\<forall>i. p < i \<and> i < n \<longrightarrow> \<not> under s key i" by auto
  with resolved Some have end_p: "ended s p" by (simp add: awaited_resolved_def ended_def)
  with p(2) have "mq_tasks s ! p = Released key" by (cases "mq_tasks s ! p") (auto simp: ended_def under_def)
  with invariant_parts(7) [OF inv under_length [OF p(2)]] have "all_released s key p" by simp
  with p end_p show ?thesis unfolding all_released_def by (metis linorder_neqE_nat)
qed

lemma invariant_turn:
  assumes inv: "queue_invariant s" and n: "n < length (mq_tasks s)" "mq_tasks s ! n = Awaiting key prev"
    and resolved: "awaited_resolved s prev"
  shows "queue_invariant (s\<lparr>mq_tasks := (mq_tasks s)[n := Running key]\<rparr>)" (is "queue_invariant ?s")
proof -
  note parts = invariant_parts [OF inv]
  have under: "under ?s k i \<longleftrightarrow> under s k i" for k i using n by (cases "i = n") (auto simp: under_def)
  have ended: "ended ?s i \<longleftrightarrow> ended s i" for i using n by (cases "i = n") (auto simp: ended_def)
  have all: "all_released ?s k m \<longleftrightarrow> all_released s k m" for k m by (auto simp: all_released_def under ended)
  have task: "m < length (mq_tasks s) \<and> mq_tasks s ! m = t" if "m < length (mq_tasks ?s)" "mq_tasks ?s ! m = t" "t \<noteq> Running key" for m t
    using that n(1) by (cases "m = n") auto
  show ?thesis
  proof (rule invariant_intro, goal_cases)
    case 1
    then show ?case using parts(1) parts(2) [of n] parts(2) n by (auto simp: registration_order_def nth_list_update)
  next
    case (2 k i)
    then show ?case using parts(3) [of k i] by (simp add: under ended)
  next
    case (3 k p)
    then show ?case using parts(4) [of k p] by (simp add: under ended)
  next
    case (4 m k)
    then show ?case using task [OF 4] parts(5) [of m k] by (simp add: all)
  next
    case (5 m k p)
    then show ?case using task [OF 5] parts(6) [of m k p] by (simp add: under)
  next
    case (6 m k)
    show ?case
    proof (cases "m = n")
      case True
      with 6 n(1) have "k = key" by auto
      with True turn_has_come [OF assms] show ?thesis by (simp only: all)
    next
      case False
      with 6 parts(7) [of m k] show ?thesis by (simp add: all)
    qed
  qed
qed

lemma invariant_finished:
  assumes inv: "queue_invariant s" and n: "n < length (mq_tasks s)" "mq_tasks s ! n = Running key"
  shows "queue_invariant (release n key s)" (is "queue_invariant ?s")
proof -
  note parts = invariant_parts [OF inv]
  have tasks: "mq_tasks ?s = (mq_tasks s)[n := Released key]" by (simp add: release_def)
  have under: "under ?s k i \<longleftrightarrow> under s k i" for k i using n by (cases "i = n") (auto simp: under_def tasks)
  have ended: "ended ?s i \<longleftrightarrow> i = n \<or> ended s i" for i using n by (cases "i = n") (auto simp: ended_def tasks)
  have all: "all_released s k m \<Longrightarrow> all_released ?s k m" for k m by (auto simp: all_released_def under ended)
  have own: "under s key n" "\<not> ended s n" using n by (auto simp: under_def ended_def)
  have task: "m < length (mq_tasks s) \<and> mq_tasks s ! m = t" if "m < length (mq_tasks ?s)" "mq_tasks ?s ! m = t" "t \<noteq> Released key" for m t
    using that n(1) by (cases "m = n") (auto simp: tasks)
  have queues: "mq_queues ?s k = (if k = key \<and> mq_queues s key = Some n then None else mq_queues s k)" for k
    by (simp add: release_def)
  show ?thesis
  proof (rule invariant_intro, goal_cases)
    case 1
    then show ?case using parts(1) parts(2) [of n] parts(2) n by (auto simp: registration_order_def release_def nth_list_update)
  next
    case (2 k i)
    show ?case
    proof (cases "k = key \<and> mq_queues s key = Some n")
      case True
      with parts(4) [of key n] parts(7) [OF n(1)] n(2) 2 show ?thesis
        by (auto simp: under ended all_released_def le_less)
    next
      case False
      with 2 parts(3) [of k i] show ?thesis by (auto simp: queues under ended)
    qed
  next
    case (3 k p)
    then have p: "mq_queues s k = Some p" and "\<not> (k = key \<and> p = n)" by (auto simp: queues split: if_splits)
    with parts(4) [OF p] own(1) have "under s k p" "\<not> ended s p" "\<forall>i. under s k i \<longrightarrow> i \<le> p" "p \<noteq> n"
      by (auto simp: under_def)
    then show ?case by (simp add: under ended)
  next
    case (4 m k)
    then show ?case using task [OF 4] parts(5) [of m k] all by simp
  next
    case (5 m k p)
    then show ?case using task [OF 5] parts(6) [of m k p] by (simp add: under)
  next
    case (6 m k)
    show ?case
    proof (cases "m = n")
      case True
      with 6 n have "k = key" by (auto simp: tasks)
      with True n parts(7) [OF n(1), of key] show ?thesis by (simp add: all)
    next
      case False
      with 6 parts(7) [of m k] show ?thesis by (auto simp: tasks intro: all)
    qed
  qed
qed

inductive_cases own_stepE: "own_step s s'"
inductive_cases queue_stepE: "queue_step s s'"

lemma invariant_own_step: "own_step s s' \<Longrightarrow> queue_invariant s \<Longrightarrow> queue_invariant s'"
  by (cases rule: own_step.cases)
    (auto intro: invariant_register invariant_key_failed invariant_turn invariant_finished)

lemma invariant_start: "queue_invariant idle_queue"
  by (simp add: queue_invariant_def queue_defs idle_queue_def)

lemma reachable_invariant: "queue_reachable s \<Longrightarrow> queue_invariant s"
  by (induction rule: queue_reachable.induct)
    (auto intro: invariant_start invariant_called invariant_own_step elim: queue_stepE)

section \<open>Order, progress and the end\<close>

text \<open>
  The work that the calls made so far still have to do: two steps for a registration, and one each for the turn
  and the end.
\<close>

fun steps_left :: "task_state \<Rightarrow> nat" where
  "steps_left Registering = 3"
| "steps_left (Awaiting _ _) = 2"
| "steps_left (Running _) = 1"
| "steps_left _ = 0"

definition work_left :: "mutation_queue \<Rightarrow> nat" where
  "work_left s = sum_list (map steps_left (mq_tasks s))"

lemma sum_list_smaller:
  assumes "n < length ts" and "steps_left t < steps_left (ts ! n)"
  shows "sum_list (map steps_left (ts[n := t])) < sum_list (map steps_left ts)"
  using assms
proof (induction ts arbitrary: n)
  case (Cons a ts)
  then show ?case by (cases n) auto
qed simp

lemma own_step_works:
  assumes "own_step s s'" and inv: "queue_invariant s"
  shows "work_left s' < work_left s"
  using assms(1)
proof cases
  case (key_found key)
  with invariant_parts(2) [OF inv, of "mq_registered s"] show ?thesis
    by (simp add: work_left_def register_def Let_def sum_list_smaller)
next
  case key_failed
  with invariant_parts(2) [OF inv, of "mq_registered s"] show ?thesis by (simp add: work_left_def sum_list_smaller)
next
  case (turn n key prev)
  then show ?thesis by (auto simp: work_left_def intro: sum_list_smaller)
next
  case (finished n key)
  then show ?thesis by (auto simp: work_left_def release_def intro: sum_list_smaller)
qed

text \<open>Some call can go on unless all have ended: the first unfinished call is never blocked.\<close>

definition call_ended :: "task_state \<Rightarrow> bool" where
  "call_ended t \<longleftrightarrow> (case t of Unregistered \<Rightarrow> True | Released _ \<Rightarrow> True | _ \<Rightarrow> False)"

lemma never_stuck:
  assumes inv: "queue_invariant s" and "n < length (mq_tasks s)" "\<not> call_ended (mq_tasks s ! n)"
  shows "\<exists>s'. own_step s s'"
proof -
  define m where "m = (LEAST n. n < length (mq_tasks s) \<and> \<not> call_ended (mq_tasks s ! n))"
  have m: "m < length (mq_tasks s)" "\<not> call_ended (mq_tasks s ! m)"
    using LeastI [of "\<lambda>n. n < length (mq_tasks s) \<and> \<not> call_ended (mq_tasks s ! n)" n] assms(2,3) unfolding m_def by auto
  have before: "call_ended (mq_tasks s ! i)" if "i < m" for i
    using not_less_Least [of i "\<lambda>n. n < length (mq_tasks s) \<and> \<not> call_ended (mq_tasks s ! n)"] that m(1) unfolding m_def [symmetric] by auto
  note parts = invariant_parts [OF inv]
  show ?thesis
  proof (cases "mq_tasks s ! m")
    case Registering
    with parts(2) [OF m(1)] m(1) have "mq_registered s < length (mq_tasks s)" by simp
    then show ?thesis using own_step.key_failed by blast
  next
    case (Awaiting key prev)
    have "awaited_resolved s prev"
    proof (cases prev)
      case (Some p)
      with parts(6) [OF m(1)] Awaiting have "p < m" "under s key p" by auto
      with before [of p] Some show ?thesis
        by (cases "mq_tasks s ! p") (auto simp: awaited_resolved_def call_ended_def under_def)
    qed (simp add: awaited_resolved_def)
    with m(1) Awaiting show ?thesis using own_step.turn by blast
  next
    case (Running key)
    with m(1) show ?thesis using own_step.finished by blast
  qed (use m(2) in \<open>auto simp: call_ended_def\<close>)
qed

inductive own_steps :: "mutation_queue \<Rightarrow> nat \<Rightarrow> mutation_queue \<Rightarrow> bool" where
  none: "own_steps s 0 s"
| more: "own_step s t \<Longrightarrow> own_steps t n u \<Longrightarrow> own_steps s (Suc n) u"

lemma own_steps_bounded:
  "own_steps s n t \<Longrightarrow> queue_invariant s \<Longrightarrow> queue_invariant t \<and> n + work_left t \<le> work_left s"
proof (induction rule: own_steps.induct)
  case (more s t n u)
  with own_step_works [OF more.hyps(1)] invariant_own_step [OF more.hyps(1)] show ?case by simp
qed simp

lemma work_left_bound: "work_left s \<le> 3 * length (mq_tasks s)"
proof -
  have "steps_left t \<le> 3" for t by (cases t) auto
  then have "sum_list (map steps_left ts) \<le> 3 * length ts" for ts by (induction ts) (auto intro: add_mono)
  then show ?thesis by (simp add: work_left_def)
qed

text \<open>
  C5. Under one canonical path at most one change runs at a time, and changes run in the order of the calls: while
  a call runs or when it has ended, every earlier call with the same key has ended and no later one has begun.
\<close>

theorem changes_exclude_in_order:
  assumes "queue_reachable s" and "i < j" "j < length (mq_tasks s)"
    and "key_of (mq_tasks s ! i) = Some key"
    and "mq_tasks s ! j = Running key \<or> mq_tasks s ! j = Released key"
  shows "mq_tasks s ! i = Released key"
proof -
  from invariant_parts(7) [OF reachable_invariant [OF assms(1)] assms(3,5)] assms(2,3,4)
  have "ended s i" by (auto simp: all_released_def under_def)
  with assms(4) show ?thesis by (cases "mq_tasks s ! i") (auto simp: ended_def)
qed

text \<open>
  C6. No call waits for ever: whatever the interleaving, the calls made so far take at most three steps each; where they
  can take no more, all have ended (a call may have thrown because its path has no key), and the map of queues is
  empty again.
\<close>

theorem changes_all_end:
  assumes "queue_reachable s" and "own_steps s n t"
  shows "n \<le> 3 * length (mq_tasks s) \<and>
    ((\<forall>u. \<not> own_step t u) \<longrightarrow> (\<forall>c \<in> set (mq_tasks t). call_ended c) \<and> mq_queues t = Map.empty)"
proof -
  from own_steps_bounded [OF assms(2) reachable_invariant [OF assms(1)]]
  have inv: "queue_invariant t" and n: "n \<le> work_left s" by auto
  have "mq_queues t = Map.empty" if alldone: "\<forall>c \<in> set (mq_tasks t). call_ended c"
  proof (rule ext, rule ccontr)
    fix k assume "mq_queues t k \<noteq> None"
    then obtain p where "mq_queues t k = Some p" by auto
    with invariant_parts(4) [OF inv] have p: "under t k p" "\<not> ended t p" by auto
    then have "call_ended (mq_tasks t ! p)" using alldone by (simp add: under_def)
    with p show False by (cases "mq_tasks t ! p") (auto simp: under_def ended_def call_ended_def)
  qed
  moreover have "\<forall>c \<in> set (mq_tasks t). call_ended c" if "\<forall>u. \<not> own_step t u"
    using never_stuck [OF inv] that by (metis in_set_conv_nth)
  ultimately show ?thesis using n work_left_bound [of s] by auto
qed

text \<open>Two calls for one file: both register, the first runs and ends, the second runs.\<close>

definition demo_after :: "task_state list \<Rightarrow> nat \<Rightarrow> nat option \<Rightarrow> mutation_queue" where
  "demo_after ts n q = \<lparr>mq_tasks = ts, mq_registered = n, mq_queues = Map.empty([] := q)\<rparr>"

lemma demo_steps:
  "queue_step idle_queue (demo_after [Registering] 0 None)"
  "queue_step (demo_after [Registering] 0 None) (demo_after [Registering, Registering] 0 None)"
  "own_step (demo_after [Registering, Registering] 0 None) (demo_after [Awaiting [] None, Registering] 1 (Some 0))"
  "own_step (demo_after [Awaiting [] None, Registering] 1 (Some 0)) (demo_after [Awaiting [] None, Awaiting [] (Some 0)] 2 (Some 1))"
  "own_step (demo_after [Awaiting [] None, Awaiting [] (Some 0)] 2 (Some 1)) (demo_after [Running [], Awaiting [] (Some 0)] 2 (Some 1))"
  "own_step (demo_after [Running [], Awaiting [] (Some 0)] 2 (Some 1)) (demo_after [Released [], Awaiting [] (Some 0)] 2 (Some 1))"
  "own_step (demo_after [Released [], Awaiting [] (Some 0)] 2 (Some 1)) (demo_after [Released [], Running []] 2 (Some 1))"
  "own_step (demo_after [Released [], Running []] 2 (Some 1)) (demo_after [Released [], Released []] 2 None)"
proof -
  show "queue_step idle_queue (demo_after [Registering] 0 None)"
    using called [of idle_queue] by (simp add: idle_queue_def demo_after_def fun_upd_idem)
  show "queue_step (demo_after [Registering] 0 None) (demo_after [Registering, Registering] 0 None)"
    using called [of "demo_after [Registering] 0 None"] by (simp add: demo_after_def)
  show "own_step (demo_after [Registering, Registering] 0 None) (demo_after [Awaiting [] None, Registering] 1 (Some 0))"
    using key_found [of "demo_after [Registering, Registering] 0 None" "[]"] by (simp add: demo_after_def register_def)
  show "own_step (demo_after [Awaiting [] None, Registering] 1 (Some 0)) (demo_after [Awaiting [] None, Awaiting [] (Some 0)] 2 (Some 1))"
    using key_found [of "demo_after [Awaiting [] None, Registering] 1 (Some 0)" "[]"] by (simp add: demo_after_def register_def numeral_2_eq_2)
  show "own_step (demo_after [Awaiting [] None, Awaiting [] (Some 0)] 2 (Some 1)) (demo_after [Running [], Awaiting [] (Some 0)] 2 (Some 1))"
    using turn [of 0 "demo_after [Awaiting [] None, Awaiting [] (Some 0)] 2 (Some 1)" "[]" None] by (simp add: demo_after_def awaited_resolved_def)
  show "own_step (demo_after [Running [], Awaiting [] (Some 0)] 2 (Some 1)) (demo_after [Released [], Awaiting [] (Some 0)] 2 (Some 1))"
    using finished [of 0 "demo_after [Running [], Awaiting [] (Some 0)] 2 (Some 1)" "[]"] by (simp add: demo_after_def release_def)
  show "own_step (demo_after [Released [], Awaiting [] (Some 0)] 2 (Some 1)) (demo_after [Released [], Running []] 2 (Some 1))"
    using turn [of 1 "demo_after [Released [], Awaiting [] (Some 0)] 2 (Some 1)" "[]" "Some 0"] by (simp add: demo_after_def awaited_resolved_def)
  show "own_step (demo_after [Released [], Running []] 2 (Some 1)) (demo_after [Released [], Released []] 2 None)"
    using finished [of 1 "demo_after [Released [], Running []] 2 (Some 1)" "[]"] by (simp add: demo_after_def release_def)
qed

lemma queue_demo_reachable: "queue_reachable (demo_after [Released [], Running []] 2 (Some 1))"
  by (rule step [OF step [OF step [OF step [OF step [OF step [OF step [OF start demo_steps(1)] demo_steps(2)]
        own [OF demo_steps(3)]] own [OF demo_steps(4)]] own [OF demo_steps(5)]] own [OF demo_steps(6)]] own [OF demo_steps(7)]])

theorem changes_exclude_in_order_witness:
  "mq_tasks (demo_after [Released [], Running []] 2 (Some 1)) ! 0 = Released []"
  using changes_exclude_in_order [OF queue_demo_reachable, of 0 1 "[]"] by (simp add: demo_after_def)

lemma demo_all_ended: "\<not> own_step (demo_after [Released [], Released []] 2 None) u"
  by (auto elim!: own_step.cases simp: demo_after_def nth_Cons' less_Suc_eq)

theorem changes_all_end_witness:
  "mq_queues (demo_after [Released [], Released []] 2 None) = Map.empty"
  using changes_all_end [OF queue_demo_reachable more [OF demo_steps(8) none]] demo_all_ended by blast

end
