(* ===== verification/Uuid.thy ===== *)
theory Uuid
  imports Js_Prelude "HOL-Library.Word"
begin

unbundle bit_operations_syntax

text \<open>
  The generator of time-ordered ids, \<open>packages/ai/src/utils/uuid.ts\<close>. The random bytes and the clock are
  arguments; times are integers of milliseconds since 1970. \<open>lastTimestamp\<close> is \<open>None\<close> for \<open>-Infinity\<close>.
\<close>

section \<open>Definitions\<close>

record uuid_state =
  lastTimestamp :: "int option"
  uuid_sequence :: "32 word"

definition fresh_uuid_state :: uuid_state where
  "fresh_uuid_state = \<lparr>lastTimestamp = None, uuid_sequence = 0\<rparr>"

definition random_sequence :: "8 word list \<Rightarrow> 32 word" where
  "random_sequence random =
     ucast (random ! 6) * 0x1000000 + ucast (random ! 7) * 0x10000
       + ucast (random ! 8) * 0x100 + ucast (random ! 9)"

text \<open>The timestamp and the sequence number of the next id.\<close>

definition next_stamp :: "8 word list \<Rightarrow> int \<Rightarrow> uuid_state \<Rightarrow> int \<times> 32 word" where
  "next_stamp random timestamp s =
     (case lastTimestamp s of
        None \<Rightarrow> (timestamp, random_sequence random)
      | Some latest \<Rightarrow>
          if timestamp > latest then (timestamp, random_sequence random)
          else let n = uuid_sequence s + 1 in (if n = 0 then latest + 1 else latest, n))"

definition time_byte :: "int \<Rightarrow> nat \<Rightarrow> 8 word" where
  "time_byte t k = word_of_int (t div 2 ^ k)"

definition sequence_bits :: "32 word \<Rightarrow> nat \<Rightarrow> 8 word \<Rightarrow> 8 word" where
  "sequence_bits n k low = ucast (drop_bit k n) AND low"

definition uuid_bytes :: "8 word list \<Rightarrow> int \<Rightarrow> 32 word \<Rightarrow> 8 word list" where
  "uuid_bytes random t n =
     [time_byte t 40, time_byte t 32, time_byte t 24, time_byte t 16, time_byte t 8, time_byte t 0,
      0x70 OR sequence_bits n 28 0x0F, sequence_bits n 20 0xFF, 0x80 OR sequence_bits n 14 0x3F, sequence_bits n 6 0xFF,
      push_bit 2 (sequence_bits n 0 0x3F) OR (random ! 10 AND 0x03),
      random ! 11, random ! 12, random ! 13, random ! 14, random ! 15]"

definition hex_digit :: "nat \<Rightarrow> char" where
  "hex_digit d = ''0123456789abcdef'' ! d"

definition hex_byte :: "8 word \<Rightarrow> string" where
  "hex_byte b = [hex_digit (unat b div 16), hex_digit (unat b mod 16)]"

definition uuid_text :: "8 word list \<Rightarrow> string" where
  "uuid_text bs =
     (let part = (\<lambda>i k. concat (map hex_byte (drop i (take k bs))))
      in part 0 4 @ ''-'' @ part 4 6 @ ''-'' @ part 6 8 @ ''-'' @ part 8 10 @ ''-'' @ part 10 16)"

definition uuidv7 :: "8 word list \<Rightarrow> int \<Rightarrow> uuid_state \<Rightarrow> string \<times> uuid_state" where
  "uuidv7 random timestamp s =
     (case next_stamp random timestamp s of (t, n) \<Rightarrow>
        (uuid_text (uuid_bytes random t n), \<lparr>lastTimestamp = Some t, uuid_sequence = n\<rparr>))"

text \<open>The ids of a series of calls.\<close>

fun uuids :: "(8 word list \<times> int) list \<Rightarrow> uuid_state \<Rightarrow> string list \<times> uuid_state" where
  "uuids [] s = ([], s)"
| "uuids ((random, timestamp) # calls) s =
     (case uuidv7 random timestamp s of (i, s) \<Rightarrow> case uuids calls s of (is, s) \<Rightarrow> (i # is, s))"

section \<open>Order of the ids\<close>

text \<open>\<open>xs\<close> comes before \<open>ys\<close>: they agree up to a position where \<open>xs\<close> is smaller.\<close>

definition before :: "('a \<Rightarrow> nat) \<Rightarrow> 'a list \<Rightarrow> 'a list \<Rightarrow> bool" where
  "before v xs ys \<longleftrightarrow>
     (\<exists>i < length xs. i < length ys \<and> take i xs = take i ys \<and> v (xs ! i) < v (ys ! i))"

lemma before_append: "before v xs ys \<Longrightarrow> before v (xs @ as) (ys @ bs)"
  unfolding before_def by (metis nth_append trans_less_add1 length_append less_or_eq_imp_le take_append append_Nil2
      diff_is_0_eq take0 take_eq_Nil2)

lemma before_prepend: "before v xs ys \<Longrightarrow> before v (zs @ xs) (zs @ ys)"
proof -
  assume "before v xs ys"
  then obtain i where "i < length xs" "i < length ys" "take i xs = take i ys" "v (xs ! i) < v (ys ! i)"
    by (auto simp: before_def)
  then show ?thesis unfolding before_def by (intro exI [of _ "length zs + i"]) simp
qed

lemma before_Cons: "before v (x # xs) (y # ys) \<longleftrightarrow> v x < v y \<or> x = y \<and> before v xs ys"
proof
  assume "before v (x # xs) (y # ys)"
  then obtain i where "i < length (x # xs)" "i < length (y # ys)" "take i (x # xs) = take i (y # ys)"
    "v ((x # xs) ! i) < v ((y # ys) ! i)" by (auto simp: before_def)
  then show "v x < v y \<or> x = y \<and> before v xs ys" by (cases i) (auto simp: before_def)
next
  assume "v x < v y \<or> x = y \<and> before v xs ys"
  then show "before v (x # xs) (y # ys)"
  proof
    assume "v x < v y"
    then show ?thesis unfolding before_def by (intro exI [of _ 0]) simp
  next
    assume "x = y \<and> before v xs ys"
    then show ?thesis using before_prepend [of v xs ys "[x]"] by simp
  qed
qed

lemma before_Nil: "\<not> before v [] ys" "\<not> before v xs []"
  by (simp_all add: before_def)

lemma before_irrefl: "\<not> before v xs xs"
  by (auto simp: before_def)

text \<open>The digits of a number in the positions a list of widths gives, and their order.\<close>

fun digits :: "nat list \<Rightarrow> nat \<Rightarrow> nat list" where
  "digits [] x = []"
| "digits (w # ws) x = take_bit w (drop_bit (sum_list ws) x) # digits ws x"

lemma take_bit_split: "take_bit (w + k) (x :: nat) = take_bit k x + 2 ^ k * take_bit w (drop_bit k x)"
  by (simp add: take_bit_eq_mod drop_bit_eq_div power_add mod_mult2_eq ac_simps)

lemma digits_before:
  "take_bit (sum_list ws) x < take_bit (sum_list ws) y \<Longrightarrow> before (\<lambda>d. d) (digits ws x) (digits ws y)"
proof (induction ws)
  case (Cons w ws)
  let ?k = "sum_list ws"
  let ?a = "take_bit w (drop_bit ?k x)" and ?b = "take_bit w (drop_bit ?k y)"
  have less: "take_bit ?k x + 2 ^ ?k * ?a < take_bit ?k y + 2 ^ ?k * ?b"
    using Cons.prems by (simp add: take_bit_split)
  have "?a \<le> ?b"
  proof (rule ccontr)
    assume "\<not> ?a \<le> ?b"
    then have "2 ^ ?k * (?b + 1) \<le> 2 ^ ?k * ?a" by (intro mult_le_mono) auto
    moreover have "2 ^ ?k * (?b + 1) = 2 ^ ?k * ?b + 2 ^ ?k" by simp
    moreover have "take_bit ?k y < 2 ^ ?k" by simp
    ultimately show False using less by linarith
  qed
  with less Cons.IH show ?case by (cases "?a = ?b") (auto simp: before_Cons)
qed simp

lemma unat_time_byte: "0 \<le> t \<Longrightarrow> unat (time_byte t k) = take_bit 8 (drop_bit k (nat t))"
  by (simp add: time_byte_def unsigned_of_int take_bit_eq_mod drop_bit_eq_div nat_mod_distrib nat_div_distrib nat_power_eq
      pos_imp_zdiv_nonneg_iff)

lemma time_bytes_before:
  assumes "0 \<le> t" and "t < t'" and "t' < 2 ^ 48"
  shows "before unat [time_byte t 40, time_byte t 32, time_byte t 24, time_byte t 16, time_byte t 8, time_byte t 0]
    [time_byte t' 40, time_byte t' 32, time_byte t' 24, time_byte t' 16, time_byte t' 8, time_byte t' 0]"
proof -
  have "take_bit 48 (nat t) = nat t" "take_bit 48 (nat t') = nat t'" using assms by (simp_all add: take_bit_nat_eq_self_iff)
  then have "before (\<lambda>d. d) (digits [8, 8, 8, 8, 8, 8] (nat t)) (digits [8, 8, 8, 8, 8, 8] (nat t'))"
    using assms by (intro digits_before) simp
  moreover have "time_byte t k = time_byte t' k" if "take_bit 8 (drop_bit k (nat t)) = take_bit 8 (drop_bit k (nat t'))" for k
    using that assms unat_time_byte [of t k] unat_time_byte [of t' k] by (simp add: word_unat_eq_iff)
  ultimately show ?thesis using assms unat_time_byte [of t] unat_time_byte [of t'] by (auto simp: before_Cons before_Nil)
qed

lemma byte_masks_uuid: "(0x03 :: 8 word) = mask 2" "(0x0F :: 8 word) = mask 4" "(0x3F :: 8 word) = mask 6" "(0xFF :: 8 word) = mask 8"
  by (simp_all add: mask_eq_exp_minus_1)

lemma take_bit_unat_32: "take_bit 32 (unat (n :: 32 word)) = unat n"
  using unsigned_less [of n] by (simp add: take_bit_nat_eq_self_iff)

lemma unat_sequence_bits: "w \<le> 8 \<Longrightarrow> unat (sequence_bits n k (mask w)) = take_bit w (drop_bit k (unat n))"
  by (simp add: sequence_bits_def unsigned_take_bit_eq unsigned_drop_bit_eq unsigned_ucast_eq take_bit_take_bit min_def
      take_bit_unat_32 flip: take_bit_eq_mask)

lemma push_or: "r < 2 ^ k \<Longrightarrow> push_bit k a OR r = 2 ^ k * a + (r :: nat)"
proof -
  assume r: "r < 2 ^ k"
  have "\<not> bit r n" if "k \<le> n" for n
    using r that by (metis bit_take_bit_iff leD take_bit_nat_eq_self_iff)
  then have "\<not> bit (push_bit k a) n \<or> \<not> bit r n" for n by (cases "k \<le> n") (auto simp: bit_simps)
  then have "push_bit k a + r = push_bit k a OR r" by (rule disjunctive_add)
  then show ?thesis by (simp add: push_bit_eq_mult mult.commute)
qed

lemma tagged_bytes:
  "unat (0x70 OR sequence_bits n 28 0x0F) = 0x70 + take_bit 4 (drop_bit 28 (unat n))"
  "unat (0x80 OR sequence_bits n 14 0x3F) = 0x80 + take_bit 6 (drop_bit 14 (unat n))"
  "unat (push_bit 2 (sequence_bits n 0 0x3F) OR (r AND 0x03)) = 4 * take_bit 6 (unat n) + take_bit 2 (unat r)"
proof -
  show "unat (0x70 OR sequence_bits n 28 0x0F) = 0x70 + take_bit 4 (drop_bit 28 (unat n))"
    using push_or [OF take_bit_nat_less_exp [of 4 "drop_bit 28 (unat n)"], of 7]
    by (simp add: unsigned_or_eq byte_masks_uuid unat_sequence_bits push_bit_eq_mult)
  show "unat (0x80 OR sequence_bits n 14 0x3F) = 0x80 + take_bit 6 (drop_bit 14 (unat n))"
    using push_or [OF take_bit_nat_less_exp [of 6 "drop_bit 14 (unat n)"], of 2]
    by (simp add: unsigned_or_eq byte_masks_uuid unat_sequence_bits push_bit_eq_mult)
  have "push_bit 2 (take_bit 6 (unat n)) < (256 :: nat)"
    using take_bit_nat_less_exp [of 6 "unat n"] by (simp add: push_bit_eq_mult)
  then have "unat (push_bit 2 (sequence_bits n 0 0x3F)) = push_bit 2 (take_bit 6 (unat n))"
    by (simp add: unsigned_push_bit_eq byte_masks_uuid unat_sequence_bits take_bit_nat_eq_self_iff)
  then show "unat (push_bit 2 (sequence_bits n 0 0x3F) OR (r AND 0x03)) = 4 * take_bit 6 (unat n) + take_bit 2 (unat r)"
    using push_or [OF take_bit_nat_less_exp [of 2 "unat r"], of "take_bit 6 (unat n)"]
    by (simp add: unsigned_or_eq unsigned_take_bit_eq byte_masks_uuid flip: take_bit_eq_mask)
qed

definition stamp_bytes :: "int \<Rightarrow> 8 word list" where
  "stamp_bytes t = [time_byte t 40, time_byte t 32, time_byte t 24, time_byte t 16, time_byte t 8, time_byte t 0]"

definition tail_bytes :: "8 word list \<Rightarrow> 32 word \<Rightarrow> 8 word list" where
  "tail_bytes random n =
     [0x70 OR sequence_bits n 28 0x0F, sequence_bits n 20 0xFF, 0x80 OR sequence_bits n 14 0x3F, sequence_bits n 6 0xFF,
      push_bit 2 (sequence_bits n 0 0x3F) OR (random ! 10 AND 0x03),
      random ! 11, random ! 12, random ! 13, random ! 14, random ! 15]"

lemma uuid_bytes_parts: "uuid_bytes random t n = stamp_bytes t @ tail_bytes random n"
  by (simp add: uuid_bytes_def stamp_bytes_def tail_bytes_def)

lemma tail_bytes_before:
  assumes "unat n < unat n'"
  shows "before unat (tail_bytes random n) (tail_bytes random' n')"
proof -
  have "before (\<lambda>d. d) (digits [4, 8, 6, 8, 6] (unat n)) (digits [4, 8, 6, 8, 6] (unat n'))"
    using assms by (intro digits_before) (simp add: take_bit_unat_32)
  moreover have "sequence_bits n k (mask w) = sequence_bits n' k (mask w)"
    if "w \<le> 8" "take_bit w (drop_bit k (unat n)) = take_bit w (drop_bit k (unat n'))" for k w
    using that by (simp add: word_unat_eq_iff unat_sequence_bits)
  note same = this [of 4 28] this [of 8 20] this [of 6 14] this [of 8 6] this [of 6 0]
  moreover have "4 * a + take_bit 2 (unat r) < 4 * b + take_bit 2 (unat r')" if "a < b" for a b and r r' :: "8 word"
    using that take_bit_nat_less_exp [of 2 "unat r"] by simp
  ultimately show ?thesis
    using tagged_bytes [of n] tagged_bytes [of n'] unat_sequence_bits [of 8 n] unat_sequence_bits [of 8 n']
    by (auto simp: before_Cons before_Nil tail_bytes_def byte_masks_uuid)
qed

text \<open>The stamp of an id, and that the bytes of ids are ordered as their stamps.\<close>

definition stamp_less :: "int \<times> 32 word \<Rightarrow> int \<times> 32 word \<Rightarrow> bool" where
  "stamp_less p q \<longleftrightarrow> fst p < fst q \<or> fst p = fst q \<and> unat (snd p) < unat (snd q)"

lemma uuid_bytes_before:
  assumes "0 \<le> t" and "t' < 2 ^ 48" and "stamp_less (t, n) (t', n')"
  shows "before unat (uuid_bytes random t n) (uuid_bytes random' t' n')"
proof (cases "t < t'")
  case True
  from before_append [OF time_bytes_before [OF assms(1) True assms(2)]] show ?thesis
    unfolding uuid_bytes_parts stamp_bytes_def .
next
  case False
  with assms(3) have "t = t'" "unat n < unat n'" by (auto simp: stamp_less_def)
  with before_prepend [OF tail_bytes_before] show ?thesis unfolding uuid_bytes_parts by blast
qed

lemma next_stamp_less:
  assumes "lastTimestamp s = Some t" and "next_stamp random now s = (t', n')"
  shows "stamp_less (t, uuid_sequence s) (t', n')"
proof (cases "t < now")
  case False
  have "unat (uuid_sequence s) < unat (uuid_sequence s + 1)" if "uuid_sequence s + 1 \<noteq> 0"
    using that unatSuc [of "uuid_sequence s"] by (simp add: add.commute)
  with False assms show ?thesis by (auto simp: next_stamp_def stamp_less_def Let_def split: if_splits)
qed (use assms in \<open>auto simp: next_stamp_def stamp_less_def\<close>)

section \<open>The text of the ids\<close>

lemma hex_byte_before:
  assumes "unat a < unat b"
  shows "before (of_char :: char \<Rightarrow> nat) (hex_byte a) (hex_byte b)"
proof -
  have digit: "of_char (hex_digit i) < (of_char (hex_digit j) :: nat)" if "i < j" "j < 16" for i j
  proof -
    have "\<forall>j < 16. \<forall>i < j. of_char (hex_digit i) < (of_char (hex_digit j) :: nat)"
      unfolding hex_digit_def by code_simp
    with that show ?thesis by blast
  qed
  have bound: "unat a div 16 < 16" "unat b div 16 < 16" "unat b mod 16 < 16"
    using unsigned_less [of a, where 'a = nat] unsigned_less [of b, where 'a = nat] by auto
  from assms consider "unat a div 16 < unat b div 16" | "unat a div 16 = unat b div 16" "unat a mod 16 < unat b mod 16"
    by (metis div_le_mono less_imp_le_nat mult_div_mod_eq nat_add_left_cancel_less order_le_less)
  then show ?thesis by cases (auto simp: hex_byte_def before_Cons before_Nil intro: digit bound)
qed

lemma before_concat:
  assumes "\<And>a b. unat a < unat b \<Longrightarrow> before v (f a) (f b)"
    and "length xs = length ys" and "length ys = length seps" and "before unat xs ys"
  shows "before v (concat (map2 (\<lambda>b s. f b @ s) xs seps)) (concat (map2 (\<lambda>b s. f b @ s) ys seps))"
  using assms(2-4)
proof (induction xs ys seps rule: list_induct3)
  case (Cons x xs y ys z zs)
  from Cons.prems consider "unat x < unat y" | "x = y" "before unat xs ys" by (auto simp: before_Cons)
  then show ?case
  proof cases
    case 1
    from before_append [OF assms(1) [OF this]] show ?thesis by simp
  next
    case 2
    from before_prepend [OF Cons.IH [OF this(2)], of "f x @ z"] 2(1) show ?thesis by simp
  qed
qed (simp add: before_Nil)

definition separators :: "string list" where
  "separators = [[], [], [], ''-'', [], ''-'', [], ''-'', [], ''-'', [], [], [], [], [], []]"

lemma uuid_text_concat:
  assumes "length bs = 16"
  shows "uuid_text bs = concat (map2 (\<lambda>b s. hex_byte b @ s) bs separators)"
proof -
  from assms obtain a0 a1 a2 a3 a4 a5 a6 a7 a8 a9 a10 a11 a12 a13 a14 a15 where
    "bs = [a0, a1, a2, a3, a4, a5, a6, a7, a8, a9, a10, a11, a12, a13, a14, a15]"
    by (auto simp: numeral_eq_Suc length_Suc_conv)
  then show ?thesis by (simp add: uuid_text_def separators_def Let_def)
qed

definition text_order :: "(string \<times> string) set" where
  "text_order = lexord {(a, b). (of_char a :: nat) < of_char b}"

lemma before_text_order: "before of_char x y \<Longrightarrow> (x, y) \<in> text_order"
  by (auto simp: before_def text_order_def lexord_take_index_conv)

definition stamped :: "int \<times> 32 word \<Rightarrow> string \<Rightarrow> bool" where
  "stamped p i \<longleftrightarrow> (\<exists>random. i = uuid_text (uuid_bytes random (fst p) (snd p)))"

lemma stamped_order:
  assumes "stamped p i" and "stamped q j" and "stamp_less p q" and "0 \<le> fst p" and "fst q < 2 ^ 48"
  shows "(i, j) \<in> text_order"
proof -
  obtain r r' where ij: "i = uuid_text (uuid_bytes r (fst p) (snd p))" "j = uuid_text (uuid_bytes r' (fst q) (snd q))"
    using assms(1,2) by (auto simp: stamped_def)
  have "before unat (uuid_bytes r (fst p) (snd p)) (uuid_bytes r' (fst q) (snd q))"
    using assms(3-5) by (intro uuid_bytes_before) simp_all
  from before_concat [OF hex_byte_before _ _ this, where seps = separators] show ?thesis
    unfolding ij by (intro before_text_order) (simp add: uuid_text_concat uuid_bytes_def separators_def)
qed

text \<open>The form of an id: hyphens, the version and the variant in their places.\<close>

definition uuid_form :: "string \<Rightarrow> bool" where
  "uuid_form i \<longleftrightarrow> length i = 36 \<and> i ! 8 = CHR ''-'' \<and> i ! 13 = CHR ''-'' \<and> i ! 18 = CHR ''-'' \<and> i ! 23 = CHR ''-'' \<and>
     i ! 14 = CHR ''7'' \<and> i ! 19 \<in> set ''89ab''"

lemma uuid_form_text: "uuid_form (uuid_text (uuid_bytes random t n))"
proof -
  have "take_bit 4 (drop_bit 28 (unat n)) < 16" using take_bit_nat_less_exp [of 4 "drop_bit 28 (unat n)"] by simp
  then have version: "(0x70 + take_bit 4 (drop_bit 28 (unat n))) div 16 = 7" by simp
  have "take_bit 6 (drop_bit 14 (unat n)) < 64" using take_bit_nat_less_exp [of 6 "drop_bit 14 (unat n)"] by simp
  then have "(0x80 + take_bit 6 (drop_bit 14 (unat n))) div 16 < 12" "8 \<le> (0x80 + take_bit 6 (drop_bit 14 (unat n))) div 16"
    by simp_all
  then consider "(0x80 + take_bit 6 (drop_bit 14 (unat n))) div 16 = 8" | "(0x80 + take_bit 6 (drop_bit 14 (unat n))) div 16 = 9"
    | "(0x80 + take_bit 6 (drop_bit 14 (unat n))) div 16 = 10" | "(0x80 + take_bit 6 (drop_bit 14 (unat n))) div 16 = 11" by linarith
  then have "hex_digit ((0x80 + take_bit 6 (drop_bit 14 (unat n))) div 16) \<in> set ''89ab''"
    by cases (simp_all add: hex_digit_def)
  with version show ?thesis
    by (simp add: uuid_form_def uuid_text_def uuid_bytes_def hex_byte_def Let_def tagged_bytes hex_digit_def [of 7])
qed

lemma stamp_less_trans: "stamp_less p q \<Longrightarrow> stamp_less q r \<Longrightarrow> stamp_less p r"
  by (auto simp: stamp_less_def)

lemma stamp_less_time: "stamp_less p q \<Longrightarrow> fst p \<le> fst q"
  by (auto simp: stamp_less_def)

lemma uuids_after:
  assumes "uuids calls s = (ids, s')" and "lastTimestamp s = Some t" and "0 \<le> t"
    and "\<And>t'. lastTimestamp s' = Some t' \<Longrightarrow> t' < 2 ^ 48"
  shows "t < 2 ^ 48 \<and> sorted_wrt (\<lambda>i j. (i, j) \<in> text_order) ids \<and>
    (\<forall>i \<in> set ids. \<exists>q. stamped q i \<and> stamp_less (t, uuid_sequence s) q \<and> fst q < 2 ^ 48)"
  using assms
proof (induction calls arbitrary: s ids t)
  case (Cons call calls)
  obtain random now where call: "call = (random, now)" by fastforce
  obtain t1 n1 where 1: "next_stamp random now s = (t1, n1)" by fastforce
  let ?s = "\<lparr>lastTimestamp = Some t1, uuid_sequence = n1\<rparr>" and ?i = "uuid_text (uuid_bytes random t1 n1)"
  obtain later where rest: "uuids calls ?s = (later, s')" and ids: "ids = ?i # later"
    using Cons.prems(1) call 1 by (auto simp: uuidv7_def split: prod.splits)
  from next_stamp_less [OF Cons.prems(2) 1] have less: "stamp_less (t, uuid_sequence s) (t1, n1)" .
  with Cons.prems(3) stamp_less_time [OF less] have "0 \<le> t1" by simp
  with Cons.IH [OF rest, of t1] Cons.prems(4) have IH: "t1 < 2 ^ 48" "sorted_wrt (\<lambda>i j. (i, j) \<in> text_order) later"
    "\<forall>i \<in> set later. \<exists>q. stamped q i \<and> stamp_less (t1, n1) q \<and> fst q < 2 ^ 48" by auto
  have own: "stamped (t1, n1) ?i" by (auto simp: stamped_def)
  have "(?i, j) \<in> text_order" if "j \<in> set later" for j
    using IH(3) that stamped_order [OF own] \<open>0 \<le> t1\<close> by fastforce
  with IH own less stamp_less_time [OF less] show ?case
    unfolding ids by (fastforce dest: stamp_less_trans [OF less])
qed simp

text \<open>
  C31. Ids are unique and sort by the time of their making: whatever the random bytes and even when the clock
  stands still or goes back, every id of a series of calls is greater, as text, than all before it, as long as the time
  fits 48 bits; every id has the form of a version 7 UUID.
\<close>

theorem uuids_increase:
  assumes "uuids calls fresh_uuid_state = (ids, s')" and "\<forall>(random, now) \<in> set calls. 0 \<le> now"
    and "\<And>t. lastTimestamp s' = Some t \<Longrightarrow> t < 2 ^ 48"
  shows "sorted_wrt (\<lambda>i j. (i, j) \<in> text_order) ids \<and> distinct ids \<and> length ids = length calls \<and>
    list_all uuid_form ids"
proof -
  have form: "uuids calls s = (ids, s') \<Longrightarrow> list_all uuid_form ids" for s
    by (induction calls arbitrary: s ids) (auto simp: uuidv7_def uuid_form_text split: prod.splits)
  have len: "uuids calls s = (ids, s') \<Longrightarrow> length ids = length calls" for s
    by (induction calls arbitrary: s ids) (auto split: prod.splits)
  have "sorted_wrt (\<lambda>i j. (i, j) \<in> text_order) ids"
  proof (cases calls)
    case Nil
    with assms(1) show ?thesis by simp
  next
    case (Cons call rest)
    obtain random now where call: "call = (random, now)" by fastforce
    let ?n = "random_sequence random"
    let ?s = "\<lparr>lastTimestamp = Some now, uuid_sequence = ?n\<rparr>" and ?i = "uuid_text (uuid_bytes random now ?n)"
    obtain later where rest: "uuids rest ?s = (later, s')" and ids: "ids = ?i # later"
      using assms(1) Cons call by (auto simp: uuidv7_def next_stamp_def fresh_uuid_state_def split: prod.splits)
    from assms(2) Cons call have now: "0 \<le> now" by auto
    from uuids_after [OF rest _ now] assms(3) have after: "sorted_wrt (\<lambda>i j. (i, j) \<in> text_order) later"
      "\<forall>i \<in> set later. \<exists>q. stamped q i \<and> stamp_less (now, ?n) q \<and> fst q < 2 ^ 48" by auto
    have "stamped (now, ?n) ?i" by (auto simp: stamped_def)
    with after(2) now have "\<forall>j \<in> set later. (?i, j) \<in> text_order" using stamped_order by fastforce
    with after(1) show ?thesis unfolding ids by simp
  qed
  moreover have "(i, i) \<notin> text_order" for i by (simp add: text_order_def lexord_irreflexive)
  then have "sorted_wrt (\<lambda>i j. (i, j) \<in> text_order) js \<Longrightarrow> distinct js" for js by (induction js) auto
  ultimately show ?thesis using len [OF assms(1)] form [OF assms(1)] by simp
qed

theorem uuids_increase_witness:
  "\<exists>ids. fst (uuids [(replicate 16 255, 5), (replicate 16 0, 3), (replicate 16 1, 9)] fresh_uuid_state) = ids \<and>
     distinct ids \<and> length ids = 3 \<and> ids ! 1 = ''00000000-0006-7000-8000-000000000000''"
proof -
  let ?calls = "[(replicate 16 255, 5), (replicate 16 0, 3), (replicate 16 1, 9)] :: (8 word list \<times> int) list"
  obtain ids s' where r: "uuids ?calls fresh_uuid_state = (ids, s')" by fastforce
  have "lastTimestamp (snd (uuids ?calls fresh_uuid_state)) = Some 9" by code_simp
  with r uuids_increase [OF r] have "distinct ids" "length ids = 3" by auto
  moreover have "fst (uuids ?calls fresh_uuid_state) ! 1 = ''00000000-0006-7000-8000-000000000000''" by code_simp
  ultimately show ?thesis using r by simp
qed

end
