(* ===== verification/Stdin_Buffer.thy ===== *)
theory Stdin_Buffer
  imports Text_Edits
begin

text \<open>
  The splitter of terminal input, \<open>packages/tui/src/stdin-buffer.ts\<close>: chunks of input are cut into key and escape
  sequences, bracketed pastes are collected, and what is incomplete waits for more input or a timeout. Strings
  are lists of UTF-16 code units; the decoding of a \<open>Buffer\<close> is a parameter; the timer is a field of the
  state, the milliseconds it was set to, and \<open>expire\<close> is its callback.
\<close>

section \<open>Complete sequences\<close>

definition ESC :: "16 word" where
  "ESC = 0x1B"

abbreviation ESCs :: js_string where
  "ESCs \<equiv> [ESC]"

definition BRACKETED_PASTE_START :: js_string where
  "BRACKETED_PASTE_START = ESC # js ''[200~''"

definition BRACKETED_PASTE_END :: js_string where
  "BRACKETED_PASTE_END = ESC # js ''[201~''"

datatype sequence_status = Complete | Incomplete | Not_escape

definition status_of :: "bool \<Rightarrow> sequence_status" where
  "status_of b = (if b then Complete else Incomplete)"

text \<open>\<open>text.split(c)\<close> for one code unit.\<close>

fun split_on :: "16 word \<Rightarrow> js_string \<Rightarrow> js_string list" where
  "split_on c [] = [[]]"
| "split_on c (u # us) =
     (if u = c then [] # split_on c us
      else case split_on c us of [] \<Rightarrow> [[u]] | l # ls \<Rightarrow> (u # l) # ls)"

definition is_digit :: "16 word \<Rightarrow> bool" where
  "is_digit u \<longleftrightarrow> 0x30 \<le> u \<and> u \<le> 0x39"

definition all_digits :: "js_string \<Rightarrow> bool" where
  "all_digits s \<longleftrightarrow> s \<noteq> [] \<and> list_all is_digit s"

text \<open>The two tests of an SGR mouse report: both ask for three numbers before \<open>M\<close> or \<open>m\<close>.\<close>

definition mouseMatch :: "js_string \<Rightarrow> bool" where
  "mouseMatch payload \<longleftrightarrow>
     (last payload = 0x4D \<or> last payload = 0x6D) \<and>
     (let parts = split_on 0x3B (butlast (drop 1 payload)) in length parts = 3 \<and> list_all all_digits parts)"

definition isCompleteCsiSequence :: "js_string \<Rightarrow> sequence_status" where
  "isCompleteCsiSequence data =
     (if \<not> prefix (ESC # js ''['') data then Complete
      else if length data < 3 then Incomplete
      else let payload = drop 2 data
           in status_of (0x40 \<le> last payload \<and> last payload \<le> 0x7E \<and>
                (prefix (js ''<'') payload \<longrightarrow> mouseMatch payload)))"

definition isCompleteOscSequence :: "js_string \<Rightarrow> sequence_status" where
  "isCompleteOscSequence data =
     (if \<not> prefix (ESC # js '']'') data then Complete
      else status_of (suffix [ESC, 0x5C] data \<or> suffix [0x07] data))"

definition isCompleteDcsSequence :: "js_string \<Rightarrow> sequence_status" where
  "isCompleteDcsSequence data =
     (if \<not> prefix (ESC # js ''P'') data then Complete else status_of (suffix [ESC, 0x5C] data))"

definition isCompleteApcSequence :: "js_string \<Rightarrow> sequence_status" where
  "isCompleteApcSequence data =
     (if \<not> prefix (ESC # js ''_'') data then Complete else status_of (suffix [ESC, 0x5C] data))"

definition isCompleteSequence :: "js_string \<Rightarrow> sequence_status" where
  "isCompleteSequence data =
     (if \<not> prefix ESCs data then Not_escape
      else if length data = 1 then Incomplete
      else let afterEsc = drop 1 data
           in if prefix (js ''['') afterEsc
              then (if prefix (js ''[M'') afterEsc then status_of (6 \<le> length data) else isCompleteCsiSequence data)
              else if prefix (js '']'') afterEsc then isCompleteOscSequence data
              else if prefix (js ''P'') afterEsc then isCompleteDcsSequence data
              else if prefix (js ''_'') afterEsc then isCompleteApcSequence data
              else if prefix (js ''O'') afterEsc then status_of (2 \<le> length afterEsc)
              else Complete)"

section \<open>Splitting a buffer\<close>

text \<open>The first length from \<open>seqEnd\<close> on at which a prefix is not incomplete.\<close>

function sequence_end :: "js_string \<Rightarrow> nat \<Rightarrow> nat option" where
  "sequence_end remaining seqEnd =
     (if length remaining < seqEnd then None
      else if isCompleteSequence (take seqEnd remaining) = Incomplete then sequence_end remaining (seqEnd + 1)
      else Some seqEnd)"
  by pat_completeness auto
termination
  by (relation "measure (\<lambda>(r, k). Suc (length r) - k)") auto

declare sequence_end.simps [simp del]

text \<open>The characters behind a double escape that start a sequence of their own.\<close>

definition starts_sequence :: "16 word \<Rightarrow> bool" where
  "starts_sequence u \<longleftrightarrow> u \<in> set (js ''[]OP_'')"

lemma sequence_end_bounds: "sequence_end s k = Some n \<Longrightarrow> k \<le> n \<and> n \<le> length s"
proof (induction s k rule: sequence_end.induct)
  case (1 s k)
  from 1(2) show ?case
    by (subst (asm) sequence_end.simps) (auto split: if_splits dest: 1(1))
qed

function extractCompleteSequences :: "js_string \<Rightarrow> js_string list \<times> js_string" where
  "extractCompleteSequences [] = ([], [])"
| "extractCompleteSequences (u # us) =
     (if u = ESC
      then case sequence_end (u # us) 1 of
          None \<Rightarrow> ([], u # us)
        | Some n \<Rightarrow>
            if take n (u # us) = [ESC, ESC] \<and> n < length (u # us) \<and> starts_sequence ((u # us) ! n)
            then (case extractCompleteSequences us of (seqs, rest) \<Rightarrow> (ESCs # seqs, rest))
            else (case extractCompleteSequences (drop n (u # us)) of (seqs, rest) \<Rightarrow> (take n (u # us) # seqs, rest))
      else (case extractCompleteSequences us of (seqs, rest) \<Rightarrow> ([u] # seqs, rest)))"
  by pat_completeness auto
termination
  by (relation "measure length") (auto dest: sequence_end_bounds)

declare extractCompleteSequences.simps(2) [simp del]

section \<open>The buffer\<close>

definition digits_value :: "js_string \<Rightarrow> nat" where
  "digits_value ds = foldl (\<lambda>n d. 10 * n + (unat d - 0x30)) 0 ds"

text \<open>The pattern of a Kitty key report without modifiers: a code point, its alternatives behind colons, and \<open>u\<close>.\<close>

definition parseUnmodifiedKittyPrintableCodepoint :: "js_string \<Rightarrow> nat option" where
  "parseUnmodifiedKittyPrintableCodepoint s =
     (if prefix (ESC # js ''['') s \<and> suffix (js ''u'') s \<and> 3 \<le> length s
      then let parts = split_on 0x3A (butlast (drop 2 s))
           in if all_digits (parts ! 0) \<and>
                 (length parts = 1 \<or> length parts = 2 \<and> list_all is_digit (parts ! 1) \<or>
                  length parts = 3 \<and> list_all is_digit (parts ! 1) \<and> all_digits (parts ! 2))
              then (if 32 \<le> digits_value (parts ! 0) then Some (digits_value (parts ! 0)) else None)
              else None
      else None)"

datatype stdin_event = Data js_string | Paste js_string

record stdin_buffer =
  sb_buffer :: js_string
  sb_timeout :: "nat option"
  sb_pasteMode :: bool
  sb_pasteBuffer :: js_string
  sb_pending :: "nat option"              \<comment> \<open>\<open>pendingKittyPrintableCodepoint\<close>\<close>
  sb_timeoutMs :: nat
  sb_escapeTimeoutMs :: nat

definition new_stdin_buffer :: "nat option \<Rightarrow> nat option \<Rightarrow> stdin_buffer" where
  "new_stdin_buffer sequenceTimeout escapeTimeout =
     \<lparr>sb_buffer = [], sb_timeout = None, sb_pasteMode = False, sb_pasteBuffer = [], sb_pending = None,
      sb_timeoutMs = (case sequenceTimeout of None \<Rightarrow> 50 | Some n \<Rightarrow> n),
      sb_escapeTimeoutMs = (case escapeTimeout of None \<Rightarrow> 10 | Some n \<Rightarrow> n)\<rparr>"

definition emitDataSequence :: "js_string \<Rightarrow> stdin_buffer \<Rightarrow> stdin_event list \<times> stdin_buffer" where
  "emitDataSequence s b =
     (if length s = 1 \<and> sb_pending b = Some (unat (hd s)) then ([], b\<lparr>sb_pending := None\<rparr>)
      else ([Data s], b\<lparr>sb_pending := parseUnmodifiedKittyPrintableCodepoint s\<rparr>))"

fun emit_all :: "js_string list \<Rightarrow> stdin_buffer \<Rightarrow> stdin_event list \<times> stdin_buffer" where
  "emit_all [] b = ([], b)"
| "emit_all (s # ss) b =
     (case emitDataSequence s b of (es, b) \<Rightarrow> case emit_all ss b of (es', b) \<Rightarrow> (es @ es', b))"

datatype stdin_input = IN_string js_string | IN_bytes bytes

definition input_text :: "(bytes \<Rightarrow> js_string) \<Rightarrow> stdin_input \<Rightarrow> js_string" where
  "input_text decode i =
     (case i of
        IN_string s \<Rightarrow> s
      | IN_bytes bs \<Rightarrow>
          if length bs = 1 \<and> 127 < unat (bs ! 0) then [ESC, of_nat (unat (bs ! 0) - 128)] else decode bs)"

text \<open>The end of a paste that has come in: the pasted text and what follows it.\<close>

definition paste_end :: "js_string \<Rightarrow> (js_string \<times> js_string) option" where
  "paste_end pasted =
     (case index_of BRACKETED_PASTE_END pasted of
        None \<Rightarrow> None
      | Some endIndex \<Rightarrow> Some (take endIndex pasted, drop (endIndex + length BRACKETED_PASTE_END) pasted))"

lemma paste_end_shorter: "paste_end p = Some (content, remaining) \<Longrightarrow> length remaining < length p"
  by (auto simp: paste_end_def BRACKETED_PASTE_END_def dest: index_of_bound split: option.splits)

definition paste_done :: "stdin_buffer \<Rightarrow> stdin_buffer" where
  "paste_done b = b\<lparr>sb_pasteMode := False, sb_pasteBuffer := [], sb_pending := None\<rparr>"

definition set_timer :: "stdin_buffer \<Rightarrow> stdin_buffer" where
  "set_timer b =
     (if sb_buffer b \<noteq> []
      then b\<lparr>sb_timeout := Some (if sb_buffer b = ESCs then sb_escapeTimeoutMs b else sb_timeoutMs b)\<rparr> else b)"

text \<open>\<open>process\<close> of a text; it calls itself with what follows a paste, which is shorter by the marker at least.\<close>

function process :: "js_string \<Rightarrow> stdin_buffer \<Rightarrow> stdin_event list \<times> stdin_buffer" where
  "process str b =
     (let b = b\<lparr>sb_timeout := None\<rparr>
      in if str = [] \<and> sb_buffer b = [] then emitDataSequence [] b
         else let buffer = sb_buffer b @ str
         in if sb_pasteMode b
            then let b = b\<lparr>sb_pasteBuffer := sb_pasteBuffer b @ buffer, sb_buffer := []\<rparr>
                 in (case paste_end (sb_pasteBuffer b) of
                       None \<Rightarrow> ([], b)
                     | Some (content, remaining) \<Rightarrow>
                         if remaining \<noteq> [] then (case process remaining (paste_done b) of (es, b) \<Rightarrow> (Paste content # es, b))
                         else ([Paste content], paste_done b))
            else case index_of BRACKETED_PASTE_START buffer of
                Some startIndex \<Rightarrow>
                  (case emit_all (fst (extractCompleteSequences (take startIndex buffer))) b of (es, b) \<Rightarrow>
                   let b = b\<lparr>sb_pending := None, sb_buffer := [], sb_pasteMode := True,
                             sb_pasteBuffer := drop (startIndex + length BRACKETED_PASTE_START) buffer\<rparr>
                   in (case paste_end (drop (startIndex + length BRACKETED_PASTE_START) buffer) of
                         None \<Rightarrow> (es, b)
                       | Some (content, remaining) \<Rightarrow>
                           if remaining \<noteq> []
                           then (case process remaining (paste_done b) of (es', b) \<Rightarrow> (es @ Paste content # es', b))
                           else (es @ [Paste content], paste_done b)))
              | None \<Rightarrow>
                  (case extractCompleteSequences buffer of (seqs, rest) \<Rightarrow>
                   case emit_all seqs (b\<lparr>sb_buffer := rest\<rparr>) of (es, b) \<Rightarrow> (es, set_timer b)))"
  by pat_completeness auto

termination
  by (relation "measure (\<lambda>(str, b). length str + length (sb_buffer b) + length (sb_pasteBuffer b))")
    (auto simp: paste_done_def dest!: paste_end_shorter)

declare process.simps [simp del]

definition process_input :: "(bytes \<Rightarrow> js_string) \<Rightarrow> stdin_input \<Rightarrow> stdin_buffer \<Rightarrow> stdin_event list \<times> stdin_buffer" where
  "process_input decode i b = process (input_text decode i) b"

definition flush :: "stdin_buffer \<Rightarrow> js_string list \<times> stdin_buffer" where
  "flush b =
     (let b = b\<lparr>sb_timeout := None\<rparr>
      in if sb_buffer b = [] then ([], b) else ([sb_buffer b], b\<lparr>sb_buffer := [], sb_pending := None\<rparr>))"

text \<open>The callback of the timer.\<close>

definition expire :: "stdin_buffer \<Rightarrow> stdin_event list \<times> stdin_buffer" where
  "expire b = (case flush b of (seqs, b) \<Rightarrow> emit_all seqs b)"

definition clear_stdin :: "stdin_buffer \<Rightarrow> stdin_buffer" where
  "clear_stdin b = b\<lparr>sb_timeout := None, sb_buffer := [], sb_pasteMode := False, sb_pasteBuffer := [], sb_pending := None\<rparr>"

end
