(* ===== verification/Stdin_Properties.thy ===== *)
theory Stdin_Properties
  imports Stdin_Buffer
begin

text \<open>
  Properties of the input splitter: nothing is lost or invented when a buffer is cut into sequences, what comes out
  does not depend on how the input is cut into chunks, and a bracketed paste is delivered whole.
\<close>

section \<open>Searching\<close>

lemma prefix_within: "length pat \<le> length s \<Longrightarrow> prefix pat (s @ t) \<longleftrightarrow> prefix pat s"
  by (auto simp: prefix_append dest: prefix_length_le)

lemma index_of_append: "index_of pat s = Some i \<Longrightarrow> index_of pat (s @ t) = Some i"
proof (induction s arbitrary: i)
  case Nil
  then show ?case by (cases t) (auto split: if_splits)
next
  case (Cons u s)
  have "prefix pat ((u # s) @ t) \<longleftrightarrow> prefix pat (u # s)"
    using index_of_bound [OF Cons.prems] by (intro prefix_within) simp
  with Cons show ?case by (auto split: if_splits)
qed

lemma index_of_drop: "index_of pat (s @ t) = Some i \<Longrightarrow> length s \<le> i \<Longrightarrow> index_of pat t = Some (i - length s)"
  by (induction s arbitrary: i) (auto split: if_splits)

lemma index_of_sublist: "index_of pat s = None \<longleftrightarrow> \<not> sublist pat s"
  by (induction s) (auto simp: sublist_Cons_right)

lemma index_of_prefix: "index_of pat (s @ t) = Some i \<Longrightarrow> i + length pat \<le> length s \<Longrightarrow> index_of pat s = Some i"
proof (induction s arbitrary: i)
  case Nil
  then show ?case by (cases t) (auto split: if_splits)
next
  case (Cons u s)
  have "prefix pat ((u # s) @ t) \<longleftrightarrow> prefix pat (u # s)"
    using Cons.prems by (intro prefix_within) simp
  with Cons show ?case by (auto split: if_splits)
qed

lemma index_of_split:
  "index_of pat s = Some i \<Longrightarrow> s = take i s @ pat @ drop (i + length pat) s"
proof (induction s arbitrary: i)
  case Nil
  then show ?case by (auto split: if_splits)
next
  case (Cons u s)
  show ?case
  proof (cases "prefix pat (u # s)")
    case True
    with Cons.prems show ?thesis by (auto simp: prefix_def)
  next
    case False
    with Cons.prems obtain k where "index_of pat s = Some k" "i = Suc k" by auto
    with Cons.IH [of k] show ?thesis by simp
  qed
qed

section \<open>Sequences\<close>

lemma sequence_end_append: "sequence_end s k = Some n \<Longrightarrow> sequence_end (s @ t) k = Some n"
proof (induction s k rule: sequence_end.induct)
  case (1 s k)
  show ?case
  proof (cases "length s < k")
    case False
    with 1 show ?thesis
      by (subst sequence_end.simps, subst (asm) (2) sequence_end.simps) (auto split: if_splits)
  qed (use 1 in \<open>simp add: sequence_end.simps\<close>)
qed

lemma sequence_end_none: "sequence_end s k = None \<Longrightarrow> k \<le> length s \<Longrightarrow> isCompleteSequence s = Incomplete"
proof (induction s k rule: sequence_end.induct)
  case (1 s k)
  show ?case
  proof (cases "k = length s")
    case True
    with 1 show ?thesis by (subst (asm) (2) sequence_end.simps) (auto split: if_splits)
  next
    case False
    with 1 show ?thesis by (subst (asm) (2) sequence_end.simps) (auto split: if_splits)
  qed
qed

lemmas extract_simps = extractCompleteSequences.simps

lemma extract_lossless: "concat (fst (extractCompleteSequences s)) @ snd (extractCompleteSequences s) = s"
proof (induction s rule: extractCompleteSequences.induct)
  case (2 u us)
  then show ?case
    by (auto simp: extract_simps(2) split: option.splits prod.splits)
      (metis append_assoc append_take_drop_id)
qed simp

lemma extract_remainder:
  "snd (extractCompleteSequences s) \<noteq> [] \<Longrightarrow>
   isCompleteSequence (snd (extractCompleteSequences s)) = Incomplete"
proof (induction s rule: extractCompleteSequences.induct)
  case (2 u us)
  then show ?case
    by (auto simp: extract_simps(2) split: option.splits prod.splits if_splits dest: sequence_end_none)
qed simp

lemma extract_append:
  assumes "extractCompleteSequences s = (seqs, rest)" and "\<not> suffix [ESC, ESC] s"
    and "extractCompleteSequences (rest @ t) = (seqs', rest')"
  shows "extractCompleteSequences (s @ t) = (seqs @ seqs', rest')"
  using assms
proof (induction s arbitrary: seqs rule: extractCompleteSequences.induct)
  case (2 u us)
  show ?case
  proof (cases "u = ESC")
    case False
    from 2(5) have "\<not> suffix [ESC, ESC] us" by (auto simp: suffix_Cons)
    with 2 False show ?thesis
      by (auto simp: extract_simps(2) split: prod.splits)
  next
    case True
    show ?thesis
    proof (cases "sequence_end (u # us) 1")
      case None
      with 2(4,6) True show ?thesis by (auto simp: extract_simps(2))
    next
      case (Some n)
      from sequence_end_append [OF this, of t] have long: "sequence_end (u # us @ t) 1 = Some n" by simp
      from sequence_end_bounds [OF Some] have n: "1 \<le> n" "n \<le> length (u # us)" by auto
      let ?look = "\<lambda>s. take n s = [ESC, ESC] \<and> n < length s \<and> starts_sequence (s ! n)"
      have look: "?look (u # us @ t) \<longleftrightarrow> ?look (u # us)"
      proof (cases "n = length (u # us)")
        case True
        with 2(5) show ?thesis by (auto simp: suffix_def)
      next
        case False
        with n show ?thesis by (auto simp: nth_append nth_Cons' take_Cons')
      qed
      show ?thesis
      proof (cases "?look (u # us)")
        case double: True
        from 2(5) have "\<not> suffix [ESC, ESC] us" by (auto simp: suffix_Cons)
        with 2(1) [OF True Some double] 2(4,6) True Some long look double show ?thesis
          by (auto simp: extract_simps(2) split: prod.splits)
      next
        case single: False
        have "\<not> suffix [ESC, ESC] (drop n (u # us))"
          using 2(5) by (metis suffix_drop suffix_order.trans)
        note IH = 2(2) [OF True Some single _ this 2(6)]
        obtain more where more: "extractCompleteSequences (drop n (u # us)) = (more, rest)" "seqs = take n (u # us) # more"
          using 2(4) True Some single by (auto simp: extract_simps(2) simp del: take_Cons' drop_Cons' split: prod.splits if_splits)
        have cut: "take n (u # us @ t) = take n (u # us)" "drop n (u # us @ t) = drop n (u # us) @ t"
          using n(2) take_append [of n "u # us" t] drop_append [of n "u # us" t] by auto
        have "\<not> ?look (u # us @ t)" using look single by blast
        with True long have "extractCompleteSequences (u # us @ t) =
          (case extractCompleteSequences (drop n (u # us @ t)) of (seqs, rest) \<Rightarrow> (take n (u # us @ t) # seqs, rest))"
          by (subst extract_simps(2)) (simp only: option.simps simp_thms if_True if_False)
        with cut IH [OF more(1)] more(2) show ?thesis by simp
      qed
    qed
  qed
qed auto

section \<open>Chunks\<close>

fun process_all :: "js_string list \<Rightarrow> stdin_buffer \<Rightarrow> stdin_event list \<times> stdin_buffer" where
  "process_all [] b = ([], b)"
| "process_all (c # cs) b =
     (case process c b of (es, b) \<Rightarrow> case process_all cs b of (es', b) \<Rightarrow> (es @ es', b))"

text \<open>
  Input whose cutting is unambiguous: keys without a double escape, complete before each paste, and what follows
  each paste likewise.
\<close>

function clean :: "js_string \<Rightarrow> bool" where
  "clean s =
     (case index_of BRACKETED_PASTE_START s of
        None \<Rightarrow> \<not> sublist [ESC, ESC] s
      | Some i \<Rightarrow>
          snd (extractCompleteSequences (take i s)) = [] \<and>
          \<not> sublist [ESC, ESC] (take i s @ BRACKETED_PASTE_START) \<and>
          (case paste_end (drop (i + length BRACKETED_PASTE_START) s) of
             None \<Rightarrow> True
           | Some (content, rest) \<Rightarrow> clean rest))"
  by pat_completeness auto
termination
  by (relation "measure length") (auto dest!: paste_end_shorter)

declare clean.simps [simp del]

definition clean_input :: "stdin_buffer \<Rightarrow> js_string \<Rightarrow> bool" where
  "clean_input b s =
     (if sb_pasteMode b
      then (case paste_end (sb_pasteBuffer b @ sb_buffer b @ s) of None \<Rightarrow> True | Some (content, rest) \<Rightarrow> clean rest)
      else clean (sb_buffer b @ s))"

lemma paste_end_append: "paste_end s = Some (content, rest) \<Longrightarrow> paste_end (s @ t) = Some (content, rest @ t)"
  by (auto simp: paste_end_def index_of_append dest: index_of_bound split: option.splits)

lemma paste_end_prefix: "paste_end (s @ t) = None \<Longrightarrow> paste_end s = None"
  using paste_end_append [of s _ _ t] by (cases "paste_end s") auto

lemma start_length: "length BRACKETED_PASTE_START = 6" "BRACKETED_PASTE_START \<noteq> []"
  by (simp_all add: BRACKETED_PASTE_START_def js_def)

lemma sublist_longer: "sublist p s \<Longrightarrow> sublist p (s @ t)"
  by (metis sublist_append_rightI sublist_order.order_trans)

lemma clean_prefix: "clean (s @ t) \<Longrightarrow> clean s"
proof (induction "length s" arbitrary: s rule: less_induct)
  case less
  show ?case
  proof (cases "index_of BRACKETED_PASTE_START s")
    case None
    have "\<not> sublist [ESC, ESC] s"
    proof (cases "index_of BRACKETED_PASTE_START (s @ t)")
      case None
      with less.prems show ?thesis by (auto simp: clean.simps dest: sublist_longer)
    next
      case (Some i)
      have "length s < i + length BRACKETED_PASTE_START"
        using index_of_prefix [OF Some] None by force
      moreover have "length (take i (s @ t)) = i" using index_of_bound [OF Some] by simp
      ultimately have "length s \<le> length (take i (s @ t) @ BRACKETED_PASTE_START)" by simp
      moreover have "prefix (take i (s @ t) @ BRACKETED_PASTE_START) (s @ t)"
        using index_of_split [OF Some] by (metis append_assoc prefixI)
      ultimately have "prefix s (take i (s @ t) @ BRACKETED_PASTE_START)"
        using prefix_length_prefix [OF prefixI [OF refl]] by blast
      moreover from less.prems Some have "\<not> sublist [ESC, ESC] (take i (s @ t) @ BRACKETED_PASTE_START)"
        by (simp add: clean.simps [of "s @ t"])
      ultimately show ?thesis by (metis prefix_imp_sublist sublist_order.order_trans)
    qed
    with None show ?thesis by (simp add: clean.simps)
  next
    case (Some i)
    from index_of_bound [OF this] have i: "i + length BRACKETED_PASTE_START \<le> length s" .
    note long = index_of_append [OF Some, of t]
    show ?thesis
    proof (cases "paste_end (drop (i + length BRACKETED_PASTE_START) s)")
      case None
      with less.prems long Some i show ?thesis by (simp add: clean.simps [of "s @ t"] clean.simps [of s])
    next
      case over: (Some p)
      obtain content rest where p: "p = (content, rest)" by fastforce
      from paste_end_append [OF over [unfolded p]] i
      have "paste_end (drop (i + length BRACKETED_PASTE_START) (s @ t)) = Some (content, rest @ t)" by simp
      with less.prems long have "clean (rest @ t)" by (simp add: clean.simps [of "s @ t"])
      moreover have "length rest < length s" using paste_end_shorter [OF over [unfolded p]] by simp
      ultimately have "clean rest" using less.hyps by simp
      with less.prems long Some i over p show ?thesis
        by (simp add: clean.simps [of "s @ t"] clean.simps [of s])
    qed
  qed
qed

lemma clean_input_prefix: "clean_input b (s @ t) \<Longrightarrow> clean_input b s"
proof -
  assume clean: "clean_input b (s @ t)"
  have "sb_pasteMode b \<Longrightarrow> paste_end (sb_pasteBuffer b @ sb_buffer b @ s) = Some (c, r) \<Longrightarrow> clean r" for c r
    using paste_end_append [of "sb_pasteBuffer b @ sb_buffer b @ s" c r t] clean
    by (auto simp: clean_input_def intro: clean_prefix)
  with clean show ?thesis
    by (auto simp: clean_input_def split: option.splits intro: clean_prefix [of "sb_buffer b @ s" t])
qed

section \<open>One chunk after the other\<close>

fun emit_keys :: "js_string list \<Rightarrow> nat option \<Rightarrow> stdin_event list \<times> nat option" where
  "emit_keys [] p = ([], p)"
| "emit_keys (s # ss) p =
     (if length s = 1 \<and> p = Some (unat (hd s)) then emit_keys ss None
      else case emit_keys ss (parseUnmodifiedKittyPrintableCodepoint s) of (es, p) \<Rightarrow> (Data s # es, p))"

lemma emit_all_keys:
  "emit_all ss b = (fst (emit_keys ss (sb_pending b)), b\<lparr>sb_pending := snd (emit_keys ss (sb_pending b))\<rparr>)"
  by (induction ss arbitrary: b) (auto simp: emitDataSequence_def split: prod.splits)

lemma emit_keys_append:
  "emit_keys (xs @ ys) p =
     (fst (emit_keys xs p) @ fst (emit_keys ys (snd (emit_keys xs p))), snd (emit_keys ys (snd (emit_keys xs p))))"
  by (induction xs arbitrary: p) (auto split: prod.splits)

definition idle :: "stdin_buffer \<Rightarrow> stdin_buffer" where
  "idle b = b\<lparr>sb_timeout := None, sb_buffer := [], sb_pasteMode := False, sb_pasteBuffer := [], sb_pending := None\<rparr>"

text \<open>What happens to a paste that has come in so far.\<close>

definition collect :: "js_string \<Rightarrow> stdin_buffer \<Rightarrow> stdin_event list \<times> stdin_buffer" where
  "collect pasted b =
     (case paste_end pasted of
        None \<Rightarrow> ([], b\<lparr>sb_timeout := None, sb_buffer := [], sb_pasteMode := True, sb_pasteBuffer := pasted\<rparr>)
      | Some (content, rest) \<Rightarrow>
          if rest \<noteq> [] then (Paste content # fst (process rest (idle b)), snd (process rest (idle b)))
          else ([Paste content], idle b))"

lemma collect_update [simp]:
  "collect q (b\<lparr>sb_timeout := x\<rparr>) = collect q b" "collect q (b\<lparr>sb_buffer := y\<rparr>) = collect q b"
  "collect q (b\<lparr>sb_pasteMode := m\<rparr>) = collect q b" "collect q (b\<lparr>sb_pasteBuffer := z\<rparr>) = collect q b"
  by (auto simp: collect_def idle_def split: option.splits)

lemma collect_waiting [simp]:
  "collect q (b\<lparr>sb_timeout := x, sb_buffer := s, sb_pending := p\<rparr>) = collect q (b\<lparr>sb_pending := p\<rparr>)"
  by (auto simp: collect_def idle_def split: option.splits)

lemma process_paste:
  assumes "sb_pasteMode b" and "s \<noteq> []"
  shows "process s b = collect (sb_pasteBuffer b @ sb_buffer b @ s) b"
  using assms
  by (subst process.simps) (auto simp: collect_def idle_def paste_done_def Let_def split: option.splits prod.splits)

lemma process_start:
  assumes "\<not> sb_pasteMode b" and "s \<noteq> []" and "index_of BRACKETED_PASTE_START (sb_buffer b @ s) = Some i"
  shows "process s b =
    (let ks = emit_keys (fst (extractCompleteSequences (take i (sb_buffer b @ s)))) (sb_pending b);
         r = collect (drop (i + length BRACKETED_PASTE_START) (sb_buffer b @ s)) (b\<lparr>sb_pending := None\<rparr>)
     in (fst ks @ fst r, snd r))"
  using assms
  by (subst process.simps)
    (auto simp: collect_def idle_def paste_done_def Let_def emit_all_keys split: option.splits prod.splits)

lemma process_keys:
  assumes "\<not> sb_pasteMode b" and "s \<noteq> []" and "index_of BRACKETED_PASTE_START (sb_buffer b @ s) = None"
  shows "process s b =
    (let ks = emit_keys (fst (extractCompleteSequences (sb_buffer b @ s))) (sb_pending b)
     in (fst ks, set_timer (b\<lparr>sb_timeout := None, sb_buffer := snd (extractCompleteSequences (sb_buffer b @ s)),
                             sb_pending := snd ks\<rparr>)))"
  using assms
  by (subst process.simps) (auto simp: Let_def emit_all_keys split: prod.splits)

text \<open>Two chunks after each other.\<close>

definition process2 :: "js_string \<Rightarrow> js_string \<Rightarrow> stdin_buffer \<Rightarrow> stdin_event list \<times> stdin_buffer" where
  "process2 s t b = (fst (process s b) @ fst (process t (snd (process s b))), snd (process t (snd (process s b))))"

lemma collect_then:
  assumes "t \<noteq> []"
    and IH: "\<And>content rest. paste_end q = Some (content, rest) \<Longrightarrow> rest \<noteq> [] \<Longrightarrow>
      process (rest @ t) (idle b) = process2 rest t (idle b)"
  shows "collect (q @ t) b =
    (fst (collect q b) @ fst (process t (snd (collect q b))), snd (process t (snd (collect q b))))"
proof (cases "paste_end q")
  case None
  then have "process t (snd (collect q b)) = collect (q @ t) b"
    using assms(1) by (simp add: collect_def [of q] process_paste)
  with None show ?thesis by (simp add: collect_def [of q])
next
  case (Some p)
  obtain content rest where p: "p = (content, rest)" by fastforce
  from paste_end_append [OF Some [unfolded p]]
  have long: "paste_end (q @ t) = Some (content, rest @ t)" .
  show ?thesis
    using assms(1) IH [OF Some [unfolded p]] Some p long by (auto simp: collect_def process2_def)
qed

lemma no_double_escape: "\<not> sublist [ESC, ESC] (s @ t) \<Longrightarrow> \<not> suffix [ESC, ESC] s"
  by (meson sublist_longer suffix_imp_sublist)

lemma set_timer_is: "\<exists>x. set_timer b = b\<lparr>sb_timeout := x\<rparr>"
proof -
  have "b = b\<lparr>sb_timeout := sb_timeout b\<rparr>" by (cases b) simp
  then show ?thesis unfolding set_timer_def by metis
qed

lemma set_timer_simps [simp]:
  "sb_pasteMode (set_timer b) = sb_pasteMode b" "sb_pending (set_timer b) = sb_pending b"
  "sb_buffer (set_timer b) = sb_buffer b"
  "set_timer b\<lparr>sb_timeout := x, sb_buffer := s, sb_pending := p\<rparr> = b\<lparr>sb_timeout := x, sb_buffer := s, sb_pending := p\<rparr>"
  using set_timer_is [of b] by (cases b; auto)+

lemma collect_set_timer [simp]: "collect q (set_timer b\<lparr>sb_pending := p\<rparr>) = collect q (b\<lparr>sb_pending := p\<rparr>)"
proof -
  obtain x where "set_timer b = b\<lparr>sb_timeout := x\<rparr>" using set_timer_is by blast
  then have "set_timer b\<lparr>sb_pending := p\<rparr> = b\<lparr>sb_pending := p\<rparr>\<lparr>sb_timeout := x\<rparr>" by (cases b) simp
  then show ?thesis by (simp only: collect_update)
qed

lemma cut_inside:
  assumes "s @ t = k @ p @ d" and "length k \<le> length s" and "length s \<le> length k + length p"
  shows "s = k @ take (length s - length k) p"
proof -
  have "take (length s) (s @ t) = take (length s) (k @ p @ d)" using assms(1) by simp
  with assms(2,3) show ?thesis by simp
qed

text \<open>Keys alone.\<close>

lemma keys_then_keys:
  assumes "\<not> sb_pasteMode b" "s \<noteq> []" "t \<noteq> []"
    and none: "index_of BRACKETED_PASTE_START (sb_buffer b @ s @ t) = None"
    and plain: "\<not> sublist [ESC, ESC] (sb_buffer b @ s @ t)"
  shows "process (s @ t) b = process2 s t b"
proof -
  let ?B = "sb_buffer b @ s"
  obtain seqs rest where ext: "extractCompleteSequences ?B = (seqs, rest)" by fastforce
  obtain seqs' rest' where ext': "extractCompleteSequences (rest @ t) = (seqs', rest')" by fastforce
  have B: "?B = concat seqs @ rest" using extract_lossless [of ?B] ext by simp
  have "\<not> suffix [ESC, ESC] ?B" using plain no_double_escape [of ?B t] by simp
  from extract_append [OF ext this ext'] have whole: "extractCompleteSequences (?B @ t) = (seqs @ seqs', rest')" .
  have first: "index_of BRACKETED_PASTE_START ?B = None"
    using none sublist_longer [of _ ?B t] by (auto simp: index_of_sublist)
  have second: "index_of BRACKETED_PASTE_START (rest @ t) = None"
  proof -
    have "sublist (rest @ t) (?B @ t)" unfolding B by (simp add: sublist_append_leftI)
    with none show ?thesis by (metis append_assoc index_of_sublist sublist_order.order_trans)
  qed
  show ?thesis
    using assms first second ext ext' whole none
    by (simp add: process2_def process_keys Let_def emit_keys_append)
qed

lemma start_prefixes:
  "n \<in> {0..<6} \<Longrightarrow> extractCompleteSequences (take n BRACKETED_PASTE_START) = ([], take n BRACKETED_PASTE_START)"
proof -
  have "\<forall>n \<in> set [0..<6]. extractCompleteSequences (take n BRACKETED_PASTE_START) = ([], take n BRACKETED_PASTE_START)"
    by code_simp
  then show "n \<in> {0..<6} \<Longrightarrow> ?thesis" by simp
qed

text \<open>Keys with a paste behind them, cut before its marker is complete.\<close>

lemma keys_then_paste:
  assumes "\<not> sb_pasteMode b" "s \<noteq> []" "t \<noteq> []"
    and start: "index_of BRACKETED_PASTE_START (sb_buffer b @ s @ t) = Some i"
    and cut: "length (sb_buffer b @ s) < i + length BRACKETED_PASTE_START"
    and complete: "snd (extractCompleteSequences (take i (sb_buffer b @ s @ t))) = []"
    and plain: "\<not> sublist [ESC, ESC] (take i (sb_buffer b @ s @ t) @ BRACKETED_PASTE_START)"
  shows "process (s @ t) b = process2 s t b"
proof -
  let ?B = "sb_buffer b @ s" and ?k = "take i (sb_buffer b @ s @ t)"
  obtain keys where keys: "extractCompleteSequences ?k = (keys, [])" using complete by (metis prod.collapse)
  have first: "index_of BRACKETED_PASTE_START ?B = None"
    using index_of_append [of _ ?B _ t] start cut index_of_bound [of BRACKETED_PASTE_START ?B]
    by (cases "index_of BRACKETED_PASTE_START ?B") force+
  obtain seqs rest seqs' where ext: "extractCompleteSequences ?B = (seqs, rest)"
    and ext': "extractCompleteSequences (take (i - length (concat seqs)) (rest @ t)) = (seqs', [])"
    and all_keys: "keys = seqs @ seqs'" and before: "length (concat seqs) \<le> i"
  proof (cases "length ?B \<le> i")
    case True
    obtain seqs rest where ext: "extractCompleteSequences ?B = (seqs, rest)" by fastforce
    have B: "?B = concat seqs @ rest" using extract_lossless [of ?B] ext by simp
    define l where "l = take (i - length ?B) t"
    have k: "?k = ?B @ l" using True by (simp add: l_def)
    have "\<not> suffix [ESC, ESC] ?B" using plain no_double_escape [of ?B "l @ BRACKETED_PASTE_START"] unfolding k by simp
    moreover obtain seqs' rest' where ext': "extractCompleteSequences (rest @ l) = (seqs', rest')" by fastforce
    ultimately have "extractCompleteSequences ?k = (seqs @ seqs', rest')" using extract_append [OF ext] k by simp
    with keys have "rest' = []" "keys = seqs @ seqs'" by auto
    moreover have "take (i - length (concat seqs)) (rest @ t) = rest @ l"
      using True arg_cong [OF B, of length] by (simp add: l_def)
    moreover have "length (concat seqs) \<le> i" using True arg_cong [OF B, of length] by simp
    ultimately show ?thesis using that ext ext' by simp
  next
    case False
    let ?r = "take (length ?B - i) BRACKETED_PASTE_START"
    have split: "?B @ t = ?k @ BRACKETED_PASTE_START @ drop (i + length BRACKETED_PASTE_START) (?B @ t)"
      by (simp only: append_assoc) (rule index_of_split [OF start])
    have k: "length ?k = i" using index_of_bound [OF start] by simp
    have "?B = ?k @ take (length ?B - length ?k) BRACKETED_PASTE_START"
      by (rule cut_inside [OF split]) (use False cut k in linarith)+
    then have B: "?B = ?k @ ?r" by (simp only: k)
    have "length ?B - i \<in> {0..<6}" using cut start_length by auto
    then have rem: "extractCompleteSequences ?r = ([], ?r)" by (rule start_prefixes)
    have key_end: "\<not> suffix [ESC, ESC] ?k" using plain no_double_escape [of ?k] by blast
    have "extractCompleteSequences (?k @ ?r) = (keys, ?r)"
      using extract_append [OF keys key_end, of ?r "[]" ?r] rem by simp
    then have ext: "extractCompleteSequences ?B = (keys, ?r)" by (simp only: B [symmetric])
    have "length (concat keys) = i" using extract_lossless [of ?k] keys \<open>length ?k = i\<close> by simp
    with ext show ?thesis using that [of keys ?r "[]"] by simp
  qed
  have B: "?B = concat seqs @ rest" using extract_lossless [of ?B] ext by simp
  have whole: "sb_buffer b @ s @ t = concat seqs @ rest @ t" using B by (metis append_assoc)
  have second: "index_of BRACKETED_PASTE_START (rest @ t) = Some (i - length (concat seqs))"
    by (rule index_of_drop [OF _ before]) (use start whole in simp)
  have "drop (i + length BRACKETED_PASTE_START) (sb_buffer b @ s @ t) =
      drop (i - length (concat seqs) + length BRACKETED_PASTE_START) (rest @ t)"
    using before unfolding whole by simp
  then show ?thesis
    using assms(1-4) first second keys ext ext' all_keys
    by (simp add: process2_def process_keys [of b s] process_start Let_def emit_keys_append)
qed

text \<open>Input in two chunks does what it does in one.\<close>

lemma process_append:
  "clean_input b (s @ t) \<Longrightarrow> s \<noteq> [] \<Longrightarrow> t \<noteq> [] \<Longrightarrow> process (s @ t) b = process2 s t b"
proof (induction "length (sb_pasteBuffer b) + length (sb_buffer b) + length s" arbitrary: b s rule: less_induct)
  case less
  have idle_clean: "clean_input (idle b) r \<longleftrightarrow> clean r" for r by (simp add: clean_input_def idle_def)
  show ?case
  proof (cases "sb_pasteMode b")
    case True
    let ?q = "sb_pasteBuffer b @ sb_buffer b @ s"
    have "process (rest @ t) (idle b) = process2 rest t (idle b)"
      if paste_end: "paste_end ?q = Some (content, rest)" and "rest \<noteq> []" for content rest
    proof (rule less.hyps)
      have "clean (rest @ t)"
        using less.prems(1) True paste_end_append [OF that(1), of t] by (simp add: clean_input_def)
      then show "clean_input (idle b) (rest @ t)" by (simp add: idle_clean)
      show "length (sb_pasteBuffer (idle b)) + length (sb_buffer (idle b)) + length rest <
          length (sb_pasteBuffer b) + length (sb_buffer b) + length s"
        using paste_end_shorter [OF that(1)] by (simp add: idle_def)
    qed (use that less.prems in auto)
    note followed = this
    have "collect (?q @ t) b =
      (fst (collect ?q b) @ fst (process t (snd (collect ?q b))), snd (process t (snd (collect ?q b))))"
      by (rule collect_then [OF less.prems(3)]) (use followed in blast)
    with True less.prems show ?thesis by (simp add: process2_def process_paste)
  next
    case False
    with less.prems(1) have clean: "clean (sb_buffer b @ s @ t)" by (simp add: clean_input_def)
    show ?thesis
    proof (cases "index_of BRACKETED_PASTE_START (sb_buffer b @ s @ t)")
      case None
      with clean have "\<not> sublist [ESC, ESC] (sb_buffer b @ s @ t)" by (subst (asm) clean.simps) simp
      from keys_then_keys [OF False less.prems(2,3) None this] show ?thesis .
    next
      case (Some i)
      let ?k = "take i (sb_buffer b @ s @ t)" and ?m = "i + length BRACKETED_PASTE_START"
      have keys: "snd (extractCompleteSequences ?k) = []" "\<not> sublist [ESC, ESC] (?k @ BRACKETED_PASTE_START)"
        and after: "\<And>c r. paste_end (drop ?m (sb_buffer b @ s @ t)) = Some (c, r) \<Longrightarrow> clean r"
        using clean Some by (subst (asm) clean.simps, simp)+
      show ?thesis
      proof (cases "length (sb_buffer b @ s) < ?m")
        case True
        from keys_then_paste [OF False less.prems(2,3) Some True keys] show ?thesis .
      next
        case whole: False
        let ?q = "drop ?m (sb_buffer b @ s)"
        have first: "index_of BRACKETED_PASTE_START (sb_buffer b @ s) = Some i"
          using index_of_prefix [of _ "sb_buffer b @ s" t] Some whole by simp
        have q: "drop ?m (sb_buffer b @ s @ t) = ?q @ t" using whole by simp
        have k: "?k = take i (sb_buffer b @ s)" using whole by simp
        have shorter: "length ?q < length (sb_buffer b) + length s" using start_length whole by simp
        let ?b = "b\<lparr>sb_pending := None\<rparr>"
        have same: "idle ?b = idle b" by (cases b) (simp add: idle_def)
        have "process (rest @ t) (idle ?b) = process2 rest t (idle ?b)"
          if paste_end: "paste_end ?q = Some (content, rest)" and "rest \<noteq> []" for content rest
          unfolding same
        proof (rule less.hyps)
          show "clean_input (idle b) (rest @ t)"
            using after [unfolded q] paste_end_append [OF that(1), of t] by (simp add: idle_clean)
          show "length (sb_pasteBuffer (idle b)) + length (sb_buffer (idle b)) + length rest <
              length (sb_pasteBuffer b) + length (sb_buffer b) + length s"
            using paste_end_shorter [OF that(1)] shorter by (simp add: idle_def)
        qed (use that less.prems in auto)
        note followed = this
        have "collect (?q @ t) ?b =
          (fst (collect ?q ?b) @ fst (process t (snd (collect ?q ?b))), snd (process t (snd (collect ?q ?b))))"
          by (rule collect_then [OF less.prems(3)]) (use followed in blast)
        then show ?thesis
          using False less.prems first Some q k
          by (simp add: process2_def process_start Let_def del: drop_append take_append)
      qed
    qed
  qed
qed

lemma chunking_equal:
  assumes "clean_input b (concat chunks)" and "chunks \<noteq> []" and "\<forall>c \<in> set chunks. c \<noteq> []"
  shows "process_all chunks b = process (concat chunks) b"
proof -
  have split: "process_all (cs @ [c]) b =
      (fst (process_all cs b) @ fst (process c (snd (process_all cs b))), snd (process c (snd (process_all cs b))))" for cs c b
    by (induction cs arbitrary: b) (auto split: prod.splits)
  from assms show ?thesis
  proof (induction chunks rule: rev_induct)
    case (snoc c cs)
    show ?case
    proof (cases "cs = []")
      case True
      then show ?thesis by (simp split: prod.splits)
    next
      case False
      with snoc have "concat cs \<noteq> []" "c \<noteq> []" by (auto simp: neq_Nil_conv)
      with snoc False clean_input_prefix [of b "concat cs" c] have "process_all cs b = process (concat cs) b" by simp
      with split [of cs c b] process_append [of b "concat cs" c] snoc.prems \<open>concat cs \<noteq> []\<close> \<open>c \<noteq> []\<close>
      show ?thesis by (simp add: process2_def)
    qed
  qed simp
qed

text \<open>
  C29. However input is cut into chunks, the splitter emits the same events and ends in the same state, when no
  two escapes stand side by side among the keys and the keys before each paste are complete.
\<close>

theorem chunking_does_not_matter:
  assumes "clean_input b (concat chunks)" and "chunks \<noteq> []" and "\<forall>c \<in> set chunks. c \<noteq> []"
  shows "process_all chunks b = process (concat chunks) b"
  using assms by (rule chunking_equal)

abbreviation seen_input :: "js_string list" where
  "seen_input \<equiv> [js ''a'' @ ESCs, js ''[20'', js ''0~h'', js ''i'' @ ESCs @ js ''[201'', js ''~'']"

theorem chunking_does_not_matter_witness:
  "process_all seen_input (new_stdin_buffer None None) = process (concat seen_input) (new_stdin_buffer None None)"
proof (rule chunking_does_not_matter)
  show "clean_input (new_stdin_buffer None None) (concat seen_input)" by code_simp
qed (auto simp: js_def)



section \<open>Where chunks do matter\<close>

text \<open>An unfinished sequence before a paste is dropped without an event.\<close>

lemma unfinished_before_paste_dropped:
  "fst (process (ESCs @ js ''O'' @ BRACKETED_PASTE_START @ js ''p'' @ BRACKETED_PASTE_END) (new_stdin_buffer None None)) =
     [Paste (js ''p'')]"
  by code_simp

text \<open>A double escape at the end of a chunk is one key, in front of a bracket in the same chunk it is two.\<close>

lemma double_escape_depends_on_chunks:
  "fst (process (ESCs @ ESCs @ js ''[A'') (new_stdin_buffer None None)) = [Data ESCs, Data (ESCs @ js ''[A'')]"
  "fst (process_all [ESCs @ ESCs, js ''[A''] (new_stdin_buffer None None)) =
     [Data (ESCs @ ESCs), Data (js ''[''), Data (js ''A'')]"
  by code_simp+

end
