(* ===== verification/Client_State.thy ===== *)
theory Client_State
  imports Codec Truncation
begin

text \<open>
  What a client knows of the server: the messages of \<open>packages/protocol/src/schemas.ts\<close> as far as the client looks into
  them, and \<open>ClientState\<close> of \<open>packages/client/src/state.ts\<close>. The parts a client only passes on are values of the
  protocol. Listeners are names; calling one is an entry of the list of notifications a method returns. They do not call
  back into the client, and what they throw changes nothing but the report to \<open>onListenerError\<close>.
\<close>

section \<open>Messages\<close>

type_synonym session_id = js_string
type_synonym listener = nat

record server_snapshot =
  sv_revision :: int
  sv_other :: js_value                  \<comment> \<open>server id, protocol version, sessions and models\<close>

record session_snapshot =
  ss_id :: session_id
  ss_attached :: bool
  ss_revision :: int
  ss_other :: js_value                  \<comment> \<open>name, directory, times, phase, model, transcript and queue\<close>

datatype command_name =
    C_list | C_create | C_attach | C_detach | C_prompt | C_steer | C_abort | C_set_model | C_set_thinking

datatype command_result =
    R_list js_value
  | R_detach session_id
  | R_session command_name session_snapshot

definition result_command :: "command_result \<Rightarrow> command_name" where
  "result_command r = (case r of R_list _ \<Rightarrow> C_list | R_detach _ \<Rightarrow> C_detach | R_session c _ \<Rightarrow> c)"

datatype server_event =
    E_server_snapshot server_snapshot
  | E_session_snapshot session_snapshot
  | E_session_progress session_id js_value
  | E_session_removed session_id

section \<open>Listeners\<close>

text \<open>\<open>Set.add\<close> on a set that is walked in the order of insertion, and the removal of a member.\<close>

definition set_add :: "'a \<Rightarrow> 'a list \<Rightarrow> 'a list" where
  "set_add x xs = (if x \<in> set xs then xs else xs @ [x])"

text \<open>
  The sets of listeners by session: \<open>sets\<close> holds every set object ever made, \<open>ids\<close> maps a session to the
  index of its set. Adding a listener returns the index, which the returned function \<open>Unsubscribe\<close> keeps.
\<close>

record registry =
  rg_ids :: "session_id \<rightharpoonup> nat"
  rg_sets :: "listener list list"

definition empty_registry :: registry where
  "empty_registry = \<lparr>rg_ids = Map.empty, rg_sets = []\<rparr>"

definition forget_ids :: "registry \<Rightarrow> registry" where
  "forget_ids rg = rg\<lparr>rg_ids := Map.empty\<rparr>"

definition addMappedListener :: "session_id \<Rightarrow> listener \<Rightarrow> registry \<Rightarrow> nat \<times> registry" where
  "addMappedListener i l rg =
     (case rg_ids rg i of
        Some k \<Rightarrow> (k, rg\<lparr>rg_sets := (rg_sets rg)[k := set_add l (rg_sets rg ! k)]\<rparr>)
      | None \<Rightarrow> (length (rg_sets rg), \<lparr>rg_ids = (rg_ids rg)(i \<mapsto> length (rg_sets rg)), rg_sets = rg_sets rg @ [[l]]\<rparr>))"

definition unsubscribeMapped :: "session_id \<Rightarrow> listener \<Rightarrow> nat \<Rightarrow> registry \<Rightarrow> registry" where
  "unsubscribeMapped i l k rg =
     (let ls = remove1 l (rg_sets rg ! k); rg = rg\<lparr>rg_sets := (rg_sets rg)[k := ls]\<rparr>
      in if ls = [] then rg\<lparr>rg_ids := (rg_ids rg)(i := None)\<rparr> else rg)"

definition listeners_of :: "registry \<Rightarrow> session_id \<Rightarrow> listener list" where
  "listeners_of rg i = (case rg_ids rg i of None \<Rightarrow> [] | Some k \<Rightarrow> rg_sets rg ! k)"

section \<open>State\<close>

datatype notification =
    N_snapshot listener server_snapshot
  | N_event listener server_event
  | N_session_snapshot listener session_snapshot
  | N_session_event listener server_event

record client_state =
  cs_snapshot :: "server_snapshot option"
  cs_sessionSnapshots :: "session_id \<rightharpoonup> session_snapshot"
  cs_attachedSessionIds :: "session_id set"
  cs_snapshotListeners :: "listener list"
  cs_eventListeners :: "listener list"
  cs_sessionSnapshotListeners :: registry
  cs_sessionEventListeners :: registry

definition new_client_state :: client_state where
  "new_client_state =
     \<lparr>cs_snapshot = None, cs_sessionSnapshots = Map.empty, cs_attachedSessionIds = {}, cs_snapshotListeners = [],
      cs_eventListeners = [], cs_sessionSnapshotListeners = empty_registry, cs_sessionEventListeners = empty_registry\<rparr>"

definition reset_state :: "client_state \<Rightarrow> client_state" where
  "reset_state s = s\<lparr>cs_snapshot := None, cs_sessionSnapshots := Map.empty, cs_attachedSessionIds := {}\<rparr>"

definition clearAttachments :: "client_state \<Rightarrow> client_state" where
  "clearAttachments s = s\<lparr>cs_attachedSessionIds := {}\<rparr>"

definition dispose_state :: "client_state \<Rightarrow> client_state" where
  "dispose_state s = (reset_state s)\<lparr>cs_snapshotListeners := [], cs_eventListeners := [],
     cs_sessionSnapshotListeners := forget_ids (cs_sessionSnapshotListeners s),
     cs_sessionEventListeners := forget_ids (cs_sessionEventListeners s)\<rparr>"

definition isSessionAttached :: "session_id \<Rightarrow> client_state \<Rightarrow> bool" where
  "isSessionAttached i s \<longleftrightarrow> i \<in> cs_attachedSessionIds s"

definition forgetSessionSnapshot :: "session_id \<Rightarrow> client_state \<Rightarrow> session_snapshot option \<times> client_state" where
  "forgetSessionSnapshot i s =
     (cs_sessionSnapshots s i, s\<lparr>cs_sessionSnapshots := (cs_sessionSnapshots s)(i := None)\<rparr>)"

definition restoreSessionSnapshot :: "session_snapshot \<Rightarrow> client_state \<Rightarrow> client_state" where
  "restoreSessionSnapshot snapshot s =
     (if cs_sessionSnapshots s (ss_id snapshot) \<noteq> None then s
      else s\<lparr>cs_sessionSnapshots := (cs_sessionSnapshots s)(ss_id snapshot \<mapsto> snapshot)\<rparr>)"

definition subscribe_snapshot :: "listener \<Rightarrow> client_state \<Rightarrow> client_state" where
  "subscribe_snapshot l s = s\<lparr>cs_snapshotListeners := set_add l (cs_snapshotListeners s)\<rparr>"

definition onEvent :: "listener \<Rightarrow> client_state \<Rightarrow> client_state" where
  "onEvent l s = s\<lparr>cs_eventListeners := set_add l (cs_eventListeners s)\<rparr>"

definition subscribeSession :: "session_id \<Rightarrow> listener \<Rightarrow> client_state \<Rightarrow> nat \<times> client_state" where
  "subscribeSession i l s =
     map_prod id (\<lambda>rg. s\<lparr>cs_sessionSnapshotListeners := rg\<rparr>) (addMappedListener i l (cs_sessionSnapshotListeners s))"

definition onSessionEvent :: "session_id \<Rightarrow> listener \<Rightarrow> client_state \<Rightarrow> nat \<times> client_state" where
  "onSessionEvent i l s =
     map_prod id (\<lambda>rg. s\<lparr>cs_sessionEventListeners := rg\<rparr>) (addMappedListener i l (cs_sessionEventListeners s))"

section \<open>Snapshots and events\<close>

definition applyServerSnapshot :: "server_snapshot \<Rightarrow> client_state \<Rightarrow> notification list \<times> client_state" where
  "applyServerSnapshot snapshot s =
     (if (case cs_snapshot s of None \<Rightarrow> False | Some current \<Rightarrow> sv_revision snapshot < sv_revision current) then ([], s)
      else (map (\<lambda>l. N_snapshot l snapshot) (cs_snapshotListeners s), s\<lparr>cs_snapshot := Some snapshot\<rparr>))"

definition applySessionSnapshot :: "session_snapshot \<Rightarrow> bool \<Rightarrow> client_state \<Rightarrow> notification list \<times> client_state" where
  "applySessionSnapshot snapshot force s =
     (let i = ss_id snapshot in
      if \<not> force \<and> (case cs_sessionSnapshots s i of None \<Rightarrow> False | Some current \<Rightarrow> ss_revision snapshot < ss_revision current)
      then ([], s)
      else (map (\<lambda>l. N_session_snapshot l snapshot) (listeners_of (cs_sessionSnapshotListeners s) i),
            s\<lparr>cs_sessionSnapshots := (cs_sessionSnapshots s)(i \<mapsto> snapshot),
              cs_attachedSessionIds := (if ss_attached snapshot then insert i (cs_attachedSessionIds s)
                                        else cs_attachedSessionIds s - {i})\<rparr>))"

definition applyResult :: "command_result \<Rightarrow> client_state \<Rightarrow> notification list \<times> client_state" where
  "applyResult r s =
     (case r of
        R_list _ \<Rightarrow> ([], s)
      | R_detach i \<Rightarrow>
          let s = s\<lparr>cs_attachedSessionIds := cs_attachedSessionIds s - {i}\<rparr>
          in (case cs_sessionSnapshots s i of
                None \<Rightarrow> ([], s)
              | Some snapshot \<Rightarrow> applySessionSnapshot (snapshot\<lparr>ss_attached := False\<rparr>) True s)
      | R_session _ snapshot \<Rightarrow> applySessionSnapshot snapshot False s)"

definition getEventSessionId :: "server_event \<Rightarrow> session_id option" where
  "getEventSessionId e =
     (case e of
        E_session_snapshot snapshot \<Rightarrow> Some (ss_id snapshot)
      | E_session_progress i _ \<Rightarrow> Some i
      | E_session_removed i \<Rightarrow> Some i
      | E_server_snapshot _ \<Rightarrow> None)"

definition event_change :: "server_event \<Rightarrow> client_state \<Rightarrow> notification list \<times> client_state" where
  "event_change e s =
     (case e of
        E_server_snapshot snapshot \<Rightarrow> applyServerSnapshot snapshot s
      | E_session_snapshot snapshot \<Rightarrow> applySessionSnapshot snapshot False s
      | E_session_progress _ _ \<Rightarrow> ([], s)
      | E_session_removed i \<Rightarrow>
          ([], s\<lparr>cs_sessionSnapshots := (cs_sessionSnapshots s)(i := None),
                 cs_attachedSessionIds := cs_attachedSessionIds s - {i}\<rparr>))"

definition applyEvent :: "server_event \<Rightarrow> client_state \<Rightarrow> notification list \<times> client_state" where
  "applyEvent e s =
     (case event_change e s of (ns, s) \<Rightarrow>
        (ns @ map (\<lambda>l. N_event l e) (cs_eventListeners s) @
           (case getEventSessionId e of
              None \<Rightarrow> []
            | Some i \<Rightarrow> map (\<lambda>l. N_session_event l e) (listeners_of (cs_sessionEventListeners s) i)), s))"

end
