(* ===== verification/Client.thy ===== *)
theory Client
  imports Client_State
begin

text \<open>
  The client of \<open>packages/client/src\<close>: \<open>Connection\<close> (\<open>connection.ts\<close>) and the requests, the connection changes and
  the disposal of \<open>PiClient\<close> (\<open>client.ts\<close>) as handlers of one state. A transport is a number, its calls
  and the settling of promises are entries of a log. The schema checks are parameters, and so is \<open>read\<close>, the
  properties of a checked server message; what a call of the transport does is an argument of the handler that
  makes it.
\<close>

section \<open>Commands and errors\<close>

datatype command =
    Cmd_list
  | Cmd_create "js_value option" "js_value option" "js_value option" "js_value option"
  | Cmd_attach session_id
  | Cmd_detach session_id
  | Cmd_prompt session_id js_string
  | Cmd_steer session_id js_string
  | Cmd_abort session_id
  | Cmd_set_model session_id js_value
  | Cmd_set_thinking session_id js_value

definition command_name :: "command \<Rightarrow> command_name" where
  "command_name c =
     (case c of
        Cmd_list \<Rightarrow> C_list | Cmd_create _ _ _ _ \<Rightarrow> C_create | Cmd_attach _ \<Rightarrow> C_attach | Cmd_detach _ \<Rightarrow> C_detach
      | Cmd_prompt _ _ \<Rightarrow> C_prompt | Cmd_steer _ _ \<Rightarrow> C_steer | Cmd_abort _ \<Rightarrow> C_abort
      | Cmd_set_model _ _ \<Rightarrow> C_set_model | Cmd_set_thinking _ _ \<Rightarrow> C_set_thinking)"

definition name_text :: "command_name \<Rightarrow> string" where
  "name_text n =
     (case n of
        C_list \<Rightarrow> ''list'' | C_create \<Rightarrow> ''create'' | C_attach \<Rightarrow> ''attach'' | C_detach \<Rightarrow> ''detach''
      | C_prompt \<Rightarrow> ''prompt'' | C_steer \<Rightarrow> ''steer'' | C_abort \<Rightarrow> ''abort''
      | C_set_model \<Rightarrow> ''set_model'' | C_set_thinking \<Rightarrow> ''set_thinking'')"

definition js_object :: "(string \<times> js_value) list \<Rightarrow> js_value" where
  "js_object kvs = V_object False (map (\<lambda>(k, v). (js k, v)) kvs)"

definition js_text :: "string \<Rightarrow> js_value" where
  "js_text s = V_string (js s)"

definition given :: "string \<Rightarrow> js_value option \<Rightarrow> (string \<times> js_value) list" where
  "given k v = (case v of None \<Rightarrow> [] | Some v \<Rightarrow> [(k, v)])"

definition command_value :: "command \<Rightarrow> js_value" where
  "command_value c =
     js_object ((''command'', js_text (name_text (command_name c))) #
       (case c of
          Cmd_list \<Rightarrow> []
        | Cmd_create cwd name model thinkingLevel \<Rightarrow>
            given ''cwd'' cwd @ given ''name'' name @ given ''model'' model @ given ''thinkingLevel'' thinkingLevel
        | Cmd_attach i \<Rightarrow> [(''sessionId'', V_string i)]
        | Cmd_detach i \<Rightarrow> [(''sessionId'', V_string i)]
        | Cmd_prompt i t \<Rightarrow> [(''sessionId'', V_string i), (''text'', V_string t)]
        | Cmd_steer i t \<Rightarrow> [(''sessionId'', V_string i), (''text'', V_string t)]
        | Cmd_abort i \<Rightarrow> [(''sessionId'', V_string i)]
        | Cmd_set_model i m \<Rightarrow> [(''sessionId'', V_string i), (''model'', m)]
        | Cmd_set_thinking i l \<Rightarrow> [(''sessionId'', V_string i), (''thinkingLevel'', l)]))"

definition hello_value :: js_value where
  "hello_value = js_object [(''type'', js_text ''hello''), (''version'', V_number (JInt PROTOCOL_VERSION))]"

definition request_value :: "js_string \<Rightarrow> command \<Rightarrow> js_value" where
  "request_value i c = js_object [(''type'', js_text ''request''), (''id'', V_string i), (''request'', command_value c)]"

text \<open>The error of a response: its message, and its code and details.\<close>

type_synonym server_error = "string \<times> js_value"

datatype client_error =
    PiDisconnectedError string
  | PiServerError server_error
  | PiClientDisposedError
  | CodecError protocol_error
  | OtherError string

definition toDisconnectedError :: "client_error \<Rightarrow> client_error" where
  "toDisconnectedError e =
     (case e of
        PiDisconnectedError m \<Rightarrow> e
      | PiServerError (m, _) \<Rightarrow> PiDisconnectedError m
      | PiClientDisposedError \<Rightarrow> PiDisconnectedError ''Smolt client is disposed''
      | CodecError p \<Rightarrow> PiDisconnectedError (error_message p)
      | OtherError m \<Rightarrow> PiDisconnectedError m)"

definition disconnected_error :: client_error where
  "disconnected_error = PiDisconnectedError ''Smolt client is disconnected''"

datatype server_message =
    SM_hello server_snapshot
  | SM_hello_error server_error
  | SM_response js_string "server_error + command_result"
  | SM_event server_event

section \<open>State\<close>

type_synonym transport = nat

datatype lifecycle =
    Disconnected
  | Connecting nat message_decoder "transport option"
  | Connected nat message_decoder transport

datatype connection_state = CS_disconnected | CS_connecting | CS_connected

definition state_of :: "lifecycle \<Rightarrow> connection_state" where
  "state_of l =
     (case l of Disconnected \<Rightarrow> CS_disconnected | Connecting _ _ _ \<Rightarrow> CS_connecting | Connected _ _ _ \<Rightarrow> CS_connected)"

text \<open>The effects, the oldest first; connections and requests name their promises by number.\<close>

datatype effect =
    Open_transport nat
  | Send transport bytes
  | Close_transport transport
  | Handshake nat "client_error + server_snapshot"
  | Settle nat "client_error + command_result"
  | State_change listener connection_state "client_error option"
  | Changed connection_state
  | Notify notification

record client =
  cl_maxFrameLength :: "js_number option"
  cl_lifecycle :: lifecycle
  cl_sequence :: nat
  cl_state :: client_state
  cl_pending :: "(nat \<times> command) list"
  cl_requestSequence :: nat
  cl_stateListeners :: "listener list"
  cl_disposed :: bool
  cl_log :: "effect list"

definition effects :: "effect list \<Rightarrow> client \<Rightarrow> client" where
  "effects es c = c\<lparr>cl_log := cl_log c @ es\<rparr>"

text \<open>The constructor of \<open>Connection\<close> refuses a limit that is not between 1 and \<open>MAX_UINT32\<close>.\<close>

definition new_client :: "js_number option \<Rightarrow> string + client" where
  "new_client limit =
     (let n = max_frame_length limit in
      if isSafeInteger n \<and> (case n of JInt k \<Rightarrow> 0 < k \<and> k \<le> int MAX_UINT32 | _ \<Rightarrow> False)
      then Inr \<lparr>cl_maxFrameLength = limit, cl_lifecycle = Disconnected, cl_sequence = 0, cl_state = new_client_state,
                cl_pending = [], cl_requestSequence = 0, cl_stateListeners = [], cl_disposed = False, cl_log = []\<rparr>
      else Inl ''PiClient maxFrameLength must be an integer between 1 and 4294967295'')"

definition with_state :: "(client_state \<Rightarrow> notification list \<times> client_state) \<Rightarrow> client \<Rightarrow> client" where
  "with_state f c = (case f (cl_state c) of (ns, s) \<Rightarrow> effects (map Notify ns) (c\<lparr>cl_state := s\<rparr>))"

section \<open>Connection changes\<close>

definition rejectPendingRequests :: "client_error \<Rightarrow> client \<Rightarrow> client" where
  "rejectPendingRequests e c =
     effects (map (\<lambda>(n, _). Settle n (Inl e)) (cl_pending c)) (c\<lparr>cl_pending := []\<rparr>)"

definition notifyConnectionStateListeners :: "connection_state \<Rightarrow> client_error option \<Rightarrow> client \<Rightarrow> client" where
  "notifyConnectionStateListeners st e c =
     effects (Changed st # map (\<lambda>l. State_change l st e) (cl_stateListeners c)) c"

definition handleConnectionStateChange :: "connection_state \<Rightarrow> client_error option \<Rightarrow> client \<Rightarrow> client" where
  "handleConnectionStateChange st e c =
     notifyConnectionStateListeners st e
       (if st = CS_disconnected
        then rejectPendingRequests (case e of Some e \<Rightarrow> e | None \<Rightarrow> disconnected_error)
               (c\<lparr>cl_state := clearAttachments (cl_state c)\<rparr>)
        else c)"

text \<open>\<open>#fail\<close>: the handshake is still open in a connecting client only.\<close>

definition fail :: "client_error \<Rightarrow> client \<Rightarrow> client" where
  "fail e c =
     (case cl_lifecycle c of
        Disconnected \<Rightarrow> c
      | Connecting i _ _ \<Rightarrow>
          handleConnectionStateChange CS_disconnected (Some e)
            (effects [Handshake i (Inl e)] (c\<lparr>cl_lifecycle := Disconnected\<rparr>))
      | Connected _ _ _ \<Rightarrow>
          handleConnectionStateChange CS_disconnected (Some e) (c\<lparr>cl_lifecycle := Disconnected\<rparr>))"

definition lifecycle_transport :: "lifecycle \<Rightarrow> transport option" where
  "lifecycle_transport l = (case l of Disconnected \<Rightarrow> None | Connecting _ _ t \<Rightarrow> t | Connected _ _ t \<Rightarrow> Some t)"

definition failAndClose :: "client_error \<Rightarrow> client \<Rightarrow> client" where
  "failAndClose e c =
     (case lifecycle_transport (cl_lifecycle c) of
        None \<Rightarrow> fail e c
      | Some t \<Rightarrow> effects [Close_transport t] (fail e c))"

definition isCurrent :: "nat \<Rightarrow> client \<Rightarrow> bool" where
  "isCurrent i c \<longleftrightarrow>
     (case cl_lifecycle c of Disconnected \<Rightarrow> False | Connecting k _ _ \<Rightarrow> k = i | Connected k _ _ \<Rightarrow> k = i)"

section \<open>Opening and closing\<close>

text \<open>\<open>connect\<close>; a rejected promise that the call itself creates is no effect.\<close>

definition connect :: "client \<Rightarrow> client" where
  "connect c =
     (if cl_disposed c \<or> cl_lifecycle c \<noteq> Disconnected then c
      else let c = c\<lparr>cl_state := reset_state (cl_state c)\<rparr>; i = cl_sequence c + 1; c = c\<lparr>cl_sequence := i\<rparr>
           in (case createServerMessageDecoder (Some (max_frame_length (cl_maxFrameLength c))) of
                 Inl _ \<Rightarrow> c
               | Inr d \<Rightarrow>
                   effects [Open_transport i]
                     (handleConnectionStateChange CS_connecting None (c\<lparr>cl_lifecycle := Connecting i d None\<rparr>))))"

definition disconnect :: "client_error \<Rightarrow> client \<Rightarrow> client" where
  "disconnect reason c = (if cl_lifecycle c = Disconnected then c else failAndClose reason c)"

text \<open>
  \<open>#openTransport\<close> once the factory's promise has settled; \<open>thrown\<close> is what the transport's \<open>send\<close> throws.
\<close>

definition transport_failed :: "nat \<Rightarrow> client_error \<Rightarrow> client \<Rightarrow> client" where
  "transport_failed i e c = (if isCurrent i c then fail (toDisconnectedError e) c else c)"

definition transport_opened ::
  "(js_value \<Rightarrow> bool) \<Rightarrow> nat \<Rightarrow> transport \<Rightarrow> client_error option \<Rightarrow> client \<Rightarrow> client" where
  "transport_opened check i t thrown c =
     (case cl_lifecycle c of
        Connecting k d _ \<Rightarrow>
          if k \<noteq> i then effects [Close_transport t] c
          else let c = c\<lparr>cl_lifecycle := Connecting k d (Some t)\<rparr>
               in (case encodeClientMessage check hello_value (Some (max_frame_length (cl_maxFrameLength c))) of
                     Inl e \<Rightarrow> failAndClose (toDisconnectedError (CodecError e)) c
                   | Inr frame \<Rightarrow>
                       (case thrown of
                          None \<Rightarrow> effects [Send t frame] c
                        | Some e \<Rightarrow> failAndClose (toDisconnectedError e) c))
      | _ \<Rightarrow> effects [Close_transport t] c)"

text \<open>A promise of \<open>send\<close> that is rejected later: of the hello, and of a request.\<close>

definition hello_rejected :: "nat \<Rightarrow> client_error \<Rightarrow> client \<Rightarrow> client" where
  "hello_rejected i e c = (if isCurrent i c then failAndClose (toDisconnectedError e) c else c)"

definition send_rejected :: "transport \<Rightarrow> client_error \<Rightarrow> client \<Rightarrow> client" where
  "send_rejected t e c =
     (if lifecycle_transport (cl_lifecycle c) = Some t then failAndClose (toDisconnectedError e) c else c)"

definition transport_error :: "nat \<Rightarrow> client_error \<Rightarrow> client \<Rightarrow> client" where
  "transport_error i e c = (if isCurrent i c then failAndClose (toDisconnectedError e) c else c)"

definition lifecycle_decoder :: "lifecycle \<Rightarrow> message_decoder option" where
  "lifecycle_decoder l = (case l of Disconnected \<Rightarrow> None | Connecting _ d _ \<Rightarrow> Some d | Connected _ d _ \<Rightarrow> Some d)"

definition handleClose :: "client \<Rightarrow> client" where
  "handleClose c =
     (case lifecycle_decoder (cl_lifecycle c) of
        None \<Rightarrow> c
      | Some d \<Rightarrow>
          fail (case snd (end_messages d) of Inr _ \<Rightarrow> PiDisconnectedError ''Byte transport closed'' | Inl e \<Rightarrow> CodecError e) c)"

definition transport_closed :: "nat \<Rightarrow> client \<Rightarrow> client" where
  "transport_closed i c = (if isCurrent i c then handleClose c else c)"

section \<open>Requests\<close>

definition request_id :: "nat \<Rightarrow> js_string" where
  "request_id n = js (''request-'' @ show_nat n)"

text \<open>\<open>Connection.send\<close> of a frame.\<close>

definition send :: "bytes \<Rightarrow> client_error option \<Rightarrow> client \<Rightarrow> client" where
  "send frame thrown c =
     (case cl_lifecycle c of
        Connected _ _ t \<Rightarrow>
          (case thrown of
             None \<Rightarrow> effects [Send t frame] c
           | Some e \<Rightarrow> failAndClose (toDisconnectedError e) c)
      | _ \<Rightarrow> c)"

definition takePending :: "js_string \<Rightarrow> (nat \<times> command) list \<Rightarrow> (nat \<times> command) option" where
  "takePending i ps = find (\<lambda>(n, _). request_id n = i) ps"

text \<open>\<open>#request\<close>: the number of the new request, or the error its promise is rejected with at once.\<close>

definition request ::
  "(js_value \<Rightarrow> bool) \<Rightarrow> command \<Rightarrow> client_error option \<Rightarrow> client \<Rightarrow> (client_error + nat) \<times> client" where
  "request check cmd thrown c =
     (if cl_disposed c then (Inl PiClientDisposedError, c)
      else if state_of (cl_lifecycle c) \<noteq> CS_connected then (Inl disconnected_error, c)
      else let n = cl_requestSequence c + 1;
               c = c\<lparr>cl_requestSequence := n, cl_pending := cl_pending c @ [(n, cmd)]\<rparr>
           in (case encodeClientMessage check (request_value (request_id n) cmd)
                      (Some (max_frame_length (cl_maxFrameLength c))) of
                 Inl e \<Rightarrow>
                   (Inr n, effects [Settle n (Inl (CodecError e))]
                             (c\<lparr>cl_pending := filter (\<lambda>(k, _). k \<noteq> n) (cl_pending c)\<rparr>))
               | Inr frame \<Rightarrow> (Inr n, send frame thrown c)))"

definition handleResponse :: "js_string \<Rightarrow> server_error + command_result \<Rightarrow> client \<Rightarrow> client" where
  "handleResponse i r c =
     (case takePending i (cl_pending c) of
        None \<Rightarrow> failAndClose (CodecError (ProtocolValidationError ''Response has no matching request'')) c
      | Some (n, cmd) \<Rightarrow>
          let c = c\<lparr>cl_pending := filter (\<lambda>(k, _). k \<noteq> n) (cl_pending c)\<rparr>
          in (case r of
                Inl e \<Rightarrow> effects [Settle n (Inl (PiServerError e))] c
              | Inr result \<Rightarrow>
                  if result_command result \<noteq> command_name cmd
                  then let e = CodecError (ProtocolValidationError (''Response command '' @ name_text (result_command result) @
                                 '' does not match '' @ name_text (command_name cmd)))
                       in failAndClose e (effects [Settle n (Inl e)] c)
                  else effects [Settle n (Inr result)] (with_state (applyResult result) c)))"

definition handleMessage :: "server_message \<Rightarrow> client \<Rightarrow> client" where
  "handleMessage m c =
     (case cl_lifecycle c of
        Disconnected \<Rightarrow> c
      | Connecting i d t \<Rightarrow>
          (case m of
             SM_hello_error e \<Rightarrow> failAndClose (PiServerError e) c
           | SM_hello snapshot \<Rightarrow>
               (case t of
                  None \<Rightarrow> failAndClose (CodecError (ProtocolValidationError
                    ''Received server hello before the client hello was sent'')) c
                | Some t \<Rightarrow>
                    let c = with_state (applyServerSnapshot snapshot) (c\<lparr>cl_lifecycle := Connected i d t\<rparr>)
                    in effects [Handshake i (Inr snapshot)] (handleConnectionStateChange CS_connected None c))
           | _ \<Rightarrow> failAndClose (CodecError (ProtocolValidationError ''Expected server hello as first message'')) c)
      | Connected _ _ _ \<Rightarrow>
          (case m of
             SM_event e \<Rightarrow> with_state (applyEvent e) c
           | SM_response i r \<Rightarrow> handleResponse i r c
           | _ \<Rightarrow> failAndClose (CodecError (ProtocolValidationError ''Unexpected handshake message'')) c))"

fun handleMessages :: "server_message list \<Rightarrow> client \<Rightarrow> client" where
  "handleMessages [] c = c"
| "handleMessages (m # ms) c =
     (if cl_lifecycle c = Disconnected then c else handleMessages ms (handleMessage m c))"

definition set_decoder :: "message_decoder \<Rightarrow> lifecycle \<Rightarrow> lifecycle" where
  "set_decoder d l =
     (case l of Disconnected \<Rightarrow> Disconnected | Connecting i _ t \<Rightarrow> Connecting i d t | Connected i _ t \<Rightarrow> Connected i d t)"

text \<open>A push of the decoder always ends (\<open>push_messages_ends\<close>).\<close>

definition handleData ::
  "(js_value \<Rightarrow> bool) \<Rightarrow> (js_value \<Rightarrow> server_message) \<Rightarrow> nat \<Rightarrow> bytes \<Rightarrow> client \<Rightarrow> client" where
  "handleData check read i chunk c =
     (if \<not> isCurrent i c then c
      else case cl_lifecycle c of
          Connecting _ _ None \<Rightarrow>
            failAndClose (CodecError (ProtocolValidationError ''Received server data before the client hello was sent'')) c
        | l \<Rightarrow>
            (case lifecycle_decoder l of
               None \<Rightarrow> c
             | Some d \<Rightarrow>
                 (case push_messages check d chunk of
                    None \<Rightarrow> c
                  | Some (d, Inl e) \<Rightarrow> failAndClose (CodecError e) (c\<lparr>cl_lifecycle := set_decoder d l\<rparr>)
                  | Some (d, Inr ms) \<Rightarrow> handleMessages (map read ms) (c\<lparr>cl_lifecycle := set_decoder d l\<rparr>))))"

definition dispose :: "client \<Rightarrow> client" where
  "dispose c =
     (if cl_disposed c then c
      else let c = disconnect PiClientDisposedError (rejectPendingRequests PiClientDisposedError (c\<lparr>cl_disposed := True\<rparr>))
           in c\<lparr>cl_state := dispose_state (cl_state c), cl_stateListeners := []\<rparr>)"

definition onConnectionStateChange :: "listener \<Rightarrow> client \<Rightarrow> client" where
  "onConnectionStateChange l c =
     (if cl_disposed c then c else c\<lparr>cl_stateListeners := set_add l (cl_stateListeners c)\<rparr>)"

definition stop_state_changes :: "listener \<Rightarrow> client \<Rightarrow> client" where
  "stop_state_changes l c = c\<lparr>cl_stateListeners := remove1 l (cl_stateListeners c)\<rparr>"

definition subscribe_client :: "listener \<Rightarrow> client \<Rightarrow> client" where
  "subscribe_client l c = (if cl_disposed c then c else c\<lparr>cl_state := subscribe_snapshot l (cl_state c)\<rparr>)"

definition onEvent_client :: "listener \<Rightarrow> client \<Rightarrow> client" where
  "onEvent_client l c = (if cl_disposed c then c else c\<lparr>cl_state := onEvent l (cl_state c)\<rparr>)"

section \<open>Histories\<close>

text \<open>Everything that can happen to a client, in any order.\<close>

datatype client_op =
    Op_connect
  | Op_disconnect client_error
  | Op_opened nat transport "client_error option"
  | Op_failed nat client_error
  | Op_hello_rejected nat client_error
  | Op_data nat bytes
  | Op_error nat client_error
  | Op_closed nat
  | Op_request command "client_error option"
  | Op_send_rejected transport client_error
  | Op_listen listener
  | Op_unlisten listener
  | Op_subscribe listener
  | Op_events listener
  | Op_dispose

fun client_do :: "(js_value \<Rightarrow> bool) \<Rightarrow> (js_value \<Rightarrow> bool) \<Rightarrow> (js_value \<Rightarrow> server_message) \<Rightarrow> client_op \<Rightarrow> client \<Rightarrow> client" where
  "client_do check_out check_in read Op_connect c = connect c"
| "client_do check_out check_in read (Op_disconnect e) c = disconnect e c"
| "client_do check_out check_in read (Op_opened i t thrown) c = transport_opened check_out i t thrown c"
| "client_do check_out check_in read (Op_failed i e) c = transport_failed i e c"
| "client_do check_out check_in read (Op_hello_rejected i e) c = hello_rejected i e c"
| "client_do check_out check_in read (Op_data i chunk) c = handleData check_in read i chunk c"
| "client_do check_out check_in read (Op_error i e) c = transport_error i e c"
| "client_do check_out check_in read (Op_closed i) c = transport_closed i c"
| "client_do check_out check_in read (Op_request cmd thrown) c = snd (request check_out cmd thrown c)"
| "client_do check_out check_in read (Op_send_rejected t e) c = send_rejected t e c"
| "client_do check_out check_in read (Op_listen l) c = onConnectionStateChange l c"
| "client_do check_out check_in read (Op_unlisten l) c = stop_state_changes l c"
| "client_do check_out check_in read (Op_subscribe l) c = subscribe_client l c"
| "client_do check_out check_in read (Op_events l) c = onEvent_client l c"
| "client_do check_out check_in read Op_dispose c = dispose c"

definition client_run ::
  "(js_value \<Rightarrow> bool) \<Rightarrow> (js_value \<Rightarrow> bool) \<Rightarrow> (js_value \<Rightarrow> server_message) \<Rightarrow> client_op list \<Rightarrow> client \<Rightarrow> client" where
  "client_run check_out check_in read ops c = foldl (\<lambda>c op. client_do check_out check_in read op c) c ops"

end
