(* ===== verification/Client_Properties.thy ===== *)
theory Client_Properties
  imports Client Protocol_Properties
begin

text \<open>
  Properties of the client: its promises are settled exactly once, its connection states follow the protocol, what
  it shows of the server does not go back, and it handles exactly the messages the server encoded.
\<close>

section \<open>What the log says\<close>

definition settled_of :: "effect list \<Rightarrow> nat list" where
  "settled_of es = concat (map (\<lambda>e. case e of Settle n _ \<Rightarrow> [n] | _ \<Rightarrow> []) es)"

definition handshakes_of :: "effect list \<Rightarrow> nat list" where
  "handshakes_of es = concat (map (\<lambda>e. case e of Handshake n _ \<Rightarrow> [n] | _ \<Rightarrow> []) es)"

definition changes_of :: "effect list \<Rightarrow> connection_state list" where
  "changes_of es = concat (map (\<lambda>e. case e of Changed s \<Rightarrow> [s] | _ \<Rightarrow> []) es)"

lemma log_simps [simp]:
  "settled_of [] = []" "handshakes_of [] = []" "changes_of [] = []"
  "settled_of (e # es) = (case e of Settle n _ \<Rightarrow> [n] | _ \<Rightarrow> []) @ settled_of es"
  "handshakes_of (e # es) = (case e of Handshake n _ \<Rightarrow> [n] | _ \<Rightarrow> []) @ handshakes_of es"
  "changes_of (e # es) = (case e of Changed s \<Rightarrow> [s] | _ \<Rightarrow> []) @ changes_of es"
  "settled_of (es @ fs) = settled_of es @ settled_of fs"
  "handshakes_of (es @ fs) = handshakes_of es @ handshakes_of fs"
  "changes_of (es @ fs) = changes_of es @ changes_of fs"
  by (simp_all add: settled_of_def handshakes_of_def changes_of_def)

lemma log_maps [simp]:
  "settled_of (map Notify ns) = []" "handshakes_of (map Notify ns) = []" "changes_of (map Notify ns) = []"
  "settled_of (map (\<lambda>l. State_change l st e) ls) = []" "handshakes_of (map (\<lambda>l. State_change l st e) ls) = []"
  "changes_of (map (\<lambda>l. State_change l st e) ls) = []"
  "settled_of (map (\<lambda>(n, _). Settle n r) ps) = map fst ps" "handshakes_of (map (\<lambda>(n, _). Settle n r) ps) = []"
  "changes_of (map (\<lambda>(n, _). Settle n r) ps) = []"
proof -
  show "settled_of (map Notify ns) = []" "handshakes_of (map Notify ns) = []" "changes_of (map Notify ns) = []"
    by (induction ns) simp_all
  show "settled_of (map (\<lambda>l. State_change l st e) ls) = []" "handshakes_of (map (\<lambda>l. State_change l st e) ls) = []"
    "changes_of (map (\<lambda>l. State_change l st e) ls) = []"
    by (induction ls) simp_all
  show "settled_of (map (\<lambda>(n, _). Settle n r) ps) = map fst ps" "handshakes_of (map (\<lambda>(n, _). Settle n r) ps) = []"
    "changes_of (map (\<lambda>(n, _). Settle n r) ps) = []"
    by (induction ps) auto
qed

text \<open>The states a connection passes through.\<close>

fun follow :: "connection_state \<Rightarrow> connection_state list \<Rightarrow> connection_state option" where
  "follow s [] = Some s"
| "follow CS_disconnected (CS_connecting # ss) = follow CS_connecting ss"
| "follow CS_connecting (CS_connected # ss) = follow CS_connected ss"
| "follow CS_connecting (CS_disconnected # ss) = follow CS_disconnected ss"
| "follow CS_connected (CS_disconnected # ss) = follow CS_disconnected ss"
| "follow _ _ = None"

lemma follow_append: "follow s (xs @ ys) = (case follow s xs of None \<Rightarrow> None | Some t \<Rightarrow> follow t ys)"
  by (induction s xs rule: follow.induct) auto

definition requests_ok :: "client \<Rightarrow> bool" where
  "requests_ok c \<longleftrightarrow>
     distinct (settled_of (cl_log c) @ map fst (cl_pending c)) \<and>
     set (settled_of (cl_log c) @ map fst (cl_pending c)) = {1..cl_requestSequence c} \<and>
     (state_of (cl_lifecycle c) \<noteq> CS_connected \<longrightarrow> cl_pending c = [])"

definition open_handshake :: "lifecycle \<Rightarrow> nat set" where
  "open_handshake l = (case l of Connecting i _ _ \<Rightarrow> {i} | _ \<Rightarrow> {})"

definition current_id :: "lifecycle \<Rightarrow> nat set" where
  "current_id l = (case l of Disconnected \<Rightarrow> {} | Connecting i _ _ \<Rightarrow> {i} | Connected i _ _ \<Rightarrow> {i})"

definition connection_ok :: "client \<Rightarrow> bool" where
  "connection_ok c \<longleftrightarrow>
     distinct (handshakes_of (cl_log c)) \<and>
     set (handshakes_of (cl_log c)) = {1..cl_sequence c} - open_handshake (cl_lifecycle c) \<and>
     current_id (cl_lifecycle c) \<subseteq> {cl_sequence c} \<inter> {1..} \<and>
     follow CS_disconnected (changes_of (cl_log c)) = Some (state_of (cl_lifecycle c)) \<and>
     (\<exists>d. createServerMessageDecoder (Some (max_frame_length (cl_maxFrameLength c))) = Inr d)"

section \<open>Settling\<close>

lemma with_state_simps [simp]:
  "cl_lifecycle (with_state f c) = cl_lifecycle c" "cl_pending (with_state f c) = cl_pending c"
  "cl_sequence (with_state f c) = cl_sequence c" "cl_requestSequence (with_state f c) = cl_requestSequence c"
  "cl_maxFrameLength (with_state f c) = cl_maxFrameLength c"
  "settled_of (cl_log (with_state f c)) = settled_of (cl_log c)"
  "handshakes_of (cl_log (with_state f c)) = handshakes_of (cl_log c)"
  "changes_of (cl_log (with_state f c)) = changes_of (cl_log c)"
  by (simp_all add: with_state_def effects_def split: prod.splits)

lemmas change_defs = handleConnectionStateChange_def notifyConnectionStateListeners_def rejectPendingRequests_def effects_def

lemmas lifecycle_defs = open_handshake_def current_id_def state_of_def

lemma fail_requests: "requests_ok c \<Longrightarrow> requests_ok (fail e c)"
  by (cases "cl_lifecycle c") (auto simp: requests_ok_def fail_def change_defs state_of_def)

lemma connecting_ok:
  assumes "connection_ok c" and "cl_lifecycle c = Connecting i d t"
  shows "i = cl_sequence c" "distinct (handshakes_of (cl_log c))" "i \<notin> set (handshakes_of (cl_log c))"
    "insert i (set (handshakes_of (cl_log c))) = {1..cl_sequence c}"
    "follow CS_disconnected (changes_of (cl_log c)) = Some CS_connecting"
    "\<exists>d. createServerMessageDecoder (Some (max_frame_length (cl_maxFrameLength c))) = Inr d"
    "1 \<le> cl_sequence c"
proof -
  note ok = assms(1) [unfolded connection_ok_def assms(2)]
  show "distinct (handshakes_of (cl_log c))" "\<exists>d. createServerMessageDecoder (Some (max_frame_length (cl_maxFrameLength c))) = Inr d"
    using ok by blast+
  from ok have follow: "follow CS_disconnected (changes_of (cl_log c)) = Some (state_of (Connecting i d t))" by blast
  show "follow CS_disconnected (changes_of (cl_log c)) = Some CS_connecting"
    using follow by (simp only: state_of_def lifecycle.case)
  from ok have "set (handshakes_of (cl_log c)) = {1..cl_sequence c} - open_handshake (Connecting i d t)"
    "current_id (Connecting i d t) \<subseteq> {cl_sequence c} \<inter> {1..}" by blast+
  then have ids: "set (handshakes_of (cl_log c)) = {1..cl_sequence c} - {i}" "{i} \<subseteq> {cl_sequence c} \<inter> {1..}"
    by (simp_all only: open_handshake_def current_id_def lifecycle.case)
  from ids(2) show "i = cl_sequence c" "1 \<le> cl_sequence c" by auto
  show "i \<notin> set (handshakes_of (cl_log c))" "insert i (set (handshakes_of (cl_log c))) = {1..cl_sequence c}"
    unfolding ids(1) using ids(2) by auto
qed

lemma fail_connection: "connection_ok c \<Longrightarrow> connection_ok (fail e c)"
proof (cases "cl_lifecycle c")
  case (Connecting i d t)
  assume ok: "connection_ok c"
  show ?thesis
    using connecting_ok [OF ok Connecting] Connecting
    by (simp add: connection_ok_def fail_def change_defs lifecycle_defs follow_append)
qed (simp_all add: connection_ok_def fail_def change_defs lifecycle_defs follow_append)

lemmas fail_ok = fail_requests fail_connection

lemma effects_requests: "settled_of es = [] \<Longrightarrow> requests_ok (effects es c) \<longleftrightarrow> requests_ok c"
  by (simp add: requests_ok_def effects_def)

lemma effects_connection:
  "handshakes_of es = [] \<Longrightarrow> changes_of es = [] \<Longrightarrow> connection_ok (effects es c) \<longleftrightarrow> connection_ok c"
  by (simp add: connection_ok_def effects_def)

lemmas effects_ok = effects_requests effects_connection

lemma failAndClose_ok:
  "requests_ok c \<Longrightarrow> requests_ok (failAndClose e c)" "connection_ok c \<Longrightarrow> connection_ok (failAndClose e c)"
  by (auto simp: failAndClose_def effects_ok fail_ok split: option.splits)

lemma with_state_ok [simp]:
  "requests_ok (with_state f c) \<longleftrightarrow> requests_ok c" "connection_ok (with_state f c) \<longleftrightarrow> connection_ok c"
  by (simp_all add: requests_ok_def connection_ok_def)

lemma settle_pending_ok:
  assumes "requests_ok c" and "(n, cmd) \<in> set (cl_pending c)"
  shows "requests_ok (effects [Settle n r] (c\<lparr>cl_pending := filter (\<lambda>(k, _). k \<noteq> n) (cl_pending c)\<rparr>))"
proof -
  have ids: "map fst (filter (\<lambda>(k, _). k \<noteq> n) ps) = filter (\<lambda>k. k \<noteq> n) (map fst ps)" for ps :: "(nat \<times> command) list"
    by (induction ps) auto
  have "n \<in> fst ` set (cl_pending c)" using assms(2) by force
  with assms(1) ids show ?thesis by (auto simp: requests_ok_def effects_def)
qed

lemma handleResponse_ok:
  assumes "requests_ok c" shows "requests_ok (handleResponse i r c)"
proof (cases "takePending i (cl_pending c)")
  case None
  with assms show ?thesis by (simp add: handleResponse_def failAndClose_ok)
next
  case (Some p)
  obtain n cmd where p: "p = (n, cmd)" by fastforce
  with Some have "(n, cmd) \<in> set (cl_pending c)" by (auto simp: takePending_def find_Some_iff) (metis nth_mem)
  note settle = settle_pending_ok [OF assms this]
  have swap: "requests_ok (effects [Settle n r] (with_state f d)) \<longleftrightarrow> requests_ok (effects [Settle n r] d)" for r f d
    by (simp add: requests_ok_def effects_def)
  show ?thesis using Some p settle
    by (auto simp: handleResponse_def Let_def swap failAndClose_ok split: sum.splits)
qed

lemma handleResponse_connection_ok: "connection_ok c \<Longrightarrow> connection_ok (handleResponse i r c)"
proof -
  assume ok: "connection_ok c"
  then have "connection_ok (c\<lparr>cl_pending := ps\<rparr>)" for ps by (simp add: connection_ok_def)
  then show ?thesis using ok
    by (auto simp: handleResponse_def Let_def failAndClose_ok effects_ok split: option.splits sum.splits)
qed

lemma handshake_ok:
  assumes "cl_lifecycle c = Connecting i d (Some t)"
  shows "requests_ok c \<Longrightarrow> requests_ok (handleMessage (SM_hello snapshot) c)"
    "connection_ok c \<Longrightarrow> connection_ok (handleMessage (SM_hello snapshot) c)"
proof -
  show "requests_ok c \<Longrightarrow> requests_ok (handleMessage (SM_hello snapshot) c)"
    using assms by (auto simp: handleMessage_def requests_ok_def change_defs state_of_def Let_def)
  assume ok: "connection_ok c"
  from connecting_ok [OF this assms] show "connection_ok (handleMessage (SM_hello snapshot) c)"
    using assms by (simp add: handleMessage_def connection_ok_def change_defs lifecycle_defs follow_append Let_def)
qed

lemma handleMessage_cases:
  assumes "\<And>e. P (failAndClose e c)" and "P c" and "\<And>f. P (with_state f c)" and "\<And>i r. P (handleResponse i r c)"
    and "\<And>snapshot i d t. cl_lifecycle c = Connecting i d (Some t) \<Longrightarrow> m = SM_hello snapshot \<Longrightarrow>
      P (handleMessage (SM_hello snapshot) c)"
  shows "P (handleMessage m c)"
proof (cases "\<exists>snapshot i d t. cl_lifecycle c = Connecting i d (Some t) \<and> m = SM_hello snapshot")
  case True
  with assms(5) show ?thesis by blast
next
  case False
  with assms(1-4) show ?thesis
    by (auto simp: handleMessage_def split: lifecycle.split server_message.split option.split)
qed

lemma handleMessage_ok:
  "requests_ok c \<Longrightarrow> requests_ok (handleMessage m c)" "connection_ok c \<Longrightarrow> connection_ok (handleMessage m c)"
  by (rule handleMessage_cases; simp add: failAndClose_ok handleResponse_ok handleResponse_connection_ok handshake_ok)+

lemma handleMessages_ok:
  "requests_ok c \<Longrightarrow> requests_ok (handleMessages ms c)" "connection_ok c \<Longrightarrow> connection_ok (handleMessages ms c)"
  by (induction ms arbitrary: c) (auto simp: handleMessage_ok)

section \<open>Every step\<close>

definition client_ok :: "client \<Rightarrow> bool" where
  "client_ok c \<longleftrightarrow> requests_ok c \<and> connection_ok c"

lemma client_ok_update [simp]:
  "client_ok (c\<lparr>cl_state := s\<rparr>) \<longleftrightarrow> client_ok c" "client_ok (c\<lparr>cl_stateListeners := ls\<rparr>) \<longleftrightarrow> client_ok c"
  "client_ok (c\<lparr>cl_disposed := b\<rparr>) \<longleftrightarrow> client_ok c"
  by (simp_all add: client_ok_def requests_ok_def connection_ok_def)

lemma client_ok_steps:
  assumes "client_ok c"
  shows "client_ok (failAndClose e c)" "client_ok (fail e c)" "client_ok (handleMessages ms c)"
    "client_ok (effects [Close_transport t] c)" "client_ok (effects [Send t frame] c)"
  using assms by (simp_all add: client_ok_def failAndClose_ok fail_ok handleMessages_ok effects_ok)

text \<open>Steps that leave the requests, or the promises of the connection, as they are.\<close>

lemma requests_same:
  "requests_ok c \<Longrightarrow> settled_of (cl_log c') = settled_of (cl_log c) \<Longrightarrow> cl_pending c' = cl_pending c \<Longrightarrow>
   cl_requestSequence c' = cl_requestSequence c \<Longrightarrow>
   state_of (cl_lifecycle c') = state_of (cl_lifecycle c) \<or> cl_pending c = [] \<Longrightarrow> requests_ok c'"
  unfolding requests_ok_def by metis

lemma connection_same:
  "connection_ok c \<Longrightarrow> handshakes_of (cl_log c') = handshakes_of (cl_log c) \<Longrightarrow> changes_of (cl_log c') = changes_of (cl_log c) \<Longrightarrow>
   cl_sequence c' = cl_sequence c \<Longrightarrow> cl_maxFrameLength c' = cl_maxFrameLength c \<Longrightarrow>
   open_handshake (cl_lifecycle c') = open_handshake (cl_lifecycle c) \<Longrightarrow>
   current_id (cl_lifecycle c') = current_id (cl_lifecycle c) \<Longrightarrow>
   state_of (cl_lifecycle c') = state_of (cl_lifecycle c) \<Longrightarrow> connection_ok c'"
  unfolding connection_ok_def by metis

lemma transport_ok: "client_ok c \<Longrightarrow> cl_lifecycle c = Connecting k d t \<Longrightarrow> client_ok (c\<lparr>cl_lifecycle := Connecting k d t'\<rparr>)"
  unfolding client_ok_def
  by (intro conjI; elim conjE; erule requests_same connection_same) (simp_all add: lifecycle_defs)

lemma set_decoder_ok: "client_ok c \<Longrightarrow> cl_lifecycle c = l \<Longrightarrow> client_ok (c\<lparr>cl_lifecycle := set_decoder d l\<rparr>)"
  unfolding client_ok_def
  by (intro conjI; elim conjE; erule requests_same connection_same)
    (simp_all add: lifecycle_defs set_decoder_def split: lifecycle.split)

lemma connect_ok: "client_ok c \<Longrightarrow> client_ok (connect c)"
proof -
  assume ok: "client_ok c"
  show ?thesis
  proof (cases "cl_disposed c \<or> cl_lifecycle c \<noteq> Disconnected")
    case False
    with ok obtain d where d: "createServerMessageDecoder (Some (max_frame_length (cl_maxFrameLength c))) = Inr d"
      by (auto simp: client_ok_def connection_ok_def)
    have "requests_ok c" "connection_ok c" using ok by (simp_all add: client_ok_def)
    have "requests_ok (connect c)"
      by (rule requests_same [OF \<open>requests_ok c\<close>])
        (use False d \<open>requests_ok c\<close> in \<open>simp_all add: connect_def Let_def change_defs requests_ok_def state_of_def\<close>)
    moreover have "{Suc 0..Suc (cl_sequence c)} - {Suc (cl_sequence c)} = {Suc 0..cl_sequence c}" by auto
    with \<open>connection_ok c\<close> False d have "connection_ok (connect c)"
      by (simp add: connect_def Let_def connection_ok_def change_defs lifecycle_defs follow_append)
    ultimately show ?thesis by (simp add: client_ok_def)
  qed (use ok in \<open>auto simp: connect_def\<close>)
qed

lemma transport_opened_ok: "client_ok c \<Longrightarrow> client_ok (transport_opened check i t thrown c)"
  by (auto simp: transport_opened_def Let_def transport_ok client_ok_steps split: lifecycle.splits sum.splits option.splits)

lemma handleData_ok: "client_ok c \<Longrightarrow> client_ok (handleData check read i chunk c)"
  by (auto simp: handleData_def client_ok_steps set_decoder_ok split: lifecycle.splits option.splits sum.splits)

lemma request_ok: "client_ok c \<Longrightarrow> client_ok (snd (request check cmd thrown c))"
proof -
  assume ok: "client_ok c"
  let ?n = "cl_requestSequence c + 1"
  let ?c = "c\<lparr>cl_requestSequence := ?n, cl_pending := cl_pending c @ [(?n, cmd)]\<rparr>"
  show ?thesis
  proof (cases "cl_disposed c \<or> state_of (cl_lifecycle c) \<noteq> CS_connected")
    case False
    have "requests_ok c" "connection_ok c" using ok by (simp_all add: client_ok_def)
    have numbers: "set (settled_of (cl_log c) @ map fst (cl_pending c)) = {1..cl_requestSequence c}"
      "distinct (settled_of (cl_log c) @ map fst (cl_pending c))"
      using \<open>requests_ok c\<close> unfolding requests_ok_def by blast+
    have "distinct ((settled_of (cl_log c) @ map fst (cl_pending c)) @ [?n])"
      unfolding distinct_append numbers(1) using numbers(2) by simp
    moreover have "set ((settled_of (cl_log c) @ map fst (cl_pending c)) @ [?n]) = {1..?n}"
      unfolding set_append [of _ "[?n]"] numbers(1) by auto
    ultimately have "requests_ok ?c" using False unfolding requests_ok_def by simp
    moreover have "connection_ok ?c" by (rule connection_same [OF \<open>connection_ok c\<close>]) simp_all
    ultimately have next_ok: "client_ok ?c" by (simp add: client_ok_def)
    have "client_ok (effects [Settle ?n r] (?c\<lparr>cl_pending := filter (\<lambda>(k, _). k \<noteq> ?n) (cl_pending ?c)\<rparr>))" for r
    proof -
      have "connection_ok (?c\<lparr>cl_pending := filter (\<lambda>(k, _). k \<noteq> ?n) (cl_pending ?c)\<rparr>)"
        by (rule connection_same [OF \<open>connection_ok c\<close>]) simp_all
      with next_ok settle_pending_ok [of ?c ?n cmd r] show ?thesis
        by (simp add: client_ok_def effects_connection)
    qed
    moreover have "client_ok (send frame thrown ?c)" for frame
      using next_ok by (simp add: send_def client_ok_steps split: lifecycle.split option.split)
    ultimately show ?thesis using False by (simp add: request_def Let_def split: sum.split)
  qed (use ok in \<open>auto simp: request_def\<close>)
qed

lemma dispose_ok: "client_ok c \<Longrightarrow> client_ok (dispose c)"
proof -
  assume ok: "client_ok c"
  have "client_ok (rejectPendingRequests e c')" if "client_ok c'" for e c'
    using that by (auto simp: client_ok_def requests_ok_def connection_ok_def rejectPendingRequests_def effects_def)
  with ok show ?thesis by (simp add: dispose_def disconnect_def Let_def client_ok_steps)
qed

lemma client_do_ok: "client_ok c \<Longrightarrow> client_ok (client_do check_out check_in read op c)"
  by (cases op)
    (auto simp: connect_ok disconnect_def client_ok_steps transport_opened_ok transport_failed_def hello_rejected_def
      handleData_ok transport_error_def transport_closed_def handleClose_def request_ok send_rejected_def
      onConnectionStateChange_def stop_state_changes_def subscribe_client_def onEvent_client_def dispose_ok split: option.split)

lemma client_run_ok: "client_ok c \<Longrightarrow> client_ok (client_run check_out check_in read ops c)"
  unfolding client_run_def by (induction ops arbitrary: c) (simp_all add: client_do_ok)

lemma new_client_ok: "new_client limit = Inr c \<Longrightarrow> client_ok c"
  by (auto simp: new_client_def Let_def client_ok_def requests_ok_def connection_ok_def lifecycle_defs
      createServerMessageDecoder_def new_message_decoder_def new_frame_decoder_def resolveMaxFrameLength_def max_frame_length_def resolveLimit_def throws
      split: if_splits js_number.splits option.splits)

section \<open>Promises and connection states\<close>

text \<open>
  C32. Whatever happens in which order, every request is settled at most once, the requests not yet settled are exactly the
  pending ones, and none is pending unless the client is connected; every handshake but the one of a
  connection that is being opened is settled exactly once; and the connection states follow one another as documented.
\<close>

theorem promises_settle_once:
  assumes "new_client limit = Inr c" and "client_run check_out check_in read ops c = c'"
  shows "distinct (settled_of (cl_log c') @ map fst (cl_pending c')) \<and>
    set (settled_of (cl_log c') @ map fst (cl_pending c')) = {1..cl_requestSequence c'} \<and>
    (state_of (cl_lifecycle c') \<noteq> CS_connected \<longrightarrow> cl_pending c' = []) \<and>
    distinct (handshakes_of (cl_log c')) \<and>
    set (handshakes_of (cl_log c')) = {1..cl_sequence c'} - open_handshake (cl_lifecycle c') \<and>
    follow CS_disconnected (changes_of (cl_log c')) = Some (state_of (cl_lifecycle c'))"
proof -
  have "client_ok c'" using client_run_ok [OF new_client_ok [OF assms(1)]] assms(2) by blast
  then show ?thesis unfolding client_ok_def requests_ok_def connection_ok_def by blast
qed

abbreviation broken_session :: "client_op list" where
  "broken_session \<equiv> [Op_connect, Op_opened 1 7 None, Op_disconnect disconnected_error, Op_connect, Op_failed 2 disconnected_error]"

theorem promises_settle_once_witness:
  "\<exists>c. new_client None = Inr c \<and>
     (let c' = client_run (\<lambda>_. True) (\<lambda>_. True) (\<lambda>_. SM_event (E_session_removed [])) broken_session c
      in distinct (handshakes_of (cl_log c')) \<and> follow CS_disconnected (changes_of (cl_log c')) = Some (state_of (cl_lifecycle c')))"
proof -
  obtain c where c: "new_client None = Inr c"
    by (simp add: new_client_def Let_def max_frame_length_def DEFAULT_MAX_FRAME_LENGTH_def MAX_UINT32_def MAX_SAFE_INTEGER_def)
  from promises_settle_once [OF this refl] c show ?thesis by (auto simp: Let_def)
qed

section \<open>Snapshots\<close>

text \<open>The server snapshots shown between two openings of a connection, with the last revision seen.\<close>

fun revisions_rise :: "int option \<Rightarrow> effect list \<Rightarrow> bool" where
  "revisions_rise r [] = True"
| "revisions_rise r (Changed CS_connecting # es) = revisions_rise None es"
| "revisions_rise r (Notify (N_snapshot l s) # es) =
     ((case r of None \<Rightarrow> True | Some k \<Rightarrow> k \<le> sv_revision s) \<and> revisions_rise (Some (sv_revision s)) es)"
| "revisions_rise r (_ # es) = revisions_rise r es"

fun last_revision :: "int option \<Rightarrow> effect list \<Rightarrow> int option" where
  "last_revision r [] = r"
| "last_revision r (Changed CS_connecting # es) = last_revision None es"
| "last_revision r (Notify (N_snapshot l s) # es) = last_revision (Some (sv_revision s)) es"
| "last_revision r (_ # es) = last_revision r es"

lemma revisions_append:
  "revisions_rise r (es @ fs) \<longleftrightarrow> revisions_rise r es \<and> revisions_rise (last_revision r es) fs"
  "last_revision r (es @ fs) = last_revision (last_revision r es) fs"
  by (induction r es rule: revisions_rise.induct) auto

fun quiet :: "effect \<Rightarrow> bool" where
  "quiet (Changed s) \<longleftrightarrow> s \<noteq> CS_connecting"
| "quiet (Notify (N_snapshot l s)) \<longleftrightarrow> False"
| "quiet _ \<longleftrightarrow> True"

lemma quiet_revisions: "list_all quiet es \<Longrightarrow> revisions_rise r es \<and> last_revision r es = r"
  by (induction r es rule: revisions_rise.induct) auto

text \<open>Steps that show no server snapshot.\<close>

definition quietly :: "client \<Rightarrow> client \<Rightarrow> bool" where
  "quietly c c' \<longleftrightarrow>
     (\<exists>es. cl_log c' = cl_log c @ es \<and> list_all quiet es) \<and>
     cs_snapshot (cl_state c') = cs_snapshot (cl_state c) \<and>
     (cl_lifecycle c' \<noteq> Disconnected \<longrightarrow> cl_lifecycle c \<noteq> Disconnected)"

lemma quietly_refl [simp]: "quietly c c"
  by (simp add: quietly_def)

lemma quietly_trans: "quietly c d \<Longrightarrow> quietly d e \<Longrightarrow> quietly c e"
  by (force simp: quietly_def)

lemma quietly_effects: "list_all quiet es \<Longrightarrow> quietly c (effects es c)"
  by (simp add: quietly_def effects_def)

lemma quiet_maps [simp]:
  "list_all quiet (map (\<lambda>(n, _). Settle n r) ps)" "list_all quiet (map (\<lambda>l. State_change l st e) ls)"
  "list_all quiet (map (\<lambda>l. Notify (N_session_snapshot l s)) ls)" "list_all quiet (map (\<lambda>l. Notify (N_event l ev)) ls)"
  "list_all quiet (map (\<lambda>l. Notify (N_session_event l ev)) ls)"
  by (auto simp: list_all_iff)

lemma quietly_fail: "quietly c (fail e c)"
  by (auto simp: quietly_def fail_def change_defs clearAttachments_def split: lifecycle.split)

lemma quietly_failAndClose: "quietly c (failAndClose e c)"
  unfolding failAndClose_def
  by (auto intro: quietly_trans [OF quietly_fail quietly_effects] quietly_fail split: option.split)

lemma quietly_with_state:
  assumes "list_all quiet (map Notify (fst (f (cl_state c))))" "cs_snapshot (snd (f (cl_state c))) = cs_snapshot (cl_state c)"
  shows "quietly c (with_state f c)"
  using assms by (auto simp: with_state_def quietly_def effects_def split: prod.splits)

lemma quiet_session_snapshot:
  "list_all quiet (map Notify (fst (applySessionSnapshot s b st))) \<and>
   cs_snapshot (snd (applySessionSnapshot s b st)) = cs_snapshot st"
  by (simp add: applySessionSnapshot_def Let_def comp_def)

lemma quietly_result: "quietly c (with_state (applyResult r) c)"
proof (rule quietly_with_state)
  have "list_all quiet (map Notify (fst (applyResult r st))) \<and> cs_snapshot (snd (applyResult r st)) = cs_snapshot st" for st
    using quiet_session_snapshot by (cases r) (auto simp: applyResult_def Let_def split: option.split)
  then show "list_all quiet (map Notify (fst (applyResult r (cl_state c))))"
    "cs_snapshot (snd (applyResult r (cl_state c))) = cs_snapshot (cl_state c)" by auto
qed

lemma quietly_event: "(\<And>s. e \<noteq> E_server_snapshot s) \<Longrightarrow> quietly c (with_state (applyEvent e) c)"
proof (rule quietly_with_state)
  assume e: "\<And>s. e \<noteq> E_server_snapshot s"
  have "list_all quiet (map Notify (fst (applyEvent e st))) \<and> cs_snapshot (snd (applyEvent e st)) = cs_snapshot st" for st
    using quiet_session_snapshot e
    by (cases e) (auto simp: applyEvent_def event_change_def comp_def case_prod_unfold split: option.split)
  then show "list_all quiet (map Notify (fst (applyEvent e (cl_state c))))"
    "cs_snapshot (snd (applyEvent e (cl_state c))) = cs_snapshot (cl_state c)" by auto
qed

lemma quietly_update: "cl_log c' = cl_log c \<Longrightarrow> cl_state c' = cl_state c \<Longrightarrow>
    (cl_lifecycle c' \<noteq> Disconnected \<longrightarrow> cl_lifecycle c \<noteq> Disconnected) \<Longrightarrow> quietly c c'"
  by (simp add: quietly_def)

lemma quietly_response: "quietly c (handleResponse i r c)"
proof -
  have "quietly c (effects [Settle n r'] (c\<lparr>cl_pending := ps\<rparr>))" for n r' ps
    by (rule quietly_trans [OF quietly_update quietly_effects]) simp_all
  moreover have "quietly c (effects [Settle n r'] (with_state (applyResult q) (c\<lparr>cl_pending := ps\<rparr>)))" for n r' ps q
    by (rule quietly_trans [OF quietly_trans [OF quietly_update quietly_result] quietly_effects]) simp_all
  ultimately show ?thesis
    unfolding handleResponse_def Let_def
    by (auto intro: quietly_failAndClose quietly_trans [OF _ quietly_failAndClose] split: option.split sum.split)
qed

definition snapshots_ok :: "client \<Rightarrow> bool" where
  "snapshots_ok c \<longleftrightarrow>
     revisions_rise None (cl_log c) \<and>
     (\<forall>k. last_revision None (cl_log c) = Some k \<and> cl_lifecycle c \<noteq> Disconnected \<longrightarrow>
        (\<exists>s. cs_snapshot (cl_state c) = Some s \<and> k \<le> sv_revision s))"

lemma quietly_snapshots: "snapshots_ok c \<Longrightarrow> quietly c c' \<Longrightarrow> snapshots_ok c'"
  by (auto simp: snapshots_ok_def quietly_def revisions_append quiet_revisions)

lemma shown_revisions:
  "revisions_rise r (map (\<lambda>l. Notify (N_snapshot l s)) ls) \<longleftrightarrow> ls = [] \<or> (case r of None \<Rightarrow> True | Some k \<Rightarrow> k \<le> sv_revision s)"
  "last_revision r (map (\<lambda>l. Notify (N_snapshot l s)) ls) = (if ls = [] then r else Some (sv_revision s))"
  by (induction ls arbitrary: r) (auto split: option.splits)

lemma server_snapshot_ok:
  assumes "snapshots_ok c" and "cl_lifecycle c \<noteq> Disconnected"
  shows "snapshots_ok (with_state (applyServerSnapshot s) c)"
  using assms
  by (cases "cs_snapshot (cl_state c)")
    (force simp: snapshots_ok_def with_state_def applyServerSnapshot_def effects_def comp_def revisions_append shown_revisions
      split: option.splits)+

lemma handleMessage_snapshots: "snapshots_ok c \<Longrightarrow> snapshots_ok (handleMessage m c)"
proof (cases "\<exists>s. m = SM_hello s \<or> m = SM_event (E_server_snapshot s)")
  case False
  assume ok: "snapshots_ok c"
  have "quietly c (handleMessage m c)"
    using False
    by (cases m) (auto simp: handleMessage_def intro!: quietly_failAndClose quietly_response quietly_event split: lifecycle.split)
  with ok show ?thesis by (rule quietly_snapshots)
next
  case True
  assume ok: "snapshots_ok c"
  note quiet = quietly_snapshots [OF ok quietly_failAndClose]
  from True consider s where "m = SM_hello s" | s where "m = SM_event (E_server_snapshot s)" by blast
  then show ?thesis
  proof cases
    case (1 s)
    show ?thesis
    proof (cases "\<exists>i d t. cl_lifecycle c = Connecting i d (Some t)")
      case True
      then obtain i d t where l: "cl_lifecycle c = Connecting i d (Some t)" by blast
      have "snapshots_ok (c\<lparr>cl_lifecycle := Connected i d t\<rparr>)" using ok l by (simp add: snapshots_ok_def)
      then have "snapshots_ok (with_state (applyServerSnapshot s) (c\<lparr>cl_lifecycle := Connected i d t\<rparr>))"
        by (rule server_snapshot_ok) simp
      moreover have "quietly c' (effects [Handshake i r] (handleConnectionStateChange CS_connected None c'))" for c' r
        by (simp add: quietly_def change_defs)
      ultimately show ?thesis using 1 l by (simp add: handleMessage_def Let_def quietly_snapshots)
    qed (use 1 ok quiet in \<open>auto simp: handleMessage_def split: lifecycle.split option.split\<close>)
  next
    case (2 s)
    have "with_state (applyEvent (E_server_snapshot s)) c =
        effects (map (\<lambda>l. Notify (N_event l (E_server_snapshot s))) (cs_eventListeners (cl_state c)))
          (with_state (applyServerSnapshot s) c)"
      by (auto simp: with_state_def applyEvent_def event_change_def effects_def getEventSessionId_def applyServerSnapshot_def
          comp_def split: option.split prod.split)
    then have "cl_lifecycle c \<noteq> Disconnected \<Longrightarrow> snapshots_ok (with_state (applyEvent (E_server_snapshot s)) c)"
      using quietly_snapshots [OF server_snapshot_ok [OF ok] quietly_effects] by simp
    with 2 ok quiet show ?thesis by (auto simp: handleMessage_def split: lifecycle.split)
  qed
qed

lemma handleMessages_snapshots: "snapshots_ok c \<Longrightarrow> snapshots_ok (handleMessages ms c)"
  by (induction ms arbitrary: c) (simp_all add: handleMessage_snapshots)

lemma lifecycle_snapshots:
  "snapshots_ok c \<Longrightarrow> cl_lifecycle c \<noteq> Disconnected \<Longrightarrow> snapshots_ok (c\<lparr>cl_lifecycle := l\<rparr>)"
  by (simp add: snapshots_ok_def)

lemma snapshots_steps:
  assumes "snapshots_ok c"
  shows "snapshots_ok (failAndClose e c)" "snapshots_ok (fail e c)"
    "list_all quiet es \<Longrightarrow> snapshots_ok (effects es c)"
  using assms by (blast intro: quietly_snapshots quietly_failAndClose quietly_fail quietly_effects)+

lemma connect_snapshots: "snapshots_ok c \<Longrightarrow> snapshots_ok (connect c)"
  by (auto simp: connect_def Let_def snapshots_ok_def change_defs revisions_append quiet_revisions split: sum.split)

lemma request_snapshots: "snapshots_ok c \<Longrightarrow> snapshots_ok (snd (request check cmd thrown c))"
proof -
  assume ok: "snapshots_ok c"
  let ?n = "cl_requestSequence c + 1"
  have "snapshots_ok (c\<lparr>cl_requestSequence := ?n, cl_pending := ps\<rparr>)" for ps
    by (rule quietly_snapshots [OF ok quietly_update]) simp_all
  with ok show ?thesis
    by (auto simp: request_def Let_def send_def snapshots_steps split: sum.split lifecycle.split option.split)
qed

lemma dispose_snapshots: "snapshots_ok c \<Longrightarrow> snapshots_ok (dispose c)"
proof (cases "cl_disposed c")
  case False
  assume ok: "snapshots_ok c"
  let ?c = "rejectPendingRequests PiClientDisposedError (c\<lparr>cl_disposed := True\<rparr>)"
  let ?d = "disconnect PiClientDisposedError ?c"
  have "quietly c ?c" by (simp add: quietly_def rejectPendingRequests_def effects_def)
  from quietly_snapshots [OF ok this] have ok_d: "snapshots_ok ?d" by (simp add: disconnect_def snapshots_steps)
  have "cl_lifecycle (fail e c) = Disconnected" for e c
    by (simp add: fail_def change_defs split: lifecycle.split)
  then have "cl_lifecycle ?d = Disconnected"
    by (simp add: disconnect_def failAndClose_def effects_def split: option.split)
  with ok_d False show ?thesis by (simp add: dispose_def Let_def snapshots_ok_def)
qed (simp add: dispose_def)

lemma client_do_snapshots: "snapshots_ok c \<Longrightarrow> snapshots_ok (client_do check_out check_in read op c)"
proof (cases op)
  case (Op_opened i t thrown)
  assume ok: "snapshots_ok c"
  with Op_opened show ?thesis
    by (auto simp: transport_opened_def Let_def snapshots_steps lifecycle_snapshots split: lifecycle.split sum.split option.split)
next
  case (Op_data i chunk)
  assume ok: "snapshots_ok c"
  have "cl_lifecycle c = l \<Longrightarrow> l \<noteq> Disconnected \<Longrightarrow> snapshots_ok (c\<lparr>cl_lifecycle := set_decoder d l\<rparr>)" for d l
    using ok lifecycle_snapshots by auto
  with ok Op_data show ?thesis
    by (auto simp: handleData_def isCurrent_def snapshots_steps handleMessages_snapshots
        split: lifecycle.split sum.split option.split prod.split)
qed (auto simp: connect_snapshots disconnect_def snapshots_steps transport_failed_def hello_rejected_def transport_error_def
    transport_closed_def handleClose_def request_snapshots send_rejected_def onConnectionStateChange_def stop_state_changes_def
    subscribe_client_def onEvent_client_def dispose_snapshots subscribe_snapshot_def onEvent_def split: option.split
    intro: quietly_snapshots simp: quietly_def)

text \<open>
  C34. The revisions of the server snapshots that a client shows its listeners never go back between two openings of its
  connection, whatever the server sends and in which order.
\<close>

theorem server_snapshots_never_go_back:
  assumes "new_client limit = Inr c"
  shows "revisions_rise None (cl_log (client_run check_out check_in read ops c))"
proof -
  have run: "snapshots_ok c \<Longrightarrow> snapshots_ok (client_run check_out check_in read ops c)" for c
    unfolding client_run_def by (induction ops arbitrary: c) (simp_all add: client_do_snapshots)
  have "snapshots_ok c" using assms by (auto simp: new_client_def Let_def snapshots_ok_def split: if_splits)
  from run [OF this] show ?thesis by (simp add: snapshots_ok_def)
qed

theorem server_snapshots_never_go_back_witness:
  "\<exists>c. new_client None = Inr c \<and>
     revisions_rise None (cl_log (client_run (\<lambda>_. True) (\<lambda>_. True) (\<lambda>_. SM_event (E_session_removed [])) broken_session c))"
proof -
  obtain c where c: "new_client None = Inr c"
    by (simp add: new_client_def Let_def max_frame_length_def DEFAULT_MAX_FRAME_LENGTH_def MAX_UINT32_def MAX_SAFE_INTEGER_def)
  from server_snapshots_never_go_back [OF this] c show ?thesis by blast
qed

section \<open>Messages from bytes\<close>

fun handleChunks :: "(js_value \<Rightarrow> bool) \<Rightarrow> (js_value \<Rightarrow> server_message) \<Rightarrow> nat \<Rightarrow> bytes list \<Rightarrow> client \<Rightarrow> client" where
  "handleChunks check read i [] c = c"
| "handleChunks check read i (chunk # chunks) c = handleChunks check read i chunks (handleData check read i chunk c)"

lemma handleMessages_disconnected [simp]: "cl_lifecycle c = Disconnected \<Longrightarrow> handleMessages ms c = c"
  by (cases ms) simp_all

lemma handleMessages_append: "handleMessages (xs @ ys) c = handleMessages ys (handleMessages xs c)"
  by (induction xs arbitrary: c) simp_all

definition with_decoder :: "message_decoder \<Rightarrow> client \<Rightarrow> client" where
  "with_decoder d c = c\<lparr>cl_lifecycle := set_decoder d (cl_lifecycle c)\<rparr>"

text \<open>The decoder of a client plays no part in the handling of a message.\<close>

lemma with_decoder_state [simp]:
  "cl_state (with_decoder d c) = cl_state c" "cl_pending (with_decoder d c) = cl_pending c" "cl_log (with_decoder d c) = cl_log c"
  "cl_stateListeners (with_decoder d c) = cl_stateListeners c"
  "cl_lifecycle (with_decoder d c) = set_decoder d (cl_lifecycle c)"
  by (simp_all add: with_decoder_def)

lemma decoder_effects: "effects es (with_decoder d c) = with_decoder d (effects es c)"
  by (simp add: with_decoder_def effects_def)

lemma decoder_with_state: "with_state f (with_decoder d c) = with_decoder d (with_state f c)"
  by (simp add: with_state_def decoder_effects split: prod.split) (simp add: with_decoder_def effects_def)

lemma decoder_fail: "fail e (with_decoder d c) = with_decoder d (fail e c)"
  by (cases "cl_lifecycle c") (simp_all add: fail_def with_decoder_def change_defs set_decoder_def)

lemma decoder_failAndClose: "failAndClose e (with_decoder d c) = with_decoder d (failAndClose e c)"
proof -
  have "lifecycle_transport (set_decoder d l) = lifecycle_transport l" for l
    by (simp add: lifecycle_transport_def set_decoder_def split: lifecycle.split)
  then show ?thesis by (simp add: failAndClose_def decoder_fail decoder_effects split: option.split)
qed

lemma decoder_pending: "(with_decoder d c)\<lparr>cl_pending := ps\<rparr> = with_decoder d (c\<lparr>cl_pending := ps\<rparr>)"
  by (simp add: with_decoder_def)

lemmas decoder_moves = decoder_effects decoder_with_state decoder_failAndClose decoder_pending

lemma decoder_response: "handleResponse i r (with_decoder d c) = with_decoder d (handleResponse i r c)"
  by (auto simp: handleResponse_def Let_def decoder_moves split: option.split sum.split)

lemma decoder_message: "handleMessage m (with_decoder d c) = with_decoder d (handleMessage m c)"
proof (cases "\<exists>i d' t s. cl_lifecycle c = Connecting i d' (Some t) \<and> m = SM_hello s")
  case True
  then show ?thesis
    by (auto simp: handleMessage_def set_decoder_def with_decoder_def change_defs with_state_def Let_def split: prod.split)
next
  case False
  then show ?thesis
    by (cases "cl_lifecycle c"; cases m)
      (simp_all add: handleMessage_def set_decoder_def decoder_moves decoder_response split: option.split)
qed

lemma decoder_messages: "handleMessages ms (with_decoder d c) = with_decoder d (handleMessages ms c)"
proof (induction ms arbitrary: c)
  case (Cons m ms)
  have "set_decoder d l = Disconnected \<longleftrightarrow> l = Disconnected" for l by (simp add: set_decoder_def split: lifecycle.split)
  with Cons show ?case by (simp add: decoder_message)
qed simp

text \<open>A message leaves the connection as it is, connected at last, or ends it.\<close>

definition serving :: "nat \<Rightarrow> message_decoder \<Rightarrow> lifecycle \<Rightarrow> bool" where
  "serving i d l \<longleftrightarrow> (\<exists>t. l = Connecting i d (Some t) \<or> l = Connected i d t)"

lemma fail_lifecycle [simp]: "cl_lifecycle (fail e c) = Disconnected" "cl_lifecycle (failAndClose e c) = Disconnected"
  by (simp_all add: fail_def failAndClose_def change_defs split: lifecycle.split option.split)

lemma response_lifecycle: "cl_lifecycle (handleResponse i r c) = cl_lifecycle c \<or> cl_lifecycle (handleResponse i r c) = Disconnected"
  by (auto simp: handleResponse_def Let_def effects_def split: option.split sum.split)

lemma message_serving: "serving i d (cl_lifecycle c) \<Longrightarrow>
    serving i d (cl_lifecycle (handleMessage m c)) \<or> cl_lifecycle (handleMessage m c) = Disconnected"
proof (cases "\<exists>k r. m = SM_response k r")
  case True
  assume "serving i d (cl_lifecycle c)"
  from True obtain k r where m: "m = SM_response k r" by blast
  from \<open>serving i d (cl_lifecycle c)\<close>
  have "serving i d (cl_lifecycle (handleResponse k r c)) \<or> cl_lifecycle (handleResponse k r c) = Disconnected"
    using response_lifecycle [of k r c] by metis
  with \<open>serving i d (cl_lifecycle c)\<close> show ?thesis
    by (cases "cl_lifecycle c") (simp_all add: handleMessage_def m serving_def)
qed (cases m; auto simp: serving_def handleMessage_def change_defs Let_def)

lemma messages_serving: "serving i d (cl_lifecycle c) \<Longrightarrow>
    serving i d (cl_lifecycle (handleMessages ms c)) \<or> cl_lifecycle (handleMessages ms c) = Disconnected"
proof (induction ms arbitrary: c)
  case (Cons m ms)
  with message_serving [of i d c m] show ?case by (auto simp: serving_def)
qed simp

lemma handleData_serving:
  assumes "serving i d (cl_lifecycle c)" and "push_messages check d chunk = Some (d', Inr ms)"
  shows "handleData check read i chunk c = with_decoder d' (handleMessages (map read ms) c)"
  using assms decoder_messages [of "map read ms" d' c]
  by (auto simp: serving_def handleData_def isCurrent_def lifecycle_decoder_def with_decoder_def)

lemma handleChunks_disconnected: "cl_lifecycle c = Disconnected \<Longrightarrow> handleChunks check read i chunks c = c"
  by (induction chunks) (simp_all add: handleData_def isCurrent_def)

lemma handleChunks_serving:
  assumes "serving i d (cl_lifecycle c)" and "push_message_chunks check d chunks = Some (d', vs)"
  shows "handleChunks check read i chunks c = with_decoder d' (handleMessages (map read vs) c)"
  using assms
proof (induction chunks arbitrary: c d vs)
  case Nil
  then show ?case by (auto simp: serving_def with_decoder_def set_decoder_def intro!: client.equality)
next
  case (Cons chunk chunks)
  then obtain d1 ms ns where push: "push_messages check d chunk = Some (d1, Inr ms)"
    and rest: "push_message_chunks check d1 chunks = Some (d', ns)" and vs: "vs = ms @ ns"
    by (auto split: option.splits sum.splits)
  let ?c = "handleMessages (map read ms) c"
  have step: "handleData check read i chunk c = with_decoder d1 ?c" by (rule handleData_serving [OF Cons.prems(1) push])
  from messages_serving [OF Cons.prems(1), of "map read ms"] show ?case
  proof
    assume "serving i d (cl_lifecycle ?c)"
    then have "serving i d1 (cl_lifecycle (with_decoder d1 ?c))" by (auto simp: serving_def set_decoder_def)
    from Cons.IH [OF this rest] step show ?thesis
      by (simp add: vs handleMessages_append decoder_messages)
        (simp add: with_decoder_def set_decoder_def split: lifecycle.split)
  next
    assume off: "cl_lifecycle ?c = Disconnected"
    then have same: "with_decoder x ?c = ?c" for x by (auto simp: with_decoder_def set_decoder_def intro!: client.equality)
    show ?thesis using off by (simp add: step same handleChunks_disconnected vs handleMessages_append)
  qed
qed

text \<open>
  C33. The client handles exactly the messages that the server encoded, in their order, however the connection cuts
  their bytes: what it does with the chunks is what it does with the messages.
\<close>

theorem client_handles_server_messages:
  assumes "createServerMessageDecoder opt = Inr md"
    and "list_all2 (\<lambda>v frame. encodeServerMessage check v opt = Inr frame) vs frames"
    and "list_all (\<lambda>v. js_value_ok v \<and> all_defined v) vs"
    and "concat chunks = concat frames"
    and "cl_lifecycle c = Connecting i md (Some t)"
  shows "\<exists>md'. handleChunks check read i chunks c = with_decoder md' (handleMessages (map read vs) c)"
proof -
  from messages_roundtrip [OF assms(2) [unfolded encodeServerMessage_def] assms(3,4) assms(1) [unfolded createServerMessageDecoder_def]]
  obtain md' where "push_message_chunks check md chunks = Some (md', vs)" by blast
  moreover have "serving i md (cl_lifecycle c)" using assms(5) by (simp add: serving_def)
  ultimately show ?thesis using handleChunks_serving by blast
qed

lemma encode_any_kind:
  "encodeProtocolMessage check kind v opt = Inr f \<Longrightarrow> encodeProtocolMessage check kind' v opt = Inr f"
  by (auto simp: encodeProtocolMessage_def throws parse_message_Inr map_sum_Inr)

theorem client_handles_server_messages_witness:
  "\<exists>md c md'. createServerMessageDecoder None = Inr md \<and> cl_lifecycle c = Connecting 1 md (Some 7) \<and>
     handleChunks demo_check (\<lambda>_. SM_hello_error ('''', V_null)) 1 [[0, 0, 0], [4, 0xA1, 0x61], [0x61, 0xF6]] c =
       with_decoder md' (handleMessages [SM_hello_error ('''', V_null)] c)"
proof -
  obtain md where md: "createServerMessageDecoder None = Inr md"
    by (simp add: createServerMessageDecoder_def new_message_decoder_def new_frame_decoder_def resolveMaxFrameLength_def
        DEFAULT_MAX_FRAME_LENGTH_def limit_defs)
  define c where "c = \<lparr>cl_maxFrameLength = None, cl_lifecycle = Connecting 1 md (Some 7), cl_sequence = 1,
    cl_state = new_client_state, cl_pending = [], cl_requestSequence = 0, cl_stateListeners = [], cl_disposed = False, cl_log = []\<rparr>"
  then have c: "cl_lifecycle c = Connecting 1 md (Some 7)" by simp
  have "list_all2 (\<lambda>v frame. encodeServerMessage demo_check v None = Inr frame) [demo_request] [[0, 0, 0, 4, 0xA1, 0x61, 0x61, 0xF6]]"
    using encode_any_kind [OF demo_request_encodes] by (simp add: encodeServerMessage_def)
  from client_handles_server_messages [OF md this _ _ c, of "[[0, 0, 0], [4, 0xA1, 0x61], [0x61, 0xF6]]" "\<lambda>_. SM_hello_error ('''', V_null)"]
  obtain md' where "handleChunks demo_check (\<lambda>_. SM_hello_error ('''', V_null)) 1 [[0, 0, 0], [4, 0xA1, 0x61], [0x61, 0xF6]] c =
      with_decoder md' (handleMessages [SM_hello_error ('''', V_null)] c)"
    by (auto simp: demo_request_def simp del: handleChunks.simps handleMessages.simps)
  with md c show ?thesis by blast
qed

section \<open>Unsubscribing twice\<close>

text \<open>
  A second call of an \<open>Unsubscribe\<close> function finds its own, forgotten set empty and removes the session's entry, with the
  listeners that were added since.
\<close>

lemma unsubscribe_twice_drops_others:
  "case addMappedListener s 1 empty_registry of (k, rg) \<Rightarrow>
     case addMappedListener s 2 (unsubscribeMapped s 1 k rg) of (_, rg) \<Rightarrow>
       listeners_of rg s = [2] \<and> listeners_of (unsubscribeMapped s 1 k rg) s = []"
  by (simp add: addMappedListener_def unsubscribeMapped_def listeners_of_def empty_registry_def Let_def)

end
