(* ===== verification/Client_Leases.thy ===== *)
theory Client_Leases
  imports Client_State
begin

text \<open>
  The leases of \<open>PiClient\<close> (\<open>packages/client/src/client.ts\<close>): how many handles share a session, who has it alone, and
  how a lease ends. The promises a lease waits for are operations of their own, in any order: an acquisition that is under
  way succeeds or fails, a detach request is answered or not. A token is a number, the identity of its object.
\<close>

section \<open>The table of leases\<close>

datatype lease_mode = Shared | Exclusive

record lease_table =
  lt_counts :: "session_id \<rightharpoonup> nat"
  lt_exclusive :: "session_id \<rightharpoonup> nat"
  lt_generations :: "session_id \<rightharpoonup> nat"
  lt_cleanup :: "session_id set"

definition lease_count :: "lease_table \<Rightarrow> session_id \<Rightarrow> nat" where
  "lease_count t s = (case lt_counts t s of None \<Rightarrow> 0 | Some n \<Rightarrow> n)"

definition reserveSessionLease :: "session_id \<Rightarrow> lease_mode \<Rightarrow> nat \<Rightarrow> lease_table \<Rightarrow> (session_id \<times> string) + lease_table" where
  "reserveSessionLease s mode token t =
     (if mode = Exclusive \<and> 0 < lease_count t s then Inl (s, ''already has an active lease'')
      else if mode = Shared \<and> lt_exclusive t s \<noteq> None then Inl (s, ''has an exclusive lease'')
      else let t = t\<lparr>lt_counts := (lt_counts t)(s \<mapsto> lease_count t s + 1)\<rparr>
           in Inr (if mode = Exclusive then t\<lparr>lt_exclusive := (lt_exclusive t)(s \<mapsto> token)\<rparr> else t))"

definition releaseSessionLease :: "session_id \<Rightarrow> nat \<Rightarrow> lease_table \<Rightarrow> lease_table" where
  "releaseSessionLease s token t =
     (let n = lease_count t s;
          t = t\<lparr>lt_counts := (lt_counts t)(s := if n \<le> 1 then None else Some (n - 1))\<rparr>
      in if lt_exclusive t s = Some token then t\<lparr>lt_exclusive := (lt_exclusive t)(s := None)\<rparr> else t)"

definition generation :: "lease_table \<Rightarrow> session_id \<Rightarrow> nat" where
  "generation t s = (case lt_generations t s of None \<Rightarrow> 0 | Some g \<Rightarrow> g)"

definition invalidateSessionLeases :: "session_id \<Rightarrow> lease_table \<Rightarrow> lease_table" where
  "invalidateSessionLeases s t =
     \<lparr>lt_counts = (lt_counts t)(s := None), lt_exclusive = (lt_exclusive t)(s := None),
      lt_generations = (lt_generations t)(s \<mapsto> generation t s + 1), lt_cleanup = lt_cleanup t - {s}\<rparr>"

text \<open>The loop over all sessions that have a count.\<close>

definition invalidateAllSessionLeases :: "lease_table \<Rightarrow> lease_table" where
  "invalidateAllSessionLeases t =
     \<lparr>lt_counts = Map.empty, lt_exclusive = (\<lambda>s. if lt_counts t s = None then lt_exclusive t s else None),
      lt_generations = (\<lambda>s. if lt_counts t s = None then lt_generations t s else Some (generation t s + 1)),
      lt_cleanup = {}\<rparr>"

section \<open>Leases\<close>

datatype lease_state = LS_active | LS_releasing | LS_released | LS_invalidated

text \<open>\<open>le_detaching\<close>: a detach request is out, and whether the lease is given up when it fails.\<close>

record lease =
  le_session :: session_id
  le_mode :: lease_mode
  le_generation :: nat
  le_state :: lease_state
  le_detaching :: "bool option"

record lease_world =
  lw_table :: lease_table
  lw_acquiring :: "nat \<rightharpoonup> session_id \<times> lease_mode"
  lw_leases :: "nat \<rightharpoonup> lease"
  lw_next :: nat

definition no_leases :: lease_world where
  "no_leases =
     \<lparr>lw_table = \<lparr>lt_counts = Map.empty, lt_exclusive = Map.empty, lt_generations = Map.empty, lt_cleanup = {}\<rparr>,
      lw_acquiring = Map.empty, lw_leases = Map.empty, lw_next = 0\<rparr>"

definition refreshState :: "lease_table \<Rightarrow> lease \<Rightarrow> lease" where
  "refreshState t l =
     (if (le_state l = LS_active \<or> le_state l = LS_releasing) \<and> lt_generations t (le_session l) \<noteq> Some (le_generation l)
      then l\<lparr>le_state := LS_invalidated\<rparr> else l)"

definition set_lease :: "nat \<Rightarrow> lease \<Rightarrow> lease_world \<Rightarrow> lease_world" where
  "set_lease k l w = w\<lparr>lw_leases := (lw_leases w)(k \<mapsto> l)\<rparr>"

definition set_table :: "lease_table \<Rightarrow> lease_world \<Rightarrow> lease_world" where
  "set_table t w = w\<lparr>lw_table := t\<rparr>"

definition createSessionLease :: "nat \<Rightarrow> session_id \<Rightarrow> lease_mode \<Rightarrow> lease_world \<Rightarrow> lease_world" where
  "createSessionLease k s mode w =
     (let g = generation (lw_table w) s;
          w = set_table ((lw_table w)\<lparr>lt_generations := (lt_generations (lw_table w))(s \<mapsto> g)\<rparr>) w
      in set_lease k \<lparr>le_session = s, le_mode = mode, le_generation = g, le_state = LS_active, le_detaching = None\<rparr> w)"

text \<open>\<open>release\<close>; \<open>usable\<close> is whether the client is connected and the session attached.\<close>

definition begin_release :: "nat \<Rightarrow> bool \<Rightarrow> bool \<Rightarrow> lease_world \<Rightarrow> lease_world" where
  "begin_release k relinquishOnFailure usable w =
     (case lw_leases w k of
        None \<Rightarrow> w
      | Some l \<Rightarrow>
          let l = refreshState (lw_table w) l; w = set_lease k l w
          in if le_state l \<noteq> LS_active \<or> \<not> usable then w
             else if lease_count (lw_table w) (le_session l) \<le> 1
             then set_lease k (l\<lparr>le_state := LS_releasing, le_detaching := Some relinquishOnFailure\<rparr>) w
             else set_table (releaseSessionLease (le_session l) k (lw_table w)) (set_lease k (l\<lparr>le_state := LS_released\<rparr>) w))"

text \<open>The answer to the detach request, and its failure.\<close>

definition detached :: "nat \<Rightarrow> lease_world \<Rightarrow> lease_world" where
  "detached k w =
     (case lw_leases w k of
        Some l \<Rightarrow>
          (if le_detaching l = None then w
           else set_table (releaseSessionLease (le_session l) k (lw_table w))
                  (set_lease k (l\<lparr>le_state := LS_released, le_detaching := None\<rparr>) w))
      | None \<Rightarrow> w)"

definition detach_failed :: "nat \<Rightarrow> lease_world \<Rightarrow> lease_world" where
  "detach_failed k w =
     (case lw_leases w k of
        Some l \<Rightarrow>
          (case le_detaching l of
             None \<Rightarrow> w
           | Some relinquishOnFailure \<Rightarrow>
               let l = refreshState (lw_table w) (l\<lparr>le_detaching := None\<rparr>)
               in if le_state l = LS_invalidated then set_lease k l w
                  else if relinquishOnFailure
                  then let t = releaseSessionLease (le_session l) k (lw_table w)
                       in set_table (t\<lparr>lt_cleanup := insert (le_session l) (lt_cleanup t)\<rparr>)
                            (set_lease k (l\<lparr>le_state := LS_released\<rparr>) w)
                  else set_lease k (l\<lparr>le_state := LS_active\<rparr>) w)
      | None \<Rightarrow> w)"

section \<open>Histories\<close>

datatype lease_op =
    LO_reserve session_id lease_mode
  | LO_acquired nat
  | LO_acquire_failed nat
  | LO_release nat bool bool
  | LO_detached nat
  | LO_detach_failed nat
  | LO_used nat
  | LO_removed session_id
  | LO_disconnected

fun lease_do :: "lease_op \<Rightarrow> lease_world \<Rightarrow> lease_world" where
  "lease_do (LO_reserve s mode) w =
     (case reserveSessionLease s mode (lw_next w) (lw_table w) of
        Inl _ \<Rightarrow> w
      | Inr t \<Rightarrow> (set_table t w)\<lparr>lw_acquiring := (lw_acquiring w)(lw_next w \<mapsto> (s, mode)), lw_next := lw_next w + 1\<rparr>)"
| "lease_do (LO_acquired k) w =
     (case lw_acquiring w k of
        None \<Rightarrow> w
      | Some (s, mode) \<Rightarrow> createSessionLease k s mode (w\<lparr>lw_acquiring := (lw_acquiring w)(k := None)\<rparr>))"
| "lease_do (LO_acquire_failed k) w =
     (case lw_acquiring w k of
        None \<Rightarrow> w
      | Some (s, mode) \<Rightarrow>
          set_table (releaseSessionLease s k (lw_table w)) (w\<lparr>lw_acquiring := (lw_acquiring w)(k := None)\<rparr>))"
| "lease_do (LO_release k relinquishOnFailure usable) w = begin_release k relinquishOnFailure usable w"
| "lease_do (LO_detached k) w = detached k w"
| "lease_do (LO_detach_failed k) w = detach_failed k w"
| "lease_do (LO_used k) w =
     (case lw_leases w k of None \<Rightarrow> w | Some l \<Rightarrow> set_lease k (refreshState (lw_table w) l) w)"
| "lease_do (LO_removed s) w = set_table (invalidateSessionLeases s (lw_table w)) w"
| "lease_do LO_disconnected w = set_table (invalidateAllSessionLeases (lw_table w)) w"

text \<open>A lease that its holder may use.\<close>

definition holding :: "lease_table \<Rightarrow> lease \<Rightarrow> bool" where
  "holding t l \<longleftrightarrow>
     (le_state l = LS_active \<or> le_state l = LS_releasing) \<and> lt_generations t (le_session l) = Some (le_generation l)"

text \<open>Nothing that concerns the session is under way: no acquisition and no detach request.\<close>

definition calm :: "session_id \<Rightarrow> lease_world \<Rightarrow> bool" where
  "calm s w \<longleftrightarrow>
     (\<forall>k m. lw_acquiring w k \<noteq> Some (s, m)) \<and>
     (\<forall>k l. lw_leases w k = Some l \<longrightarrow> le_session l = s \<longrightarrow> le_detaching l = None)"

inductive lease_reach :: "lease_world \<Rightarrow> bool" where
  start: "lease_reach no_leases"
| other: "lease_reach w \<Longrightarrow> \<forall>s. op \<noteq> LO_removed s \<Longrightarrow> op \<noteq> LO_disconnected \<Longrightarrow> lease_reach (lease_do op w)"
| removed: "lease_reach w \<Longrightarrow> calm s w \<Longrightarrow> lease_reach (lease_do (LO_removed s) w)"
| disconnected: "lease_reach w \<Longrightarrow> \<forall>s. calm s w \<Longrightarrow> lease_reach (lease_do LO_disconnected w)"

section \<open>Who holds a session\<close>

text \<open>The mode of every holder: an acquisition under way, or a lease that is held.\<close>

definition holder :: "lease_world \<Rightarrow> session_id \<Rightarrow> nat \<rightharpoonup> lease_mode" where
  "holder w s k =
     (case lw_acquiring w k of
        Some (s', m) \<Rightarrow> (if s' = s then Some m else None)
      | None \<Rightarrow>
          (case lw_leases w k of
             Some l \<Rightarrow> (if le_session l = s \<and> holding (lw_table w) l then Some (le_mode l) else None)
           | None \<Rightarrow> None))"

definition table_matches :: "lease_table \<Rightarrow> session_id \<Rightarrow> (nat \<rightharpoonup> lease_mode) \<Rightarrow> bool" where
  "table_matches t s h \<longleftrightarrow>
     finite (dom h) \<and> lease_count t s = card (dom h) \<and>
     (\<forall>k. lt_exclusive t s = Some k \<longleftrightarrow> h k = Some Exclusive) \<and>
     (\<forall>k. h k = Some Exclusive \<longrightarrow> dom h = {k})"

definition known :: "lease_table \<Rightarrow> lease \<Rightarrow> bool" where
  "known t l \<longleftrightarrow> (\<exists>g. lt_generations t (le_session l) = Some g \<and> le_generation l \<le> g)"

definition leases_ok :: "lease_world \<Rightarrow> bool" where
  "leases_ok w \<longleftrightarrow>
     (\<forall>s. table_matches (lw_table w) s (holder w s)) \<and>
     dom (lw_acquiring w) \<inter> dom (lw_leases w) = {} \<and>
     (\<forall>k \<in> dom (lw_acquiring w) \<union> dom (lw_leases w). k < lw_next w) \<and>
     (\<forall>k l. lw_leases w k = Some l \<and> le_detaching l \<noteq> None \<longrightarrow> holding (lw_table w) l \<and> le_state l = LS_releasing) \<and>
     (\<forall>k l. lw_leases w k = Some l \<longrightarrow> known (lw_table w) l)"

text \<open>The three changes of the table, seen from the holders of a session.\<close>

lemma reserve_matches:
  assumes "table_matches t s h" and "reserveSessionLease s mode k t = Inr t'" and "h k = None"
  shows "table_matches t' s (h(k \<mapsto> mode))"
proof -
  have free: "mode = Exclusive \<Longrightarrow> dom h = {}" "mode = Shared \<Longrightarrow> \<forall>k. h k \<noteq> Some Exclusive"
    using assms(1,2) by (auto simp: table_matches_def reserveSessionLease_def split: if_splits)
  have "lease_count t' s = lease_count t s + 1"
    using assms(2) by (auto simp: reserveSessionLease_def lease_count_def Let_def split: if_splits)
  moreover have "k \<notin> dom h" using assms(3) by auto
  moreover have "lt_exclusive t' s = (if mode = Exclusive then Some k else lt_exclusive t s)"
    using assms(2) by (auto simp: reserveSessionLease_def Let_def split: if_splits)
  ultimately show ?thesis
    using assms(1,3) free by (cases mode) (auto simp: table_matches_def)
qed

lemma release_matches:
  assumes "table_matches t s h" and "h k \<noteq> None"
  shows "table_matches (releaseSessionLease s k t) s (h(k := None))"
proof -
  let ?t = "releaseSessionLease s k t" and ?h = "h(k := None)"
  have ok: "finite (dom h)" "lease_count t s = card (dom h)"
    and ex: "lt_exclusive t s = Some j \<longleftrightarrow> h j = Some Exclusive" and alone: "h j = Some Exclusive \<Longrightarrow> dom h = {j}" for j
    using assms(1) unfolding table_matches_def by blast+
  have "k \<in> dom h" using assms(2) by blast
  with ok(1) have "card (dom ?h) = card (dom h) - 1" by simp
  moreover have "lease_count ?t s = lease_count t s - 1"
    by (simp add: releaseSessionLease_def lease_count_def Let_def)
  moreover have "lt_exclusive ?t s = (if lt_exclusive t s = Some k then None else lt_exclusive t s)"
    by (simp add: releaseSessionLease_def Let_def)
  then have "lt_exclusive ?t s = Some j \<longleftrightarrow> ?h j = Some Exclusive" for j
    using ex [of j] ex [of k] alone [of k]
    by (cases "h k = Some Exclusive") (simp, metis domI singletonD, simp)
  moreover have "?h j \<noteq> Some Exclusive" for j using alone [of j] \<open>k \<in> dom h\<close>
    by (cases "j = k") (simp, metis fun_upd_other singletonD)
  ultimately show ?thesis using ok unfolding table_matches_def by simp
qed

text \<open>A change of the table that concerns one session leaves the others as they are.\<close>

definition same_for :: "session_id \<Rightarrow> lease_table \<Rightarrow> lease_table \<Rightarrow> bool" where
  "same_for s t t' \<longleftrightarrow>
     lt_counts t' s = lt_counts t s \<and> lt_exclusive t' s = lt_exclusive t s \<and> lt_generations t' s = lt_generations t s"

lemma same_matches: "same_for s t t' \<Longrightarrow> table_matches t' s h = table_matches t s h"
  by (simp add: table_matches_def same_for_def lease_count_def)

lemma reserve_same: "reserveSessionLease s mode k t = Inr t' \<Longrightarrow> s' \<noteq> s \<Longrightarrow> same_for s' t t'"
  by (auto simp: reserveSessionLease_def same_for_def Let_def split: if_splits)

lemma release_same: "s' \<noteq> s \<Longrightarrow> same_for s' t (releaseSessionLease s k t)"
  by (auto simp: releaseSessionLease_def same_for_def Let_def)

lemma table_generations:
  "reserveSessionLease s mode k t = Inr t' \<Longrightarrow> lt_generations t' = lt_generations t"
  "lt_generations (releaseSessionLease s k t) = lt_generations t"
  by (auto simp: reserveSessionLease_def releaseSessionLease_def Let_def split: if_splits)

lemma holding_generations: "lt_generations t' = lt_generations t \<Longrightarrow> holding t' l = holding t l"
  by (simp add: holding_def)

text \<open>One rule for every operation: a new table, and a new part of one token.\<close>

lemma leases_okI:
  assumes "\<And>s. table_matches (lw_table w) s (holder w s)"
    and "\<And>k. lw_acquiring w k \<noteq> None \<Longrightarrow> lw_leases w k = None"
    and "\<And>k. lw_acquiring w k \<noteq> None \<or> lw_leases w k \<noteq> None \<Longrightarrow> k < lw_next w"
    and "\<And>k l. lw_leases w k = Some l \<Longrightarrow> le_detaching l \<noteq> None \<Longrightarrow> holding (lw_table w) l \<and> le_state l = LS_releasing"
    and "\<And>k l. lw_leases w k = Some l \<Longrightarrow> known (lw_table w) l"
  shows "leases_ok w"
  using assms by (auto simp: leases_ok_def)

lemma leases_okD:
  assumes "leases_ok w"
  shows "table_matches (lw_table w) s (holder w s)" "lw_acquiring w k \<noteq> None \<Longrightarrow> lw_leases w k = None"
    "lw_acquiring w k \<noteq> None \<or> lw_leases w k \<noteq> None \<Longrightarrow> k < lw_next w"
    "lw_leases w k = Some l \<Longrightarrow> le_detaching l \<noteq> None \<Longrightarrow> holding (lw_table w) l \<and> le_state l = LS_releasing"
    "lw_leases w k = Some l \<Longrightarrow> known (lw_table w) l"
  using assms unfolding leases_ok_def by blast+

lemma holding_refresh [simp]: "holding t (refreshState t l) = holding t l"
  by (auto simp: holding_def refreshState_def)

lemma refresh_simps [simp]:
  "le_session (refreshState t l) = le_session l" "le_mode (refreshState t l) = le_mode l"
  "le_generation (refreshState t l) = le_generation l" "le_detaching (refreshState t l) = le_detaching l"
  by (simp_all add: refreshState_def)

lemma refresh_active: "le_state (refreshState t l) = LS_active \<Longrightarrow> holding t l"
  by (auto simp: refreshState_def holding_def split: if_splits)

text \<open>A lease is replaced by one of the same session and mode that holds it just as well.\<close>

lemma replace_ok:
  assumes "leases_ok w" and "lw_leases w k = Some l"
    and "le_session l' = le_session l" "le_mode l' = le_mode l" "le_generation l' = le_generation l"
    and "holding (lw_table w) l' = holding (lw_table w) l"
    and "le_detaching l' \<noteq> None \<Longrightarrow> holding (lw_table w) l' \<and> le_state l' = LS_releasing"
  shows "leases_ok (set_lease k l' w)"
proof -
  have "holder (set_lease k l' w) s = holder w s" for s
    using assms by (auto simp: holder_def set_lease_def fun_eq_iff split: option.split)
  with assms show ?thesis by (auto simp: leases_ok_def set_lease_def known_def)
qed

text \<open>A holder gives up its lease.\<close>

lemma give_up_ok:
  assumes ok: "leases_ok w" and k: "lw_leases w k = Some l" "holding (lw_table w) l"
    and l': "le_session l' = le_session l" "le_state l' = LS_released" "le_detaching l' = None"
      "le_generation l' = le_generation l"
  shows "leases_ok (set_table (releaseSessionLease (le_session l) k (lw_table w)) (set_lease k l' w))"
    (is "leases_ok ?w")
proof -
  let ?s = "le_session l" and ?t = "releaseSessionLease (le_session l) k (lw_table w)"
  have keep: "holding ?t m = holding (lw_table w) m" for m by (rule holding_generations) (rule table_generations)
  have "k \<in> dom (lw_leases w)" using k(1) by blast
  with ok have idle: "lw_acquiring w k = None" unfolding leases_ok_def by blast
  with k have own: "holder w ?s k \<noteq> None" by (simp add: holder_def)
  have "\<not> holding ?t l'" using l'(2) by (simp add: holding_def)
  then have "holder ?w s k = None" for s
    using idle by (simp add: holder_def set_lease_def set_table_def)
  moreover have "s \<noteq> ?s \<Longrightarrow> holder w s k = None" for s using idle k by (simp add: holder_def)
  moreover have "j \<noteq> k \<Longrightarrow> holder ?w s j = holder w s j" for s j
    by (simp add: holder_def set_lease_def set_table_def keep split: option.split)
  ultimately have token: "holder ?w s j = (if s = ?s \<and> j = k then None else holder w s j)" for s j by metis
  have here: "holder ?w ?s = (holder w ?s)(k := None)" by (rule ext) (simp add: token)
  have there: "s \<noteq> ?s \<Longrightarrow> holder ?w s = holder w s" for s by (rule ext) (simp add: token)
  show ?thesis
  proof (rule leases_okI)
    show "table_matches (lw_table ?w) s (holder ?w s)" for s
    proof (cases "s = ?s")
      case True
      with release_matches [of "lw_table w" ?s "holder w ?s" k] own leases_okD(1) [OF ok] here
      show ?thesis by (simp add: set_table_def)
    next
      case False
      with there same_matches [OF release_same [OF False]] leases_okD(1) [OF ok] show ?thesis by (simp add: set_table_def)
    qed
  qed (use leases_okD [OF ok] k(1) l'(1,3,4) idle in
      \<open>auto simp: set_table_def set_lease_def keep known_def table_generations split: if_splits\<close>)
qed

lemma reserve_ok:
  assumes ok: "leases_ok w" shows "leases_ok (lease_do (LO_reserve s mode) w)"
proof (cases "reserveSessionLease s mode (lw_next w) (lw_table w)")
  case (Inr t)
  let ?k = "lw_next w" and ?w = "lease_do (LO_reserve s mode) w"
  note gens = table_generations(1) [OF Inr]
  have keep: "holding t m = holding (lw_table w) m" for m by (rule holding_generations) (rule gens)
  have fresh: "lw_acquiring w ?k = None" "lw_leases w ?k = None"
    using leases_okD(3) [OF ok, of ?k] by blast+
  have token: "holder ?w s' j = (if s' = s \<and> j = ?k then Some mode else holder w s' j)" for s' j
    using Inr fresh keep by (auto simp: holder_def set_table_def split: option.split)
  have here: "holder ?w s = (holder w s)(?k \<mapsto> mode)" by (rule ext) (simp only: token fun_upd_apply simp_thms)
  have there: "s' \<noteq> s \<Longrightarrow> holder ?w s' = holder w s'" for s' by (rule ext) (simp only: token simp_thms if_False)
  have new: "holder w s ?k = None" using fresh by (simp add: holder_def)
  have table: "lw_table ?w = t" using Inr by (simp add: set_table_def)
  show ?thesis
  proof (rule leases_okI)
    show "table_matches (lw_table ?w) s' (holder ?w s')" for s'
    proof (cases "s' = s")
      case True
      with reserve_matches [OF leases_okD(1) [OF ok] Inr new] here table show ?thesis by simp
    next
      case False
      with there same_matches [OF reserve_same [OF Inr False]] leases_okD(1) [OF ok] table show ?thesis by simp
    qed
  qed (use leases_okD [OF ok] Inr fresh in
      \<open>auto simp: set_table_def keep gens known_def less_SucI split: if_splits\<close>)
qed (use ok in simp)

lemma acquired_ok:
  assumes ok: "leases_ok w" shows "leases_ok (lease_do (LO_acquired k) w)"
proof (cases "lw_acquiring w k")
  case (Some p)
  obtain s mode where p: "lw_acquiring w k = Some (s, mode)" using Some by (cases p) auto
  let ?w = "lease_do (LO_acquired k) w"
  let ?l = "\<lparr>le_session = s, le_mode = mode, le_generation = generation (lw_table w) s, le_state = LS_active, le_detaching = None\<rparr>"
  have none: "lw_leases w k = None" using leases_okD(2) [OF ok] p by blast
  have same: "lt_counts (lw_table ?w) = lt_counts (lw_table w)" "lt_exclusive (lw_table ?w) = lt_exclusive (lw_table w)"
    and gens: "lt_generations (lw_table ?w) = (lt_generations (lw_table w))(s \<mapsto> generation (lw_table w) s)"
    and leases: "lw_leases ?w = (lw_leases w)(k \<mapsto> ?l)"
    and acquiring: "lw_acquiring ?w = (lw_acquiring w)(k := None)" and nxt: "lw_next ?w = lw_next w"
    using p by (simp_all add: createSessionLease_def Let_def set_table_def set_lease_def del: fun_upd_apply)
  have same_gens: "lt_generations (lw_table w) s' \<noteq> None \<Longrightarrow> lt_generations (lw_table ?w) s' = lt_generations (lw_table w) s'" for s'
    unfolding gens by (auto simp: generation_def)
  have keep: "lw_leases w j = Some m \<Longrightarrow> holding (lw_table ?w) m = holding (lw_table w) m" for j m
    using same_gens leases_okD(5) [OF ok] by (fastforce simp: holding_def known_def)
  have "holding (lw_table ?w) ?l" unfolding holding_def gens by simp
  then have token: "holder ?w s' j = holder w s' j" for s' j
    unfolding holder_def leases acquiring using p none keep by (auto split: option.split)
  have same_table: "table_matches (lw_table ?w) s' h = table_matches (lw_table w) s' h" for s' h
    by (simp only: table_matches_def lease_count_def same)
  show ?thesis
  proof (rule leases_okI)
    show "table_matches (lw_table ?w) s' (holder ?w s')" for s'
    proof -
      have "holder ?w s' = holder w s'" by (rule ext) (rule token)
      with leases_okD(1) [OF ok] same_table show ?thesis by simp
    qed
    fix j m
    show "lw_acquiring ?w j \<noteq> None \<Longrightarrow> lw_leases ?w j = None"
      unfolding leases acquiring using leases_okD(2) [OF ok, of j] by (auto split: if_splits)
    show "lw_acquiring ?w j \<noteq> None \<or> lw_leases ?w j \<noteq> None \<Longrightarrow> j < lw_next ?w"
      unfolding leases acquiring nxt using leases_okD(3) [OF ok, of j] p by (auto split: if_splits)
    show "lw_leases ?w j = Some m \<Longrightarrow> le_detaching m \<noteq> None \<Longrightarrow> holding (lw_table ?w) m \<and> le_state m = LS_releasing"
      using keep leases_okD(4) [OF ok] unfolding leases by (auto split: if_splits)
    show "lw_leases ?w j = Some m \<Longrightarrow> known (lw_table ?w) m"
    proof (cases "j = k")
      case True
      assume "lw_leases ?w j = Some m"
      with True have "m = ?l" unfolding leases by simp
      then show ?thesis unfolding known_def gens by simp
    next
      case False
      assume "lw_leases ?w j = Some m"
      with False have "known (lw_table w) m" unfolding leases using leases_okD(5) [OF ok] by simp
      then show ?thesis using same_gens [of "le_session m"] by (auto simp: known_def simp del: lease_do.simps)
    qed
  qed
qed (use ok in simp)

lemma acquire_failed_ok:
  assumes ok: "leases_ok w" shows "leases_ok (lease_do (LO_acquire_failed k) w)"
proof (cases "lw_acquiring w k")
  case (Some p)
  obtain s mode where p: "lw_acquiring w k = Some (s, mode)" using Some by (cases p) auto
  let ?w = "lease_do (LO_acquire_failed k) w" and ?t = "releaseSessionLease s k (lw_table w)"
  have none: "lw_leases w k = None" using leases_okD(2) [OF ok] p by blast
  have w: "lw_table ?w = ?t" "lw_leases ?w = lw_leases w" "lw_acquiring ?w = (lw_acquiring w)(k := None)" "lw_next ?w = lw_next w"
    using p by (simp_all add: set_table_def)
  have keep: "holding ?t m = holding (lw_table w) m" for m by (rule holding_generations) (rule table_generations)
  have token: "holder ?w s' j = (if s' = s \<and> j = k then None else holder w s' j)" for s' j
    unfolding holder_def w using p none keep by (auto split: option.split)
  have here: "holder ?w s = (holder w s)(k := None)" by (rule ext) (simp only: token fun_upd_apply simp_thms)
  have there: "s' \<noteq> s \<Longrightarrow> holder ?w s' = holder w s'" for s' by (rule ext) (simp only: token simp_thms if_False)
  have own: "holder w s k \<noteq> None" using p by (simp add: holder_def)
  show ?thesis
  proof (rule leases_okI)
    show "table_matches (lw_table ?w) s' (holder ?w s')" for s'
    proof (cases "s' = s")
      case True
      with release_matches [of "lw_table w" s "holder w s" k] own leases_okD(1) [OF ok] here w(1) show ?thesis by simp
    next
      case False
      with there same_matches [OF release_same [OF False]] leases_okD(1) [OF ok] w(1) show ?thesis by simp
    qed
  qed (use leases_okD [OF ok] keep in \<open>auto simp: w table_generations known_def simp del: lease_do.simps split: if_splits\<close>)
qed (use ok in simp)

lemma refreshed_ok: "leases_ok w \<Longrightarrow> lw_leases w k = Some l \<Longrightarrow> leases_ok (set_lease k (refreshState (lw_table w) l) w)"
proof (rule replace_ok)
  assume "leases_ok w" "lw_leases w k = Some l" "le_detaching (refreshState (lw_table w) l) \<noteq> None"
  with leases_okD(4) [of w k l] have "holding (lw_table w) l" "le_state l = LS_releasing" by auto
  then have "refreshState (lw_table w) l = l" by (simp add: refreshState_def holding_def)
  with \<open>holding (lw_table w) l\<close> \<open>le_state l = LS_releasing\<close>
  show "holding (lw_table w) (refreshState (lw_table w) l) \<and> le_state (refreshState (lw_table w) l) = LS_releasing" by simp
qed simp_all

lemma begin_release_ok:
  assumes ok: "leases_ok w" shows "leases_ok (begin_release k relinquish usable w)"
proof (cases "lw_leases w k")
  case (Some l)
  let ?l = "refreshState (lw_table w) l"
  let ?w = "set_lease k ?l w"
  have ok': "leases_ok ?w" by (rule refreshed_ok [OF ok Some])
  have found: "lw_leases ?w k = Some ?l" and table: "lw_table ?w = lw_table w" by (simp_all add: set_lease_def)
  show ?thesis
  proof (cases "le_state ?l = LS_active \<and> usable")
    case True
    then have holds: "holding (lw_table w) ?l" using refresh_active [of "lw_table w" l] by simp
    have idle: "le_detaching ?l = None"
      using leases_okD(4) [OF ok' found] True by (cases "le_detaching ?l") auto
    have "leases_ok (set_lease k (?l\<lparr>le_state := LS_releasing, le_detaching := Some relinquish\<rparr>) ?w)"
      by (rule replace_ok [OF ok' found]) (use holds in \<open>simp_all add: holding_def set_lease_def\<close>)
    moreover have "leases_ok (set_table (releaseSessionLease (le_session ?l) k (lw_table ?w)) (set_lease k (?l\<lparr>le_state := LS_released\<rparr>) ?w))"
      by (rule give_up_ok [OF ok' found]) (use holds idle table in simp_all)
    ultimately show ?thesis using True Some by (simp add: begin_release_def Let_def table)
  qed (use ok' Some in \<open>auto simp: begin_release_def Let_def\<close>)
qed (use ok in \<open>simp add: begin_release_def\<close>)

lemma detached_ok: "leases_ok w \<Longrightarrow> leases_ok (detached k w)"
  using leases_okD(4) [of w k] give_up_ok [of w k] by (auto simp: detached_def split: option.split)

lemma cleanup_ok: "leases_ok (set_table (t\<lparr>lt_cleanup := c\<rparr>) w) \<longleftrightarrow> leases_ok (set_table t w)"
proof -
  have "holding (t\<lparr>lt_cleanup := c\<rparr>) = holding t" by (rule ext) (simp add: holding_def)
  then have "holder (set_table (t\<lparr>lt_cleanup := c\<rparr>) w) = holder (set_table t w)" by (simp add: holder_def fun_eq_iff set_table_def split: option.split)
  moreover have "table_matches (t\<lparr>lt_cleanup := c\<rparr>) = table_matches t" by (simp add: fun_eq_iff table_matches_def lease_count_def)
  moreover note \<open>holding (t\<lparr>lt_cleanup := c\<rparr>) = holding t\<close>
  ultimately show ?thesis by (simp add: leases_ok_def set_table_def known_def)
qed

lemma detach_failed_ok: "leases_ok w \<Longrightarrow> leases_ok (detach_failed k w)"
proof (cases "lw_leases w k")
  case (Some l)
  assume ok: "leases_ok w"
  show ?thesis
  proof (cases "le_detaching l")
    case out: (Some relinquish)
    let ?l = "refreshState (lw_table w) (l\<lparr>le_detaching := None\<rparr>)"
    have holds: "holding (lw_table w) l" using leases_okD(4) [OF ok Some] out by simp
    then have same: "?l = l\<lparr>le_detaching := None\<rparr>" by (simp add: refreshState_def holding_def)
    have alive: "le_state l \<noteq> LS_invalidated" using holds by (auto simp: holding_def)
    have "leases_ok (set_table (releaseSessionLease (le_session l) k (lw_table w))
        (set_lease k (l\<lparr>le_detaching := None, le_state := LS_released\<rparr>) w))"
      by (rule give_up_ok [OF ok Some holds]) simp_all
    moreover have "leases_ok (set_lease k (l\<lparr>le_detaching := None, le_state := LS_active\<rparr>) w)"
      by (rule replace_ok [OF ok Some]) (use holds in \<open>simp_all add: holding_def\<close>)
    ultimately show ?thesis
      using Some out alive by (simp add: detach_failed_def Let_def same cleanup_ok)
  qed (use ok Some in \<open>simp add: detach_failed_def\<close>)
qed (simp add: detach_failed_def)

text \<open>In a calm session an invalidation leaves no holder.\<close>

lemma invalidate_ok:
  assumes ok: "leases_ok w" and calm: "\<And>s. s \<in> S \<Longrightarrow> calm s w"
    and t: "\<And>s. s \<in> S \<Longrightarrow> lt_counts t s = None \<and> lt_exclusive t s = None \<and>
        lt_generations t s = Some (generation (lw_table w) s + 1)"
      "\<And>s. s \<notin> S \<Longrightarrow> same_for s (lw_table w) t"
  shows "leases_ok (set_table t w)"
proof -
  let ?w = "set_table t w"
  have parts: "lw_leases ?w = lw_leases w" "lw_acquiring ?w = lw_acquiring w" "lw_next ?w = lw_next w" "lw_table ?w = t"
    by (simp_all add: set_table_def)
  have stale: "\<not> holding t l" if "le_session l \<in> S" "lw_leases w k = Some l" for k l
    using leases_okD(5) [OF ok that(2)] t(1) [OF that(1)] by (auto simp: holding_def known_def generation_def)
  have same: "holding t l = holding (lw_table w) l" if "le_session l \<notin> S" for l
    using t(2) [OF that] by (simp add: holding_def same_for_def)
  show ?thesis
  proof (rule leases_okI)
    show "table_matches (lw_table ?w) s (holder ?w s)" for s
    proof (cases "s \<in> S")
      case True
      then have "holder ?w s k = None" for k
        using calm [OF True] stale by (auto simp: holder_def parts calm_def split: option.split)
      then have "holder ?w s = Map.empty" by (rule ext)
      with t(1) [OF True] show ?thesis by (simp add: parts table_matches_def lease_count_def)
    next
      case False
      then have "holder ?w s k = holder w s k" for k by (auto simp: holder_def parts same split: option.split)
      then have "holder ?w s = holder w s" by (rule ext)
      with same_matches [OF t(2) [OF False]] leases_okD(1) [OF ok] show ?thesis by (simp add: parts)
    qed
    fix k l
    show "lw_leases ?w k = Some l \<Longrightarrow> le_detaching l \<noteq> None \<Longrightarrow> holding (lw_table ?w) l \<and> le_state l = LS_releasing"
      using leases_okD(4) [OF ok, of k l] calm [of "le_session l"] same [of l]
      by (cases "le_session l \<in> S") (auto simp: parts calm_def)
    show "lw_leases ?w k = Some l \<Longrightarrow> known (lw_table ?w) l"
      using leases_okD(5) [OF ok, of k l] t [of "le_session l"]
      by (cases "le_session l \<in> S") (auto simp: parts known_def generation_def same_for_def)
  qed (use leases_okD [OF ok] in \<open>auto simp: parts\<close>)
qed

lemma removed_ok: "leases_ok w \<Longrightarrow> calm s w \<Longrightarrow> leases_ok (lease_do (LO_removed s) w)"
  using invalidate_ok [of w "{s}"] by (simp add: invalidateSessionLeases_def same_for_def)

lemma disconnected_ok: "leases_ok w \<Longrightarrow> \<forall>s. calm s w \<Longrightarrow> leases_ok (lease_do LO_disconnected w)"
  unfolding lease_do.simps
  by (rule invalidate_ok [of w "{s. lt_counts (lw_table w) s \<noteq> None}"])
    (auto simp: invalidateAllSessionLeases_def same_for_def)

lemma used_ok: "leases_ok w \<Longrightarrow> leases_ok (lease_do (LO_used k) w)"
  by (simp add: refreshed_ok split: option.split)

lemma reach_ok: "lease_reach w \<Longrightarrow> leases_ok w"
proof (induction rule: lease_reach.induct)
  case start
  show ?case by (auto simp: leases_ok_def no_leases_def table_matches_def holder_def lease_count_def dom_def)
next
  case (other w op)
  then show ?case
    by (cases op) (auto simp only: reserve_ok acquired_ok acquire_failed_ok used_ok lease_do.simps(4-6)
        begin_release_ok detached_ok detach_failed_ok)
next
  case (removed w s)
  then show ?case by (blast intro: removed_ok)
next
  case (disconnected w)
  then show ?case by (blast intro: disconnected_ok)
qed

section \<open>Exclusive leases\<close>


definition lease_history :: "lease_op list \<Rightarrow> lease_world" where
  "lease_history ops = foldl (\<lambda>w op. lease_do op w) no_leases ops"


text \<open>
  When a session is removed while a detach request for it is out, its answer takes the count of whoever acquired
  the session since: an exclusive lease is then granted beside one that is held.
\<close>

lemma removal_during_detach:
  "let w = lease_history
       [LO_reserve s Shared, LO_acquired 0, LO_release 0 False True, LO_removed s,
        LO_reserve s Shared, LO_detached 0, LO_acquired 1, LO_reserve s Exclusive, LO_acquired 2]
   in \<exists>l m. lw_leases w 1 = Some l \<and> lw_leases w 2 = Some m \<and> holding (lw_table w) l \<and> holding (lw_table w) m \<and>
        le_session l = s \<and> le_session m = s \<and> le_mode m = Exclusive"
  by (simp add: lease_history_def no_leases_def reserveSessionLease_def lease_count_def createSessionLease_def set_table_def
      set_lease_def generation_def holding_def begin_release_def refreshState_def releaseSessionLease_def
      invalidateSessionLeases_def detached_def Let_def)

end
