(* ===== verification/Live_Sessions.thy ===== *)
theory Live_Sessions
  imports Client_State
begin

text \<open>
  The server's sessions, \<open>LiveSessionManager\<close> of \<open>packages/server/src/sessions.ts\<close>: how runtimes are opened for the
  first connection that attaches, shared, and disposed behind the last. A method runs from one \<open>await\<close> to the next in one
  step; a command that attaches is a task, and everything that is awaited (a runtime that opens, a disposal) is a step of
  its own, in any order. A runtime and its \<open>LiveSession\<close> are one object with a number.
\<close>

section \<open>State\<close>

type_synonym connection = nat

record live_session =
  lv_id :: session_id
  lv_connections :: "connection set"
  lv_operationCount :: nat
  lv_terminal :: bool
  lv_idle :: bool                 \<comment> \<open>the phase of the runtime is \<open>idle\<close>\<close>
  lv_disposing :: bool            \<comment> \<open>the promise \<open>disposing\<close> is set\<close>
  lv_disposed :: bool             \<comment> \<open>it is settled\<close>

datatype opening_state = Opening_pending | Opened nat | Opening_failed

datatype attach_task =
    Wait_disposal connection session_id nat
  | Wait_opening connection session_id nat bool       \<comment> \<open>the flag: this task has started the opening\<close>
  | Attach connection nat
  | Attached
  | Attach_failed

record manager =
  mg_liveSessions :: "session_id \<rightharpoonup> nat"
  mg_openingSessions :: "session_id \<rightharpoonup> nat"
  mg_lives :: "nat \<rightharpoonup> live_session"
  mg_openings :: "nat \<rightharpoonup> session_id \<times> opening_state"
  mg_tasks :: "nat \<rightharpoonup> attach_task"
  mg_sessionIds :: "connection \<Rightarrow> session_id set"
  mg_disconnected :: "connection set"
  mg_next :: nat

definition new_manager :: manager where
  "new_manager =
     \<lparr>mg_liveSessions = Map.empty, mg_openingSessions = Map.empty, mg_lives = Map.empty, mg_openings = Map.empty,
      mg_tasks = Map.empty, mg_sessionIds = (\<lambda>_. {}), mg_disconnected = {}, mg_next = 0\<rparr>"

definition set_live :: "nat \<Rightarrow> live_session \<Rightarrow> manager \<Rightarrow> manager" where
  "set_live r l m = m\<lparr>mg_lives := (mg_lives m)(r \<mapsto> l)\<rparr>"

definition set_task :: "nat \<Rightarrow> attach_task \<Rightarrow> manager \<Rightarrow> manager" where
  "set_task k t m = m\<lparr>mg_tasks := (mg_tasks m)(k \<mapsto> t)\<rparr>"

section \<open>Disposal\<close>

text \<open>A live session is ready as soon as it is there: nothing is awaited in between.\<close>

definition disposable :: "live_session \<Rightarrow> bool" where
  "disposable l \<longleftrightarrow>
     \<not> lv_disposing l \<and> lv_connections l = {} \<and> lv_operationCount l = 0 \<and> (lv_terminal l \<or> lv_idle l)"

definition maybeDispose :: "nat \<Rightarrow> manager \<Rightarrow> manager" where
  "maybeDispose r m =
     (case mg_lives m r of
        None \<Rightarrow> m
      | Some l \<Rightarrow> if disposable l then set_live r (l\<lparr>lv_disposing := True\<rparr>) m else m)"

text \<open>The runtime's \<open>dispose\<close> has returned or thrown.\<close>

definition disposal_settled :: "nat \<Rightarrow> manager \<Rightarrow> manager" where
  "disposal_settled r m =
     (case mg_lives m r of
        None \<Rightarrow> m
      | Some l \<Rightarrow>
          if \<not> lv_disposing l \<or> lv_disposed l then m
          else let m = set_live r (l\<lparr>lv_disposed := True\<rparr>) m
               in if mg_liveSessions m (lv_id l) = Some r
                  then m\<lparr>mg_liveSessions := (mg_liveSessions m)(lv_id l := None)\<rparr> else m)"

section \<open>Attaching\<close>

text \<open>One round of the loop of \<open>acquire\<close>, up to its next \<open>await\<close>.\<close>

definition acquire :: "nat \<Rightarrow> connection \<Rightarrow> session_id \<Rightarrow> manager \<Rightarrow> manager" where
  "acquire k c i m =
     (case mg_liveSessions m i of
        Some r \<Rightarrow>
          (case mg_lives m r of
             None \<Rightarrow> m
           | Some l \<Rightarrow>
               if lv_terminal l then set_task k Attach_failed m
               else if lv_disposing l then set_task k (Wait_disposal c i r) m
               else set_task k (Attach c r) m)
      | None \<Rightarrow>
          (case mg_openingSessions m i of
             Some n \<Rightarrow> set_task k (Wait_opening c i n False) m
           | None \<Rightarrow>
               let n = mg_next m
               in set_task k (Wait_opening c i n True)
                    (m\<lparr>mg_openings := (mg_openings m)(n \<mapsto> (i, Opening_pending)),
                       mg_openingSessions := (mg_openingSessions m)(i \<mapsto> n), mg_next := n + 1\<rparr>)))"

text \<open>
  \<open>create\<close> once the service has opened a runtime with the right id, or has failed, after the disposal of a
  wrong one.
\<close>

definition runtime_opened :: "nat \<Rightarrow> bool \<Rightarrow> manager \<Rightarrow> manager" where
  "runtime_opened n idle m =
     (case mg_openings m n of
        Some (i, Opening_pending) \<Rightarrow>
          let r = mg_next m
          in m\<lparr>mg_lives := (mg_lives m)(r \<mapsto> \<lparr>lv_id = i, lv_connections = {}, lv_operationCount = 0, lv_terminal = False,
                   lv_idle = idle, lv_disposing = False, lv_disposed = False\<rparr>),
               mg_liveSessions := (mg_liveSessions m)(i \<mapsto> r),
               mg_openings := (mg_openings m)(n \<mapsto> (i, Opened r)), mg_next := r + 1\<rparr>
      | _ \<Rightarrow> m)"

definition runtime_failed :: "nat \<Rightarrow> manager \<Rightarrow> manager" where
  "runtime_failed n m =
     (case mg_openings m n of
        Some (i, Opening_pending) \<Rightarrow> m\<lparr>mg_openings := (mg_openings m)(n \<mapsto> (i, Opening_failed))\<rparr>
      | _ \<Rightarrow> m)"

text \<open>The \<open>finally\<close> of the task that started the opening.\<close>

definition opening_over :: "bool \<Rightarrow> session_id \<Rightarrow> nat \<Rightarrow> manager \<Rightarrow> manager" where
  "opening_over own i n m =
     (if own \<and> mg_openingSessions m i = Some n
      then m\<lparr>mg_openingSessions := (mg_openingSessions m)(i := None)\<rparr> else m)"

definition attach :: "nat \<Rightarrow> connection \<Rightarrow> nat \<Rightarrow> manager \<Rightarrow> manager" where
  "attach k c r m =
     (if c \<in> mg_disconnected m then set_task k Attach_failed (maybeDispose r m)
      else case mg_lives m r of
          None \<Rightarrow> m
        | Some l \<Rightarrow>
            set_task k Attached (set_live r (l\<lparr>lv_connections := insert c (lv_connections l)\<rparr>)
              (m\<lparr>mg_sessionIds := (mg_sessionIds m)(c := insert (lv_id l) (mg_sessionIds m c))\<rparr>)))"

text \<open>A task goes on when what it awaits is settled; \<open>thrown\<close>: the awaited disposal has thrown.\<close>

definition resume :: "nat \<Rightarrow> bool \<Rightarrow> manager \<Rightarrow> manager" where
  "resume k thrown m =
     (case mg_tasks m k of
        Some (Wait_disposal c i r) \<Rightarrow>
          (case mg_lives m r of
             Some l \<Rightarrow> if \<not> lv_disposed l then m else if thrown then set_task k Attach_failed m else acquire k c i m
           | None \<Rightarrow> m)
      | Some (Wait_opening c i n own) \<Rightarrow>
          (case mg_openings m n of
             Some (_, Opened r) \<Rightarrow> set_task k (Attach c r) (opening_over own i n m)
           | Some (_, Opening_failed) \<Rightarrow> set_task k Attach_failed (opening_over own i n m)
           | _ \<Rightarrow> m)
      | Some (Attach c r) \<Rightarrow> attach k c r m
      | _ \<Rightarrow> m)"

definition attach_command :: "connection \<Rightarrow> session_id \<Rightarrow> manager \<Rightarrow> manager" where
  "attach_command c i m = acquire (mg_next m) c i (m\<lparr>mg_next := mg_next m + 1\<rparr>)"

section \<open>Commands and events\<close>

definition leave :: "connection \<Rightarrow> nat \<Rightarrow> manager \<Rightarrow> manager" where
  "leave c r m =
     (case mg_lives m r of
        None \<Rightarrow> m
      | Some l \<Rightarrow> set_live r (l\<lparr>lv_connections := lv_connections l - {c}\<rparr>) m)"

text \<open>
  \<open>detach\<close>: with connections left a snapshot is broadcast first, and the disposal is tried later.
\<close>

definition detach_command :: "connection \<Rightarrow> session_id \<Rightarrow> manager \<Rightarrow> manager" where
  "detach_command c i m =
     (if i \<notin> mg_sessionIds m c then m
      else let m = m\<lparr>mg_sessionIds := (mg_sessionIds m)(c := mg_sessionIds m c - {i})\<rparr>
           in (case mg_liveSessions m i of
                 None \<Rightarrow> m
               | Some r \<Rightarrow>
                   let m = leave c r m
                   in (case mg_lives m r of
                         None \<Rightarrow> m
                       | Some l \<Rightarrow>
                           if lv_connections l \<noteq> {} \<and> \<not> lv_terminal l \<and> \<not> lv_disposing l then m
                           else maybeDispose r m)))"

definition requireAttached :: "connection \<Rightarrow> session_id \<Rightarrow> manager \<Rightarrow> nat option" where
  "requireAttached c i m =
     (if i \<notin> mg_sessionIds m c then None
      else case mg_liveSessions m i of
          None \<Rightarrow> None
        | Some r \<Rightarrow>
            (case mg_lives m r of
               None \<Rightarrow> None
             | Some l \<Rightarrow> if lv_terminal l \<or> lv_disposing l then None else Some r))"

text \<open>\<open>runOperation\<close> up to the operation of the runtime, and its \<open>finally\<close>.\<close>

definition begin_operation :: "connection \<Rightarrow> session_id \<Rightarrow> manager \<Rightarrow> manager" where
  "begin_operation c i m =
     (case requireAttached c i m of
        None \<Rightarrow> m
      | Some r \<Rightarrow>
          (case mg_lives m r of
             None \<Rightarrow> m
           | Some l \<Rightarrow> set_live r (l\<lparr>lv_operationCount := lv_operationCount l + 1\<rparr>) m))"

definition end_operation :: "nat \<Rightarrow> manager \<Rightarrow> manager" where
  "end_operation r m =
     (case mg_lives m r of
        None \<Rightarrow> m
      | Some l \<Rightarrow>
          if lv_operationCount l = 0 then m
          else maybeDispose r (set_live r (l\<lparr>lv_operationCount := lv_operationCount l - 1\<rparr>) m))"

text \<open>An error event of the runtime: \<open>terminate\<close> until it waits for the connections to close.\<close>

definition terminate :: "nat \<Rightarrow> manager \<Rightarrow> manager" where
  "terminate r m =
     (case mg_lives m r of
        None \<Rightarrow> m
      | Some l \<Rightarrow> set_live r (l\<lparr>lv_terminal := True\<rparr>) m)"

text \<open>The runtime changes its phase, and the event that says so tries the disposal.\<close>

definition phase_changed :: "nat \<Rightarrow> bool \<Rightarrow> manager \<Rightarrow> manager" where
  "phase_changed r idle m =
     (case mg_lives m r of
        None \<Rightarrow> m
      | Some l \<Rightarrow> maybeDispose r (set_live r (l\<lparr>lv_idle := idle\<rparr>) m))"

text \<open>\<open>disconnect\<close>, with the sessions of the connection in any order.\<close>

definition disconnect_command :: "connection \<Rightarrow> nat list \<Rightarrow> manager \<Rightarrow> manager" where
  "disconnect_command c rs m =
     (let m = m\<lparr>mg_disconnected := insert c (mg_disconnected m), mg_sessionIds := (mg_sessionIds m)(c := {})\<rparr>
      in fold maybeDispose rs (fold (leave c) rs m))"

definition sessions_of :: "connection \<Rightarrow> manager \<Rightarrow> nat set" where
  "sessions_of c m = {r. \<exists>i \<in> mg_sessionIds m c. mg_liveSessions m i = Some r}"

section \<open>Histories\<close>

text \<open>
  Everything that can happen while the server is not closing, in any order. \<open>retry_disposal\<close> is a \<open>maybeDispose\<close> that comes
  after an \<open>await\<close>: behind a broadcast, a terminated session or a closed connection.
\<close>

inductive manager_step :: "manager \<Rightarrow> manager \<Rightarrow> bool" where
  attach: "manager_step m (attach_command c i m)"
| resume: "manager_step m (resume k thrown m)"
| opened: "manager_step m (runtime_opened n idle m)"
| failed: "manager_step m (runtime_failed n m)"
| detach: "manager_step m (detach_command c i m)"
| begin_op: "manager_step m (begin_operation c i m)"
| end_op: "manager_step m (end_operation r m)"
| runtime_error: "manager_step m (terminate r m)"
| phase: "manager_step m (phase_changed r idle m)"
| retry_disposal: "manager_step m (maybeDispose r m)"
| settled: "manager_step m (disposal_settled r m)"
| gone: "set rs = sessions_of c m \<Longrightarrow> manager_step m (disconnect_command c rs m)"

inductive manager_reach :: "manager \<Rightarrow> bool" where
  start: "manager_reach new_manager"
| step: "manager_reach m \<Longrightarrow> manager_step m m' \<Longrightarrow> manager_reach m'"

section \<open>Invariant\<close>

definition lives_ok :: "manager \<Rightarrow> bool" where
  "lives_ok m \<longleftrightarrow>
     (\<forall>r l. mg_lives m r = Some l \<longrightarrow>
        (\<not> lv_disposed l \<longrightarrow> mg_liveSessions m (lv_id l) = Some r) \<and>
        (lv_disposed l \<longrightarrow> lv_disposing l) \<and>
        (lv_disposing l \<longrightarrow> lv_operationCount l = 0))"

definition openings_ok :: "manager \<Rightarrow> bool" where
  "openings_ok m \<longleftrightarrow>
     (\<forall>n i. mg_openings m n = Some (i, Opening_pending) \<longrightarrow> mg_openingSessions m i = Some n \<and> mg_liveSessions m i = None) \<and>
     (\<forall>r. mg_lives m r \<noteq> None \<longrightarrow> r < mg_next m) \<and> (\<forall>n. mg_openings m n \<noteq> None \<longrightarrow> n < mg_next m)"

definition manager_ok :: "manager \<Rightarrow> bool" where
  "manager_ok m \<longleftrightarrow> lives_ok m \<and> openings_ok m"

lemmas manager_defs = manager_ok_def lives_ok_def openings_ok_def

lemma pendingD:
  "manager_ok m \<Longrightarrow> mg_openings m n = Some (i, Opening_pending) \<Longrightarrow> mg_openingSessions m i = Some n \<and> mg_liveSessions m i = None"
  by (simp add: manager_defs)

lemma undisposedD:
  "manager_ok m \<Longrightarrow> mg_lives m r = Some l \<Longrightarrow> \<not> lv_disposed l \<Longrightarrow> mg_liveSessions m (lv_id l) = Some r"
  by (simp add: manager_defs)

text \<open>A step that changes one live session in place.\<close>

lemma set_live_ok:
  assumes "manager_ok m" and "mg_lives m r = Some l"
    and "lv_id l' = lv_id l" "lv_disposed l' = lv_disposed l" "lv_disposing l \<longrightarrow> lv_disposing l'"
    and "lv_disposing l' \<Longrightarrow> lv_operationCount l' = 0"
  shows "manager_ok (set_live r l' m)"
  using assms by (auto simp: manager_defs set_live_def)

lemma manager_ok_update:
  "manager_ok (m\<lparr>mg_tasks := ts\<rparr>) \<longleftrightarrow> manager_ok m" "manager_ok (m\<lparr>mg_sessionIds := f\<rparr>) \<longleftrightarrow> manager_ok m"
  "manager_ok (m\<lparr>mg_disconnected := d\<rparr>) \<longleftrightarrow> manager_ok m" "manager_ok (set_task k t m) \<longleftrightarrow> manager_ok m"
  by (simp_all add: manager_defs set_task_def)

lemma operations_zero: "manager_ok m \<Longrightarrow> mg_lives m r = Some l \<Longrightarrow> lv_disposing l \<Longrightarrow> lv_operationCount l = 0"
  by (simp add: manager_defs)

lemma maybeDispose_ok: "manager_ok m \<Longrightarrow> manager_ok (maybeDispose r m)"
  by (auto simp: maybeDispose_def disposable_def intro: set_live_ok split: option.split)

lemma next_ok: "manager_ok m \<Longrightarrow> manager_ok (m\<lparr>mg_next := Suc (mg_next m)\<rparr>)"
  by (auto simp: manager_defs less_SucI)

lemma acquire_ok: "manager_ok m \<Longrightarrow> manager_ok (acquire k c i m)"
proof -
  assume ok: "manager_ok m"
  show ?thesis
  proof (cases "mg_liveSessions m i = None \<and> mg_openingSessions m i = None")
    case True
    let ?n = "mg_next m"
    let ?m = "m\<lparr>mg_openings := (mg_openings m)(?n \<mapsto> (i, Opening_pending)),
       mg_openingSessions := (mg_openingSessions m)(i \<mapsto> ?n), mg_next := ?n + 1\<rparr>"
    have "j \<noteq> i" if "mg_openings m n = Some (j, Opening_pending)" for n j
      using ok that True by (auto simp: manager_defs)
    then have "manager_ok ?m" using ok True by (auto simp: manager_defs less_SucI)
    with True show ?thesis by (simp add: acquire_def Let_def manager_ok_update)
  next
    case False
    with ok show ?thesis
      by (cases "mg_liveSessions m i") (auto simp: acquire_def manager_ok_update split: option.split)
  qed
qed

lemma opening_over_ok:
  assumes "manager_ok m" and "mg_openings m n = Some (j, s)" "s \<noteq> Opening_pending"
  shows "manager_ok (opening_over own i n m)"
  using assms by (auto simp: opening_over_def manager_defs)

lemma attach_ok: "manager_ok m \<Longrightarrow> manager_ok (attach k c r m)"
proof -
  assume ok: "manager_ok m"
  have "manager_ok (set_live r (l\<lparr>lv_connections := cs\<rparr>) (m\<lparr>mg_sessionIds := f\<rparr>))" if "mg_lives m r = Some l" for l cs f
    by (rule set_live_ok [where l = l]) (use ok that in \<open>auto simp: manager_ok_update operations_zero\<close>)
  with ok show ?thesis by (simp add: attach_def manager_ok_update maybeDispose_ok split: option.split)
qed

lemma resume_ok: "manager_ok m \<Longrightarrow> manager_ok (resume k thrown m)"
  by (auto simp: resume_def manager_ok_update acquire_ok attach_ok intro: opening_over_ok
      split: option.split attach_task.split opening_state.split prod.split)

lemma runtime_opened_ok: "manager_ok m \<Longrightarrow> manager_ok (runtime_opened n idle m)"
proof (cases "\<exists>i. mg_openings m n = Some (i, Opening_pending)")
  case True
  assume ok: "manager_ok m"
  from True obtain i where n: "mg_openings m n = Some (i, Opening_pending)" by blast
  have only: "j \<noteq> i" if "mg_openings m k = Some (j, Opening_pending)" "k \<noteq> n" for k j
    using pendingD [OF ok n] pendingD [OF ok that(1)] that(2) by auto
  have free: "lv_disposed l" if "mg_lives m r = Some l" "lv_id l = i" for r l
    using pendingD [OF ok n] undisposedD [OF ok that(1)] that(2) by auto
  show ?thesis
    using ok n only free by (simp add: runtime_opened_def Let_def manager_defs less_SucI)
qed (auto simp: runtime_opened_def split: option.split opening_state.split)

lemma runtime_failed_ok: "manager_ok m \<Longrightarrow> manager_ok (runtime_failed n m)"
  by (auto simp: runtime_failed_def manager_defs split: option.split opening_state.split)

lemma leave_ok: "manager_ok m \<Longrightarrow> manager_ok (leave c r m)"
  by (auto simp: leave_def operations_zero intro: set_live_ok split: option.split)

lemma detach_ok: "manager_ok m \<Longrightarrow> manager_ok (detach_command c i m)"
  by (auto simp: detach_command_def Let_def manager_ok_update leave_ok maybeDispose_ok split: option.split)

lemma begin_operation_ok: "manager_ok m \<Longrightarrow> manager_ok (begin_operation c i m)"
  by (auto simp: begin_operation_def requireAttached_def intro!: set_live_ok split: option.split if_splits)

lemma end_operation_ok: "manager_ok m \<Longrightarrow> manager_ok (end_operation r m)"
  by (auto simp: end_operation_def operations_zero intro!: maybeDispose_ok set_live_ok split: option.split)

lemma terminate_ok: "manager_ok m \<Longrightarrow> manager_ok (terminate r m)"
  by (auto simp: terminate_def operations_zero intro!: set_live_ok split: option.split)

lemma phase_changed_ok: "manager_ok m \<Longrightarrow> manager_ok (phase_changed r idle m)"
  by (auto simp: phase_changed_def operations_zero intro!: maybeDispose_ok set_live_ok split: option.split)

lemma disposal_settled_ok: "manager_ok m \<Longrightarrow> manager_ok (disposal_settled r m)"
proof (cases "mg_lives m r")
  case (Some l)
  assume ok: "manager_ok m"
  show ?thesis
  proof (cases "\<not> lv_disposing l \<or> lv_disposed l")
    case False
    have here: "mg_liveSessions m (lv_id l) = Some r" using ok Some False by (simp add: manager_defs)
    have other: "lv_id l' \<noteq> lv_id l" if "mg_lives m k = Some l'" "\<not> lv_disposed l'" "k \<noteq> r" for k l'
      using undisposedD [OF ok that(1,2)] that(3) here by auto
    from ok Some False here other show ?thesis
      by (simp add: disposal_settled_def Let_def set_live_def manager_defs)
  qed (use ok Some in \<open>auto simp: disposal_settled_def\<close>)
qed (simp add: disposal_settled_def)

lemma disconnect_ok: "manager_ok m \<Longrightarrow> manager_ok (disconnect_command c rs m)"
proof -
  have "manager_ok m \<Longrightarrow> manager_ok (fold maybeDispose rs m)" for m
    by (induction rs arbitrary: m) (simp_all add: maybeDispose_ok)
  moreover have "manager_ok m \<Longrightarrow> manager_ok (fold (leave c) rs m)" for m
    by (induction rs arbitrary: m) (simp_all add: leave_ok)
  moreover assume "manager_ok m"
  ultimately show ?thesis by (simp add: disconnect_command_def Let_def manager_ok_update)
qed

lemma step_ok: "manager_step m m' \<Longrightarrow> manager_ok m \<Longrightarrow> manager_ok m'"
  by (induction rule: manager_step.induct)
    (simp_all add: attach_command_def acquire_ok next_ok resume_ok runtime_opened_ok runtime_failed_ok detach_ok begin_operation_ok
      end_operation_ok terminate_ok phase_changed_ok maybeDispose_ok disposal_settled_ok disconnect_ok)

lemma reachable_ok: "manager_reach m \<Longrightarrow> manager_ok m"
  by (induction rule: manager_reach.induct) (auto simp: step_ok, simp add: new_manager_def manager_defs)

section \<open>Runtimes\<close>

text \<open>The runtimes of a session that may be open: one being opened, or one whose disposal has not settled.\<close>

datatype runtime_ref = Opening_ref nat | Live_ref nat

definition open_runtimes :: "manager \<Rightarrow> session_id \<Rightarrow> runtime_ref set" where
  "open_runtimes m i =
     {Opening_ref n | n. mg_openings m n = Some (i, Opening_pending)} \<union>
     {Live_ref r | r. \<exists>l. mg_lives m r = Some l \<and> lv_id l = i \<and> \<not> lv_disposed l}"

text \<open>
  C36. However the commands of all connections, the openings, the disposals and the events of the runtimes interleave, a
  session never has two runtimes open at a time, and no operation runs on a runtime whose disposal has begun.
\<close>

theorem one_runtime_per_session:
  assumes "manager_reach m"
  shows "(\<forall>a \<in> open_runtimes m i. \<forall>b \<in> open_runtimes m i. a = b) \<and>
    (\<forall>r l. mg_lives m r = Some l \<and> lv_disposing l \<longrightarrow> lv_operationCount l = 0)"
proof -
  note ok = reachable_ok [OF assms]
  have "a = b" if "a \<in> open_runtimes m i" "b \<in> open_runtimes m i" for a b
    using that by (auto simp: open_runtimes_def dest!: pendingD [OF ok] undisposedD [OF ok])
  then show ?thesis using operations_zero [OF ok] by blast
qed

theorem one_runtime_per_session_witness:
  "\<exists>m. manager_reach m \<and> (\<forall>a \<in> open_runtimes m (js ''s''). \<forall>b \<in> open_runtimes m (js ''s''). a = b) \<and>
     open_runtimes m (js ''s'') \<noteq> {}"
proof -
  let ?m = "runtime_opened 1 True (attach_command 7 (js ''s'') new_manager)"
  have reach: "manager_reach ?m"
    by (rule manager_reach.step [OF manager_reach.step [OF manager_reach.start manager_step.attach] manager_step.opened])
  have "Live_ref 2 \<in> open_runtimes ?m (js ''s'')"
    by (simp add: open_runtimes_def runtime_opened_def attach_command_def acquire_def new_manager_def set_task_def Let_def)
  with one_runtime_per_session [OF reach, of "js ''s''"] reach show ?thesis by blast
qed

text \<open>
  A disposal begins only without connections, but \<open>attach\<close> does not ask whether one has begun since \<open>acquire\<close>
  returned: when the connection that opened a session is gone by the time the runtime is there, the next one that
  waited for the same opening is attached to a runtime that is being disposed.
\<close>

definition manager_history :: "(manager \<Rightarrow> manager) list \<Rightarrow> manager" where
  "manager_history steps = fold (\<lambda>f. f) steps new_manager"

lemma attached_to_disposing:
  "let m = manager_history
       [attach_command 7 s, attach_command 8 s, disconnect_command 7 [], runtime_opened 1 True,
        resume 0 False, resume 2 False, resume 0 False, resume 2 False]
   in mg_tasks m 2 = Some Attached \<and> s \<in> mg_sessionIds m 8 \<and>
      (\<exists>l. mg_lives m 3 = Some l \<and> 8 \<in> lv_connections l \<and> lv_disposing l)"
  by (simp add: manager_history_def attach_command_def acquire_def new_manager_def set_task_def Let_def
      disconnect_command_def runtime_opened_def resume_def opening_over_def attach_def maybeDispose_def disposable_def
      set_live_def)

end
