(* ===== verification/Spec2Isabelle.thy ===== *)
theory Spec2Isabelle
  imports Session_Properties Session_Context Recovery Protocol_Properties Agent_Properties Facade_Properties
    Repo_Properties Summary_Properties File_Tool_Properties
    Agent_Facade_Properties Mutation_Queue Uuid Stdin_Properties Client_Properties Client_Leases Live_Sessions
begin

text \<open>
  A verification development for the agent platform in \<open>src/packages\<close>: the core of
  \<open>packages/agent\<close> (the agent loop, sessions and their storage, the recovery of interrupted
  operations), the wire protocol of \<open>packages/protocol\<close> and its client (\<open>packages/client\<close>).

  \<^bold>\<open>The program.\<close> An agent run (\<open>agent-loop.ts\<close>) streams responses of a model, executes the tool calls
  in them and emits events. What happened is kept in a session (\<open>harness/session\<close>): a tree of entries
  with named lanes and a log of operation records, held in memory or in a JSONL file. After a crash
  \<open>harness/reducer.ts\<close> reads the records and entries of a lane and says where the interrupted operation
  stands; \<open>session/context.ts\<close> builds the model's context from a branch. Client and server exchange
  CBOR messages in length-prefixed frames.

  \<^bold>\<open>Theories.\<close> \<open>Js_Prelude\<close> is the prelude: JavaScript numbers, thrown errors as sums (\<open>andThen\<close>,
  \<open>require\<close>, \<open>foldR\<close>), \<open>Map\<close> as association lists, and shared lemmas. Then, by component:

  \<^item> \<open>Messages\<close>: content blocks, messages and \<open>convertToLlm\<close> (\<open>ai/src/types.ts\<close>, \<open>harness/messages.ts\<close>).
  \<^item> \<open>Session_Types\<close>, \<open>Session_State\<close>: the data of a session and the class \<open>SessionState\<close>, whose fields
    are the record \<open>session_state\<close> (\<open>session/types.ts\<close>, \<open>session/state.ts\<close>). \<open>Session_Invariant\<close> has its
    invariant \<open>wf_state\<close> and the exact conditions of \<open>applyMutation\<close>, \<open>Session_Queries\<close> closed forms of
    the queries and of the branch walk, \<open>Session_Fork\<close> the replay of forks.
  \<^item> \<open>Session_Memory\<close>: storage and repository of \<open>session/memory.ts\<close>, the contract \<open>session_storage\<close>
    (a locale) and its interpretation. \<open>Session_Context\<close>: \<open>session/context.ts\<close>.
  \<^item> \<open>Json_Text\<close>, \<open>Json_Roundtrip\<close>: \<open>JSON.stringify\<close> and \<open>JSON.parse\<close>, their round trip, and that no proper
    prefix of an object's text parses. \<open>Jsonl_Codec\<close>, \<open>Jsonl_Roundtrip\<close>: the lines of a session file
    (\<open>session/jsonl/codec.ts\<close>). \<open>File_System\<close>: the file system as a parameter, the combinators of its
    callers, and \<open>disk\<close>, what its interface documents. \<open>Jsonl_Storage\<close>: \<open>session/jsonl/storage.ts\<close>.
    \<open>Jsonl_Recovery\<close> (loading a log cut anywhere in its last line), \<open>Jsonl_Durability\<close> (the storage does
    what the in-memory one does) and \<open>Jsonl_Fork\<close> (forks are published whole; \<open>session_storage\<close> again).
  \<^item> \<open>Jsonl_Repo\<close>, \<open>Repo_Properties\<close>: the repository of session files, \<open>session/jsonl/repo.ts\<close>; what the
    directories of the file system promise are the laws \<open>directories\<close> and \<open>truthful\<close>.
  \<^item> \<open>Compaction\<close>, \<open>Compaction_Lemmas\<close>, \<open>Compaction_Properties\<close>: \<open>harness/compaction\<close> up to the model call,
    that is token estimates, cut points, the preparation of compactions and branch summaries.
    \<open>Summaries\<close>: the prompts and the generated summaries. \<open>Branch_Entries\<close>: the entries a branch summary
    is about, over the facade. \<open>Retry\<close>, \<open>Retry_Properties\<close>: \<open>ai/src/utils/retry.ts\<close>.
    \<open>Summary_Properties\<close>: the properties of both.
  \<^item> \<open>Truncation\<close>, \<open>Text_Edits\<close>, \<open>Image_Bytes\<close>, \<open>File_Tools\<close>: what the model's file tools do with text
    (\<open>harness/utils/truncate.ts\<close> and \<open>harness/tools\<close>) over an execution environment that is a parameter.
    \<open>Truncation_Properties\<close>, \<open>Edit_Properties\<close>, \<open>Edit_Lines\<close> and \<open>File_Tool_Properties\<close> show that truncation
    keeps as much as fits, that edits change what they name and nothing else, and that the edit tool is atomic.
    \<open>Mutation_Queue\<close>: the queue that serializes changes of one file, as a step relation over all interleavings.
  \<^item> \<open>Agent_Facade\<close>, \<open>Agent_Facade_Properties\<close>: the class \<open>Agent\<close> (\<open>agent.ts\<close>) around the loop, its queues, the
    transcript and the life of a run; \<open>Agent_Invariants\<close> says what a run keeps of the world (locale
    \<open>run_invariant\<close>), which the facade uses for its transcript.
  \<^item> \<open>Uuid\<close>: the generator of time-ordered ids (\<open>ai/src/utils/uuid.ts\<close>). \<open>Stdin_Buffer\<close>, \<open>Stdin_Properties\<close>:
    the splitter of terminal input (\<open>tui/src/stdin-buffer.ts\<close>) and its independence of how input is chunked.
  \<^item> \<open>Json_Check\<close>, \<open>Session_Facade\<close>: \<open>session/session.ts\<close>, the check of payloads on object graphs and the
    facade over any storage that meets the contract \<open>facade_storage\<close>; \<open>Facade_Properties\<close> interprets it
    for the file-backed storage.
  \<^item> \<open>Reducer_Log\<close>, \<open>Reducer\<close>, \<open>Reducer_Properties\<close>, \<open>Recovery\<close>: \<open>harness/reducer.ts\<close>, the validation of a
    lane's records and the reduction to the state of its operation.
  \<^item> \<open>Agent_Response\<close>, \<open>Agent_Tools\<close>, \<open>Agent_Loop\<close>: \<open>agent-loop.ts\<close> with its callbacks as the record
    \<open>environment\<close>, functions of a world. A parallel tool batch is a list of tasks that an arbitrary
    scheduler steps (\<open>run_tasks\<close>); a run is \<open>partial_function (option)\<close>, None when it never ends.
    \<open>Agent_Events\<close> has the event protocol as an automaton, \<open>Agent_Batches\<close> the contract of the four ways
    to run a batch (locale \<open>batch_runner\<close>), \<open>Agent_Runs\<close> whole runs, \<open>Agent_Equivalence\<close> parallel against
    sequential batches.
  \<^item> \<open>Text_Encoding\<close>, \<open>Cbor_Encoder\<close>, \<open>Cbor_Decoder\<close>, \<open>Framing\<close>, \<open>Codec\<close>: \<open>packages/protocol\<close>. \<open>Cbor_Spec\<close>
    is the reference encoding the buffer-growing encoder computes (locale \<open>byte_sink\<close>), \<open>Cbor_Roundtrip\<close>
    and \<open>Cbor_Sound\<close> relate it with the decoder, \<open>Framing_Spec\<close> refines the incremental frame decoder to a
    parser of the whole stream (locale \<open>stream_decoder\<close>).
  \<^item> \<open>Client_State\<close>, \<open>Client\<close>, \<open>Client_Properties\<close>: \<open>packages/client\<close>, the state a client keeps of the server and the
    handlers of its connection and requests over a log of effects, in every order of events. \<open>Client_Leases\<close>: the
    leases of sessions, with a step for every promise they wait for. \<open>Live_Sessions\<close>: the server's side,
    \<open>server/src/sessions.ts\<close>, the runtimes that connections share, over all interleavings.
  \<^item> \<open>*_Properties\<close> and \<open>Recovery\<close> hold the main theorems, each with a witness on a concrete input.

  \<^bold>\<open>Bounds and fuel.\<close> The branch walk ends because every step visits a new id; \<open>run_tasks\<close> because every
  task has finitely many steps left; the JSON parser has fuel, and the length of the text is enough
  (\<open>parse_json_stringify\<close>). \<open>check_loop\<close>, \<open>run_loop\<close> and \<open>collect_back\<close> are partial functions in the option
  monad; that they return is proved (\<open>payload_check_decides\<close>, \<open>run_ends_under_stop_hook\<close>,
  \<open>branch_summary_entries\<close>). The retry loop ends because its attempts are counted.

  \<^bold>\<open>Parameters.\<close> Third-party and system code is an argument: the model's stream function, tools and hooks,
  the typebox schema checks and \<open>Guard.IsDeepEqual\<close>, the file system, the sleep of the retry loop, the clock, the id generator, the
  decimal text of fractions, and the layout of the payloads that the line codec casts without checking
  them (record \<open>representation\<close>).

  \<^bold>\<open>Not modelled.\<close> Providers, authentication, terminal and desktop user interfaces, the coding agent's
  command line, and the transports, which are I/O around the modelled core; prototypes and accessors of
  JavaScript objects except in \<open>Json_Check\<close>; strings of sessions and agents are lists of 8-bit characters
  (the protocol's are lists of UTF-16 units). Every part of the system is listed with its status in the
  manifest of this development.
\<close>

end
